(* ===== verification/Prelude.thy ===== *)
theory Prelude
  imports Main "HOL-Library.Multiset" "HOL-Library.List_Lexorder" "HOL-Library.Char_ord"
begin

text \<open>
  The vocabulary the component theories share: type names for the program's identifiers and
  timestamps, the JavaScript array and string operations the sources use (\<open>find\<close> is HOL's own
  \<^const>\<open>List.find\<close>), stable sorting, and the facts about them that carry the component proofs.

  Conventions of the whole development:
  \<^item> a JavaScript string is a \<^typ>\<open>string\<close>, compared with the lexicographic order of
    \<open>List_Lexorder\<close> and \<open>Char_ord\<close>, which is the order \<open><\<close> has on code units;
  \<^item> an ISO timestamp is an \<open>instant\<close>, its number of milliseconds. The sources only ever compare
    timestamps that \<open>toISOString\<close> wrote, and on that fixed-width format the string order is the
    order of the instants;
  \<^item> \<open>null\<close> and \<open>undefined\<close> are \<^const>\<open>None\<close>; a thrown error is an \<^const>\<open>Inl\<close> value;
  \<^item> an array is a list, \<open>xs.at(-1)\<close> is \<open>at_last\<close>, \<open>some\<close> is \<^const>\<open>list_ex\<close>, \<open>every\<close> is
    \<^const>\<open>list_all\<close>, and the mutation of the element that \<open>find\<close> returned is \<open>update_first\<close>.
\<close>

type_synonym id = string
type_synonym instant = int

named_theorems frame_simps "fields an operation leaves unchanged"
named_theorems op_defs "definitions of operations, for unfolding"
named_theorems inv_intros "operations preserve an invariant"

section \<open>Arrays\<close>

definition at_last :: "'a list \<Rightarrow> 'a option" where
  "at_last xs = (if xs = [] then None else Some (last xs))"

lemma at_last_simps [simp]:
  "at_last [] = None"
  "at_last (xs @ [x]) = Some x"
  "at_last xs = None \<longleftrightarrow> xs = []"
  by (auto simp: at_last_def)

lemma at_last_in_set: "at_last xs = Some x \<Longrightarrow> x \<in> set xs"
  by (auto simp: at_last_def split: if_splits)

lemma at_last_Cons [simp]: "at_last (x # xs) = (if xs = [] then Some x else at_last xs)"
  by (simp add: at_last_def)

fun find_index :: "('a \<Rightarrow> bool) \<Rightarrow> 'a list \<Rightarrow> nat option" where
  "find_index P [] = None"
| "find_index P (x # xs) = (if P x then Some 0 else map_option Suc (find_index P xs))"

lemma find_index_Some:
  "find_index P xs = Some i \<Longrightarrow> i < length xs \<and> P (xs ! i) \<and> (\<forall>j < i. \<not> P (xs ! j))"
proof (induction xs arbitrary: i)
  case (Cons x xs)
  then show ?case
    by (cases i) (auto simp: less_Suc_eq_0_disj split: if_splits)
qed simp

lemma find_index_None: "find_index P xs = None \<longleftrightarrow> (\<forall>x \<in> set xs. \<not> P x)"
  by (induction xs) auto

lemma find_Some_iff_set:
  "List.find P xs = Some x \<Longrightarrow> x \<in> set xs \<and> P x"
  by (induction xs) (auto split: if_splits)

lemma find_None_set: "List.find P xs = None \<longleftrightarrow> (\<forall>x \<in> set xs. \<not> P x)"
  by (induction xs) auto

fun update_first :: "('a \<Rightarrow> bool) \<Rightarrow> ('a \<Rightarrow> 'a) \<Rightarrow> 'a list \<Rightarrow> 'a list" where
  "update_first P f [] = []"
| "update_first P f (x # xs) = (if P x then f x # xs else x # update_first P f xs)"

lemma length_update_first [simp]: "length (update_first P f xs) = length xs"
  by (induction xs) auto

lemma update_first_id: "\<forall>x \<in> set xs. \<not> P x \<Longrightarrow> update_first P f xs = xs"
  by (induction xs) auto

lemma map_update_first_key:
  "(\<And>x. g (f x) = g x) \<Longrightarrow> map g (update_first P f xs) = map g xs"
  by (induction xs) auto

lemma find_update_first_same:
  "(\<And>x. P x \<Longrightarrow> P (f x)) \<Longrightarrow> List.find P (update_first P f xs) = map_option f (List.find P xs)"
  by (induction xs) auto

lemma find_update_first_other:
  "(\<And>x. P x \<Longrightarrow> \<not> Q x \<and> \<not> Q (f x)) \<Longrightarrow> List.find Q (update_first P f xs) = List.find Q xs"
  by (induction xs) auto

lemma set_update_first: "set (update_first P f xs) \<subseteq> set xs \<union> f ` {x \<in> set xs. P x}"
  by (induction xs) auto

text \<open>\<open>Array.from(new Set(xs))\<close>: the first occurrence of each element, in order.\<close>

definition remdups_first :: "'a list \<Rightarrow> 'a list" where
  "remdups_first xs = rev (remdups (rev xs))"

lemma remdups_first_simps [simp]: "set (remdups_first xs) = set xs" "distinct (remdups_first xs)"
  by (simp_all add: remdups_first_def)

section \<open>Strings\<close>

definition starts_with :: "string \<Rightarrow> string \<Rightarrow> bool" where
  "starts_with s p \<longleftrightarrow> take (length p) s = p"

lemma starts_with_append [simp]: "starts_with (p @ s) p"
  by (simp add: starts_with_def)

lemma starts_with_self [simp]: "starts_with p p"
  by (simp add: starts_with_def)

fun digits_of_nat :: "nat \<Rightarrow> string" where
  "digits_of_nat n =
     (if n < 10 then [char_of (48 + n)] else digits_of_nat (n div 10) @ [char_of (48 + n mod 10)])"

declare digits_of_nat.simps [simp del]

definition str_of_nat :: "nat \<Rightarrow> string" where
  "str_of_nat n = digits_of_nat n"

definition str_of_int :: "int \<Rightarrow> string" where
  "str_of_int i = (if i < 0 then ''-'' @ digits_of_nat (nat (- i)) else digits_of_nat (nat i))"

fun nat_of_digits :: "nat \<Rightarrow> string \<Rightarrow> nat" where
  "nat_of_digits acc [] = acc"
| "nat_of_digits acc (c # cs) = nat_of_digits (10 * acc + (of_char c - 48)) cs"

definition is_digit :: "char \<Rightarrow> bool" where
  "is_digit c \<longleftrightarrow> 48 \<le> (of_char c :: nat) \<and> (of_char c :: nat) \<le> 57"

lemma of_char_digit: "n < 10 \<Longrightarrow> (of_char (char_of (48 + n) :: char) :: nat) = 48 + n"
  by simp

lemma nat_of_digits_append:
  "nat_of_digits acc (xs @ [c]) = 10 * nat_of_digits acc xs + (of_char c - 48)"
  by (induction xs arbitrary: acc) auto

lemma nat_of_digits_of_nat [simp]: "nat_of_digits 0 (digits_of_nat n) = n"
proof (induction n rule: digits_of_nat.induct)
  case (1 n)
  then show ?case
    by (subst digits_of_nat.simps) (auto simp: nat_of_digits_append)
qed

lemma digits_of_nat_inj: "digits_of_nat m = digits_of_nat n \<longleftrightarrow> m = n"
  by (metis nat_of_digits_of_nat)

lemma digits_of_nat_nonempty [simp]: "digits_of_nat n \<noteq> []"
  by (subst digits_of_nat.simps) simp

lemma digits_of_nat_digits: "c \<in> set (digits_of_nat n) \<Longrightarrow> is_digit c"
proof (induction n rule: digits_of_nat.induct)
  case (1 n)
  show ?case
  proof (cases "n < 10")
    case True
    with 1 show ?thesis by (subst (asm) digits_of_nat.simps) (simp add: is_digit_def)
  next
    case False
    with 1 show ?thesis
      by (subst (asm) digits_of_nat.simps) (auto simp: is_digit_def)
  qed
qed

text \<open>\<open>Number(s)\<close> on the decimal texts that \<open>String(n)\<close> writes for a natural number; every other text
  counts as \<open>NaN\<close>, here \<^const>\<open>None\<close>.\<close>

definition number_of :: "string \<Rightarrow> nat option" where
  "number_of s = (if s \<noteq> [] \<and> list_all is_digit s then Some (nat_of_digits 0 s) else None)"

lemma number_of_str_of_nat [simp]: "number_of (str_of_nat n) = Some n"
  by (simp add: number_of_def str_of_nat_def list_all_iff digits_of_nat_digits)

text \<open>\<open>s.includes(p)\<close>, and the case-insensitive prefix test of a regular expression \<open>/^p/i\<close> with a
  lower-case literal \<open>p\<close>.\<close>

definition contains :: "string \<Rightarrow> string \<Rightarrow> bool" where
  "contains s p \<longleftrightarrow> list_ex (\<lambda>i. starts_with (drop i s) p) [0..<Suc (length s)]"

definition to_lower :: "char \<Rightarrow> char" where
  "to_lower c = (if 65 \<le> (of_char c :: nat) \<and> (of_char c :: nat) \<le> 90 then char_of ((of_char c :: nat) + 32) else c)"

definition starts_with_ci :: "string \<Rightarrow> string \<Rightarrow> bool" where
  "starts_with_ci s p \<longleftrightarrow> starts_with (map to_lower s) p"

text \<open>The em dash the program's messages contain, as its UTF-8 bytes.\<close>

definition emdash :: string where
  "emdash = [CHR 0xE2, CHR 0x80, CHR 0x94]"

section \<open>Timestamps\<close>

text \<open>\<open>new Date(t).toISOString()\<close> for the years 0 to 9999: the civil date of the day count (proleptic
  Gregorian calendar, counted from 1 March of year 0) and the time of day.\<close>

definition pad :: "nat \<Rightarrow> int \<Rightarrow> string" where
  "pad w n = (let d = digits_of_nat (nat n) in replicate (w - length d) (CHR ''0'') @ d)"

definition civil_of_days :: "int \<Rightarrow> int \<times> int \<times> int" where
  "civil_of_days days =
     (let z = days + 719468; era = z div 146097; doe = z mod 146097;
          yoe = (doe - doe div 1460 + doe div 36524 - doe div 146096) div 365;
          doy = doe - (365 * yoe + yoe div 4 - yoe div 100);
          mp = (5 * doy + 2) div 153;
          d = doy - (153 * mp + 2) div 5 + 1;
          m = (if mp < 10 then mp + 3 else mp - 9);
          y = yoe + era * 400 + (if m \<le> 2 then 1 else 0)
      in (y, m, d))"

definition iso :: "instant \<Rightarrow> string" where
  "iso t =
     (let (y, m, d) = civil_of_days (t div 86400000); ms = t mod 86400000 in
      pad 4 y @ ''-'' @ pad 2 m @ ''-'' @ pad 2 d @ ''T'' @ pad 2 (ms div 3600000) @ '':'' @
      pad 2 (ms div 60000 mod 60) @ '':'' @ pad 2 (ms div 1000 mod 60) @ ''.'' @ pad 3 (ms mod 1000) @ ''Z'')"

section \<open>Sorting\<close>

text \<open>
  \<open>Array.prototype.sort\<close> is stable; with a comparator that orders by a key it is
  \<^const>\<open>sort_key\<close>, also stable.
\<close>

lemma sort_key_set [simp]: "set (sort_key f xs) = set xs"
  by simp

lemma hd_sort_key_min:
  assumes "sort_key f xs = y # ys" and "x \<in> set xs"
  shows "f y \<le> f x"
proof -
  have "sorted (map f (sort_key f xs))" by simp
  moreover have "x \<in> set (sort_key f xs)" using assms(2) by simp
  ultimately show ?thesis using assms(1) by auto
qed

section \<open>Sums over lists\<close>

lemma sum_list_append_single [simp]: "sum_list (xs @ [x]) = sum_list xs + (x :: 'a::comm_monoid_add)"
  by simp

lemma sum_list_nonneg_int: "(\<And>x. x \<in> set xs \<Longrightarrow> 0 \<le> f x) \<Longrightarrow> 0 \<le> sum_list (map f xs :: int list)"
  by (induction xs) auto

section \<open>Tables\<close>

text \<open>
  A table is the list of its rows in row-id order. \<open>UPDATE \<dots> SET f WHERE P\<close> changes every row that
  satisfies \<open>P\<close> and reports how many it changed.
\<close>

definition sql_update :: "('r \<Rightarrow> bool) \<Rightarrow> ('r \<Rightarrow> 'r) \<Rightarrow> 'r list \<Rightarrow> 'r list \<times> nat" where
  "sql_update P f rows = (map (\<lambda>r. if P r then f r else r) rows, length (filter P rows))"

lemma sql_update_none: "\<forall>r \<in> set rows. \<not> P r \<Longrightarrow> sql_update P f rows = (rows, 0)"
  by (auto simp: sql_update_def filter_empty_conv intro: map_idI)

lemma sql_update_rows: "fst (sql_update P f rows) = map (\<lambda>r. if P r then f r else r) rows"
  by (simp add: sql_update_def)

lemma sql_update_key:
  "(\<And>r. k (f r) = k r) \<Longrightarrow> map k (fst (sql_update P f rows)) = map k rows"
  by (auto simp: sql_update_def)

lemma filter_unique_length:
  "distinct (map k xs) \<Longrightarrow> x \<in> set xs \<Longrightarrow> length (filter (\<lambda>y. k y = k x \<and> Q y) xs) = (if Q x then 1 else 0)"
proof (induction xs)
  case (Cons y ys)
  show ?case
  proof (cases "k y = k x")
    case True
    then have "y = x" using Cons.prems by (auto simp: image_iff)
    moreover have "filter (\<lambda>z. k z = k x \<and> Q z) ys = []"
      using Cons.prems True by (auto simp: filter_empty_conv image_iff)
    ultimately show ?thesis by simp
  next
    case False
    with Cons show ?thesis by auto
  qed
qed simp

lemma find_key_map:
  "(\<And>r. k (f r) = k r) \<Longrightarrow>
   List.find (\<lambda>r. k r = x) (map f rows) = map_option f (List.find (\<lambda>r. k r = x) rows)"
  by (induction rows) auto

section \<open>Lengths of filters\<close>

lemma length_filter_mono: "(\<And>x. x \<in> set xs \<Longrightarrow> P x \<Longrightarrow> Q x) \<Longrightarrow> length (filter P xs) \<le> length (filter Q xs)"
  by (induction xs) auto

lemma length_filter_strict_mono:
  assumes "x \<in> set xs" "\<not> P x" "Q x" "\<And>y. y \<in> set xs \<Longrightarrow> P y \<Longrightarrow> Q y"
  shows "length (filter P xs) < length (filter Q xs)"
  using assms
proof (induction xs)
  case (Cons y ys)
  have le: "length (filter P ys) \<le> length (filter Q ys)" using Cons.prems by (intro length_filter_mono) auto
  show ?case
  proof (cases "x \<in> set ys")
    case True
    with Cons have "length (filter P ys) < length (filter Q ys)" by simp
    then show ?thesis using Cons.prems(4) [of y] by auto
  next
    case False
    then have "y = x" using Cons.prems(1) by simp
    then show ?thesis using le Cons.prems(2,3) by simp
  qed
qed simp

lemma filter_update_first_less:
  "List.find P xs = Some x \<Longrightarrow> Q x \<Longrightarrow> \<not> Q (f x) \<Longrightarrow> length (filter Q (update_first P f xs)) + 1 = length (filter Q xs)"
  by (induction xs) (auto split: if_splits)

lemma filter_update_first_same:
  "List.find P xs = Some x \<Longrightarrow> Q x = Q (f x) \<Longrightarrow> length (filter Q (update_first P f xs)) = length (filter Q xs)"
  by (induction xs) (auto split: if_splits)

end
