(* ===== verification/Run_Model.thy ===== *)
theory Run_Model
  imports Prelude
begin

text \<open>
  The run lifecycle of \<^verbatim>\<open>src/src/domain/run.ts\<close>: run statuses, the twelve canonical stages,
  stage states and records, the run document, and the progress projection.
\<close>

section \<open>Statuses, stages, stage records\<close>

datatype run_status =
  RunCreated | RunQueued | RunRunning | RunPaused | RunPartial | RunCompleted | RunFailed | RunCancelled

datatype run_stage_name =
  Scope | Retrieve | Verify_sources | Build_evidence | Generate_hypotheses
| Critique_falsify | Rank | Plan | Execute | Feedback | Revise | Export

datatype stage_state = SPending | SRunning | SDone | SFailed | SSkipped

fun stage_str :: "run_stage_name \<Rightarrow> string" where
  "stage_str Scope = ''scope''"
| "stage_str Retrieve = ''retrieve''"
| "stage_str Verify_sources = ''verify_sources''"
| "stage_str Build_evidence = ''build_evidence''"
| "stage_str Generate_hypotheses = ''generate_hypotheses''"
| "stage_str Critique_falsify = ''critique_falsify''"
| "stage_str Rank = ''rank''"
| "stage_str Plan = ''plan''"
| "stage_str Execute = ''execute''"
| "stage_str Feedback = ''feedback''"
| "stage_str Revise = ''revise''"
| "stage_str Export = ''export''"

fun status_str :: "run_status \<Rightarrow> string" where
  "status_str RunCreated = ''created''"
| "status_str RunQueued = ''queued''"
| "status_str RunRunning = ''running''"
| "status_str RunPaused = ''paused''"
| "status_str RunPartial = ''partial''"
| "status_str RunCompleted = ''completed''"
| "status_str RunFailed = ''failed''"
| "status_str RunCancelled = ''cancelled''"

fun stage_state_str :: "stage_state \<Rightarrow> string" where
  "stage_state_str SPending = ''pending''"
| "stage_state_str SRunning = ''running''"
| "stage_state_str SDone = ''done''"
| "stage_state_str SFailed = ''failed''"
| "stage_state_str SSkipped = ''skipped''"

lemma stage_str_inj [simp]: "stage_str a = stage_str b \<longleftrightarrow> a = b"
  by (cases a; cases b) simp_all

record subtasks =
  st_known :: bool
  st_done :: int
  st_total :: int

record stage_record =
  sr_stage :: run_stage_name
  sr_state :: stage_state
  sr_attempt :: nat
  sr_startedAt :: "instant option"
  sr_endedAt :: "instant option"
  sr_error :: "string option"
  sr_subtasks :: "subtasks option"
  sr_checkpointRef :: "string option"

datatype route = Route_zai | Route_dashscope | Route_deepseek | Route_universal

record research_run =
  run_id :: id
  run_questionId :: id
  run_status :: run_status
  run_currentStage :: run_stage_name
  run_stages :: "stage_record list"
  run_createdAt :: instant
  run_updatedAt :: instant
  run_lastError :: "string option"
  run_cancelRequested :: bool
  run_parentRunId :: "id option"
  run_tags :: "string list"
  run_providerConfigId :: "id option"
  run_routeOverride :: "route option"

definition STAGE_ORDER :: "run_stage_name list" where
  "STAGE_ORDER = [Scope, Retrieve, Verify_sources, Build_evidence, Generate_hypotheses,
     Critique_falsify, Rank, Plan, Execute, Feedback, Revise, Export]"

lemma STAGE_ORDER_distinct: "distinct STAGE_ORDER"
  by (simp add: STAGE_ORDER_def)

lemma STAGE_ORDER_all [simp]: "s \<in> set STAGE_ORDER"
  by (cases s) (simp_all add: STAGE_ORDER_def)

lemma STAGE_ORDER_length [simp]: "length STAGE_ORDER = 12"
  by (simp add: STAGE_ORDER_def)

text \<open>The stage record a freshly created run has for a stage: \<open>pending\<close>, with the schema's
  default attempt of 1.\<close>

definition pending_record :: "run_stage_name \<Rightarrow> stage_record" where
  "pending_record s = \<lparr>sr_stage = s, sr_state = SPending, sr_attempt = 1, sr_startedAt = None,
     sr_endedAt = None, sr_error = None, sr_subtasks = None, sr_checkpointRef = None\<rparr>"

definition find_stage :: "run_stage_name \<Rightarrow> stage_record list \<Rightarrow> stage_record option" where
  "find_stage s rs = List.find (\<lambda>r. sr_stage r = s) rs"

definition settled :: "stage_state \<Rightarrow> bool" where
  "settled s \<longleftrightarrow> s = SDone \<or> s = SSkipped"

definition core_stages :: "run_stage_name list" where
  "core_stages = filter (\<lambda>s. s \<noteq> Feedback \<and> s \<noteq> Revise \<and> s \<noteq> Execute) STAGE_ORDER"

definition runProgress :: "research_run \<Rightarrow> subtasks" where
  "runProgress r =
     \<lparr>st_known = True,
      st_done = int (length (filter (\<lambda>s.
        case find_stage s (run_stages r) of None \<Rightarrow> False | Some rec \<Rightarrow> settled (sr_state rec))
        core_stages)),
      st_total = int (length core_stages)\<rparr>"

section \<open>Well-formed runs\<close>

text \<open>
  Every run the program creates carries exactly one record per canonical stage, in order.
\<close>

definition wf_stages :: "stage_record list \<Rightarrow> bool" where
  "wf_stages rs \<longleftrightarrow> map sr_stage rs = STAGE_ORDER"

lemma wf_stages_pending: "wf_stages (map pending_record STAGE_ORDER)"
  by (simp add: wf_stages_def comp_def pending_record_def)

lemma wf_stages_find: "wf_stages rs \<Longrightarrow> \<exists>rec. find_stage s rs = Some rec \<and> sr_stage rec = s"
proof -
  assume "wf_stages rs"
  then have "s \<in> sr_stage ` set rs"
    by (metis STAGE_ORDER_all image_set wf_stages_def)
  then have "find_stage s rs \<noteq> None"
    unfolding find_stage_def find_None_set by auto
  then show ?thesis
    by (auto simp: find_stage_def dest: find_Some_iff_set)
qed

lemma wf_stages_update:
  "wf_stages rs \<Longrightarrow> (\<And>r. sr_stage (f r) = sr_stage r) \<Longrightarrow> wf_stages (update_first P f rs)"
  by (simp add: wf_stages_def map_update_first_key)

lemma find_stage_update_same:
  "(\<And>r. sr_stage (f r) = sr_stage r) \<Longrightarrow>
   find_stage s (update_first (\<lambda>r. sr_stage r = s) f rs) = map_option f (find_stage s rs)"
  by (simp add: find_stage_def find_update_first_same)

lemma find_stage_update_other:
  "(\<And>r. sr_stage (f r) = sr_stage r) \<Longrightarrow> t \<noteq> s \<Longrightarrow>
   find_stage t (update_first (\<lambda>r. sr_stage r = s) f rs) = find_stage t rs"
  by (auto simp: find_stage_def intro: find_update_first_other)

text \<open>Progress never exceeds its total, and the bar is full exactly when every core stage is
  settled: infeasible \<open>execute\<close>, \<open>feedback\<close> and \<open>revise\<close> stages never hold it back.\<close>

lemma runProgress_bounds: "0 \<le> st_done (runProgress r) \<and> st_done (runProgress r) \<le> st_total (runProgress r)"
  by (simp add: runProgress_def)

lemma filter_length_eq_iff: "length (filter P xs) = length xs \<longleftrightarrow> (\<forall>x \<in> set xs. P x)"
  by (metis filter_id_conv length_filter_less less_irrefl filter_True)

lemma runProgress_full_iff:
  "st_done (runProgress r) = st_total (runProgress r) \<longleftrightarrow>
   (\<forall>s \<in> set core_stages. \<exists>rec. find_stage s (run_stages r) = Some rec \<and> settled (sr_state rec))"
  by (auto simp: runProgress_def filter_length_eq_iff split: option.splits)

end
