(* ===== verification/Workflow_Plan.thy ===== *)
theory Workflow_Plan
  imports Run_Model
begin

text \<open>
  Workflow-as-data, \<^verbatim>\<open>src/src/domain/workflow-plan.ts\<close>: typed steps, the schema's validation
  (unique step ids, declared dependencies, no self-dependency, acyclicity by depth-first search),
  the default linear plan and the choice of the next runnable step.

  Shown here: the validator's cycle search is sound and complete for the dependency relation, a
  validated plan never deadlocks, the chosen step is always one whose dependencies are settled,
  and on the default plan the choice is exactly the walk along \<^const>\<open>STAGE_ORDER\<close>.
\<close>

section \<open>Steps and plans\<close>

text \<open>
  A step's \<open>kind\<close> and \<open>completion\<close> are fixed by its target: a stage step completes when its stage
  record is terminal, an agent step when its session returned a valid result.
\<close>

datatype step_target = StageTarget run_stage_name | AgentTarget string

record workflow_step =
  ws_id :: id
  ws_after :: "id list"
  ws_attemptCap :: nat
  ws_target :: step_target

datatype plan_origin = Origin_default | Origin_kernel | Origin_revision

record workflow_plan =
  wp_id :: id
  wp_runId :: id
  wp_version :: nat
  wp_origin :: plan_origin
  wp_createdAt :: instant
  wp_steps :: "workflow_step list"
  wp_revisedFrom :: "id option"

fun target_str :: "step_target \<Rightarrow> string" where
  "target_str (StageTarget s) = stage_str s"
| "target_str (AgentTarget c) = c"

fun is_agent :: "step_target \<Rightarrow> bool" where
  "is_agent (AgentTarget _) = True"
| "is_agent (StageTarget _) = False"

section \<open>Schema validation\<close>

datatype plan_issue =
  EmptyField | NoSteps | BadAttemptCap | BadVersion
| DuplicateStepId id | UndeclaredDependency id id | SelfDependency id | CyclicDependencies

definition step_shape_issues :: "workflow_step \<Rightarrow> plan_issue list" where
  "step_shape_issues s =
     (if ws_id s = [] then [EmptyField] else []) @
     (if [] \<in> set (ws_after s) then [EmptyField] else []) @
     (if ws_attemptCap s = 0 then [BadAttemptCap] else []) @
     (if ws_target s = AgentTarget [] then [EmptyField] else [])"

definition plan_shape_issues :: "workflow_plan \<Rightarrow> plan_issue list" where
  "plan_shape_issues p =
     (if wp_id p = [] \<or> wp_runId p = [] \<or> wp_revisedFrom p = Some [] then [EmptyField] else []) @
     (if wp_version p = 0 then [BadVersion] else []) @
     (if wp_steps p = [] then [NoSteps] else []) @
     concat (map step_shape_issues (wp_steps p))"

fun duplicate_issues :: "id set \<Rightarrow> workflow_step list \<Rightarrow> plan_issue list" where
  "duplicate_issues seen [] = []"
| "duplicate_issues seen (s # ss) =
     (if ws_id s \<in> seen then [DuplicateStepId (ws_id s)] else []) @
     duplicate_issues (insert (ws_id s) seen) ss"

text \<open>\<open>byId\<close> is filled in step order, so the last step with an id wins.\<close>

definition by_id :: "workflow_step list \<Rightarrow> id \<Rightarrow> workflow_step option" where
  "by_id ss i = List.find (\<lambda>s. ws_id s = i) (rev ss)"

definition dependency_issues :: "workflow_step list \<Rightarrow> plan_issue list" where
  "dependency_issues ss = concat (map (\<lambda>s. concat (map (\<lambda>dep.
      (if by_id ss dep = None then [UndeclaredDependency (ws_id s) dep] else []) @
      (if dep = ws_id s then [SelfDependency (ws_id s)] else [])) (ws_after s))) ss)"

text \<open>
  The depth-first search. \<open>visiting\<close> is restored by the source before every successful return, so
  it is a parameter here; \<open>visited\<close> is threaded. \<^const>\<open>None\<close> is the answer \<open>false\<close>, after which
  the source stops searching.
\<close>

lemma by_id_Some: "by_id ss i = Some s \<Longrightarrow> s \<in> set ss \<and> ws_id s = i"
  by (auto simp: by_id_def dest: find_Some_iff_set)

lemma by_id_None: "by_id ss i = None \<longleftrightarrow> i \<notin> ws_id ` set ss"
  by (auto simp: by_id_def find_None_set)

definition unvisited_count :: "workflow_step list \<Rightarrow> id list \<Rightarrow> nat" where
  "unvisited_count ss visiting = card (ws_id ` set ss - set visiting)"

lemma unvisited_count_less:
  assumes "by_id ss i = Some s" and "i \<notin> set visiting"
  shows "unvisited_count ss (i # visiting) < unvisited_count ss visiting"
proof -
  have "i \<in> ws_id ` set ss" using by_id_Some [OF assms(1)] by auto
  then have "ws_id ` set ss - set (i # visiting) \<subset> ws_id ` set ss - set visiting"
    using assms(2) by auto
  then show ?thesis
    unfolding unvisited_count_def by (intro psubset_card_mono) auto
qed

function visit :: "workflow_step list \<Rightarrow> id list \<Rightarrow> id list \<Rightarrow> id \<Rightarrow> id list option"
  and visit_all :: "workflow_step list \<Rightarrow> id list \<Rightarrow> id list \<Rightarrow> id list \<Rightarrow> id list option" where
  "visit ss visiting visited i =
     (if i \<in> set visiting then None
      else if i \<in> set visited then Some visited
      else case by_id ss i of
        None \<Rightarrow> None
      | Some step \<Rightarrow>
          map_option ((#) i) (visit_all ss (i # visiting) visited (ws_after step)))"
| "visit_all ss visiting visited [] = Some visited"
| "visit_all ss visiting visited (d # ds) =
     (case visit ss visiting visited d of
        None \<Rightarrow> None
      | Some visited' \<Rightarrow> visit_all ss visiting visited' ds)"
  by pat_completeness auto
termination
  by (relation "measures [\<lambda>x. case x of Inl (ss, visiting, _, _) \<Rightarrow> unvisited_count ss visiting
                                     | Inr (ss, visiting, _, _) \<Rightarrow> unvisited_count ss visiting,
                          \<lambda>x. case x of Inl _ \<Rightarrow> 0 | Inr (_, _, _, ds) \<Rightarrow> Suc (length ds)]")
     (auto simp: unvisited_count_less)

declare visit.simps [simp del]

definition cycle_issues :: "workflow_step list \<Rightarrow> plan_issue list" where
  "cycle_issues ss = (if visit_all ss [] [] (map ws_id ss) = None then [CyclicDependencies] else [])"

definition refine_issues :: "workflow_plan \<Rightarrow> plan_issue list" where
  "refine_issues p =
     duplicate_issues {} (wp_steps p) @ dependency_issues (wp_steps p) @ cycle_issues (wp_steps p)"

text \<open>\<open>WorkflowPlanSchema.parse\<close>: the shape checks modelled here (minimum lengths, positivity) do not
  abort the parse, so the refinement adds its issues to theirs; any issue makes \<open>parse\<close> throw.\<close>

definition parse_plan :: "workflow_plan \<Rightarrow> plan_issue list + workflow_plan" where
  "parse_plan p =
     (let issues = plan_shape_issues p @ refine_issues p
      in if issues = [] then Inr p else Inl issues)"

definition valid_plan :: "workflow_plan \<Rightarrow> bool" where
  "valid_plan p \<longleftrightarrow> parse_plan p = Inr p"

section \<open>The default plan\<close>

definition defaultStepId :: "nat \<Rightarrow> id" where
  "defaultStepId index = ''s'' @ str_of_nat (index + 1)"

definition default_step :: "nat \<Rightarrow> run_stage_name \<Rightarrow> workflow_step" where
  "default_step i target =
     \<lparr>ws_id = defaultStepId i,
      ws_after = (if i = 0 then [] else [defaultStepId (i - 1)]),
      ws_attemptCap = 3,
      ws_target = StageTarget target\<rparr>"

definition default_plan :: "id \<Rightarrow> instant \<Rightarrow> workflow_plan" where
  "default_plan runId at =
     \<lparr>wp_id = ''wfp_'' @ runId, wp_runId = runId, wp_version = 1, wp_origin = Origin_default,
      wp_createdAt = at,
      wp_steps = map (\<lambda>i. default_step i (STAGE_ORDER ! i)) [0..<length STAGE_ORDER],
      wp_revisedFrom = None\<rparr>"

definition defaultWorkflow :: "id \<Rightarrow> instant \<Rightarrow> plan_issue list + workflow_plan" where
  "defaultWorkflow runId at = parse_plan (default_plan runId at)"

section \<open>The next step\<close>

datatype step_progress = Unvisited | Terminal | Pending

definition dep_satisfied ::
  "workflow_plan \<Rightarrow> (workflow_step \<Rightarrow> step_progress) \<Rightarrow> string set \<Rightarrow> id \<Rightarrow> bool" where
  "dep_satisfied p stepState skipTargets depId =
     (case List.find (\<lambda>s. ws_id s = depId) (wp_steps p) of
        None \<Rightarrow> False
      | Some dep \<Rightarrow> stepState dep = Terminal \<or> target_str (ws_target dep) \<in> skipTargets)"

definition runnable ::
  "workflow_plan \<Rightarrow> (workflow_step \<Rightarrow> step_progress) \<Rightarrow> string set \<Rightarrow> workflow_step \<Rightarrow> bool" where
  "runnable p stepState skipTargets step \<longleftrightarrow>
     target_str (ws_target step) \<notin> skipTargets \<and>
     stepState step \<noteq> Terminal \<and>
     (ws_after step = [] \<or> list_all (dep_satisfied p stepState skipTargets) (ws_after step))"

definition nextWorkflowStep ::
  "workflow_plan \<Rightarrow> (workflow_step \<Rightarrow> step_progress) \<Rightarrow> string set \<Rightarrow> workflow_step option" where
  "nextWorkflowStep p stepState skipTargets =
     List.find (runnable p stepState skipTargets) (wp_steps p)"

definition stage_step_state ::
  "(run_stage_name \<Rightarrow> stage_state option) \<Rightarrow> workflow_step \<Rightarrow> step_progress" where
  "stage_step_state stageState s =
     (case ws_target s of
        AgentTarget _ \<Rightarrow> Pending
      | StageTarget t \<Rightarrow>
          (case stageState t of None \<Rightarrow> Pending
           | Some st \<Rightarrow> if settled st then Terminal else Pending))"

definition nextWorkflowStage ::
  "workflow_plan \<Rightarrow> (run_stage_name \<Rightarrow> stage_state option) \<Rightarrow> string set \<Rightarrow> run_stage_name option" where
  "nextWorkflowStage p stageState skipTargets =
     (case nextWorkflowStep p (stage_step_state stageState) skipTargets of
        Some step \<Rightarrow> (case ws_target step of StageTarget t \<Rightarrow> Some t | AgentTarget _ \<Rightarrow> None)
      | None \<Rightarrow> None)"


section \<open>The cycle search decides acyclicity\<close>

definition deps :: "workflow_step list \<Rightarrow> id \<Rightarrow> id list" where
  "deps ss i = (case by_id ss i of None \<Rightarrow> [] | Some s \<Rightarrow> ws_after s)"

definition dep_rel :: "workflow_step list \<Rightarrow> (id \<times> id) set" where
  "dep_rel ss = {(d, i). d \<in> set (deps ss i)}"

definition deps_declared :: "workflow_step list \<Rightarrow> bool" where
  "deps_declared ss \<longleftrightarrow> (\<forall>s \<in> set ss. set (ws_after s) \<subseteq> ws_id ` set ss)"

text \<open>A visited list is in topological order: every entry's dependencies come later in it.\<close>

fun topo :: "workflow_step list \<Rightarrow> id list \<Rightarrow> bool" where
  "topo ss [] = True"
| "topo ss (x # xs) = (x \<notin> set xs \<and> set (deps ss x) \<subseteq> set xs \<and> topo ss xs)"

lemma visit_SomeE:
  assumes "visit ss visiting visited i = Some v"
  obtains "i \<in> set visited" "v = visited"
  | step v' where "i \<notin> set visiting" "i \<notin> set visited" "by_id ss i = Some step"
      "visit_all ss (i # visiting) visited (ws_after step) = Some v'" "v = i # v'"
  using assms by (subst (asm) visit.simps) (auto split: if_splits option.splits)

lemma visit_keeps_visiting_out:
  "visit ss visiting visited i = Some v \<Longrightarrow> set v \<inter> set visiting \<subseteq> set visited"
  "visit_all ss visiting visited ds = Some v \<Longrightarrow> set v \<inter> set visiting \<subseteq> set visited"
proof (induction ss visiting visited i and ss visiting visited ds arbitrary: v and v rule: visit_visit_all.induct)
  case (1 ss visiting visited i)
  from 1(2) show ?case
  proof (cases rule: visit_SomeE)
    case (2 step v')
    then show ?thesis using 1(1) [OF 2(1-4)] by auto
  qed simp
next
  case (3 ss visiting visited d ds)
  then show ?case by (fastforce split: option.splits)
qed auto

lemma visit_topo:
  "visit ss visiting visited i = Some v \<Longrightarrow> topo ss visited \<Longrightarrow>
     topo ss v \<and> set visited \<subseteq> set v \<and> i \<in> set v"
  "visit_all ss visiting visited ds = Some v \<Longrightarrow> topo ss visited \<Longrightarrow>
     topo ss v \<and> set visited \<subseteq> set v \<and> set ds \<subseteq> set v"
proof (induction ss visiting visited i and ss visiting visited ds arbitrary: v and v rule: visit_visit_all.induct)
  case (1 ss visiting visited i)
  from 1(2) show ?case
  proof (cases rule: visit_SomeE)
    case (2 step v')
    have "topo ss v' \<and> set visited \<subseteq> set v' \<and> set (ws_after step) \<subseteq> set v'"
      using 1(1) [OF 2(1-4)] 1(3) by blast
    moreover have "i \<notin> set v'"
      using visit_keeps_visiting_out(2) [OF 2(4)] 2(2) by auto
    ultimately show ?thesis using 2(3,5) by (auto simp: deps_def)
  qed (use 1(3) in simp)
next
  case (3 ss visiting visited d ds)
  then show ?case by (fastforce split: option.splits)
qed auto

lemma topo_closed:
  assumes "topo ss v" and "(y, x) \<in> (dep_rel ss)\<^sup>+" and "x \<in> set v"
  shows "y \<in> set v"
proof -
  have step: "d \<in> set v" if "(d, i) \<in> dep_rel ss" and "i \<in> set v" for d i
    using assms(1) that by (induction v) (auto simp: dep_rel_def)
  from assms(2,3) show ?thesis
    by (induction rule: converse_trancl_induct) (auto intro: step)
qed

lemma topo_acyclic_on:
  "topo ss v \<Longrightarrow> x \<in> set v \<Longrightarrow> (x, x) \<notin> (dep_rel ss)\<^sup>+"
proof (induction v)
  case (Cons a v)
  show ?case
  proof (cases "x \<in> set v")
    case True
    then show ?thesis using Cons by simp
  next
    case False
    with Cons.prems have [simp]: "x = a" by simp
    show ?thesis
    proof
      assume "(x, x) \<in> (dep_rel ss)\<^sup>+"
      then obtain y where y: "(x, y) \<in> (dep_rel ss)\<^sup>*" "(y, x) \<in> dep_rel ss"
        by (meson tranclD2)
      then have "y \<in> set v" using Cons.prems by (auto simp: dep_rel_def)
      then have "x \<in> set v"
        using y(1) topo_closed [of ss v x y] Cons.prems by (auto simp: rtrancl_eq_or_trancl)
      then show False using False by simp
    qed
  qed
qed simp

lemma dep_rel_step: "(d, i) \<in> dep_rel ss \<Longrightarrow> \<exists>s \<in> set ss. ws_id s = i \<and> d \<in> set (ws_after s)"
  by (cases "by_id ss i") (auto simp: dep_rel_def deps_def dest: by_id_Some)

lemma dep_rel_declared: "(d, i) \<in> dep_rel ss \<Longrightarrow> i \<in> ws_id ` set ss"
  using dep_rel_step by blast

lemma cycle_search_sound:
  assumes "cycle_issues ss = []"
  shows "acyclic (dep_rel ss)"
proof -
  obtain v where "visit_all ss [] [] (map ws_id ss) = Some v"
    using assms by (auto simp: cycle_issues_def split: if_splits)
  then have v: "topo ss v" "set (map ws_id ss) \<subseteq> set v"
    using visit_topo(2) by fastforce+
  show ?thesis
  proof (rule acyclicI, rule allI, rule notI)
    fix x assume c: "(x, x) \<in> (dep_rel ss)\<^sup>+"
    then have "x \<in> ws_id ` set ss" by (meson dep_rel_declared tranclD2)
    then show False using topo_acyclic_on [OF v(1)] v(2) c by auto
  qed
qed

lemma visit_None_cycle:
  "visit ss visiting visited i = None \<Longrightarrow> deps_declared ss \<Longrightarrow> i \<in> ws_id ` set ss \<Longrightarrow>
     \<forall>x \<in> set visiting. (i, x) \<in> (dep_rel ss)\<^sup>+ \<Longrightarrow> \<not> acyclic (dep_rel ss)"
  "visit_all ss visiting visited ds = None \<Longrightarrow> deps_declared ss \<Longrightarrow> set ds \<subseteq> ws_id ` set ss \<Longrightarrow>
     \<forall>d \<in> set ds. \<forall>x \<in> set visiting. (d, x) \<in> (dep_rel ss)\<^sup>+ \<Longrightarrow> \<not> acyclic (dep_rel ss)"
proof (induction ss visiting visited i and ss visiting visited ds rule: visit_visit_all.induct)
  case (1 ss visiting visited i)
  show ?case
  proof (cases "i \<in> set visiting")
    case True
    then show ?thesis using 1(5) by (auto simp: acyclic_def)
  next
    case False
    obtain step where step: "by_id ss i = Some step"
      using 1(4) by_id_None [of ss i] by (cases "by_id ss i") auto
    with False 1(2) have nd: "i \<notin> set visited"
      and va: "visit_all ss (i # visiting) visited (ws_after step) = None"
      by (subst (asm) visit.simps, auto split: if_splits)+
    have decl: "set (ws_after step) \<subseteq> ws_id ` set ss"
      using 1(3) by_id_Some [OF step] by (auto simp: deps_declared_def)
    have rel: "(d, i) \<in> dep_rel ss" if "d \<in> set (ws_after step)" for d
      using that step by (simp add: dep_rel_def deps_def)
    have "\<forall>d \<in> set (ws_after step). \<forall>x \<in> set (i # visiting). (d, x) \<in> (dep_rel ss)\<^sup>+"
      using rel 1(5) by (auto intro: trancl_into_trancl2)
    then show ?thesis using 1(1) [OF False nd step va 1(3) decl] by blast
  qed
next
  case (3 ss visiting visited d ds)
  then show ?case by (auto split: option.splits)
qed simp_all

lemma cycle_search_complete:
  "deps_declared ss \<Longrightarrow> acyclic (dep_rel ss) \<Longrightarrow> cycle_issues ss = []"
  using visit_None_cycle(2) [of ss "[]" "[]" "map ws_id ss"] by (auto simp: cycle_issues_def)

section \<open>What a validated plan guarantees\<close>

lemma duplicate_issues_empty:
  "duplicate_issues seen ss = [] \<longleftrightarrow> distinct (map ws_id ss) \<and> ws_id ` set ss \<inter> seen = {}"
  by (induction seen ss rule: duplicate_issues.induct) auto

lemma dependency_issues_empty:
  "dependency_issues ss = [] \<longleftrightarrow> deps_declared ss \<and> (\<forall>s \<in> set ss. ws_id s \<notin> set (ws_after s))"
  unfolding dependency_issues_def deps_declared_def
  by (auto simp: by_id_None subset_eq split: if_splits)

lemma find_unique_key:
  "distinct (map k xs) \<Longrightarrow> x \<in> set xs \<Longrightarrow> List.find (\<lambda>y. k y = k x) xs = Some x"
  by (induction xs) (auto simp: image_iff)

lemma by_id_distinct:
  assumes "distinct (map ws_id ss)" and "s \<in> set ss"
  shows "by_id ss (ws_id s) = Some s"
  using assms find_unique_key [of ws_id "rev ss" s] by (simp add: by_id_def flip: rev_map)

text \<open>The validator accepts exactly the well-shaped plans with unique ids, declared dependencies,
  and an acyclic dependency relation.\<close>

lemma refine_issues_empty_iff:
  "refine_issues p = [] \<longleftrightarrow>
     distinct (map ws_id (wp_steps p)) \<and> deps_declared (wp_steps p) \<and> acyclic (dep_rel (wp_steps p))"
proof -
  let ?ss = "wp_steps p"
  have no_self: "ws_id s \<notin> set (ws_after s)"
    if "distinct (map ws_id ?ss)" "acyclic (dep_rel ?ss)" "s \<in> set ?ss" for s
  proof
    assume "ws_id s \<in> set (ws_after s)"
    then have "(ws_id s, ws_id s) \<in> dep_rel ?ss"
      using by_id_distinct [OF that(1,3)] by (simp add: dep_rel_def deps_def)
    with that(2) show False by (auto simp: acyclic_def)
  qed
  show ?thesis
    unfolding refine_issues_def
    using cycle_search_sound [of ?ss] cycle_search_complete [of ?ss] no_self
    by (auto simp: duplicate_issues_empty dependency_issues_empty)
qed

lemma valid_plan_iff:
  "valid_plan p \<longleftrightarrow> plan_shape_issues p = [] \<and> distinct (map ws_id (wp_steps p)) \<and>
     deps_declared (wp_steps p) \<and> acyclic (dep_rel (wp_steps p))"
  by (auto simp: valid_plan_def parse_plan_def refine_issues_empty_iff [symmetric])

lemma dep_rel_finite: "finite (dep_rel ss)"
proof -
  have "dep_rel ss \<subseteq> (\<Union>s \<in> set ss. set (ws_after s)) \<times> ws_id ` set ss"
    by (force dest: dep_rel_step)
  then show ?thesis by (rule finite_subset) auto
qed

lemma nextWorkflowStep_Some:
  assumes "nextWorkflowStep p st skip = Some s"
  shows "s \<in> set (wp_steps p)" and "runnable p st skip s"
  using assms by (auto simp: nextWorkflowStep_def dest: find_Some_iff_set)

lemma nextWorkflowStep_None:
  "nextWorkflowStep p st skip = None \<longleftrightarrow> (\<forall>s \<in> set (wp_steps p). \<not> runnable p st skip s)"
  by (simp add: nextWorkflowStep_def find_None_set)

text \<open>No deadlock: while some step is neither terminal nor suppressed, some step is runnable.\<close>

lemma valid_plan_progress:
  assumes p: "valid_plan p" and s: "s \<in> set (wp_steps p)"
    and open_s: "st s \<noteq> Terminal" "target_str (ws_target s) \<notin> skip"
  shows "\<exists>t. nextWorkflowStep p st skip = Some t"
proof -
  let ?ss = "wp_steps p"
  define open_ids where "open_ids = {ws_id t | t. t \<in> set ?ss \<and> st t \<noteq> Terminal \<and> target_str (ws_target t) \<notin> skip}"
  have d: "distinct (map ws_id ?ss)" and decl: "deps_declared ?ss" and ac: "acyclic (dep_rel ?ss)"
    using p by (auto simp: valid_plan_iff)
  have "wf (dep_rel ?ss)" by (rule finite_acyclic_wf [OF dep_rel_finite ac])
  moreover have "ws_id s \<in> open_ids" using s open_s by (auto simp: open_ids_def)
  ultimately obtain i where i: "i \<in> open_ids" and min: "\<And>j. (j, i) \<in> dep_rel ?ss \<Longrightarrow> j \<notin> open_ids"
    using wfE_min by metis
  then obtain t where t: "t \<in> set ?ss" "st t \<noteq> Terminal" "target_str (ws_target t) \<notin> skip" "ws_id t = i"
    by (auto simp: open_ids_def)
  have "dep_satisfied p st skip dep" if dep: "dep \<in> set (ws_after t)" for dep
  proof -
    obtain u where u: "u \<in> set ?ss" "ws_id u = dep"
      using decl t(1) dep by (auto simp: deps_declared_def)
    have "(dep, i) \<in> dep_rel ?ss"
      using by_id_distinct [OF d t(1)] t(4) dep by (simp add: dep_rel_def deps_def)
    then have "dep \<notin> open_ids" by (rule min)
    then have "st u = Terminal \<or> target_str (ws_target u) \<in> skip"
      using u by (auto simp: open_ids_def)
    then show ?thesis using find_unique_key [OF d u(1)] u(2) by (simp add: dep_satisfied_def)
  qed
  then have "runnable p st skip t" using t by (auto simp: runnable_def list_all_iff)
  then show ?thesis using nextWorkflowStep_None [of p st skip] t(1) by (cases "nextWorkflowStep p st skip") auto
qed

section \<open>The default plan is the array walk\<close>

definition default_steps :: "workflow_step list" where
  "default_steps = map (\<lambda>i. default_step i (STAGE_ORDER ! i)) [0..<length STAGE_ORDER]"

lemma default_plan_steps [simp]: "wp_steps (default_plan runId at) = default_steps"
  by (simp add: default_plan_def default_steps_def)

lemma default_steps_shape: "concat (map step_shape_issues default_steps) = []"
  by code_simp

lemma default_steps_issues:
  "duplicate_issues {} default_steps = []"
  "dependency_issues default_steps = []"
  "cycle_issues default_steps = []"
  by code_simp+

lemma default_plan_valid: "runId \<noteq> [] \<Longrightarrow> valid_plan (default_plan runId at)"
proof -
  assume "runId \<noteq> []"
  then have "plan_shape_issues (default_plan runId at) = []"
    unfolding plan_shape_issues_def default_plan_steps default_steps_shape
    by (simp add: default_plan_def default_steps_def)
  then show ?thesis
    by (simp add: valid_plan_def parse_plan_def refine_issues_def default_steps_issues)
qed

text \<open>A plan whose steps form a chain, each after the previous one, is walked front to back.\<close>

definition chain :: "workflow_step list \<Rightarrow> bool" where
  "chain ss \<longleftrightarrow> distinct (map ws_id ss) \<and>
     (\<forall>i < length ss. ws_after (ss ! i) = (if i = 0 then [] else [ws_id (ss ! (i - 1))]))"

lemma find_nth_first:
  assumes "i < length xs" and "P (xs ! i)" and "\<And>j. j < i \<Longrightarrow> \<not> P (xs ! j)"
  shows "List.find P xs = Some (xs ! i)"
  using assms
proof (induction xs arbitrary: i)
  case (Cons x xs)
  show ?case
  proof (cases i)
    case (Suc k)
    then have "\<not> P x" using Cons.prems(3) [of 0] by simp
    moreover have "\<not> P (xs ! j)" if "j < k" for j
      using Cons.prems(3) [of "Suc j"] that Suc by simp
    ultimately show ?thesis using Cons Suc by simp
  qed (use Cons in simp)
qed simp

lemma chain_next:
  assumes "chain (wp_steps p)"
  shows "nextWorkflowStep p st {} = List.find (\<lambda>s. st s \<noteq> Terminal) (wp_steps p)"
proof (cases "find_index (\<lambda>s. st s \<noteq> Terminal) (wp_steps p)")
  case None
  then have all: "\<forall>s \<in> set (wp_steps p). st s = Terminal"
    by (simp add: find_index_None)
  then have "nextWorkflowStep p st {} = None"
    by (simp add: nextWorkflowStep_None runnable_def)
  moreover have "List.find (\<lambda>s. st s \<noteq> Terminal) (wp_steps p) = None"
    using all by (simp add: find_None_set)
  ultimately show ?thesis by simp
next
  case (Some i)
  let ?ss = "wp_steps p"
  have i: "i < length ?ss" "st (?ss ! i) \<noteq> Terminal"
    and before: "\<And>j. j < i \<Longrightarrow> st (?ss ! j) = Terminal"
    using find_index_Some [OF Some] by auto
  have d: "distinct (map ws_id ?ss)" using assms by (simp add: chain_def)
  have "runnable p st {} (?ss ! i)"
  proof (cases "i = 0")
    case True
    then show ?thesis using i assms by (auto simp: runnable_def chain_def)
  next
    case False
    then have "?ss ! (i - 1) \<in> set ?ss" using i(1) by (intro nth_mem) simp
    then have "List.find (\<lambda>s. ws_id s = ws_id (?ss ! (i - 1))) ?ss = Some (?ss ! (i - 1))"
      by (rule find_unique_key [OF d])
    then show ?thesis using i before [of "i - 1"] assms False
      by (auto simp: runnable_def chain_def dep_satisfied_def)
  qed
  then have "nextWorkflowStep p st {} = Some (?ss ! i)"
    unfolding nextWorkflowStep_def
    by (rule find_nth_first [OF i(1)]) (simp add: runnable_def before)
  moreover have "List.find (\<lambda>s. st s \<noteq> Terminal) ?ss = Some (?ss ! i)"
    using i before by (intro find_nth_first) auto
  ultimately show ?thesis by simp
qed

lemma default_steps_chain: "chain default_steps"
proof -
  have "distinct (map ws_id default_steps)"
    using default_steps_issues(1) by (simp add: duplicate_issues_empty)
  moreover have nth: "default_steps ! i = default_step i (STAGE_ORDER ! i)" if "i < 12" for i
    using that by (simp add: default_steps_def)
  have "ws_after (default_steps ! i) = (if i = 0 then [] else [ws_id (default_steps ! (i - 1))])"
    if "i < 12" for i
    using that nth [of i] nth [of "i - 1"] by (simp add: default_step_def)
  moreover have "length default_steps = 12" by (simp add: default_steps_def)
  ultimately show ?thesis by (simp add: chain_def)
qed

lemma find_map: "List.find P (map f xs) = map_option f (List.find (\<lambda>x. P (f x)) xs)"
  by (induction xs) auto

lemma default_plan_walk:
  "nextWorkflowStage (default_plan runId at) st {} =
   List.find (\<lambda>s. case st s of None \<Rightarrow> True | Some x \<Rightarrow> \<not> settled x) STAGE_ORDER"
proof -
  let ?P = "\<lambda>s. case st s of None \<Rightarrow> True | Some x \<Rightarrow> \<not> settled x"
  have term_iff: "stage_step_state st (default_step i t) \<noteq> Terminal \<longleftrightarrow> ?P t" for i t
    by (auto simp: stage_step_state_def default_step_def split: option.splits)
  have "nextWorkflowStep (default_plan runId at) (stage_step_state st) {} =
      map_option (\<lambda>i. default_step i (STAGE_ORDER ! i))
        (List.find (\<lambda>i. ?P (STAGE_ORDER ! i)) [0..<length STAGE_ORDER])"
    unfolding chain_next [of "default_plan runId at", unfolded default_plan_steps, OF default_steps_chain]
    unfolding default_steps_def find_map term_iff ..
  moreover have "List.find ?P STAGE_ORDER =
      map_option ((!) STAGE_ORDER) (List.find (\<lambda>i. ?P (STAGE_ORDER ! i)) [0..<length STAGE_ORDER])"
    using find_map [of ?P "(!) STAGE_ORDER" "[0..<length STAGE_ORDER]"] by (simp only: map_nth)
  ultimately show ?thesis
    by (cases "List.find (\<lambda>i. ?P (STAGE_ORDER ! i)) [0..<length STAGE_ORDER]")
       (simp_all add: nextWorkflowStage_def default_step_def)
qed

section \<open>Properties\<close>

text \<open>C10. The plan schema's refinement decides what it means to decide: a plan is accepted exactly when
  its shape is right, its step ids are unique, every dependency names a declared step and the
  dependency relation has no cycle. The depth-first search misses no cycle and rejects no acyclic plan.\<close>

theorem plan_validation_exact:
  "valid_plan p \<longleftrightarrow> plan_shape_issues p = [] \<and> distinct (map ws_id (wp_steps p)) \<and>
     deps_declared (wp_steps p) \<and> acyclic (dep_rel (wp_steps p))"
  by (rule valid_plan_iff)

text \<open>C11. A validated plan never deadlocks and never runs ahead: while any step is neither terminal nor
  suppressed, \<open>nextWorkflowStep\<close> returns a step, and the step it returns is an open step of the plan
  whose dependencies are all terminal or suppressed.\<close>

theorem plan_execution_live_and_ordered:
  assumes "valid_plan p" "s \<in> set (wp_steps p)" "st s \<noteq> Terminal" "target_str (ws_target s) \<notin> skip"
  shows "\<exists>t. nextWorkflowStep p st skip = Some t \<and> t \<in> set (wp_steps p) \<and> st t \<noteq> Terminal \<and>
    target_str (ws_target t) \<notin> skip \<and>
    (\<forall>d \<in> set (ws_after t). \<forall>u \<in> set (wp_steps p). ws_id u = d \<longrightarrow>
       st u = Terminal \<or> target_str (ws_target u) \<in> skip)"
proof -
  obtain t where t: "nextWorkflowStep p st skip = Some t"
    using valid_plan_progress [of p s st skip] assms by blast
  note r = nextWorkflowStep_Some [OF t]
  have d: "distinct (map ws_id (wp_steps p))" using assms(1) by (simp add: valid_plan_iff)
  have "st u = Terminal \<or> target_str (ws_target u) \<in> skip"
    if "u \<in> set (wp_steps p)" "ws_id u \<in> set (ws_after t)" for u
    using r(2) that find_unique_key [OF d that(1)]
    by (auto simp: runnable_def list_all_iff dep_satisfied_def)
  with t r show ?thesis by (auto simp: runnable_def)
qed

theorem plan_execution_live_and_ordered_witness:
  "\<exists>t. nextWorkflowStep (default_plan ''r'' 0) (\<lambda>_. Unvisited) {} = Some t \<and>
     t \<in> set (wp_steps (default_plan ''r'' 0))"
  using plan_execution_live_and_ordered
    [of "default_plan ''r'' 0" "default_step 0 Scope" "\<lambda>_. Unvisited" "{}"]
  by (auto simp: default_plan_valid default_steps_def STAGE_ORDER_def)

text \<open>The default plan is the array loop: \<open>defaultWorkflow\<close> validates for every run id, and the
  stage the executor picks on it is always the first stage of \<open>STAGE_ORDER\<close> whose record is not done
  or skipped (a missing record counts as pending).\<close>

theorem default_workflow_is_stage_order:
  assumes "runId \<noteq> []"
  shows "defaultWorkflow runId at = Inr (default_plan runId at) \<and>
    nextWorkflowStage (default_plan runId at) st {} =
      List.find (\<lambda>s. case st s of None \<Rightarrow> True | Some x \<Rightarrow> \<not> settled x) STAGE_ORDER"
  using default_plan_valid [OF assms, of at]
  by (simp add: default_plan_walk defaultWorkflow_def valid_plan_def)

theorem default_workflow_is_stage_order_witness:
  "nextWorkflowStage (default_plan ''run_1'' 0) (\<lambda>s. if s = Scope then Some SDone else None) {} = Some Retrieve"
  using default_workflow_is_stage_order [of "''run_1''" 0 "\<lambda>s. if s = Scope then Some SDone else None"]
  by (simp add: STAGE_ORDER_def settled_def)

end
