(* ===== verification/Run_Budget.thy ===== *)
theory Run_Budget
  imports Prelude Complex_Main
begin

text \<open>
  Token budgets. The run-level budget of \<^verbatim>\<open>src/src/app/run-budget.ts\<close> re-derives its spend from
  persisted receipts; \<^verbatim>\<open>src/src/agent/subagents.ts\<close> layers child reservations over it for a
  concurrent fan-out. The contract both promise is the locale \<open>budget_view\<close>, interpreted on both.
\<close>

section \<open>Receipts\<close>

record token_usage =
  tu_promptTokens :: "nat option"
  tu_completionTokens :: "nat option"
  tu_totalTokens :: "nat option"

record model_call_facts =
  mc_provider :: string
  mc_modelId :: string
  mc_usage :: token_usage

record receipt =
  rc_id :: id
  rc_runId :: id
  rc_at :: instant
  rc_stage :: "string option"
  rc_modelCall :: "model_call_facts option"

definition receipt_tokens :: "receipt \<Rightarrow> int" where
  "receipt_tokens r =
     (case rc_modelCall r of None \<Rightarrow> 0
      | Some m \<Rightarrow> (case tu_totalTokens (mc_usage m) of None \<Rightarrow> 0 | Some t \<Rightarrow> int t))"

definition spentTokensForRun :: "receipt list \<Rightarrow> int" where
  "spentTokensForRun rs = foldl (\<lambda>sum r. sum + receipt_tokens r) 0 rs"

section \<open>The run budget\<close>

record run_budget =
  rb_cap :: "int option"
  rb_spent :: int

text \<open>
  \<open>runTokenBudgetCap\<close> reads the environment variable: outer \<^const>\<open>None\<close> when it is unset or
  blank, inner \<^const>\<open>None\<close> when \<open>Number\<close> gives no finite number.
\<close>

definition runTokenBudgetCap :: "rat option option \<Rightarrow> int option" where
  "runTokenBudgetCap raw =
     (case raw of None \<Rightarrow> None
      | Some None \<Rightarrow> None
      | Some (Some n) \<Rightarrow> (if n > 0 then Some \<lfloor>n\<rfloor> else None))"

definition makeRunBudget :: "receipt list \<Rightarrow> int option \<Rightarrow> run_budget" where
  "makeRunBudget receipts cap = \<lparr>rb_cap = cap, rb_spent = spentTokensForRun receipts\<rparr>"

definition remaining :: "run_budget \<Rightarrow> int option" where
  "remaining b = map_option (\<lambda>cap. max 0 (cap - rb_spent b)) (rb_cap b)"

definition hasRemaining :: "run_budget \<Rightarrow> bool" where
  "hasRemaining b \<longleftrightarrow> (case rb_cap b of None \<Rightarrow> True | Some cap \<Rightarrow> rb_spent b < cap)"

definition spend :: "int option \<Rightarrow> run_budget \<Rightarrow> run_budget" where
  "spend totalTokens b =
     (case totalTokens of None \<Rightarrow> b
      | Some t \<Rightarrow> (if t > 0 then b\<lparr>rb_spent := rb_spent b + t\<rparr> else b))"

text \<open>\<open>spent >= cap * 0.8\<close>: on integer token counts the double-precision product rounds to a value
  on the same side of every integer as the exact four fifths.\<close>

definition four_fifths_spent :: "int \<Rightarrow> int \<Rightarrow> bool" where
  "four_fifths_spent spent cap \<longleftrightarrow> 5 * spent \<ge> 4 * cap"

definition nearLimit :: "run_budget \<Rightarrow> bool" where
  "nearLimit b \<longleftrightarrow> (case rb_cap b of None \<Rightarrow> False | Some cap \<Rightarrow> four_fifths_spent (rb_spent b) cap)"

lemmas budget_defs = remaining_def hasRemaining_def spend_def nearLimit_def four_fifths_spent_def

section \<open>The contract of a budget view\<close>

text \<open>\<open>charge\<close> is what one call adds: missing or non-positive usage leaves the spend unchanged.\<close>

definition charge :: "int option \<Rightarrow> int" where
  "charge t = (case t of None \<Rightarrow> 0 | Some n \<Rightarrow> max 0 n)"

lemma charge_nonneg [simp]: "0 \<le> charge t"
  by (auto simp: charge_def split: option.splits)

locale budget_view =
  fixes view_remaining :: "'b \<Rightarrow> int option"
    and view_hasRemaining :: "'b \<Rightarrow> bool"
    and view_spend :: "int option \<Rightarrow> 'b \<Rightarrow> 'b"
    and view_spent :: "'b \<Rightarrow> int"
    and view_ok :: "'b \<Rightarrow> bool"
  assumes hasRemaining_iff:
      "view_ok b \<Longrightarrow> view_hasRemaining b \<longleftrightarrow> (case view_remaining b of None \<Rightarrow> True | Some r \<Rightarrow> 0 < r)"
    and spent_spend: "view_ok b \<Longrightarrow> view_spent (view_spend t b) = view_spent b + charge t"
    and remaining_spend:
      "view_ok b \<Longrightarrow> view_remaining (view_spend t b) =
         map_option (\<lambda>r. max 0 (r - charge t)) (view_remaining b)"
    and ok_spend: "view_ok b \<Longrightarrow> view_ok (view_spend t b)"
begin

definition spend_all :: "int option list \<Rightarrow> 'b \<Rightarrow> 'b" where
  "spend_all ts b = fold view_spend ts b"

lemma spend_all_simps [simp]:
  "spend_all [] b = b"
  "spend_all (t # ts) b = spend_all ts (view_spend t b)"
  by (simp_all add: spend_all_def)

lemma spend_all_ok: "view_ok b \<Longrightarrow> view_ok (spend_all ts b)"
  by (induction ts arbitrary: b) (auto intro: ok_spend)

lemma spent_spend_all:
  "view_ok b \<Longrightarrow> view_spent (spend_all ts b) = view_spent b + sum_list (map charge ts)"
  by (induction ts arbitrary: b) (auto simp: spent_spend ok_spend)

lemma exhausted_stays:
  "view_ok b \<Longrightarrow> \<not> view_hasRemaining b \<Longrightarrow> \<not> view_hasRemaining (spend_all ts b)"
proof (induction ts arbitrary: b)
  case (Cons t ts)
  have "\<not> view_hasRemaining (view_spend t b)"
    using Cons.prems charge_nonneg [of t]
    by (auto simp: hasRemaining_iff ok_spend remaining_spend max_def simp del: charge_nonneg
        split: option.splits if_splits)
  then show ?case using Cons by (simp add: ok_spend)
qed simp

lemma remaining_spend_all:
  "view_ok b \<Longrightarrow> view_remaining b = Some r \<Longrightarrow> 0 \<le> r \<Longrightarrow>
   view_remaining (spend_all ts b) = Some (max 0 (r - sum_list (map charge ts)))"
proof (induction ts arbitrary: b r)
  case (Cons t ts)
  have "view_remaining (view_spend t b) = Some (max 0 (r - charge t))"
    using Cons.prems by (simp add: remaining_spend)
  then have "view_remaining (spend_all ts (view_spend t b)) =
      Some (max 0 (max 0 (r - charge t) - sum_list (map charge ts)))"
    using Cons.IH [OF ok_spend [OF Cons.prems(1)]] by simp
  moreover have "0 \<le> sum_list (map charge ts)" by (rule sum_list_nonneg_int) simp
  ultimately show ?case by (simp add: max_def)
qed simp

end

interpretation rb: budget_view remaining hasRemaining spend rb_spent "\<lambda>_. True"
proof unfold_locales
  fix b :: run_budget and t
  show "hasRemaining b = (case remaining b of None \<Rightarrow> True | Some r \<Rightarrow> 0 < r)"
    by (cases "rb_cap b") (auto simp: budget_defs)
  show "rb_spent (spend t b) = rb_spent b + charge t"
    by (cases t) (auto simp: budget_defs charge_def)
  show "remaining (spend t b) = map_option (\<lambda>r. max 0 (r - charge t)) (remaining b)"
    by (cases t; cases "rb_cap b") (auto simp: budget_defs charge_def)
qed simp

lemma spentTokensForRun_eq: "spentTokensForRun rs = sum_list (map receipt_tokens rs)"
proof -
  have "foldl (\<lambda>sum r. sum + receipt_tokens r) a rs = a + sum_list (map receipt_tokens rs)" for a
    by (induction rs arbitrary: a) auto
  then show ?thesis by (simp add: spentTokensForRun_def)
qed

definition usage_of :: "receipt \<Rightarrow> int option" where
  "usage_of r = (case rc_modelCall r of None \<Rightarrow> None
     | Some m \<Rightarrow> map_option int (tu_totalTokens (mc_usage m)))"

lemma charge_usage [simp]: "charge (usage_of r) = receipt_tokens r"
  by (auto simp: charge_def usage_of_def receipt_tokens_def split: option.splits)

lemma charge_usage_sum: "sum_list (map charge (map usage_of rs)) = spentTokensForRun rs"
  by (simp add: spentTokensForRun_eq comp_def)

section \<open>Child reservations\<close>

text \<open>
  A reservation refers to its parent by reference, and siblings share the parent; budgets therefore
  live in a heap. A cell's parent is always older than the cell, so references lead downwards.
\<close>

datatype budget_cell =
  RootCell "int option" int \<comment> \<open>cap, spent\<close>
| ReservedCell int int "nat option" \<comment> \<open>cap, spent, parent\<close>

type_synonym budget_heap = "budget_cell list"

definition cell_at :: "budget_heap \<Rightarrow> nat \<Rightarrow> budget_cell option" where
  "cell_at h a = (if a < length h then Some (h ! a) else None)"

function view_remaining_at :: "budget_heap \<Rightarrow> nat \<Rightarrow> int option" where
  "view_remaining_at h a =
     (case cell_at h a of
        None \<Rightarrow> None
      | Some (RootCell cap spent) \<Rightarrow> map_option (\<lambda>c. max 0 (c - spent)) cap
      | Some (ReservedCell cap spent p) \<Rightarrow>
          (let local = max 0 (cap - spent);
               parentRemaining = (case p of None \<Rightarrow> None
                 | Some q \<Rightarrow> if q < a then view_remaining_at h q else None)
           in Some (case parentRemaining of None \<Rightarrow> local | Some r \<Rightarrow> min local r)))"
  by pat_completeness auto
termination by (relation "measure snd") auto

function view_hasRemaining_at :: "budget_heap \<Rightarrow> nat \<Rightarrow> bool" where
  "view_hasRemaining_at h a =
     (case cell_at h a of
        None \<Rightarrow> True
      | Some (RootCell cap spent) \<Rightarrow> (case cap of None \<Rightarrow> True | Some c \<Rightarrow> spent < c)
      | Some (ReservedCell cap spent p) \<Rightarrow>
          spent < cap \<and> (case p of None \<Rightarrow> True
            | Some q \<Rightarrow> if q < a then view_hasRemaining_at h q else True))"
  by pat_completeness auto
termination by (relation "measure snd") auto

fun add_spent :: "int \<Rightarrow> budget_cell \<Rightarrow> budget_cell" where
  "add_spent t (RootCell cap spent) = RootCell cap (spent + t)"
| "add_spent t (ReservedCell cap spent p) = ReservedCell cap (spent + t) p"

fun cell_spent :: "budget_cell \<Rightarrow> int" where
  "cell_spent (RootCell _ spent) = spent"
| "cell_spent (ReservedCell _ spent _) = spent"

fun cell_parent :: "budget_cell \<Rightarrow> nat option" where
  "cell_parent (RootCell _ _) = None"
| "cell_parent (ReservedCell _ _ p) = p"

text \<open>A positive charge is booked on the cell and forwarded to its parent.\<close>

function book :: "budget_heap \<Rightarrow> nat \<Rightarrow> int \<Rightarrow> budget_heap" where
  "book h a t =
     (case cell_at h a of
        None \<Rightarrow> h
      | Some c \<Rightarrow>
          (let h' = h[a := add_spent t c]
           in case cell_parent c of None \<Rightarrow> h'
              | Some q \<Rightarrow> if q < a then book h' q t else h'))"
  by pat_completeness auto
termination by (relation "measure (\<lambda>(h, a, t). a)") auto

declare view_remaining_at.simps [simp del] view_hasRemaining_at.simps [simp del] book.simps [simp del]

definition spend_at :: "nat \<Rightarrow> int option \<Rightarrow> budget_heap \<Rightarrow> budget_heap" where
  "spend_at a totalTokens h =
     (case totalTokens of None \<Rightarrow> h | Some t \<Rightarrow> if t \<le> 0 then h else book h a t)"

function view_nearLimit_at :: "budget_heap \<Rightarrow> nat \<Rightarrow> bool" where
  "view_nearLimit_at h a =
     (case cell_at h a of
        None \<Rightarrow> False
      | Some (RootCell cap spent) \<Rightarrow> (case cap of None \<Rightarrow> False | Some c \<Rightarrow> four_fifths_spent spent c)
      | Some (ReservedCell cap spent p) \<Rightarrow>
          four_fifths_spent spent cap \<or> (case p of None \<Rightarrow> False
            | Some q \<Rightarrow> if q < a then view_nearLimit_at h q else False))"
  by pat_completeness auto
termination by (relation "measure snd") auto

declare view_nearLimit_at.simps [simp del]

definition reservedBudget :: "budget_heap \<Rightarrow> nat option \<Rightarrow> int \<Rightarrow> budget_heap \<times> nat" where
  "reservedBudget h parent cap = (h @ [ReservedCell cap 0 parent], length h)"

record subagent_spec =
  sp_label :: string
  sp_tokenBudget :: "rat option"

text \<open>The equal share of child \<open>index\<close>: remainders go to earlier children.\<close>

definition equalShare :: "int \<Rightarrow> nat \<Rightarrow> nat \<Rightarrow> int" where
  "equalShare whole n index = whole div int n + (if int index < whole mod int n then 1 else 0)"

definition child_cap :: "int \<Rightarrow> nat \<Rightarrow> nat \<Rightarrow> subagent_spec \<Rightarrow> int" where
  "child_cap whole n index spec =
     min (equalShare whole n index)
         (case sp_tokenBudget spec of None \<Rightarrow> equalShare whole n index | Some b \<Rightarrow> max 0 \<lfloor>b\<rfloor>)"

fun reserve_unlimited ::
  "budget_heap \<Rightarrow> nat option \<Rightarrow> subagent_spec list \<Rightarrow> budget_heap \<times> nat option list" where
  "reserve_unlimited h parent [] = (h, [])"
| "reserve_unlimited h parent (s # ss) =
     (case sp_tokenBudget s of
        None \<Rightarrow> (let (h', vs) = reserve_unlimited h parent ss in (h', parent # vs))
      | Some b \<Rightarrow>
          (let (h1, a) = reservedBudget h parent (max 0 \<lfloor>b\<rfloor>);
               (h', vs) = reserve_unlimited h1 parent ss in (h', Some a # vs)))"

fun reserve_shares ::
  "budget_heap \<Rightarrow> nat option \<Rightarrow> int \<Rightarrow> nat \<Rightarrow> nat \<Rightarrow> subagent_spec list \<Rightarrow> budget_heap \<times> nat option list" where
  "reserve_shares h parent whole n index [] = (h, [])"
| "reserve_shares h parent whole n index (s # ss) =
     (let (h1, a) = reservedBudget h parent (child_cap whole n index s);
          (h', vs) = reserve_shares h1 parent whole n (Suc index) ss in (h', Some a # vs))"

definition splitSubagentBudgets ::
  "budget_heap \<Rightarrow> nat option \<Rightarrow> subagent_spec list \<Rightarrow> budget_heap \<times> nat option list" where
  "splitSubagentBudgets h parent specs =
     (if specs = [] then (h, [])
      else case (case parent of None \<Rightarrow> None | Some a \<Rightarrow> view_remaining_at h a) of
        None \<Rightarrow> reserve_unlimited h parent specs
      | Some parentRemaining \<Rightarrow>
          reserve_shares h parent (max 0 parentRemaining) (length specs) 0 specs)"

section \<open>Reservations keep the budget contract\<close>

lemma book_length [simp]: "length (book h a t) = length h"
  by (induction h a t rule: book.induct)
    (subst book.simps, auto simp: Let_def split: option.splits)

lemma book_above: "a < i \<Longrightarrow> book h a t ! i = h ! i"
proof (induction h a t rule: book.induct)
  case (1 h a t)
  then show ?case
    by (subst book.simps) (auto simp: Let_def split: option.splits)
qed

lemma cell_at_update [simp]:
  "cell_at (h[i := c]) a = (if a < length h then Some (if a = i then c else h ! a) else None)"
  by (simp add: cell_at_def)

lemma view_remaining_at_above: "a < i \<Longrightarrow> view_remaining_at (h[i := c]) a = view_remaining_at h a"
proof (induction a rule: less_induct)
  case (less a)
  have "\<And>q. q < a \<Longrightarrow> view_remaining_at (h[i := c]) q = view_remaining_at h q"
    using less by simp
  then show ?case
    using less.prems
    by (cases "h ! a") (auto simp: view_remaining_at.simps [of _ a] cell_at_def Let_def split: option.split)
qed

lemma view_remaining_at_append: "a < length h \<Longrightarrow> view_remaining_at (h @ h') a = view_remaining_at h a"
proof (induction a rule: less_induct)
  case (less a)
  have "\<And>q. q < a \<Longrightarrow> view_remaining_at (h @ h') q = view_remaining_at h q"
    using less by simp
  then show ?case
    using less.prems
    by (cases "h ! a")
      (auto simp: view_remaining_at.simps [of _ a] cell_at_def nth_append Let_def split: option.split)
qed

lemma view_hasRemaining_at_above:
  "a < i \<Longrightarrow> view_hasRemaining_at (h[i := c]) a = view_hasRemaining_at h a"
proof (induction a rule: less_induct)
  case (less a)
  have "\<And>q. q < a \<Longrightarrow> view_hasRemaining_at (h[i := c]) q = view_hasRemaining_at h q"
    using less by simp
  then show ?case
    using less.prems
    by (cases "h ! a") (auto simp: view_hasRemaining_at.simps [of _ a] cell_at_def split: option.split)
qed

lemma view_remaining_at_nonneg: "view_remaining_at h a = Some r \<Longrightarrow> 0 \<le> r"
proof (induction a arbitrary: r rule: less_induct)
  case (less a)
  then show ?case
    by (subst (asm) (2) view_remaining_at.simps)
      (auto simp: Let_def split: option.splits budget_cell.splits if_splits)
qed

lemma book_remaining:
  "a < length h \<Longrightarrow> 0 < t \<Longrightarrow>
   view_remaining_at (book h a t) a = map_option (\<lambda>r. max 0 (r - t)) (view_remaining_at h a)"
proof (induction h a t rule: book.induct)
  case (1 h a t)
  show ?case
  proof (cases "h ! a")
    case (RootCell cap spent)
    with 1 show ?thesis
      by (cases cap)
        (simp_all add: book.simps view_remaining_at.simps cell_at_def Let_def)
  next
    case (ReservedCell cap spent p)
    show ?thesis
    proof (cases "\<exists>q < a. p = Some q")
      case False
      with ReservedCell 1 show ?thesis
        by (auto simp: book.simps [of h a] view_remaining_at.simps [of _ a] cell_at_def Let_def
            split: option.splits)
    next
      case True
      then obtain q where q: "p = Some q" "q < a" by blast
      let ?h = "h[a := add_spent t (h ! a)]"
      have IH: "view_remaining_at (book ?h q t) q = map_option (\<lambda>r. max 0 (r - t)) (view_remaining_at h q)"
        using 1(1) [of "h ! a" _ q] 1(2,3) q ReservedCell by (simp add: cell_at_def view_remaining_at_above)
      have same: "book ?h q t ! a = ReservedCell cap (spent + t) p"
        using 1 q ReservedCell by (simp add: book_above)
      have eq: "book h a t = book ?h q t"
        using 1 q ReservedCell by (simp add: book.simps [of h a] cell_at_def)
      show ?thesis
        unfolding eq using 1 q same IH ReservedCell view_remaining_at_nonneg [of h q]
        by (cases "view_remaining_at h q")
          (auto simp: view_remaining_at.simps [of _ a] cell_at_def Let_def max_def min_def)
    qed
  qed
qed

lemma view_hasRemaining_iff:
  "view_hasRemaining_at h a \<longleftrightarrow> (case view_remaining_at h a of None \<Rightarrow> True | Some r \<Rightarrow> 0 < r)"
proof (induction a rule: less_induct)
  case (less a)
  then show ?case
    by (cases "cell_at h a")
      (auto simp: view_hasRemaining_at.simps [of _ a] view_remaining_at.simps [of _ a] Let_def max_def
        split: option.splits budget_cell.splits)
qed

definition spent_at :: "nat \<Rightarrow> budget_heap \<Rightarrow> int" where
  "spent_at a h = cell_spent (h ! a)"

lemma book_spent: "a < length h \<Longrightarrow> spent_at a (book h a t) = spent_at a h + t"
proof -
  assume a: "a < length h"
  have *: "cell_spent (add_spent t c) = cell_spent c + t" for c by (cases c) auto
  show ?thesis using a
    by (subst book.simps) (auto simp: spent_at_def cell_at_def Let_def book_above * split: option.split)
qed

interpretation hb: budget_view "\<lambda>h. view_remaining_at h a" "\<lambda>h. view_hasRemaining_at h a"
  "spend_at a" "spent_at a" "\<lambda>h. a < length h" for a
proof unfold_locales
  fix h :: budget_heap and t assume a: "a < length h"
  show "view_hasRemaining_at h a = (case view_remaining_at h a of None \<Rightarrow> True | Some r \<Rightarrow> 0 < r)"
    by (rule view_hasRemaining_iff)
  show "spent_at a (spend_at a t h) = spent_at a h + charge t"
    using a by (auto simp: spend_at_def charge_def book_spent split: option.split)
  show "view_remaining_at (spend_at a t h) a = map_option (\<lambda>r. max 0 (r - charge t)) (view_remaining_at h a)"
    using a view_remaining_at_nonneg [of h a]
    by (cases "view_remaining_at h a")
      (auto simp: spend_at_def charge_def book_remaining max_def split: option.split)
  show "a < length (spend_at a t h)"
    using a by (auto simp: spend_at_def split: option.split)
qed

section \<open>A fan-out respects every reservation\<close>

lemma equalShare_sum:
  assumes "0 < n" "0 \<le> R" "k \<le> n"
  shows "(\<Sum>i < k. equalShare R n i) = int k * (R div int n) + min (int k) (R mod int n)"
  using assms(3)
proof (induction k)
  case (Suc k)
  have "0 \<le> R mod int n" using assms by simp
  with Suc show ?case by (auto simp: equalShare_def algebra_simps min_def)
qed (use assms in simp)

lemma equalShare_total:
  assumes "0 < n" "0 \<le> R"
  shows "(\<Sum>i < n. equalShare R n i) = R"
proof -
  have "R mod int n < int n" using assms by simp
  then have "(\<Sum>i < n. equalShare R n i) = int n * (R div int n) + R mod int n"
    using equalShare_sum [OF assms order_refl] by (simp add: min_def)
  then show ?thesis by (metis add.commute mod_mult_div_eq mult.commute)
qed

lemma child_cap_le: "child_cap R n i s \<le> equalShare R n i"
  by (simp add: child_cap_def)

lemma child_cap_nonneg: "0 \<le> R \<Longrightarrow> 0 < n \<Longrightarrow> 0 \<le> child_cap R n i s"
  by (auto simp: child_cap_def equalShare_def pos_imp_zdiv_nonneg_iff split: option.split)

lemma reserve_shares_result:
  "reserve_shares h p R n k specs =
     (h @ map (\<lambda>(i, s). ReservedCell (child_cap R n i s) 0 p) (enumerate k specs),
      map Some [length h ..< length h + length specs])"
proof (induction specs arbitrary: h k)
  case (Cons s ss)
  have "[length h ..< length h + length (s # ss)] = length h # [Suc (length h) ..< Suc (length h + length ss)]"
    by (simp add: upt_conv_Cons del: upt_Suc)
  with Cons show ?case by (simp add: reservedBudget_def del: upt_Suc)
qed simp

text \<open>The state of a fan-out: parent \<open>a\<close> with \<open>R\<close> tokens left at the split, child \<open>i\<close> at
  \<open>base + i\<close> with its cap and what it has spent so far.\<close>

definition fanout_state ::
  "nat \<Rightarrow> int \<Rightarrow> nat \<Rightarrow> (nat \<Rightarrow> int) \<Rightarrow> nat \<Rightarrow> (nat \<Rightarrow> int) \<Rightarrow> budget_heap \<Rightarrow> bool" where
  "fanout_state a R base caps n s h \<longleftrightarrow>
     a < base \<and> base + n \<le> length h \<and>
     (\<forall>i < n. h ! (base + i) = ReservedCell (caps i) (s i) (Some a)) \<and>
     view_remaining_at h a = Some (max 0 (R - (\<Sum>i < n. s i)))"

fun run_spends :: "nat \<Rightarrow> (nat \<times> int option) list \<Rightarrow> budget_heap \<Rightarrow> budget_heap" where
  "run_spends base [] h = h"
| "run_spends base ((j, t) # xs) h = run_spends base xs (spend_at (base + j) t h)"

definition spent_by :: "(nat \<times> int option) list \<Rightarrow> nat \<Rightarrow> int" where
  "spent_by xs i = sum_list (map (charge \<circ> snd) (filter (\<lambda>x. fst x = i) xs))"

lemma spend_child_forwards:
  assumes "a < b" "b < length h" "h ! b = ReservedCell c s (Some a)"
  shows "spend_at b t h = spend_at a t (h[b := ReservedCell c (s + charge t) (Some a)])"
  using assms list_update_id [of h b]
  by (auto simp: spend_at_def charge_def book.simps [of h b] cell_at_def split: option.split)

lemma spend_at_above: "a < i \<Longrightarrow> spend_at a t h ! i = h ! i"
  by (auto simp: spend_at_def book_above split: option.split)

lemma spend_at_length [simp]: "length (spend_at a t h) = length h"
  by (auto simp: spend_at_def split: option.split)

lemma fanout_spend:
  assumes f: "fanout_state a R base caps n s h" and j: "j < n" and s: "\<And>i. i < n \<Longrightarrow> 0 \<le> s i"
  shows "fanout_state a R base caps n (s(j := s j + charge t)) (spend_at (base + j) t h)"
proof -
  let ?c = "ReservedCell (caps j) (s j + charge t) (Some a)"
  have eq: "spend_at (base + j) t h = spend_at a t (h[base + j := ?c])"
    using f j by (intro spend_child_forwards) (auto simp: fanout_state_def)
  have nth: "spend_at (base + j) t h ! (base + i) =
      ReservedCell (caps i) ((s(j := s j + charge t)) i) (Some a)" if "i < n" for i
    unfolding eq using f j that by (auto simp: fanout_state_def spend_at_above nth_list_update)
  have "view_remaining_at (spend_at (base + j) t h) a = Some (max 0 (max 0 (R - sum s {..<n}) - charge t))"
    unfolding eq using f j by (simp add: fanout_state_def hb.remaining_spend view_remaining_at_above)
  moreover have "(\<Sum>i < n. (s(j := s j + charge t)) i) = (\<Sum>i < n. s i) + charge t"
    using j by (simp add: sum.remove [of _ j] fun_upd_def cong: sum.cong)
      (subst sum.cong [of "{..<n} - {j}" _ _ s], auto)
  moreover have "max 0 (max 0 (R - sum s {..<n}) - charge t) = max 0 (R - (sum s {..<n} + charge t))"
    using charge_nonneg [of t] by linarith
  ultimately show ?thesis
    using f nth by (simp add: fanout_state_def)
qed

lemma fanout_run_spends:
  "fanout_state a R base caps n s h \<Longrightarrow> \<forall>x \<in> set xs. fst x < n \<Longrightarrow> (\<And>i. i < n \<Longrightarrow> 0 \<le> s i) \<Longrightarrow>
   fanout_state a R base caps n (\<lambda>i. s i + spent_by xs i) (run_spends base xs h)"
proof (induction xs arbitrary: s h)
  case Nil
  then show ?case by (simp add: spent_by_def)
next
  case (Cons x xs)
  obtain j t where x: "x = (j, t)" by force
  have "fanout_state a R base caps n (s(j := s j + charge t)) (spend_at (base + j) t h)"
    using Cons.prems x by (intro fanout_spend) auto
  then have "fanout_state a R base caps n (\<lambda>i. (s(j := s j + charge t)) i + spent_by xs i)
      (run_spends base xs (spend_at (base + j) t h))"
    by (rule Cons.IH) (use Cons.prems in auto)
  moreover have "(\<lambda>i. (s(j := s j + charge t)) i + spent_by xs i) = (\<lambda>i. s i + spent_by (x # xs) i)"
    by (auto simp: spent_by_def x)
  ultimately show ?case by (simp add: x)
qed

text \<open>The caps of a split: child \<open>i\<close> gets its equal share, lowered by its own ceiling.\<close>

definition split_caps :: "int \<Rightarrow> subagent_spec list \<Rightarrow> nat \<Rightarrow> int" where
  "split_caps R specs i = child_cap R (length specs) i (specs ! i)"

lemma split_fanout_state:
  assumes "a < length h" "view_remaining_at h a = Some R" "specs \<noteq> []"
  shows "splitSubagentBudgets h (Some a) specs =
           (h @ map (\<lambda>i. ReservedCell (split_caps R specs i) 0 (Some a)) [0..<length specs],
            map Some [length h ..< length h + length specs])" (is ?eq)
    and "fanout_state a R (length h) (split_caps R specs) (length specs) (\<lambda>_. 0)
           (fst (splitSubagentBudgets h (Some a) specs))" (is ?st)
proof -
  have R: "0 \<le> R" using view_remaining_at_nonneg assms by blast
  have "map (\<lambda>(i, s). ReservedCell (child_cap R (length specs) i s) 0 (Some a)) (enumerate 0 specs) =
      map (\<lambda>i. ReservedCell (split_caps R specs i) 0 (Some a)) [0..<length specs]"
    by (rule nth_equalityI) (auto simp: nth_enumerate_eq split_caps_def)
  then show eq: ?eq
    using assms R by (simp add: splitSubagentBudgets_def reserve_shares_result)
  show ?st
    unfolding eq using assms R
    by (auto simp: fanout_state_def nth_append view_remaining_at_append)
qed

lemma split_caps_sum:
  assumes "0 \<le> R" "specs \<noteq> []"
  shows "(\<Sum>i < length specs. split_caps R specs i) \<le> R"
proof -
  have "(\<Sum>i < length specs. split_caps R specs i) \<le> (\<Sum>i < length specs. equalShare R (length specs) i)"
    by (rule sum_mono) (simp add: split_caps_def child_cap_le)
  then show ?thesis using equalShare_total [of "length specs" R] assms by simp
qed

lemma sum_diff_ge:
  fixes f g :: "nat \<Rightarrow> int"
  assumes "\<And>i. i < n \<Longrightarrow> g i \<le> f i" "j < n"
  shows "f j - g j \<le> (\<Sum>i < n. f i) - (\<Sum>i < n. g i)"
proof -
  have "f j - g j \<le> (\<Sum>i < n. f i - g i)"
    using assms by (intro member_le_sum) auto
  then show ?thesis by (simp add: sum_subtractf)
qed

section \<open>Properties\<close>

text \<open>A run's budget is restart-safe and its exhaustion is final: re-deriving the budget from the
  receipts persisted before a crash and spending the later calls gives the same budget as re-deriving
  it from all receipts, the remaining amount is the cap less every token billed (never negative), and
  once the budget is exhausted no further call makes it available again.\<close>

theorem run_budget_rederivation:
  "fold spend (map usage_of later) (makeRunBudget earlier cap) = makeRunBudget (earlier @ later) cap \<and>
   remaining (makeRunBudget (earlier @ later) cap) =
     map_option (\<lambda>c. max 0 (c - (spentTokensForRun earlier + spentTokensForRun later))) cap \<and>
   (hasRemaining (makeRunBudget (earlier @ later) cap) \<longrightarrow> hasRemaining (makeRunBudget earlier cap))"
proof -
  have cap: "rb_cap (rb.spend_all ts b) = rb_cap b" for ts b
    by (induction ts arbitrary: b) (auto simp: spend_def split: option.split)
  have "rb_spent (rb.spend_all (map usage_of later) (makeRunBudget earlier cap)) =
      spentTokensForRun (earlier @ later)"
    unfolding rb.spent_spend_all [OF TrueI] charge_usage_sum
    by (simp add: makeRunBudget_def spentTokensForRun_eq)
  then have eq: "rb.spend_all (map usage_of later) (makeRunBudget earlier cap) = makeRunBudget (earlier @ later) cap"
    by (intro run_budget.equality) (simp_all add: cap makeRunBudget_def)
  then show ?thesis
    using rb.exhausted_stays [OF TrueI, of "makeRunBudget earlier cap" "map usage_of later"]
    by (auto simp: rb.spend_all_def remaining_def makeRunBudget_def spentTokensForRun_eq)
qed

theorem run_budget_rederivation_witness:
  "hasRemaining (makeRunBudget ([] @ []) (Some 5)) \<and> hasRemaining (makeRunBudget [] (Some 5))"
  using run_budget_rederivation [of "[]" "[]" "Some 5"]
  by (simp add: hasRemaining_def makeRunBudget_def spentTokensForRun_def)

text \<open>A sub-agent fan-out over a finite parent budget never over-reserves and never lets one child
  starve another: the children's caps together are at most what the parent had left, and after any
  interleaving of the children's spends that keeps each child within its own cap, every child still
  has exactly its own unspent reservation, whatever its siblings did, and the parent has been charged
  for every token.\<close>

theorem subagent_fanout_isolated:
  assumes "a < length h" "view_remaining_at h a = Some R" "specs \<noteq> []" "j < length specs"
    and "\<forall>x \<in> set xs. fst x < length specs"
    and "\<forall>i < length specs. spent_by xs i \<le> split_caps R specs i"
  defines "h' \<equiv> run_spends (length h) xs (fst (splitSubagentBudgets h (Some a) specs))"
  shows "(\<Sum>i < length specs. split_caps R specs i) \<le> R \<and>
    view_remaining_at h' (length h + j) = Some (split_caps R specs j - spent_by xs j) \<and>
    view_remaining_at h' a = Some (R - (\<Sum>i < length specs. spent_by xs i))"
proof -
  let ?n = "length specs"
  have R: "0 \<le> R" using view_remaining_at_nonneg assms(2) by blast
  have sum: "(\<Sum>i < ?n. split_caps R specs i) \<le> R" using split_caps_sum R assms(3) by blast
  have st: "fanout_state a R (length h) (split_caps R specs) ?n (spent_by xs) h'"
    using fanout_run_spends [OF split_fanout_state(2) [OF assms(1-3)] assms(5)] by (simp add: h'_def)
  have le: "split_caps R specs j - spent_by xs j \<le> R - (\<Sum>i < ?n. spent_by xs i)"
    using sum_diff_ge [of ?n "spent_by xs" "split_caps R specs" j] assms(4,6) sum by simp
  have nn: "0 \<le> split_caps R specs j - spent_by xs j" using assms(4,6) by simp
  have "view_remaining_at h' a = Some (R - (\<Sum>i < ?n. spent_by xs i))"
    using st le nn by (simp add: fanout_state_def)
  with st show ?thesis
    using sum le nn assms(4)
    by (auto simp: fanout_state_def view_remaining_at.simps [of _ "length h + j"] cell_at_def)
qed

theorem subagent_fanout_isolated_witness:
  "view_remaining_at (run_spends 1 [(1, Some 3), (0, Some 2)]
      (fst (splitSubagentBudgets [RootCell (Some 7) 0] (Some 0)
        [\<lparr>sp_label = ''pro'', sp_tokenBudget = None\<rparr>, \<lparr>sp_label = ''con'', sp_tokenBudget = None\<rparr>]))) 1
   = Some 2"
  using subagent_fanout_isolated [of 0 "[RootCell (Some 7) 0]" 7
      "[\<lparr>sp_label = ''pro'', sp_tokenBudget = None\<rparr>, \<lparr>sp_label = ''con'', sp_tokenBudget = None\<rparr>]"
      0 "[(1, Some 3), (0, Some 2)]"]
  by (auto simp: view_remaining_at.simps cell_at_def spent_by_def charge_def split_caps_def
      child_cap_def equalShare_def less_Suc_eq)

end
