(* ===== verification/Json.thy ===== *)
theory Json
  imports Prelude
begin

text \<open>
  JSON values and their texts: what \<open>JSON.stringify\<close> prints, the canonical form of
  \<^verbatim>\<open>src/src/shared/crypto.ts\<close> (\<open>canonicalJson\<close>) that content hashes and permission grants are
  computed over, and the facts that make a text a faithful key: printing is injective, and two
  values have the same canonical text exactly when they differ only in the order of object keys.

  A value is \<open>undefined\<close> (\<open>JUndef\<close>) only as an object member, which printing drops, or as an array
  element, which prints as \<open>null\<close>. Numbers are integers: the program hashes counts, sequence
  numbers and sizes.
\<close>

section \<open>Values and printing\<close>

datatype json =
  JUndef | JNull | JBool bool | JNum int | JStr string | JArr "json list" | JObj "(string \<times> json) list"

definition hex_digit :: "nat \<Rightarrow> char" where
  "hex_digit n = (if n < 10 then char_of (48 + n) else char_of (87 + n))"

fun escape_char :: "char \<Rightarrow> string" where
  "escape_char c =
     (let n = of_char c :: nat in
      if n = 34 then [CHR 92, CHR 34]
      else if n = 92 then [CHR 92, CHR 92]
      else if n = 8 then [CHR 92, CHR ''b'']
      else if n = 9 then [CHR 92, CHR ''t'']
      else if n = 10 then [CHR 92, CHR ''n'']
      else if n = 12 then [CHR 92, CHR ''f'']
      else if n = 13 then [CHR 92, CHR ''r'']
      else if n < 32 then [CHR 92, CHR ''u'', CHR ''0'', CHR ''0'', hex_digit (n div 16), hex_digit (n mod 16)]
      else [c])"

declare escape_char.simps [simp del]

definition escape :: "string \<Rightarrow> string" where
  "escape s = concat (map escape_char s)"

definition quote :: "string \<Rightarrow> string" where
  "quote s = CHR 34 # escape s @ [CHR 34]"

fun stringify :: "json \<Rightarrow> string"
  and str_elems :: "bool \<Rightarrow> json list \<Rightarrow> string"
  and str_members :: "bool \<Rightarrow> (string \<times> json) list \<Rightarrow> string" where
  "stringify JUndef = ''null''"
| "stringify JNull = ''null''"
| "stringify (JBool b) = (if b then ''true'' else ''false'')"
| "stringify (JNum i) = str_of_int i"
| "stringify (JStr s) = quote s"
| "stringify (JArr xs) = ''['' @ str_elems True xs"
| "stringify (JObj kvs) = ''{'' @ str_members True kvs"
| "str_elems first [] = '']''"
| "str_elems first (x # xs) = (if first then '''' else '','') @ stringify x @ str_elems False xs"
| "str_members first [] = ''}''"
| "str_members first ((k, v) # kvs) =
     (if v = JUndef then str_members first kvs
      else (if first then '''' else '','') @ quote k @ '':'' @ stringify v @ str_members False kvs)"

text \<open>A member whose value may be absent: \<open>undefined\<close> when it is.\<close>

definition opt_json :: "('a \<Rightarrow> json) \<Rightarrow> 'a option \<Rightarrow> json" where
  "opt_json f x = (case x of None \<Rightarrow> JUndef | Some v \<Rightarrow> f v)"

section \<open>Canonical form\<close>

text \<open>
  A key that is a canonical array index (a decimal numeral without leading zeros, below
  \<open>2 ^ 32 - 1\<close>) is enumerated before all other keys, in numeric order; the others keep their
  insertion order. \<open>Object.fromEntries\<close> builds such an object.
\<close>

definition index_key :: "string \<Rightarrow> bool" where
  "index_key k \<longleftrightarrow> k \<noteq> [] \<and> list_all is_digit k \<and> digits_of_nat (nat_of_digits 0 k) = k \<and>
     nat_of_digits 0 k < 2 ^ 32 - 1"

definition from_entries :: "(string \<times> json) list \<Rightarrow> (string \<times> json) list" where
  "from_entries kvs =
     sort_key (\<lambda>kv. nat_of_digits 0 (fst kv)) (filter (\<lambda>kv. index_key (fst kv)) kvs) @
     filter (\<lambda>kv. \<not> index_key (fst kv)) kvs"

abbreviation on_val :: "('a \<Rightarrow> 'b) \<Rightarrow> 'k \<times> 'a \<Rightarrow> 'k \<times> 'b" where
  "on_val f \<equiv> \<lambda>kv. (fst kv, f (snd kv))"

fun sortDeep :: "json \<Rightarrow> json" where
  "sortDeep (JArr xs) = JArr (map sortDeep xs)"
| "sortDeep (JObj kvs) =
     JObj (from_entries (map (on_val sortDeep) (sort_key fst (filter (\<lambda>kv. snd kv \<noteq> JUndef) kvs))))"
| "sortDeep v = v"

definition canonicalJson :: "json \<Rightarrow> string" where
  "canonicalJson v = stringify (sortDeep v)"

section \<open>Printing is injective\<close>

text \<open>Every element of a value is defined: nothing is dropped or turned into \<open>null\<close> by printing.\<close>

fun defined :: "json \<Rightarrow> bool" where
  "defined JUndef = False"
| "defined (JArr xs) = list_all defined xs"
| "defined (JObj kvs) = list_all (\<lambda>kv. defined (snd kv)) kvs"
| "defined v = True"

text \<open>A decoder for one escaped character shows that escaping loses nothing.\<close>

definition hex_val :: "char \<Rightarrow> nat" where
  "hex_val c = (let n = of_char c in if n < 58 then n - 48 else n - 87)"

definition unescape_letter :: "char \<Rightarrow> char" where
  "unescape_letter e =
     (if e = CHR ''b'' then CHR 0x08 else if e = CHR ''t'' then CHR 0x09
      else if e = CHR ''n'' then CHR 0x0A else if e = CHR ''f'' then CHR 0x0C
      else if e = CHR ''r'' then CHR 0x0D else e)"

definition unescape1 :: "string \<Rightarrow> char \<times> string" where
  "unescape1 s =
     (if hd s \<noteq> CHR 92 then (hd s, tl s)
      else if hd (tl s) = CHR ''u'' then (char_of (16 * hex_val (s ! 4) + hex_val (s ! 5)), drop 6 s)
      else (unescape_letter (hd (tl s)), drop 2 s))"

lemma hex_val_digit [simp]: "n < 16 \<Longrightarrow> hex_val (hex_digit n) = n"
  by (auto simp: hex_val_def hex_digit_def Let_def)

lemma unescape1_escape: "unescape1 (escape_char c @ r) = (c, r)"
proof -
  let ?n = "of_char c :: nat"
  have c: "char_of ?n = c" by simp
  consider "?n \<in> {8, 9, 10, 12, 13, 34, 92}" | "?n < 32" "?n \<notin> {8, 9, 10, 12, 13}"
    | "32 \<le> ?n" "?n \<noteq> 34" "?n \<noteq> 92"
    by force
  then show ?thesis
  proof cases
    case 1
    have named: "?n = of_char d \<longleftrightarrow> c = d" for d by simp
    have "c = CHR 0x08 \<or> c = CHR 0x09 \<or> c = CHR 0x0A \<or> c = CHR 0x0C \<or> c = CHR 0x0D \<or>
        c = CHR 0x22 \<or> c = CHR 0x5C"
      using 1 unfolding named [symmetric] by simp
    then show ?thesis
      by (elim disjE) (simp_all add: escape_char.simps unescape1_def unescape_letter_def)
  next
    case 2
    have esc: "escape_char c = [CHR 92, CHR ''u'', CHR ''0'', CHR ''0'', hex_digit (?n div 16), hex_digit (?n mod 16)]"
      using 2 unfolding escape_char.simps Let_def by auto
    have d: "?n div 16 < 16" "?n mod 16 < 16" using 2 by auto
    have "16 * (?n div 16) + ?n mod 16 = ?n" by simp
    then show ?thesis
      by (simp add: esc unescape1_def d del: mult_div_mod_eq)
  next
    case 3
    then have esc: "escape_char c = [c]" "c \<noteq> CHR 92"
      by (auto simp: escape_char.simps Let_def)
    then show ?thesis by (simp add: unescape1_def)
  qed
qed

lemma escape_char_not_quote: "\<exists>d ds. escape_char c = d # ds \<and> d \<noteq> CHR 34"
proof (cases "(of_char c :: nat) = 34")
  case False
  then have "c \<noteq> CHR 34" by auto
  then show ?thesis by (simp add: escape_char.simps Let_def)
qed (simp add: escape_char.simps)

lemma escape_char_append_inj: "escape_char c @ r = escape_char d @ r' \<Longrightarrow> c = d \<and> r = r'"
  by (metis Pair_inject unescape1_escape)

lemma escape_inj: "escape s @ CHR 34 # r = escape t @ CHR 34 # r' \<Longrightarrow> s = t \<and> r = r'"
proof (induction s arbitrary: t)
  case Nil
  show ?case
  proof (cases t)
    case (Cons d t')
    with Nil show ?thesis using escape_char_not_quote [of d] by (auto simp: escape_def)
  qed (use Nil in simp)
next
  case (Cons c s)
  show ?case
  proof (cases t)
    case Nil
    with Cons.prems show ?thesis using escape_char_not_quote [of c] by (auto simp: escape_def)
  next
    case (Cons d t')
    have eq: "escape_char c @ escape s @ CHR 34 # r = escape_char d @ escape t' @ CHR 34 # r'"
      using Cons.prems Cons by (simp add: escape_def)
    from escape_char_append_inj [OF eq] Cons.IH show ?thesis using Cons by blast
  qed
qed

lemma quote_inj: "quote s @ r = quote t @ r' \<longleftrightarrow> s = t \<and> r = r'"
proof
  assume "quote s @ r = quote t @ r'"
  then have "escape s @ CHR 34 # r = escape t @ CHR 34 # r'" by (simp add: quote_def)
  then show "s = t \<and> r = r'" by (rule escape_inj)
qed simp

text \<open>Numerals are delimited by the first character that is no digit.\<close>

definition no_digit :: "string \<Rightarrow> bool" where
  "no_digit r \<longleftrightarrow> r = [] \<or> \<not> is_digit (hd r)"

lemma digits_append_inj:
  "list_all is_digit xs \<Longrightarrow> list_all is_digit ys \<Longrightarrow> no_digit r \<Longrightarrow> no_digit r' \<Longrightarrow>
   xs @ r = ys @ r' \<Longrightarrow> xs = ys \<and> r = r'"
proof (induction xs arbitrary: ys)
  case Nil
  then show ?case by (cases ys) (auto simp: no_digit_def)
next
  case (Cons x xs)
  then show ?case by (cases ys) (auto simp: no_digit_def)
qed

lemma digits_all: "list_all is_digit (digits_of_nat n)"
  by (auto simp: list_all_iff intro: digits_of_nat_digits)

lemma str_of_int_inj:
  assumes "str_of_int i @ r = str_of_int j @ r'" "no_digit r" "no_digit r'"
  shows "i = j \<and> r = r'"
proof -
  have nd: "\<not> is_digit (CHR ''-'')" by (simp add: is_digit_def)
  have hd: "digits_of_nat n @ x \<noteq> CHR ''-'' # y" for n x y
    using digits_all [of n] nd by (cases "digits_of_nat n") auto
  have inj: "m = n \<and> r = r'" if "digits_of_nat m @ r = digits_of_nat n @ r'" for m n
    using digits_append_inj [OF digits_all digits_all assms(2,3) that] digits_of_nat_inj by auto
  show ?thesis
  proof (cases "i < 0"; cases "j < 0")
    assume "i < 0" "j < 0"
    then show ?thesis using assms(1) inj [of "nat (- i)" "nat (- j)"] by (auto simp: str_of_int_def)
  next
    assume "i < 0" "\<not> j < 0"
    then show ?thesis using assms(1) hd [of "nat j" r' "digits_of_nat (nat (- i)) @ r"] by (auto simp: str_of_int_def)
  next
    assume "\<not> i < 0" "j < 0"
    then show ?thesis using assms(1) hd [of "nat i" r "digits_of_nat (nat (- j)) @ r'"] by (auto simp: str_of_int_def)
  next
    assume "\<not> i < 0" "\<not> j < 0"
    then show ?thesis using assms(1) inj [of "nat i" "nat j"] by (auto simp: str_of_int_def)
  qed
qed

text \<open>The first character of a text tells the kind of value, and never closes or separates.\<close>

fun kind_char :: "json \<Rightarrow> char \<Rightarrow> bool" where
  "kind_char JUndef c \<longleftrightarrow> c = CHR ''n''"
| "kind_char JNull c \<longleftrightarrow> c = CHR ''n''"
| "kind_char (JBool b) c \<longleftrightarrow> c = (if b then CHR ''t'' else CHR ''f'')"
| "kind_char (JNum i) c \<longleftrightarrow> is_digit c \<or> c = CHR ''-''"
| "kind_char (JStr s) c \<longleftrightarrow> c = CHR 34"
| "kind_char (JArr xs) c \<longleftrightarrow> c = CHR ''[''"
| "kind_char (JObj kvs) c \<longleftrightarrow> c = CHR ''{''"

lemma stringify_first: "\<exists>c cs. stringify v = c # cs \<and> kind_char v c"
proof (cases v)
  case (JNum i)
  obtain c cs where "digits_of_nat (nat i) = c # cs" "is_digit c"
    using digits_all [of "nat i"] digits_of_nat_nonempty [of "nat i"] by (cases "digits_of_nat (nat i)") auto
  with JNum show ?thesis by (auto simp: str_of_int_def)
qed (auto simp: quote_def)

lemma digit_chars [simp]:
  "\<not> is_digit CHR ''n''" "\<not> is_digit CHR ''t''" "\<not> is_digit CHR ''f''" "\<not> is_digit CHR 34"
  "\<not> is_digit CHR ''[''" "\<not> is_digit CHR ''{''" "\<not> is_digit CHR '']''" "\<not> is_digit CHR '',''"
  "\<not> is_digit CHR ''}''"
  by (simp_all add: is_digit_def)

lemma kind_char_open [simp]:
  "\<not> kind_char v CHR '']''" "\<not> kind_char v CHR '',''" "\<not> kind_char v CHR ''}''"
  by (cases v; simp)+

lemma str_tail_no_digit: "no_digit (str_elems False xs @ r)" "no_digit (str_members False kvs @ r)"
proof -
  show "no_digit (str_elems False xs @ r)"
    by (cases xs) (auto simp: no_digit_def)
  show "no_digit (str_members False kvs @ r)"
    by (induction kvs) (auto simp: no_digit_def split: if_splits)
qed

lemma kind_shared: "stringify v @ r = stringify w @ r' \<Longrightarrow> \<exists>c. kind_char v c \<and> kind_char w c"
  using stringify_first [of v] stringify_first [of w] by auto

lemma stringify_append_inj:
  "defined v \<Longrightarrow> defined w \<Longrightarrow> no_digit r \<Longrightarrow> no_digit r' \<Longrightarrow>
     stringify v @ r = stringify w @ r' \<Longrightarrow> v = w \<and> r = r'"
  "list_all defined xs \<Longrightarrow> list_all defined ys \<Longrightarrow>
     str_elems first xs @ r = str_elems first ys @ r' \<Longrightarrow> xs = ys \<and> r = r'"
  "list_all (\<lambda>kv. defined (snd kv)) kvs \<Longrightarrow> list_all (\<lambda>kv. defined (snd kv)) kvs' \<Longrightarrow>
     str_members first kvs @ r = str_members first kvs' @ r' \<Longrightarrow> kvs = kvs' \<and> r = r'"
proof (induction v and first xs and first kvs arbitrary: w r r' and ys r r' and kvs' r r'
    rule: stringify_str_elems_str_members.induct)
  case 2
  obtain c where "kind_char JNull c" "kind_char w c" using kind_shared 2 by blast
  with 2 show ?case by (cases w) (auto split: if_splits)
next
  case (3 b)
  obtain c where "kind_char (JBool b) c" "kind_char w c" using kind_shared 3 by blast
  with 3 show ?case by (cases w) (auto split: if_splits)
next
  case (4 i)
  obtain c where c: "kind_char (JNum i) c" "kind_char w c" using kind_shared 4 by blast
  show ?case
  proof (cases w)
    case (JNum z)
    with 4 str_of_int_inj [of i r z r'] show ?thesis by auto
  qed (use 4 c in \<open>auto split: if_splits\<close>)
next
  case (5 s)
  obtain c where c: "kind_char (JStr s) c" "kind_char w c" using kind_shared 5 by blast
  show ?case
  proof (cases w)
    case (JStr z)
    with 5 show ?thesis by (simp add: quote_inj)
  qed (use 5 c in \<open>auto split: if_splits\<close>)
next
  case (6 xs)
  obtain c where c: "kind_char (JArr xs) c" "kind_char w c" using kind_shared 6 by blast
  show ?case
  proof (cases w)
    case (JArr z)
    then show ?thesis using 6(1) [of z r r'] 6(2-) by simp
  qed (use 6(2-3) c in \<open>auto split: if_splits\<close>)
next
  case (7 kvs)
  obtain c where c: "kind_char (JObj kvs) c" "kind_char w c" using kind_shared 7 by blast
  show ?case
  proof (cases w)
    case (JObj z)
    then show ?thesis using 7(1) [of z r r'] 7(2-) by simp
  qed (use 7(2-3) c in \<open>auto split: if_splits\<close>)
next
  case (8 first)
  show ?case
  proof (cases ys)
    case (Cons y ys')
    with 8 show ?thesis using stringify_first [of y] by (auto split: if_splits)
  qed (use 8 in simp)
next
  case (9 first x xs)
  show ?case
  proof (cases ys)
    case Nil
    with 9 show ?thesis using stringify_first [of x] by (auto split: if_splits)
  next
    case (Cons y ys')
    with 9 have eq: "stringify x @ str_elems False xs @ r = stringify y @ str_elems False ys' @ r'"
      by (auto split: if_splits)
    with 9(1) [of y "str_elems False xs @ r" "str_elems False ys' @ r'"] 9(2) [of ys' r r'] 9(3,4) Cons
    show ?thesis by (simp add: str_tail_no_digit)
  qed
next
  case (10 first)
  show ?case
  proof (cases kvs')
    case (Cons kv kvs'')
    with 10 show ?thesis by (cases kv) (auto simp: quote_def split: if_splits)
  qed (use 10 in simp)
next
  case (11 first k v kvs)
  have v: "v \<noteq> JUndef" "defined v" "list_all (\<lambda>kv. defined (snd kv)) kvs" using 11(4) by auto
  show ?case
  proof (cases kvs')
    case Nil
    with 11(6) v(1) show ?thesis by (auto simp: quote_def split: if_splits)
  next
    case (Cons kv ys')
    obtain k' v' where kv: "kv = (k', v')" by force
    have v': "v' \<noteq> JUndef" "defined v'" "list_all (\<lambda>kv. defined (snd kv)) ys'"
      using 11(5) Cons kv by auto
    have "quote k @ CHR '':'' # stringify v @ str_members False kvs @ r =
        quote k' @ CHR '':'' # stringify v' @ str_members False ys' @ r'"
      using 11(6) Cons kv v(1) v'(1) by (cases first) simp_all
    then have k: "k = k'" and eq: "stringify v @ str_members False kvs @ r = stringify v' @ str_members False ys' @ r'"
      unfolding quote_inj by auto
    have tl: "v = v' \<and> str_members False kvs @ r = str_members False ys' @ r'"
      by (rule 11(2) [OF v(1,2) v'(2) str_tail_no_digit(2) str_tail_no_digit(2) eq])
    then have "kvs = ys' \<and> r = r'"
      using 11(3) [OF v(1,3) v'(3)] by blast
    with k tl Cons kv show ?thesis by simp
  qed
qed simp

lemma stringify_inj: "defined v \<Longrightarrow> defined w \<Longrightarrow> stringify v = stringify w \<Longrightarrow> v = w"
  using stringify_append_inj(1) [of v w "[]" "[]"] by (simp add: no_digit_def)

lemma stringify_JStr_inj [simp]: "stringify (JStr a) = stringify (JStr b) \<longleftrightarrow> a = b"
  using quote_inj [of a "[]" b "[]"] by simp

section \<open>The canonical text decides equality up to key order\<close>

text \<open>JavaScript objects have distinct keys; \<open>undefined\<close> array elements are excluded because they
  print as \<open>null\<close>.\<close>

fun wf_json :: "json \<Rightarrow> bool" where
  "wf_json (JArr xs) = list_all (\<lambda>x. x \<noteq> JUndef \<and> wf_json x) xs"
| "wf_json (JObj kvs) = (distinct (map fst kvs) \<and> list_all (\<lambda>kv. wf_json (snd kv)) kvs)"
| "wf_json v = True"

definition members :: "(string \<times> json) list \<Rightarrow> (string \<times> json) list" where
  "members kvs = filter (\<lambda>kv. snd kv \<noteq> JUndef) kvs"

inductive same_json :: "json \<Rightarrow> json \<Rightarrow> bool" where
  same_refl: "same_json v v"
| same_arr: "list_all2 same_json xs ys \<Longrightarrow> same_json (JArr xs) (JArr ys)"
| same_obj: "fst ` set (members kvs) = fst ` set (members kvs') \<Longrightarrow>
    (\<And>k v w. (k, v) \<in> set (members kvs) \<Longrightarrow> (k, w) \<in> set (members kvs') \<Longrightarrow> same_json v w) \<Longrightarrow>
    same_json (JObj kvs) (JObj kvs')"

lemma from_entries_set [simp]: "set (from_entries kvs) = set kvs"
  by (auto simp: from_entries_def)

lemma sortDeep_obj: "sortDeep (JObj kvs) = JObj (from_entries (map (on_val sortDeep) (sort_key fst (members kvs))))"
  by (simp add: members_def)

lemma sortDeep_undef [simp]: "sortDeep v = JUndef \<longleftrightarrow> v = JUndef"
  by (cases v) auto

lemma sortDeep_defined: "wf_json v \<Longrightarrow> v \<noteq> JUndef \<Longrightarrow> defined (sortDeep v)"
  by (induction v rule: sortDeep.induct) (auto simp: list_all_iff)

text \<open>Two association lists with distinct keys and the same entries sort to the same list.\<close>

lemma filter_key_single: "distinct (map fst zs) \<Longrightarrow> k \<in> set zs \<Longrightarrow> filter (\<lambda>x. fst k = fst x) zs = [k]"
  by (induction zs) (auto simp: filter_empty_conv image_iff)

lemma sort_entries_unique:
  assumes "distinct (map fst xs)" "distinct (map fst ys)" "set xs = set (ys :: (string \<times> 'a) list)"
  shows "sort_key fst xs = sort_key fst ys"
proof (rule properties_for_sort_key)
  have d: "distinct xs" "distinct ys" using assms by (auto simp: distinct_map)
  show "mset (sort_key fst ys) = mset xs"
    using d assms(3) by (simp add: set_eq_iff_mset_eq_distinct [symmetric])
  fix k assume "k \<in> set (sort_key fst ys)"
  then have k: "k \<in> set xs" "k \<in> set (sort_key fst ys)" using assms by auto
  have "distinct (map fst (sort_key fst ys))"
    using assms(2) by (simp add: distinct_map)
  then show "filter (\<lambda>x. fst k = fst x) (sort_key fst ys) = filter (\<lambda>x. fst k = fst x) xs"
    using filter_key_single [OF _ k(2)] filter_key_single [OF assms(1) k(1)] by simp
qed simp

lemma map_insort_entries:
  "map (on_val f) (insort_key fst x xs) = insort_key fst (on_val f x) (map (on_val f) xs)"
  for x :: "string \<times> 'a"
  by (induction xs) auto

lemma map_sort_entries:
  "map (on_val f) (sort_key fst xs) = sort_key fst (map (on_val f) xs)"
  for xs :: "(string \<times> 'a) list"
  by (induction xs) (simp_all add: map_insort_entries)

lemma members_distinct: "distinct (map fst kvs) \<Longrightarrow> distinct (map fst (members kvs))"
  by (simp add: members_def distinct_map inj_on_def)

lemma members_key_unique:
  "distinct (map fst kvs) \<Longrightarrow> (k, v) \<in> set (members kvs) \<Longrightarrow> (k, w) \<in> set (members kvs) \<Longrightarrow> v = w"
  using members_distinct by (meson eq_key_imp_eq_value)

lemma image_on_val_eq:
  assumes "\<And>k v. (k, v) \<in> A \<Longrightarrow> \<exists>w. (k, w) \<in> B \<and> f v = f w"
    and "\<And>k w. (k, w) \<in> B \<Longrightarrow> \<exists>v. (k, v) \<in> A \<and> f v = f w"
  shows "on_val f ` A = on_val f ` B"
  using assms by force

lemma same_json_canonical:
  "same_json v w \<Longrightarrow> wf_json v \<Longrightarrow> wf_json w \<Longrightarrow> sortDeep v = sortDeep w"
proof (induction rule: same_json.induct)
  case (same_arr xs ys)
  then show ?case
    by (auto simp: list_all2_conv_all_nth list_all_length intro!: nth_equalityI)
next
  case (same_obj kvs kvs')
  have wf: "wf_json v" if "(k, v) \<in> set (members kvs) \<union> set (members kvs')" for k v
    using that same_obj.prems by (auto simp: members_def list_all_iff)
  let ?f = "map (on_val sortDeep)"
  have d: "distinct (map fst (?f (members l)))" if "distinct (map fst l)" for l
    using members_distinct [OF that] by (simp add: comp_def)
  have "sortDeep v = sortDeep w" if "(k, v) \<in> set (members kvs)" "(k, w) \<in> set (members kvs')" for k v w
    using same_obj.IH [OF that] wf that by blast
  moreover have "\<exists>w. (k, w) \<in> set (members kvs')" if "(k, v) \<in> set (members kvs)" for k v
    using same_obj.hyps(1) that by force
  moreover have "\<exists>v. (k, v) \<in> set (members kvs)" if "(k, w) \<in> set (members kvs')" for k w
    using same_obj.hyps(1) that by force
  ultimately have "set (?f (members kvs)) = set (?f (members kvs'))"
    unfolding set_map by (intro image_on_val_eq) blast+
  then show ?case
    using same_obj.prems d unfolding sortDeep_obj map_sort_entries
    by (simp add: sort_entries_unique [of "?f (members kvs)" "?f (members kvs')"])
qed simp

lemma sortDeep_arrD: "sortDeep w = JArr ys \<Longrightarrow> \<exists>zs. w = JArr zs \<and> ys = map sortDeep zs"
  by (cases w) auto

lemma sortDeep_objD:
  "sortDeep w = JObj ys \<Longrightarrow> \<exists>kvs. w = JObj kvs \<and> set ys = on_val sortDeep ` set (members kvs)"
proof (cases w)
  case (JObj kvs)
  moreover assume "sortDeep w = JObj ys"
  ultimately have "ys = from_entries (map (on_val sortDeep) (sort_key fst (members kvs)))"
    by (simp only: sortDeep_obj json.inject)
  with JObj show ?thesis by simp
qed simp_all

lemma canonical_same_json:
  "sortDeep v = sortDeep w \<Longrightarrow> wf_json v \<Longrightarrow> wf_json w \<Longrightarrow> same_json v w"
proof (induction v arbitrary: w rule: sortDeep.induct)
  case (1 xs)
  then obtain zs where zs: "w = JArr zs" "map sortDeep xs = map sortDeep zs"
    using sortDeep_arrD [of w "map sortDeep xs"] by auto
  have "same_json (xs ! i) (zs ! i)" if "i < length xs" for i
    using 1 zs that by (auto simp: list_all_length list_eq_iff_nth_eq)
  moreover have "length xs = length zs" using zs(2) map_eq_imp_length_eq by blast
  ultimately show ?case
    unfolding zs by (intro same_arr) (simp add: list_all2_conv_all_nth)
next
  case (2 kvs)
  let ?ys = "from_entries (map (on_val sortDeep) (sort_key fst (members kvs)))"
  have "sortDeep w = JObj ?ys" using 2(2) unfolding sortDeep_obj by (rule sym)
  then obtain kvs' where w: "w = JObj kvs'" and
    sets: "on_val sortDeep ` set (members kvs) = on_val sortDeep ` set (members kvs')"
    using sortDeep_objD [of w ?ys] by auto
  have "fst ` A = fst ` (on_val sortDeep ` A)" for A :: "(string \<times> json) set"
    by (simp add: image_image)
  with sets have keys: "fst ` set (members kvs) = fst ` set (members kvs')" by metis
  have "same_json v u" if "(k, v) \<in> set (members kvs)" "(k, u) \<in> set (members kvs')" for k v u
  proof -
    have "(k, sortDeep v) \<in> on_val sortDeep ` set (members kvs')"
      using sets that(1) by force
    then obtain u' where "(k, u') \<in> set (members kvs')" "sortDeep v = sortDeep u'" by auto
    moreover from this have "u' = u" using members_key_unique 2(4) that(2) by (auto simp: w)
    moreover have "wf_json v" "wf_json u"
      using that 2(3,4) by (force simp: w members_def list_all_iff)+
    ultimately show ?thesis
      using 2(1) [of "(k, v)" u] that(1) by (simp add: members_def)
  qed
  then show ?case unfolding w by (rule same_obj [OF keys])
qed (insert same_refl, (drule sym, elim sortDeep.elims, simp_all)+)

section \<open>Properties\<close>

text \<open>C28. The canonical JSON text is a faithful key: two values have the same canonical text exactly when
  they differ only in the order of object keys (and in members that are undefined). Reordering keys
  never changes a content hash or a grant key, and different contents never share a text.\<close>

theorem canonicalJson_decides_equality:
  assumes "wf_json v" "wf_json w" "v \<noteq> JUndef" "w \<noteq> JUndef"
  shows "canonicalJson v = canonicalJson w \<longleftrightarrow> same_json v w"
proof
  assume "canonicalJson v = canonicalJson w"
  then have "sortDeep v = sortDeep w"
    unfolding canonicalJson_def using assms sortDeep_defined stringify_inj by blast
  then show "same_json v w" using assms canonical_same_json by blast
next
  assume "same_json v w"
  then show "canonicalJson v = canonicalJson w"
    using assms same_json_canonical by (simp add: canonicalJson_def)
qed

theorem canonicalJson_decides_equality_witness:
  "canonicalJson (JObj [(''b'', JNum 1), (''a'', JStr ''x'')]) = canonicalJson (JObj [(''a'', JStr ''x''), (''b'', JNum 1)])"
proof -
  have "same_json (JObj [(''b'', JNum 1), (''a'', JStr ''x'')]) (JObj [(''a'', JStr ''x''), (''b'', JNum 1)])"
    by (rule same_obj) (auto simp: members_def intro: same_refl)
  then show ?thesis
    using canonicalJson_decides_equality
      [of "JObj [(''b'', JNum 1), (''a'', JStr ''x'')]" "JObj [(''a'', JStr ''x''), (''b'', JNum 1)]"]
    by simp
qed

end
