(* ===== verification/Permissions.thy ===== *)
theory Permissions
  imports Json
begin

text \<open>
  The agent's permission engine, \<^verbatim>\<open>src/src/agent/permissions.ts\<close>.

  \<open>decide\<close> has one await, the ask handler; \<open>decide_begin\<close> is the part before it and \<open>decide_resume\<close>
  the part after, so that other calls can run in between. The engine's configuration (rules,
  default effect, approval lifetime) is a record; the SHA-256 digest is a parameter \<open>sha\<close>.
\<close>

section \<open>Rules, modes, decisions\<close>

datatype permission_effect = Allow | Deny | Ask

datatype permission_mode = Mode_default | Mode_explore | Mode_accept_edits | Mode_bypass

datatype tool_risk_class = Risk_read | Risk_edit | Risk_execute | Risk_destructive

record permission_rule =
  pr_tool :: "string option"
  pr_argsMatch :: "(json \<Rightarrow> bool) option"
  pr_effect :: permission_effect
  pr_note :: "string option"
  pr_bypassImmune :: bool

record permission_decision =
  pd_effect :: permission_effect
  pd_rule :: "string option"
  pd_cachedGrant :: bool
  pd_asked :: bool

record permission_engine_options =
  po_rules :: "permission_rule list"
  po_defaultEffect :: "permission_effect option"
  po_hasAsk :: bool
  po_approvalTtlMs :: "int option"

record permission_engine =
  pe_grants :: "string \<rightharpoonup> int"
  pe_mode :: permission_mode

definition new_engine :: "permission_mode option \<Rightarrow> permission_engine" where
  "new_engine mode =
     \<lparr>pe_grants = Map.empty, pe_mode = (case mode of None \<Rightarrow> Mode_default | Some m \<Rightarrow> m)\<rparr>"

definition setMode :: "permission_mode \<Rightarrow> permission_engine \<Rightarrow> permission_engine" where
  "setMode m e = e\<lparr>pe_mode := m\<rparr>"

definition clearGrants :: "permission_engine \<Rightarrow> permission_engine" where
  "clearGrants e = e\<lparr>pe_grants := Map.empty\<rparr>"

section \<open>Grant keys\<close>

fun sortKeysDeep :: "json \<Rightarrow> json" where
  "sortKeysDeep (JArr xs) = JArr (map sortKeysDeep xs)"
| "sortKeysDeep (JObj kvs) = JObj (from_entries (map (on_val sortKeysDeep) (sort_key fst kvs)))"
| "sortKeysDeep v = v"

definition grantKey :: "(string \<Rightarrow> string) \<Rightarrow> string \<Rightarrow> json \<Rightarrow> string" where
  "grantKey sha tool args =
     sha (canonicalJson (JStr (stringify (JObj [(''tool'', JStr tool), (''args'', sortKeysDeep args)]))))"

section \<open>Deciding\<close>

fun RANK :: "permission_effect \<Rightarrow> nat" where
  "RANK Deny = 3"
| "RANK Ask = 2"
| "RANK Allow = 1"

type_synonym verdict = "(permission_effect \<times> string) option"

definition considerEffect :: "permission_effect \<Rightarrow> string \<Rightarrow> verdict \<Rightarrow> verdict" where
  "considerEffect effect label v =
     (case v of None \<Rightarrow> Some (effect, label)
      | Some (strictest, via) \<Rightarrow> if RANK effect > RANK strictest then Some (effect, label) else v)"

definition applies :: "permission_mode \<Rightarrow> string \<Rightarrow> json \<Rightarrow> permission_rule \<Rightarrow> bool" where
  "applies mode tool args rule \<longleftrightarrow>
     \<not> (mode = Mode_bypass \<and> \<not> pr_bypassImmune rule) \<and>
     (case pr_tool rule of None \<Rightarrow> True | Some t \<Rightarrow> t = tool) \<and>
     (case pr_argsMatch rule of None \<Rightarrow> True | Some p \<Rightarrow> p args)"

definition rule_label :: "permission_rule \<Rightarrow> string" where
  "rule_label rule =
     (case pr_note rule of Some n \<Rightarrow> n
      | None \<Rightarrow> (case pr_tool rule of Some t \<Rightarrow> t | None \<Rightarrow> ''rule''))"

definition consider_rules :: "permission_mode \<Rightarrow> string \<Rightarrow> json \<Rightarrow> permission_rule list \<Rightarrow> verdict" where
  "consider_rules mode tool args rules =
     foldl (\<lambda>v rule. if applies mode tool args rule then considerEffect (pr_effect rule) (rule_label rule) v else v)
       None rules"

definition modeAllow :: "permission_mode \<Rightarrow> tool_risk_class \<Rightarrow> bool" where
  "modeAllow mode risk \<longleftrightarrow> mode = Mode_accept_edits \<and> risk = Risk_edit"

definition consider_mode :: "permission_mode \<Rightarrow> tool_risk_class \<Rightarrow> verdict \<Rightarrow> verdict" where
  "consider_mode mode risk v0 =
     (let v1 = (if mode = Mode_explore \<and> risk \<noteq> Risk_read
                then considerEffect Deny ''mode=explore(non-read tool)'' v0 else v0);
          v2 = (if modeAllow mode risk
                then considerEffect Allow ''mode=accept_edits(edit-class tool)'' v1 else v1);
          v3 = (if mode = Mode_bypass then considerEffect Allow ''mode=bypass'' v2 else v2)
      in if modeAllow mode risk \<and> map_option fst v3 = Some Ask
         then Some (Allow, ''mode=accept_edits(auto-accepts ask for edit-class)'') else v3)"

definition verdict_of ::
  "permission_engine_options \<Rightarrow> permission_mode \<Rightarrow> string \<Rightarrow> json \<Rightarrow> tool_risk_class option \<Rightarrow> verdict" where
  "verdict_of opts mode tool args riskClass =
     consider_mode mode (case riskClass of None \<Rightarrow> Risk_execute | Some r \<Rightarrow> r)
       (consider_rules mode tool args (po_rules opts))"

datatype ask_outcome = Decided permission_decision | Asking string int

definition decideAsk_begin ::
  "(string \<Rightarrow> string) \<Rightarrow> permission_engine_options \<Rightarrow> string \<Rightarrow> json \<Rightarrow> string option \<Rightarrow> int \<Rightarrow>
   permission_engine \<Rightarrow> ask_outcome \<times> permission_engine" where
  "decideAsk_begin sha opts tool args label now e =
     (let key = grantKey sha tool args in
      case pe_grants e key of
        Some expiry \<Rightarrow>
          if expiry > now
          then (Decided \<lparr>pd_effect = Allow,
                  pd_rule = Some (case label of Some l \<Rightarrow> l | None \<Rightarrow> tool @ '':cached-grant''),
                  pd_cachedGrant = True, pd_asked = False\<rparr>, e)
          else (let e' = e\<lparr>pe_grants := (pe_grants e)(key := None)\<rparr> in
                if \<not> po_hasAsk opts
                then (Decided \<lparr>pd_effect = Deny, pd_rule = Some (tool @ '':ask-without-handler''),
                        pd_cachedGrant = False, pd_asked = False\<rparr>, e')
                else (Asking key now, e'))
      | None \<Rightarrow>
          if \<not> po_hasAsk opts
          then (Decided \<lparr>pd_effect = Deny, pd_rule = Some (tool @ '':ask-without-handler''),
                  pd_cachedGrant = False, pd_asked = False\<rparr>, e)
          else (Asking key now, e))"

definition decide_resume ::
  "permission_engine_options \<Rightarrow> string \<Rightarrow> string \<Rightarrow> int \<Rightarrow> bool \<Rightarrow> permission_engine \<Rightarrow>
   permission_decision \<times> permission_engine" where
  "decide_resume opts tool key now granted e =
     (if \<not> granted
      then (\<lparr>pd_effect = Deny, pd_rule = Some (tool @ '':ask-denied''), pd_cachedGrant = False, pd_asked = True\<rparr>, e)
      else let ttl = (case po_approvalTtlMs opts of Some t \<Rightarrow> t | None \<Rightarrow> 5 * 60000)
           in (\<lparr>pd_effect = Allow,
                pd_rule = Some (tool @ '':ask-granted(ttl='' @ str_of_int (ttl div 1000) @ ''s)''),
                pd_cachedGrant = False, pd_asked = True\<rparr>,
               e\<lparr>pe_grants := (pe_grants e)(key \<mapsto> now + ttl)\<rparr>))"

definition decide_begin ::
  "(string \<Rightarrow> string) \<Rightarrow> permission_engine_options \<Rightarrow> string \<Rightarrow> json \<Rightarrow> tool_risk_class option \<Rightarrow> int \<Rightarrow>
   permission_engine \<Rightarrow> ask_outcome \<times> permission_engine" where
  "decide_begin sha opts tool args riskClass now e =
     (case verdict_of opts (pe_mode e) tool args riskClass of
        None \<Rightarrow>
          (let fallback = (case po_defaultEffect opts of Some d \<Rightarrow> d | None \<Rightarrow> Deny) in
           if fallback = Ask then decideAsk_begin sha opts tool args None now e
           else (Decided \<lparr>pd_effect = fallback, pd_rule = None, pd_cachedGrant = False, pd_asked = False\<rparr>, e))
      | Some (strictest, via) \<Rightarrow>
          if strictest \<noteq> Ask
          then (Decided \<lparr>pd_effect = strictest, pd_rule = Some via, pd_cachedGrant = False, pd_asked = False\<rparr>, e)
          else decideAsk_begin sha opts tool args (Some via) now e)"

text \<open>The whole call, when nothing else runs while the handler is asked.\<close>

definition decide ::
  "(string \<Rightarrow> string) \<Rightarrow> permission_engine_options \<Rightarrow> (string \<Rightarrow> json \<Rightarrow> bool) \<Rightarrow> string \<Rightarrow> json \<Rightarrow>
   tool_risk_class option \<Rightarrow> int \<Rightarrow> permission_engine \<Rightarrow> permission_decision \<times> permission_engine" where
  "decide sha opts ask tool args riskClass now e =
     (case decide_begin sha opts tool args riskClass now e of
        (Decided d, e') \<Rightarrow> (d, e')
      | (Asking key t, e') \<Rightarrow> decide_resume opts tool key t (ask tool args) e')"

section \<open>Strictest wins\<close>

definition effects :: "permission_mode \<Rightarrow> string \<Rightarrow> json \<Rightarrow> permission_rule list \<Rightarrow> permission_effect set" where
  "effects mode tool args rules = pr_effect ` {r \<in> set rules. applies mode tool args r}"

definition strictest_of :: "permission_effect set \<Rightarrow> permission_effect option" where
  "strictest_of E = (if Deny \<in> E then Some Deny else if Ask \<in> E then Some Ask
     else if Allow \<in> E then Some Allow else None)"

definition join_effect :: "permission_effect \<Rightarrow> permission_effect option \<Rightarrow> permission_effect option" where
  "join_effect x v = (case v of None \<Rightarrow> Some x | Some y \<Rightarrow> Some (if RANK x > RANK y then x else y))"

lemma consider_effect: "map_option fst (considerEffect x l v) = join_effect x (map_option fst v)"
  by (auto simp: considerEffect_def join_effect_def split: option.split)

lemma join_strictest: "join_effect x (strictest_of E) = strictest_of (insert x E)"
  by (cases x) (auto simp: join_effect_def strictest_of_def)

lemma strictest_of_None: "strictest_of E = None \<longleftrightarrow> E = {}"
  by (auto simp: strictest_of_def) (metis permission_effect.exhaust)

lemma consider_rules_effect:
  "map_option fst (consider_rules mode tool args rules) = strictest_of (effects mode tool args rules)"
proof -
  let ?f = "\<lambda>v rule. if applies mode tool args rule then considerEffect (pr_effect rule) (rule_label rule) v else v"
  have "map_option fst (foldl ?f v rules) =
      (if effects mode tool args rules = {} then map_option fst v
       else strictest_of (effects mode tool args rules \<union> E))"
    if "map_option fst v = strictest_of E" for v E
    using that
  proof (induction rules arbitrary: v E)
    case (Cons r rs)
    show ?case
    proof (cases "applies mode tool args r")
      case True
      let ?v = "considerEffect (pr_effect r) (rule_label r) v"
      have *: "map_option fst ?v = strictest_of (insert (pr_effect r) E)"
        using Cons.prems by (simp add: consider_effect join_strictest)
      have "effects mode tool args (r # rs) = insert (pr_effect r) (effects mode tool args rs)"
        using True by (auto simp: effects_def)
      with Cons.IH [OF *] * True show ?thesis by simp
    next
      case False
      then have "effects mode tool args (r # rs) = effects mode tool args rs"
        by (auto simp: effects_def)
      with Cons.IH [OF Cons.prems] False show ?thesis by simp
    qed
  qed (simp add: effects_def)
  from this [of None "{}"] show ?thesis
    by (auto simp: consider_rules_def strictest_of_def)
qed

text \<open>The effect of the whole verdict, as a function of the set of applicable effects.\<close>

definition mode_effect :: "permission_mode \<Rightarrow> tool_risk_class \<Rightarrow> permission_effect option \<Rightarrow> permission_effect option" where
  "mode_effect mode risk v =
     (if mode = Mode_explore \<and> risk \<noteq> Risk_read then Some Deny
      else if modeAllow mode risk then (if v = Some Deny then Some Deny else Some Allow)
      else if mode = Mode_bypass then join_effect Allow v else v)"

lemma consider_mode_effect:
  "map_option fst (consider_mode mode risk v) = mode_effect mode risk (map_option fst v)"
proof -
  have a: "join_effect Allow (Some x) = Some x" for x by (cases x) (simp_all add: join_effect_def)
  have d: "join_effect Deny x = Some Deny" for x
  proof (cases x)
    case (Some y)
    then show ?thesis by (cases y) (simp_all add: join_effect_def)
  qed (simp add: join_effect_def)
  show ?thesis
  proof (cases v)
    case None
    then show ?thesis
      by (cases mode; cases risk)
        (simp_all add: consider_mode_def mode_effect_def modeAllow_def consider_effect considerEffect_def Let_def d join_effect_def)
  next
    case (Some w)
    obtain x l where w: "w = (x, l)" by force
    show ?thesis
      unfolding Some w
      by (cases mode; cases risk; cases x)
        (simp_all add: consider_mode_def mode_effect_def modeAllow_def consider_effect Let_def a d considerEffect_def)
  qed
qed

lemma verdict_effect:
  "map_option fst (verdict_of opts mode tool args riskClass) =
   mode_effect mode (case riskClass of None \<Rightarrow> Risk_execute | Some r \<Rightarrow> r)
     (strictest_of (effects mode tool args (po_rules opts)))"
  by (simp add: verdict_of_def consider_mode_effect consider_rules_effect)

lemma verdict_deny:
  assumes "r \<in> set (po_rules opts)" "applies mode tool args r" "pr_effect r = Deny"
  shows "map_option fst (verdict_of opts mode tool args riskClass) = Some Deny"
proof -
  have "Deny \<in> effects mode tool args (po_rules opts)" using assms by (force simp: effects_def)
  then show ?thesis by (simp add: verdict_effect mode_effect_def strictest_of_def join_effect_def)
qed

section \<open>Properties of a decision\<close>

text \<open>C7. Deny dominates: when an applicable rule denies a call, the decision is deny in every position of
  the rule list, whatever other rules, the mode and the cached grants say, and nobody is asked. In
  bypass mode a rule applies when it is bypass-immune.\<close>

theorem explicit_deny_dominates:
  assumes "r \<in> set (po_rules opts)" "applies (pe_mode e) tool args r" "pr_effect r = Deny"
  shows "\<exists>via. decide sha opts ask tool args risk now e =
    (\<lparr>pd_effect = Deny, pd_rule = Some via, pd_cachedGrant = False, pd_asked = False\<rparr>, e)"
  using verdict_deny [OF assms, of risk] by (auto simp: decide_def decide_begin_def)

theorem explicit_deny_dominates_witness:
  "\<exists>via. decide id
     \<lparr>po_rules = [\<lparr>pr_tool = None, pr_argsMatch = None, pr_effect = Allow, pr_note = None, pr_bypassImmune = False\<rparr>,
                  \<lparr>pr_tool = Some ''rm'', pr_argsMatch = None, pr_effect = Deny, pr_note = None, pr_bypassImmune = True\<rparr>],
      po_defaultEffect = None, po_hasAsk = True, po_approvalTtlMs = None\<rparr>
     (\<lambda>_ _. True) ''rm'' JNull None 0 (new_engine (Some Mode_bypass)) =
    (\<lparr>pd_effect = Deny, pd_rule = Some via, pd_cachedGrant = False, pd_asked = False\<rparr>, new_engine (Some Mode_bypass))"
  by (rule explicit_deny_dominates [where r = "\<lparr>pr_tool = Some ''rm'', pr_argsMatch = None, pr_effect = Deny,
        pr_note = None, pr_bypassImmune = True\<rparr>"]) (simp_all add: applies_def new_engine_def)

text \<open>Rule order carries no security meaning: permuting the rule list never changes the effect of a
  decision, whether it was asked, or the grants it leaves behind.\<close>

theorem decision_order_independent:
  assumes "mset rules = mset rules'"
  shows "let (d, e1) = decide sha (opts\<lparr>po_rules := rules\<rparr>) ask tool args risk now e;
             (d', e2) = decide sha (opts\<lparr>po_rules := rules'\<rparr>) ask tool args risk now e
         in pd_effect d = pd_effect d' \<and> pd_asked d = pd_asked d' \<and> pd_cachedGrant d = pd_cachedGrant d' \<and> e1 = e2"
proof -
  let ?v = "\<lambda>rs. verdict_of (opts\<lparr>po_rules := rs\<rparr>) (pe_mode e) tool args risk"
  have "set rules = set rules'" using assms by (metis set_mset_mset)
  then have eq: "map_option fst (?v rules) = map_option fst (?v rules')"
    unfolding verdict_effect by (simp add: effects_def)
  show ?thesis
  proof (cases "?v rules")
    case None
    with eq have "?v rules' = None" by simp
    with None show ?thesis
      by (simp add: decide_def decide_begin_def decideAsk_begin_def decide_resume_def Let_def split: option.split)
  next
    case (Some w)
    then obtain x l where 1: "?v rules = Some (x, l)" by (cases w) auto
    with eq obtain l' where "?v rules' = Some (x, l')" by (cases "?v rules'") auto
    with 1 show ?thesis
      by (auto simp: decide_def decide_begin_def decideAsk_begin_def decide_resume_def Let_def split: option.split)
  qed
qed

theorem decision_order_independent_witness:
  "let allow = \<lparr>pr_tool = None, pr_argsMatch = None, pr_effect = Allow, pr_note = None, pr_bypassImmune = False\<rparr>;
       ask_rule = \<lparr>pr_tool = None, pr_argsMatch = None, pr_effect = Ask, pr_note = None, pr_bypassImmune = False\<rparr>;
       opts = \<lparr>po_rules = [], po_defaultEffect = None, po_hasAsk = False, po_approvalTtlMs = None\<rparr>
   in pd_effect (fst (decide id (opts\<lparr>po_rules := [allow, ask_rule]\<rparr>) (\<lambda>_ _. True) ''t'' JNull None 0 (new_engine None))) =
      pd_effect (fst (decide id (opts\<lparr>po_rules := [ask_rule, allow]\<rparr>) (\<lambda>_ _. True) ''t'' JNull None 0 (new_engine None)))"
  unfolding Let_def
  using decision_order_independent [where sha = id and ask = "\<lambda>_ _. True" and tool = "''t''" and args = JNull
      and risk = None and now = 0 and e = "new_engine None"
      and opts = "\<lparr>po_rules = [], po_defaultEffect = None, po_hasAsk = False, po_approvalTtlMs = None\<rparr>"
      and rules = "[\<lparr>pr_tool = None, pr_argsMatch = None, pr_effect = Allow, pr_note = None, pr_bypassImmune = False\<rparr>,
        \<lparr>pr_tool = None, pr_argsMatch = None, pr_effect = Ask, pr_note = None, pr_bypassImmune = False\<rparr>]"
      and rules' = "[\<lparr>pr_tool = None, pr_argsMatch = None, pr_effect = Ask, pr_note = None, pr_bypassImmune = False\<rparr>,
        \<lparr>pr_tool = None, pr_argsMatch = None, pr_effect = Allow, pr_note = None, pr_bypassImmune = False\<rparr>]"]
  by (simp add: case_prod_beta Let_def)

section \<open>Grants are bound to the exact call\<close>

text \<open>\<open>sortKeysDeep\<close> keeps undefined members, which printing drops; so it prints as \<open>sortDeep\<close> does.\<close>

lemma str_members_skip: "str_members b kvs = str_members b (members kvs)"
  by (induction kvs arbitrary: b) (auto simp: members_def)

lemma str_members_map_cong:
  "(\<And>kv. kv \<in> set kvs \<Longrightarrow> f (snd kv) \<noteq> JUndef \<and> g (snd kv) \<noteq> JUndef \<and> stringify (f (snd kv)) = stringify (g (snd kv))) \<Longrightarrow>
   str_members b (map (on_val f) kvs) = str_members b (map (on_val g) kvs)"
  by (induction kvs arbitrary: b) auto

lemma str_elems_map_cong:
  "(\<And>x. x \<in> set xs \<Longrightarrow> stringify (f x) = stringify (g x)) \<Longrightarrow> str_elems b (map f xs) = str_elems b (map g xs)"
  by (induction xs arbitrary: b) auto

lemma map_insort_on_val:
  "map (on_val f) (insort_key (\<lambda>kv. h (fst kv)) x xs) = insort_key (\<lambda>kv. h (fst kv)) (on_val f x) (map (on_val f) xs)"
  by (induction xs) auto

lemma map_sort_on_val:
  "map (on_val f) (sort_key (\<lambda>kv. h (fst kv)) xs) = sort_key (\<lambda>kv. h (fst kv)) (map (on_val f) xs)"
  by (induction xs) (simp_all add: map_insort_on_val)

lemma from_entries_on_val: "from_entries (map (on_val f) kvs) = map (on_val f) (from_entries kvs)"
  by (simp add: from_entries_def map_sort_on_val [of f "nat_of_digits 0"] filter_map comp_def)

lemma members_from_entries: "members (from_entries kvs) = from_entries (members kvs)"
  by (simp add: members_def from_entries_def filter_sort conj_commute)

lemma members_on_val: "(\<And>v. f v = JUndef \<longleftrightarrow> v = JUndef) \<Longrightarrow> members (map (on_val f) kvs) = map (on_val f) (members kvs)"
  by (simp add: members_def filter_map comp_def)

lemma members_sort: "members (sort_key fst kvs) = sort_key fst (members kvs)"
  by (simp add: members_def filter_sort)

lemma sortKeysDeep_undef [simp]: "sortKeysDeep v = JUndef \<longleftrightarrow> v = JUndef"
  by (cases v) auto

lemma sortKeysDeep_prints: "stringify (sortKeysDeep v) = stringify (sortDeep v)"
proof (induction v rule: sortKeysDeep.induct)
  case (1 xs)
  then show ?case by (simp cong: str_elems_map_cong)
next
  case (2 kvs)
  let ?L = "from_entries (sort_key fst (members kvs))"
  have eq: "str_members True (map (on_val sortKeysDeep) ?L) = str_members True (map (on_val sortDeep) ?L)"
    using 2 by (intro str_members_map_cong) (auto simp: members_def)
  have mem: "members (from_entries (map (on_val sortKeysDeep) (sort_key fst kvs))) = map (on_val sortKeysDeep) ?L"
    by (simp add: members_from_entries members_on_val members_sort from_entries_on_val)
  have "str_members True (from_entries (map (on_val sortKeysDeep) (sort_key fst kvs))) =
      str_members True (map (on_val sortDeep) ?L)"
    by (subst str_members_skip) (simp only: mem eq)
  then show ?case
    unfolding sortDeep_obj from_entries_on_val by (simp add: from_entries_on_val)
qed simp_all

lemma stringify_pair_inj:
  assumes "defined v" "defined w"
    and "stringify (JObj [(''tool'', JStr s), (''args'', v)]) = stringify (JObj [(''tool'', JStr t), (''args'', w)])"
  shows "s = t \<and> v = w"
  using stringify_inj [OF _ _ assms(3)] assms(1,2) by simp

lemma grantKey_exact:
  assumes "inj sha" "wf_json args" "wf_json args'" "args \<noteq> JUndef" "args' \<noteq> JUndef"
  shows "grantKey sha tool args = grantKey sha tool' args' \<longleftrightarrow> tool = tool' \<and> same_json args args'"
proof -
  let ?o = "\<lambda>t v. JObj [(''tool'', JStr t), (''args'', v)]"
  have p: "stringify (?o t (sortKeysDeep v)) = stringify (?o t (sortDeep v))" if "v \<noteq> JUndef" for t v
    using that by (simp add: sortKeysDeep_prints)
  have "grantKey sha tool args = grantKey sha tool' args' \<longleftrightarrow>
      stringify (JStr (stringify (?o tool (sortDeep args)))) = stringify (JStr (stringify (?o tool' (sortDeep args'))))"
    using assms(1) unfolding grantKey_def canonicalJson_def p [OF assms(4)] p [OF assms(5)]
    by (simp add: inj_eq)
  also have "\<dots> \<longleftrightarrow> stringify (?o tool (sortDeep args)) = stringify (?o tool' (sortDeep args'))"
    by (rule stringify_JStr_inj)
  also have "\<dots> \<longleftrightarrow> tool = tool' \<and> sortDeep args = sortDeep args'"
  proof
    assume eq: "stringify (?o tool (sortDeep args)) = stringify (?o tool' (sortDeep args'))"
    show "tool = tool' \<and> sortDeep args = sortDeep args'"
      by (rule stringify_pair_inj [OF sortDeep_defined sortDeep_defined eq]) (fact assms)+
  qed simp
  also have "\<dots> \<longleftrightarrow> tool = tool' \<and> same_json args args'"
    using assms same_json_canonical canonical_same_json by blast
  finally show ?thesis .
qed

section \<open>The engine as a state machine\<close>

text \<open>
  Calls overlap: between a call's question and the handler's answer other calls may decide, the mode
  may change and grants may be cleared. \<open>pending\<close> holds the questions that are out; \<open>log\<close> records,
  for the reader of the trace only, every answer: the call, the time it was asked for, and whether
  it was granted.
\<close>

record perm_state =
  ps_engine :: permission_engine
  ps_pending :: "(string \<times> json \<times> string \<times> int) list"
  ps_log :: "(string \<times> json \<times> int \<times> bool) list"

inductive perm_step ::
  "(string \<Rightarrow> string) \<Rightarrow> permission_engine_options \<Rightarrow> perm_state \<Rightarrow> perm_state \<Rightarrow> bool"
  for sha opts where
  step_decided: "decide_begin sha opts tool args risk now (ps_engine s) = (Decided d, e') \<Longrightarrow>
    perm_step sha opts s (s\<lparr>ps_engine := e'\<rparr>)"
| step_ask: "decide_begin sha opts tool args risk now (ps_engine s) = (Asking key t, e') \<Longrightarrow>
    perm_step sha opts s (s\<lparr>ps_engine := e', ps_pending := (tool, args, key, t) # ps_pending s\<rparr>)"
| step_answer: "(tool, args, key, t) \<in> set (ps_pending s) \<Longrightarrow>
    decide_resume opts tool key t granted (ps_engine s) = (d, e') \<Longrightarrow>
    perm_step sha opts s (s\<lparr>ps_engine := e',
      ps_pending := remove1 (tool, args, key, t) (ps_pending s),
      ps_log := (tool, args, t, granted) # ps_log s\<rparr>)"
| step_mode: "perm_step sha opts s (s\<lparr>ps_engine := setMode m (ps_engine s)\<rparr>)"
| step_clear: "perm_step sha opts s (s\<lparr>ps_engine := clearGrants (ps_engine s)\<rparr>)"

inductive perm_reach ::
  "(string \<Rightarrow> string) \<Rightarrow> permission_engine_options \<Rightarrow> perm_state \<Rightarrow> bool" for sha opts where
  reach_init: "perm_reach sha opts \<lparr>ps_engine = new_engine m, ps_pending = [], ps_log = []\<rparr>"
| reach_step: "perm_reach sha opts s \<Longrightarrow> perm_step sha opts s s' \<Longrightarrow> perm_reach sha opts s'"

definition approval_ttl :: "permission_engine_options \<Rightarrow> int" where
  "approval_ttl opts = (case po_approvalTtlMs opts of Some t \<Rightarrow> t | None \<Rightarrow> 5 * 60000)"

definition grants_justified ::
  "(string \<Rightarrow> string) \<Rightarrow> permission_engine_options \<Rightarrow> perm_state \<Rightarrow> bool" where
  "grants_justified sha opts s \<longleftrightarrow>
     (\<forall>key expiry. pe_grants (ps_engine s) key = Some expiry \<longrightarrow>
        (\<exists>tool args t. (tool, args, t, True) \<in> set (ps_log s) \<and> key = grantKey sha tool args \<and>
           expiry = t + approval_ttl opts)) \<and>
     (\<forall>(tool, args, key, t) \<in> set (ps_pending s). key = grantKey sha tool args)"

lemma decideAsk_begin_grants:
  "decideAsk_begin sha opts tool args label now e = (r, e') \<Longrightarrow> pe_grants e' \<subseteq>\<^sub>m pe_grants e"
  by (auto simp: decideAsk_begin_def Let_def map_le_def split: option.splits if_splits)

lemma decide_begin_grants:
  "decide_begin sha opts tool args risk now e = (r, e') \<Longrightarrow> pe_grants e' \<subseteq>\<^sub>m pe_grants e"
  by (auto simp: decide_begin_def Let_def split: option.splits if_splits dest: decideAsk_begin_grants)

lemma decide_begin_asking:
  "decide_begin sha opts tool args risk now e = (Asking key t, e') \<Longrightarrow> key = grantKey sha tool args \<and> t = now"
  by (auto simp: decide_begin_def decideAsk_begin_def Let_def split: option.splits if_splits)

lemma grants_justified_shrink:
  assumes "grants_justified sha opts s" "pe_grants e' \<subseteq>\<^sub>m pe_grants (ps_engine s)"
    and "\<forall>(tool, args, key, t) \<in> set p. key = grantKey sha tool args"
  shows "grants_justified sha opts (s\<lparr>ps_engine := e', ps_pending := p\<rparr>)"
proof -
  have "pe_grants (ps_engine s) key = Some x" if "pe_grants e' key = Some x" for key x
    using assms(2) that by (metis domI map_le_def)
  with assms(1,3) show ?thesis unfolding grants_justified_def by simp
qed

lemma grants_justified_step:
  assumes "perm_step sha opts s s'" "grants_justified sha opts s"
  shows "grants_justified sha opts s'"
  using assms
proof (induction rule: perm_step.induct)
  case (step_decided tool args risk now s d e')
  have "grants_justified sha opts (s\<lparr>ps_engine := e', ps_pending := ps_pending s\<rparr>)"
    using step_decided(2) decide_begin_grants [OF step_decided(1)]
    by (rule grants_justified_shrink) (use step_decided(2) in \<open>simp add: grants_justified_def\<close>)
  then show ?case by simp
next
  case (step_ask tool args risk now s key t e')
  show ?case
    using step_ask(2) decide_begin_grants [OF step_ask(1)]
    by (rule grants_justified_shrink)
      (use step_ask(2) decide_begin_asking [OF step_ask(1)] in \<open>simp add: grants_justified_def\<close>)
next
  case (step_answer tool args key t s granted d e')
  have key: "key = grantKey sha tool args" using step_answer by (auto simp: grants_justified_def)
  have e': "e' = (if granted then (ps_engine s)\<lparr>pe_grants := (pe_grants (ps_engine s))(key \<mapsto> t + approval_ttl opts)\<rparr>
      else ps_engine s)"
    using step_answer(2) by (auto simp: decide_resume_def approval_ttl_def Let_def split: if_splits)
  have "\<exists>tool' args' t'. (tool', args', t', True) \<in> set ((tool, args, t, granted) # ps_log s) \<and>
      k = grantKey sha tool' args' \<and> expiry = t' + approval_ttl opts" if "pe_grants e' k = Some expiry" for k expiry
  proof (cases "granted \<and> k = key")
    case True
    with that key show ?thesis by (auto simp: e')
  next
    case False
    with that have "pe_grants (ps_engine s) k = Some expiry" by (auto simp: e' split: if_splits)
    with step_answer(3) show ?thesis unfolding grants_justified_def by (meson list.set_intros(2))
  qed
  moreover have "\<forall>(tool', args', key', t') \<in> set (remove1 (tool, args, key, t) (ps_pending s)). key' = grantKey sha tool' args'"
    using step_answer(3) set_remove1_subset by (fastforce simp: grants_justified_def)
  ultimately show ?case by (simp add: grants_justified_def)
qed (auto simp: grants_justified_def setMode_def clearGrants_def)

lemma reach_justified: "perm_reach sha opts s \<Longrightarrow> grants_justified sha opts s"
proof (induction rule: perm_reach.induct)
  case (reach_init m)
  show ?case by (simp add: grants_justified_def new_engine_def)
qed (rule grants_justified_step)

text \<open>C25. An approval never generalises and never outlives its lifetime: in every reachable state, under
  any interleaving of calls, mode switches and clears, a call that is allowed by a cached grant is one
  for which a human granted exactly this tool with exactly these arguments (up to key order), at a
  time less than the approval lifetime ago.\<close>

theorem cached_grant_exact_and_fresh:
  assumes "inj sha" "perm_reach sha opts s"
    and "decide_begin sha opts tool args risk now (ps_engine s) = (Decided d, e')" "pd_cachedGrant d"
    and "wf_json args" "args \<noteq> JUndef"
    and "\<forall>(tool', args', t, granted) \<in> set (ps_log s). wf_json args' \<and> args' \<noteq> JUndef"
  shows "\<exists>args' t. (tool, args', t, True) \<in> set (ps_log s) \<and> same_json args args' \<and> now < t + approval_ttl opts"
proof -
  obtain expiry where g: "pe_grants (ps_engine s) (grantKey sha tool args) = Some expiry" "expiry > now"
    using assms(3,4)
    by (auto simp: decide_begin_def decideAsk_begin_def Let_def split: option.splits if_splits)
  then obtain tool' args' t where l: "(tool', args', t, True) \<in> set (ps_log s)"
    "grantKey sha tool args = grantKey sha tool' args'" "expiry = t + approval_ttl opts"
    using reach_justified [OF assms(2)] unfolding grants_justified_def by blast
  moreover have "tool = tool' \<and> same_json args args'"
    using l assms grantKey_exact [of sha args args' tool tool'] by auto
  ultimately show ?thesis using g(2) by auto
qed

definition finish_ask ::
  "permission_engine_options \<Rightarrow> (string \<Rightarrow> json \<Rightarrow> bool) \<Rightarrow> string \<Rightarrow> json \<Rightarrow> ask_outcome \<times> permission_engine \<Rightarrow>
   permission_decision \<times> permission_engine" where
  "finish_ask opts ask tool args r =
     (case r of (Decided d, e') \<Rightarrow> (d, e')
      | (Asking key t, e') \<Rightarrow> decide_resume opts tool key t (ask tool args) e')"

lemma decide_finish_ask: "decide sha opts ask tool args risk now e = finish_ask opts ask tool args (decide_begin sha opts tool args risk now e)"
  by (simp add: decide_def finish_ask_def)

lemma ask_allowed:
  "finish_ask opts ask tool args (decideAsk_begin sha opts tool args label now e) = (d, e') \<Longrightarrow>
   pd_effect d = Allow \<Longrightarrow> pd_cachedGrant d \<or> pd_asked d \<and> ask tool args"
  by (auto simp: finish_ask_def decideAsk_begin_def decide_resume_def Let_def split: option.splits if_splits)

lemma decide_allow_cases:
  assumes "decide sha opts ask tool args risk now e = (d, e')" "pd_effect d = Allow"
  defines "v \<equiv> verdict_of opts (pe_mode e) tool args risk"
  shows "v = None \<and> (po_defaultEffect opts = Some Allow \<or>
        po_defaultEffect opts = Some Ask \<and> (pd_cachedGrant d \<or> pd_asked d \<and> ask tool args)) \<or>
      (\<exists>via. v = Some (Allow, via)) \<or>
      (\<exists>via. v = Some (Ask, via)) \<and> (pd_cachedGrant d \<or> pd_asked d \<and> ask tool args)"
proof (cases v)
  case None
  then show ?thesis
    using assms(1,2) ask_allowed [of opts ask tool args sha None now e d e'] unfolding decide_finish_ask
    by (cases "po_defaultEffect opts") (auto simp: decide_begin_def v_def finish_ask_def split: if_splits)
next
  case (Some w)
  obtain x via where w: "w = (x, via)" by force
  show ?thesis
    using assms(1,2) ask_allowed [of opts ask tool args sha "Some via" now e d e'] Some unfolding decide_finish_ask w
    by (cases x) (auto simp: decide_begin_def v_def finish_ask_def)
qed

text \<open>The engine fails closed: a call is allowed only when no applicable rule denies it and one of
  these holds: an applicable rule allows it, the session mode allows it, the configured default
  allows it, or an ask (by an applicable rule or by default) was answered with yes, now or by a
  still valid grant.\<close>

theorem allow_is_justified:
  assumes "decide sha opts ask tool args riskClass now e = (d, e')" "pd_effect d = Allow"
  defines "E \<equiv> effects (pe_mode e) tool args (po_rules opts)"
    and "risk \<equiv> (case riskClass of None \<Rightarrow> Risk_execute | Some r \<Rightarrow> r)"
  shows "Deny \<notin> E \<and> \<not> (pe_mode e = Mode_explore \<and> risk \<noteq> Risk_read) \<and>
    (Allow \<in> E \<or> modeAllow (pe_mode e) risk \<or> pe_mode e = Mode_bypass \<or>
     (E = {} \<and> po_defaultEffect opts = Some Allow) \<or>
     (Ask \<in> E \<or> E = {} \<and> po_defaultEffect opts = Some Ask) \<and> (pd_cachedGrant d \<or> pd_asked d \<and> ask tool args))"
proof -
  let ?v = "verdict_of opts (pe_mode e) tool args riskClass"
  have v: "map_option fst ?v = mode_effect (pe_mode e) risk (strictest_of E)"
    unfolding E_def risk_def by (rule verdict_effect)
  note * = decide_allow_cases [OF assms(1,2)]
  have "?v = None \<Longrightarrow> E = {} \<and> \<not> (pe_mode e = Mode_explore \<and> risk \<noteq> Risk_read)"
    using v by (auto simp: mode_effect_def strictest_of_None eq_commute [of None] join_effect_def split: if_splits option.splits)
  moreover have "?v = Some (Allow, via) \<Longrightarrow> Deny \<notin> E \<and> \<not> (pe_mode e = Mode_explore \<and> risk \<noteq> Risk_read) \<and>
      (Allow \<in> E \<or> modeAllow (pe_mode e) risk \<or> pe_mode e = Mode_bypass)" for via
    using v by (auto simp: mode_effect_def strictest_of_def join_effect_def split: if_splits option.splits)
  moreover have "?v = Some (Ask, via) \<Longrightarrow> Deny \<notin> E \<and> \<not> (pe_mode e = Mode_explore \<and> risk \<noteq> Risk_read) \<and> Ask \<in> E" for via
    using v by (auto simp: mode_effect_def strictest_of_def join_effect_def split: if_splits option.splits)
  ultimately show ?thesis using * by (elim disjE) auto
qed

theorem allow_is_justified_witness:
  "Deny \<notin> effects Mode_default ''read'' JNull
     [\<lparr>pr_tool = Some ''read'', pr_argsMatch = None, pr_effect = Allow, pr_note = None, pr_bypassImmune = False\<rparr>]"
  using allow_is_justified [of id
      "\<lparr>po_rules = [\<lparr>pr_tool = Some ''read'', pr_argsMatch = None, pr_effect = Allow, pr_note = None, pr_bypassImmune = False\<rparr>],
        po_defaultEffect = None, po_hasAsk = False, po_approvalTtlMs = None\<rparr>"
      "\<lambda>_ _. False" "''read''" JNull None 0 "new_engine None"
      "\<lparr>pd_effect = Allow, pd_rule = Some ''read'', pd_cachedGrant = False, pd_asked = False\<rparr>" "new_engine None"]
  by (simp add: decide_def decide_begin_def verdict_of_def consider_mode_def consider_rules_def applies_def
      considerEffect_def rule_label_def modeAllow_def new_engine_def Let_def)

theorem cached_grant_exact_and_fresh_witness:
  "\<exists>args' t. (''t'', args', t, True) \<in> set [(''t'', JNull, 0 :: int, True)] \<and> same_json JNull args' \<and> 1 < t + 300000"
proof -
  let ?opts = "\<lparr>po_rules = [], po_defaultEffect = Some Ask, po_hasAsk = True, po_approvalTtlMs = None\<rparr>"
  let ?key = "grantKey id ''t'' JNull"
  let ?s0 = "\<lparr>ps_engine = new_engine None, ps_pending = [], ps_log = []\<rparr>"
  let ?s1 = "\<lparr>ps_engine = new_engine None, ps_pending = [(''t'', JNull, ?key, 0)], ps_log = []\<rparr>"
  let ?e = "\<lparr>pe_grants = [?key \<mapsto> 300000], pe_mode = Mode_default\<rparr>"
  let ?s2 = "\<lparr>ps_engine = ?e, ps_pending = [], ps_log = [(''t'', JNull, 0, True)]\<rparr>"
  have v: "verdict_of ?opts Mode_default ''t'' JNull None = None"
    by (simp add: verdict_of_def consider_mode_def consider_rules_def modeAllow_def)
  have "perm_step id ?opts ?s0 ?s1"
    using step_ask [of id ?opts "''t''" JNull None 0 ?s0 ?key 0 "new_engine None"] v
    by (simp add: decide_begin_def decideAsk_begin_def new_engine_def Let_def)
  moreover have "perm_step id ?opts ?s1 ?s2"
    using step_answer [of "''t''" JNull ?key 0 ?s1 ?opts True _ ?e id]
    by (simp add: decide_resume_def new_engine_def Let_def)
  ultimately have r: "perm_reach id ?opts ?s2"
    using reach_init [of id ?opts None] reach_step by blast
  show ?thesis
    using cached_grant_exact_and_fresh [OF _ r, of "''t''" JNull None 1
        "\<lparr>pd_effect = Allow, pd_rule = Some ''t:cached-grant'', pd_cachedGrant = True, pd_asked = False\<rparr>" ?e] v
    by (simp add: decide_begin_def decideAsk_begin_def approval_ttl_def Let_def)
qed

end
