(* ===== verification/Hooks.thy ===== *)
theory Hooks
  imports Permissions
begin

text \<open>
  Hook rules and the extension bus: the declared rules of \<^verbatim>\<open>src/src/domain/tool-integration.ts\<close>,
  their compilation into permission rules and log handlers (\<^verbatim>\<open>src/src/agent/hooks-compose.ts\<close>), and
  the bus that aggregates handlers (\<^verbatim>\<open>src/src/agent/hooks.ts\<close>). A handler is a function from the
  call and the session's state to its outcome and the new state.
\<close>

section \<open>Declared hook rules\<close>

datatype hook_event = Before_tool | After_tool | Turn_end

datatype hook_action = Block string | Require_approval "string option" | Log "string option"

record hook_rule =
  hr_label :: string
  hr_enabled :: bool
  hr_event :: hook_event
  hr_toolPattern :: "string option"
  hr_riskClass :: "tool_risk_class option"
  hr_action :: hook_action

fun is_log :: "hook_action \<Rightarrow> bool" where
  "is_log (Log _) = True"
| "is_log _ = False"

fun is_block :: "hook_action \<Rightarrow> bool" where
  "is_block (Block _) = True"
| "is_block _ = False"

datatype integration_issue = MatchMissing | TurnEndOnlyLogs | AfterToolBlocks

definition hookRuleSemanticIssues :: "hook_rule \<Rightarrow> integration_issue list" where
  "hookRuleSemanticIssues r =
     (if hr_toolPattern r = None \<and> hr_riskClass r = None then [MatchMissing] else []) @
     (if hr_event r = Turn_end \<and> \<not> is_log (hr_action r) then [TurnEndOnlyLogs] else []) @
     (if hr_event r = After_tool \<and> is_block (hr_action r) then [AfterToolBlocks] else [])"

section \<open>Matching and compilation\<close>

definition matchesToolPattern :: "string \<Rightarrow> string \<Rightarrow> bool" where
  "matchesToolPattern pat tool =
     (if pat \<noteq> [] \<and> last pat = CHR ''*'' then starts_with tool (butlast pat) else tool = pat)"

record known_tool =
  kt_name :: string
  kt_riskClass :: "tool_risk_class option"

definition ruleMatchesTool :: "hook_rule \<Rightarrow> known_tool \<Rightarrow> bool" where
  "ruleMatchesTool rule tool \<longleftrightarrow>
     (case hr_toolPattern rule of None \<Rightarrow> True | Some p \<Rightarrow> matchesToolPattern p (kt_name tool)) \<and>
     (case hr_riskClass rule of None \<Rightarrow> True
      | Some r \<Rightarrow> (case kt_riskClass tool of None \<Rightarrow> Risk_execute | Some t \<Rightarrow> t) = r)"

definition permissions_for_tool :: "hook_rule \<Rightarrow> known_tool \<Rightarrow> permission_rule list" where
  "permissions_for_tool rule tool =
     (if \<not> ruleMatchesTool rule tool then []
      else case hr_action rule of
        Block reason \<Rightarrow>
          [\<lparr>pr_tool = Some (kt_name tool), pr_argsMatch = None, pr_effect = Deny,
            pr_note = Some (''hook:'' @ hr_label rule @ '': '' @ reason), pr_bypassImmune = True\<rparr>]
      | Require_approval reason \<Rightarrow>
          [\<lparr>pr_tool = Some (kt_name tool), pr_argsMatch = None, pr_effect = Ask,
            pr_note = Some (''hook:'' @ hr_label rule @
              (case reason of Some r \<Rightarrow> '': '' @ r | None \<Rightarrow> '''')), pr_bypassImmune = False\<rparr>]
      | Log _ \<Rightarrow> [])"

definition expandHookRulesToPermissions :: "hook_rule list \<Rightarrow> known_tool list \<Rightarrow> permission_rule list" where
  "expandHookRulesToPermissions rules knownTools =
     concat (map (\<lambda>rule.
       if \<not> hr_enabled rule \<or> hr_event rule \<noteq> Before_tool \<or> is_log (hr_action rule) then []
       else concat (map (permissions_for_tool rule) knownTools)) rules)"

section \<open>The extension bus\<close>

record tool_call_info =
  tc_tool :: string
  tc_args :: json
  tc_turn :: nat

record before_outcome =
  bo_blocked :: "string option"
  bo_args :: "json option"
  bo_terminate :: "string option"

text \<open>Handlers are registered objects with an identity, which the disposer looks up.\<close>

type_synonym 's before_handler = "nat \<times> (tool_call_info \<Rightarrow> 's \<Rightarrow> before_outcome \<times> 's)"

definition on_before :: "'s before_handler \<Rightarrow> 's before_handler list \<Rightarrow> 's before_handler list" where
  "on_before h hs = hs @ [h]"

text \<open>\<open>splice(indexOf(handler), 1)\<close>: a start of \<open>-1\<close> counts from the end.\<close>

definition dispose :: "nat \<Rightarrow> (nat \<times> 'f) list \<Rightarrow> (nat \<times> 'f) list" where
  "dispose n hs =
     (case find_index (\<lambda>h. fst h = n) hs of
        Some i \<Rightarrow> take i hs @ drop (Suc i) hs
      | None \<Rightarrow> butlast hs)"

fun run_before ::
  "'s before_handler list \<Rightarrow> tool_call_info \<Rightarrow> before_outcome \<Rightarrow> 's \<Rightarrow> before_outcome \<times> 's" where
  "run_before [] call acc s = (acc, s)"
| "run_before (h # hs) call acc s =
     (let (out, s') = snd h (case bo_args acc of None \<Rightarrow> call | Some a \<Rightarrow> call\<lparr>tc_args := a\<rparr>) s;
          acc' = \<lparr>bo_blocked = (if bo_blocked out \<noteq> None \<and> bo_blocked acc = None then bo_blocked out else bo_blocked acc),
                  bo_args = (if bo_args out \<noteq> None then bo_args out else bo_args acc),
                  bo_terminate = (if bo_terminate out \<noteq> None \<and> bo_terminate acc = None then bo_terminate out else bo_terminate acc)\<rparr>
      in run_before hs call acc' s')"

definition no_outcome :: before_outcome where
  "no_outcome = \<lparr>bo_blocked = None, bo_args = None, bo_terminate = None\<rparr>"

definition beforeToolCall :: "'s before_handler list \<Rightarrow> tool_call_info \<Rightarrow> 's \<Rightarrow> before_outcome \<times> 's" where
  "beforeToolCall hs call s = run_before hs call no_outcome s"

fun afterToolCall ::
  "(nat \<times> (tool_call_info \<Rightarrow> 's \<Rightarrow> 's)) list \<Rightarrow> tool_call_info \<Rightarrow> 's \<Rightarrow> 's" where
  "afterToolCall [] call s = s"
| "afterToolCall (h # hs) call s = afterToolCall hs call (snd h call s)"

fun turnEnd :: "(nat \<times> (nat \<Rightarrow> string \<Rightarrow> 's \<Rightarrow> 's)) list \<Rightarrow> nat \<Rightarrow> string \<Rightarrow> 's \<Rightarrow> 's" where
  "turnEnd [] turn action s = s"
| "turnEnd (h # hs) turn action s = turnEnd hs turn action (snd h turn action s)"

record log_entry =
  le_rule :: string
  le_event :: hook_event
  le_turn :: nat
  le_tool :: "string option"
  le_detail :: string

fun log_note :: "string \<Rightarrow> hook_action \<Rightarrow> string" where
  "log_note d (Log (Some n)) = n"
| "log_note d _ = d"

definition tool_log_entries ::
  "hook_event \<Rightarrow> hook_rule list \<Rightarrow> (string \<Rightarrow> tool_risk_class option) \<Rightarrow> tool_call_info \<Rightarrow> log_entry list" where
  "tool_log_entries ev rules riskClassOf call =
     map (\<lambda>rule. \<lparr>le_rule = hr_label rule, le_event = ev, le_turn = tc_turn call,
                  le_tool = Some (tc_tool call), le_detail = log_note ''matched'' (hr_action rule)\<rparr>)
       (filter (\<lambda>rule. ruleMatchesTool rule \<lparr>kt_name = tc_tool call, kt_riskClass = riskClassOf (tc_tool call)\<rparr>) rules)"

definition turn_log_entries :: "hook_rule list \<Rightarrow> nat \<Rightarrow> string \<Rightarrow> log_entry list" where
  "turn_log_entries rules turn action =
     map (\<lambda>rule. \<lparr>le_rule = hr_label rule, le_event = Turn_end, le_turn = turn, le_tool = None,
                  le_detail = log_note ''armed'' (hr_action rule) @ '' (turn '' @ str_of_nat turn @ '' '' @ action @ '')''\<rparr>) rules"

text \<open>The composed bus: one handler per event that has rules; the state is the session's log.\<close>

record log_bus =
  lb_before :: "log_entry list before_handler list"
  lb_after :: "(nat \<times> (tool_call_info \<Rightarrow> log_entry list \<Rightarrow> log_entry list)) list"
  lb_turnEnd :: "(nat \<times> (nat \<Rightarrow> string \<Rightarrow> log_entry list \<Rightarrow> log_entry list)) list"

definition composeLogHooks :: "hook_rule list \<Rightarrow> (string \<Rightarrow> tool_risk_class option) \<Rightarrow> log_bus" where
  "composeLogHooks rules riskClassOf =
     (let enabled = filter (\<lambda>r. hr_enabled r \<and> is_log (hr_action r)) rules;
          on = (\<lambda>ev. filter (\<lambda>r. hr_event r = ev) enabled)
      in \<lparr>lb_before = (if on Before_tool \<noteq> [] then
            [(0, \<lambda>call l. (no_outcome, l @ tool_log_entries Before_tool (on Before_tool) riskClassOf call))] else []),
          lb_after = (if on After_tool \<noteq> [] then
            [(1, \<lambda>call l. l @ tool_log_entries After_tool (on After_tool) riskClassOf call)] else []),
          lb_turnEnd = (if on Turn_end \<noteq> [] then
            [(2, \<lambda>turn action l. l @ turn_log_entries (on Turn_end) turn action)] else [])\<rparr>)"

section \<open>Aggregation\<close>

text \<open>The outcomes the handlers return, in order, each seeing the rewrites before it.\<close>

fun outcomes :: "'s before_handler list \<Rightarrow> tool_call_info \<Rightarrow> json option \<Rightarrow> 's \<Rightarrow> before_outcome list" where
  "outcomes [] call a s = []"
| "outcomes (h # hs) call a s =
     (let (out, s') = snd h (case a of None \<Rightarrow> call | Some x \<Rightarrow> call\<lparr>tc_args := x\<rparr>) s
      in out # outcomes hs call (if bo_args out \<noteq> None then bo_args out else a) s')"

definition first_some :: "('a \<Rightarrow> 'b option) \<Rightarrow> 'a list \<Rightarrow> 'b option" where
  "first_some f xs = (case List.find (\<lambda>x. f x \<noteq> None) xs of None \<Rightarrow> None | Some x \<Rightarrow> f x)"

lemma first_some_simps [simp]:
  "first_some f [] = None"
  "first_some f (x # xs) = (if f x \<noteq> None then f x else first_some f xs)"
  by (simp_all add: first_some_def)

lemma first_some_append: "first_some f (xs @ ys) = (if first_some f xs \<noteq> None then first_some f xs else first_some f ys)"
  by (induction xs) auto

lemma run_before_outcome:
  "fst (run_before hs call acc s) =
     \<lparr>bo_blocked = (if bo_blocked acc \<noteq> None then bo_blocked acc else first_some bo_blocked (outcomes hs call (bo_args acc) s)),
      bo_args = first_some bo_args (rev (acc # outcomes hs call (bo_args acc) s)),
      bo_terminate = (if bo_terminate acc \<noteq> None then bo_terminate acc
        else first_some bo_terminate (outcomes hs call (bo_args acc) s))\<rparr>"
proof (induction hs arbitrary: acc s)
  case (Cons h hs)
  obtain out s' where r: "snd h (case bo_args acc of None \<Rightarrow> call | Some a \<Rightarrow> call\<lparr>tc_args := a\<rparr>) s = (out, s')"
    by force
  show ?case
    unfolding run_before.simps outcomes.simps r Let_def prod.case Cons.IH
    by (auto simp: first_some_append)
qed simp

lemma dispose_registered:
  assumes "distinct (map fst hs)" "(n, f) \<in> set hs"
  shows "dispose n hs = filter (\<lambda>h. fst h \<noteq> n) hs"
proof -
  have "find_index (\<lambda>h. fst h = n) hs \<noteq> None" using assms(2) unfolding find_index_None by (metis fst_conv)
  then obtain i where i: "find_index (\<lambda>h. fst h = n) hs = Some i" by blast
  note fi = find_index_Some [OF i]
  have split: "hs = take i hs @ hs ! i # drop (Suc i) hs" using fi by (simp add: id_take_nth_drop)
  have "distinct (map fst (take i hs @ hs ! i # drop (Suc i) hs))" using assms(1) split by metis
  then have "n \<notin> fst ` set (take i hs) \<union> fst ` set (drop (Suc i) hs)"
    using fi by (auto simp del: append_take_drop_id take_append)
  then have "\<forall>h \<in> set (take i hs) \<union> set (drop (Suc i) hs). fst h \<noteq> n" by auto
  then have "filter (\<lambda>h. fst h \<noteq> n) hs = take i hs @ drop (Suc i) hs"
    using fi by (subst split) (simp del: append_take_drop_id)
  with i show ?thesis by (simp add: dispose_def)
qed

section \<open>Properties\<close>

text \<open>A researcher's block rule cannot be switched away: whatever the other rules, the session mode
  (bypass included) and the cached grants, a call to a known tool that an enabled before-tool block
  rule matches is denied and nobody is asked.\<close>

theorem hook_block_denies_in_every_mode:
  assumes "rule \<in> set rules" "hr_enabled rule" "hr_event rule = Before_tool" "hr_action rule = Block reason"
    and "tool \<in> set knownTools" "ruleMatchesTool rule tool"
    and "po_rules opts = base @ expandHookRulesToPermissions rules knownTools"
  shows "pd_effect (fst (decide sha opts ask (kt_name tool) args risk now e)) = Deny \<and>
    \<not> pd_asked (fst (decide sha opts ask (kt_name tool) args risk now e))"
proof -
  let ?r = "\<lparr>pr_tool = Some (kt_name tool), pr_argsMatch = None, pr_effect = Deny,
    pr_note = Some (''hook:'' @ hr_label rule @ '': '' @ reason), pr_bypassImmune = True\<rparr>"
  have "?r \<in> set (permissions_for_tool rule tool)"
    using assms by (simp add: permissions_for_tool_def)
  then have r: "?r \<in> set (po_rules opts)"
    using assms by (auto simp: expandHookRulesToPermissions_def)
  have "map_option fst (verdict_of opts (pe_mode e) (kt_name tool) args risk) = Some Deny"
    by (rule verdict_deny [OF r]) (simp_all add: applies_def)
  then show ?thesis by (auto simp: decide_def decide_begin_def)
qed

theorem hook_block_denies_in_every_mode_witness:
  "pd_effect (fst (decide id
     \<lparr>po_rules = [] @ expandHookRulesToPermissions
        [\<lparr>hr_label = ''no shell'', hr_enabled = True, hr_event = Before_tool, hr_toolPattern = Some ''sh_*'',
          hr_riskClass = None, hr_action = Block ''policy''\<rparr>] [\<lparr>kt_name = ''sh_run'', kt_riskClass = None\<rparr>],
      po_defaultEffect = Some Allow, po_hasAsk = True, po_approvalTtlMs = None\<rparr>
     (\<lambda>_ _. True) ''sh_run'' JNull None 0 (new_engine (Some Mode_bypass)))) = Deny"
  using hook_block_denies_in_every_mode [where
      rule = "\<lparr>hr_label = ''no shell'', hr_enabled = True, hr_event = Before_tool, hr_toolPattern = Some ''sh_*'',
          hr_riskClass = None, hr_action = Block ''policy''\<rparr>" and
      rules = "[\<lparr>hr_label = ''no shell'', hr_enabled = True, hr_event = Before_tool, hr_toolPattern = Some ''sh_*'',
          hr_riskClass = None, hr_action = Block ''policy''\<rparr>]" and
      knownTools = "[\<lparr>kt_name = ''sh_run'', kt_riskClass = None\<rparr>]" and
      tool = "\<lparr>kt_name = ''sh_run'', kt_riskClass = None\<rparr>" and base = "[]" and reason = "''policy''" and
      sha = id and ask = "\<lambda>_ _. True" and args = JNull and risk = None and now = 0 and
      e = "new_engine (Some Mode_bypass)" and
      opts = "\<lparr>po_rules = [] @ expandHookRulesToPermissions
        [\<lparr>hr_label = ''no shell'', hr_enabled = True, hr_event = Before_tool, hr_toolPattern = Some ''sh_*'',
          hr_riskClass = None, hr_action = Block ''policy''\<rparr>] [\<lparr>kt_name = ''sh_run'', kt_riskClass = None\<rparr>],
      po_defaultEffect = Some Allow, po_hasAsk = True, po_approvalTtlMs = None\<rparr>"]
  by (simp add: ruleMatchesTool_def matchesToolPattern_def starts_with_def)

text \<open>The bus aggregates as documented: the first handler that blocks gives the reason, the last
  rewrite of the arguments wins and every handler sees the rewrites before it, the first request to
  terminate sticks; and the log hooks compiled from declared rules only observe: they never block,
  rewrite or terminate, and log exactly the enabled matching rules, in order.\<close>

theorem bus_aggregation:
  "fst (beforeToolCall hs call s) =
     \<lparr>bo_blocked = first_some bo_blocked (outcomes hs call None s),
      bo_args = first_some bo_args (rev (outcomes hs call None s)),
      bo_terminate = first_some bo_terminate (outcomes hs call None s)\<rparr> \<and>
   beforeToolCall (lb_before (composeLogHooks rules riskClassOf)) call l =
     (no_outcome, l @ tool_log_entries Before_tool
        (filter (\<lambda>r. hr_event r = Before_tool) (filter (\<lambda>r. hr_enabled r \<and> is_log (hr_action r)) rules)) riskClassOf call)"
proof
  show "fst (beforeToolCall hs call s) =
     \<lparr>bo_blocked = first_some bo_blocked (outcomes hs call None s),
      bo_args = first_some bo_args (rev (outcomes hs call None s)),
      bo_terminate = first_some bo_terminate (outcomes hs call None s)\<rparr>"
    unfolding beforeToolCall_def run_before_outcome by (simp add: no_outcome_def first_some_append)
  show "beforeToolCall (lb_before (composeLogHooks rules riskClassOf)) call l =
     (no_outcome, l @ tool_log_entries Before_tool
        (filter (\<lambda>r. hr_event r = Before_tool) (filter (\<lambda>r. hr_enabled r \<and> is_log (hr_action r)) rules)) riskClassOf call)"
    by (auto simp: beforeToolCall_def composeLogHooks_def Let_def no_outcome_def tool_log_entries_def
        filter_empty_conv filter_filter)
qed

text \<open>A disposer removes exactly its own handler on its first call; called again, it removes the
  last handler that is still registered, whoever registered it, because \<open>splice(-1, 1)\<close> counts from
  the end.\<close>

theorem disposer_is_not_idempotent:
  assumes "distinct (map fst hs)" "(n, f) \<in> set hs"
  shows "dispose n hs = filter (\<lambda>h. fst h \<noteq> n) hs \<and>
    dispose n (dispose n hs) = butlast (filter (\<lambda>h. fst h \<noteq> n) hs)"
proof -
  have d: "dispose n hs = filter (\<lambda>h. fst h \<noteq> n) hs" using assms by (rule dispose_registered)
  have "find_index (\<lambda>h. fst h = n) (filter (\<lambda>h. fst h \<noteq> n) hs) = None" by (auto simp: find_index_None)
  with d show ?thesis by (simp add: dispose_def [of n "filter (\<lambda>h. fst h \<noteq> n) hs"])
qed

theorem disposer_is_not_idempotent_witness:
  "dispose 0 (dispose 0 [(0, ()), (1, ())]) = []"
proof -
  have d: "distinct (map fst [(0 :: nat, ()), (1, ())])" "(0, ()) \<in> set [(0 :: nat, ()), (1, ())]" by simp_all
  show ?thesis using conjunct2 [OF disposer_is_not_idempotent [OF d]] by simp
qed

end
