(* ===== verification/Scheduler.thy ===== *)
theory Scheduler
  imports Prelude "HOL-Library.Option_ord"
begin

text \<open>
  The durable experiment queue, \<^verbatim>\<open>src/src/experiment/scheduler.ts\<close>: the jobs table and every
  operation of the \<open>Scheduler\<close> interface. Each operation is one SQLite transaction, so a run of the
  system is a sequence of operations by any number of workers; \<open>sched_step\<close> is that interleaving.

  Shown here: the table's invariant, fencing (a worker whose claim was taken over can never write
  again), stability of terminal jobs, priority order and the concurrency limit of a claim, bounded
  redelivery, and idempotent enqueueing.
\<close>

section \<open>The jobs table\<close>

datatype job_status = Queued | Running | Completed | Failed | Canceled | Dead

record scheduler_job =
  jb_jobId :: id
  jb_experimentRunId :: id
  jb_runId :: id
  jb_specId :: id
  jb_priority :: int
  jb_status :: job_status
  jb_fenceToken :: nat
  jb_worker :: "string option"
  jb_heartbeatAt :: "instant option"
  jb_attempts :: nat
  jb_cancelRequested :: bool
  jb_device :: string
  jb_createdAt :: instant
  jb_startedAt :: "instant option"
  jb_endedAt :: "instant option"
  jb_error :: "string option"

type_synonym jobs = "scheduler_job list"

text \<open>\<open>MAX_JOB_ATTEMPTS\<close>: the environment value as an integer, \<^const>\<open>None\<close> when unset or no number.\<close>

definition MAX_JOB_ATTEMPTS :: "int option \<Rightarrow> nat" where
  "MAX_JOB_ATTEMPTS raw =
     nat (min (max (case raw of None \<Rightarrow> 5 | Some n \<Rightarrow> if n = 0 then 5 else n) 1) 20)"

record enqueue_input =
  ei_experimentRunId :: id
  ei_runId :: id
  ei_specId :: id
  ei_priority :: "int option"
  ei_device :: "string option"
  ei_intentId :: "id option"

definition get_job :: "id \<Rightarrow> jobs \<Rightarrow> scheduler_job option" where
  "get_job jobId jobs = List.find (\<lambda>j. jb_jobId j = jobId) jobs"

text \<open>The parameter default \<open>device = 'local'\<close>.\<close>

definition device_of :: "string option \<Rightarrow> string" where
  "device_of d = (case d of Some x \<Rightarrow> x | None \<Rightarrow> ''local'')"

section \<open>Operations\<close>

text \<open>\<open>freshId\<close> is the identifier \<open>newId\<close> makes when the caller gives no intent id; \<open>now\<close> is the
  caller's \<open>at\<close> or the clock.\<close>

definition enqueue :: "id \<Rightarrow> enqueue_input \<Rightarrow> instant \<Rightarrow> jobs \<Rightarrow> scheduler_job option \<times> jobs" where
  "enqueue freshId inp now jobs =
     (let jobId = (case ei_intentId inp of Some i \<Rightarrow> i | None \<Rightarrow> freshId);
          row = \<lparr>jb_jobId = jobId, jb_experimentRunId = ei_experimentRunId inp, jb_runId = ei_runId inp,
                 jb_specId = ei_specId inp,
                 jb_priority = (case ei_priority inp of Some p \<Rightarrow> p | None \<Rightarrow> 0),
                 jb_status = Queued, jb_fenceToken = 0, jb_worker = None, jb_heartbeatAt = None,
                 jb_attempts = 0, jb_cancelRequested = False,
                 jb_device = device_of (ei_device inp),
                 jb_createdAt = now, jb_startedAt = None, jb_endedAt = None, jb_error = None\<rparr>;
          jobs' = (if jobId \<in> jb_jobId ` set jobs then jobs else jobs @ [row])
      in (get_job jobId jobs', jobs'))"

definition live_running :: "instant \<Rightarrow> string \<Rightarrow> scheduler_job \<Rightarrow> bool" where
  "live_running staleBefore device j \<longleftrightarrow>
     jb_status j = Running \<and> (case jb_heartbeatAt j of None \<Rightarrow> False | Some h \<Rightarrow> h \<ge> staleBefore) \<and>
     jb_device j = device"

definition claimable :: "instant \<Rightarrow> string \<Rightarrow> scheduler_job \<Rightarrow> bool" where
  "claimable staleBefore device j \<longleftrightarrow>
     jb_device j = device \<and>
     (jb_status j = Queued \<or>
      jb_status j = Running \<and> (case jb_heartbeatAt j of None \<Rightarrow> False | Some h \<Rightarrow> h < staleBefore))"

definition next_claimable :: "instant \<Rightarrow> string \<Rightarrow> jobs \<Rightarrow> scheduler_job option" where
  "next_claimable staleBefore device jobs =
     (case sort_key (\<lambda>j. - jb_priority j) (filter (claimable staleBefore device) jobs) of
        [] \<Rightarrow> None | j # _ \<Rightarrow> Some j)"

record claim =
  cl_job :: scheduler_job
  cl_fenceToken :: nat
  cl_reclaimed :: bool

definition dead_error :: "nat \<Rightarrow> string" where
  "dead_error attempts =
     ''dead-letter: '' @ str_of_nat attempts @ '' attempts exhausted (worker crash loop or poison spec)''"

definition mark_claimed :: "string \<Rightarrow> instant \<Rightarrow> nat \<Rightarrow> scheduler_job \<Rightarrow> scheduler_job" where
  "mark_claimed worker now token j =
     j\<lparr>jb_status := Running, jb_worker := Some worker, jb_fenceToken := token, jb_heartbeatAt := Some now,
       jb_attempts := jb_attempts j + 1,
       jb_startedAt := (case jb_startedAt j of Some s \<Rightarrow> Some s | None \<Rightarrow> Some now), jb_error := None\<rparr>"

text \<open>The second component lists the \<open>onDead\<close> notifications of the call.\<close>

definition claimNext ::
  "nat \<Rightarrow> string \<Rightarrow> nat \<Rightarrow> int \<Rightarrow> string option \<Rightarrow> instant \<Rightarrow> jobs \<Rightarrow>
   claim option \<times> (id \<times> string) list \<times> jobs" where
  "claimNext maxAttempts worker maxRunning heartbeatTtlMs deviceOpt now jobs =
     (let device = device_of deviceOpt;
          staleBefore = now - heartbeatTtlMs
      in if length (filter (live_running staleBefore device) jobs) \<ge> maxRunning then (None, [], jobs)
         else case next_claimable staleBefore device jobs of
           None \<Rightarrow> (None, [], jobs)
         | Some job \<Rightarrow>
             if jb_attempts job \<ge> maxAttempts
             then (None, [(jb_jobId job, dead_error (jb_attempts job))],
                   fst (sql_update (\<lambda>j. jb_jobId j = jb_jobId job \<and> (jb_status j = Queued \<or> jb_status j = Running))
                     (\<lambda>j. j\<lparr>jb_status := Dead, jb_endedAt := Some now, jb_error := Some (dead_error (jb_attempts job))\<rparr>) jobs))
             else
               (let token = jb_fenceToken job + 1;
                    (jobs', changes) = sql_update
                      (\<lambda>j. jb_jobId j = jb_jobId job \<and> jb_fenceToken j = jb_fenceToken job)
                      (mark_claimed worker now token) jobs
                in if changes \<noteq> 1 then (None, [], jobs')
                   else case get_job (jb_jobId job) jobs' of
                     None \<Rightarrow> (None, [], jobs')
                   | Some updated \<Rightarrow>
                       (Some \<lparr>cl_job = updated, cl_fenceToken = token, cl_reclaimed = (jb_status job = Running)\<rparr>,
                        [], jobs')))"

definition owned :: "id \<Rightarrow> string \<Rightarrow> nat \<Rightarrow> scheduler_job \<Rightarrow> bool" where
  "owned jobId worker token j \<longleftrightarrow>
     jb_jobId j = jobId \<and> jb_worker j = Some worker \<and> jb_fenceToken j = token \<and> jb_status j = Running"

definition heartbeat :: "id \<Rightarrow> string \<Rightarrow> nat \<Rightarrow> instant \<Rightarrow> jobs \<Rightarrow> bool \<times> jobs" where
  "heartbeat jobId worker token now jobs =
     (let (jobs', n) = sql_update (owned jobId worker token) (\<lambda>j. j\<lparr>jb_heartbeatAt := Some now\<rparr>) jobs
      in (n = 1, jobs'))"

definition complete ::
  "id \<Rightarrow> string \<Rightarrow> nat \<Rightarrow> bool \<Rightarrow> string option \<Rightarrow> instant \<Rightarrow> jobs \<Rightarrow> bool \<times> jobs" where
  "complete jobId worker token ok error now jobs =
     (let (jobs', n) = sql_update (owned jobId worker token)
            (\<lambda>j. j\<lparr>jb_status := (if ok then Completed else Failed), jb_endedAt := Some now, jb_error := error\<rparr>) jobs
      in (n = 1, jobs'))"

definition cancel :: "id \<Rightarrow> instant \<Rightarrow> jobs \<Rightarrow> bool \<times> jobs" where
  "cancel jobId now jobs =
     (let (jobs1, queued) = sql_update (\<lambda>j. jb_jobId j = jobId \<and> jb_status j = Queued)
            (\<lambda>j. j\<lparr>jb_status := Canceled, jb_endedAt := Some now\<rparr>) jobs
      in if queued = 1 then (True, jobs1)
         else let (jobs2, running) = sql_update (\<lambda>j. jb_jobId j = jobId \<and> jb_status j = Running)
                    (\<lambda>j. j\<lparr>jb_cancelRequested := True\<rparr>) jobs1
              in (running = 1, jobs2))"

definition cancelRequested :: "id \<Rightarrow> jobs \<Rightarrow> bool" where
  "cancelRequested jobId jobs = (case get_job jobId jobs of None \<Rightarrow> False | Some j \<Rightarrow> jb_cancelRequested j)"

definition list_jobs :: "job_status option \<Rightarrow> jobs \<Rightarrow> jobs" where
  "list_jobs filt jobs = (case filt of None \<Rightarrow> jobs | Some s \<Rightarrow> filter (\<lambda>j. jb_status j = s) jobs)"

definition listDead :: "jobs \<Rightarrow> jobs" where
  "listDead jobs =
     sort_key jb_endedAt (filter (\<lambda>j. jb_status j = Dead) jobs)"

definition requeueDead :: "id \<Rightarrow> instant \<Rightarrow> jobs \<Rightarrow> bool \<times> jobs" where
  "requeueDead jobId now jobs =
     (let (jobs', n) = sql_update (\<lambda>j. jb_jobId j = jobId \<and> jb_status j = Dead)
            (\<lambda>j. j\<lparr>jb_status := Queued, jb_attempts := 0, jb_worker := None, jb_heartbeatAt := None,
                    jb_endedAt := None, jb_error := None, jb_fenceToken := jb_fenceToken j + 1,
                    jb_createdAt := now\<rparr>) jobs
      in (n = 1, jobs'))"

text \<open>\<open>stats\<close>: the count per status that occurs, and the total.\<close>

definition stats :: "jobs \<Rightarrow> (job_status \<rightharpoonup> nat) \<times> nat" where
  "stats jobs =
     ((\<lambda>s. let n = length (filter (\<lambda>j. jb_status j = s) jobs) in if n = 0 then None else Some n), length jobs)"

section \<open>The interleaving of operations\<close>

inductive sched_step :: "nat \<Rightarrow> jobs \<Rightarrow> jobs \<Rightarrow> bool" for maxAttempts where
  step_enqueue: "sched_step maxAttempts jobs (snd (enqueue freshId inp now jobs))"
| step_claim: "sched_step maxAttempts jobs (snd (snd (claimNext maxAttempts worker maxRunning ttl device now jobs)))"
| step_heartbeat: "sched_step maxAttempts jobs (snd (heartbeat jobId worker token now jobs))"
| step_complete: "sched_step maxAttempts jobs (snd (complete jobId worker token ok error now jobs))"
| step_cancel: "sched_step maxAttempts jobs (snd (cancel jobId now jobs))"
| step_requeue: "sched_step maxAttempts jobs (snd (requeueDead jobId now jobs))"

abbreviation sched_steps :: "nat \<Rightarrow> jobs \<Rightarrow> jobs \<Rightarrow> bool" where
  "sched_steps maxAttempts \<equiv> (sched_step maxAttempts)\<^sup>*\<^sup>*"

text \<open>What one row may become in one operation.\<close>

definition terminal :: "job_status \<Rightarrow> bool" where
  "terminal s \<longleftrightarrow> s = Completed \<or> s = Failed \<or> s = Canceled"

definition job_ok :: "nat \<Rightarrow> scheduler_job \<Rightarrow> bool" where
  "job_ok maxAttempts j \<longleftrightarrow>
     jb_attempts j \<le> maxAttempts \<and> jb_attempts j \<le> jb_fenceToken j \<and>
     (jb_status j = Queued \<longrightarrow> jb_worker j = None \<and> jb_heartbeatAt j = None \<and> jb_endedAt j = None) \<and>
     (jb_status j = Running \<longrightarrow> jb_worker j \<noteq> None \<and> jb_heartbeatAt j \<noteq> None \<and> jb_startedAt j \<noteq> None \<and>
        0 < jb_attempts j \<and> jb_endedAt j = None) \<and>
     (jb_status j = Dead \<longrightarrow> jb_attempts j = maxAttempts) \<and>
     (jb_endedAt j = None \<longleftrightarrow> jb_status j = Queued \<or> jb_status j = Running)"

definition jobs_ok :: "nat \<Rightarrow> jobs \<Rightarrow> bool" where
  "jobs_ok maxAttempts jobs \<longleftrightarrow> distinct (map jb_jobId jobs) \<and> (\<forall>j \<in> set jobs. job_ok maxAttempts j)"

definition job_moves :: "scheduler_job \<Rightarrow> scheduler_job \<Rightarrow> bool" where
  "job_moves j j' \<longleftrightarrow> jb_jobId j' = jb_jobId j \<and> jb_fenceToken j \<le> jb_fenceToken j' \<and>
     (terminal (jb_status j) \<longrightarrow> j' = j)"

lemma next_claimable_Some:
  assumes "next_claimable stale device jobs = Some j"
  shows "j \<in> set jobs" "claimable stale device j"
    "\<And>k. k \<in> set jobs \<Longrightarrow> claimable stale device k \<Longrightarrow> jb_priority k \<le> jb_priority j"
proof -
  let ?xs = "filter (claimable stale device) jobs"
  obtain ys where ys: "sort_key (\<lambda>j. - jb_priority j) ?xs = j # ys"
    using assms by (auto simp: next_claimable_def split: list.splits)
  then have "j \<in> set ?xs" by (metis list.set_intros(1) sort_key_set)
  then show "j \<in> set jobs" "claimable stale device j" by auto
  show "jb_priority k \<le> jb_priority j" if "k \<in> set jobs" "claimable stale device k" for k
    using hd_sort_key_min [OF ys, of k] that by simp
qed

lemma next_claimable_None:
  "next_claimable stale device jobs = None \<longleftrightarrow> (\<forall>j \<in> set jobs. \<not> claimable stale device j)"
  by (simp add: next_claimable_def filter_empty_conv [symmetric] split: list.split)
    (metis list.distinct(1) mset.simps(1) mset_sort mset_zero_iff)

text \<open>The three outcomes of \<open>claimNext\<close>.\<close>

lemma claimNext_cases:
  fixes jobs :: jobs
  assumes "distinct (map jb_jobId jobs)"
  obtains (none) "claimNext maxAttempts worker maxRunning ttl deviceOpt now jobs = (None, [], jobs)"
      "maxRunning \<le> length (filter (live_running (now - ttl) (device_of deviceOpt)) jobs) \<or> next_claimable (now - ttl) (device_of deviceOpt) jobs = None"
  | (dead) job where "next_claimable (now - ttl) (device_of deviceOpt) jobs = Some job" "maxAttempts \<le> jb_attempts job"
      "claimNext maxAttempts worker maxRunning ttl deviceOpt now jobs =
         (None, [(jb_jobId job, dead_error (jb_attempts job))],
          map (\<lambda>j. if jb_jobId j = jb_jobId job
            then j\<lparr>jb_status := Dead, jb_endedAt := Some now, jb_error := Some (dead_error (jb_attempts job))\<rparr> else j) jobs)"
  | (claimed) job where "next_claimable (now - ttl) (device_of deviceOpt) jobs = Some job" "jb_attempts job < maxAttempts"
      "length (filter (live_running (now - ttl) (device_of deviceOpt)) jobs) < maxRunning"
      "claimNext maxAttempts worker maxRunning ttl deviceOpt now jobs =
         (Some \<lparr>cl_job = mark_claimed worker now (jb_fenceToken job + 1) job, cl_fenceToken = jb_fenceToken job + 1,
                cl_reclaimed = (jb_status job = Running)\<rparr>, [],
          map (\<lambda>j. if jb_jobId j = jb_jobId job then mark_claimed worker now (jb_fenceToken job + 1) j else j) jobs)"
proof -
  show thesis
  proof (cases "maxRunning \<le> length (filter (live_running (now - ttl) (device_of deviceOpt)) jobs) \<or> next_claimable (now - ttl) (device_of deviceOpt) jobs = None")
    case True
    then show thesis
      using that(1) by (auto simp: claimNext_def Let_def split: option.splits)
  next
    case False
    then obtain job where job: "next_claimable (now - ttl) (device_of deviceOpt) jobs = Some job"
      and room: "length (filter (live_running (now - ttl) (device_of deviceOpt)) jobs) < maxRunning" by auto
    note in_jobs = next_claimable_Some(1,2) [OF job]
    have same: "j = job" if "j \<in> set jobs" "jb_jobId j = jb_jobId job" for j
      using assms(1) in_jobs(1) that by (metis distinct_map inj_onD)
    show thesis
    proof (cases "maxAttempts \<le> jb_attempts job")
      case True
      have "jb_status job = Queued \<or> jb_status job = Running" using in_jobs(2) by (auto simp: claimable_def)
      then have "claimNext maxAttempts worker maxRunning ttl deviceOpt now jobs =
         (None, [(jb_jobId job, dead_error (jb_attempts job))],
          map (\<lambda>j. if jb_jobId j = jb_jobId job
            then j\<lparr>jb_status := Dead, jb_endedAt := Some now, jb_error := Some (dead_error (jb_attempts job))\<rparr> else j) jobs)"
        using True job room same
        by (auto simp: claimNext_def Let_def sql_update_def)
      with job True show thesis by (rule that(2))
    next
      case False
      let ?jobs = "map (\<lambda>j. if jb_jobId j = jb_jobId job then mark_claimed worker now (jb_fenceToken job + 1) j else j) jobs"
      have upd: "sql_update (\<lambda>j. jb_jobId j = jb_jobId job \<and> jb_fenceToken j = jb_fenceToken job)
          (mark_claimed worker now (jb_fenceToken job + 1)) jobs = (?jobs, 1)"
        using same filter_unique_length [OF assms(1) in_jobs(1), of "\<lambda>j. jb_fenceToken j = jb_fenceToken job"]
        by (auto simp: sql_update_def)
      have "get_job (jb_jobId job) jobs = Some job"
        unfolding get_job_def using in_jobs(1) assms(1)
        by (induction jobs) (auto simp: image_iff)
      then have "get_job (jb_jobId job) ?jobs = Some (mark_claimed worker now (jb_fenceToken job + 1) job)"
        unfolding get_job_def by (subst find_key_map) (auto simp: mark_claimed_def)
      with upd have "claimNext maxAttempts worker maxRunning ttl deviceOpt now jobs =
         (Some \<lparr>cl_job = mark_claimed worker now (jb_fenceToken job + 1) job, cl_fenceToken = jb_fenceToken job + 1,
                cl_reclaimed = (jb_status job = Running)\<rparr>, [], ?jobs)"
        using False job room by (simp add: claimNext_def Let_def)
      with job False room show thesis by (intro that(3)) auto
    qed
  qed
qed

section \<open>The invariant\<close>

text \<open>Every operation rows_move rows in place, within what \<open>job_moves\<close> and the row invariant allow, and
  may append one fresh row.\<close>

definition rows_move :: "nat \<Rightarrow> jobs \<Rightarrow> jobs \<Rightarrow> bool" where
  "rows_move m jobs jobs' \<longleftrightarrow>
     (\<exists>f new. jobs' = map f jobs @ new \<and>
        (\<forall>j \<in> set jobs. job_moves j (f j) \<and> (job_ok m j \<longrightarrow> job_ok m (f j))) \<and>
        (\<forall>r \<in> set new. jb_jobId r \<notin> jb_jobId ` set jobs \<and> job_ok m r) \<and> length new \<le> 1)"

lemma rows_move_map:
  "(\<And>j. j \<in> set jobs \<Longrightarrow> job_moves j (f j) \<and> (job_ok m j \<longrightarrow> job_ok m (f j))) \<Longrightarrow> rows_move m jobs (map f jobs)"
  unfolding rows_move_def by (intro exI [of _ f] exI [of _ "[]"]) simp

lemma rows_move_update:
  "(\<And>j. j \<in> set jobs \<Longrightarrow> P j \<Longrightarrow> job_moves j (f j) \<and> (job_ok m j \<longrightarrow> job_ok m (f j))) \<Longrightarrow>
   rows_move m jobs (fst (sql_update P f jobs))"
  unfolding sql_update_rows by (rule rows_move_map) (auto simp: job_moves_def)

lemma rows_move_key:
  assumes "distinct (map jb_jobId jobs)" "job \<in> set jobs"
    and "job_moves job (g job)" "job_ok m job \<Longrightarrow> job_ok m (g job)"
  shows "rows_move m jobs (map (\<lambda>j. if jb_jobId j = jb_jobId job then g j else j) jobs)"
proof (rule rows_move_map)
  fix j assume "j \<in> set jobs"
  moreover have "jb_jobId j = jb_jobId job \<Longrightarrow> j = job" if "j \<in> set jobs"
    using assms(1,2) that by (metis distinct_map inj_onD)
  ultimately show "job_moves j (if jb_jobId j = jb_jobId job then g j else j) \<and>
      (job_ok m j \<longrightarrow> job_ok m (if jb_jobId j = jb_jobId job then g j else j))"
    using assms(3,4) by (auto simp: job_moves_def)
qed

lemmas row_defs = job_moves_def job_ok_def terminal_def

lemma heartbeat_rows_move: "rows_move m jobs (snd (heartbeat jobId worker token now jobs))"
  unfolding heartbeat_def Let_def case_prod_beta snd_conv
  by (rule rows_move_update) (auto simp: owned_def row_defs)

lemma complete_rows_move: "rows_move m jobs (snd (complete jobId worker token ok error now jobs))"
  unfolding complete_def Let_def case_prod_beta snd_conv
  by (rule rows_move_update) (auto simp: owned_def row_defs)

lemma requeue_rows_move: "rows_move m jobs (snd (requeueDead jobId now jobs))"
  unfolding requeueDead_def Let_def case_prod_beta snd_conv
  by (rule rows_move_update) (auto simp: row_defs)

lemma enqueue_rows_move: "rows_move m jobs (snd (enqueue freshId inp now jobs))"
proof (cases "(case ei_intentId inp of Some i \<Rightarrow> i | None \<Rightarrow> freshId) \<in> jb_jobId ` set jobs")
  case True
  then have "snd (enqueue freshId inp now jobs) = map id jobs" by (simp add: enqueue_def Let_def)
  then show ?thesis by (simp only:) (rule rows_move_map, simp add: job_moves_def)
next
  case False
  then show ?thesis
    unfolding rows_move_def enqueue_def Let_def snd_conv if_False
    by (intro exI [of _ "\<lambda>j. j"] exI conjI) (auto simp: row_defs)
qed

definition cancel_queued :: "id \<Rightarrow> instant \<Rightarrow> scheduler_job \<Rightarrow> scheduler_job" where
  "cancel_queued jobId now j = (if jb_jobId j = jobId \<and> jb_status j = Queued
    then j\<lparr>jb_status := Canceled, jb_endedAt := Some now\<rparr> else j)"

definition flag_running :: "id \<Rightarrow> scheduler_job \<Rightarrow> scheduler_job" where
  "flag_running jobId j = (if jb_jobId j = jobId \<and> jb_status j = Running then j\<lparr>jb_cancelRequested := True\<rparr> else j)"

lemma cancel_rows:
  "snd (cancel jobId now jobs) =
     (if length (filter (\<lambda>j. jb_jobId j = jobId \<and> jb_status j = Queued) jobs) = 1
      then map (cancel_queued jobId now) jobs
      else map (\<lambda>j. flag_running jobId (cancel_queued jobId now j)) jobs)"
  unfolding cancel_def sql_update_def Let_def prod.case cancel_queued_def [abs_def] flag_running_def [abs_def]
  by (simp only: snd_conv if_distrib [of snd] map_map comp_def)

lemma cancel_rows_move: "rows_move m jobs (snd (cancel jobId now jobs))"
proof -
  have "rows_move m jobs (map (cancel_queued jobId now) jobs)"
    by (rule rows_move_map) (auto simp: row_defs cancel_queued_def)
  moreover have "rows_move m jobs (map (\<lambda>j. flag_running jobId (cancel_queued jobId now j)) jobs)"
    by (rule rows_move_map) (auto simp: row_defs cancel_queued_def flag_running_def)
  ultimately show ?thesis unfolding cancel_rows by simp
qed

lemma claim_rows_move:
  assumes "distinct (map jb_jobId jobs)"
  shows "rows_move m jobs (snd (snd (claimNext m worker maxRunning ttl device now jobs)))"
proof (rule claimNext_cases [OF assms, of m worker maxRunning ttl device now])
  assume "claimNext m worker maxRunning ttl device now jobs = (None, [], jobs)"
  then show ?thesis using rows_move_map [of jobs "\<lambda>j. j" m] by (simp add: job_moves_def)
next
  fix job
  assume job: "next_claimable (now - ttl) (device_of device) jobs = Some job" and att: "m \<le> jb_attempts job"
    and eq: "claimNext m worker maxRunning ttl device now jobs = (None, [(jb_jobId job, dead_error (jb_attempts job))],
      map (\<lambda>j. if jb_jobId j = jb_jobId job
        then j\<lparr>jb_status := Dead, jb_endedAt := Some now, jb_error := Some (dead_error (jb_attempts job))\<rparr> else j) jobs)"
  show ?thesis
    unfolding eq snd_conv using next_claimable_Some(2) [OF job] att
    by (intro rows_move_key [OF assms next_claimable_Some(1) [OF job]]) (auto simp: row_defs claimable_def)
next
  fix job
  assume job: "next_claimable (now - ttl) (device_of device) jobs = Some job" and att: "jb_attempts job < m"
    and eq: "claimNext m worker maxRunning ttl device now jobs =
      (Some \<lparr>cl_job = mark_claimed worker now (jb_fenceToken job + 1) job, cl_fenceToken = jb_fenceToken job + 1,
             cl_reclaimed = (jb_status job = Running)\<rparr>, [],
       map (\<lambda>j. if jb_jobId j = jb_jobId job then mark_claimed worker now (jb_fenceToken job + 1) j else j) jobs)"
  show ?thesis
    unfolding eq snd_conv using next_claimable_Some(2) [OF job] att
    by (intro rows_move_key [OF assms next_claimable_Some(1) [OF job]])
      (auto simp: row_defs claimable_def mark_claimed_def split: option.splits)
qed

lemma step_rows_move: "sched_step m jobs jobs' \<Longrightarrow> distinct (map jb_jobId jobs) \<Longrightarrow> rows_move m jobs jobs'"
  by (induction rule: sched_step.induct)
    (auto intro: heartbeat_rows_move complete_rows_move requeue_rows_move enqueue_rows_move cancel_rows_move claim_rows_move)

lemma rows_move_ok:
  assumes "rows_move m jobs jobs'" "jobs_ok m jobs"
  shows "jobs_ok m jobs'"
proof -
  obtain f new where f: "jobs' = map f jobs @ new" "\<And>j. j \<in> set jobs \<Longrightarrow> job_moves j (f j) \<and> (job_ok m j \<longrightarrow> job_ok m (f j))"
    and new: "\<And>r. r \<in> set new \<Longrightarrow> jb_jobId r \<notin> jb_jobId ` set jobs \<and> job_ok m r" "length new \<le> 1"
    using assms(1) unfolding rows_move_def by blast
  have ids: "map jb_jobId (map f jobs) = map jb_jobId jobs" using f(2) by (simp add: job_moves_def)
  have "\<forall>r \<in> set new. jb_jobId r \<notin> set (map jb_jobId jobs)" using new(1) by simp
  then have disj: "set (map jb_jobId jobs) \<inter> set (map jb_jobId new) = {}"
    unfolding disjoint_iff set_map by (metis imageE)
  have "distinct (map jb_jobId new)" using new(2) by (cases new) auto
  then have "distinct (map jb_jobId jobs')"
    using assms(2) disj unfolding f(1) map_append ids by (simp add: jobs_ok_def)
  with assms(2) f new(1) show ?thesis by (auto simp: jobs_ok_def)
qed

lemma steps_ok: "sched_steps m jobs jobs' \<Longrightarrow> jobs_ok m jobs \<Longrightarrow> jobs_ok m jobs'"
proof (induction rule: rtranclp_induct)
  case (step y z)
  then have "jobs_ok m y" "distinct (map jb_jobId y)" by (simp_all add: jobs_ok_def)
  with step(2) show ?case by (blast intro: rows_move_ok step_rows_move)
qed

section \<open>Fencing\<close>

text \<open>
  The fencing contract: tokens never decrease, a successful claim issues a token above every earlier
  one, and a guarded write goes through only with the current token.
\<close>

locale fencing =
  fixes ok :: "'s \<Rightarrow> bool" and step :: "'s \<Rightarrow> 's \<Rightarrow> bool" and token :: "'s \<Rightarrow> nat"
    and write_rejected :: "nat \<Rightarrow> 's \<Rightarrow> bool"
  assumes ok_step: "ok s \<Longrightarrow> step s s' \<Longrightarrow> ok s'"
    and token_step: "ok s \<Longrightarrow> step s s' \<Longrightarrow> token s \<le> token s'"
    and stale_rejected: "ok s \<Longrightarrow> k < token s \<Longrightarrow> write_rejected k s"
begin

lemma ok_steps: "step\<^sup>*\<^sup>* s s' \<Longrightarrow> ok s \<Longrightarrow> ok s'"
  by (induction rule: rtranclp_induct) (auto intro: ok_step)

lemma token_steps: "step\<^sup>*\<^sup>* s s' \<Longrightarrow> ok s \<Longrightarrow> token s \<le> token s'"
proof (induction rule: rtranclp_induct)
  case (step y z)
  with ok_steps [of s y] token_step [of y z] show ?case by fastforce
qed simp

lemma stale_forever: "step\<^sup>*\<^sup>* s s' \<Longrightarrow> ok s \<Longrightarrow> k < token s \<Longrightarrow> write_rejected k s'"
  using token_steps [of s s'] ok_steps [of s s'] stale_rejected [of s' k] by simp

end

definition token_of :: "id \<Rightarrow> jobs \<Rightarrow> nat" where
  "token_of jobId jobs = (case get_job jobId jobs of None \<Rightarrow> 0 | Some j \<Rightarrow> jb_fenceToken j)"

lemma get_job_in: "distinct (map jb_jobId jobs) \<Longrightarrow> j \<in> set jobs \<Longrightarrow> get_job (jb_jobId j) jobs = Some j"
  unfolding get_job_def by (induction jobs) (auto simp: image_iff)

lemma get_job_Some: "get_job i jobs = Some j \<Longrightarrow> j \<in> set jobs \<and> jb_jobId j = i"
  unfolding get_job_def by (rule find_Some_iff_set)

lemma rows_move_get:
  assumes "rows_move m jobs jobs'" "get_job i jobs = Some j"
  shows "\<exists>j'. get_job i jobs' = Some j' \<and> job_moves j j'"
proof -
  obtain f new where f: "jobs' = map f jobs @ new" "\<And>j. j \<in> set jobs \<Longrightarrow> job_moves j (f j)"
    using assms(1) unfolding rows_move_def by blast
  have "List.find (\<lambda>j. jb_jobId j = i) (map f xs @ new) = Some (f j)"
    if "List.find (\<lambda>j. jb_jobId j = i) xs = Some j" "set xs \<subseteq> set jobs" for xs
    using that f(2) by (induction xs) (auto simp: job_moves_def split: if_splits)
  then show ?thesis
    using assms(2) f get_job_Some [OF assms(2)] by (auto simp: get_job_def)
qed

lemma token_of_step: "jobs_ok m jobs \<Longrightarrow> sched_step m jobs jobs' \<Longrightarrow> token_of i jobs \<le> token_of i jobs'"
  using step_rows_move [of m jobs jobs'] rows_move_get [of m jobs jobs' i]
  by (auto simp: token_of_def jobs_ok_def job_moves_def split: option.split)

lemma owned_current:
  "distinct (map jb_jobId jobs) \<Longrightarrow> j \<in> set jobs \<Longrightarrow> owned i w k j \<Longrightarrow> token_of i jobs = k"
  using get_job_in [of jobs j] by (auto simp: token_of_def owned_def)

definition write_rejected_at :: "id \<Rightarrow> nat \<Rightarrow> jobs \<Rightarrow> bool" where
  "write_rejected_at i k jobs \<longleftrightarrow>
     (\<forall>w now ok err. complete i w k ok err now jobs = (False, jobs) \<and> heartbeat i w k now jobs = (False, jobs))"

lemma not_owned_rejected:
  "\<forall>w. \<forall>j \<in> set jobs. \<not> owned i w k j \<Longrightarrow> write_rejected_at i k jobs"
  by (simp add: write_rejected_at_def complete_def heartbeat_def sql_update_none)

interpretation job_fence: fencing "jobs_ok m" "sched_step m" "token_of i" "write_rejected_at i" for m i
proof unfold_locales
  show "jobs_ok m s'" if "jobs_ok m s" "sched_step m s s'" for s s'
    using that steps_ok [OF r_into_rtranclp] by blast
  show "token_of i s \<le> token_of i s'" if "jobs_ok m s" "sched_step m s s'" for s s'
    using that by (rule token_of_step)
  show "write_rejected_at i k s" if "jobs_ok m s" "k < token_of i s" for k s
    using that owned_current [of s _ i _ k] by (intro not_owned_rejected) (auto simp: jobs_ok_def)
qed

lemma claimNext_Some:
  assumes "jobs_ok m jobs" "claimNext m worker maxRunning ttl device now jobs = (Some c, d, jobs')"
  obtains job where "next_claimable (now - ttl) (device_of device) jobs = Some job" "jb_attempts job < m"
    "length (filter (live_running (now - ttl) (device_of device)) jobs) < maxRunning"
    "cl_job c = mark_claimed worker now (jb_fenceToken job + 1) job" "cl_fenceToken c = jb_fenceToken job + 1"
    "jobs' = map (\<lambda>j. if jb_jobId j = jb_jobId job then mark_claimed worker now (jb_fenceToken job + 1) j else j) jobs"
proof -
  have dist: "distinct (map jb_jobId jobs)" using assms(1) by (simp add: jobs_ok_def)
  show thesis
  proof (rule claimNext_cases [OF dist, of m worker maxRunning ttl device now], goal_cases)
    case (3 job)
    then show thesis using that [of job] assms(2) by auto
  qed (use assms(2) in auto)
qed

lemma mark_claimed_sel [simp]:
  "jb_jobId (mark_claimed w now t j) = jb_jobId j" "jb_fenceToken (mark_claimed w now t j) = t"
  "jb_status (mark_claimed w now t j) = Running" "jb_worker (mark_claimed w now t j) = Some w"
  "jb_heartbeatAt (mark_claimed w now t j) = Some now" "jb_device (mark_claimed w now t j) = jb_device j"
  "jb_priority (mark_claimed w now t j) = jb_priority j" "jb_attempts (mark_claimed w now t j) = jb_attempts j + 1"
  by (simp_all add: mark_claimed_def)

lemma claim_token:
  assumes "jobs_ok m jobs" "claimNext m worker maxRunning ttl device now jobs = (Some c, d, jobs')"
  shows "token_of (jb_jobId (cl_job c)) jobs < cl_fenceToken c"
    "get_job (jb_jobId (cl_job c)) jobs' = Some (cl_job c)" "jb_fenceToken (cl_job c) = cl_fenceToken c"
proof -
  obtain job where job: "next_claimable (now - ttl) (device_of device) jobs = Some job"
    and c: "cl_job c = mark_claimed worker now (jb_fenceToken job + 1) job" "cl_fenceToken c = jb_fenceToken job + 1"
    and jobs': "jobs' = map (\<lambda>j. if jb_jobId j = jb_jobId job then mark_claimed worker now (jb_fenceToken job + 1) j else j) jobs"
    using assms by (rule claimNext_Some)
  have get: "get_job (jb_jobId job) jobs = Some job"
    using get_job_in next_claimable_Some(1) [OF job] assms(1) by (simp add: jobs_ok_def)
  then show "token_of (jb_jobId (cl_job c)) jobs < cl_fenceToken c" by (simp add: token_of_def c)
  show "get_job (jb_jobId (cl_job c)) jobs' = Some (cl_job c)"
    using get unfolding c jobs' get_job_def by (subst find_key_map) auto
  show "jb_fenceToken (cl_job c) = cl_fenceToken c" by (simp add: c)
qed

section \<open>Properties\<close>

lemma reachable_ok: "sched_steps m [] jobs \<Longrightarrow> jobs_ok m jobs"
  using steps_ok [of m "[]" jobs] by (simp add: jobs_ok_def)

lemma terminal_steps:
  "sched_steps m jobs jobs' \<Longrightarrow> jobs_ok m jobs \<Longrightarrow> get_job i jobs = Some j \<Longrightarrow> terminal (jb_status j) \<Longrightarrow>
   get_job i jobs' = Some j"
proof (induction rule: rtranclp_induct)
  case (step y z)
  then have "jobs_ok m y" using steps_ok by blast
  then have "rows_move m y z" using step(2) step_rows_move by (auto simp: jobs_ok_def)
  then obtain j' where "get_job i z = Some j'" "job_moves j j'" using rows_move_get step by blast
  with step.prems show ?case by (simp add: job_moves_def)
qed

text \<open>C4. Fencing: once a job claimed by one worker has been claimed again (by anyone, also by a worker
  of the same name), no heartbeat and no completion carrying the first claim's token ever succeeds
  or changes the table, whatever operations happen before and after.\<close>

theorem disowned_worker_fenced:
  assumes "sched_steps m [] jobs0" "claimNext m w1 r1 ttl1 d1 t1 jobs0 = (Some c1, x1, jobs1)"
    and "sched_steps m jobs1 jobs2" "claimNext m w2 r2 ttl2 d2 t2 jobs2 = (Some c2, x2, jobs3)"
    and "jb_jobId (cl_job c2) = jb_jobId (cl_job c1)" "sched_steps m jobs3 jobs4"
  shows "cl_fenceToken c1 < cl_fenceToken c2 \<and>
    complete (jb_jobId (cl_job c1)) w (cl_fenceToken c1) ok err now jobs4 = (False, jobs4) \<and>
    heartbeat (jb_jobId (cl_job c1)) w (cl_fenceToken c1) now jobs4 = (False, jobs4)"
proof -
  let ?i = "jb_jobId (cl_job c1)"
  have ok0: "jobs_ok m jobs0" using assms(1) by (rule reachable_ok)
  have s1: "sched_step m jobs0 jobs1" using step_claim [of m jobs0 w1 r1 ttl1 d1 t1] assms(2) by simp
  have ok1: "jobs_ok m jobs1" using steps_ok [OF r_into_rtranclp [of "sched_step m", OF s1] ok0] .
  have ok2: "jobs_ok m jobs2" using steps_ok assms(3) ok1 by blast
  have s3: "sched_step m jobs2 jobs3" using step_claim [of m jobs2 w2 r2 ttl2 d2 t2] assms(4) by simp
  have ok3: "jobs_ok m jobs3" using steps_ok [OF r_into_rtranclp [of "sched_step m", OF s3] ok2] .
  have "cl_fenceToken c1 = token_of ?i jobs1"
    using claim_token(2,3) [OF ok0 assms(2)] by (simp add: token_of_def)
  also have "\<dots> \<le> token_of ?i jobs2" using job_fence.token_steps [OF assms(3) ok1] .
  also have "\<dots> < cl_fenceToken c2" using claim_token(1) [OF ok2 assms(4)] assms(5) by simp
  finally have lt: "cl_fenceToken c1 < cl_fenceToken c2" .
  moreover have "token_of ?i jobs3 = cl_fenceToken c2"
    using claim_token(2,3) [OF ok2 assms(4)] assms(5) by (simp add: token_of_def)
  ultimately have "write_rejected_at ?i (cl_fenceToken c1) jobs4"
    using job_fence.stale_forever [OF assms(6) ok3] by simp
  with lt show ?thesis by (simp add: write_rejected_at_def)
qed

text \<open>Terminal jobs are final: a completed, failed or canceled row never changes again, whatever
  operations run; only a dead-lettered job can be brought back, and only by an explicit requeue.\<close>

theorem terminal_jobs_stable:
  assumes "sched_steps m [] jobs" "get_job i jobs = Some j" "terminal (jb_status j)" "sched_steps m jobs jobs'"
  shows "get_job i jobs' = Some j"
  using terminal_steps [OF assms(4) reachable_ok [OF assms(1)] assms(2,3)] .

text \<open>A claim hands out a job of the worker's device with the highest priority among all claimable
  ones, only when the device has room, never past the attempt cap, and afterwards the device still
  runs at most \<open>maxRunning\<close> live jobs.\<close>

theorem claim_priority_and_capacity:
  assumes "sched_steps m [] jobs" "claimNext m worker maxRunning ttl device now jobs = (Some c, d, jobs')" "0 \<le> ttl"
  shows "jb_device (cl_job c) = device_of device \<and> jb_attempts (cl_job c) \<le> m \<and>
    (\<forall>k \<in> set jobs. claimable (now - ttl) (device_of device) k \<longrightarrow> jb_priority k \<le> jb_priority (cl_job c)) \<and>
    length (filter (live_running (now - ttl) (device_of device)) jobs') \<le> maxRunning"
proof -
  have ok: "jobs_ok m jobs" using assms(1) by (rule reachable_ok)
  obtain job where job: "next_claimable (now - ttl) (device_of device) jobs = Some job" "jb_attempts job < m"
    and room: "length (filter (live_running (now - ttl) (device_of device)) jobs) < maxRunning"
    and c: "cl_job c = mark_claimed worker now (jb_fenceToken job + 1) job"
    and jobs': "jobs' = map (\<lambda>j. if jb_jobId j = jb_jobId job then mark_claimed worker now (jb_fenceToken job + 1) j else j) jobs"
    using ok assms(2) by (rule claimNext_Some)
  let ?live = "live_running (now - ttl) (device_of device)"
  let ?f = "\<lambda>j. if jb_jobId j = jb_jobId job then mark_claimed worker now (jb_fenceToken job + 1) j else j"
  have "length (filter ?live (map ?f xs)) \<le> Suc (length (filter ?live xs))" if "distinct (map jb_jobId xs)" for xs
    using that
  proof (induction xs)
    case (Cons x xs)
    show ?case
    proof (cases "jb_jobId x = jb_jobId job")
      case True
      then have "map ?f xs = xs" using Cons.prems by (intro map_idI) (force simp: image_iff)
      then show ?thesis by simp
    next
      case False
      with Cons show ?thesis by simp
    qed
  qed simp
  with room ok have "length (filter ?live jobs') \<le> maxRunning" unfolding jobs' by (fastforce simp: jobs_ok_def)
  with next_claimable_Some(2,3) [OF job(1)] job(2) c show ?thesis by (auto simp: claimable_def)
qed

text \<open>C23. The jobs table is always well formed: job ids are unique, no job is ever delivered more often
  than the attempt cap, a running job has an owner and a heartbeat, a job has an end time exactly when
  it is over, and only a job that exhausted its attempts is dead-lettered.\<close>

theorem jobs_table_invariant:
  assumes "sched_steps m [] jobs"
  shows "distinct (map jb_jobId jobs) \<and> (\<forall>j \<in> set jobs. job_ok m j)"
  using reachable_ok [OF assms] by (simp add: jobs_ok_def)

text \<open>Enqueueing with an intent id is idempotent: once the intent has become a job, enqueueing the
  same intent again, at any later time and with any other fields, changes nothing and returns the
  existing job.\<close>

theorem enqueue_idempotent:
  assumes "sched_steps m [] jobs" "ei_intentId inp = Some i" "ei_intentId inp' = Some i"
    and "sched_steps m (snd (enqueue f inp now jobs)) jobs'"
  shows "\<exists>j. get_job i jobs' = Some j \<and> enqueue f' inp' now' jobs' = (Some j, jobs')"
proof -
  let ?jobs1 = "snd (enqueue f inp now jobs)"
  have ok: "jobs_ok m ?jobs1" using rows_move_ok enqueue_rows_move reachable_ok [OF assms(1)] by blast
  have "i \<in> jb_jobId ` set ?jobs1" using assms(2) by (auto simp: enqueue_def Let_def)
  then obtain j where "get_job i ?jobs1 = Some j" using get_job_in ok by (fastforce simp: jobs_ok_def)
  with assms(4) have "\<exists>j. get_job i jobs' = Some j"
  proof (induction rule: rtranclp_induct)
    case (step y z)
    then have "jobs_ok m y" using steps_ok ok by blast
    then show ?case using step rows_move_get step_rows_move by (meson jobs_ok_def)
  qed blast
  then obtain j' where j': "get_job i jobs' = Some j'" by blast
  then have "i \<in> jb_jobId ` set jobs'" using get_job_Some by blast
  with j' assms(3) show ?thesis by (simp add: enqueue_def Let_def)
qed

text \<open>A dead-lettered job that is requeued starts with a fresh attempt budget and a new fence token,
  so its last worker stays fenced off; its cancel request, however, is carried over, so the requeued
  job still reports that it was canceled.\<close>

theorem requeue_resets_all_but_cancel:
  assumes "sched_steps m [] jobs" "get_job i jobs = Some j" "jb_status j = Dead"
  shows "\<exists>j'. requeueDead i now jobs = (True, snd (requeueDead i now jobs)) \<and>
    get_job i (snd (requeueDead i now jobs)) = Some j' \<and> jb_status j' = Queued \<and> jb_attempts j' = 0 \<and>
    jb_fenceToken j' = jb_fenceToken j + 1 \<and> jb_worker j' = None \<and>
    cancelRequested i (snd (requeueDead i now jobs)) = jb_cancelRequested j"
proof -
  have j: "j \<in> set jobs" "jb_jobId j = i" using get_job_Some [OF assms(2)] by auto
  have "distinct (map jb_jobId jobs)" using reachable_ok [OF assms(1)] by (simp add: jobs_ok_def)
  from filter_unique_length [OF this j(1), of "\<lambda>j. jb_status j = Dead"] assms(3) j(2)
  have n: "length (filter (\<lambda>j. jb_jobId j = i \<and> jb_status j = Dead) jobs) = 1" by simp
  let ?f = "\<lambda>j. j\<lparr>jb_status := Queued, jb_attempts := 0, jb_worker := None, jb_heartbeatAt := None,
    jb_endedAt := None, jb_error := None, jb_fenceToken := jb_fenceToken j + 1, jb_createdAt := now\<rparr>"
  have "get_job i (snd (requeueDead i now jobs)) = Some (?f j)"
    using assms(2,3) j(2) unfolding requeueDead_def Let_def case_prod_beta snd_conv sql_update_rows get_job_def
    by (subst find_key_map) auto
  then show ?thesis using n by (simp add: cancelRequested_def requeueDead_def sql_update_def Let_def)
qed

section \<open>A concrete run, for the witnesses\<close>

definition demo_input :: enqueue_input where
  "demo_input = \<lparr>ei_experimentRunId = ''xrun_1'', ei_runId = ''run_1'', ei_specId = ''spec_1'', ei_priority = None,
     ei_device = None, ei_intentId = Some ''job_1''\<rparr>"

definition demo_job :: scheduler_job where
  "demo_job = \<lparr>jb_jobId = ''job_1'', jb_experimentRunId = ''xrun_1'', jb_runId = ''run_1'', jb_specId = ''spec_1'',
     jb_priority = 0, jb_status = Queued, jb_fenceToken = 0, jb_worker = None, jb_heartbeatAt = None, jb_attempts = 0,
     jb_cancelRequested = False, jb_device = ''local'', jb_createdAt = 0, jb_startedAt = None, jb_endedAt = None,
     jb_error = None\<rparr>"

definition demo_claimed :: scheduler_job where
  "demo_claimed = mark_claimed ''w1'' 0 1 demo_job"

definition demo_reclaimed :: scheduler_job where
  "demo_reclaimed = mark_claimed ''w2'' 100 2 demo_claimed"

lemma demo_enqueue: "enqueue ''f'' demo_input 0 [] = (Some demo_job, [demo_job])"
  by (simp add: enqueue_def Let_def demo_input_def demo_job_def get_job_def device_of_def)

lemma demo_steps1: "sched_steps 5 [] [demo_job]"
  using step_enqueue [of 5 "[]" "''f''" demo_input 0] by (simp add: demo_enqueue r_into_rtranclp)

lemma demo_claim1: "claimNext 5 ''w1'' 1 10 None 0 [demo_job] =
  (Some \<lparr>cl_job = demo_claimed, cl_fenceToken = 1, cl_reclaimed = False\<rparr>, [], [demo_claimed])"
  by (simp add: claimNext_def Let_def numeral_2_eq_2 next_claimable_def claimable_def live_running_def sql_update_def get_job_def
      demo_claimed_def demo_job_def device_of_def mark_claimed_def)

lemma demo_claim2: "claimNext 5 ''w2'' 1 10 None 100 [demo_claimed] =
  (Some \<lparr>cl_job = demo_reclaimed, cl_fenceToken = 2, cl_reclaimed = True\<rparr>, [], [demo_reclaimed])"
  by (simp add: claimNext_def Let_def numeral_2_eq_2 next_claimable_def claimable_def live_running_def sql_update_def get_job_def
      demo_claimed_def demo_reclaimed_def demo_job_def device_of_def mark_claimed_def)

theorem disowned_worker_fenced_witness:
  "complete ''job_1'' ''w1'' 1 True None 101 [demo_reclaimed] = (False, [demo_reclaimed])"
  using disowned_worker_fenced [OF demo_steps1 demo_claim1 _ demo_claim2, of "[demo_reclaimed]" "''w1''" True None 101]
  by (simp add: demo_claimed_def demo_reclaimed_def demo_job_def)

theorem claim_priority_and_capacity_witness:
  "length (filter (live_running (0 - 10) ''local'') [demo_claimed]) \<le> 1"
  using claim_priority_and_capacity [OF demo_steps1 demo_claim1] by (simp add: device_of_def)

theorem terminal_jobs_stable_witness:
  "get_job ''job_1'' (snd (cancel ''job_1'' 5 (snd (cancel ''job_1'' 1 [demo_job])))) =
   Some (demo_job\<lparr>jb_status := Canceled, jb_endedAt := Some 1\<rparr>)"
proof -
  have c: "snd (cancel ''job_1'' 1 [demo_job]) = [demo_job\<lparr>jb_status := Canceled, jb_endedAt := Some 1\<rparr>]"
    by (simp add: cancel_def Let_def sql_update_def demo_job_def)
  have r: "sched_steps 5 [] (snd (cancel ''job_1'' 1 [demo_job]))"
    using demo_steps1 step_cancel [of 5 "[demo_job]" "''job_1''" 1] by (rule rtranclp.rtrancl_into_rtrancl)
  have g: "get_job ''job_1'' (snd (cancel ''job_1'' 1 [demo_job])) = Some (demo_job\<lparr>jb_status := Canceled, jb_endedAt := Some 1\<rparr>)"
    unfolding c by (simp add: get_job_def demo_job_def)
  show ?thesis
    by (rule terminal_jobs_stable [OF r g _ r_into_rtranclp [of "sched_step 5", OF step_cancel]]) (simp add: terminal_def)
qed

theorem jobs_table_invariant_witness: "distinct (map jb_jobId [demo_job])"
  using jobs_table_invariant [OF demo_steps1] by blast

theorem enqueue_idempotent_witness:
  "\<exists>j. enqueue ''g'' demo_input 9 [demo_job] = (Some j, [demo_job])"
proof -
  have i: "ei_intentId demo_input = Some ''job_1''" by (simp add: demo_input_def)
  have r: "sched_steps 5 (snd (enqueue ''f'' demo_input 0 [])) [demo_job]" by (simp add: demo_enqueue)
  show ?thesis using enqueue_idempotent [OF _ i i r, of "''g''" 9] by blast
qed

definition demo_dead :: scheduler_job where
  "demo_dead = demo_claimed\<lparr>jb_status := Dead, jb_endedAt := Some 50, jb_error := Some (dead_error 1)\<rparr>"

lemma demo_dead_steps: "sched_steps 1 [] [demo_dead\<lparr>jb_cancelRequested := True\<rparr>]"
proof -
  have "sched_step 1 [] [demo_job]" using step_enqueue [of 1 "[]" "''f''" demo_input 0] by (simp add: demo_enqueue)
  moreover have "sched_step 1 [demo_job] [demo_claimed]"
    using step_claim [of 1 "[demo_job]" "''w1''" 1 10 None 0]
    by (simp add: claimNext_def Let_def next_claimable_def claimable_def live_running_def sql_update_def get_job_def
        demo_claimed_def demo_job_def device_of_def mark_claimed_def)
  moreover have "sched_step 1 [demo_claimed] [demo_claimed\<lparr>jb_cancelRequested := True\<rparr>]"
    using step_cancel [of 1 "[demo_claimed]" "''job_1''" 1]
    by (simp add: cancel_def Let_def sql_update_def demo_claimed_def demo_job_def mark_claimed_def)
  moreover have "sched_step 1 [demo_claimed\<lparr>jb_cancelRequested := True\<rparr>] [demo_dead\<lparr>jb_cancelRequested := True\<rparr>]"
    using step_claim [of 1 "[demo_claimed\<lparr>jb_cancelRequested := True\<rparr>]" "''w2''" 1 10 None 50]
    by (simp add: claimNext_def Let_def next_claimable_def claimable_def live_running_def sql_update_def
        demo_claimed_def demo_dead_def demo_job_def device_of_def mark_claimed_def)
  ultimately show ?thesis by (meson converse_rtranclp_into_rtranclp rtranclp.rtrancl_refl)
qed

theorem requeue_resets_all_but_cancel_witness:
  "cancelRequested ''job_1'' (snd (requeueDead ''job_1'' 60 [demo_dead\<lparr>jb_cancelRequested := True\<rparr>]))"
proof -
  have g: "get_job ''job_1'' [demo_dead\<lparr>jb_cancelRequested := True\<rparr>] = Some (demo_dead\<lparr>jb_cancelRequested := True\<rparr>)"
    by (simp add: get_job_def demo_dead_def demo_claimed_def demo_job_def mark_claimed_def)
  have d: "jb_status (demo_dead\<lparr>jb_cancelRequested := True\<rparr>) = Dead" by (simp add: demo_dead_def)
  show ?thesis using requeue_resets_all_but_cancel [OF demo_dead_steps g d, of 60] by auto
qed

end
