(* ===== verification/Store.thy ===== *)
theory Store
  imports Run_Model Json
begin

text \<open>
  The persistence facade of \<^verbatim>\<open>src/src/persistence/store.ts\<close>, over the tables of
  \<^verbatim>\<open>src/src/persistence/db.ts\<close>. A table is the list of its rows in row-id order; the record \<open>store\<close>
  holds all of them. This theory defines the tables and the append-only event spine with its hash
  chain; \<open>Store_Runs\<close> has runs, leases, checkpoints and objects.

  SHA-256 is the parameter \<open>sha\<close>. The payload column holds a JSON text; the model keeps the value it
  denotes, and hashes its text \<^const>\<open>stringify\<close>. The meta row \<open>storage:last_write_at\<close> is the field
  \<open>db_lastWriteAt\<close>; the other meta rows are \<open>db_meta\<close>.
\<close>

section \<open>Tables\<close>

datatype event_type =
  E_run_created | E_stage_started | E_stage_done | E_stage_failed | E_stage_skipped
| E_run_status_changed | E_checkpoint_saved | E_run_resumed | E_run_cancelled
| E_feedback_received | E_revision_created | E_receipt_recorded | E_note
| E_experiment_queued | E_experiment_started | E_experiment_completed | E_experiment_failed | E_experiment_canceled
| E_agent_started | E_agent_tool_used | E_agent_finished

fun event_type_str :: "event_type \<Rightarrow> string" where
  "event_type_str E_run_created = ''run_created''"
| "event_type_str E_stage_started = ''stage_started''"
| "event_type_str E_stage_done = ''stage_done''"
| "event_type_str E_stage_failed = ''stage_failed''"
| "event_type_str E_stage_skipped = ''stage_skipped''"
| "event_type_str E_run_status_changed = ''run_status_changed''"
| "event_type_str E_checkpoint_saved = ''checkpoint_saved''"
| "event_type_str E_run_resumed = ''run_resumed''"
| "event_type_str E_run_cancelled = ''run_cancelled''"
| "event_type_str E_feedback_received = ''feedback_received''"
| "event_type_str E_revision_created = ''revision_created''"
| "event_type_str E_receipt_recorded = ''receipt_recorded''"
| "event_type_str E_note = ''note''"
| "event_type_str E_experiment_queued = ''experiment_queued''"
| "event_type_str E_experiment_started = ''experiment_started''"
| "event_type_str E_experiment_completed = ''experiment_completed''"
| "event_type_str E_experiment_failed = ''experiment_failed''"
| "event_type_str E_experiment_canceled = ''experiment_canceled''"
| "event_type_str E_agent_started = ''agent_started''"
| "event_type_str E_agent_tool_used = ''agent_tool_used''"
| "event_type_str E_agent_finished = ''agent_finished''"

record event_row =
  er_seq :: nat
  er_runId :: id
  er_at :: instant
  er_type :: event_type
  er_payload :: json
  er_prevHash :: "string option"

record run_row =
  rr_id :: id
  rr_questionId :: id
  rr_status :: run_status
  rr_currentStage :: run_stage_name
  rr_doc :: research_run
  rr_createdAt :: instant
  rr_updatedAt :: instant
  rr_leaseHolder :: "string option"
  rr_leaseExpiresAt :: "instant option"

record object_row =
  ob_kind :: string
  ob_id :: id
  ob_runId :: id
  ob_json :: json
  ob_createdAt :: instant

record step_row =
  so_runId :: id
  so_stage :: run_stage_name
  so_family :: string
  so_stepKey :: string
  so_json :: json
  so_createdAt :: instant

record fingerprint_row =
  sf_runId :: id
  sf_stage :: run_stage_name
  sf_family :: string
  sf_fingerprint :: string

record outbox_row =
  ox_intentId :: id
  ox_kind :: string
  ox_payload :: json
  ox_createdAt :: instant
  ox_drainedAt :: "instant option"

datatype lineage_edge_kind =
  Revised_into | Forked_from | Delegated_to | Produced | Consumed
| Counter_evidence | Support_evidence | Caused_revision | Revises

record lineage_edge =
  le_fromId :: id
  le_toId :: id
  le_kind :: lineage_edge_kind
  le_runId :: id
  le_at :: instant

record tombstone =
  tb_runId :: id
  tb_deletedAt :: instant
  tb_events :: nat
  tb_objects :: nat

record store =
  db_runs :: "run_row list"
  db_events :: "event_row list"
  db_nextSeq :: nat
  db_eventTags :: "(string \<times> id \<times> nat) list"
  db_objects :: "object_row list"
  db_stepOutputs :: "step_row list"
  db_fingerprints :: "fingerprint_row list"
  db_outbox :: "outbox_row list"
  db_lineage :: "lineage_edge list"
  db_deletedRuns :: "tombstone list"
  db_lastWriteAt :: "instant option"
  db_meta :: "string \<rightharpoonup> string"

definition empty_store :: store where
  "empty_store = \<lparr>db_runs = [], db_events = [], db_nextSeq = 1, db_eventTags = [], db_objects = [],
     db_stepOutputs = [], db_fingerprints = [], db_outbox = [], db_lineage = [], db_deletedRuns = [],
     db_lastWriteAt = None, db_meta = Map.empty\<rparr>"

definition getMeta :: "string \<Rightarrow> store \<Rightarrow> string option" where
  "getMeta key db = db_meta db key"

definition setMeta :: "string \<Rightarrow> string \<Rightarrow> store \<Rightarrow> store" where
  "setMeta key value db = db\<lparr>db_meta := (db_meta db)(key \<mapsto> value)\<rparr>"

definition deleteMeta :: "string \<Rightarrow> store \<Rightarrow> store" where
  "deleteMeta key db = db\<lparr>db_meta := (db_meta db)(key := None)\<rparr>"

section \<open>The event spine\<close>

record event_input =
  ev_type :: event_type
  ev_status :: "run_status option"
  ev_stage :: "string option"
  ev_detail :: "(string \<times> json) list"
  ev_receiptId :: "id option"

definition event_payload :: "id \<Rightarrow> instant \<Rightarrow> event_input \<Rightarrow> json" where
  "event_payload runId at e =
     JObj [(''runId'', JStr runId), (''at'', JStr (iso at)), (''type'', JStr (event_type_str (ev_type e))),
           (''status'', opt_json (\<lambda>s. JStr (status_str s)) (ev_status e)), (''stage'', opt_json JStr (ev_stage e)),
           (''detail'', JObj (ev_detail e)), (''receiptId'', opt_json JStr (ev_receiptId e))]"

definition eventTagsFor :: "event_type \<Rightarrow> string option \<Rightarrow> string list" where
  "eventTagsFor t stage =
     (''kind:'' @ event_type_str t) #
     (case stage of Some s \<Rightarrow> if s \<noteq> [] then [''stage:'' @ s] else [] | None \<Rightarrow> [])"

definition run_events :: "id \<Rightarrow> store \<Rightarrow> event_row list" where
  "run_events runId db = filter (\<lambda>r. er_runId r = runId) (db_events db)"

definition chain_hash :: "(string \<Rightarrow> string) \<Rightarrow> string option \<Rightarrow> string \<Rightarrow> json \<Rightarrow> string" where
  "chain_hash sha parentPrev parentPayload payload =
     sha ((case parentPrev of Some h \<Rightarrow> h | None \<Rightarrow> '''') @ ''|'' @ parentPayload @ ''|'' @ stringify payload)"

text \<open>The hash a new event of the run gets: over the last row of the run, or over nothing.\<close>

definition next_hash :: "(string \<Rightarrow> string) \<Rightarrow> id \<Rightarrow> json \<Rightarrow> store \<Rightarrow> string" where
  "next_hash sha runId payload db =
     (case at_last (run_events runId db) of
        None \<Rightarrow> chain_hash sha None '''' payload
      | Some parent \<Rightarrow> chain_hash sha (er_prevHash parent) (stringify (er_payload parent)) payload)"

definition insert_tag :: "string \<times> id \<times> nat \<Rightarrow> (string \<times> id \<times> nat) list \<Rightarrow> (string \<times> id \<times> nat) list" where
  "insert_tag t ts = (if t \<in> set ts then ts else ts @ [t])"

definition insert_event ::
  "(string \<Rightarrow> string) \<Rightarrow> id \<Rightarrow> instant \<Rightarrow> event_type \<Rightarrow> json \<Rightarrow> string list \<Rightarrow> store \<Rightarrow> store" where
  "insert_event sha runId at t payload tags db =
     (let seq = db_nextSeq db;
          row = \<lparr>er_seq = seq, er_runId = runId, er_at = at, er_type = t, er_payload = payload,
                 er_prevHash = Some (next_hash sha runId payload db)\<rparr>
      in db\<lparr>db_events := db_events db @ [row], db_nextSeq := seq + 1,
            db_eventTags := fold (\<lambda>tag. insert_tag (tag, runId, seq)) tags (db_eventTags db)\<rparr>)"

text \<open>\<open>Math.round\<close> of a non-negative quotient rounds halves up.\<close>

definition regressed_seconds :: "instant \<Rightarrow> instant \<Rightarrow> int" where
  "regressed_seconds flr at = (flr - at + 500) div 1000"

definition clock_note :: "instant \<Rightarrow> instant \<Rightarrow> event_input" where
  "clock_note flr at = \<lparr>ev_type = E_note, ev_status = None, ev_stage = None,
     ev_detail = [(''kind'', JStr ''clock_backwards_jump''), (''regressedSeconds'', JNum (regressed_seconds flr at)),
                  (''observedAt'', JStr (iso at))], ev_receiptId = None\<rparr>"

definition appendEvent :: "(string \<Rightarrow> string) \<Rightarrow> id \<Rightarrow> event_input \<Rightarrow> instant \<Rightarrow> store \<Rightarrow> store" where
  "appendEvent sha runId e at db =
     (let db1 = (case db_lastWriteAt db of
             Some flr \<Rightarrow>
               if at < flr
               then insert_event sha runId flr E_note (event_payload runId flr (clock_note flr at)) [''kind:note''] db
               else db
           | None \<Rightarrow> db);
          db2 = db1\<lparr>db_lastWriteAt := Some (case db_lastWriteAt db of Some flr \<Rightarrow> if at > flr then at else flr | None \<Rightarrow> at)\<rparr>
      in insert_event sha runId at (ev_type e) (event_payload runId at e) (eventTagsFor (ev_type e) (ev_stage e)) db2)"

section \<open>Verification of the chain\<close>

record chain_report =
  cr_ok :: bool
  cr_firstBrokenSeq :: "nat option"
  cr_length :: nat

fun check_chain :: "(string \<Rightarrow> string) \<Rightarrow> string option \<Rightarrow> string \<Rightarrow> event_row list \<Rightarrow> nat option" where
  "check_chain sha parentPrev parentPayload [] = None"
| "check_chain sha parentPrev parentPayload (r # rs) =
     (if (case er_prevHash r of Some h \<Rightarrow> h | None \<Rightarrow> '''') \<noteq> chain_hash sha parentPrev parentPayload (er_payload r)
      then Some (er_seq r)
      else check_chain sha (er_prevHash r) (stringify (er_payload r)) rs)"

definition verifyEventChain :: "(string \<Rightarrow> string) \<Rightarrow> id \<Rightarrow> store \<Rightarrow> chain_report" where
  "verifyEventChain sha runId db =
     (let rows = run_events runId db; b = check_chain sha None '''' rows
      in \<lparr>cr_ok = (b = None), cr_firstBrokenSeq = b, cr_length = length rows\<rparr>)"

text \<open>The one-time backfill of legacy rows without a hash: per run, in sequence order.\<close>

fun rechain :: "(string \<Rightarrow> string) \<Rightarrow> string option \<Rightarrow> string \<Rightarrow> event_row list \<Rightarrow> event_row list" where
  "rechain sha parentPrev parentPayload [] = []"
| "rechain sha parentPrev parentPayload (r # rs) =
     (let h = chain_hash sha parentPrev parentPayload (er_payload r)
      in r\<lparr>er_prevHash := Some h\<rparr> # rechain sha (Some h) (stringify (er_payload r)) rs)"

definition backfillChain :: "(string \<Rightarrow> string) \<Rightarrow> store \<Rightarrow> store" where
  "backfillChain sha db =
     (if list_ex (\<lambda>r. er_prevHash r = None) (db_events db)
      then db\<lparr>db_events := map (\<lambda>r.
             case List.find (\<lambda>x. er_seq x = er_seq r) (rechain sha None '''' (run_events (er_runId r) db)) of
               Some x \<Rightarrow> x | None \<Rightarrow> r) (db_events db)\<rparr>
      else db)"

section \<open>Reading the spine\<close>

definition listEventsAfter :: "id \<Rightarrow> nat \<Rightarrow> store \<Rightarrow> event_row list" where
  "listEventsAfter runId afterSeq db = filter (\<lambda>r. er_seq r > afterSeq) (run_events runId db)"

definition tag_char :: "char \<Rightarrow> bool" where
  "tag_char c \<longleftrightarrow> is_digit c \<or> (97 \<le> (of_char c :: nat) \<and> (of_char c :: nat) \<le> 122) \<or> c = CHR ''_''"

text \<open>The tag grammar \<open>[a-z0-9_]+:[a-z0-9_-]+\<close>.\<close>

definition well_formed_tag :: "string \<Rightarrow> bool" where
  "well_formed_tag t =
     (let k = takeWhile tag_char t; v = drop (Suc (length k)) t
      in k \<noteq> [] \<and> length k < length t \<and> t ! length k = CHR '':'' \<and> v \<noteq> [] \<and>
         list_all (\<lambda>c. tag_char c \<or> c = CHR ''-'') v)"

record event_query =
  eq_tags :: "string list"
  eq_runId :: "id option"
  eq_afterSeq :: "nat option"
  eq_limit :: "int option"

datatype query_error = NoTags | MalformedTag string

definition query_limit :: "int option \<Rightarrow> nat" where
  "query_limit l = nat (min (max (case l of Some n \<Rightarrow> n | None \<Rightarrow> 100) 1) 200)"

definition queryEvents :: "event_query \<Rightarrow> store \<Rightarrow> query_error + event_row list" where
  "queryEvents q db =
     (if eq_tags q = [] then Inl NoTags
      else case List.find (\<lambda>t. \<not> well_formed_tag t) (eq_tags q) of
        Some t \<Rightarrow> Inl (MalformedTag t)
      | None \<Rightarrow>
          (let hits = remdups (map snd (filter (\<lambda>(tag, run, seq). tag \<in> set (eq_tags q) \<and>
                  (case eq_runId q of None \<Rightarrow> True | Some r \<Rightarrow> run = r) \<and>
                  (case eq_afterSeq q of None \<Rightarrow> True | Some s \<Rightarrow> seq > s)) (db_eventTags db)));
               page = take (query_limit (eq_limit q)) (sort_key fst (sort_key snd hits))
           in Inr (List.map_filter (\<lambda>(run, seq).
                List.find (\<lambda>r. er_runId r = run \<and> er_seq r = seq) (db_events db)) page)))"

section \<open>Appending keeps the chain\<close>

lemma run_events_insert:
  "run_events run (insert_event sha runId at t payload tags db) =
     run_events run db @ (if run = runId then
       [\<lparr>er_seq = db_nextSeq db, er_runId = runId, er_at = at, er_type = t, er_payload = payload,
         er_prevHash = Some (next_hash sha runId payload db)\<rparr>] else [])"
  by (auto simp: run_events_def insert_event_def Let_def)

fun tip :: "string option \<Rightarrow> string \<Rightarrow> event_row list \<Rightarrow> string option \<times> string" where
  "tip p q [] = (p, q)"
| "tip p q (r # rs) = tip (er_prevHash r) (stringify (er_payload r)) rs"

lemma tip_snoc [simp]: "tip p q (rs @ [r]) = (er_prevHash r, stringify (er_payload r))"
  by (induction rs arbitrary: p q) auto

lemma check_chain_append:
  "check_chain sha p q (xs @ ys) =
     (case check_chain sha p q xs of Some s \<Rightarrow> Some s | None \<Rightarrow> check_chain sha (fst (tip p q xs)) (snd (tip p q xs)) ys)"
  by (induction xs arbitrary: p q) (auto split: option.split)

lemma next_hash_tip:
  "next_hash sha runId payload db =
     chain_hash sha (fst (tip None '''' (run_events runId db))) (snd (tip None '''' (run_events runId db))) payload"
  by (cases "run_events runId db" rule: rev_cases) (simp_all add: next_hash_def)

definition chains_ok :: "(string \<Rightarrow> string) \<Rightarrow> store \<Rightarrow> bool" where
  "chains_ok sha db \<longleftrightarrow> (\<forall>run. check_chain sha None '''' (run_events run db) = None)"

definition seqs_ok :: "store \<Rightarrow> bool" where
  "seqs_ok db \<longleftrightarrow> sorted_wrt (<) (map er_seq (db_events db)) \<and> (\<forall>r \<in> set (db_events db). er_seq r < db_nextSeq db)"

lemma insert_event_chains: "chains_ok sha db \<Longrightarrow> chains_ok sha (insert_event sha runId at t payload tags db)"
  by (auto simp: chains_ok_def run_events_insert check_chain_append next_hash_tip)

lemma insert_event_seqs: "seqs_ok db \<Longrightarrow> seqs_ok (insert_event sha runId at t payload tags db)"
  by (auto simp: seqs_ok_def insert_event_def Let_def sorted_wrt_append less_Suc_eq)

lemma lastWriteAt_ok [simp]:
  "chains_ok sha (db\<lparr>db_lastWriteAt := x\<rparr>) = chains_ok sha db" "seqs_ok (db\<lparr>db_lastWriteAt := x\<rparr>) = seqs_ok db"
  by (simp_all add: chains_ok_def run_events_def seqs_ok_def)

lemma appendEvent_chains [inv_intros]: "chains_ok sha db \<Longrightarrow> chains_ok sha (appendEvent sha runId e at db)"
  by (auto simp: appendEvent_def Let_def intro!: insert_event_chains split: option.split)

lemma appendEvent_seqs [inv_intros]: "seqs_ok db \<Longrightarrow> seqs_ok (appendEvent sha runId e at db)"
  by (auto simp: appendEvent_def Let_def intro!: insert_event_seqs split: option.split)

text \<open>Nothing but the spine, its tags and the write time is touched.\<close>

lemma insert_event_frame [frame_simps]:
  "db_runs (insert_event sha runId at t payload tags db) = db_runs db"
  "db_objects (insert_event sha runId at t payload tags db) = db_objects db"
  "db_stepOutputs (insert_event sha runId at t payload tags db) = db_stepOutputs db"
  "db_fingerprints (insert_event sha runId at t payload tags db) = db_fingerprints db"
  "db_outbox (insert_event sha runId at t payload tags db) = db_outbox db"
  "db_lineage (insert_event sha runId at t payload tags db) = db_lineage db"
  "db_deletedRuns (insert_event sha runId at t payload tags db) = db_deletedRuns db"
  "db_meta (insert_event sha runId at t payload tags db) = db_meta db"
  by (simp_all add: insert_event_def Let_def)

lemma appendEvent_frame [frame_simps]:
  "db_runs (appendEvent sha runId e at db) = db_runs db"
  "db_objects (appendEvent sha runId e at db) = db_objects db"
  "db_stepOutputs (appendEvent sha runId e at db) = db_stepOutputs db"
  "db_fingerprints (appendEvent sha runId e at db) = db_fingerprints db"
  "db_outbox (appendEvent sha runId e at db) = db_outbox db"
  "db_lineage (appendEvent sha runId e at db) = db_lineage db"
  "db_deletedRuns (appendEvent sha runId e at db) = db_deletedRuns db"
  "db_meta (appendEvent sha runId e at db) = db_meta db"
  by (simp_all add: appendEvent_def Let_def insert_event_frame split: option.split)

lemma appendEvent_events:
  "\<exists>notes row. db_events (appendEvent sha runId e at db) = db_events db @ notes @ [row] \<and>
     er_runId row = runId \<and> er_type row = ev_type e \<and> er_payload row = event_payload runId at e \<and> er_at row = at \<and>
     list_all (\<lambda>n. er_runId n = runId \<and> er_type n = E_note) notes \<and>
     (notes \<noteq> [] \<longleftrightarrow> (\<exists>flr. db_lastWriteAt db = Some flr \<and> at < flr))"
  by (cases "db_lastWriteAt db") (simp_all add: appendEvent_def insert_event_def Let_def)

lemma appendEvent_lastWrite:
  "db_lastWriteAt (appendEvent sha runId e at db) =
     Some (case db_lastWriteAt db of None \<Rightarrow> at | Some flr \<Rightarrow> max flr at)"
  by (auto simp: appendEvent_def insert_event_def Let_def max_def split: option.split)

section \<open>Tampering is detected\<close>

lemma chain_hash_inj:
  "inj sha \<Longrightarrow> chain_hash sha p q v = chain_hash sha p q w \<longleftrightarrow> stringify v = stringify w"
  by (simp add: chain_hash_def inj_eq)

definition bar_free :: "string \<Rightarrow> bool" where
  "bar_free h \<longleftrightarrow> h \<noteq> [] \<and> CHR ''|'' \<notin> set h"

lemma split_at_bar: "CHR ''|'' \<notin> set a \<Longrightarrow> CHR ''|'' \<notin> set b \<Longrightarrow> a @ CHR ''|'' # x = b @ CHR ''|'' # y \<Longrightarrow> a = b \<and> x = y"
proof (induction a arbitrary: b)
  case Nil
  then show ?case by (cases b) auto
next
  case (Cons c a)
  then show ?case by (cases b) auto
qed

abbreviation hash_text :: "string option \<Rightarrow> string" where
  "hash_text p \<equiv> (case p of Some h \<Rightarrow> h | None \<Rightarrow> '''')"

lemma chain_hash_split:
  assumes "inj sha" "CHR ''|'' \<notin> set (hash_text p)" "CHR ''|'' \<notin> set (hash_text p')"
    and "stringify v = stringify v'" "chain_hash sha p q v = chain_hash sha p' q' v'"
  shows "hash_text p = hash_text p' \<and> q = q'"
proof -
  have "hash_text p @ CHR ''|'' # q @ CHR ''|'' # stringify v = hash_text p' @ CHR ''|'' # q' @ CHR ''|'' # stringify v"
    using assms(1,4,5) by (simp add: chain_hash_def inj_eq)
  from split_at_bar [OF assms(2,3) this] show ?thesis by simp
qed

definition texts :: "event_row list \<Rightarrow> (string \<times> string option) list" where
  "texts rows = map (\<lambda>r. (stringify (er_payload r), er_prevHash r)) rows"

lemma chain_ok_snoc:
  assumes "check_chain sha None '''' (xs @ [r]) = None" "\<And>x. bar_free (sha x)"
  shows "check_chain sha None '''' xs = None"
    "er_prevHash r = Some (chain_hash sha (fst (tip None '''' xs)) (snd (tip None '''' xs)) (er_payload r))"
proof -
  let ?h = "chain_hash sha (fst (tip None [] xs)) (snd (tip None [] xs)) (er_payload r)"
  have c: "check_chain sha None [] xs = None" "(case er_prevHash r of Some h \<Rightarrow> h | None \<Rightarrow> []) = ?h"
    using assms(1) by (auto simp: check_chain_append split: option.splits if_splits)
  have "?h \<noteq> []" using assms(2) by (simp add: chain_hash_def bar_free_def)
  with c show "check_chain sha None [] xs = None" "er_prevHash r = Some ?h" by (auto split: option.splits)
qed

text \<open>Where the next hash of a valid chain starts: at nothing, or at a hash.\<close>

lemma chain_tip:
  assumes "check_chain sha None '''' zs = None" "\<And>x. bar_free (sha x)"
  shows "CHR ''|'' \<notin> set (hash_text (fst (tip None '''' zs)))"
    and "zs \<noteq> [] \<Longrightarrow> \<exists>h. fst (tip None '''' zs) = Some h \<and> h \<noteq> []"
proof -
  have "zs = [] \<or> (\<exists>h. fst (tip None '''' zs) = Some h \<and> bar_free h)"
  proof (cases zs rule: rev_cases)
    case (snoc ys r)
    with chain_ok_snoc(2) [of sha ys r] assms show ?thesis by (simp add: chain_hash_def)
  qed simp
  then show "CHR ''|'' \<notin> set (hash_text (fst (tip None '''' zs)))"
    "zs \<noteq> [] \<Longrightarrow> \<exists>h. fst (tip None '''' zs) = Some h \<and> h \<noteq> []"
    by (auto simp: bar_free_def)
qed

lemma texts_last: "zs \<noteq> [] \<Longrightarrow> texts [last zs] = [(snd (tip None '''' zs), fst (tip None '''' zs))]"
  by (cases zs rule: rev_cases) (auto simp: texts_def)

lemma chain_commits:
  assumes "inj sha" "\<And>x. bar_free (sha x)"
    and "check_chain sha None '''' xs = None" "check_chain sha None '''' ys = None"
    and "xs \<noteq> []" "ys \<noteq> []" "texts [last xs] = texts [last ys]"
  shows "texts xs = texts ys"
  using assms(3-7)
proof (induction xs arbitrary: ys rule: rev_induct)
  case (snoc r xs)
  obtain ys' r' where ys: "ys = ys' @ [r']" using snoc.prems by (meson rev_exhaust)
  have r: "stringify (er_payload r) = stringify (er_payload r')" "er_prevHash r = er_prevHash r'"
    using snoc.prems by (auto simp: ys texts_def)
  note cx = chain_ok_snoc [OF snoc.prems(1) assms(2)] and cy = chain_ok_snoc [OF snoc.prems(2) [unfolded ys] assms(2)]
  note tx = chain_tip [OF cx(1) assms(2)] and ty = chain_tip [OF cy(1) assms(2)]
  have eq: "hash_text (fst (tip None '''' xs)) = hash_text (fst (tip None '''' ys'))"
    "snd (tip None '''' xs) = snd (tip None '''' ys')"
    using chain_hash_split [OF assms(1) tx(1) ty(1) r(1)] r(2) cx(2) cy(2) by auto
  have "xs = [] \<longleftrightarrow> ys' = []" using eq(1) tx(2) ty(2) by force
  moreover have "texts xs = texts ys'" if "xs \<noteq> []" "ys' \<noteq> []"
    using that eq tx(2) ty(2) by (intro snoc.IH [OF cx(1) cy(1) that]) (auto simp: texts_last)
  ultimately show ?case using r by (auto simp: ys texts_def)
qed simp

lemma check_chain_edit:
  assumes "inj sha" "check_chain sha p q (xs @ r # ys) = None"
    and "er_prevHash r' = er_prevHash r" "er_seq r' = er_seq r" "stringify (er_payload r') \<noteq> stringify (er_payload r)"
  shows "check_chain sha p q (xs @ r' # zs) = Some (er_seq r)"
proof -
  let ?h = "chain_hash sha (fst (tip p q xs)) (snd (tip p q xs))"
  have c: "check_chain sha p q xs = None" "hash_text (er_prevHash r) = ?h (er_payload r)"
    using assms(2) by (auto simp: check_chain_append split: option.splits if_splits)
  have "hash_text (er_prevHash r') \<noteq> ?h (er_payload r')"
    using c(2) assms(1,3,5) chain_hash_inj by metis
  with c(1) assms(4) show ?thesis by (simp add: check_chain_append)
qed

section \<open>Properties of the spine\<close>

definition append_all :: "(string \<Rightarrow> string) \<Rightarrow> (id \<times> event_input \<times> instant) list \<Rightarrow> store \<Rightarrow> store" where
  "append_all sha es db = fold (\<lambda>(runId, e, at). appendEvent sha runId e at) es db"

lemma append_all_ok:
  "chains_ok sha db \<and> seqs_ok db \<Longrightarrow> chains_ok sha (append_all sha es db) \<and> seqs_ok (append_all sha es db)"
  unfolding append_all_def by (induction es arbitrary: db) (auto intro: appendEvent_chains appendEvent_seqs)

lemma append_all_prefix: "\<exists>new. db_events (append_all sha es db) = db_events db @ new"
proof (induction es arbitrary: db)
  case (Cons x es)
  obtain runId e at where x: "x = (runId, e, at)" by (cases x) auto
  obtain ns row where "db_events (appendEvent sha runId e at db) = db_events db @ ns @ [row]"
    using appendEvent_events by blast
  with Cons.IH [of "appendEvent sha runId e at db"] show ?case by (auto simp: append_all_def x)
qed (simp add: append_all_def)

lemma empty_store_ok: "chains_ok sha empty_store" "seqs_ok empty_store"
  by (simp_all add: chains_ok_def seqs_ok_def empty_store_def run_events_def)

text \<open>C3. The audit spine is append-only and self-verifying: after any sequence of events of any runs, in
  any order of their clocks, the hash chain of every run verifies, sequence numbers are strictly
  increasing, and no event written earlier has changed.\<close>

theorem spine_append_only_and_verifies:
  "cr_ok (verifyEventChain sha runId (append_all sha (es @ es') empty_store)) \<and>
   sorted_wrt (<) (map er_seq (db_events (append_all sha (es @ es') empty_store))) \<and>
   (\<exists>new. db_events (append_all sha (es @ es') empty_store) = db_events (append_all sha es empty_store) @ new)"
proof -
  have "append_all sha (es @ es') empty_store = append_all sha es' (append_all sha es empty_store)"
    by (simp add: append_all_def)
  moreover have "chains_ok sha (append_all sha (es @ es') empty_store) \<and> seqs_ok (append_all sha (es @ es') empty_store)"
    using append_all_ok empty_store_ok by blast
  ultimately show ?thesis
    using append_all_prefix [of sha es' "append_all sha es empty_store"]
    by (simp add: verifyEventChain_def chains_ok_def seqs_ok_def Let_def)
qed

text \<open>C22. Editing stored history is detected and located: when the payload text of one event of a
  verified run is changed and its stored hash is not, verification fails and names exactly that event,
  whatever was done to later events. SHA-256 is assumed to be injective.\<close>

theorem edited_event_is_located:
  assumes "inj sha" "cr_ok (verifyEventChain sha runId db)"
    and "run_events runId db = before @ r # later" "run_events runId db' = before @ r' # later'"
    and "er_seq r' = er_seq r" "er_prevHash r' = er_prevHash r" "stringify (er_payload r') \<noteq> stringify (er_payload r)"
  shows "verifyEventChain sha runId db' =
    \<lparr>cr_ok = False, cr_firstBrokenSeq = Some (er_seq r), cr_length = length (run_events runId db')\<rparr>"
proof -
  have "check_chain sha None [] (before @ r # later) = None"
    using assms(2,3) by (simp add: verifyEventChain_def Let_def)
  then have "check_chain sha None [] (before @ r' # later') = Some (er_seq r)"
    using check_chain_edit assms(1,5-7) by blast
  then show ?thesis by (simp add: verifyEventChain_def Let_def assms(4))
qed

text \<open>The last event commits to the whole history: two verified histories of a run whose last events
  agree in payload and hash agree in every payload and every hash, and in their length. An external
  copy of one row therefore pins everything before it. SHA-256 is assumed to be injective, with
  outputs that are not empty and contain no bar.\<close>

theorem last_event_commits_to_history:
  assumes "inj sha" "\<And>x. bar_free (sha x)"
    and "cr_ok (verifyEventChain sha runId db)" "cr_ok (verifyEventChain sha runId db')"
    and "run_events runId db \<noteq> []" "run_events runId db' \<noteq> []"
    and "texts [last (run_events runId db)] = texts [last (run_events runId db')]"
  shows "texts (run_events runId db) = texts (run_events runId db')"
proof -
  have "check_chain sha None [] (run_events runId db) = None" "check_chain sha None [] (run_events runId db') = None"
    using assms(3,4) by (simp_all add: verifyEventChain_def Let_def)
  from chain_commits [OF assms(1,2) this assms(5-7)] show ?thesis .
qed

text \<open>A backwards clock is recorded, never silently accepted: appending an event with a timestamp
  before the latest write inserts a note event for the run just before it, and only then; the latest
  write time never decreases.\<close>

theorem backwards_clock_recorded:
  "\<exists>notes row. db_events (appendEvent sha runId e at db) = db_events db @ notes @ [row] \<and>
     er_type row = ev_type e \<and> er_payload row = event_payload runId at e \<and>
     list_all (\<lambda>n. er_runId n = runId \<and> er_type n = E_note) notes \<and>
     (notes \<noteq> [] \<longleftrightarrow> (\<exists>flr. db_lastWriteAt db = Some flr \<and> at < flr)) \<and>
     db_lastWriteAt (appendEvent sha runId e at db) = Some (case db_lastWriteAt db of None \<Rightarrow> at | Some flr \<Rightarrow> max flr at)"
proof -
  obtain ns row where "db_events (appendEvent sha runId e at db) = db_events db @ ns @ [row]"
    "er_type row = ev_type e" "er_payload row = event_payload runId at e"
    "list_all (\<lambda>n. er_runId n = runId \<and> er_type n = E_note) ns"
    "ns \<noteq> [] \<longleftrightarrow> (\<exists>flr. db_lastWriteAt db = Some flr \<and> at < flr)"
    using appendEvent_events [of sha runId e at db] by blast
  then show ?thesis using appendEvent_lastWrite [of sha runId e at db] by blast
qed

section \<open>A digest for the witnesses\<close>

definition toy_digest :: "string \<Rightarrow> string" where
  "toy_digest s = CHR ''h'' # concat (map (\<lambda>c. [hex_digit (of_char c div 16), hex_digit (of_char c mod 16)]) s)"

lemma hex_digit_eq: "m < 16 \<Longrightarrow> n < 16 \<Longrightarrow> hex_digit m = hex_digit n \<longleftrightarrow> m = n"
  by (metis hex_val_digit)

lemma of_char_less: "(of_char c :: nat) < 256"
  using of_char_mod_256 [of c] by (metis mod_less_divisor zero_less_numeral)

lemma of_char_high: "(of_char c :: nat) div 16 < 16"
  using of_char_less [of c] by (simp add: less_mult_imp_div_less)

lemma toy_digest_inj: "inj toy_digest"
proof (rule injI)
  let ?e = "\<lambda>s :: string. concat (map (\<lambda>c. [hex_digit (of_char c div 16), hex_digit (of_char c mod 16)]) s)"
  fix x y assume "toy_digest x = toy_digest y"
  then have "?e x = ?e y" by (simp add: toy_digest_def)
  then show "x = y"
  proof (induction x arbitrary: y)
    case Nil
    then show ?case by (cases y) auto
  next
    case (Cons c x)
    then obtain d z where y: "y = d # z" by (cases y) auto
    note lt = of_char_high
    have "(of_char c :: nat) div 16 = of_char d div 16" "(of_char c :: nat) mod 16 = of_char d mod 16"
      using Cons.prems lt by (auto simp: y hex_digit_eq)
    then have "(of_char c :: nat) = of_char d" by (metis div_mult_mod_eq)
    with Cons y show ?case by simp
  qed
qed

lemma toy_digest_bar_free: "bar_free (toy_digest s)"
proof -
  have "hex_digit n \<noteq> CHR ''|''" if "n < 16" for n
  proof
    assume "hex_digit n = CHR ''|''"
    moreover have "hex_val CHR ''|'' = 37" by (simp add: hex_val_def Let_def)
    ultimately show False using hex_val_digit [OF that] that by simp
  qed
  then have "hex_digit (of_char c div 16) \<noteq> CHR ''|''" "hex_digit (of_char c mod 16) \<noteq> CHR ''|''" for c :: char
    using of_char_high by simp_all
  then show ?thesis unfolding bar_free_def toy_digest_def by fastforce
qed

definition note_input :: "string \<Rightarrow> event_input" where
  "note_input k = \<lparr>ev_type = E_note, ev_status = None, ev_stage = None, ev_detail = [(''kind'', JStr k)], ev_receiptId = None\<rparr>"

theorem edited_event_is_located_witness:
  "cr_firstBrokenSeq (verifyEventChain toy_digest ''r''
     ((appendEvent toy_digest ''r'' (note_input ''a'') 0 empty_store)\<lparr>db_events :=
        map (\<lambda>x. x\<lparr>er_payload := JNull\<rparr>) (db_events (appendEvent toy_digest ''r'' (note_input ''a'') 0 empty_store))\<rparr>)) = Some 1"
proof -
  let ?db = "appendEvent toy_digest ''r'' (note_input ''a'') 0 empty_store"
  let ?r = "\<lparr>er_seq = 1, er_runId = ''r'', er_at = 0, er_type = E_note, er_payload = event_payload ''r'' 0 (note_input ''a''),
      er_prevHash = Some (next_hash toy_digest ''r'' (event_payload ''r'' 0 (note_input ''a'')) (empty_store\<lparr>db_lastWriteAt := Some 0\<rparr>))\<rparr>"
  have ev: "db_events ?db = [?r]"
    by (simp add: appendEvent_def insert_event_def empty_store_def note_input_def)
  have ok: "cr_ok (verifyEventChain toy_digest ''r'' ?db)"
    using appendEvent_chains [OF empty_store_ok(1), of toy_digest "''r''" "note_input ''a''" 0]
    by (simp add: verifyEventChain_def chains_ok_def Let_def)
  have ne: "stringify (er_payload (?r\<lparr>er_payload := JNull\<rparr>)) \<noteq> stringify (er_payload ?r)"
    by (simp add: event_payload_def)
  show ?thesis
    using edited_event_is_located [OF toy_digest_inj ok, of "[]" ?r "[]"
        "?db\<lparr>db_events := map (\<lambda>x. x\<lparr>er_payload := JNull\<rparr>) (db_events ?db)\<rparr>" "?r\<lparr>er_payload := JNull\<rparr>" "[]"] ne
    by (simp add: run_events_def ev)
qed

theorem last_event_commits_to_history_witness:
  "texts (run_events ''r'' (append_all toy_digest [(''r'', note_input ''a'', 0)] empty_store)) =
   texts (run_events ''r'' (append_all toy_digest [(''r'', note_input ''a'', 0), (''s'', note_input ''b'', 5)] empty_store))"
proof -
  let ?db1 = "append_all toy_digest [(''r'', note_input ''a'', 0)] empty_store"
  let ?db2 = "append_all toy_digest [(''r'', note_input ''a'', 0), (''s'', note_input ''b'', 5)] empty_store"
  have ok: "cr_ok (verifyEventChain toy_digest ''r'' (append_all toy_digest es empty_store))" for es
    using append_all_ok [of toy_digest empty_store es] empty_store_ok
    by (simp add: verifyEventChain_def chains_ok_def Let_def)
  have ev: "run_events ''r'' ?db1 \<noteq> []" "run_events ''r'' ?db2 = run_events ''r'' ?db1"
    by (simp_all add: append_all_def run_events_def appendEvent_def insert_event_def empty_store_def note_input_def)
  then show ?thesis
    using last_event_commits_to_history [OF toy_digest_inj toy_digest_bar_free ok ok, of
        "[(''r'', note_input ''a'', 0)]" "[(''r'', note_input ''a'', 0), (''s'', note_input ''b'', 5)]"] by simp
qed

end
