(* ===== verification/Store_Runs.thy ===== *)
theory Store_Runs
  imports Store
begin

text \<open>
  The rest of \<^verbatim>\<open>src/src/persistence/store.ts\<close> that runs and their execution rest on: runs and forks,
  the lease that makes one executor the single writer of a run, the cancellation flag, generic
  objects with their derived lineage edges, idempotent step checkpoints, the scheduler outbox and the
  cascading delete. Freshly made identifiers and the clock are arguments. The full-text mirror of
  searchable objects is a ranking cache beside the tables and is left out.
\<close>

datatype store_error =
  RunNotFound id | NoSuchRun id | ForkFromLiveRun id run_status | DuplicateRunId id
| ObjectWithoutId string | ObjectWithoutRunId string | InvalidEdge

section \<open>Rows\<close>

text \<open>\<open>INSERT OR REPLACE\<close> and \<open>INSERT OR IGNORE\<close> on a table with a primary key.\<close>

definition insert_or_replace :: "('r \<Rightarrow> 'k) \<Rightarrow> 'r \<Rightarrow> 'r list \<Rightarrow> 'r list" where
  "insert_or_replace key r rows = filter (\<lambda>x. key x \<noteq> key r) rows @ [r]"

definition insert_or_ignore :: "('r \<Rightarrow> 'k) \<Rightarrow> 'r \<Rightarrow> 'r list \<Rightarrow> 'r list" where
  "insert_or_ignore key r rows = (if key r \<in> key ` set rows then rows else rows @ [r])"

definition find_run :: "id \<Rightarrow> store \<Rightarrow> run_row option" where
  "find_run runId db = List.find (\<lambda>r. rr_id r = runId) (db_runs db)"

definition getRun :: "id \<Rightarrow> store \<Rightarrow> research_run option" where
  "getRun runId db = map_option rr_doc (find_run runId db)"

definition run_row_of :: "research_run \<Rightarrow> instant \<Rightarrow> run_row" where
  "run_row_of run now =
     \<lparr>rr_id = run_id run, rr_questionId = run_questionId run, rr_status = run_status run,
      rr_currentStage = run_currentStage run, rr_doc = run, rr_createdAt = now, rr_updatedAt = now,
      rr_leaseHolder = None, rr_leaseExpiresAt = None\<rparr>"

section \<open>Objects and lineage\<close>

definition jget :: "string \<Rightarrow> json \<Rightarrow> json option" where
  "jget k v = (case v of JObj kvs \<Rightarrow> map_of kvs k | _ \<Rightarrow> None)"

definition jstr :: "string \<Rightarrow> json \<Rightarrow> string option" where
  "jstr k v = (case jget k v of Some (JStr s) \<Rightarrow> Some s | _ \<Rightarrow> None)"

text \<open>An object to store: its schema-parsed payload, and the payload's \<open>createdAt\<close> as an instant.\<close>

record object_input =
  oi_kind :: string
  oi_json :: json
  oi_createdAt :: "instant option"

definition LINEAGE_COUNTER_RELATIONS :: "string list" where
  "LINEAGE_COUNTER_RELATIONS = [''contradicts'', ''weakens'', ''fails_to_replicate'', ''alternative_explanation'']"

definition edge_key :: "lineage_edge \<Rightarrow> id \<times> id \<times> lineage_edge_kind" where
  "edge_key e = (le_fromId e, le_toId e, le_kind e)"

definition insert_edge :: "id \<Rightarrow> id \<Rightarrow> lineage_edge_kind \<Rightarrow> id \<Rightarrow> instant \<Rightarrow> lineage_edge list \<Rightarrow> lineage_edge list" where
  "insert_edge frm dest kind runId at edges =
     insert_or_ignore edge_key \<lparr>le_fromId = frm, le_toId = dest, le_kind = kind, le_runId = runId, le_at = at\<rparr> edges"

definition revision_operations :: "json \<Rightarrow> id list" where
  "revision_operations p =
     (case jget ''operations'' p of Some (JArr ops) \<Rightarrow> List.map_filter (jstr ''objectId'') ops | _ \<Rightarrow> [])"

definition recordLineageEdgesFromPayload ::
  "string \<Rightarrow> json \<Rightarrow> id \<Rightarrow> instant \<Rightarrow> lineage_edge list \<Rightarrow> lineage_edge list" where
  "recordLineageEdgesFromPayload kind p runId at edges =
     (if kind = ''evidence_relation'' then
        (let target = (case jstr ''targetHypothesisId'' p of Some t \<Rightarrow> Some t | None \<Rightarrow> jstr ''targetClaimId'' p)
         in case (jstr ''id'' p, target, jstr ''relation'' p) of
              (Some i, Some t, Some rel) \<Rightarrow>
                insert_edge i t (if rel \<in> set LINEAGE_COUNTER_RELATIONS then Counter_evidence else Support_evidence)
                  runId at edges
            | _ \<Rightarrow> edges)
      else
        (case jstr ''id'' p of
           None \<Rightarrow> edges
         | Some i \<Rightarrow>
             (let edges1 = (case jstr ''triggerFeedbackId'' p of
                   Some f \<Rightarrow> insert_edge f i Caused_revision runId at edges | None \<Rightarrow> edges)
              in fold (\<lambda>obj. insert_edge i obj Revises runId at) (revision_operations p) edges1)))"

definition object_key :: "object_row \<Rightarrow> string \<times> id" where
  "object_key o' = (ob_kind o', ob_id o')"

definition putObject :: "object_input \<Rightarrow> instant \<Rightarrow> store \<Rightarrow> store_error + store" where
  "putObject oi now db =
     (case (case jstr ''id'' (oi_json oi) of Some i \<Rightarrow> Some i | None \<Rightarrow> jstr ''revisionId'' (oi_json oi)) of
        None \<Rightarrow> Inl (ObjectWithoutId (oi_kind oi))
      | Some i \<Rightarrow>
          (let runId = (case jstr ''runId'' (oi_json oi) of Some r \<Rightarrow> r | None \<Rightarrow> ''__none__'');
               at = (case oi_createdAt oi of Some t \<Rightarrow> t | None \<Rightarrow> now);
               row = \<lparr>ob_kind = oi_kind oi, ob_id = i, ob_runId = runId, ob_json = oi_json oi, ob_createdAt = at\<rparr>;
               db1 = db\<lparr>db_objects := insert_or_replace object_key row (db_objects db)\<rparr>
           in Inr (if oi_kind oi = ''evidence_relation'' \<or> oi_kind oi = ''revision''
                   then db1\<lparr>db_lineage := recordLineageEdgesFromPayload (oi_kind oi) (oi_json oi) runId at (db_lineage db1)\<rparr>
                   else db1)))"

definition getObject :: "string \<Rightarrow> id \<Rightarrow> store \<Rightarrow> json option" where
  "getObject kind i db = map_option ob_json (List.find (\<lambda>o'. ob_kind o' = kind \<and> ob_id o' = i) (db_objects db))"

definition listObjects :: "string \<Rightarrow> id \<Rightarrow> store \<Rightarrow> json list" where
  "listObjects kind runId db =
     map ob_json (sort_key ob_createdAt (filter (\<lambda>o'. ob_kind o' = kind \<and> ob_runId o' = runId) (db_objects db)))"

definition listObjectsAcrossRuns :: "string \<Rightarrow> store \<Rightarrow> json list" where
  "listObjectsAcrossRuns kind db =
     map ob_json (sort_key ob_createdAt (filter (\<lambda>o'. ob_kind o' = kind) (db_objects db)))"

definition deleteObject :: "string \<Rightarrow> id \<Rightarrow> store \<Rightarrow> bool \<times> store" where
  "deleteObject kind i db =
     (let gone = (\<lambda>o'. ob_kind o' = kind \<and> ob_id o' = i)
      in (length (filter gone (db_objects db)) = 1, db\<lparr>db_objects := filter (\<lambda>o'. \<not> gone o') (db_objects db)\<rparr>))"

definition recordLineageEdge :: "lineage_edge \<Rightarrow> store \<Rightarrow> store_error + store" where
  "recordLineageEdge e db =
     (if le_fromId e = [] \<or> le_toId e = [] \<or> le_runId e = [] then Inl InvalidEdge
      else Inr (db\<lparr>db_lineage := insert_or_ignore edge_key e (db_lineage db)\<rparr>))"

definition listLineageEdges ::
  "id option \<Rightarrow> id option \<Rightarrow> lineage_edge_kind option \<Rightarrow> id option \<Rightarrow> store \<Rightarrow> lineage_edge list" where
  "listLineageEdges toId fromId kind runId db =
     sort_key le_at (filter (\<lambda>e.
       (case toId of None \<Rightarrow> True | Some x \<Rightarrow> le_toId e = x) \<and> (case fromId of None \<Rightarrow> True | Some x \<Rightarrow> le_fromId e = x) \<and>
       (case kind of None \<Rightarrow> True | Some x \<Rightarrow> le_kind e = x) \<and> (case runId of None \<Rightarrow> True | Some x \<Rightarrow> le_runId e = x))
       (db_lineage db))"

section \<open>Runs\<close>

definition plain_event :: "event_type \<Rightarrow> (string \<times> json) list \<Rightarrow> event_input" where
  "plain_event t detail = \<lparr>ev_type = t, ev_status = None, ev_stage = None, ev_detail = detail, ev_receiptId = None\<rparr>"

definition new_run :: "id \<Rightarrow> id \<Rightarrow> instant \<Rightarrow> research_run" where
  "new_run runId questionId now =
     \<lparr>run_id = runId, run_questionId = questionId, run_status = RunCreated, run_currentStage = Scope,
      run_stages = map pending_record STAGE_ORDER, run_createdAt = now, run_updatedAt = now,
      run_lastError = None, run_cancelRequested = False, run_parentRunId = None, run_tags = [],
      run_providerConfigId = None, run_routeOverride = None\<rparr>"

text \<open>\<open>createRun\<close>: the question object, the run row and the \<open>run_created\<close> event in one transaction; any
  failure leaves the store as it was.\<close>

definition createRun ::
  "(string \<Rightarrow> string) \<Rightarrow> id \<Rightarrow> object_input \<Rightarrow> id option \<Rightarrow> route option \<Rightarrow> instant \<Rightarrow> store \<Rightarrow>
   store_error + research_run \<times> store" where
  "createRun sha freshId question providerConfigId routeOverride now db =
     (let questionId = (case jstr ''id'' (oi_json question) of Some q \<Rightarrow> q | None \<Rightarrow> '''');
          run = (new_run freshId questionId now)\<lparr>run_providerConfigId := providerConfigId, run_routeOverride := routeOverride\<rparr>
      in case putObject question now db of
           Inl e \<Rightarrow> Inl e
         | Inr db1 \<Rightarrow>
             if freshId \<in> rr_id ` set (db_runs db1) then Inl (DuplicateRunId freshId)
             else Inr (run, appendEvent sha freshId
                    ((plain_event E_run_created [(''questionId'', JStr questionId)])\<lparr>ev_status := Some RunCreated\<rparr>) now
                    (db1\<lparr>db_runs := db_runs db1 @ [run_row_of run now]\<rparr>)))"

definition listRunsByParent :: "id \<Rightarrow> store \<Rightarrow> id list" where
  "listRunsByParent parent db =
     map rr_id (sort_key rr_createdAt (filter (\<lambda>r. run_parentRunId (rr_doc r) = Some parent) (db_runs db)))"

definition forkRun :: "(string \<Rightarrow> string) \<Rightarrow> id \<Rightarrow> id \<Rightarrow> string \<Rightarrow> instant \<Rightarrow> store \<Rightarrow> store_error + research_run \<times> store" where
  "forkRun sha freshId sourceRunId reason now db =
     (case getRun sourceRunId db of
        None \<Rightarrow> Inl (NoSuchRun sourceRunId)
      | Some source \<Rightarrow>
          if run_status source = RunRunning \<or> run_status source = RunQueued
          then Inl (ForkFromLiveRun sourceRunId (run_status source))
          else if freshId \<in> rr_id ` set (db_runs db) then Inl (DuplicateRunId freshId)
          else
            (let fork = (new_run freshId (run_questionId source) now)\<lparr>
                   run_tags := remdups_first (run_tags source @ [''fork'']),
                   run_parentRunId := Some (run_id source), run_providerConfigId := run_providerConfigId source\<rparr>;
                 forkPointSeq = (case at_last (run_events sourceRunId db) of None \<Rightarrow> 0 | Some r \<Rightarrow> er_seq r);
                 db1 = db\<lparr>db_runs := db_runs db @ [run_row_of fork now]\<rparr>
             in case recordLineageEdge \<lparr>le_fromId = run_id source, le_toId = freshId, le_kind = Forked_from,
                       le_runId = freshId, le_at = now\<rparr> db1 of
                  Inl e \<Rightarrow> Inl e
                | Inr db2 \<Rightarrow>
                    (let db3 = db2\<lparr>
                           db_stepOutputs := db_stepOutputs db2 @ map (\<lambda>s. s\<lparr>so_runId := freshId\<rparr>)
                             (filter (\<lambda>s. so_runId s = run_id source) (db_stepOutputs db2)),
                           db_fingerprints := db_fingerprints db2 @ map (\<lambda>s. s\<lparr>sf_runId := freshId\<rparr>)
                             (filter (\<lambda>s. sf_runId s = run_id source) (db_fingerprints db2))\<rparr>
                     in Inr (fork, appendEvent sha freshId (plain_event E_note
                          [(''kind'', JStr ''run_forked''), (''from'', JStr (run_id source)),
                           (''forkPointSeq'', JNum (int forkPointSeq)), (''reason'', JStr (take 500 reason))]) now db3))))"

definition updateRun :: "research_run \<Rightarrow> instant \<Rightarrow> store \<Rightarrow> store_error + store" where
  "updateRun run now db =
     (let (rows, n) = sql_update (\<lambda>r. rr_id r = run_id run)
            (\<lambda>r. r\<lparr>rr_status := run_status run, rr_currentStage := run_currentStage run, rr_doc := run, rr_updatedAt := now\<rparr>)
            (db_runs db)
      in if n \<noteq> 1 then Inl (RunNotFound (run_id run)) else Inr (db\<lparr>db_runs := rows\<rparr>))"

section \<open>Leases\<close>

definition getRunLease :: "id \<Rightarrow> store \<Rightarrow> string option \<times> instant option" where
  "getRunLease runId db =
     (case find_run runId db of None \<Rightarrow> (None, None) | Some r \<Rightarrow> (rr_leaseHolder r, rr_leaseExpiresAt r))"

definition live_lease :: "instant \<Rightarrow> run_row \<Rightarrow> bool" where
  "live_lease now r \<longleftrightarrow>
     rr_leaseHolder r \<noteq> None \<and> (case rr_leaseExpiresAt r of None \<Rightarrow> False | Some t \<Rightarrow> t > now)"

definition acquireLease :: "id \<Rightarrow> string \<Rightarrow> instant \<Rightarrow> instant \<Rightarrow> store \<Rightarrow> store_error + bool \<times> store" where
  "acquireLease runId holder expiresAt now db =
     (case find_run runId db of
        None \<Rightarrow> Inl (RunNotFound runId)
      | Some r \<Rightarrow>
          if live_lease now r \<and> rr_leaseHolder r \<noteq> Some holder then Inr (False, db)
          else Inr (True, db\<lparr>db_runs := fst (sql_update (\<lambda>r. rr_id r = runId)
                 (\<lambda>r. r\<lparr>rr_leaseHolder := Some holder, rr_leaseExpiresAt := Some expiresAt\<rparr>) (db_runs db))\<rparr>))"

definition renewLease :: "id \<Rightarrow> string \<Rightarrow> instant \<Rightarrow> store \<Rightarrow> store" where
  "renewLease runId holder expiresAt db =
     db\<lparr>db_runs := fst (sql_update (\<lambda>r. rr_id r = runId \<and> rr_leaseHolder r = Some holder)
          (\<lambda>r. r\<lparr>rr_leaseExpiresAt := Some expiresAt\<rparr>) (db_runs db))\<rparr>"

definition releaseLease :: "id \<Rightarrow> string \<Rightarrow> store \<Rightarrow> store" where
  "releaseLease runId holder db =
     db\<lparr>db_runs := fst (sql_update (\<lambda>r. rr_id r = runId \<and> rr_leaseHolder r = Some holder)
          (\<lambda>r. r\<lparr>rr_leaseHolder := None, rr_leaseExpiresAt := None\<rparr>) (db_runs db))\<rparr>"

definition listExpiredLeaseRuns :: "instant \<Rightarrow> store \<Rightarrow> (id \<times> run_stage_name \<times> string option \<times> string list) list" where
  "listExpiredLeaseRuns now db =
     map (\<lambda>r. (rr_id r, rr_currentStage r, rr_leaseHolder r, run_tags (rr_doc r)))
       (filter (\<lambda>r. rr_status r = RunRunning \<and> (case rr_leaseExpiresAt r of None \<Rightarrow> True | Some t \<Rightarrow> t \<le> now)) (db_runs db))"

definition cancellable :: "run_status \<Rightarrow> bool" where
  "cancellable s \<longleftrightarrow> s \<in> {RunCreated, RunQueued, RunRunning, RunPaused, RunPartial}"

definition requestCancel :: "id \<Rightarrow> store \<Rightarrow> bool \<times> store" where
  "requestCancel runId db =
     (let (rows, n) = sql_update (\<lambda>r. rr_id r = runId \<and> cancellable (rr_status r))
            (\<lambda>r. r\<lparr>rr_doc := (rr_doc r)\<lparr>run_cancelRequested := True\<rparr>\<rparr>) (db_runs db)
      in (n = 1, db\<lparr>db_runs := rows\<rparr>))"

section \<open>Step checkpoints\<close>

definition step_key_of :: "step_row \<Rightarrow> id \<times> run_stage_name \<times> string \<times> string" where
  "step_key_of s = (so_runId s, so_stage s, so_family s, so_stepKey s)"

definition fp_key :: "fingerprint_row \<Rightarrow> id \<times> run_stage_name \<times> string" where
  "fp_key f = (sf_runId f, sf_stage f, sf_family f)"

definition getStepOutput :: "id \<Rightarrow> run_stage_name \<Rightarrow> string \<Rightarrow> string \<Rightarrow> store \<Rightarrow> json option" where
  "getStepOutput runId stage family stepKey db =
     map_option so_json (List.find (\<lambda>s. step_key_of s = (runId, stage, family, stepKey)) (db_stepOutputs db))"

definition putStepOutput ::
  "(string \<Rightarrow> string) \<Rightarrow> id \<Rightarrow> run_stage_name \<Rightarrow> string \<Rightarrow> string \<Rightarrow> json \<Rightarrow> instant \<Rightarrow> store \<Rightarrow> store" where
  "putStepOutput sha runId stage family stepKey value at db =
     appendEvent sha runId
       ((plain_event E_checkpoint_saved [(''family'', JStr family), (''stepKey'', JStr stepKey)])\<lparr>ev_stage := Some (stage_str stage)\<rparr>) at
       (db\<lparr>db_stepOutputs := insert_or_replace step_key_of
          \<lparr>so_runId = runId, so_stage = stage, so_family = family, so_stepKey = stepKey, so_json = value, so_createdAt = at\<rparr>
          (db_stepOutputs db)\<rparr>)"

definition countStepOutputs :: "id \<Rightarrow> run_stage_name \<Rightarrow> string option \<Rightarrow> store \<Rightarrow> nat" where
  "countStepOutputs runId stage family db =
     length (filter (\<lambda>s. so_runId s = runId \<and> so_stage s = stage \<and>
       (case family of None \<Rightarrow> True | Some f \<Rightarrow> so_family s = f)) (db_stepOutputs db))"

definition getStepFingerprint :: "id \<Rightarrow> run_stage_name \<Rightarrow> string \<Rightarrow> store \<Rightarrow> string option" where
  "getStepFingerprint runId stage family db =
     map_option sf_fingerprint (List.find (\<lambda>f. fp_key f = (runId, stage, family)) (db_fingerprints db))"

definition putStepFingerprint :: "id \<Rightarrow> run_stage_name \<Rightarrow> string \<Rightarrow> string \<Rightarrow> store \<Rightarrow> store" where
  "putStepFingerprint runId stage family fp db =
     db\<lparr>db_fingerprints := insert_or_replace fp_key
       \<lparr>sf_runId = runId, sf_stage = stage, sf_family = family, sf_fingerprint = fp\<rparr> (db_fingerprints db)\<rparr>"

definition clearStepOutputs :: "id \<Rightarrow> run_stage_name \<Rightarrow> string \<Rightarrow> store \<Rightarrow> nat \<times> store" where
  "clearStepOutputs runId stage family db =
     (let gone = (\<lambda>s. so_runId s = runId \<and> so_stage s = stage \<and> so_family s = family)
      in (length (filter gone (db_stepOutputs db)), db\<lparr>db_stepOutputs := filter (\<lambda>s. \<not> gone s) (db_stepOutputs db)\<rparr>))"

section \<open>Outbox\<close>

definition recordOutbox :: "id \<Rightarrow> string \<Rightarrow> json \<Rightarrow> instant \<Rightarrow> store \<Rightarrow> store" where
  "recordOutbox intentId kind payload at db =
     db\<lparr>db_outbox := insert_or_ignore ox_intentId
       \<lparr>ox_intentId = intentId, ox_kind = kind, ox_payload = payload, ox_createdAt = at, ox_drainedAt = None\<rparr> (db_outbox db)\<rparr>"

definition pendingOutbox :: "store \<Rightarrow> outbox_row list" where
  "pendingOutbox db = sort_key ox_createdAt (filter (\<lambda>o'. ox_drainedAt o' = None) (db_outbox db))"

definition markOutboxDrained :: "id \<Rightarrow> instant \<Rightarrow> store \<Rightarrow> store" where
  "markOutboxDrained intentId at db =
     db\<lparr>db_outbox := fst (sql_update (\<lambda>o'. ox_intentId o' = intentId \<and> ox_drainedAt o' = None)
          (\<lambda>o'. o'\<lparr>ox_drainedAt := Some at\<rparr>) (db_outbox db))\<rparr>"

definition putObjectEvented ::
  "(string \<Rightarrow> string) \<Rightarrow> object_input \<Rightarrow> event_input \<Rightarrow> instant \<Rightarrow> store \<Rightarrow> store_error + store" where
  "putObjectEvented sha oi e at db =
     (case jstr ''runId'' (oi_json oi) of
        None \<Rightarrow> Inl (ObjectWithoutRunId (oi_kind oi))
      | Some runId \<Rightarrow>
          (case putObject oi at db of Inl err \<Rightarrow> Inl err | Inr db1 \<Rightarrow> Inr (appendEvent sha runId e at db1)))"

definition putObjectEventedOutboxed ::
  "(string \<Rightarrow> string) \<Rightarrow> object_input \<Rightarrow> event_input \<Rightarrow> id \<Rightarrow> string \<Rightarrow> json \<Rightarrow> instant \<Rightarrow> store \<Rightarrow> store_error + store" where
  "putObjectEventedOutboxed sha oi e intentId kind payload at db =
     (case jstr ''runId'' (oi_json oi) of
        None \<Rightarrow> Inl (ObjectWithoutRunId (oi_kind oi))
      | Some runId \<Rightarrow>
          (case putObject oi at db of Inl err \<Rightarrow> Inl err
           | Inr db1 \<Rightarrow> Inr (recordOutbox intentId kind payload at (appendEvent sha runId e at db1))))"

section \<open>Cascading delete\<close>

record cascade_counts =
  cc_events :: nat
  cc_objects :: nat
  cc_checkpoints :: nat

definition deleteRunCascade :: "id \<Rightarrow> instant \<Rightarrow> store \<Rightarrow> (cascade_counts \<times> store) option" where
  "deleteRunCascade runId now db =
     (case getRun runId db of
        None \<Rightarrow> None
      | Some _ \<Rightarrow>
          (let counts = \<lparr>cc_events = length (run_events runId db),
                 cc_objects = length (filter (\<lambda>o'. ob_runId o' = runId) (db_objects db)),
                 cc_checkpoints = length (filter (\<lambda>s. so_runId s = runId) (db_stepOutputs db)) +
                   length (filter (\<lambda>f. sf_runId f = runId) (db_fingerprints db))\<rparr>
           in Some (counts, db\<lparr>
                db_objects := filter (\<lambda>o'. ob_runId o' \<noteq> runId) (db_objects db),
                db_events := filter (\<lambda>r. er_runId r \<noteq> runId) (db_events db),
                db_eventTags := filter (\<lambda>(tag, run, seq). run \<noteq> runId) (db_eventTags db),
                db_deletedRuns := insert_or_replace tb_runId
                  \<lparr>tb_runId = runId, tb_deletedAt = now, tb_events = cc_events counts, tb_objects = cc_objects counts\<rparr>
                  (db_deletedRuns db),
                db_stepOutputs := filter (\<lambda>s. so_runId s \<noteq> runId) (db_stepOutputs db),
                db_fingerprints := filter (\<lambda>f. sf_runId f \<noteq> runId) (db_fingerprints db),
                db_runs := filter (\<lambda>r. rr_id r \<noteq> runId) (db_runs db)\<rparr>)))"

section \<open>The invariant of the store\<close>

definition row_ok :: "run_row \<Rightarrow> bool" where
  "row_ok r \<longleftrightarrow> run_id (rr_doc r) = rr_id r \<and> rr_status r = run_status (rr_doc r) \<and>
     rr_currentStage r = run_currentStage (rr_doc r) \<and> wf_stages (run_stages (rr_doc r))"

definition runs_ok :: "store \<Rightarrow> bool" where
  "runs_ok db \<longleftrightarrow> distinct (map rr_id (db_runs db)) \<and> (\<forall>r \<in> set (db_runs db). row_ok r)"

definition store_ok :: "(string \<Rightarrow> string) \<Rightarrow> store \<Rightarrow> bool" where
  "store_ok sha db \<longleftrightarrow> runs_ok db \<and> chains_ok sha db \<and> seqs_ok db"

text \<open>Changes outside the spine keep the spine's part, changes outside the runs table keep its part.\<close>

lemma spine_unchanged:
  assumes "db_events db' = db_events db" "db_nextSeq db' = db_nextSeq db"
  shows "chains_ok sha db' = chains_ok sha db" "seqs_ok db' = seqs_ok db"
  using assms by (simp_all add: chains_ok_def run_events_def seqs_ok_def)

lemma runs_unchanged: "db_runs db' = db_runs db \<Longrightarrow> runs_ok db' = runs_ok db"
  by (simp add: runs_ok_def)

lemma appendEvent_ok [inv_intros]: "store_ok sha db \<Longrightarrow> store_ok sha (appendEvent sha runId e at db)"
  by (simp add: store_ok_def runs_unchanged [of "appendEvent sha runId e at db" db] appendEvent_frame
      appendEvent_chains appendEvent_seqs)

lemma store_ok_tables [simp]:
  "store_ok sha (db\<lparr>db_objects := x\<rparr>) = store_ok sha db"
  "store_ok sha (db\<lparr>db_lineage := l\<rparr>) = store_ok sha db"
  "store_ok sha (db\<lparr>db_stepOutputs := so\<rparr>) = store_ok sha db"
  "store_ok sha (db\<lparr>db_fingerprints := fs\<rparr>) = store_ok sha db"
  "store_ok sha (db\<lparr>db_outbox := ox\<rparr>) = store_ok sha db"
  by (simp_all add: store_ok_def runs_ok_def chains_ok_def run_events_def seqs_ok_def)

lemma store_ok_update_runs:
  assumes "store_ok sha db" "\<And>r. r \<in> set (db_runs db) \<Longrightarrow> P r \<Longrightarrow> row_ok r \<Longrightarrow> row_ok (f r) \<and> rr_id (f r) = rr_id r"
  shows "store_ok sha (db\<lparr>db_runs := fst (sql_update P f (db_runs db))\<rparr>)"
proof -
  have rows: "\<And>r. r \<in> set (db_runs db) \<Longrightarrow> row_ok r" using assms(1) by (simp add: store_ok_def runs_ok_def)
  have "map rr_id (fst (sql_update P f (db_runs db))) = map rr_id (db_runs db)"
    using assms(2) rows by (auto simp: sql_update_rows)
  moreover have "\<forall>r \<in> set (fst (sql_update P f (db_runs db))). row_ok r"
    using assms(2) rows by (auto simp: sql_update_rows)
  ultimately show ?thesis
    using assms(1) by (simp add: store_ok_def runs_ok_def chains_ok_def run_events_def seqs_ok_def)
qed

lemma store_ok_insert_run:
  "store_ok sha db \<Longrightarrow> row_ok r \<Longrightarrow> rr_id r \<notin> rr_id ` set (db_runs db) \<Longrightarrow> store_ok sha (db\<lparr>db_runs := db_runs db @ [r]\<rparr>)"
  by (auto simp: store_ok_def runs_ok_def chains_ok_def run_events_def seqs_ok_def)

lemma putObject_ok: "putObject oi now db = Inr db' \<Longrightarrow> store_ok sha db \<Longrightarrow> store_ok sha db'"
  by (auto simp: putObject_def Let_def split: option.splits if_splits)

lemma putObject_runs: "putObject oi now db = Inr db' \<Longrightarrow> db_runs db' = db_runs db \<and> db_events db' = db_events db \<and>
    db_outbox db' = db_outbox db"
  by (auto simp: putObject_def Let_def split: option.splits if_splits)

lemma new_run_row_ok:
  "run_stages run = map pending_record STAGE_ORDER \<Longrightarrow> row_ok (run_row_of run now)"
  by (simp add: row_ok_def run_row_of_def wf_stages_pending)

lemma createRun_ok:
  assumes "createRun sha freshId q pc ro now db = Inr (run, db')" "store_ok sha db"
  shows "store_ok sha db'"
proof -
  from assms(1) obtain db1 e where db1: "putObject q now db = Inr db1" "freshId \<notin> rr_id ` set (db_runs db1)"
    and run: "run_id run = freshId" "run_stages run = map pending_record STAGE_ORDER"
    and db': "db' = appendEvent sha freshId e now (db1\<lparr>db_runs := db_runs db1 @ [run_row_of run now]\<rparr>)"
    by (auto simp: createRun_def Let_def new_run_def split: sum.splits if_splits)
  have "store_ok sha (db1\<lparr>db_runs := db_runs db1 @ [run_row_of run now]\<rparr>)"
    using putObject_ok [OF db1(1) assms(2)] db1(2) new_run_row_ok [OF run(2)] run(1)
    by (intro store_ok_insert_run) (auto simp: run_row_of_def)
  then show ?thesis unfolding db' by (rule appendEvent_ok)
qed

lemma forkRun_ok:
  assumes "forkRun sha freshId src reason now db = Inr (run, db')" "store_ok sha db"
  shows "store_ok sha db'"
proof -
  from assms(1) obtain e so fs l where run: "run_id run = freshId" "run_stages run = map pending_record STAGE_ORDER"
    and fresh: "freshId \<notin> rr_id ` set (db_runs db)"
    and db': "db' = appendEvent sha freshId e now (db\<lparr>db_runs := db_runs db @ [run_row_of run now], db_lineage := l,
      db_stepOutputs := so, db_fingerprints := fs\<rparr>)"
    by (auto simp: forkRun_def recordLineageEdge_def Let_def new_run_def split: option.splits sum.splits if_splits)
  have "store_ok sha (db\<lparr>db_runs := db_runs db @ [run_row_of run now]\<rparr>)"
    using assms(2) new_run_row_ok [OF run(2)] fresh run(1) by (intro store_ok_insert_run) (auto simp: run_row_of_def)
  then show ?thesis unfolding db' by (intro appendEvent_ok) simp
qed

lemma updateRun_ok:
  assumes "updateRun run now db = Inr db'" "store_ok sha db" "wf_stages (run_stages run)"
  shows "store_ok sha db'"
proof -
  have db': "db' = db\<lparr>db_runs := fst (sql_update (\<lambda>r. rr_id r = run_id run)
      (\<lambda>r. r\<lparr>rr_status := run_status run, rr_currentStage := run_currentStage run, rr_doc := run, rr_updatedAt := now\<rparr>)
      (db_runs db))\<rparr>"
    using assms(1) by (auto simp: updateRun_def Let_def case_prod_beta split: if_splits)
  show ?thesis unfolding db' using assms(2,3) by (intro store_ok_update_runs) (auto simp: row_ok_def)
qed

lemma acquireLease_ok: "acquireLease runId h e now db = Inr (b, db') \<Longrightarrow> store_ok sha db \<Longrightarrow> store_ok sha db'"
  by (auto simp: acquireLease_def row_ok_def intro!: store_ok_update_runs split: option.splits if_splits)

lemma renewLease_ok: "store_ok sha db \<Longrightarrow> store_ok sha (renewLease runId h e db)"
  unfolding renewLease_def by (rule store_ok_update_runs) (auto simp: row_ok_def)

lemma releaseLease_ok: "store_ok sha db \<Longrightarrow> store_ok sha (releaseLease runId h db)"
  unfolding releaseLease_def by (rule store_ok_update_runs) (auto simp: row_ok_def)

lemma requestCancel_ok: "store_ok sha db \<Longrightarrow> store_ok sha (snd (requestCancel runId db))"
  unfolding requestCancel_def Let_def case_prod_beta snd_conv by (rule store_ok_update_runs) (auto simp: row_ok_def)

lemma putStepOutput_ok: "store_ok sha db \<Longrightarrow> store_ok sha (putStepOutput sha runId stage family k v at db)"
  unfolding putStepOutput_def by (intro appendEvent_ok) simp

lemma deleteRunCascade_ok:
  assumes "deleteRunCascade runId now db = Some (c, db')" "store_ok sha db"
  shows "store_ok sha db'"
proof -
  have db': "db_events db' = filter (\<lambda>r. er_runId r \<noteq> runId) (db_events db)" "db_nextSeq db' = db_nextSeq db"
    "db_runs db' = filter (\<lambda>r. rr_id r \<noteq> runId) (db_runs db)"
    using assms(1) by (auto simp: deleteRunCascade_def Let_def split: option.splits)
  have "run_events run db' = (if run = runId then [] else run_events run db)" for run
    by (auto simp: run_events_def db' filter_filter intro: filter_cong)
  then have "chains_ok sha db'" using assms(2) by (simp add: store_ok_def chains_ok_def)
  moreover have "seqs_ok db'"
    using assms(2) by (auto simp: store_ok_def seqs_ok_def db' sorted_wrt_map intro: sorted_wrt_filter)
  moreover have "runs_ok db'" using assms(2) by (auto simp: store_ok_def runs_ok_def db' distinct_map_filter)
  ultimately show ?thesis by (simp add: store_ok_def)
qed

section \<open>The lease contract\<close>

text \<open>
  What an executor relies on when it takes the lease of one run: a live lease of another holder
  refuses it, otherwise it gets the lease; only the holder can renew or release.
\<close>

locale lease_service =
  fixes lease :: "'s \<Rightarrow> string option \<times> instant option"
    and acquire :: "string \<Rightarrow> instant \<Rightarrow> instant \<Rightarrow> 's \<Rightarrow> bool \<times> 's"
    and renew :: "string \<Rightarrow> instant \<Rightarrow> 's \<Rightarrow> 's"
    and release :: "string \<Rightarrow> 's \<Rightarrow> 's"
    and ok :: "'s \<Rightarrow> bool"
  assumes acquire_ok: "ok s \<Longrightarrow> ok (snd (acquire h e now s))"
    and renew_ok: "ok s \<Longrightarrow> ok (renew h e s)"
    and release_ok: "ok s \<Longrightarrow> ok (release h s)"
    and acquire_refused: "ok s \<Longrightarrow> lease s = (Some h', Some t) \<Longrightarrow> now < t \<Longrightarrow> h' \<noteq> h \<Longrightarrow> acquire h e now s = (False, s)"
    and acquire_granted: "ok s \<Longrightarrow> \<not> (\<exists>h' t. lease s = (Some h', Some t) \<and> now < t \<and> h' \<noteq> h) \<Longrightarrow>
      fst (acquire h e now s) \<and> lease (snd (acquire h e now s)) = (Some h, Some e)"
    and renew_lease: "ok s \<Longrightarrow> lease (renew h e s) = (if fst (lease s) = Some h then (Some h, Some e) else lease s)"
    and release_lease: "ok s \<Longrightarrow> lease (release h s) = (if fst (lease s) = Some h then (None, None) else lease s)"
begin

text \<open>Lease operations of one holder; \<open>now\<close> is the clock an acquisition reads.\<close>

fun do_op :: "string \<times> (instant \<times> instant + instant option) \<Rightarrow> 's \<Rightarrow> 's" where
  "do_op (h, Inl (e, now)) s = snd (acquire h e now s)"
| "do_op (h, Inr (Some e)) s = renew h e s"
| "do_op (h, Inr None) s = release h s"

lemma do_op_ok: "ok s \<Longrightarrow> ok (do_op x s)"
  by (cases "(x, s)" rule: do_op.cases) (auto intro: acquire_ok renew_ok release_ok)

lemma do_op_other:
  assumes "ok s" "lease s = (Some h, Some t)" "fst x \<noteq> h" "\<And>e now. snd x = Inl (e, now) \<Longrightarrow> now < t"
  shows "lease (do_op x s) = (Some h, Some t)"
  using assms by (cases "(x, s)" rule: do_op.cases) (auto simp: renew_lease release_lease acquire_refused)

text \<open>While a lease has not expired and its holder does nothing, nobody else gets it.\<close>

lemma exclusive:
  assumes "ok s" "lease s = (Some h, Some t)"
    and "\<forall>x \<in> set ops. fst x \<noteq> h \<and> (\<forall>e now. snd x = Inl (e, now) \<longrightarrow> now < t)"
  shows "lease (fold do_op ops s) = (Some h, Some t) \<and> ok (fold do_op ops s)"
  using assms
proof (induction ops arbitrary: s)
  case (Cons x ops)
  have "lease (do_op x s) = (Some h, Some t)" using Cons.prems by (intro do_op_other) auto
  with Cons do_op_ok show ?case by simp
qed simp

end

definition acquire_at :: "id \<Rightarrow> string \<Rightarrow> instant \<Rightarrow> instant \<Rightarrow> store \<Rightarrow> bool \<times> store" where
  "acquire_at runId h e now db = (case acquireLease runId h e now db of Inr r \<Rightarrow> r | Inl _ \<Rightarrow> (False, db))"

definition leasable :: "id \<Rightarrow> store \<Rightarrow> bool" where
  "leasable runId db \<longleftrightarrow> find_run runId db \<noteq> None"

lemma find_run_update:
  assumes "\<And>r. rr_id (f r) = rr_id r"
  shows "find_run i (db\<lparr>db_runs := fst (sql_update P f (db_runs db))\<rparr>) =
    map_option (\<lambda>r. if P r then f r else r) (find_run i db)"
  unfolding find_run_def by (simp add: sql_update_rows) (subst find_key_map, use assms in auto)

lemma find_run_id: "find_run i db = Some r \<Longrightarrow> rr_id r = i"
  unfolding find_run_def by (auto dest: find_Some_iff_set)

interpretation run_lease: lease_service "getRunLease runId" "acquire_at runId" "renewLease runId" "releaseLease runId" "leasable runId"
  for runId
proof unfold_locales
  fix s :: store and h e now assume "leasable runId s"
  then obtain r where r: "find_run runId s = Some r" "rr_id r = runId" by (auto simp: leasable_def dest: find_run_id)
  note upd = find_run_update [where i = runId and db = s]
  show "leasable runId (snd (acquire_at runId h e now s))"
    using r by (auto simp: leasable_def acquire_at_def acquireLease_def upd)
  show "leasable runId (renewLease runId h e s)" using r by (simp add: leasable_def renewLease_def upd)
  show "leasable runId (releaseLease runId h s)" using r by (simp add: leasable_def releaseLease_def upd)
  show "acquire_at runId h e now s = (False, s)"
    if "getRunLease runId s = (Some h', Some t)" "now < t" "h' \<noteq> h" for h' t
    using r that by (simp add: getRunLease_def acquire_at_def acquireLease_def live_lease_def)
  show "fst (acquire_at runId h e now s) \<and> getRunLease runId (snd (acquire_at runId h e now s)) = (Some h, Some e)"
    if "\<not> (\<exists>h' t. getRunLease runId s = (Some h', Some t) \<and> now < t \<and> h' \<noteq> h)"
    using r that by (cases "rr_leaseHolder r")
      (auto simp: getRunLease_def acquire_at_def acquireLease_def live_lease_def upd split: option.splits)
  show "getRunLease runId (renewLease runId h e s) =
      (if fst (getRunLease runId s) = Some h then (Some h, Some e) else getRunLease runId s)"
    using r by (simp add: getRunLease_def renewLease_def upd)
  show "getRunLease runId (releaseLease runId h s) =
      (if fst (getRunLease runId s) = Some h then (None, None) else getRunLease runId s)"
    using r by (simp add: getRunLease_def releaseLease_def upd)
qed

section \<open>Properties\<close>

text \<open>C9. A run has at most one live executor: after an executor acquired the lease of a run with some
  expiry, no sequence of acquire, renew and release calls by other executors, at times before that
  expiry, takes the lease away or changes its expiry.\<close>

theorem lease_excludes_other_executors:
  assumes "acquireLease runId h expiresAt now db = Inr (True, db1)"
    and "\<forall>x \<in> set ops. fst x \<noteq> h \<and> (\<forall>e t. snd x = Inl (e, t) \<longrightarrow> t < expiresAt)"
  shows "getRunLease runId (fold (run_lease.do_op runId) ops db1) = (Some h, Some expiresAt)"
proof -
  obtain r where r: "find_run runId db = Some r" using assms(1) by (auto simp: acquireLease_def split: option.splits)
  have a: "acquire_at runId h expiresAt now db = (True, db1)" using assms(1) by (simp add: acquire_at_def)
  have "leasable runId db" using r by (simp add: leasable_def)
  with a have ok: "leasable runId db1" using run_lease.acquire_ok [of runId db h expiresAt now] by simp
  have "getRunLease runId db1 = (Some h, Some expiresAt)"
  proof (rule ccontr)
    assume ne: "getRunLease runId db1 \<noteq> (Some h, Some expiresAt)"
    then obtain h' t where "getRunLease runId db = (Some h', Some t)" "now < t" "h' \<noteq> h"
      using run_lease.acquire_granted [OF \<open>leasable runId db\<close>, of now h expiresAt] a by auto
    then show False using run_lease.acquire_refused [OF \<open>leasable runId db\<close>] a by simp
  qed
  from run_lease.exclusive [OF ok this assms(2)] show ?thesis by simp
qed


text \<open>A cancel request touches only the flag and never a finished run: when it reports success the run
  document is the old one with the flag set, and it reports success exactly for runs that are not
  completed, failed or cancelled; leases, stages and every other run stay as they are.\<close>

theorem cancel_request_touches_only_the_flag:
  assumes "runs_ok db" "getRun runId db = Some run"
  shows "fst (requestCancel runId db) = cancellable (run_status run) \<and>
    getRun runId (snd (requestCancel runId db)) =
      Some (if cancellable (run_status run) then run\<lparr>run_cancelRequested := True\<rparr> else run) \<and>
    (\<forall>j. getRunLease j (snd (requestCancel runId db)) = getRunLease j db) \<and>
    (\<forall>j. j \<noteq> runId \<longrightarrow> getRun j (snd (requestCancel runId db)) = getRun j db)"
proof -
  obtain r where r: "find_run runId db = Some r" "rr_doc r = run" using assms(2) by (auto simp: getRun_def)
  have in_r: "r \<in> set (db_runs db)" "rr_id r = runId" using r(1) by (auto simp: find_run_def dest: find_Some_iff_set)
  have st: "rr_status r = run_status run" using assms(1) in_r(1) r(2) by (auto simp: runs_ok_def row_ok_def)
  have dist: "distinct (map rr_id (db_runs db))" using assms(1) by (simp add: runs_ok_def)
  have n: "length (filter (\<lambda>x. rr_id x = runId \<and> cancellable (rr_status x)) (db_runs db)) =
      (if cancellable (run_status run) then 1 else 0)"
    using filter_unique_length [OF dist in_r(1), of "\<lambda>x. cancellable (rr_status x)"] in_r(2) st by simp
  let ?db = "snd (requestCancel runId db)"
  have find: "find_run j ?db = map_option (\<lambda>x. if rr_id x = runId \<and> cancellable (rr_status x)
      then x\<lparr>rr_doc := (rr_doc x)\<lparr>run_cancelRequested := True\<rparr>\<rparr> else x) (find_run j db)" for j
    unfolding requestCancel_def Let_def case_prod_beta snd_conv by (rule find_run_update) simp
  have "fst (requestCancel runId db) = cancellable (run_status run)"
    using n by (simp add: requestCancel_def sql_update_def)
  moreover have "getRun runId ?db = Some (if cancellable (run_status run) then run\<lparr>run_cancelRequested := True\<rparr> else run)"
    using r in_r(2) st by (simp add: getRun_def find)
  moreover have "getRunLease j ?db = getRunLease j db" for j
    by (auto simp: getRunLease_def find split: option.split)
  moreover have "getRun j ?db = getRun j db" if "j \<noteq> runId" for j
    using that find_run_id [of j db] by (cases "find_run j db") (auto simp: getRun_def find)
  ultimately show ?thesis by blast
qed

lemma find_append: "List.find P (xs @ ys) = (case List.find P xs of Some x \<Rightarrow> Some x | None \<Rightarrow> List.find P ys)"
  by (induction xs) auto

lemma find_filter_key:
  "List.find (\<lambda>x. k x = v) (filter Q xs) = List.find (\<lambda>x. k x = v) xs" if "\<And>x. k x = v \<Longrightarrow> Q x"
  using that by (induction xs) auto

lemma find_insert_or_replace:
  "List.find (\<lambda>x. key x = k) (insert_or_replace key r rows) =
     (if key r = k then Some r else List.find (\<lambda>x. key x = k) rows)"
proof -
  have "List.find (\<lambda>x. key x = k) (filter (\<lambda>x. key x \<noteq> key r) rows) =
      (if key r = k then None else List.find (\<lambda>x. key x = k) rows)"
    by (induction rows) auto
  then show ?thesis by (auto simp: insert_or_replace_def find_append split: option.split)
qed

text \<open>Step checkpoints are a map keyed by run, stage, family and step: reading back what was written
  gives the last value, every other key is untouched, clearing a family forgets exactly that family,
  and saving a checkpoint leaves an audit event and keeps the run documents.\<close>

theorem step_checkpoint_roundtrip:
  "getStepOutput r' s' f' k' (putStepOutput sha r s f k v at db) =
     (if (r', s', f', k') = (r, s, f, k) then Some v else getStepOutput r' s' f' k' db) \<and>
   getStepOutput r' s' f' k' (snd (clearStepOutputs r s f db)) =
     (if (r', s', f') = (r, s, f) then None else getStepOutput r' s' f' k' db) \<and>
   db_runs (putStepOutput sha r s f k v at db) = db_runs db \<and>
   (\<exists>new. db_events (putStepOutput sha r s f k v at db) = db_events db @ new \<and>
      er_type (last new) = E_checkpoint_saved \<and> new \<noteq> [])"
proof (intro conjI)
  show "getStepOutput r' s' f' k' (putStepOutput sha r s f k v at db) =
     (if (r', s', f', k') = (r, s, f, k) then Some v else getStepOutput r' s' f' k' db)"
    unfolding getStepOutput_def putStepOutput_def
    by (simp add: appendEvent_frame find_insert_or_replace) (simp add: step_key_of_def eq_commute)
  let ?gone = "\<lambda>s'. so_runId s' = r \<and> so_stage s' = s \<and> so_family s' = f"
  have "List.find (\<lambda>x. step_key_of x = (r', s', f', k')) (filter (\<lambda>x. \<not> ?gone x) rows) =
      (if (r', s', f') = (r, s, f) then None else List.find (\<lambda>x. step_key_of x = (r', s', f', k')) rows)" for rows
    by (induction rows) (auto simp: step_key_of_def)
  then show "getStepOutput r' s' f' k' (snd (clearStepOutputs r s f db)) =
     (if (r', s', f') = (r, s, f) then None else getStepOutput r' s' f' k' db)"
    unfolding getStepOutput_def clearStepOutputs_def Let_def by simp
  show "db_runs (putStepOutput sha r s f k v at db) = db_runs db"
    by (simp add: putStepOutput_def appendEvent_frame)
  let ?db = "db\<lparr>db_stepOutputs := insert_or_replace step_key_of
      \<lparr>so_runId = r, so_stage = s, so_family = f, so_stepKey = k, so_json = v, so_createdAt = at\<rparr> (db_stepOutputs db)\<rparr>"
  let ?e = "(plain_event E_checkpoint_saved [(''family'', JStr f), (''stepKey'', JStr k)])\<lparr>ev_stage := Some (stage_str s)\<rparr>"
  obtain ns row where "db_events (appendEvent sha r ?e at ?db) = db_events ?db @ ns @ [row]" "er_type row = ev_type ?e"
    using appendEvent_events [of sha r ?e at ?db] by blast
  then show "\<exists>new. db_events (putStepOutput sha r s f k v at db) = db_events db @ new \<and>
      er_type (last new) = E_checkpoint_saved \<and> new \<noteq> []"
    by (intro exI [of _ "ns @ [row]"]) (simp add: putStepOutput_def plain_event_def)
qed

lemma run_events_append_other: "j \<noteq> i \<Longrightarrow> run_events j (appendEvent sha i e at db) = run_events j db"
  by (auto simp: appendEvent_def Let_def run_events_insert split: option.split)
    (simp_all add: run_events_def insert_event_def Let_def)

lemma find_map_eq: "List.find P (map g xs) = map_option g (List.find (\<lambda>x. P (g x)) xs)"
  by (induction xs) auto

lemma getStepOutput_fork:
  assumes "\<forall>s \<in> set rows. so_runId s \<noteq> new" "src \<noteq> new"
  shows "List.find (\<lambda>x. step_key_of x = (i, st, f, k))
      (rows @ map (\<lambda>s. s\<lparr>so_runId := new\<rparr>) (filter (\<lambda>s. so_runId s = src) rows)) =
    (if i = new then map_option (\<lambda>s. s\<lparr>so_runId := new\<rparr>) (List.find (\<lambda>x. step_key_of x = (src, st, f, k)) rows)
     else List.find (\<lambda>x. step_key_of x = (i, st, f, k)) rows)"
proof -
  have "List.find (\<lambda>x. step_key_of x = (new, st, f, k)) rows = None"
    using assms(1) by (auto simp: find_None_set step_key_of_def)
  moreover have "List.find (\<lambda>x. step_key_of (x\<lparr>so_runId := new\<rparr>) = (new, st, f, k)) (filter (\<lambda>s. so_runId s = src) xs) =
      List.find (\<lambda>x. step_key_of x = (src, st, f, k)) xs" for xs
    by (induction xs) (auto simp: step_key_of_def)
  moreover have "List.find (\<lambda>x. step_key_of (x\<lparr>so_runId := new\<rparr>) = (i, st, f, k)) xs = None" if "i \<noteq> new" for xs
    using that by (auto simp: find_None_set step_key_of_def)
  ultimately show ?thesis by (auto simp: find_append find_map_eq split: option.split)
qed

text \<open>A fork starts fresh and replays faithfully: it is a new created run on the same question with all
  stages pending and its source as parent, every cached step of the source (and only those) is
  readable under the fork, and the source run, its steps and its history are unchanged.\<close>

theorem fork_replays_source:
  assumes "runs_ok db" "forkRun sha freshId src reason now db = Inr (fork, db')"
    and "\<forall>s \<in> set (db_stepOutputs db). so_runId s \<noteq> freshId"
  shows "run_status fork = RunCreated \<and> run_parentRunId fork = Some src \<and> run_stages fork = map pending_record STAGE_ORDER \<and>
    getRun freshId db' = Some fork \<and> (\<forall>j. j \<noteq> freshId \<longrightarrow> getRun j db' = getRun j db) \<and>
    getStepOutput freshId st f k db' = getStepOutput src st f k db \<and>
    (\<forall>j. j \<noteq> freshId \<longrightarrow> getStepOutput j st f k db' = getStepOutput j st f k db) \<and>
    (\<forall>j. j \<noteq> freshId \<longrightarrow> run_events j db' = run_events j db)"
proof -
  from assms(2) obtain source e fs l where source: "getRun src db = Some source"
    and fork: "run_id fork = freshId" "run_status fork = RunCreated" "run_parentRunId fork = Some (run_id source)"
      "run_stages fork = map pending_record STAGE_ORDER" "freshId \<notin> rr_id ` set (db_runs db)"
    and db': "db' = appendEvent sha freshId e now (db\<lparr>db_runs := db_runs db @ [run_row_of fork now], db_lineage := l,
      db_stepOutputs := db_stepOutputs db @ map (\<lambda>s. s\<lparr>so_runId := freshId\<rparr>)
        (filter (\<lambda>s. so_runId s = run_id source) (db_stepOutputs db)), db_fingerprints := fs\<rparr>)"
    by (auto simp: forkRun_def recordLineageEdge_def Let_def new_run_def split: option.splits sum.splits if_splits)
  obtain r where r: "find_run src db = Some r" "rr_doc r = source" using source by (auto simp: getRun_def)
  then have "r \<in> set (db_runs db)" "rr_id r = src" by (auto simp: find_run_def dest: find_Some_iff_set)
  then have src: "run_id source = src" "src \<noteq> freshId" using assms(1) r(2) fork(5) by (auto simp: runs_ok_def row_ok_def)
  have "find_run freshId db = None" using fork(5) by (auto simp: find_run_def find_None_set)
  then have "getRun j db' = (if j = freshId then Some fork else getRun j db)" for j
    using fork(1) by (auto simp: db' getRun_def find_run_def appendEvent_frame find_append run_row_of_def split: option.split)
  moreover have "getStepOutput j st f k db' = getStepOutput (if j = freshId then src else j) st f k db" for j
    using getStepOutput_fork [OF assms(3) src(2), of j st f k]
    by (simp add: db' getStepOutput_def appendEvent_frame src(1) option.map_comp comp_def)
  moreover have "run_events j db' = run_events j db" if "j \<noteq> freshId" for j
    using run_events_append_other [OF that] by (simp add: db' run_events_def)
  ultimately show ?thesis using fork src by simp
qed

text \<open>Deleting a run is complete and contained: it removes the run, all its objects, events, tags,
  step outputs and fingerprints, leaves every other run's rows exactly as they were, and records a
  tombstone with the true numbers of deleted events and objects.\<close>

theorem delete_cascade_complete_and_contained:
  assumes "deleteRunCascade runId now db = Some (c, db')"
  shows "getRun runId db' = None \<and> run_events runId db' = [] \<and>
    (\<forall>o' \<in> set (db_objects db'). ob_runId o' \<noteq> runId) \<and> (\<forall>s \<in> set (db_stepOutputs db'). so_runId s \<noteq> runId) \<and>
    (\<forall>f \<in> set (db_fingerprints db'). sf_runId f \<noteq> runId) \<and> (\<forall>t \<in> set (db_eventTags db'). fst (snd t) \<noteq> runId) \<and>
    (\<forall>j. j \<noteq> runId \<longrightarrow> getRun j db' = getRun j db \<and> run_events j db' = run_events j db \<and>
       (\<forall>kind. listObjects kind j db' = listObjects kind j db)) \<and>
    \<lparr>tb_runId = runId, tb_deletedAt = now, tb_events = length (run_events runId db),
      tb_objects = length (filter (\<lambda>o'. ob_runId o' = runId) (db_objects db))\<rparr> \<in> set (db_deletedRuns db')"
proof -
  have find_other: "List.find (\<lambda>r. rr_id r = j) (filter (\<lambda>r. rr_id r \<noteq> runId) rows) =
      (if j = runId then None else List.find (\<lambda>r. rr_id r = j) rows)" for j rows
    by (induction rows) auto
  have objects_other: "filter (\<lambda>x. ob_runId x \<noteq> runId \<and> ob_kind x = kind \<and> ob_runId x = j) xs =
      filter (\<lambda>x. ob_kind x = kind \<and> ob_runId x = j) xs" if "j \<noteq> runId" for j kind and xs :: "object_row list"
    using that by (intro filter_cong) auto
  have events_other: "filter (\<lambda>x. er_runId x \<noteq> runId \<and> er_runId x = j) xs = filter (\<lambda>x. er_runId x = j) xs"
    if "j \<noteq> runId" for j and xs :: "event_row list"
    using that by (intro filter_cong) auto
  show ?thesis
    using assms by (auto simp: deleteRunCascade_def Let_def getRun_def find_run_def find_other run_events_def
        listObjects_def objects_other events_other insert_or_replace_def split: option.splits)
qed

section \<open>A concrete store, for the witnesses\<close>

definition demo_question :: object_input where
  "demo_question = \<lparr>oi_kind = ''question'', oi_json = JObj [(''id'', JStr ''q_1''), (''text'', JStr ''why'')], oi_createdAt = None\<rparr>"

definition demo_run :: research_run where
  "demo_run = new_run ''run_1'' ''q_1'' 0"

definition demo_store :: store where
  "demo_store = empty_store\<lparr>db_runs := [run_row_of demo_run 0]\<rparr>"

lemma demo_store_find: "find_run ''run_1'' demo_store = Some (run_row_of demo_run 0)"
  by (simp add: find_run_def demo_store_def run_row_of_def demo_run_def new_run_def)

lemma demo_store_get: "getRun ''run_1'' demo_store = Some demo_run"
  by (simp add: getRun_def demo_store_find) (simp add: run_row_of_def)

lemma demo_store_ok: "store_ok sha demo_store"
  unfolding demo_store_def
  using store_ok_insert_run [of sha empty_store "run_row_of demo_run 0"] empty_store_ok
  by (simp add: store_ok_def runs_ok_def new_run_row_ok demo_run_def new_run_def) (simp add: empty_store_def)

theorem lease_excludes_other_executors_witness:
  "getRunLease ''run_1'' (fold (run_lease.do_op ''run_1'') [(''b'', Inl (200, 50)), (''b'', Inr None)]
     (snd (acquire_at ''run_1'' ''a'' 100 0 demo_store))) = (Some ''a'', Some 100)"
proof -
  have "acquireLease ''run_1'' ''a'' 100 0 demo_store = Inr (True, snd (acquire_at ''run_1'' ''a'' 100 0 demo_store))"
    by (simp add: acquireLease_def acquire_at_def demo_store_find live_lease_def run_row_of_def)
  from lease_excludes_other_executors [OF this, of "[(''b'', Inl (200, 50)), (''b'', Inr None)]"] show ?thesis by simp
qed


theorem cancel_request_touches_only_the_flag_witness:
  "getRun ''run_1'' (snd (requestCancel ''run_1'' demo_store)) = Some (demo_run\<lparr>run_cancelRequested := True\<rparr>)"
  using cancel_request_touches_only_the_flag [OF _ demo_store_get] demo_store_ok [of id]
  by (simp add: store_ok_def demo_run_def new_run_def cancellable_def)

lemma forkRun_succeeds:
  assumes "getRun src db = Some source" "run_status source \<noteq> RunRunning" "run_status source \<noteq> RunQueued"
    and "freshId \<notin> rr_id ` set (db_runs db)" "freshId \<noteq> []" "run_id source \<noteq> []"
  shows "\<exists>fork db'. forkRun sha freshId src reason now db = Inr (fork, db')"
  using assms by (simp add: forkRun_def recordLineageEdge_def Let_def)

theorem fork_replays_source_witness:
  "\<exists>fork db'. forkRun toy_digest ''run_2'' ''run_1'' ''why not'' 5 demo_store = Inr (fork, db') \<and> getRun ''run_2'' db' = Some fork"
proof -
  obtain fork db' where f: "forkRun toy_digest ''run_2'' ''run_1'' ''why not'' 5 demo_store = Inr (fork, db')"
    using forkRun_succeeds [OF demo_store_get, of "''run_2''" toy_digest "''why not''" 5]
    by (auto simp: demo_run_def new_run_def demo_store_def run_row_of_def)
  have "runs_ok demo_store" using demo_store_ok [of id] by (simp add: store_ok_def)
  from fork_replays_source [OF this f] show ?thesis using f by (simp add: demo_store_def empty_store_def)
qed

theorem delete_cascade_complete_and_contained_witness:
  "getRun ''run_1'' (snd (the (deleteRunCascade ''run_1'' 5 demo_store))) = None"
proof -
  obtain c db' where d: "deleteRunCascade ''run_1'' 5 demo_store = Some (c, db')"
    by (simp add: deleteRunCascade_def demo_store_get Let_def)
  from delete_cascade_complete_and_contained [OF this] show ?thesis by (simp add: d)
qed

end
