(* ===== verification/Experiment_Queue.thy ===== *)
theory Experiment_Queue
  imports Store_Runs Scheduler
begin

text \<open>
  The two clients of the scheduler in \<^verbatim>\<open>src/src/experiment/scheduler.ts\<close>: the outbox drain, which hands
  intents recorded in the run store to the queue, and the worker loop. The two stores are separate
  databases: a crash can fall between any two of their writes.

  The executor of a claimed job is a parameter, as it is in the source (\<open>executeVia\<close>); while it runs,
  other processes and the heartbeat timer may change both stores, so it returns both.
\<close>

section \<open>Draining the outbox\<close>

definition intent_input :: "outbox_row \<Rightarrow> enqueue_input option" where
  "intent_input o' =
     (case (jstr ''experimentRunId'' (ox_payload o'), jstr ''runId'' (ox_payload o'), jstr ''specId'' (ox_payload o')) of
        (Some x, Some r, Some s) \<Rightarrow>
          Some \<lparr>ei_experimentRunId = x, ei_runId = r, ei_specId = s,
                ei_priority = (case jget ''priority'' (ox_payload o') of Some (JNum p) \<Rightarrow> Some p | _ \<Rightarrow> None),
                ei_device = jstr ''device'' (ox_payload o'), ei_intentId = Some (ox_intentId o')\<rparr>
      | _ \<Rightarrow> None)"

datatype drain_failure = UnknownKind id string | EnqueueThrew id

record drain_report =
  dr_drained :: nat
  dr_failed :: "drain_failure list"

fun drain_loop :: "instant \<Rightarrow> outbox_row list \<Rightarrow> drain_report \<Rightarrow> store \<Rightarrow> jobs \<Rightarrow> drain_report \<times> store \<times> jobs" where
  "drain_loop at [] rep db jobs = (rep, db, jobs)"
| "drain_loop at (o' # os) rep db jobs =
     (if ox_kind o' \<noteq> ''experiment_job''
      then drain_loop at os (rep\<lparr>dr_failed := dr_failed rep @ [UnknownKind (ox_intentId o') (ox_kind o')]\<rparr>) db jobs
      else case intent_input o' of
        None \<Rightarrow> drain_loop at os (rep\<lparr>dr_failed := dr_failed rep @ [EnqueueThrew (ox_intentId o')]\<rparr>) db jobs
      | Some inp \<Rightarrow>
          drain_loop at os (rep\<lparr>dr_drained := dr_drained rep + 1\<rparr>)
            (markOutboxDrained (ox_intentId o') at db) (snd (enqueue '''' inp at jobs)))"

definition drainOutbox :: "instant \<Rightarrow> store \<Rightarrow> jobs \<Rightarrow> drain_report \<times> store \<times> jobs" where
  "drainOutbox at db jobs = drain_loop at (pendingOutbox db) \<lparr>dr_drained = 0, dr_failed = []\<rparr> db jobs"

section \<open>The worker\<close>

record worker_opts =
  wo_worker :: string
  wo_maxRunning :: nat
  wo_heartbeatTtlMs :: int
  wo_maxJobs :: "nat option"
  wo_device :: "string option"

record worker_state =
  wk_db :: store
  wk_jobs :: jobs
  wk_executed :: nat
  wk_failed :: nat
  wk_taken :: nat

text \<open>An executor: the thrown message on the left, completion on the right, and both stores afterwards.\<close>

type_synonym executor = "scheduler_job \<Rightarrow> json \<Rightarrow> store \<times> jobs \<Rightarrow> (string + unit) \<times> store \<times> jobs"

definition run_claim :: "executor \<Rightarrow> claim \<Rightarrow> store \<times> jobs \<Rightarrow> (string + unit) \<times> store \<times> jobs" where
  "run_claim exec c w =
     (case getObject ''experiment_spec'' (jb_specId (cl_job c)) (fst w) of
        None \<Rightarrow> (Inl (''spec '' @ jb_specId (cl_job c) @ '' not found in far.db''), w)
      | Some spec \<Rightarrow> exec (cl_job c) spec w)"

definition worker_iteration ::
  "nat \<Rightarrow> executor \<Rightarrow> (nat \<Rightarrow> instant) \<Rightarrow> worker_opts \<Rightarrow> worker_state \<Rightarrow> worker_state option" where
  "worker_iteration maxAttempts exec clock opts w =
     (let n = wk_taken w in
      case claimNext maxAttempts (wo_worker opts) (wo_maxRunning opts) (wo_heartbeatTtlMs opts) (wo_device opts)
             (clock (2 * n)) (wk_jobs w) of
        (None, _, jobs') \<Rightarrow> None
      | (Some c, _, jobs') \<Rightarrow>
          (case run_claim exec c (wk_db w, jobs') of
             (Inr _, db2, jobs2) \<Rightarrow>
               Some (w\<lparr>wk_db := db2, wk_taken := n + 1, wk_executed := wk_executed w + 1,
                       wk_jobs := snd (complete (jb_jobId (cl_job c)) (wo_worker opts) (cl_fenceToken c) True None (clock (2 * n + 1)) jobs2)\<rparr>)
           | (Inl message, db2, jobs2) \<Rightarrow>
               Some (w\<lparr>wk_db := db2, wk_taken := n + 1, wk_failed := wk_failed w + 1,
                       wk_jobs := snd (complete (jb_jobId (cl_job c)) (wo_worker opts) (cl_fenceToken c) False (Some message) (clock (2 * n + 1)) jobs2)\<rparr>)))"

text \<open>The table after the last, empty-handed claim: a dead-lettered job is written even then.\<close>

definition after_claim :: "nat \<Rightarrow> (nat \<Rightarrow> instant) \<Rightarrow> worker_opts \<Rightarrow> worker_state \<Rightarrow> worker_state" where
  "after_claim maxAttempts clock opts w =
     w\<lparr>wk_jobs := snd (snd (claimNext maxAttempts (wo_worker opts) (wo_maxRunning opts) (wo_heartbeatTtlMs opts)
        (wo_device opts) (clock (2 * wk_taken w)) (wk_jobs w)))\<rparr>"

fun worker_loop ::
  "nat \<Rightarrow> nat \<Rightarrow> executor \<Rightarrow> (nat \<Rightarrow> instant) \<Rightarrow> worker_opts \<Rightarrow> worker_state \<Rightarrow> worker_state option" where
  "worker_loop 0 maxAttempts exec clock opts w = None"
| "worker_loop (Suc fuel) maxAttempts exec clock opts w =
     (if (case wo_maxJobs opts of None \<Rightarrow> False | Some m \<Rightarrow> wk_taken w \<ge> m) then Some w
      else case worker_iteration maxAttempts exec clock opts w of
        None \<Rightarrow> Some (after_claim maxAttempts clock opts w)
      | Some w' \<Rightarrow> worker_loop fuel maxAttempts exec clock opts w')"

definition runSchedulerWorker ::
  "nat \<Rightarrow> nat \<Rightarrow> executor \<Rightarrow> (nat \<Rightarrow> instant) \<Rightarrow> instant \<Rightarrow> worker_opts \<Rightarrow> store \<Rightarrow> jobs \<Rightarrow> worker_state option" where
  "runSchedulerWorker fuel maxAttempts exec clock now opts db jobs =
     (let (_, db1, jobs1) = drainOutbox now db jobs
      in worker_loop fuel maxAttempts exec clock opts
           \<lparr>wk_db = db1, wk_jobs = jobs1, wk_executed = 0, wk_failed = 0, wk_taken = 0\<rparr>)"

section \<open>What a drain does\<close>

definition drainable :: "outbox_row \<Rightarrow> bool" where
  "drainable o' \<longleftrightarrow> ox_kind o' = ''experiment_job'' \<and> intent_input o' \<noteq> None"

lemma intent_input_id: "intent_input o' = Some inp \<Longrightarrow> ei_intentId inp = Some (ox_intentId o')"
  by (auto simp: intent_input_def split: option.splits)

lemma enqueue_intent:
  assumes "ei_intentId inp = Some i"
  shows "get_job i (snd (enqueue f inp at jobs)) \<noteq> None"
    and "get_job j jobs = Some x \<Longrightarrow> get_job j (snd (enqueue f inp at jobs)) = Some x"
  using assms
  by (auto simp: enqueue_def Let_def get_job_def find_None_set image_iff find_append split: option.split)

lemma drain_loop_job:
  "drain_loop at os rep db jobs = (rep', db', jobs') \<Longrightarrow>
   (\<forall>j x. get_job j jobs = Some x \<longrightarrow> get_job j jobs' = Some x) \<and>
   (\<forall>o' \<in> set os. drainable o' \<longrightarrow> get_job (ox_intentId o') jobs' \<noteq> None)"
proof (induction at os rep db jobs rule: drain_loop.induct)
  case (2 at o' os rep db jobs)
  show ?case
  proof (cases "drainable o'")
    case True
    then obtain inp where inp: "ox_kind o' = ''experiment_job''" "intent_input o' = Some inp" by (auto simp: drainable_def)
    note id = intent_input_id [OF inp(2)]
    have rec: "drain_loop at os (rep\<lparr>dr_drained := dr_drained rep + 1\<rparr>) (markOutboxDrained (ox_intentId o') at db)
        (snd (enqueue [] inp at jobs)) = (rep', db', jobs')"
      using 2(4) inp by simp
    note IH = 2(3) [OF _ inp(2) rec]
    obtain x where "get_job (ox_intentId o') (snd (enqueue [] inp at jobs)) = Some x"
      using enqueue_intent(1) [OF id] by blast
    then have "get_job (ox_intentId o') jobs' = Some x" using IH inp(1) by auto
    with IH inp(1) enqueue_intent(2) [OF id, of _ jobs _ "[]" at] show ?thesis by auto
  next
    case False
    with 2 show ?thesis by (auto simp: drainable_def split: if_splits option.splits)
  qed
qed simp

lemma drain_loop_outbox:
  "drain_loop at os rep db jobs = (rep', db', jobs') \<Longrightarrow>
   db_outbox db' = map (\<lambda>x. if ox_drainedAt x = None \<and> ox_intentId x \<in> ox_intentId ` {o' \<in> set os. drainable o'}
     then x\<lparr>ox_drainedAt := Some at\<rparr> else x) (db_outbox db)"
proof (induction at os rep db jobs rule: drain_loop.induct)
  case (2 at o' os rep db jobs)
  show ?case
  proof (cases "drainable o'")
    case True
    then obtain inp where inp: "ox_kind o' = ''experiment_job''" "intent_input o' = Some inp" by (auto simp: drainable_def)
    have rec: "drain_loop at os (rep\<lparr>dr_drained := dr_drained rep + 1\<rparr>) (markOutboxDrained (ox_intentId o') at db)
        (snd (enqueue [] inp at jobs)) = (rep', db', jobs')"
      using 2(4) inp by simp
    have "{x \<in> set (o' # os). drainable x} = insert o' {x \<in> set os. drainable x}" using True by auto
    with 2(3) [OF _ inp(2) rec] inp(1) show ?thesis
      by (auto simp: markOutboxDrained_def sql_update_rows)
  next
    case False
    then have "{x \<in> set (o' # os). drainable x} = {x \<in> set os. drainable x}" by auto
    with 2 False show ?thesis by (auto simp: drainable_def split: if_splits option.splits)
  qed
qed (simp add: map_idI)
lemma drain_loop_idle:
  "drain_loop at os rep db jobs = (rep', db', jobs') \<Longrightarrow> \<forall>o' \<in> set os. \<not> drainable o' \<Longrightarrow>
   jobs' = jobs \<and> db' = db \<and> dr_drained rep' = dr_drained rep"
  by (induction at os rep db jobs rule: drain_loop.induct)
    (auto simp: drainable_def split: if_splits option.splits)

lemma drain_loop_distinct:
  "drain_loop at os rep db jobs = (rep', db', jobs') \<Longrightarrow> distinct (map jb_jobId jobs) \<Longrightarrow> distinct (map jb_jobId jobs')"
proof (induction at os rep db jobs rule: drain_loop.induct)
  case (2 at o' os rep db jobs)
  have "distinct (map jb_jobId (snd (enqueue f inp at jobs)))" for f inp
    using 2(5) by (simp add: enqueue_def Let_def)
  with 2 show ?case by (auto split: if_splits option.splits)
qed simp

lemma pendingOutbox_set: "set (pendingOutbox db) = {o' \<in> set (db_outbox db). ox_drainedAt o' = None}"
  by (auto simp: pendingOutbox_def)

section \<open>The worker loop ends\<close>

lemma worker_iteration_counts:
  "worker_iteration m exec clock opts w = Some w' \<Longrightarrow>
   wk_taken w' = wk_taken w + 1 \<and> wk_executed w' + wk_failed w' = wk_executed w + wk_failed w + 1"
  by (auto simp: worker_iteration_def Let_def split: prod.splits option.splits sum.splits)

lemma worker_loop_result:
  "wo_maxJobs opts = Some n \<Longrightarrow> n - wk_taken w < fuel \<Longrightarrow> wk_taken w \<le> n \<Longrightarrow>
   wk_executed w + wk_failed w = wk_taken w \<Longrightarrow>
   \<exists>w'. worker_loop fuel m exec clock opts w = Some w' \<and> wk_executed w' + wk_failed w' = wk_taken w' \<and> wk_taken w' \<le> n"
proof (induction fuel arbitrary: w)
  case (Suc fuel)
  show ?case
  proof (cases "wk_taken w \<ge> n")
    case False
    show ?thesis
    proof (cases "worker_iteration m exec clock opts w")
      case None
      with Suc.prems False show ?thesis by (simp add: after_claim_def)
    next
      case (Some w')
      with worker_iteration_counts [OF Some] Suc.prems Suc.IH [of w'] False show ?thesis by simp
    qed
  qed (use Suc.prems in simp)
qed simp

section \<open>Properties\<close>

text \<open>C26. No accepted experiment is lost or duplicated: draining the outbox leaves every well-formed pending
  intent with a job of that very id and no well-formed intent pending, never touches a job that was
  already there, and draining again (after a crash between the two stores, or twice) adds nothing.\<close>

theorem outbox_drain_exactly_once:
  assumes "drainOutbox at db jobs = (rep, db', jobs')"
  shows "(\<forall>o' \<in> set (pendingOutbox db). drainable o' \<longrightarrow> get_job (ox_intentId o') jobs' \<noteq> None) \<and>
    (\<forall>j x. get_job j jobs = Some x \<longrightarrow> get_job j jobs' = Some x) \<and>
    (\<forall>o' \<in> set (pendingOutbox db'). \<not> drainable o') \<and>
    (\<forall>at2. snd (drainOutbox at2 db' jobs') = (db', jobs')) \<and>
    (\<forall>j. distinct (map jb_jobId jobs) \<longrightarrow> length (filter (\<lambda>x. jb_jobId x = j) jobs') \<le> 1)"
proof -
  have loop: "drain_loop at (pendingOutbox db) \<lparr>dr_drained = 0, dr_failed = []\<rparr> db jobs = (rep, db', jobs')"
    using assms by (simp add: drainOutbox_def)
  note out = drain_loop_outbox [OF loop]
  have idle: "\<forall>o' \<in> set (pendingOutbox db'). \<not> drainable o'"
    unfolding pendingOutbox_set out by (auto simp: pendingOutbox_set split: if_splits)
  have again: "snd (drainOutbox at2 db' jobs') = (db', jobs')" for at2
    using drain_loop_idle [OF _ idle, of at2 "\<lparr>dr_drained = 0, dr_failed = []\<rparr>" db' jobs'] unfolding drainOutbox_def
    by (metis prod.collapse)
  note dist = drain_loop_distinct [OF loop]
  have "length (filter (\<lambda>x. jb_jobId x = j) jobs') \<le> 1" if "distinct (map jb_jobId jobs)" for j
    using dist [OF that] filter_unique_length [of jb_jobId jobs' _ "\<lambda>_. True"]
    by (cases "\<exists>x \<in> set jobs'. jb_jobId x = j") (auto simp: filter_empty_conv)
  with drain_loop_job [OF loop] idle again show ?thesis by blast
qed

text \<open>A worker with a job limit always returns: with any executor, whatever happens to the stores while
  jobs run, the loop ends within the limit, and every claimed job is counted exactly once, as executed
  or as failed.\<close>

theorem worker_returns_and_accounts:
  assumes "wo_maxJobs opts = Some n" "n < fuel"
  shows "\<exists>w. runSchedulerWorker fuel m exec clock now opts db jobs = Some w \<and>
    wk_executed w + wk_failed w = wk_taken w \<and> wk_taken w \<le> n"
proof -
  obtain rep db1 jobs1 where d: "drainOutbox now db jobs = (rep, db1, jobs1)" by (cases "drainOutbox now db jobs") auto
  show ?thesis
    unfolding runSchedulerWorker_def d Let_def prod.case using assms by (intro worker_loop_result) auto
qed

theorem worker_returns_and_accounts_witness:
  "\<exists>w. runSchedulerWorker 3 5 (\<lambda>j spec w. (Inr (), w)) (\<lambda>n. int n) 0
     \<lparr>wo_worker = ''w'', wo_maxRunning = 1, wo_heartbeatTtlMs = 10, wo_maxJobs = Some 2, wo_device = None\<rparr>
     empty_store [demo_job] = Some w \<and> wk_executed w + wk_failed w = wk_taken w"
  using worker_returns_and_accounts [of "\<lparr>wo_worker = ''w'', wo_maxRunning = 1, wo_heartbeatTtlMs = 10,
      wo_maxJobs = Some 2, wo_device = None\<rparr>" 2 3 5 "\<lambda>j spec w. (Inr (), w)" "\<lambda>n. int n" 0 empty_store "[demo_job]"]
  by auto

theorem outbox_drain_exactly_once_witness:
  "get_job ''job_7'' (snd (snd (drainOutbox 3 (recordOutbox ''job_7'' ''experiment_job''
      (JObj [(''experimentRunId'', JStr ''x''), (''runId'', JStr ''r''), (''specId'', JStr ''s'')]) 1 empty_store) []))) \<noteq> None"
proof -
  let ?o = "\<lparr>ox_intentId = ''job_7'', ox_kind = ''experiment_job'', ox_payload = JObj [(''experimentRunId'', JStr ''x''),
      (''runId'', JStr ''r''), (''specId'', JStr ''s'')], ox_createdAt = 1, ox_drainedAt = None\<rparr>"
  let ?db = "recordOutbox ''job_7'' ''experiment_job''
      (JObj [(''experimentRunId'', JStr ''x''), (''runId'', JStr ''r''), (''specId'', JStr ''s'')]) 1 empty_store"
  have "?o \<in> set (pendingOutbox ?db)"
    by (simp add: pendingOutbox_set recordOutbox_def insert_or_ignore_def empty_store_def)
  moreover have "drainable ?o" by (simp add: drainable_def intent_input_def jstr_def jget_def)
  ultimately show ?thesis
    using outbox_drain_exactly_once [of 3 ?db "[]"] by (metis prod.collapse outbox_row.select_convs(1))
qed

end
