(* ===== verification/Kernel_Control.thy ===== *)
theory Kernel_Control
  imports Workflow_Plan Store_Runs
begin

text \<open>
  The kernel's control plane: the checkpoint of \<^verbatim>\<open>src/src/domain/kernel-control.ts\<close> (phases, the choice
  of the next best action, the control state) and the deterministic planner of
  \<^verbatim>\<open>src/src/kernel/planner.ts\<close>, which inserts one adversarial debate step into the plan of a contested
  problem.
\<close>

section \<open>Control state\<close>

datatype kernel_phase =
  Ph_observe | Ph_understand | Ph_model | Ph_identify_uncertainty | Ph_reason | Ph_select_action
| Ph_act | Ph_update_belief | Ph_replan | Ph_converged | Ph_blocked | Ph_cancelled

fun phase_str :: "kernel_phase \<Rightarrow> string" where
  "phase_str Ph_observe = ''observe''"
| "phase_str Ph_understand = ''understand''"
| "phase_str Ph_model = ''model''"
| "phase_str Ph_identify_uncertainty = ''identify_uncertainty''"
| "phase_str Ph_reason = ''reason''"
| "phase_str Ph_select_action = ''select_action''"
| "phase_str Ph_act = ''act''"
| "phase_str Ph_update_belief = ''update_belief''"
| "phase_str Ph_replan = ''replan''"
| "phase_str Ph_converged = ''converged''"
| "phase_str Ph_blocked = ''blocked''"
| "phase_str Ph_cancelled = ''cancelled''"

datatype information_gain = Gain_high | Gain_medium | Gain_low | Gain_unknown

fun gain_str :: "information_gain \<Rightarrow> string" where
  "gain_str Gain_high = ''high''"
| "gain_str Gain_medium = ''medium''"
| "gain_str Gain_low = ''low''"
| "gain_str Gain_unknown = ''unknown''"

record action_candidate =
  ac_kind :: string
  ac_rationale :: string
  ac_gain :: "information_gain option"
  ac_priority :: "int option"

fun gain_bonus :: "information_gain option \<Rightarrow> int" where
  "gain_bonus (Some Gain_high) = 3"
| "gain_bonus (Some Gain_medium) = 2"
| "gain_bonus (Some Gain_low) = 1"
| "gain_bonus _ = 0"

definition mentions :: "string list \<Rightarrow> string \<Rightarrow> bool" where
  "mentions words kind \<longleftrightarrow> list_ex (contains (map to_lower kind)) words"

definition informationBonus :: "int \<Rightarrow> int \<Rightarrow> action_candidate \<Rightarrow> int" where
  "informationBonus unknownCount competing c =
     gain_bonus (ac_gain c)
     + (if unknownCount > 0 \<and> mentions [''uncert'', ''retrieve'', ''evidence''] (ac_kind c) then 1 else 0)
     + (if competing > 1 \<and> mentions [''experiment'', ''falsif'', ''counter'', ''discriminat''] (ac_kind c) then 1 else 0)"

text \<open>\<open>localeCompare\<close> depends on the runtime's locale data and is the parameter \<open>cmp\<close>. The head of a
  sorted array is the first element no other element goes before.\<close>

definition compare_actions :: "(string \<Rightarrow> string \<Rightarrow> int) \<Rightarrow> int \<Rightarrow> int \<Rightarrow> action_candidate \<Rightarrow> action_candidate \<Rightarrow> int" where
  "compare_actions cmp u h a b =
     (let p = (\<lambda>c. case ac_priority c of Some x \<Rightarrow> x | None \<Rightarrow> 0);
          d1 = p b - p a; d2 = informationBonus u h b - informationBonus u h a
      in if d1 \<noteq> 0 then d1 else if d2 \<noteq> 0 then d2 else cmp (ac_kind a) (ac_kind b))"

definition selectNextBestAction ::
  "(string \<Rightarrow> string \<Rightarrow> int) \<Rightarrow> action_candidate list \<Rightarrow> int \<Rightarrow> int \<Rightarrow> action_candidate option" where
  "selectNextBestAction cmp candidates u h =
     (case candidates of [] \<Rightarrow> None
      | c # cs \<Rightarrow> Some (foldl (\<lambda>best x. if compare_actions cmp u h x best < 0 then x else best) c cs))"

record control_input =
  ki_id :: id
  ki_runId :: id
  ki_version :: nat
  ki_phase :: kernel_phase
  ki_cap :: "int option"
  ki_spent :: int
  ki_attempts :: nat
  ki_completionSatisfied :: bool
  ki_noChange :: nat
  ki_cancelRequested :: bool
  ki_lastAction :: "string option"
  ki_nextAction :: "action_candidate option"
  ki_sourceObjectIds :: "id list"
  ki_eventCount :: nat

text \<open>A \<open>null\<close> member is written, unlike an undefined one.\<close>

definition null_json :: "('a \<Rightarrow> json) \<Rightarrow> 'a option \<Rightarrow> json" where
  "null_json f x = (case x of None \<Rightarrow> JNull | Some a \<Rightarrow> f a)"

definition stuck_detected :: "nat \<Rightarrow> bool" where
  "stuck_detected noChange \<longleftrightarrow> noChange \<ge> 3"

definition nextAction_json :: "action_candidate option \<Rightarrow> json" where
  "nextAction_json next = null_json (\<lambda>a. JObj [(''kind'', JStr (ac_kind a)), (''rationale'', JStr (ac_rationale a)),
     (''expectedInformationGain'', JStr (gain_str (case ac_gain a of Some g \<Rightarrow> g | None \<Rightarrow> Gain_unknown)))]) next"

definition makeKernelControlState :: "control_input \<Rightarrow> instant \<Rightarrow> json" where
  "makeKernelControlState i now = JObj
     [(''id'', JStr (ki_id i)), (''runId'', JStr (ki_runId i)), (''version'', JNum (int (ki_version i))),
      (''phase'', JStr (phase_str (ki_phase i))),
      (''budget'', JObj [(''cap'', null_json JNum (ki_cap i)), (''spent'', JNum (ki_spent i)),
         (''remaining'', null_json (\<lambda>cap. JNum (max 0 (cap - ki_spent i))) (ki_cap i))]),
      (''attempts'', JNum (int (ki_attempts i))), (''attemptLimit'', JNum 64),
      (''completion'', JObj [(''predicate'', JStr ''all_required_actions_terminal_and_world_model_stable''),
         (''satisfied'', JBool (ki_completionSatisfied i))]),
      (''stuck'', JObj [(''detected'', JBool (stuck_detected (ki_noChange i))),
         (''consecutiveNoChange'', JNum (int (ki_noChange i))), (''threshold'', JNum 3)]),
      (''cancellation'', JObj [(''requested'', JBool (ki_cancelRequested i)), (''acknowledged'', JBool False)]),
      (''checkpoint'', JObj [(''lastAction'', null_json JStr (ki_lastAction i)),
         (''lastCompletedAt'', (if ki_lastAction i = None \<or> ki_lastAction i = Some [] then JNull else JStr (iso now)))]),
      (''nextAction'', nextAction_json (ki_nextAction i)),
      (''provenance'', JObj [(''sourceObjectIds'', JArr (map JStr (ki_sourceObjectIds i))),
         (''eventCount'', JNum (int (ki_eventCount i))), (''updatedAt'', JStr (iso now))])]"

text \<open>What the next checkpoint reads of the last one.\<close>

definition jnat :: "string \<Rightarrow> json \<Rightarrow> nat option" where
  "jnat k v = (case jget k v of Some (JNum n) \<Rightarrow> Some (nat n) | _ \<Rightarrow> None)"

definition prior_nextKind :: "json option \<Rightarrow> string option" where
  "prior_nextKind prior = Option.bind prior (\<lambda>p. Option.bind (jget ''nextAction'' p) (jstr ''kind''))"

definition prior_noChange :: "json option \<Rightarrow> nat" where
  "prior_noChange prior =
     (case Option.bind prior (\<lambda>p. Option.bind (jget ''stuck'' p) (jnat ''consecutiveNoChange'')) of Some n \<Rightarrow> n | None \<Rightarrow> 0)"

definition prior_nat :: "string \<Rightarrow> json option \<Rightarrow> nat" where
  "prior_nat k prior = (case Option.bind prior (jnat k) of Some n \<Rightarrow> n | None \<Rightarrow> 0)"

section \<open>Contestedness\<close>

definition RELATION_POLARITY_counter :: "string \<Rightarrow> bool" where
  "RELATION_POLARITY_counter rel \<longleftrightarrow> rel \<in> set [''contradicts'', ''weakens'', ''fails_to_replicate'', ''alternative_explanation'']"

definition counterTargetKey :: "json \<Rightarrow> string option" where
  "counterTargetKey r =
     (case jstr ''targetHypothesisId'' r of Some t \<Rightarrow> Some t
      | None \<Rightarrow> (case jstr ''targetClaimId'' r of Some t \<Rightarrow> Some t | None \<Rightarrow> jstr ''claimId'' r))"

record contestedness_verdict =
  cv_contested :: bool
  cv_hasProblemModel :: bool
  cv_governingRelations :: nat
  cv_causalClaims :: nat
  cv_counterRelations :: nat
  cv_counterTargets :: nat
  cv_signals :: "string list"

definition array_length :: "string \<Rightarrow> string \<Rightarrow> json option \<Rightarrow> nat" where
  "array_length outer inner pm =
     (case Option.bind pm (\<lambda>p. Option.bind (jget outer p) (jget inner)) of Some (JArr xs) \<Rightarrow> length xs | _ \<Rightarrow> 0)"

definition contestednessOf :: "store \<Rightarrow> id \<Rightarrow> contestedness_verdict" where
  "contestednessOf db runId =
     (let pm = at_last (listObjects ''problem_model'' runId db);
          governing = array_length ''formalization'' ''governingRelations'' pm;
          causal = array_length ''statisticalPremises'' ''causalClaims'' pm;
          counter = filter (\<lambda>r. case jstr ''relation'' r of Some rel \<Rightarrow> RELATION_POLARITY_counter rel | None \<Rightarrow> False)
            (listObjects ''evidence_relation'' runId db);
          targets = length (remdups_first (List.map_filter counterTargetKey counter));
          signals = (if governing \<ge> 2 then [''problem_model.governing_relations''] else []) @
            (if causal \<ge> 2 then [''problem_model.causal_claims''] else []) @
            (if targets \<ge> 2 then [''evidence.counter_relations''] else [])
      in \<lparr>cv_contested = (signals \<noteq> []), cv_hasProblemModel = (pm \<noteq> None), cv_governingRelations = governing,
          cv_causalClaims = causal, cv_counterRelations = length counter, cv_counterTargets = targets, cv_signals = signals\<rparr>)"

section \<open>The plan revision\<close>

definition is_rank_step :: "workflow_step \<Rightarrow> bool" where
  "is_rank_step s \<longleftrightarrow> ws_target s = StageTarget Rank"

definition debate_id :: "workflow_plan \<Rightarrow> id" where
  "debate_id p = ''debate-'' @ str_of_nat (wp_version p + 1)"

definition debate_step :: "workflow_plan \<Rightarrow> id \<Rightarrow> workflow_step" where
  "debate_step p rankId =
     \<lparr>ws_id = debate_id p, ws_after = [rankId], ws_attemptCap = 1, ws_target = AgentTarget ''counter-evidence-debate''\<rparr>"

definition with_debate :: "workflow_plan \<Rightarrow> nat \<Rightarrow> workflow_step list" where
  "with_debate p i =
     (let steps = take (Suc i) (wp_steps p) @ [debate_step p (ws_id (wp_steps p ! i))] @ drop (Suc i) (wp_steps p)
      in if i + 2 < length steps then steps[i + 2 := (steps ! (i + 2))\<lparr>ws_after := [debate_id p]\<rparr>] else steps)"

definition revised_plan :: "workflow_plan \<Rightarrow> nat \<Rightarrow> instant \<Rightarrow> workflow_plan" where
  "revised_plan p i at =
     p\<lparr>wp_id := wp_id p @ ''-v'' @ str_of_nat (wp_version p + 1), wp_version := wp_version p + 1,
       wp_origin := Origin_kernel, wp_createdAt := at, wp_revisedFrom := Some (wp_id p), wp_steps := with_debate p i\<rparr>"

definition kernelPlanRevisionFor ::
  "store \<Rightarrow> id \<Rightarrow> workflow_plan \<Rightarrow> instant \<Rightarrow> plan_issue list + workflow_plan option" where
  "kernelPlanRevisionFor db runId p at =
     (if wp_origin p \<noteq> Origin_default then Inr None
      else if list_ex (\<lambda>s. is_agent (ws_target s)) (wp_steps p) then Inr None
      else if \<not> cv_contested (contestednessOf db runId) then Inr None
      else case find_index is_rank_step (wp_steps p) of
             None \<Rightarrow> Inr None
           | Some i \<Rightarrow>
               if i + 1 = length (wp_steps p) then Inr None
               else map_sum id Some (parse_plan (revised_plan p i at)))"


section \<open>Properties of the revision\<close>

definition debate_steps :: "workflow_step list" where
  "debate_steps = with_debate (default_plan [] 0) 6"

lemma with_debate_default: "with_debate (default_plan runId at) 6 = debate_steps"
  unfolding debate_steps_def by (simp add: with_debate_def debate_step_def debate_id_def default_plan_def)

lemma debate_steps_ok:
  "concat (map step_shape_issues debate_steps) = []" "debate_steps \<noteq> []"
  "duplicate_issues {} debate_steps = []" "dependency_issues debate_steps = []" "cycle_issues debate_steps = []"
  by code_simp+

lemma default_steps_facts:
  "find_index is_rank_step default_steps = Some 6" "length default_steps = 12"
  "\<not> list_ex (\<lambda>s. is_agent (ws_target s)) default_steps"
  by code_simp+

lemma revised_default_valid:
  assumes "runId \<noteq> []"
  shows "parse_plan (revised_plan (default_plan runId at0) 6 at) = Inr (revised_plan (default_plan runId at0) 6 at)"
proof -
  let ?p = "revised_plan (default_plan runId at0) 6 at"
  have steps: "wp_steps ?p = debate_steps" by (simp add: revised_plan_def with_debate_default)
  have "plan_shape_issues ?p = []"
    using assms by (simp add: plan_shape_issues_def steps debate_steps_ok(1,2)) (simp add: revised_plan_def default_plan_def)
  moreover have "refine_issues ?p = []" by (simp add: refine_issues_def steps debate_steps_ok)
  ultimately show ?thesis by (simp add: parse_plan_def)
qed


lemma debate_steps_chain: "chain debate_steps"
proof -
  have "\<forall>i \<in> set [0..<13]. ws_after (debate_steps ! i) = (if i = 0 then [] else [ws_id (debate_steps ! (i - 1))])"
    unfolding debate_steps_def by code_simp
  moreover have "length debate_steps = 13" "distinct (map ws_id debate_steps)" unfolding debate_steps_def by code_simp+
  ultimately show ?thesis by (auto simp: chain_def)
qed

lemma debate_steps_targets:
  "map ws_target debate_steps =
     map StageTarget (take 7 STAGE_ORDER) @ [AgentTarget ''counter-evidence-debate''] @ map StageTarget (drop 7 STAGE_ORDER)"
  by code_simp

text \<open>The first of two candidates with different priorities is the one with the higher priority.\<close>

lemma selectNextBestAction_head:
  assumes "\<And>x. x \<in> set cs \<Longrightarrow> ac_priority x = Some (q x) \<and> q x < p" and "ac_priority c = Some p"
  shows "selectNextBestAction cmp (c # cs) u h = Some c"
proof -
  have "foldl (\<lambda>best x. if compare_actions cmp u h x best < 0 then x else best) c cs = c"
    using assms(1)
  proof (induction cs)
    case (Cons x xs)
    have "ac_priority x = Some (q x)" "q x < p" using Cons.prems [of x] by simp_all
    then have "\<not> compare_actions cmp u h x c < 0" using assms(2) by (simp add: compare_actions_def Let_def)
    with Cons show ?case by simp
  qed simp
  then show ?thesis by (simp add: selectNextBestAction_def)
qed

text \<open>The kernel's plan revision is sound, minimal and happens once: for the default plan of a run
  it never throws, it revises exactly when the run's problem model or evidence layer is contested, the
  revised plan validates, keeps the twelve stages in their order as a dependency chain with the debate
  step directly between \<open>rank\<close> and \<open>plan\<close>, and revising the revised plan does nothing, whatever the store
  holds by then.\<close>

theorem kernel_revision_sound:
  assumes "runId \<noteq> []"
  shows "kernelPlanRevisionFor db runId (default_plan runId at0) at =
      Inr (if cv_contested (contestednessOf db runId) then Some (revised_plan (default_plan runId at0) 6 at) else None) \<and>
    valid_plan (revised_plan (default_plan runId at0) 6 at) \<and>
    map ws_target (wp_steps (revised_plan (default_plan runId at0) 6 at)) =
      map StageTarget (take 7 STAGE_ORDER) @ [AgentTarget ''counter-evidence-debate''] @ map StageTarget (drop 7 STAGE_ORDER) \<and>
    chain (wp_steps (revised_plan (default_plan runId at0) 6 at)) \<and>
    kernelPlanRevisionFor db' runId (revised_plan (default_plan runId at0) 6 at) at' = Inr None"
proof -
  have origin: "wp_origin (default_plan runId at0) = Origin_default" by (simp add: default_plan_def)
  have "kernelPlanRevisionFor db runId (default_plan runId at0) at =
      Inr (if cv_contested (contestednessOf db runId) then Some (revised_plan (default_plan runId at0) 6 at) else None)"
    by (simp add: kernelPlanRevisionFor_def origin default_steps_facts revised_default_valid [OF assms])
  moreover have "wp_steps (revised_plan (default_plan runId at0) 6 at) = debate_steps"
    by (simp add: revised_plan_def with_debate_default)
  moreover have "kernelPlanRevisionFor db' runId (revised_plan (default_plan runId at0) 6 at) at' = Inr None"
    by (simp add: kernelPlanRevisionFor_def revised_plan_def)
  ultimately show ?thesis
    by (simp add: valid_plan_def revised_default_valid [OF assms] debate_steps_chain debate_steps_targets)
qed

definition contested_store :: store where
  "contested_store = empty_store\<lparr>db_objects := [
     \<lparr>ob_kind = ''evidence_relation'', ob_id = ''er_1'', ob_runId = ''run_1'',
      ob_json = JObj [(''relation'', JStr ''contradicts''), (''claimId'', JStr ''c1'')], ob_createdAt = 1\<rparr>,
     \<lparr>ob_kind = ''evidence_relation'', ob_id = ''er_2'', ob_runId = ''run_1'',
      ob_json = JObj [(''relation'', JStr ''weakens''), (''targetHypothesisId'', JStr ''h2''), (''claimId'', JStr ''c1'')], ob_createdAt = 2\<rparr>]\<rparr>"

theorem kernel_revision_sound_witness:
  "kernelPlanRevisionFor contested_store ''run_1'' (default_plan ''run_1'' 0) 5 =
     Inr (Some (revised_plan (default_plan ''run_1'' 0) 6 5)) \<and>
   cv_signals (contestednessOf contested_store ''run_1'') = [''evidence.counter_relations'']"
proof -
  have "cv_contested (contestednessOf contested_store ''run_1'')"
    "cv_signals (contestednessOf contested_store ''run_1'') = [''evidence.counter_relations'']"
    unfolding contested_store_def by code_simp+
  then show ?thesis using kernel_revision_sound [of "''run_1''" contested_store 0 5] by simp
qed

end
