(* ===== verification/Orch_Base.thy ===== *)
theory Orch_Base
  imports Kernel_Control Run_Budget
begin

text \<open>
  The ground the orchestrator of \<^verbatim>\<open>src/src/app/orchestrator.ts\<close> stands on: asynchronous, throwing
  computations over the process state, the fenced run transition, and the context operations a stage
  handler is given (receipts, progress, step checkpoints, cancellation).

  A computation maps the world to an exception or a value, and a new world. The world is the shared
  store with the process state of the executor: the in-memory cancel signals, the wire-level abort
  controllers, the budget view of the execution, and a tick that counts clock readings. What happens
  while the program awaits a stage handler or an agent, other processes writing the same store
  included, is part of that computation's effect; the statements between two awaits run uninterrupted.
\<close>

section \<open>Computations\<close>

datatype exn = BudgetExhausted string | LeaseLost id | LeaseHeld id string | Failure string

fun exn_message :: "exn \<Rightarrow> string" where
  "exn_message (BudgetExhausted m) = m"
| "exn_message (LeaseLost runId) = ''run lease lost: '' @ runId @ '' was adopted by another executor after lease expiry''"
| "exn_message (LeaseHeld runId holder) =
     ''run '' @ runId @ '' lease held by live executor '' @ holder @ '' '' @ emdash @ '' one executor per run''"
| "exn_message (Failure m) = m"

record world =
  w_db :: store
  w_signal :: "id \<Rightarrow> bool"
  w_wire :: "id \<rightharpoonup> bool"
  w_budget :: run_budget
  w_tick :: nat

type_synonym 'a comp = "world \<Rightarrow> (exn + 'a) \<times> world"

definition returnE :: "'a \<Rightarrow> 'a comp" where
  "returnE a w = (Inr a, w)"

definition throwE :: "exn \<Rightarrow> 'a comp" where
  "throwE e w = (Inl e, w)"

definition doE :: "(world \<Rightarrow> world) \<Rightarrow> unit comp" where
  "doE f w = (Inr (), f w)"

definition bindE :: "'a comp \<Rightarrow> ('a \<Rightarrow> 'b comp) \<Rightarrow> 'b comp" where
  "bindE m f w = (case m w of (Inl e, w') \<Rightarrow> (Inl e, w') | (Inr a, w') \<Rightarrow> f a w')"

definition thenE :: "'a comp \<Rightarrow> 'b comp \<Rightarrow> 'b comp" where
  "thenE m k = bindE m (\<lambda>_. k)"

definition catchE :: "'a comp \<Rightarrow> (exn \<Rightarrow> 'a comp) \<Rightarrow> 'a comp" where
  "catchE m h w = (case m w of (Inl e, w') \<Rightarrow> h e w' | (Inr a, w') \<Rightarrow> (Inr a, w'))"

definition finallyE :: "'a comp \<Rightarrow> (world \<Rightarrow> world) \<Rightarrow> 'a comp" where
  "finallyE m f w = (case m w of (r, w') \<Rightarrow> (r, f w'))"

definition readE :: "(world \<Rightarrow> 'a) \<Rightarrow> 'a comp" where
  "readE f w = (Inr (f w), w)"

definition whenE :: "bool \<Rightarrow> unit comp \<Rightarrow> unit comp" where
  "whenE b m = (if b then m else returnE ())"

lemmas comp_defs = returnE_def throwE_def doE_def bindE_def thenE_def catchE_def finallyE_def readE_def whenE_def

section \<open>Dependencies\<close>

datatype applicability = Applicable | NotApplicable "string option"

datatype stage_outcome = OutDone string | OutSkipped string

record stage_handler =
  sh_applicable :: "research_run \<Rightarrow> applicability comp"
  sh_execute :: "research_run \<Rightarrow> stage_outcome comp"

record capability_result =
  ca_ok :: bool
  ca_status :: string
  ca_turns :: nat
  ca_reportId :: "id option"
  ca_materialized :: "nat option"
  ca_error :: "string option"

record quality_signal =
  qs_weak :: bool
  qs_metrics :: json
  qs_reasons :: json
  qs_weakDimensions :: json

record iteration_decision =
  it_continue :: bool
  it_reopenStages :: "run_stage_name list"
  it_record :: json

text \<open>
  What the orchestrator is composed with. The stage handlers, the kernel plane, the artifact reader
  and the deterministic evaluators it consults (quality gate, supervisor, iteration controller, memory
  consolidation) are functions it calls; \<open>od_clock\<close> and \<open>od_newId\<close> give the readings of the clock and
  the identifiers in the order they are asked for.
\<close>

record deps =
  od_sha :: "string \<Rightarrow> string"
  od_clock :: "nat \<Rightarrow> instant"
  od_newId :: "string \<Rightarrow> nat \<Rightarrow> id"
  od_localeCompare :: "string \<Rightarrow> string \<Rightarrow> int"
  od_holder :: string
  od_leaseTtl :: int
  od_cap :: "int option"
  od_receiptOf :: "json \<Rightarrow> receipt"
  od_planOf :: "json \<Rightarrow> workflow_plan"
  od_stages :: "run_stage_name \<Rightarrow> stage_handler option"
  od_kernelPlane :: "(string \<Rightarrow> capability_result comp) option"
  od_bundleTainted :: "json \<Rightarrow> bool"
  od_qualityGate :: "store \<Rightarrow> id \<Rightarrow> quality_signal"
  od_supervise :: "store \<Rightarrow> id \<Rightarrow> json list"
  od_evaluateIteration :: "store \<Rightarrow> id \<Rightarrow> nat \<Rightarrow> run_budget \<Rightarrow> instant \<Rightarrow> iteration_decision"
  od_consolidate :: "id \<Rightarrow> (nat \<times> nat) comp"

definition now :: "deps \<Rightarrow> world \<Rightarrow> instant" where
  "now d w = od_clock d (w_tick w)"

definition tick :: "world \<Rightarrow> world" where
  "tick w = w\<lparr>w_tick := Suc (w_tick w)\<rparr>"

definition on_db :: "(store \<Rightarrow> store) \<Rightarrow> world \<Rightarrow> world" where
  "on_db f w = w\<lparr>w_db := f (w_db w)\<rparr>"

definition eventE :: "deps \<Rightarrow> id \<Rightarrow> event_input \<Rightarrow> unit comp" where
  "eventE d runId e = doE (\<lambda>w. tick (on_db (appendEvent (od_sha d) runId e (now d w)) w))"

definition noteE :: "deps \<Rightarrow> id \<Rightarrow> (string \<times> json) list \<Rightarrow> unit comp" where
  "noteE d runId detail = eventE d runId (plain_event E_note detail)"

definition stage_note :: "run_stage_name \<Rightarrow> (string \<times> json) list \<Rightarrow> event_input" where
  "stage_note stage detail = (plain_event E_note detail)\<lparr>ev_stage := Some (stage_str stage)\<rparr>"

definition putObjectE :: "deps \<Rightarrow> string \<Rightarrow> json \<Rightarrow> unit comp" where
  "putObjectE d kind payload w =
     (case putObject \<lparr>oi_kind = kind, oi_json = payload, oi_createdAt = None\<rparr> (now d w) (w_db w) of
        Inl _ \<Rightarrow> (Inl (Failure (''object of kind '' @ kind @ '' has neither id nor revisionId '' @ emdash @ '' cannot persist'')), tick w)
      | Inr db \<Rightarrow> (Inr (), tick (w\<lparr>w_db := db\<rparr>)))"

section \<open>Transitions\<close>

definition holds_lease :: "string option \<Rightarrow> id \<Rightarrow> store \<Rightarrow> bool" where
  "holds_lease lease runId db \<longleftrightarrow> (case lease of None \<Rightarrow> True | Some h \<Rightarrow> fst (getRunLease runId db) = Some h)"

definition renew :: "deps \<Rightarrow> string option \<Rightarrow> id \<Rightarrow> world \<Rightarrow> world" where
  "renew d lease runId w =
     (case lease of None \<Rightarrow> w | Some h \<Rightarrow> tick (on_db (renewLease runId h (now d w + od_leaseTtl d)) w))"

definition transition :: "deps \<Rightarrow> id \<Rightarrow> (research_run \<Rightarrow> research_run comp) \<Rightarrow> string option \<Rightarrow> research_run comp" where
  "transition d runId fn lease w =
     (if \<not> holds_lease lease runId (w_db w) then (Inl (LeaseLost runId), w)
      else case getRun runId (w_db w) of
        None \<Rightarrow> (Inl (Failure (''run not found: '' @ runId)), w)
      | Some run \<Rightarrow>
          (case fn run w of
             (Inl e, w1) \<Rightarrow> (Inl e, w1)
           | (Inr next, w1) \<Rightarrow>
               if \<not> holds_lease lease runId (w_db w1) then (Inl (LeaseLost runId), w1)
               else
                 (let next' = next\<lparr>run_updatedAt := now d w1\<rparr>; w2 = tick w1 in
                  case updateRun next' (now d w2) (w_db w2) of
                    Inl _ \<Rightarrow> (Inl (Failure (''run not found: '' @ run_id next')), tick w2)
                  | Inr db \<Rightarrow> (Inr next', renew d lease runId ((tick w2)\<lparr>w_db := db\<rparr>)))))"

text \<open>Every transition function of the program is a synchronous edit of the fresh run document; some
  read the clock while editing.\<close>

definition edit :: "(research_run \<Rightarrow> research_run) \<Rightarrow> research_run \<Rightarrow> research_run comp" where
  "edit f run = returnE (f run)"

definition edit_at :: "deps \<Rightarrow> (instant \<Rightarrow> research_run \<Rightarrow> research_run) \<Rightarrow> research_run \<Rightarrow> research_run comp" where
  "edit_at d f run w = (Inr (f (now d w) run), tick w)"

definition on_stage :: "run_stage_name \<Rightarrow> (stage_record \<Rightarrow> stage_record) \<Rightarrow> research_run \<Rightarrow> research_run" where
  "on_stage stage f run = run\<lparr>run_stages := update_first (\<lambda>r. sr_stage r = stage) f (run_stages run)\<rparr>"

definition setStage ::
  "run_stage_name \<Rightarrow> (stage_record \<Rightarrow> stage_record) \<Rightarrow> nat option \<Rightarrow> research_run \<Rightarrow> research_run" where
  "setStage stage patch attempt run =
     (on_stage stage (\<lambda>r. (patch r)\<lparr>sr_attempt := (case attempt of Some n \<Rightarrow> n | None \<Rightarrow> sr_attempt r)\<rparr>) run)
       \<lparr>run_currentStage := stage\<rparr>"

definition end_stage :: "stage_state \<Rightarrow> instant \<Rightarrow> string \<Rightarrow> stage_record \<Rightarrow> stage_record" where
  "end_stage st t err r = r\<lparr>sr_state := st, sr_endedAt := Some t, sr_error := Some err\<rparr>"

definition reopen_record :: "stage_record \<Rightarrow> stage_record" where
  "reopen_record r = r\<lparr>sr_state := SPending, sr_endedAt := None, sr_error := None\<rparr>"

definition reopen_if :: "(stage_state \<Rightarrow> bool) \<Rightarrow> stage_record \<Rightarrow> stage_record" where
  "reopen_if P r = (if P (sr_state r) then reopen_record r else r)"

definition reopen_stages :: "(stage_record \<Rightarrow> stage_record) \<Rightarrow> run_stage_name list \<Rightarrow> research_run \<Rightarrow> research_run" where
  "reopen_stages f stages run = fold (\<lambda>s. on_stage s f) stages run"

section \<open>The stage context\<close>

definition copy_members :: "string list \<Rightarrow> json \<Rightarrow> (string \<times> json) list" where
  "copy_members ks v = List.map_filter (\<lambda>k. map_option (Pair k) (jget k v)) ks"

definition receiptEventDetail :: "json \<Rightarrow> (string \<times> json) list" where
  "receiptEventDetail receipt =
     copy_members [''kind'', ''id''] receipt @
     (case jget ''modelCall'' receipt of None \<Rightarrow> []
      | Some mc \<Rightarrow> copy_members [''provider'', ''modelId'', ''latencyMs''] mc @
          (case jget ''usage'' mc of None \<Rightarrow> [] | Some u \<Rightarrow> copy_members [''totalTokens''] u)) @
     (case jget ''sourceRetrieval'' receipt of None \<Rightarrow> []
      | Some sr \<Rightarrow> copy_members [''family'', ''query'', ''httpStatus'', ''resultCount''] sr)"

definition receiptSink :: "deps \<Rightarrow> id \<Rightarrow> string option \<Rightarrow> (string \<times> json) list \<Rightarrow> unit comp" where
  "receiptSink d runId lease partial w =
     (let rid = od_newId d ''rcp'' (w_tick w);
          stamp = (case map_of partial ''at'' of Some t \<Rightarrow> t | None \<Rightarrow> JStr (iso (now d w)));
          receipt = JObj (filter (\<lambda>(k, _). k \<notin> {''id'', ''runId'', ''at''}) partial @
                      [(''id'', JStr rid), (''runId'', JStr runId), (''at'', stamp)])
      in thenE (putObjectE d ''receipt'' receipt)
           (thenE (doE (renew d lease runId))
             (eventE d runId \<lparr>ev_type = E_receipt_recorded, ev_status = None, ev_stage = jstr ''stage'' (JObj partial),
                ev_detail = receiptEventDetail receipt, ev_receiptId = Some rid\<rparr>)) w)"

definition clamp :: "int \<Rightarrow> int \<Rightarrow> int" where
  "clamp n m = max 0 (min n m)"

definition set_subtasks :: "int \<Rightarrow> int \<Rightarrow> research_run \<Rightarrow> research_run" where
  "set_subtasks n m run = on_stage (run_currentStage run)
     (\<lambda>r. r\<lparr>sr_subtasks := Some \<lparr>st_known = True, st_done = clamp n m, st_total = m\<rparr>\<rparr>) run"

definition progress ::
  "deps \<Rightarrow> research_run \<Rightarrow> string option \<Rightarrow> int \<Rightarrow> int \<Rightarrow> (string \<times> (string \<times> json) list) option \<Rightarrow> unit comp" where
  "progress d run lease n m note w =
     (if \<not> holds_lease lease (run_id run) (w_db w) then (Inr (), w)
      else thenE
        (\<lambda>w. if m > 0 then
               (case getRun (run_id run) (w_db w) of
                  None \<Rightarrow> (Inr (), w)
                | Some fresh \<Rightarrow>
                    if find_stage (run_currentStage fresh) (run_stages fresh) = None then (Inr (), w)
                    else case updateRun (set_subtasks n m fresh) (now d w) (w_db w) of
                      Inl _ \<Rightarrow> (Inl (Failure (''run not found: '' @ run_id run)), tick w)
                    | Inr db \<Rightarrow> (Inr (), tick (w\<lparr>w_db := db\<rparr>)))
             else (Inr (), w))
        (case note of None \<Rightarrow> returnE ()
         | Some (reason, detail) \<Rightarrow> eventE d (run_id run)
             (stage_note (run_currentStage run) ((''reason'', JStr reason) # detail))) w)"

definition run_step ::
  "deps \<Rightarrow> id \<Rightarrow> string option \<Rightarrow> run_stage_name \<Rightarrow> string \<Rightarrow> string \<Rightarrow> json comp \<Rightarrow> json comp" where
  "run_step d runId lease stage family key fn =
     bindE fn (\<lambda>value.
       thenE (doE (\<lambda>w. tick (on_db (putStepOutput (od_sha d) runId stage family key value (now d w)) w)))
         (thenE (doE (renew d lease runId)) (returnE value)))"

definition checkpointed ::
  "deps \<Rightarrow> id \<Rightarrow> string option \<Rightarrow> run_stage_name \<Rightarrow> string \<Rightarrow> string \<Rightarrow> string option \<Rightarrow> json comp \<Rightarrow> json comp" where
  "checkpointed d runId lease stage family key inputsFingerprint fn =
     thenE
       (case inputsFingerprint of
          None \<Rightarrow> returnE ()
        | Some fp \<Rightarrow>
            bindE (readE (\<lambda>w. getStepFingerprint runId stage family (w_db w))) (\<lambda>stored.
            thenE (whenE (stored \<noteq> None \<and> stored \<noteq> Some fp)
                (thenE (doE (on_db (\<lambda>db. snd (clearStepOutputs runId stage family db))))
                  (noteE d runId [(''reason'', JStr ''step_checkpoint_invalidated''), (''stage'', JStr (stage_str stage)),
                     (''family'', JStr family), (''storedFingerprint'', JStr (the stored)), (''newFingerprint'', JStr fp)])))
              (whenE (stored \<noteq> Some fp) (doE (on_db (putStepFingerprint runId stage family fp))))))
       (bindE (readE (\<lambda>w. getStepOutput runId stage family key (w_db w))) (\<lambda>hit.
          case hit of
            Some v \<Rightarrow> if v = JNull then run_step d runId lease stage family key fn else returnE v
          | None \<Rightarrow> run_step d runId lease stage family key fn))"

definition disowned :: "id \<Rightarrow> string option \<Rightarrow> world \<Rightarrow> bool" where
  "disowned runId lease w \<longleftrightarrow> \<not> holds_lease lease runId (w_db w)"

definition persisted_cancel :: "id \<Rightarrow> store \<Rightarrow> bool" where
  "persisted_cancel runId db = (case getRun runId db of Some r \<Rightarrow> run_cancelRequested r | None \<Rightarrow> False)"

definition cancelled :: "id \<Rightarrow> world \<Rightarrow> bool" where
  "cancelled runId w \<longleftrightarrow> w_signal w runId \<or> persisted_cancel runId (w_db w)"

end
