(* ===== verification/Orchestrator.thy ===== *)
theory Orchestrator
  imports Orch_Base
begin

text \<open>
  The stage machine of \<^verbatim>\<open>src/src/app/orchestrator.ts\<close>: \<open>execute\<close> takes the run's lease and walks the
  persisted workflow plan, one stage handler or agent capability at a time, until the plan is done, a
  handler fails, the run is cancelled, the lease is lost or a requested stop point is reached; a
  finished pass may reopen stages for another bounded iteration round.

  The definitions follow the sections of \<open>executeOwned\<close>. The loop over steps and the recursion over
  iteration rounds take fuel and return \<^const>\<open>None\<close> when it runs out.
\<close>

section \<open>Kernel checkpoints and the plan\<close>

definition open_stage :: "stage_record \<Rightarrow> bool" where
  "open_stage r \<longleftrightarrow> sr_state r = SPending \<or> sr_state r = SRunning"

definition control_candidates :: "research_run \<Rightarrow> action_candidate list" where
  "control_candidates run =
     (let pending = filter open_stage (run_stages run) in
      map (\<lambda>(i, s). let k = stage_str (sr_stage s) in
         \<lparr>ac_kind = k, ac_rationale = ''stage '' @ k @ '' remains non-terminal'',
          ac_gain = Some (if contains k ''retrieve'' \<or> contains k ''evidence'' then Gain_high else Gain_medium),
          ac_priority = Some (int (length pending) - int i)\<rparr>)
       (zip [0..<length pending] pending))"

definition control_state :: "deps \<Rightarrow> research_run \<Rightarrow> kernel_phase \<Rightarrow> string option \<Rightarrow> world \<Rightarrow> control_input" where
  "control_state d run phase lastAction w =
     (let next = selectNextBestAction (od_localeCompare d) (control_candidates run) 0 0;
          prior = at_last (listObjects ''kernel_control'' (run_id run) (w_db w));
          noChange = (if prior_nextKind prior = map_option ac_kind next then prior_noChange prior + 1 else 0);
          sources = (case Option.bind (at_last (listObjects ''scientific_world_model'' (run_id run) (w_db w)))
                (\<lambda>m. Option.bind (jget ''provenance'' m) (jget ''sourceObjectIds'')) of
              Some (JArr xs) \<Rightarrow> List.map_filter (\<lambda>x. case x of JStr s \<Rightarrow> Some s | _ \<Rightarrow> None) xs | _ \<Rightarrow> [])
      in \<lparr>ki_id = od_newId d ''kc'' (w_tick w), ki_runId = run_id run, ki_version = prior_nat ''version'' prior + 1,
          ki_phase = phase, ki_cap = rb_cap (w_budget w), ki_spent = rb_spent (w_budget w),
          ki_attempts = prior_nat ''attempts'' prior + (if lastAction = None \<or> lastAction = Some [] then 0 else 1),
          ki_completionSatisfied = (\<not> list_ex open_stage (run_stages run)), ki_noChange = noChange,
          ki_cancelRequested = run_cancelRequested run, ki_lastAction = lastAction, ki_nextAction = next,
          ki_sourceObjectIds = sources, ki_eventCount = length (run_events (run_id run) (w_db w))\<rparr>)"

definition persistKernelControl :: "deps \<Rightarrow> research_run \<Rightarrow> kernel_phase \<Rightarrow> string option \<Rightarrow> unit comp" where
  "persistKernelControl d run phase lastAction w =
     (let i = control_state d run phase lastAction w in
      thenE (putObjectE d ''kernel_control'' (makeKernelControlState i (now d w)))
        (noteE d (run_id run) [(''reason'', JStr ''kernel_control_checkpoint''), (''phase'', JStr (phase_str phase)),
           (''stateId'', JStr (ki_id i)), (''nextAction'', null_json (\<lambda>a. JStr (ac_kind a)) (ki_nextAction i)),
           (''stuck'', JBool (stuck_detected (ki_noChange i)))]) (tick w))"

fun origin_str :: "plan_origin \<Rightarrow> string" where
  "origin_str Origin_default = ''default''"
| "origin_str Origin_kernel = ''kernel''"
| "origin_str Origin_revision = ''revision''"

definition step_json :: "workflow_step \<Rightarrow> json" where
  "step_json s = JObj
     [(''id'', JStr (ws_id s)), (''after'', JArr (map JStr (ws_after s))), (''attemptCap'', JNum (int (ws_attemptCap s))),
      (''kind'', JStr (if is_agent (ws_target s) then ''agent'' else ''stage'')), (''target'', JStr (target_str (ws_target s))),
      (''completion'', JObj [(''kind'', JStr (if is_agent (ws_target s) then ''agent_result_ok'' else ''stage_terminal''))])]"

definition plan_json :: "workflow_plan \<Rightarrow> json" where
  "plan_json p = JObj
     [(''id'', JStr (wp_id p)), (''runId'', JStr (wp_runId p)), (''version'', JNum (int (wp_version p))),
      (''origin'', JStr (origin_str (wp_origin p))), (''createdAt'', JStr (iso (wp_createdAt p))),
      (''steps'', JArr (map step_json (wp_steps p))), (''revisedFrom'', opt_json JStr (wp_revisedFrom p))]"

definition adoptDefaultPlan :: "deps \<Rightarrow> id \<Rightarrow> workflow_plan comp" where
  "adoptDefaultPlan d runId w =
     (case defaultWorkflow runId (now d w) of
        Inl _ \<Rightarrow> (Inl (Failure ''invalid workflow plan''), tick w)
      | Inr p \<Rightarrow>
          thenE (putObjectE d ''workflow_plan'' (plan_json p))
            (thenE (noteE d runId [(''reason'', JStr ''workflow_plan_adopted''), (''origin'', JStr ''default''),
                (''version'', JNum (int (wp_version p))), (''steps'', JNum (int (length (wp_steps p))))])
              (returnE p)) (tick w))"

section \<open>Before the walk: reopened stages, parking, status, plan\<close>

definition mark_run :: "run_status \<Rightarrow> research_run \<Rightarrow> research_run" where
  "mark_run st run = run\<lparr>run_status := st\<rparr>"

definition run_resumed :: "(string \<times> json) list \<Rightarrow> event_input" where
  "run_resumed detail = (plain_event E_run_resumed detail)\<lparr>ev_status := Some RunRunning\<rparr>"

definition iterationRoundKey :: "id \<Rightarrow> string" where
  "iterationRoundKey runId = ''iter:round:'' @ runId"

definition iterationFingerprintKey :: "id \<Rightarrow> string" where
  "iterationFingerprintKey runId = ''iter:fp:'' @ runId"

definition reopen_completed :: "deps \<Rightarrow> id \<Rightarrow> string option \<Rightarrow> run_stage_name list \<Rightarrow> string \<Rightarrow> research_run comp" where
  "reopen_completed d runId lease stages why =
     bindE (transition d runId (edit (\<lambda>r. mark_run RunRunning (reopen_stages (reopen_if settled) stages r))) lease)
       (\<lambda>run. thenE (eventE d runId (run_resumed [(''reopened'', JStr why)])) (returnE run))"

definition reopen_feedback :: "deps \<Rightarrow> id \<Rightarrow> string option \<Rightarrow> research_run \<Rightarrow> research_run comp" where
  "reopen_feedback d runId lease run w =
     (if run_status run = RunCompleted \<and> listObjects ''feedback'' runId (w_db w) \<noteq> []
      then bindE (reopen_completed d runId lease [Feedback, Revise, Export] ''feedback'')
             (\<lambda>run'. thenE (doE (on_db (setMeta (iterationRoundKey runId) ''1''))) (returnE run')) w
      else returnE run w)"

definition has_unverified :: "id \<Rightarrow> store \<Rightarrow> bool" where
  "has_unverified runId db = list_ex (\<lambda>doc. jget ''verification'' doc \<in> {None, Some JUndef}) (listObjects ''source_document'' runId db)"

definition reopen_evidence_debt :: "deps \<Rightarrow> id \<Rightarrow> string option \<Rightarrow> bool \<Rightarrow> research_run \<Rightarrow> research_run comp" where
  "reopen_evidence_debt d runId lease wasCompleted run w =
     (if wasCompleted \<and> has_unverified runId (w_db w)
      then reopen_completed d runId lease [Verify_sources, Build_evidence, Export] ''evidence_debt'' w
      else returnE run w)"

definition reopen_template_content :: "deps \<Rightarrow> id \<Rightarrow> string option \<Rightarrow> bool \<Rightarrow> research_run \<Rightarrow> research_run comp" where
  "reopen_template_content d runId lease wasCompleted run w =
     (if wasCompleted \<and> run_status run = RunCompleted \<and>
         (case at_last (listObjects ''bundle'' runId (w_db w)) of None \<Rightarrow> False | Some b \<Rightarrow> od_bundleTainted d b)
      then reopen_completed d runId lease [Export] ''template_content_remediation'' w
      else returnE run w)"

definition BUDGET_EXHAUSTED_REASON :: string where
  "BUDGET_EXHAUSTED_REASON = ''budget_exhausted''"

definition TEMPLATE_REFUSAL_REASON :: string where
  "TEMPLATE_REFUSAL_REASON = ''template_mode_refused''"

definition marker_skips :: "string \<Rightarrow> research_run \<Rightarrow> run_stage_name list" where
  "marker_skips marker run = map sr_stage (filter (\<lambda>s. sr_state s = SSkipped \<and>
     starts_with (case sr_error s of Some e \<Rightarrow> e | None \<Rightarrow> []) marker) (run_stages run))"

definition reopen_marker_skips :: "deps \<Rightarrow> id \<Rightarrow> string option \<Rightarrow> string \<Rightarrow> string \<Rightarrow> research_run \<Rightarrow> research_run comp" where
  "reopen_marker_skips d runId lease marker why run =
     (let stages = marker_skips marker run in
      if stages = [] then returnE run
      else bindE (transition d runId (edit (reopen_stages reopen_record stages)) lease)
             (\<lambda>run'. thenE (noteE d runId [(''reason'', JStr why), (''stages'', JArr (map (\<lambda>s. JStr (stage_str s)) stages))])
                (returnE run')))"

definition parking_tag :: "string \<Rightarrow> bool" where
  "parking_tag t = starts_with t ''parking:''"

definition clear_parking :: "research_run \<Rightarrow> research_run" where
  "clear_parking r = r\<lparr>run_tags := filter (\<lambda>t. \<not> parking_tag t) (run_tags r)\<rparr>"

definition release_parking :: "deps \<Rightarrow> id \<Rightarrow> string option \<Rightarrow> run_stage_name option \<Rightarrow> research_run \<Rightarrow> research_run comp" where
  "release_parking d runId lease stopAfter run =
     (if stopAfter = None \<and> list_ex parking_tag (run_tags run)
      then bindE (transition d runId (edit clear_parking) lease)
             (\<lambda>run'. thenE (noteE d runId [(''reason'', JStr ''parking_intent_cleared'')]) (returnE run'))
      else returnE run)"

definition start_run :: "deps \<Rightarrow> id \<Rightarrow> string option \<Rightarrow> research_run \<Rightarrow> research_run comp" where
  "start_run d runId lease run =
     (if run_status run \<noteq> RunRunning
      then bindE (transition d runId (edit (mark_run RunRunning)) lease)
             (\<lambda>run'. thenE (eventE d runId
                \<lparr>ev_type = (if run_status run = RunCreated then E_run_created else E_run_resumed), ev_status = Some RunRunning,
                 ev_stage = None, ev_detail = [(''previous'', JStr (status_str (run_status run)))], ev_receiptId = None\<rparr>)
                (returnE run'))
      else returnE run)"

definition latest_plan :: "deps \<Rightarrow> id \<Rightarrow> workflow_plan comp" where
  "latest_plan d runId w =
     (case at_last (listObjects ''workflow_plan'' runId (w_db w)) of
        Some j \<Rightarrow> (Inr (od_planOf d j), w)
      | None \<Rightarrow> adoptDefaultPlan d runId w)"

definition open_budget :: "deps \<Rightarrow> id \<Rightarrow> unit comp" where
  "open_budget d runId = doE (\<lambda>w. w\<lparr>w_budget := makeRunBudget (map (od_receiptOf d) (listObjects ''receipt'' runId (w_db w))) (od_cap d)\<rparr>)"

record loop_state =
  ls_run :: research_run
  ls_plan :: workflow_plan
  ls_warned :: bool
  ls_agents :: "id list"

definition stop_index :: "run_stage_name option \<Rightarrow> workflow_plan \<Rightarrow> int option" where
  "stop_index stopAfter p =
     (case stopAfter of None \<Rightarrow> None
      | Some s \<Rightarrow> Some (case find_index (\<lambda>t. target_str (ws_target t) = stage_str s) (wp_steps p) of Some i \<Rightarrow> int i | None \<Rightarrow> -1))"

definition prologue :: "deps \<Rightarrow> id \<Rightarrow> string option \<Rightarrow> run_stage_name option \<Rightarrow> research_run \<Rightarrow> (loop_state \<times> int option) comp" where
  "prologue d runId lease stopAfter runIn =
     bindE (reopen_feedback d runId lease runIn) (\<lambda>run1.
     bindE (reopen_evidence_debt d runId lease (run_status runIn = RunCompleted) run1) (\<lambda>run2.
     bindE (reopen_template_content d runId lease (run_status runIn = RunCompleted) run2) (\<lambda>run3.
     thenE (open_budget d runId) (
     bindE (reopen_marker_skips d runId lease BUDGET_EXHAUSTED_REASON ''budget_skip_reopened'' run3) (\<lambda>run4.
     bindE (reopen_marker_skips d runId lease TEMPLATE_REFUSAL_REASON ''template_refusal_reopened'' run4) (\<lambda>run5.
     bindE (readE (\<lambda>w. nearLimit (w_budget w))) (\<lambda>warned.
     thenE (persistKernelControl d run5 Ph_observe None) (
     bindE (release_parking d runId lease stopAfter run5) (\<lambda>run6.
     bindE (start_run d runId lease run6) (\<lambda>run7.
     bindE (latest_plan d runId) (\<lambda>p.
     returnE (\<lparr>ls_run = run7, ls_plan = p, ls_warned = warned, ls_agents = []\<rparr>, stop_index stopAfter p))))))))))))"

section \<open>One agent step\<close>

datatype loop_step = Continue loop_state | Return research_run

definition agentDoneKey :: "id \<Rightarrow> id \<Rightarrow> string" where
  "agentDoneKey runId stepId = ''wfp:agent-done:'' @ runId @ '':'' @ stepId"

definition agentAttemptKey :: "id \<Rightarrow> id \<Rightarrow> string" where
  "agentAttemptKey runId stepId = ''wfp:agent-attempts:'' @ runId @ '':'' @ stepId"

definition agentStepDone :: "id \<Rightarrow> loop_state \<Rightarrow> store \<Rightarrow> id \<Rightarrow> bool" where
  "agentStepDone runId ls db stepId \<longleftrightarrow> stepId \<in> set (ls_agents ls) \<or> getMeta (agentDoneKey runId stepId) db = Some ''1''"

definition markAgentStepDone :: "id \<Rightarrow> id \<Rightarrow> unit comp" where
  "markAgentStepDone runId stepId = doE (on_db (setMeta (agentDoneKey runId stepId) ''1''))"

definition agent_marked :: "workflow_step \<Rightarrow> loop_state \<Rightarrow> loop_state" where
  "agent_marked step ls = ls\<lparr>ls_agents := ws_id step # ls_agents ls\<rparr>"

definition agent_note :: "string \<Rightarrow> string \<Rightarrow> workflow_step \<Rightarrow> (string \<times> json) list \<Rightarrow> (string \<times> json) list" where
  "agent_note reason capability step extra =
     [(''reason'', JStr reason), (''capability'', JStr capability), (''stepId'', JStr (ws_id step))] @ extra"

definition budget_json :: "run_budget \<Rightarrow> (string \<times> json) list" where
  "budget_json b = [(''spent'', JNum (rb_spent b)), (''cap'', null_json JNum (rb_cap b))]"

text \<open>A workflow agent step without a capability plane fails the run.\<close>

definition missing_plane :: "deps \<Rightarrow> id \<Rightarrow> string option \<Rightarrow> workflow_step \<Rightarrow> string \<Rightarrow> loop_step comp" where
  "missing_plane d runId lease step capability =
     (let msg = ''workflow agent capability '' @ [CHR 39] @ capability @ [CHR 39] @ '' has no kernel capability plane'' in
      bindE (transition d runId (edit (\<lambda>r. r\<lparr>run_status := RunFailed, run_lastError := Some msg\<rparr>)) lease) (\<lambda>run.
      thenE (eventE d runId \<lparr>ev_type = E_stage_failed, ev_status = Some (run_status run), ev_stage = Some capability,
          ev_detail = [(''error'', JStr msg), (''reason'', JStr ''missing_kernel_plane''), (''stepId'', JStr (ws_id step)),
            (''failFast'', JBool True)], ev_receiptId = None\<rparr>)
      (thenE (eventE d runId \<lparr>ev_type = E_run_status_changed, ev_status = Some (run_status run), ev_stage = None,
          ev_detail = [(''reason'', JStr ''missing_kernel_capability_plane''), (''capability'', JStr capability),
            (''stepId'', JStr (ws_id step))], ev_receiptId = None\<rparr>)
      (returnE (Return run)))))"

definition agent_result_json :: "capability_result \<Rightarrow> (string \<times> json) list" where
  "agent_result_json res =
     [(''ok'', JBool (ca_ok res)), (''status'', JStr (ca_status res)), (''turns'', JNum (int (ca_turns res))),
      (''reportId'', opt_json JStr (ca_reportId res)), (''materialized'', opt_json (\<lambda>n. JNum (int n)) (ca_materialized res)),
      (''error'', opt_json JStr (ca_error res))]"

definition agent_aborted :: "deps \<Rightarrow> id \<Rightarrow> string option \<Rightarrow> workflow_step \<Rightarrow> string \<Rightarrow> loop_step comp" where
  "agent_aborted d runId lease step capability =
     (let msg = ''agent step '' @ ws_id step @ '' ('' @ capability @ '') aborted'' in
      bindE (transition d runId
        (edit (\<lambda>r. r\<lparr>run_status := RunCancelled, run_lastError := Some msg, run_cancelRequested := False\<rparr>)) lease) (\<lambda>run.
      thenE (eventE d runId \<lparr>ev_type = E_run_cancelled, ev_status = Some (run_status run), ev_stage = Some capability,
          ev_detail = [(''error'', JStr msg)], ev_receiptId = None\<rparr>)
      (returnE (Return run))))"

definition run_agent ::
  "deps \<Rightarrow> id \<Rightarrow> string option \<Rightarrow> workflow_step \<Rightarrow> string \<Rightarrow> (string \<Rightarrow> capability_result comp) \<Rightarrow> loop_state \<Rightarrow> loop_step comp" where
  "run_agent d runId lease step capability plane ls =
     catchE
       (bindE (plane capability) (\<lambda>res.
        thenE (markAgentStepDone runId (ws_id step))
        (thenE (noteE d runId (agent_note ''agent_step_done'' capability step (agent_result_json res)))
        (if ca_status res = ''aborted'' then agent_aborted d runId lease step capability
         else thenE (persistKernelControl d (ls_run ls) Ph_update_belief (Some capability))
                (returnE (Continue (agent_marked step ls)))))))
       (\<lambda>e. thenE (markAgentStepDone runId (ws_id step))
          (thenE (noteE d runId (agent_note ''agent_step_failed'' capability step [(''error'', JStr (exn_message e))]))
            (returnE (Continue (agent_marked step ls)))))"

definition agent_attempts :: "id \<Rightarrow> workflow_step \<Rightarrow> store \<Rightarrow> nat option" where
  "agent_attempts runId step db =
     number_of (case getMeta (agentAttemptKey runId (ws_id step)) db of Some s \<Rightarrow> s | None \<Rightarrow> ''0'')"

definition attempt_text :: "nat option \<Rightarrow> string" where
  "attempt_text n = (case n of Some k \<Rightarrow> str_of_nat k | None \<Rightarrow> ''NaN'')"

definition agent_step :: "deps \<Rightarrow> id \<Rightarrow> string option \<Rightarrow> workflow_step \<Rightarrow> string \<Rightarrow> loop_state \<Rightarrow> loop_step comp" where
  "agent_step d runId lease step capability ls w =
     (if \<not> hasRemaining (w_budget w) then
        thenE (noteE d runId (agent_note ''agent_step_skipped'' capability step
            ((''cause'', JStr BUDGET_EXHAUSTED_REASON) # budget_json (w_budget w))))
          (thenE (markAgentStepDone runId (ws_id step)) (returnE (Continue (agent_marked step ls)))) w
      else case od_kernelPlane d of
        None \<Rightarrow> missing_plane d runId lease step capability w
      | Some plane \<Rightarrow>
          (let attempts = agent_attempts runId step (w_db w) in
           if (case attempts of Some n \<Rightarrow> n \<ge> ws_attemptCap step | None \<Rightarrow> False) then
             thenE (markAgentStepDone runId (ws_id step))
               (thenE (noteE d runId (agent_note ''agent_step_skipped'' capability step
                   [(''cause'', JStr (''attempt_cap ('' @ attempt_text attempts @ ''/'' @ str_of_nat (ws_attemptCap step) @ '')''))]))
                 (returnE (Continue (agent_marked step ls)))) w
           else
             thenE (doE (on_db (setMeta (agentAttemptKey runId (ws_id step)) (attempt_text (map_option Suc attempts)))))
               (thenE (persistKernelControl d (ls_run ls) Ph_act (Some capability))
                 (thenE (noteE d runId (agent_note ''agent_step_started'' capability step []))
                   (run_agent d runId lease step capability plane ls))) w))"

section \<open>One stage step\<close>

definition event_for :: "event_type \<Rightarrow> run_stage_name \<Rightarrow> (string \<times> json) list \<Rightarrow> event_input" where
  "event_for t stage detail = (plain_event t detail)\<lparr>ev_stage := Some (stage_str stage)\<rparr>"

definition finish_stage ::
  "deps \<Rightarrow> id \<Rightarrow> string option \<Rightarrow> run_stage_name \<Rightarrow> stage_state \<Rightarrow> string \<Rightarrow> research_run comp" where
  "finish_stage d runId lease stage st err =
     transition d runId (edit_at d (\<lambda>t. setStage stage (end_stage st t err) None)) lease"

definition budget_skip :: "deps \<Rightarrow> id \<Rightarrow> string option \<Rightarrow> run_stage_name \<Rightarrow> loop_state \<Rightarrow> loop_step comp" where
  "budget_skip d runId lease stage ls w =
     (let b = w_budget w in
      bindE (finish_stage d runId lease stage SSkipped (BUDGET_EXHAUSTED_REASON @ '': spent '' @ str_of_int (rb_spent b) @ '' of cap '' @
          (case rb_cap b of Some c \<Rightarrow> str_of_int c | None \<Rightarrow> ''null''))) (\<lambda>run.
      thenE (eventE d runId (event_for E_stage_skipped stage ((''reason'', JStr BUDGET_EXHAUSTED_REASON) # budget_json b)))
        (returnE (Continue (ls\<lparr>ls_run := run\<rparr>)))) w)"

definition missing_handler :: "deps \<Rightarrow> id \<Rightarrow> string option \<Rightarrow> run_stage_name \<Rightarrow> loop_step comp" where
  "missing_handler d runId lease stage =
     (let msg = ''workflow stage '' @ [CHR 39] @ stage_str stage @ [CHR 39] @ '' has no registered handler'' in
      bindE (transition d runId (edit_at d (\<lambda>t r. (setStage stage (end_stage SFailed t msg) None r)
          \<lparr>run_status := RunFailed, run_lastError := Some msg\<rparr>)) lease) (\<lambda>run.
      thenE (eventE d runId ((event_for E_stage_failed stage [(''error'', JStr msg), (''reason'', JStr ''missing_handler''),
          (''failFast'', JBool True)])\<lparr>ev_status := Some (run_status run)\<rparr>))
      (thenE (eventE d runId ((plain_event E_run_status_changed [(''reason'', JStr ''missing_stage_handler''),
          (''stage'', JStr (stage_str stage))])\<lparr>ev_status := Some (run_status run)\<rparr>))
      (returnE (Return run)))))"

definition next_attempt :: "run_stage_name \<Rightarrow> research_run \<Rightarrow> nat" where
  "next_attempt stage run =
     (case find_stage stage (run_stages run) of
        Some rec \<Rightarrow> (if sr_startedAt rec \<noteq> None then sr_attempt rec else 0)
      | None \<Rightarrow> 0) + 1"

definition begin_record :: "instant \<Rightarrow> stage_record \<Rightarrow> stage_record" where
  "begin_record t r = r\<lparr>sr_state := SRunning, sr_startedAt := Some t, sr_error := None\<rparr>"

definition start_stage :: "deps \<Rightarrow> id \<Rightarrow> string option \<Rightarrow> run_stage_name \<Rightarrow> research_run \<Rightarrow> research_run comp" where
  "start_stage d runId lease stage run =
     (let nextAttempt = next_attempt stage run in
      bindE (transition d runId (edit_at d (\<lambda>t. setStage stage (begin_record t) (Some nextAttempt))) lease) (\<lambda>run'.
      thenE (eventE d runId (event_for E_stage_started stage [(''attempt'', JNum (int nextAttempt))]))
      (thenE (persistKernelControl d run' Ph_act (Some (stage_str stage)))
      (returnE run'))))"

definition budget_warning :: "deps \<Rightarrow> id \<Rightarrow> run_stage_name \<Rightarrow> loop_state \<Rightarrow> loop_state comp" where
  "budget_warning d runId stage ls w =
     (if \<not> ls_warned ls \<and> nearLimit (w_budget w)
      then thenE (eventE d runId (stage_note stage ((''reason'', JStr ''budget_warning'') # budget_json (w_budget w) @
               [(''note'', JStr ''>=80% of run token budget spent'')])))
             (returnE (ls\<lparr>ls_warned := True\<rparr>)) w
      else returnE ls w)"

definition qgRoundKey :: "id \<Rightarrow> string" where
  "qgRoundKey runId = ''qg:round:'' @ runId"

definition qg_round :: "id \<Rightarrow> store \<Rightarrow> nat option" where
  "qg_round runId db = number_of (case getMeta (qgRoundKey runId) db of Some s \<Rightarrow> s | None \<Rightarrow> ''1'')"

definition MAX_QUALITY_ROUNDS :: nat where
  "MAX_QUALITY_ROUNDS = 2"

text \<open>The first component of the result says whether the loop continues at once.\<close>

definition regenerate :: "deps \<Rightarrow> id \<Rightarrow> string option \<Rightarrow> nat \<Rightarrow> quality_signal \<Rightarrow> loop_state \<Rightarrow> (bool \<times> loop_state) comp" where
  "regenerate d runId lease rnd sg ls =
     thenE (doE (on_db (setMeta (qgRoundKey runId) (str_of_nat (rnd + 1)))))
     (thenE (doE (on_db (setMeta (''qg:active:'' @ runId) ''1'')))
     (thenE (eventE d runId (stage_note Rank [(''reason'', JStr ''quality_gate_regeneration''), (''round'', JNum (int rnd + 1)),
         (''signal'', JObj [(''metrics'', qs_metrics sg), (''reasons'', qs_reasons sg), (''weakDimensions'', qs_weakDimensions sg)])]))
     (bindE (transition d runId (edit (reopen_stages reopen_record [Generate_hypotheses, Critique_falsify, Rank])) lease) (\<lambda>run.
     returnE (True, ls\<lparr>ls_run := run\<rparr>)))))"

definition adopt_revision :: "deps \<Rightarrow> id \<Rightarrow> loop_state \<Rightarrow> loop_state comp" where
  "adopt_revision d runId ls w =
     (case kernelPlanRevisionFor (w_db w) runId (ls_plan ls) (now d w) of
        Inl _ \<Rightarrow> (Inl (Failure ''invalid workflow plan''), tick w)
      | Inr None \<Rightarrow> (Inr ls, tick w)
      | Inr (Some p) \<Rightarrow>
          (let cv = contestednessOf (w_db w) runId in
           thenE (putObjectE d ''workflow_plan'' (plan_json p))
             (thenE (eventE d runId (stage_note Rank
                 [(''reason'', JStr ''workflow_plan_revised''), (''by'', JStr ''kernel-planner-v1''), (''origin'', JStr (origin_str (wp_origin p))),
                  (''version'', JNum (int (wp_version p))), (''inserted'', JStr ''counter-evidence-debate''),
                  (''signals'', JArr (map JStr (cv_signals cv))),
                  (''contestedness'', JObj [(''governingRelations'', JNum (int (cv_governingRelations cv))),
                     (''causalClaims'', JNum (int (cv_causalClaims cv))), (''counterRelations'', JNum (int (cv_counterRelations cv))),
                     (''counterTargets'', JNum (int (cv_counterTargets cv)))])]))
               (returnE (ls\<lparr>ls_plan := p\<rparr>))) (tick w)))"

definition weak_proceeding :: "deps \<Rightarrow> id \<Rightarrow> nat option \<Rightarrow> bool \<Rightarrow> quality_signal \<Rightarrow> unit comp" where
  "weak_proceeding d runId rnd left sg =
     whenE (qs_weak sg \<and> ((case rnd of Some n \<Rightarrow> n \<ge> MAX_QUALITY_ROUNDS | None \<Rightarrow> False) \<or> \<not> left))
       (eventE d runId (stage_note Rank [(''reason'', JStr ''quality_gate_weak_proceeding''),
          (''round'', null_json (\<lambda>n. JNum (int n)) rnd), (''budgetRemaining'', JBool left),
          (''metrics'', qs_metrics sg), (''reasons'', qs_reasons sg)]))"

definition rank_gate :: "deps \<Rightarrow> id \<Rightarrow> string option \<Rightarrow> loop_state \<Rightarrow> (bool \<times> loop_state) comp" where
  "rank_gate d runId lease ls w =
     (let rnd = qg_round runId (w_db w); sg = od_qualityGate d (w_db w) runId; left = hasRemaining (w_budget w) in
      case rnd of
        Some n \<Rightarrow>
          if qs_weak sg \<and> n < MAX_QUALITY_ROUNDS \<and> left then regenerate d runId lease n sg ls w
          else thenE (weak_proceeding d runId rnd left sg)
                 (bindE (adopt_revision d runId ls) (\<lambda>ls'. returnE (False, ls'))) w
      | None \<Rightarrow> thenE (weak_proceeding d runId rnd left sg)
                 (bindE (adopt_revision d runId ls) (\<lambda>ls'. returnE (False, ls'))) w)"

definition done_stage :: "deps \<Rightarrow> id \<Rightarrow> string option \<Rightarrow> run_stage_name \<Rightarrow> research_run comp" where
  "done_stage d runId lease stage =
     transition d runId (\<lambda>r w.
       (let outputs = countStepOutputs runId stage None (w_db w) in
        edit_at d (\<lambda>t. setStage stage (\<lambda>rec. rec\<lparr>sr_state := SDone, sr_endedAt := Some t,
          sr_checkpointRef := (if outputs > 0 then Some (''step_outputs:'' @ str_of_nat outputs) else sr_checkpointRef rec)\<rparr>) None) r w)) lease"

text \<open>The \<open>try\<close> block of a stage: a raised exception is handed to the \<open>catch\<close> with the run the local
  variable holds by then.\<close>

datatype body_result = BodyOk loop_step | BodyRaised exn research_run

definition after_outcome :: "deps \<Rightarrow> id \<Rightarrow> string option \<Rightarrow> run_stage_name \<Rightarrow> bool \<Rightarrow> loop_state \<Rightarrow> loop_step comp" where
  "after_outcome d runId lease stage gated ls =
     bindE (if gated then rank_gate d runId lease ls else returnE (False, ls)) (\<lambda>(jump, ls').
       if jump then returnE (Continue ls')
       else bindE (budget_warning d runId stage ls') (\<lambda>ls''. returnE (Continue ls'')))"

definition skip_stage ::
  "deps \<Rightarrow> id \<Rightarrow> string option \<Rightarrow> run_stage_name \<Rightarrow> string \<Rightarrow> loop_state \<Rightarrow> loop_state comp" where
  "skip_stage d runId lease stage reason ls =
     bindE (finish_stage d runId lease stage SSkipped reason) (\<lambda>run.
     thenE (eventE d runId (event_for E_stage_skipped stage [(''reason'', JStr reason)]))
       (returnE (ls\<lparr>ls_run := run\<rparr>)))"

definition guarded :: "loop_step comp \<Rightarrow> research_run \<Rightarrow> body_result comp" where
  "guarded m run = catchE (bindE m (\<lambda>s. returnE (BodyOk s))) (\<lambda>e. returnE (BodyRaised e run))"

definition handle_outcome ::
  "deps \<Rightarrow> id \<Rightarrow> string option \<Rightarrow> run_stage_name \<Rightarrow> loop_state \<Rightarrow> stage_outcome \<Rightarrow> body_result comp" where
  "handle_outcome d runId lease stage ls out =
     (case out of
        OutSkipped reason \<Rightarrow>
          bindE (skip_stage d runId lease stage reason ls) (\<lambda>ls'.
            guarded (after_outcome d runId lease stage False ls') (ls_run ls'))
      | OutDone summary \<Rightarrow>
          bindE (done_stage d runId lease stage) (\<lambda>run.
            guarded
              (thenE (eventE d runId (event_for E_stage_done stage [(''summary'', JStr summary)]))
                (thenE (persistKernelControl d run Ph_update_belief (Some (stage_str stage)))
                  (after_outcome d runId lease stage (stage = Rank) (ls\<lparr>ls_run := run\<rparr>)))) run))"

definition stage_body ::
  "deps \<Rightarrow> id \<Rightarrow> string option \<Rightarrow> run_stage_name \<Rightarrow> stage_handler \<Rightarrow> loop_state \<Rightarrow> body_result comp" where
  "stage_body d runId lease stage h ls =
     catchE
       (bindE (sh_applicable h (ls_run ls)) (\<lambda>a.
          case a of
            Applicable \<Rightarrow>
              bindE (readE (cancelled runId)) (\<lambda>c.
                if c then throwE (Failure ''cancelled by user'')
                else bindE (sh_execute h (ls_run ls)) (handle_outcome d runId lease stage ls))
          | NotApplicable reason \<Rightarrow>
              bindE (skip_stage d runId lease stage
                  (case reason of Some r \<Rightarrow> r | None \<Rightarrow> ''not applicable (stage predicate returned false)'') ls) (\<lambda>ls'.
                returnE (BodyOk (Continue ls')))))
       (\<lambda>e. returnE (BodyRaised e (ls_run ls)))"

definition is_lease_lost :: "exn \<Rightarrow> bool" where
  "is_lease_lost e \<longleftrightarrow> (case e of LeaseLost _ \<Rightarrow> True | _ \<Rightarrow> starts_with_ci (exn_message e) ''run lease lost'')"

definition fail_stage :: "deps \<Rightarrow> id \<Rightarrow> string option \<Rightarrow> run_stage_name \<Rightarrow> string \<Rightarrow> loop_step comp" where
  "fail_stage d runId lease stage msg w =
     (let isCancel = (cancelled runId w \<or> starts_with_ci msg ''cancelled'') in
      bindE (transition d runId (edit_at d (\<lambda>t r. (setStage stage (end_stage SFailed t msg) None r)
          \<lparr>run_status := (if isCancel then RunCancelled else RunPartial), run_lastError := Some msg,
           run_cancelRequested := (if isCancel then False else run_cancelRequested r)\<rparr>)) lease) (\<lambda>run.
      thenE (eventE d runId ((event_for (if isCancel then E_run_cancelled else E_stage_failed) stage [(''error'', JStr msg)])
          \<lparr>ev_status := Some (run_status run)\<rparr>))
        (returnE (Return run))) w)"

definition stage_catch ::
  "deps \<Rightarrow> id \<Rightarrow> string option \<Rightarrow> run_stage_name \<Rightarrow> loop_state \<Rightarrow> exn \<Rightarrow> research_run \<Rightarrow> loop_step comp" where
  "stage_catch d runId lease stage ls e run =
     (case e of
        BudgetExhausted m \<Rightarrow>
          bindE (finish_stage d runId lease stage SSkipped (BUDGET_EXHAUSTED_REASON @ '': '' @ m)) (\<lambda>run'.
          thenE (eventE d runId (event_for E_stage_skipped stage [(''reason'', JStr BUDGET_EXHAUSTED_REASON), (''midStage'', JBool True)]))
            (returnE (Continue (ls\<lparr>ls_run := run'\<rparr>))))
      | _ \<Rightarrow>
          if is_lease_lost e
          then thenE (noteE d runId [(''reason'', JStr ''lease_lost_abort''), (''holder'', opt_json JStr lease)]) (returnE (Return run))
          else fail_stage d runId lease stage (exn_message e))"

definition stage_step :: "deps \<Rightarrow> id \<Rightarrow> string option \<Rightarrow> run_stage_name \<Rightarrow> loop_state \<Rightarrow> loop_step comp" where
  "stage_step d runId lease stage ls w =
     (if stage \<noteq> Export \<and> \<not> hasRemaining (w_budget w) then budget_skip d runId lease stage ls w
      else case od_stages d stage of
        None \<Rightarrow> missing_handler d runId lease stage w
      | Some h \<Rightarrow>
          bindE (start_stage d runId lease stage (ls_run ls)) (\<lambda>run.
            bindE (stage_body d runId lease stage h (ls\<lparr>ls_run := run\<rparr>)) (\<lambda>res.
              case res of
                BodyOk s \<Rightarrow> returnE s
              | BodyRaised e run' \<Rightarrow> stage_catch d runId lease stage (ls\<lparr>ls_run := run\<rparr>) e run')) w)"

section \<open>The walk\<close>

datatype loop_exit = Broke loop_state | Returned research_run

definition step_state :: "id \<Rightarrow> loop_state \<Rightarrow> store \<Rightarrow> workflow_step \<Rightarrow> step_progress" where
  "step_state runId ls db s =
     (case ws_target s of
        AgentTarget _ \<Rightarrow> if agentStepDone runId ls db (ws_id s) then Terminal else Pending
      | StageTarget t \<Rightarrow>
          (case find_stage t (run_stages (ls_run ls)) of
             Some rec \<Rightarrow> if settled (sr_state rec) then Terminal else Pending
           | None \<Rightarrow> Pending))"

definition workflow_step_of :: "deps \<Rightarrow> id \<Rightarrow> string option \<Rightarrow> workflow_step \<Rightarrow> loop_state \<Rightarrow> loop_step comp" where
  "workflow_step_of d runId lease step ls =
     (case ws_target step of
        AgentTarget c \<Rightarrow> agent_step d runId lease step c ls
      | StageTarget t \<Rightarrow> stage_step d runId lease t ls)"

definition beyond_stop :: "int option \<Rightarrow> workflow_plan \<Rightarrow> workflow_step \<Rightarrow> bool" where
  "beyond_stop stopIdx p step =
     (case stopIdx of None \<Rightarrow> False
      | Some i \<Rightarrow> (case find_index (\<lambda>s. s = step) (wp_steps p) of Some j \<Rightarrow> int j \<ge> i | None \<Rightarrow> -1 \<ge> i))"

fun stage_loop :: "nat \<Rightarrow> deps \<Rightarrow> id \<Rightarrow> string option \<Rightarrow> int option \<Rightarrow> loop_state \<Rightarrow> loop_exit option comp" where
  "stage_loop 0 d runId lease stopIdx ls = returnE None"
| "stage_loop (Suc n) d runId lease stopIdx ls =
     thenE (persistKernelControl d (ls_run ls) Ph_select_action None)
       (bindE (readE (\<lambda>w. nextWorkflowStep (ls_plan ls) (step_state runId ls (w_db w)) {})) (\<lambda>next.
          case next of
            None \<Rightarrow> returnE (Some (Broke ls))
          | Some step \<Rightarrow>
              if beyond_stop stopIdx (ls_plan ls) step then returnE (Some (Broke ls))
              else bindE (workflow_step_of d runId lease step ls) (\<lambda>out.
                case out of
                  Continue ls' \<Rightarrow> stage_loop n d runId lease stopIdx ls'
                | Return run \<Rightarrow> returnE (Some (Returned run)))))"

section \<open>After the walk\<close>

definition park :: "deps \<Rightarrow> id \<Rightarrow> string option \<Rightarrow> run_stage_name \<Rightarrow> research_run comp" where
  "park d runId lease stage =
     bindE (transition d runId (edit (\<lambda>r. clear_parking (mark_run RunPaused r))) lease) (\<lambda>run.
     thenE (eventE d runId ((plain_event E_note [(''reason'', JStr ''stop_after_parked''), (''after'', JStr (stage_str stage))])
         \<lparr>ev_status := Some RunPaused\<rparr>))
       (returnE run))"

definition pass_finished :: "research_run \<Rightarrow> bool" where
  "pass_finished run \<longleftrightarrow> \<not> list_ex open_stage (run_stages run) \<and> \<not> list_ex (\<lambda>s. sr_state s = SFailed) (run_stages run)"

definition iteration_round :: "id \<Rightarrow> store \<Rightarrow> nat" where
  "iteration_round runId db =
     (case number_of (case getMeta (iterationRoundKey runId) db of Some s \<Rightarrow> s | None \<Rightarrow> ''1'') of
        Some n \<Rightarrow> (if n = 0 then 1 else n) | None \<Rightarrow> 1)"

definition member_json :: "string \<Rightarrow> json \<Rightarrow> json" where
  "member_json k v = opt_json (\<lambda>x. x) (jget k v)"

definition snapshot_fingerprint :: "json \<Rightarrow> string option" where
  "snapshot_fingerprint rec = Option.bind (jget ''snapshot'' rec) (jstr ''fingerprint'')"

definition decided_already :: "id \<Rightarrow> nat \<Rightarrow> json \<Rightarrow> store \<Rightarrow> bool" where
  "decided_already runId rnd rec db =
     (case at_last (listObjects ''iteration'' runId db) of
        None \<Rightarrow> False
      | Some l \<Rightarrow> jnat ''round'' l = Some rnd \<and> snapshot_fingerprint l = snapshot_fingerprint rec)"

definition stages_json :: "run_stage_name list \<Rightarrow> json" where
  "stages_json ss = JArr (map (\<lambda>s. JStr (stage_str s)) ss)"

definition iteration_note :: "nat \<Rightarrow> iteration_decision \<Rightarrow> (string \<times> json) list" where
  "iteration_note rnd it =
     [(''reason'', JStr ''iteration_decided''), (''decision'', JStr (if it_continue it then ''continue'' else ''stop'')), (''round'', JNum (int rnd))] @
     (if it_continue it
      then [(''trigger'', member_json ''continueTrigger'' (it_record it)), (''reopenStages'', stages_json (it_reopenStages it)),
            (''rationale'', member_json ''rationale'' (it_record it))]
      else [(''stopReason'', member_json ''stopReason'' (it_record it)), (''rationale'', member_json ''rationale'' (it_record it)),
            (''unblockHints'', member_json ''unblockHints'' (it_record it))])"

definition reopen_round :: "stage_record \<Rightarrow> stage_record" where
  "reopen_round r = (reopen_record r)\<lparr>sr_subtasks := None\<rparr>"

definition next_round ::
  "deps \<Rightarrow> id \<Rightarrow> string option \<Rightarrow> nat \<Rightarrow> iteration_decision \<Rightarrow> research_run comp" where
  "next_round d runId lease rnd it =
     thenE (doE (on_db (setMeta (iterationRoundKey runId) (str_of_nat (rnd + 1)))))
     (thenE (doE (on_db (setMeta (iterationFingerprintKey runId)
         (case snapshot_fingerprint (it_record it) of Some f \<Rightarrow> f | None \<Rightarrow> ''undefined''))))
     (bindE (transition d runId (edit (reopen_stages reopen_round (it_reopenStages it))) lease) (\<lambda>run.
     thenE (noteE d runId [(''reason'', JStr ''iteration_round_started''), (''round'', JNum (int rnd + 1)),
         (''reopenStages'', stages_json (it_reopenStages it)), (''trigger'', member_json ''continueTrigger'' (it_record it))])
       (returnE run))))"

text \<open>The decision at the end of a finished pass: the run of the next round, or none.\<close>

definition iterate :: "deps \<Rightarrow> id \<Rightarrow> string option \<Rightarrow> research_run option comp" where
  "iterate d runId lease =
     bindE (readE (\<lambda>w. od_supervise d (w_db w) runId)) (\<lambda>signals.
     thenE (noteE d runId [(''reason'', JStr ''supervisor_observation''), (''signals'', JArr signals)])
     (bindE (\<lambda>w. (Inr (iteration_round runId (w_db w),
          od_evaluateIteration d (w_db w) runId (iteration_round runId (w_db w)) (w_budget w) (now d w)), tick w)) (\<lambda>(rnd, it).
     thenE (\<lambda>w. if decided_already runId rnd (it_record it) (w_db w) then (Inr (), w)
              else thenE (putObjectE d ''iteration'' (it_record it)) (noteE d runId (iteration_note rnd it)) w)
     (if it_continue it then bindE (next_round d runId lease rnd it) (\<lambda>run. returnE (Some run)) else returnE None))))"

definition loop_leg :: "research_run \<Rightarrow> run_stage_name \<Rightarrow> string \<Rightarrow> json" where
  "loop_leg run s dflt =
     (let rec = find_stage s (run_stages run) in JObj
       [(''stage'', JStr (stage_str s)),
        (''state'', JStr (case rec of Some r \<Rightarrow> stage_state_str (sr_state r) | None \<Rightarrow> ''pending'')),
        (''reason'', JStr (case Option.bind rec sr_error of Some e \<Rightarrow> e | None \<Rightarrow> dflt))])"

definition loop_json :: "research_run \<Rightarrow> json" where
  "loop_json run = JArr
     [loop_leg run Execute ''no plan-drafted experiment applied (plan cannot map to a public tabular dataset)'',
      loop_leg run Feedback ''no feedback signals stored for this run'',
      loop_leg run Revise ''no unconsumed feedback signals (nothing to revise from)'']"

definition event_detail :: "event_row \<Rightarrow> json" where
  "event_detail r = (case jget ''detail'' (er_payload r) of Some v \<Rightarrow> v | None \<Rightarrow> JObj [])"

definition last_guidance :: "id \<Rightarrow> store \<Rightarrow> string option" where
  "last_guidance runId db =
     Option.bind (at_last (filter (\<lambda>r. jstr ''reason'' (event_detail r) = Some ''loop_status_guidance'') (run_events runId db)))
       (\<lambda>r. map_option canonicalJson (jget ''loop'' (event_detail r)))"

definition guidance_actions :: json where
  "guidance_actions = JArr
     [JStr (''add a feedback signal (expert judgment / new literature / reviewer comment) '' @ emdash @
        '' feedback -> revise -> export reopen automatically on the next execution''),
      JStr ''materialize report + bundle files: far export <runId>'',
      JStr ''literature-type questions pool published effect estimates automatically (statistical_meta); close the loop confirmatorily: far experiment approve <specId> --by <you> --hypothesis <hypId> && far experiment rerun <specId>'']"

definition loop_guidance :: "deps \<Rightarrow> id \<Rightarrow> research_run \<Rightarrow> unit comp" where
  "loop_guidance d runId run w =
     (if map_option sr_state (find_stage Revise (run_stages run)) = Some SDone then (Inr (), w)
      else whenE (last_guidance runId (w_db w) \<noteq> Some (canonicalJson (loop_json run)))
             (noteE d runId [(''reason'', JStr ''loop_status_guidance''), (''closed'', JBool False), (''loop'', loop_json run),
                (''nextActions'', guidance_actions)]) w)"

definition consolidate :: "deps \<Rightarrow> id \<Rightarrow> unit comp" where
  "consolidate d runId =
     catchE
       (bindE (od_consolidate d runId) (\<lambda>(written, skipped).
          noteE d runId [(''kind'', JStr ''memory_consolidated''), (''itemsWritten'', JNum (int written)), (''skipped'', JNum (int skipped))]))
       (\<lambda>e. noteE d runId [(''kind'', JStr ''memory_consolidation_failed''), (''error'', JStr (exn_message e))])"

definition complete_run :: "deps \<Rightarrow> id \<Rightarrow> string option \<Rightarrow> research_run comp" where
  "complete_run d runId lease =
     bindE (transition d runId (edit (\<lambda>r. r\<lparr>run_status := RunCompleted, run_lastError := None\<rparr>)) lease) (\<lambda>run.
     thenE (persistKernelControl d run Ph_converged None)
     (thenE (eventE d runId ((plain_event E_run_status_changed [])\<lparr>ev_status := Some RunCompleted\<rparr>))
     (thenE (consolidate d runId)
     (thenE (loop_guidance d runId run)
     (returnE run)))))"

definition epilogue :: "deps \<Rightarrow> id \<Rightarrow> string option \<Rightarrow> research_run \<Rightarrow> research_run comp" where
  "epilogue d runId lease run =
     bindE (if pass_finished run then complete_run d runId lease else returnE run) (\<lambda>run'.
     thenE (\<lambda>w. if run_cancelRequested run' \<or> w_signal w runId then persistKernelControl d run' Ph_cancelled None w
              else if list_ex (\<lambda>s. sr_state s = SFailed) (run_stages run) then persistKernelControl d run' Ph_blocked None w
              else (Inr (), w))
       (returnE run'))"

fun executeOwned ::
  "nat \<Rightarrow> nat \<Rightarrow> deps \<Rightarrow> id \<Rightarrow> string \<Rightarrow> run_stage_name option \<Rightarrow> research_run \<Rightarrow> research_run option comp" where
  "executeOwned 0 m d runId holder stopAfter runIn = returnE None"
| "executeOwned (Suc k) m d runId holder stopAfter runIn =
     bindE (prologue d runId (Some holder) stopAfter runIn) (\<lambda>(ls, stopIdx).
     bindE (stage_loop m d runId (Some holder) stopIdx ls) (\<lambda>exit.
       case exit of
         None \<Rightarrow> returnE None
       | Some (Returned run) \<Rightarrow> returnE (Some run)
       | Some (Broke ls') \<Rightarrow>
           (case (stopAfter, run_status (ls_run ls') = RunRunning) of
              (Some s, True) \<Rightarrow> bindE (park d runId (Some holder) s) (\<lambda>run. returnE (Some run))
            | _ \<Rightarrow>
                bindE (if pass_finished (ls_run ls') then iterate d runId (Some holder) else returnE None) (\<lambda>again.
                  case again of
                    Some run \<Rightarrow> executeOwned k m d runId holder stopAfter run
                  | None \<Rightarrow> bindE (epilogue d runId (Some holder) (ls_run ls')) (\<lambda>run. returnE (Some run))))))"

definition execute :: "nat \<Rightarrow> nat \<Rightarrow> deps \<Rightarrow> id \<Rightarrow> run_stage_name option \<Rightarrow> research_run option comp" where
  "execute k m d runId stopAfter w =
     (case getRun runId (w_db w) of
        None \<Rightarrow> (Inl (Failure (''run not found: '' @ runId)), w)
      | Some run \<Rightarrow>
          (let leaseUntil = now d w + od_leaseTtl d; w1 = tick w; holder = od_holder d in
           case acquireLease runId holder leaseUntil (now d w1) (w_db w1) of
             Inl _ \<Rightarrow> (Inl (Failure (''run not found: '' @ runId)), tick w1)
           | Inr (False, db) \<Rightarrow>
               (Inl (LeaseHeld runId (case fst (getRunLease runId (w_db w)) of Some h \<Rightarrow> h | None \<Rightarrow> ''unknown'')), (tick w1)\<lparr>w_db := db\<rparr>)
           | Inr (True, db) \<Rightarrow>
               finallyE (executeOwned k m d runId holder stopAfter run)
                 (\<lambda>w'. on_db (releaseLease runId holder) (w'\<lparr>w_wire := (w_wire w')(runId := None)\<rparr>))
                 ((tick w1)\<lparr>w_db := db, w_wire := (w_wire w1)(runId \<mapsto> False)\<rparr>)))"

section \<open>Cancelling and reopening\<close>

definition cancel_run :: "deps \<Rightarrow> id \<Rightarrow> string \<Rightarrow> bool comp" where
  "cancel_run d runId via w =
     (let w1 = w\<lparr>w_wire := (case w_wire w runId of None \<Rightarrow> w_wire w | Some _ \<Rightarrow> (w_wire w)(runId \<mapsto> True))\<rparr>;
          (ok, db) = requestCancel runId (w_db w1)
      in if \<not> ok then (Inr False, w1\<lparr>w_db := db\<rparr>)
         else thenE (eventE d runId (plain_event E_run_cancelled [(''via'', JStr via)])) (returnE True) (w1\<lparr>w_db := db\<rparr>))"

definition reopenable :: "stage_state \<Rightarrow> bool" where
  "reopenable s \<longleftrightarrow> s = SDone \<or> s = SSkipped \<or> s = SFailed"

definition reopenStages :: "deps \<Rightarrow> id \<Rightarrow> run_stage_name list \<Rightarrow> string \<Rightarrow> research_run comp" where
  "reopenStages d runId stages reason w =
     (case getRun runId (w_db w) of
        None \<Rightarrow> (Inl (Failure (''run not found: '' @ runId)), w)
      | Some run \<Rightarrow>
          if run_status run = RunRunning
          then (Inl (Failure (''run '' @ runId @ '' is already running '' @ emdash @ '' reopen is for settled runs'')), w)
          else
            (let leaseUntil = now d w + od_leaseTtl d; w1 = tick w; holder = od_holder d in
             case acquireLease runId holder leaseUntil (now d w1) (w_db w1) of
               Inl _ \<Rightarrow> (Inl (Failure (''run not found: '' @ runId)), tick w1)
             | Inr (False, db) \<Rightarrow>
                 (Inl (LeaseHeld runId (case fst (getRunLease runId db) of Some h \<Rightarrow> h | None \<Rightarrow> ''unknown'')), (tick w1)\<lparr>w_db := db\<rparr>)
             | Inr (True, db) \<Rightarrow>
                 finallyE
                   (bindE (transition d runId (edit (\<lambda>r. mark_run RunRunning (reopen_stages (reopen_if reopenable) stages r))) (Some holder)) (\<lambda>next.
                    thenE (eventE d runId (run_resumed [(''reopened'', JStr ''action_dispatch''), (''reason'', JStr reason), (''stages'', stages_json stages)]))
                      (returnE next)))
                   (on_db (releaseLease runId holder))
                   ((tick w1)\<lparr>w_db := db\<rparr>)))"

end
