(* ===== verification/Orch_Logic.thy ===== *)
theory Orch_Logic
  imports Orchestrator
begin

text \<open>
  A program logic for the stage machine of \<open>Orchestrator\<close>. The stage handlers and agents are arbitrary
  computations that keep the contract the code states for them (a handler never changes run state
  itself): \<open>keeps\<close>. While one of them is awaited another executor may adopt the run; from then on the
  contract promises only what every executor keeps: well-formed rows, and attempts that do not fall.
  \<open>outcome\<close> is a total-correctness triple over computations with a
  postcondition for the value and one for the exception; its rules follow the combinators, and \<open>weight\<close>
  is the measure by which a step of the walk brings the execution nearer to its end.
\<close>

section \<open>Run state seen by an executor\<close>

definition core :: "research_run \<Rightarrow> run_status \<times> (run_stage_name \<times> stage_state \<times> nat \<times> instant option) list" where
  "core run = (run_status run, map (\<lambda>r. (sr_stage r, sr_state r, sr_attempt r, sr_startedAt r)) (run_stages run))"

definition owns :: "id \<Rightarrow> string \<Rightarrow> world \<Rightarrow> bool" where
  "owns runId h w \<longleftrightarrow> fst (getRunLease runId (w_db w)) = Some h"

definition doc :: "id \<Rightarrow> world \<Rightarrow> research_run" where
  "doc runId w = the (getRun runId (w_db w))"

definition control_keys :: "id \<Rightarrow> string set" where
  "control_keys runId = {qgRoundKey runId, iterationRoundKey runId} \<union> range (agentDoneKey runId)"

definition started_ok :: "research_run \<Rightarrow> bool" where
  "started_ok run \<longleftrightarrow> (\<forall>r \<in> set (run_stages run). sr_startedAt r = None \<longrightarrow> sr_attempt r \<le> 1)"

definition attempt_of :: "run_stage_name \<Rightarrow> research_run \<Rightarrow> nat" where
  "attempt_of s run = (case find_stage s (run_stages run) of Some r \<Rightarrow> sr_attempt r | None \<Rightarrow> 0)"

definition attempts_le :: "research_run \<Rightarrow> research_run \<Rightarrow> bool" where
  "attempts_le a b \<longleftrightarrow> (\<forall>s. attempt_of s a \<le> attempt_of s b)"

definition kept :: "id \<Rightarrow> string \<Rightarrow> world \<Rightarrow> world \<Rightarrow> bool" where
  "kept runId h w w' \<longleftrightarrow>
     (runs_ok (w_db w) \<longrightarrow>
        runs_ok (w_db w') \<and>
        (started_ok (doc runId w) \<longrightarrow> started_ok (doc runId w') \<and> attempts_le (doc runId w) (doc runId w')) \<and>
        (owns runId h w' \<longrightarrow> owns runId h w \<and> core (doc runId w') = core (doc runId w))) \<and>
     (\<forall>key \<in> control_keys runId. getMeta key (w_db w') = getMeta key (w_db w))"

definition keeps :: "id \<Rightarrow> string \<Rightarrow> 'a comp \<Rightarrow> bool" where
  "keeps runId h m \<longleftrightarrow> (\<forall>w. kept runId h w (snd (m w)))"

lemma attempts_le_refl [simp]: "attempts_le a a"
  by (simp add: attempts_le_def)

lemma attempts_le_trans: "attempts_le a b \<Longrightarrow> attempts_le b c \<Longrightarrow> attempts_le a c"
  unfolding attempts_le_def using le_trans by blast

lemma kept_refl [simp]: "kept runId h w w"
  by (simp add: kept_def)

lemma kept_trans: "kept runId h a b \<Longrightarrow> kept runId h b c \<Longrightarrow> kept runId h a c"
  by (auto simp: kept_def intro: attempts_le_trans)

lemma owns_cong: "db_runs (w_db w') = db_runs (w_db w) \<Longrightarrow> owns runId h w' = owns runId h w"
  by (simp add: owns_def getRunLease_def find_run_def)

lemma doc_cong: "db_runs (w_db w') = db_runs (w_db w) \<Longrightarrow> doc runId w' = doc runId w"
  by (simp add: doc_def getRun_def find_run_def)

lemma kept_frame:
  assumes "db_runs (w_db w') = db_runs (w_db w)" "\<And>key. key \<in> control_keys runId \<Longrightarrow> getMeta key (w_db w') = getMeta key (w_db w)"
  shows "kept runId h w w'"
  using assms owns_cong [OF assms(1)] doc_cong [OF assms(1)] runs_unchanged [OF assms(1)] by (simp add: kept_def)

subsection \<open>Composition\<close>

lemma keeps_return [simp]: "keeps runId h (returnE a)"
  by (simp add: keeps_def returnE_def)

lemma keeps_throw [simp]: "keeps runId h (throwE e)"
  by (simp add: keeps_def throwE_def)

lemma keeps_read [simp]: "keeps runId h (readE f)"
  by (simp add: keeps_def readE_def)

lemma keeps_do: "(\<And>w. kept runId h w (f w)) \<Longrightarrow> keeps runId h (doE f)"
  by (simp add: keeps_def doE_def)

lemma keeps_bind:
  assumes "keeps runId h m" "\<And>a. keeps runId h (f a)"
  shows "keeps runId h (bindE m f)"
  unfolding keeps_def
proof
  fix w
  obtain r w1 where m: "m w = (r, w1)" by (cases "m w")
  then have "kept runId h w w1" using assms(1) by (metis keeps_def snd_conv)
  then show "kept runId h w (snd (bindE m f w))"
    using m assms(2) by (cases r) (auto simp: bindE_def keeps_def intro: kept_trans)
qed

lemma keeps_then: "keeps runId h m \<Longrightarrow> keeps runId h k \<Longrightarrow> keeps runId h (thenE m k)"
  by (simp add: thenE_def keeps_bind)

lemma keeps_catch:
  assumes "keeps runId h m" "\<And>e. keeps runId h (f e)"
  shows "keeps runId h (catchE m f)"
  unfolding keeps_def
proof
  fix w
  obtain r w1 where m: "m w = (r, w1)" by (cases "m w")
  then have "kept runId h w w1" using assms(1) by (metis keeps_def snd_conv)
  then show "kept runId h w (snd (catchE m f w))"
    using m assms(2) by (cases r) (auto simp: catchE_def keeps_def intro: kept_trans)
qed

lemma keeps_when: "keeps runId h m \<Longrightarrow> keeps runId h (whenE b m)"
  by (simp add: whenE_def)

subsection \<open>Bookkeeping keeps run state\<close>

definition quiet :: "'a comp \<Rightarrow> bool" where
  "quiet m \<longleftrightarrow> (\<forall>w. db_runs (w_db (snd (m w))) = db_runs (w_db w) \<and> db_meta (w_db (snd (m w))) = db_meta (w_db w) \<and>
     w_budget (snd (m w)) = w_budget w \<and> w_signal (snd (m w)) = w_signal w)"

lemma quiet_keeps: "quiet m \<Longrightarrow> keeps runId h m"
  by (simp add: quiet_def keeps_def kept_frame getMeta_def)

lemma quiet_simple [simp]: "quiet (returnE a)" "quiet (throwE e)" "quiet (readE f)"
  by (simp_all add: quiet_def comp_defs)

lemma quiet_bind:
  assumes "quiet m" "\<And>a. quiet (f a)"
  shows "quiet (bindE m f)"
  unfolding quiet_def
proof
  fix w
  obtain r w1 where m: "m w = (r, w1)" by (cases "m w")
  show "db_runs (w_db (snd (bindE m f w))) = db_runs (w_db w) \<and> db_meta (w_db (snd (bindE m f w))) = db_meta (w_db w) \<and>
     w_budget (snd (bindE m f w)) = w_budget w \<and> w_signal (snd (bindE m f w)) = w_signal w"
    using m assms(1) [unfolded quiet_def, rule_format, of w] assms(2) by (cases r) (auto simp: bindE_def quiet_def)
qed

lemma quiet_then: "quiet m \<Longrightarrow> quiet k \<Longrightarrow> quiet (thenE m k)"
  by (simp add: thenE_def quiet_bind)

lemma quiet_when: "quiet m \<Longrightarrow> quiet (whenE b m)"
  by (simp add: whenE_def)

lemma tick_simps [simp]: "w_db (tick w) = w_db w" "w_budget (tick w) = w_budget w" "w_signal (tick w) = w_signal w" "w_wire (tick w) = w_wire w"
  by (simp_all add: tick_def)

lemma on_db_simps [simp]: "w_db (on_db f w) = f (w_db w)" "w_budget (on_db f w) = w_budget w" "w_signal (on_db f w) = w_signal w"
  by (simp_all add: on_db_def)

lemma quiet_event [simp]: "quiet (eventE d r e)"
  by (simp add: quiet_def eventE_def doE_def appendEvent_frame)

lemma quiet_note [simp]: "quiet (noteE d r x)"
  by (simp add: noteE_def)

lemma putObject_meta: "putObject oi n db = Inr db' \<Longrightarrow> db_meta db' = db_meta db"
  by (auto simp: putObject_def Let_def split: option.splits if_splits)

lemma quiet_putObject [simp]: "quiet (putObjectE d kind payload)"
  by (auto simp: quiet_def putObjectE_def dest: putObject_runs putObject_meta split: sum.splits)

lemma quiet_apply: "(\<And>w. quiet (m w)) \<Longrightarrow> quiet (\<lambda>w. m w (tick w))" "(\<And>w. quiet (m w)) \<Longrightarrow> quiet (\<lambda>w. m w w)"
  by (simp_all add: quiet_def)

lemma quiet_control [simp]: "quiet (persistKernelControl d run ph a)"
  unfolding persistKernelControl_def Let_def by (rule quiet_apply) (intro quiet_then; simp)

section \<open>Row updates\<close>

lemma runs_ok_update:
  assumes "runs_ok db" "\<And>r. r \<in> set (db_runs db) \<Longrightarrow> P r \<Longrightarrow> row_ok r \<Longrightarrow> row_ok (f r) \<and> rr_id (f r) = rr_id r"
  shows "runs_ok (db\<lparr>db_runs := fst (sql_update P f (db_runs db))\<rparr>)"
proof -
  have rows: "\<And>r. r \<in> set (db_runs db) \<Longrightarrow> row_ok r" using assms(1) by (simp add: runs_ok_def)
  have "map rr_id (fst (sql_update P f (db_runs db))) = map rr_id (db_runs db)"
    using assms(2) rows by (auto simp: sql_update_rows)
  moreover have "\<forall>r \<in> set (fst (sql_update P f (db_runs db))). row_ok r"
    using assms(2) rows by (auto simp: sql_update_rows)
  ultimately show ?thesis using assms(1) by (simp add: runs_ok_def)
qed

lemma find_run_row_ok: "runs_ok db \<Longrightarrow> find_run runId db = Some r \<Longrightarrow> row_ok r \<and> rr_id r = runId"
  by (auto simp: runs_ok_def find_run_def dest: find_Some_iff_set)

lemma updateRun_found:
  assumes "runs_ok db" "find_run runId db = Some row" "run_id run = runId" "wf_stages (run_stages run)"
  obtains db' row' where "updateRun run t db = Inr db'" "runs_ok db'" "find_run runId db' = Some row'" "rr_doc row' = run"
    "rr_leaseHolder row' = rr_leaseHolder row" "db_meta db' = db_meta db"
proof -
  let ?f = "\<lambda>r. r\<lparr>rr_status := run_status run, rr_currentStage := run_currentStage run, rr_doc := run, rr_updatedAt := t\<rparr>"
  let ?db = "db\<lparr>db_runs := fst (sql_update (\<lambda>r. rr_id r = run_id run) ?f (db_runs db))\<rparr>"
  have row: "row \<in> set (db_runs db)" "rr_id row = runId"
    using assms(2) by (auto simp: find_run_def dest: find_Some_iff_set)
  have "length (filter (\<lambda>r. rr_id r = rr_id row \<and> True) (db_runs db)) = 1"
    using assms(1) row(1) by (subst filter_unique_length) (auto simp: runs_ok_def)
  then have "updateRun run t db = Inr ?db"
    using row(2) assms(3) by (simp add: updateRun_def sql_update_def)
  moreover have "runs_ok ?db" using assms by (intro runs_ok_update) (auto simp: row_ok_def)
  moreover have "find_run runId ?db = Some (?f row)"
    using assms(2,3) row(2) by (subst find_run_update) auto
  ultimately show ?thesis using that [of ?db "?f row"] by simp
qed

lemma renewLease_effect:
  assumes "runs_ok db"
  shows "runs_ok (renewLease runId h t db)" "db_meta (renewLease runId h t db) = db_meta db"
    "getRun r (renewLease runId h t db) = getRun r db" "fst (getRunLease r (renewLease runId h t db)) = fst (getRunLease r db)"
proof -
  note upd = find_run_update [where P = "\<lambda>r. rr_id r = runId \<and> rr_leaseHolder r = Some h" and f = "\<lambda>r. r\<lparr>rr_leaseExpiresAt := Some t\<rparr>" and db = db]
  show "runs_ok (renewLease runId h t db)"
    unfolding renewLease_def using assms by (intro runs_ok_update) (auto simp: row_ok_def)
  show "db_meta (renewLease runId h t db) = db_meta db" by (simp add: renewLease_def)
  show "getRun r (renewLease runId h t db) = getRun r db"
    unfolding getRun_def renewLease_def by (subst upd) (auto simp: option.map_comp comp_def intro: option.map_cong)
  show "fst (getRunLease r (renewLease runId h t db)) = fst (getRunLease r db)"
    unfolding getRunLease_def renewLease_def by (subst upd) (auto split: option.splits)
qed

section \<open>Specifications of computations\<close>

definition rinv :: "id \<Rightarrow> string \<Rightarrow> world \<Rightarrow> bool" where
  "rinv runId h w \<longleftrightarrow> runs_ok (w_db w) \<and> started_ok (doc runId w)"

definition sync :: "id \<Rightarrow> string \<Rightarrow> research_run \<Rightarrow> world \<Rightarrow> bool" where
  "sync runId h run w \<longleftrightarrow> rinv runId h w \<and> (owns runId h w \<longrightarrow> core (doc runId w) = core run)"

definition adv :: "id \<Rightarrow> string \<Rightarrow> world \<Rightarrow> world \<Rightarrow> bool" where
  "adv runId h w w' \<longleftrightarrow> rinv runId h w' \<and> attempts_le (doc runId w) (doc runId w') \<and> (owns runId h w' \<longrightarrow> owns runId h w)"

definition same :: "world \<Rightarrow> world \<Rightarrow> bool" where
  "same w w' \<longleftrightarrow> db_runs (w_db w') = db_runs (w_db w) \<and> db_meta (w_db w') = db_meta (w_db w) \<and> w_budget w' = w_budget w \<and> w_signal w' = w_signal w"

definition outcome ::
  "id \<Rightarrow> string \<Rightarrow> world \<Rightarrow> (exn + 'a) \<times> world \<Rightarrow> ('a \<Rightarrow> world \<Rightarrow> bool) \<Rightarrow> (exn \<Rightarrow> world \<Rightarrow> bool) \<Rightarrow> bool" where
  "outcome runId h w res Q E \<longleftrightarrow> adv runId h w (snd res) \<and> (case fst res of Inr a \<Rightarrow> Q a (snd res) | Inl e \<Rightarrow> E e (snd res))"

lemma core_attempt: "core a = core b \<Longrightarrow> attempt_of s a = attempt_of s b"
proof -
  have "map_option sr_attempt (find_stage s rs) =
      map_option (\<lambda>(_, _, n, _). n) (List.find (\<lambda>x. fst x = s) (map (\<lambda>r. (sr_stage r, sr_state r, sr_attempt r, sr_startedAt r)) rs))" for rs
    by (induction rs) (auto simp: find_stage_def)
  moreover have "attempt_of s run = (case map_option sr_attempt (find_stage s (run_stages run)) of Some n \<Rightarrow> n | None \<Rightarrow> 0)" for run
    by (simp add: attempt_of_def split: option.split)
  moreover assume "core a = core b"
  ultimately show ?thesis by (simp add: core_def)
qed

lemma core_started: "core a = core b \<Longrightarrow> started_ok a = started_ok b"
proof -
  have "started_ok run = list_all (\<lambda>(_, _, n, t). t = None \<longrightarrow> n \<le> 1) (snd (core run))" for run
    by (auto simp: started_ok_def core_def list_all_iff)
  then show "core a = core b \<Longrightarrow> started_ok a = started_ok b" by simp
qed

lemma core_stages_eq: "core a = core b \<Longrightarrow> map sr_stage (run_stages a) = map sr_stage (run_stages b)"
proof -
  have "map sr_stage (run_stages run) = map fst (snd (core run))" for run by (simp add: core_def)
  then show "core a = core b \<Longrightarrow> map sr_stage (run_stages a) = map sr_stage (run_stages b)" by metis
qed

lemma core_attempts_le: "core a = core b \<Longrightarrow> attempts_le a b"
  using core_attempt [of a b] by (simp add: attempts_le_def)

lemma adv_trans: "adv runId h a b \<Longrightarrow> adv runId h b c \<Longrightarrow> adv runId h a c"
  by (auto simp: adv_def intro: attempts_le_trans)

lemma kept_adv: "rinv runId h w \<Longrightarrow> kept runId h w w' \<Longrightarrow> adv runId h w w'"
  by (auto simp: rinv_def adv_def kept_def)

lemma kept_sync: "sync runId h run w \<Longrightarrow> kept runId h w w' \<Longrightarrow> sync runId h run w'"
  unfolding sync_def using kept_adv [of runId h w w'] by (auto simp: adv_def kept_def rinv_def)

lemma sync_rinv: "sync runId h run w \<Longrightarrow> rinv runId h w"
  by (simp add: sync_def)

lemma same_kept: "same w w' \<Longrightarrow> kept runId h w w'"
  by (simp add: same_def kept_frame getMeta_def)

lemma quiet_same: "quiet m \<Longrightarrow> same w (snd (m w))"
  by (simp add: quiet_def same_def)

lemma adv_refl: "rinv runId h w \<Longrightarrow> adv runId h w w"
  using kept_adv kept_refl by blast

subsection \<open>Rules\<close>

lemma outcome_bind:
  assumes "outcome runId h w (m w) Q1 E" "\<And>a w1. adv runId h w w1 \<Longrightarrow> Q1 a w1 \<Longrightarrow> outcome runId h w1 (f a w1) Q E"
  shows "outcome runId h w (bindE m f w) Q E"
proof -
  obtain r w1 where m: "m w = (r, w1)" by (cases "m w")
  show ?thesis
  proof (cases r)
    case (Inl e) then show ?thesis using assms(1) m by (simp add: outcome_def bindE_def)
  next
    case (Inr a)
    then have a: "adv runId h w w1" "Q1 a w1" using assms(1) m by (auto simp: outcome_def)
    then have "outcome runId h w1 (f a w1) Q E" by (rule assms(2))
    then show ?thesis using a(1) m Inr by (auto simp: outcome_def bindE_def intro: adv_trans)
  qed
qed

lemma outcome_conseq:
  "outcome runId h w res Q' E' \<Longrightarrow> (\<And>a w'. adv runId h w w' \<Longrightarrow> Q' a w' \<Longrightarrow> Q a w') \<Longrightarrow> (\<And>e w'. adv runId h w w' \<Longrightarrow> E' e w' \<Longrightarrow> E e w') \<Longrightarrow>
   outcome runId h w res Q E"
  by (auto simp: outcome_def split: sum.splits)

lemma outcome_return: "rinv runId h w \<Longrightarrow> Q a w \<Longrightarrow> outcome runId h w (returnE a w) Q E"
  by (simp add: outcome_def returnE_def adv_refl)

lemma outcome_throw: "rinv runId h w \<Longrightarrow> E e w \<Longrightarrow> outcome runId h w (throwE e w) Q E"
  by (simp add: outcome_def throwE_def adv_refl)

lemma outcome_keeps:
  assumes "keeps runId h m" "rinv runId h w"
  shows "outcome runId h w (m w) (\<lambda>_. kept runId h w) (\<lambda>_. kept runId h w)"
  using assms kept_adv by (auto simp: outcome_def keeps_def split: sum.splits)

lemma outcome_catch:
  assumes "outcome runId h w (m w) Q E1" "\<And>e w1. adv runId h w w1 \<Longrightarrow> E1 e w1 \<Longrightarrow> outcome runId h w1 (f e w1) Q E"
  shows "outcome runId h w (catchE m f w) Q E"
proof -
  obtain r w1 where m: "m w = (r, w1)" by (cases "m w")
  show ?thesis
  proof (cases r)
    case (Inr a) then show ?thesis using assms(1) m by (simp add: outcome_def catchE_def)
  next
    case (Inl e)
    then have a: "adv runId h w w1" "E1 e w1" using assms(1) m by (auto simp: outcome_def)
    then have "outcome runId h w1 (f e w1) Q E" by (rule assms(2))
    then show ?thesis using a(1) m Inl by (auto simp: outcome_def catchE_def intro: adv_trans)
  qed
qed

text \<open>A calm computation never throws and touches neither run state nor the keys that steer the machine.\<close>

definition calm :: "'a comp \<Rightarrow> bool" where
  "calm m \<longleftrightarrow> quiet m \<and> (\<forall>w. isl (fst (m w)) = False)"

lemma outcome_calm_then:
  assumes "calm m" "rinv runId h w" "\<And>w1. same w w1 \<Longrightarrow> adv runId h w w1 \<Longrightarrow> outcome runId h w1 (k w1) Q E"
  shows "outcome runId h w (thenE m k w) Q E"
  unfolding thenE_def
proof (rule outcome_bind)
  have "same w (snd (m w))" using assms(1) by (simp add: calm_def quiet_same)
  then show "outcome runId h w (m w) (\<lambda>_. same w) E"
    using assms(1,2) kept_adv same_kept by (auto simp: outcome_def calm_def split: sum.splits) (metis isl_def)
qed (rule assms(3))

lemma calm_event [simp]: "calm (eventE d r e)"
  unfolding calm_def using quiet_event [of d r e] by (simp add: eventE_def doE_def)

lemma calm_note [simp]: "calm (noteE d r x)"
  by (simp add: noteE_def)

lemma calm_return [simp]: "calm (returnE a)"
  by (simp add: calm_def returnE_def quiet_def)

lemma calm_when: "calm m \<Longrightarrow> calm (whenE b m)"
  by (simp add: whenE_def)

lemma calm_then: "calm m \<Longrightarrow> calm k \<Longrightarrow> calm (thenE m k)"
proof -
  assume c: "calm m" "calm k"
  have "\<not> isl (fst (thenE m k w))" for w
  proof -
    obtain a w1 where "m w = (Inr a, w1)"
      using c(1) unfolding calm_def by (cases "m w"; cases "fst (m w)") (auto dest: spec [of _ w])
    then show ?thesis using c(2) by (simp add: calm_def thenE_def bindE_def)
  qed
  then show ?thesis using c by (simp add: calm_def quiet_then)
qed

lemma calm_put: "jstr ''id'' payload \<noteq> None \<Longrightarrow> calm (putObjectE d kind payload)"
  unfolding calm_def using quiet_putObject [of d kind payload]
  by (auto simp: putObjectE_def putObject_def Let_def split: option.splits sum.splits)

lemma calm_apply: "(\<And>w. calm (m w)) \<Longrightarrow> calm (\<lambda>w. m w (tick w))"
  using quiet_apply(1) [of m] by (simp add: calm_def)

lemma jstr_id [simp]: "jstr ''id'' (makeKernelControlState i t) = Some (ki_id i)" "jstr ''id'' (plan_json p) = Some (wp_id p)"
  by (simp_all add: jstr_def jget_def makeKernelControlState_def plan_json_def)

lemma calm_control [simp]: "calm (persistKernelControl d run ph a)"
  unfolding persistKernelControl_def Let_def by (rule calm_apply, rule calm_then) (auto intro: calm_put)

lemma calm_plan [simp]: "calm (putObjectE d kind (plan_json p))"
  by (rule calm_put) simp

section \<open>Edits and transitions\<close>

definition edits :: "(research_run \<Rightarrow> research_run comp) \<Rightarrow> (world \<Rightarrow> research_run \<Rightarrow> research_run) \<Rightarrow> bool" where
  "edits fn f \<longleftrightarrow> (\<forall>r w. fst (fn r w) = Inr (f w r) \<and> same w (snd (fn r w)))"

text \<open>An edit acts on the core of a run document, keeps the run and its stages, and does not lower an
  attempt of a document whose core is that of \<open>run\<close>.\<close>

definition good_edit :: "research_run \<Rightarrow> (research_run \<Rightarrow> research_run) \<Rightarrow> bool" where
  "good_edit run f \<longleftrightarrow> (\<forall>a. run_id (f a) = run_id a \<and> map sr_stage (run_stages (f a)) = map sr_stage (run_stages a) \<and>
     (core a = core run \<longrightarrow> core (f a) = core (f run) \<and> (started_ok a \<longrightarrow> attempts_le a (f a) \<and> started_ok (f a))))"

lemma edits_edit: "edits (edit f) (\<lambda>_. f)"
  by (simp add: edits_def edit_def returnE_def same_def)

lemma edits_edit_at: "edits (edit_at d f) (\<lambda>w. f (now d w))"
  by (simp add: edits_def edit_at_def same_def)

lemma same_refl [simp]: "same w w"
  by (simp add: same_def)

lemma same_trans: "same a b \<Longrightarrow> same b c \<Longrightarrow> same a c"
  by (simp add: same_def)

definition moved :: "id \<Rightarrow> string \<Rightarrow> (research_run \<Rightarrow> research_run \<Rightarrow> bool) \<Rightarrow> research_run \<Rightarrow> world \<Rightarrow> research_run \<Rightarrow> world \<Rightarrow> bool" where
  "moved runId h R run w run' w' \<longleftrightarrow> owns runId h w \<and> owns runId h w' \<and> sync runId h run' w' \<and> R run run' \<and>
     db_meta (w_db w') = db_meta (w_db w) \<and> w_budget w' = w_budget w \<and> w_signal w' = w_signal w"

lemma core_updatedAt [simp]: "core (run\<lparr>run_updatedAt := t\<rparr>) = core run"
  by (simp add: core_def)

lemma transition_outcome:
  assumes s: "sync runId h run w" and e: "edits fn f" and g: "\<And>u. good_edit run (f u)"
  shows "outcome runId h w (transition d runId fn (Some h) w)
    (moved runId h (\<lambda>r r'. \<exists>u. core r' = core (f u r)) run w)
    (\<lambda>ex w'. ex = LeaseLost runId \<and> w' = w \<and> \<not> owns runId h w)"
proof (cases "owns runId h w")
  case False
  then have "transition d runId fn (Some h) w = (Inl (LeaseLost runId), w)"
    by (simp add: transition_def holds_lease_def owns_def)
  then show ?thesis using False adv_refl [OF sync_rinv [OF s]] by (simp add: outcome_def)
next
  case True
  have ok: "runs_ok (w_db w)" and st: "started_ok (doc runId w)" and cr: "core (doc runId w) = core run"
    using s True by (auto simp: sync_def rinv_def)
  obtain row where row: "find_run runId (w_db w) = Some row" "rr_leaseHolder row = Some h"
    using True by (auto simp: owns_def getRunLease_def split: option.splits)
  have rowok: "row_ok row" "rr_id row = runId" using find_run_row_ok [OF ok row(1)] by auto
  have doc: "doc runId w = rr_doc row" by (simp add: doc_def getRun_def row)
  obtain w1 where fn: "fn (rr_doc row) w = (Inr (f w (rr_doc row)), w1)" "same w w1"
    using e unfolding edits_def by (metis prod.collapse)
  let ?n = "(f w (rr_doc row))\<lparr>run_updatedAt := now d w1\<rparr>"
  have gw: "run_id (f w (rr_doc row)) = run_id (rr_doc row)"
      "map sr_stage (run_stages (f w (rr_doc row))) = map sr_stage (run_stages (rr_doc row))"
      "core (f w (rr_doc row)) = core (f w run)" "attempts_le (rr_doc row) (f w (rr_doc row))" "started_ok (f w (rr_doc row))"
    using g [of w, unfolded good_edit_def, THEN spec, of "rr_doc row"] st cr unfolding doc by blast+
  have ge: "run_id ?n = runId" "wf_stages (run_stages ?n)" "core ?n = core (f w run)"
    using gw(1-3) rowok by (simp_all add: row_ok_def wf_stages_def)
  have "attempts_le (rr_doc row) (f w (rr_doc row))" "started_ok (f w (rr_doc row))"
    using gw(4,5) by blast+
  then have le: "attempts_le (doc runId w) ?n" "started_ok ?n"
    by (simp_all add: doc attempts_le_def attempt_of_def started_ok_def)
  have rows1: "db_runs (w_db w1) = db_runs (w_db w)" using fn(2) by (simp add: same_def)
  then have ok1: "runs_ok (w_db w1)" and f1: "find_run runId (w_db w1) = Some row"
    using ok row(1) runs_unchanged [OF rows1] by (simp_all add: find_run_def)
  obtain db' row' where u: "updateRun ?n (now d (tick w1)) (w_db w1) = Inr db'" "runs_ok db'"
      "find_run runId db' = Some row'" "rr_doc row' = ?n" "rr_leaseHolder row' = Some h" "db_meta db' = db_meta (w_db w1)"
    using updateRun_found [OF ok1 f1 ge(1,2), of "now d (tick w1)"] row(2) by metis
  let ?w2 = "(tick (tick w1))\<lparr>w_db := db'\<rparr>"
  let ?w' = "renew d (Some h) runId ?w2"
  have "fst (getRunLease runId (w_db w1)) = Some h" by (simp add: getRunLease_def f1 row(2))
  then have t: "transition d runId fn (Some h) w = (Inr ?n, ?w')"
    using True fn(1) u(1) by (simp add: transition_def holds_lease_def owns_def getRun_def row(1) Let_def)
  have w': "getRun runId (w_db ?w') = Some ?n" "fst (getRunLease runId (w_db ?w')) = Some h" "runs_ok (w_db ?w')"
      "db_meta (w_db ?w') = db_meta (w_db w)" "w_budget ?w' = w_budget w" "w_signal ?w' = w_signal w"
    using renewLease_effect [OF u(2)] u(3-6) fn(2)
    by (simp_all add: renew_def getRun_def getRunLease_def same_def)
  then have "doc runId ?w' = ?n" "owns runId h ?w'" by (simp_all add: doc_def owns_def)
  moreover have "rinv runId h ?w'" using calculation w'(3) le(2) by (simp add: rinv_def)
  ultimately show ?thesis
    unfolding t using w'(4-6) True ge(3) le(1) by (auto simp: outcome_def moved_def sync_def adv_def)
qed

subsection \<open>Edits that leave attempts alone\<close>

definition tup :: "stage_record \<Rightarrow> run_stage_name \<times> stage_state \<times> nat \<times> instant option" where
  "tup r = (sr_stage r, sr_state r, sr_attempt r, sr_startedAt r)"

definition prov :: "research_run \<Rightarrow> (run_stage_name \<times> nat \<times> instant option) list" where
  "prov run = map (\<lambda>r. (sr_stage r, sr_attempt r, sr_startedAt r)) (run_stages run)"

definition plain_edit :: "(research_run \<Rightarrow> research_run) \<Rightarrow> bool" where
  "plain_edit F \<longleftrightarrow> (\<exists>G. \<forall>a. core (F a) = G (core a)) \<and> (\<forall>a. run_id (F a) = run_id a \<and> prov (F a) = prov a)"

definition plain_record :: "(stage_record \<Rightarrow> stage_record) \<Rightarrow> bool" where
  "plain_record f \<longleftrightarrow> (\<exists>g. \<forall>r. tup (f r) = g (tup r)) \<and>
     (\<forall>r. sr_stage (f r) = sr_stage r \<and> sr_attempt (f r) = sr_attempt r \<and> sr_startedAt (f r) = sr_startedAt r)"

lemma core_tup: "core run = (run_status run, map tup (run_stages run))"
  by (simp add: core_def tup_def [abs_def])

lemma prov_facts: "prov a = prov b \<Longrightarrow> map sr_stage (run_stages a) = map sr_stage (run_stages b) \<and> attempts_le a b \<and> started_ok a = started_ok b"
proof -
  assume p: "prov a = prov b"
  have "map sr_stage (run_stages r) = map fst (prov r)" for r by (simp add: prov_def)
  moreover have "attempt_of s r = (case List.find (\<lambda>x. fst x = s) (prov r) of Some (_, n, _) \<Rightarrow> n | None \<Rightarrow> 0)" for s r
    unfolding attempt_of_def find_stage_def prov_def by (induction "run_stages r" arbitrary: r) (auto simp: find_map comp_def split: option.split)
  moreover have "started_ok r = list_all (\<lambda>(_, n, t). t = None \<longrightarrow> n \<le> 1) (prov r)" for r
    by (auto simp: started_ok_def prov_def list_all_iff)
  ultimately show ?thesis using p by (simp add: attempts_le_def)
qed

lemma plain_good: "plain_edit F \<Longrightarrow> good_edit run F"
proof -
  assume p: "plain_edit F"
  then obtain G where G: "\<And>a. core (F a) = G (core a)" by (auto simp: plain_edit_def)
  have pr: "prov (F a) = prov a" "run_id (F a) = run_id a" for a using p by (auto simp: plain_edit_def)
  have "map sr_stage (run_stages (F a)) = map sr_stage (run_stages a) \<and> attempts_le a (F a) \<and> started_ok (F a) = started_ok a" for a
    using prov_facts [OF pr(1) [of a]] prov_facts [OF pr(1) [of a, symmetric]] by blast
  then show ?thesis using pr(2) by (simp add: good_edit_def G)
qed

lemma plain_comp: "plain_edit F \<Longrightarrow> plain_edit F' \<Longrightarrow> plain_edit (\<lambda>a. F (F' a))"
  unfolding plain_edit_def
proof (elim conjE exE, intro conjI)
  fix G G' assume "\<forall>a. core (F a) = G (core a)" "\<forall>a. core (F' a) = G' (core a)"
  then show "\<exists>G''. \<forall>a. core (F (F' a)) = G'' (core a)" by (intro exI [of _ "\<lambda>c. G (G' c)"]) simp
qed simp

lemma plain_id [simp]: "plain_edit (\<lambda>a. a)"
  unfolding plain_edit_def by (auto intro: exI [of _ "\<lambda>c. c"])

lemma plain_status: "plain_edit (\<lambda>a. a\<lparr>run_status := s\<rparr>)"
  unfolding plain_edit_def by (auto simp: core_def prov_def intro: exI [of _ "\<lambda>c. (s, snd c)"])

lemma plain_fields [simp]:
  "plain_edit (\<lambda>a. a\<lparr>run_lastError := x\<rparr>)" "plain_edit (\<lambda>a. a\<lparr>run_cancelRequested := c a\<rparr>)"
  "plain_edit (\<lambda>a. a\<lparr>run_currentStage := s\<rparr>)" "plain_edit clear_parking" "plain_edit (mark_run st)"
  using plain_status [of st] unfolding plain_edit_def
  by (auto simp: core_def prov_def clear_parking_def mark_run_def [abs_def] intro: exI [of _ "\<lambda>c. c"])

lemma fst_tup [simp]: "fst (tup r) = sr_stage r"
  by (simp add: tup_def)

lemma plain_failed: "plain_edit (\<lambda>a. a\<lparr>run_status := s, run_lastError := e\<rparr>)"
  using plain_comp [OF plain_fields(1) plain_status] .

lemma map_tup_update:
  "(\<And>r. tup (f r) = g (tup r)) \<Longrightarrow> map tup (update_first (\<lambda>r. sr_stage r = s) f rs) = update_first (\<lambda>t. fst t = s) g (map tup rs)"
  by (induction rs) auto

lemma plain_on_stage: "plain_record f \<Longrightarrow> plain_edit (on_stage s f)"
proof -
  assume f: "plain_record f"
  then obtain g where g: "\<And>r. tup (f r) = g (tup r)" by (auto simp: plain_record_def)
  have "core (on_stage s f a) = (\<lambda>(st, ts). (st, update_first (\<lambda>t. fst t = s) g ts)) (core a)" for a
    by (simp add: core_tup on_stage_def map_tup_update [of f g, OF g])
  moreover have "prov (on_stage s f a) = prov a" for a
    unfolding prov_def on_stage_def using f by (simp add: plain_record_def map_update_first_key)
  ultimately show ?thesis unfolding plain_edit_def by (auto simp: on_stage_def)
qed

lemma plain_reopen_stages: "plain_record f \<Longrightarrow> plain_edit (reopen_stages f ss)"
proof (induction ss)
  case Nil
  have "reopen_stages f [] = (\<lambda>a. a)" by (simp add: fun_eq_iff reopen_stages_def)
  then show ?case by simp
next
  case (Cons s ss)
  have "reopen_stages f (s # ss) = (\<lambda>a. reopen_stages f ss (on_stage s f a))" by (simp add: fun_eq_iff reopen_stages_def)
  then show ?case using plain_comp [OF Cons.IH [OF Cons.prems] plain_on_stage [OF Cons.prems]] by simp
qed

lemma plain_setStage: "plain_record f \<Longrightarrow> plain_edit (setStage s f None)"
proof -
  assume f: "plain_record f"
  then have "(\<lambda>r. (f r)\<lparr>sr_attempt := sr_attempt r\<rparr>) = f" by (auto simp: plain_record_def fun_eq_iff)
  then show ?thesis
    unfolding setStage_def [abs_def] using plain_comp [OF plain_fields(3) plain_on_stage [OF f]] by simp
qed

lemma plain_records [simp]:
  "plain_record (end_stage st t err)" "plain_record reopen_record" "plain_record (reopen_if P)" "plain_record reopen_round"
  "plain_record (\<lambda>r. r\<lparr>sr_state := st, sr_endedAt := e, sr_checkpointRef := c r\<rparr>)"
  unfolding plain_record_def
  by (auto simp: tup_def end_stage_def reopen_record_def reopen_if_def reopen_round_def
      intro: exI [of _ "\<lambda>(s, _, n, t). (s, st, n, t)"] exI [of _ "\<lambda>(s, _, n, t). (s, SPending, n, t)"]
        exI [of _ "\<lambda>(s, x, n, t). (s, if P x then SPending else x, n, t)"])

subsection \<open>Starting a stage\<close>

lemma find_stage_core:
  assumes "core a = core b"
  shows "map_option tup (find_stage s (run_stages a)) = map_option tup (find_stage s (run_stages b))"
proof -
  have "map_option tup (find_stage s rs) = List.find (\<lambda>t. fst t = s) (map tup rs)" for rs
    by (simp add: find_stage_def find_map tup_def comp_def)
  then show ?thesis using assms by (simp add: core_tup)
qed

lemma next_attempt_core: "core a = core b \<Longrightarrow> next_attempt s a = next_attempt s b"
  using find_stage_core [of a b s]
  by (auto simp: next_attempt_def tup_def split: option.splits)

lemma attempt_of_setStage:
  "attempt_of s' (setStage s f (Some n) a) = (if s' = s \<and> find_stage s (run_stages a) \<noteq> None then n else attempt_of s' a)"
  if "\<And>r. sr_stage (f r) = sr_stage r"
proof -
  let ?f = "\<lambda>r. (f r)\<lparr>sr_attempt := n\<rparr>"
  show ?thesis
  proof (cases "s' = s")
    case True
    have "List.find (\<lambda>r. sr_stage r = s) (update_first (\<lambda>r. sr_stage r = s) ?f (run_stages a)) =
        map_option ?f (List.find (\<lambda>r. sr_stage r = s) (run_stages a))"
      using that by (intro find_update_first_same) simp
    then show ?thesis using True
      by (simp add: attempt_of_def setStage_def on_stage_def find_stage_def split: option.splits)
  next
    case False
    have "List.find (\<lambda>r. sr_stage r = s') (update_first (\<lambda>r. sr_stage r = s) ?f (run_stages a)) =
        List.find (\<lambda>r. sr_stage r = s') (run_stages a)"
      using that False by (intro find_update_first_other) auto
    then show ?thesis using False by (simp add: attempt_of_def setStage_def on_stage_def find_stage_def)
  qed
qed

lemma good_start: "good_edit run (setStage s (begin_record t) (Some (next_attempt s run)))"
proof -
  let ?F = "setStage s (begin_record t) (Some (next_attempt s run))"
  let ?f = "\<lambda>r. (begin_record t r)\<lparr>sr_attempt := next_attempt s run\<rparr>"
  have core: "core (?F a) = (\<lambda>(st, ts). (st, update_first (\<lambda>x. fst x = s) (\<lambda>(sg, _, _, _). (sg, SRunning, next_attempt s run, Some t)) ts)) (core a)" for a
    using map_tup_update [of ?f "\<lambda>(sg, _, _, _). (sg, SRunning, next_attempt s run, Some t)" s "run_stages a"]
    by (simp add: core_tup setStage_def on_stage_def) (simp add: tup_def begin_record_def)
  have "attempts_le a (?F a) \<and> started_ok (?F a)" if a: "core a = core run" "started_ok a" for a
  proof
    have n: "next_attempt s run = next_attempt s a" using next_attempt_core a(1) by metis
    have "attempt_of s a \<le> next_attempt s a"
      using a(2) by (auto simp: attempt_of_def next_attempt_def started_ok_def find_stage_def dest: find_Some_iff_set split: option.splits)
    then show "attempts_le a (?F a)"
      by (auto simp: attempts_le_def attempt_of_setStage begin_record_def n)
    have "set (run_stages (?F a)) \<subseteq> set (run_stages a) \<union> range ?f"
      using set_update_first [of "\<lambda>r. sr_stage r = s" ?f "run_stages a"] by (auto simp: setStage_def on_stage_def)
    then show "started_ok (?F a)" using a(2) by (auto simp: started_ok_def begin_record_def)
  qed
  moreover have "run_id (?F a) = run_id a" "map sr_stage (run_stages (?F a)) = map sr_stage (run_stages a)" for a
    by (simp_all add: setStage_def on_stage_def map_update_first_key begin_record_def)
  ultimately show ?thesis unfolding good_edit_def by (auto simp: core)
qed

section \<open>The contract of handlers and agents\<close>

definition well_behaved :: "deps \<Rightarrow> id \<Rightarrow> string \<Rightarrow> bool" where
  "well_behaved d runId h \<longleftrightarrow>
     (\<forall>s hd. od_stages d s = Some hd \<longrightarrow> (\<forall>r. keeps runId h (sh_applicable hd r) \<and> keeps runId h (sh_execute hd r))) \<and>
     (\<forall>plane. od_kernelPlane d = Some plane \<longrightarrow> (\<forall>c. keeps runId h (plane c))) \<and>
     keeps runId h (od_consolidate d runId)"

section \<open>Progress of the walk\<close>

definition open_count :: "research_run \<Rightarrow> nat" where
  "open_count run = length (filter (\<lambda>r. \<not> settled (sr_state r)) (run_stages run))"

definition agents_open :: "id \<Rightarrow> loop_state \<Rightarrow> world \<Rightarrow> nat" where
  "agents_open runId ls w =
     length (filter (\<lambda>s. is_agent (ws_target s) \<and> \<not> agentStepDone runId ls (w_db w) (ws_id s)) (wp_steps (ls_plan ls)))"

definition rounds_left :: "id \<Rightarrow> world \<Rightarrow> nat" where
  "rounds_left runId w = (case qg_round runId (w_db w) of Some n \<Rightarrow> MAX_QUALITY_ROUNDS - n | None \<Rightarrow> 0)"

definition plan_weight :: "workflow_plan \<Rightarrow> nat" where
  "plan_weight p = (if wp_origin p = Origin_default then 2 else 0)"

definition weight :: "id \<Rightarrow> loop_state \<Rightarrow> world \<Rightarrow> nat" where
  "weight runId ls w = open_count (ls_run ls) + agents_open runId ls w + 4 * rounds_left runId w + plan_weight (ls_plan ls)"

definition linv :: "id \<Rightarrow> string \<Rightarrow> loop_state \<Rightarrow> world \<Rightarrow> bool" where
  "linv runId h ls w \<longleftrightarrow> sync runId h (ls_run ls) w \<and> run_status (ls_run ls) = RunRunning"

definition advances :: "id \<Rightarrow> string \<Rightarrow> nat \<Rightarrow> loop_step \<Rightarrow> world \<Rightarrow> bool" where
  "advances runId h n out w' \<longleftrightarrow>
     (case out of Continue ls' \<Rightarrow> linv runId h ls' w' \<and> weight runId ls' w' < n
      | Return run \<Rightarrow> run_status run \<noteq> RunCompleted)"

lemma open_count_core: "core a = core b \<Longrightarrow> open_count a = open_count b"
proof -
  have "open_count r = length (filter (\<lambda>(_, st, _, _). \<not> settled st) (snd (core r)))" for r
    by (simp add: open_count_def core_def filter_map comp_def)
  then show "core a = core b \<Longrightarrow> open_count a = open_count b" by simp
qed

lemma status_core: "core a = core b \<Longrightarrow> run_status a = run_status b"
  by (simp add: core_def)

text \<open>The keys that steer the machine, between two worlds: the quality round is the same and finished agent
  steps stay finished.\<close>

definition keys_le :: "id \<Rightarrow> world \<Rightarrow> world \<Rightarrow> bool" where
  "keys_le runId w w' \<longleftrightarrow> getMeta (qgRoundKey runId) (w_db w') = getMeta (qgRoundKey runId) (w_db w) \<and>
     (\<forall>i. getMeta (agentDoneKey runId i) (w_db w) = Some ''1'' \<longrightarrow> getMeta (agentDoneKey runId i) (w_db w') = Some ''1'')"

lemma kept_keys: "kept runId h w w' \<Longrightarrow> keys_le runId w w'"
  by (auto simp: kept_def keys_le_def control_keys_def)

lemma meta_keys: "db_meta (w_db w') = db_meta (w_db w) \<Longrightarrow> keys_le runId w w'"
  by (simp add: keys_le_def getMeta_def)

lemma keys_trans: "keys_le runId a b \<Longrightarrow> keys_le runId b c \<Longrightarrow> keys_le runId a c"
  by (simp add: keys_le_def)

lemma keys_rounds: "keys_le runId w w' \<Longrightarrow> rounds_left runId w' = rounds_left runId w"
  by (simp add: keys_le_def rounds_left_def qg_round_def)

lemma keys_agents:
  assumes "keys_le runId w w'" "ls_plan ls' = ls_plan ls" "set (ls_agents ls) \<subseteq> set (ls_agents ls')"
  shows "agents_open runId ls' w' \<le> agents_open runId ls w"
  unfolding agents_open_def assms(2)
  using assms(1,3) by (intro length_filter_mono) (auto simp: agentStepDone_def keys_le_def)

lemma weight_le:
  assumes "keys_le runId w w'" "ls_plan ls' = ls_plan ls" "set (ls_agents ls) \<subseteq> set (ls_agents ls')"
  shows "weight runId ls' w' + open_count (ls_run ls) \<le> weight runId ls w + open_count (ls_run ls')"
  using keys_agents [OF assms] keys_rounds [OF assms(1)] assms(2) by (simp add: weight_def)

lemma agents_marked:
  assumes "keys_le runId w w'" "step \<in> set (wp_steps (ls_plan ls))" "is_agent (ws_target step)"
    and "\<not> agentStepDone runId ls (w_db w) (ws_id step)"
  shows "weight runId (agent_marked step ls) w' < weight runId ls w"
proof -
  let ?P = "\<lambda>l u s. is_agent (ws_target s) \<and> \<not> agentStepDone runId l (w_db u) (ws_id s)"
  have "length (filter (?P (agent_marked step ls) w') (wp_steps (ls_plan ls))) < length (filter (?P ls w) (wp_steps (ls_plan ls)))"
    using assms(2-4) assms(1)
    by (intro length_filter_strict_mono [where x = step]) (auto simp: agentStepDone_def agent_marked_def keys_le_def)
  then show ?thesis
    using keys_rounds [OF assms(1)] by (simp add: weight_def agents_open_def agent_marked_def)
qed

subsection \<open>Shared rules\<close>

abbreviation any_exn :: "exn \<Rightarrow> world \<Rightarrow> bool" where
  "any_exn \<equiv> \<lambda>_ _. True"

lemma outcome_transition_bind:
  assumes "sync runId h run w" "edits fn f" "\<And>u. good_edit run (f u)" "E (LeaseLost runId) w"
    and "\<And>run' w1 u. moved runId h (\<lambda>r r'. core r' = core (f u r)) run w run' w1 \<Longrightarrow> outcome runId h w1 (k run' w1) Q E"
  shows "outcome runId h w (bindE (transition d runId fn (Some h)) k w) Q E"
proof (rule outcome_bind)
  show "outcome runId h w (transition d runId fn (Some h) w) (moved runId h (\<lambda>r r'. \<exists>u. core r' = core (f u r)) run w) E"
    using transition_outcome [OF assms(1-3)] by (rule outcome_conseq) (use assms(4) in auto)
next
  fix run' w1 assume "moved runId h (\<lambda>r r'. \<exists>u. core r' = core (f u r)) run w run' w1"
  then obtain u where "moved runId h (\<lambda>r r'. core r' = core (f u r)) run w run' w1" by (auto simp: moved_def)
  then show "outcome runId h w1 (k run' w1) Q E" by (rule assms(5))
qed

lemma outcome_edit_bind:
  assumes "sync runId h run w" "plain_edit F" "E (LeaseLost runId) w"
    and "\<And>run' w1. moved runId h (\<lambda>r r'. core r' = core (F r)) run w run' w1 \<Longrightarrow> outcome runId h w1 (k run' w1) Q E"
  shows "outcome runId h w (bindE (transition d runId (edit F) (Some h)) k w) Q E"
  using assms plain_good edits_edit by (intro outcome_transition_bind) auto

lemma outcome_setMeta_then:
  assumes "rinv runId h w"
    and "\<And>w1. w1 = on_db (setMeta key v) w \<Longrightarrow> rinv runId h w1 \<Longrightarrow> outcome runId h w1 (k w1) Q E"
  shows "outcome runId h w (thenE (doE (on_db (setMeta key v))) k w) Q E"
proof -
  let ?w = "on_db (setMeta key v) w"
  have rows: "db_runs (w_db ?w) = db_runs (w_db w)" by (simp add: setMeta_def)
  have eq: "owns runId h ?w = owns runId h w" "doc runId ?w = doc runId w" "runs_ok (w_db ?w) = runs_ok (w_db w)"
    by (rule owns_cong [OF rows], rule doc_cong [OF rows], rule runs_unchanged [OF rows])
  then have "adv runId h w ?w" using assms(1) by (simp add: adv_def rinv_def attempts_le_def)
  moreover have "rinv runId h ?w" using assms(1) eq by (simp add: rinv_def)
  ultimately show ?thesis
    unfolding thenE_def
  proof (intro outcome_bind [where ?Q1.0 = "\<lambda>_ w1. w1 = ?w"], goal_cases)
    case 1 then show ?case by (simp add: outcome_def doE_def)
  next
    case (2 a w1) then show ?case using assms(2) by blast
  qed
qed

lemma sync_setMeta: "sync runId h run (on_db (setMeta key v) w) = sync runId h run w"
proof -
  have rows: "db_runs (w_db (on_db (setMeta key v) w)) = db_runs (w_db w)" by (simp add: setMeta_def)
  show ?thesis unfolding sync_def rinv_def owns_cong [OF rows] doc_cong [OF rows] runs_unchanged [OF rows] by simp
qed

lemma sync_same: "same w w' \<Longrightarrow> sync runId h run w \<Longrightarrow> sync runId h run w'"
  using kept_sync same_kept by blast

lemma linv_same: "same w w' \<Longrightarrow> linv runId h ls w \<Longrightarrow> linv runId h ls w'"
  by (simp add: linv_def sync_same)

lemma linv_rinv: "linv runId h ls w \<Longrightarrow> rinv runId h w"
  by (auto simp: linv_def dest: sync_rinv)

lemma same_keys: "same w w' \<Longrightarrow> keys_le runId w w'"
  by (simp add: same_def meta_keys)

lemma keys_setMeta_done: "keys_le runId w (on_db (setMeta (agentDoneKey runId i) ''1'') w)"
  by (auto simp: keys_le_def getMeta_def setMeta_def qgRoundKey_def agentDoneKey_def)

lemma keys_setMeta_attempt: "keys_le runId w (on_db (setMeta (agentAttemptKey runId i) v) w)"
  by (auto simp: keys_le_def getMeta_def setMeta_def qgRoundKey_def agentDoneKey_def agentAttemptKey_def)

lemma moved_rinv: "moved runId h R run w run' w1 \<Longrightarrow> rinv runId h w1"
  by (auto simp: moved_def dest: sync_rinv)

lemma adv_rinv: "adv runId h w w1 \<Longrightarrow> rinv runId h w1"
  by (simp add: adv_def)

text \<open>A transition that ends the execution with a run that is not completed.\<close>

lemma outcome_return_calm:
  assumes "rinv runId h w" "calm m" "run_status run \<noteq> RunCompleted"
  shows "outcome runId h w (thenE m (returnE (Return run)) w) (advances runId h n) E"
  using assms by (intro outcome_calm_then outcome_return) (auto simp: advances_def dest: adv_rinv)

subsection \<open>Agent steps\<close>

lemma agent_marked_run [simp]: "ls_run (agent_marked step ls) = ls_run ls"
  by (simp add: agent_marked_def)

lemma then_unit: "thenE (returnE ()) k = k"
  by (simp add: fun_eq_iff thenE_def bindE_def returnE_def)

lemma mark_and_note:
  assumes "sync runId h (ls_run ls) w1" "run_status (ls_run ls) = RunRunning" "keys_le runId w w1" "calm m"
    and "step \<in> set (wp_steps (ls_plan ls))" "is_agent (ws_target step)" "\<not> agentStepDone runId ls (w_db w) (ws_id step)"
  shows "outcome runId h w1 (thenE (markAgentStepDone runId (ws_id step)) (thenE m (returnE (Continue (agent_marked step ls)))) w1)
    (advances runId h (weight runId ls w)) any_exn"
  unfolding markAgentStepDone_def
proof (rule outcome_setMeta_then [OF sync_rinv [OF assms(1)]])
  fix w2 assume w2: "w2 = on_db (setMeta (agentDoneKey runId (ws_id step)) ''1'') w1" and r: "rinv runId h w2"
  have s2: "sync runId h (ls_run ls) w2" using assms(1) sync_setMeta unfolding w2 by blast
  show "outcome runId h w2 (thenE m (returnE (Continue (agent_marked step ls))) w2) (advances runId h (weight runId ls w)) any_exn"
  proof (rule outcome_calm_then [OF assms(4) r])
    fix w3 assume "same w2 w3" "adv runId h w2 w3"
    then have "sync runId h (ls_run ls) w3" "keys_le runId w w3"
      using s2 sync_same same_keys keys_trans [OF assms(3)] keys_setMeta_done keys_trans unfolding w2 by blast+
    then show "outcome runId h w3 (returnE (Continue (agent_marked step ls)) w3) (advances runId h (weight runId ls w)) any_exn"
      using agents_marked [OF _ assms(5-7)] assms(2)
      by (intro outcome_return) (auto simp: advances_def linv_def sync_rinv)
  qed
qed

lemma note_and_mark:
  assumes "linv runId h ls w" "calm m"
    and "step \<in> set (wp_steps (ls_plan ls))" "is_agent (ws_target step)" "\<not> agentStepDone runId ls (w_db w) (ws_id step)"
  shows "outcome runId h w (thenE m (thenE (markAgentStepDone runId (ws_id step)) (returnE (Continue (agent_marked step ls)))) w)
    (advances runId h (weight runId ls w)) any_exn"
proof (rule outcome_calm_then [OF assms(2) linv_rinv [OF assms(1)]])
  fix w1 assume s: "same w w1" "adv runId h w w1"
  have "linv runId h ls w1" using linv_same [OF s(1) assms(1)] .
  then have l: "sync runId h (ls_run ls) w1" "run_status (ls_run ls) = RunRunning" by (simp_all add: linv_def)
  have eq: "thenE (markAgentStepDone runId (ws_id step)) (returnE (Continue (agent_marked step ls))) =
      thenE (markAgentStepDone runId (ws_id step)) (thenE (returnE ()) (returnE (Continue (agent_marked step ls))))"
    by (simp only: then_unit)
  show "outcome runId h w1 (thenE (markAgentStepDone runId (ws_id step)) (returnE (Continue (agent_marked step ls))) w1)
      (advances runId h (weight runId ls w)) any_exn"
    unfolding eq using l same_keys [OF s(1)] assms(3-5) by (intro mark_and_note) simp_all
qed

lemma missing_plane_outcome:
  assumes "linv runId h ls w"
  shows "outcome runId h w (missing_plane d runId (Some h) step c w) (advances runId h n) any_exn"
  unfolding missing_plane_def Let_def
proof (rule outcome_edit_bind [where run = "ls_run ls"], goal_cases)
  case (4 run' w1)
  then have "run_status run' = RunFailed" by (auto simp: moved_def core_def)
  with 4 show ?case by (intro outcome_calm_then outcome_return_calm) (auto dest: moved_rinv adv_rinv)
qed (use assms in \<open>auto simp: linv_def intro: plain_failed\<close>)

lemma plain_cancelled: "plain_edit (\<lambda>a. a\<lparr>run_status := s, run_lastError := e, run_cancelRequested := c a\<rparr>)"
proof -
  have "plain_edit (\<lambda>a. a\<lparr>run_cancelRequested := c a\<rparr>)" by simp
  then show ?thesis unfolding plain_edit_def by (auto simp: core_def prov_def intro: exI [of _ "\<lambda>k. (s, snd k)"])
qed

lemma agent_aborted_outcome:
  assumes "sync runId h run w" "E (LeaseLost runId) w"
  shows "outcome runId h w (agent_aborted d runId (Some h) step c w) (advances runId h n) E"
  unfolding agent_aborted_def Let_def
proof (rule outcome_edit_bind [where run = run], goal_cases)
  case (4 run' w1)
  then have "run_status run' = RunCancelled" by (auto simp: moved_def core_def)
  with 4 show ?case by (intro outcome_return_calm) (auto dest: moved_rinv)
qed (use assms in \<open>auto intro: plain_cancelled\<close>)

lemma run_agent_outcome:
  assumes l: "linv runId h ls w1" and k: "keys_le runId w w1" and p: "keeps runId h (plane c)"
    and a: "step \<in> set (wp_steps (ls_plan ls))" "is_agent (ws_target step)" "\<not> agentStepDone runId ls (w_db w) (ws_id step)"
  shows "outcome runId h w1 (run_agent d runId (Some h) step c plane ls w1) (advances runId h (weight runId ls w)) any_exn"
  unfolding run_agent_def
proof (rule outcome_catch [where ?E1.0 = "\<lambda>_ w'. sync runId h (ls_run ls) w' \<and> keys_le runId w w'"])
  have s1: "sync runId h (ls_run ls) w1" and st: "run_status (ls_run ls) = RunRunning" using l by (auto simp: linv_def)
  let ?E = "\<lambda>_ :: exn. \<lambda>w'. sync runId h (ls_run ls) w' \<and> keys_le runId w w'"
  show "outcome runId h w1 (bindE (plane c) (\<lambda>res.
      thenE (markAgentStepDone runId (ws_id step))
      (thenE (noteE d runId (agent_note ''agent_step_done'' c step (agent_result_json res)))
      (if ca_status res = ''aborted'' then agent_aborted d runId (Some h) step c
       else thenE (persistKernelControl d (ls_run ls) Ph_update_belief (Some c)) (returnE (Continue (agent_marked step ls)))))) w1)
    (advances runId h (weight runId ls w)) ?E"
  proof (rule outcome_bind)
    have "outcome runId h w1 (plane c w1) (\<lambda>_. kept runId h w1) (\<lambda>_. kept runId h w1)" using outcome_keeps p sync_rinv s1 by blast
    then show "outcome runId h w1 (plane c w1) (\<lambda>_. kept runId h w1) ?E"
      by (rule outcome_conseq) (use kept_sync [OF s1] kept_keys keys_trans [OF k] in blast)+
  next
    fix res w2 assume "kept runId h w1 w2"
    then have s2: "sync runId h (ls_run ls) w2" and k2: "keys_le runId w w2" using kept_sync [OF s1] kept_keys keys_trans [OF k] by blast+
    show "outcome runId h w2 (thenE (markAgentStepDone runId (ws_id step))
      (thenE (noteE d runId (agent_note ''agent_step_done'' c step (agent_result_json res)))
      (if ca_status res = ''aborted'' then agent_aborted d runId (Some h) step c
       else thenE (persistKernelControl d (ls_run ls) Ph_update_belief (Some c)) (returnE (Continue (agent_marked step ls))))) w2)
      (advances runId h (weight runId ls w)) ?E"
      unfolding markAgentStepDone_def
    proof (intro outcome_setMeta_then outcome_calm_then, goal_cases)
      case (4 w3 w4)
      then have w4: "sync runId h (ls_run ls) w4" "keys_le runId w w4"
        using s2 sync_setMeta sync_same keys_trans [OF k2 keys_setMeta_done] same_keys keys_trans by blast+
      have "sync runId h (ls_run ls) w5 \<and> weight runId (agent_marked step ls) w5 < weight runId ls w" if "same w4 w5" for w5
        using that w4 sync_same keys_trans [OF w4(2) same_keys] agents_marked [OF _ a] by blast
      then have "outcome runId h w4 (thenE (persistKernelControl d (ls_run ls) Ph_update_belief (Some c)) (returnE (Continue (agent_marked step ls))) w4)
          (advances runId h (weight runId ls w)) ?E"
        using sync_rinv [OF w4(1)] st by (intro outcome_calm_then outcome_return) (auto simp: advances_def linv_def dest: adv_rinv)
      moreover have "outcome runId h w4 (agent_aborted d runId (Some h) step c w4) (advances runId h (weight runId ls w)) ?E"
        using agent_aborted_outcome [OF w4(1)] w4 by simp
      ultimately show ?case by simp
    qed (use s2 in \<open>auto dest: sync_rinv\<close>)
  qed
next
  fix e w2 assume "sync runId h (ls_run ls) w2 \<and> keys_le runId w w2"
  then show "outcome runId h w2 (thenE (markAgentStepDone runId (ws_id step))
      (thenE (noteE d runId (agent_note ''agent_step_failed'' c step [(''error'', JStr (exn_message e))])) (returnE (Continue (agent_marked step ls)))) w2)
      (advances runId h (weight runId ls w)) any_exn"
    using a l by (intro mark_and_note) (auto simp: linv_def)
qed

lemma agent_step_outcome:
  assumes wb: "well_behaved d runId h" and l: "linv runId h ls w"
    and a: "step \<in> set (wp_steps (ls_plan ls))" "is_agent (ws_target step)" "\<not> agentStepDone runId ls (w_db w) (ws_id step)"
  shows "outcome runId h w (agent_step d runId (Some h) step c ls w) (advances runId h (weight runId ls w)) any_exn"
proof -
  have s: "sync runId h (ls_run ls) w" and st: "run_status (ls_run ls) = RunRunning" using l by (auto simp: linv_def)
  have skip: "outcome runId h w (thenE (markAgentStepDone runId (ws_id step))
      (thenE (noteE d runId x) (returnE (Continue (agent_marked step ls)))) w) (advances runId h (weight runId ls w)) any_exn" for x
    using s st a by (intro mark_and_note) (simp_all add: keys_le_def)
  have start: "outcome runId h w (thenE (doE (on_db (setMeta (agentAttemptKey runId (ws_id step)) v)))
      (thenE (persistKernelControl d (ls_run ls) Ph_act (Some c)) (thenE (noteE d runId y) (run_agent d runId (Some h) step c plane ls))) w)
      (advances runId h (weight runId ls w)) any_exn" if "od_kernelPlane d = Some plane" for v y plane
  proof (intro outcome_setMeta_then outcome_calm_then, goal_cases)
    case (6 w1 w2 w3)
    then have "linv runId h ls w3"
      using l linv_same sync_setMeta [of runId h "ls_run ls"] unfolding linv_def by metis
    moreover have "keys_le runId w w3" using 6 keys_trans [OF keys_setMeta_attempt] same_keys keys_trans by blast
    ultimately show ?case using wb that a unfolding well_behaved_def by (intro run_agent_outcome) auto
  qed (use s in \<open>auto dest: sync_rinv adv_rinv\<close>)
  show ?thesis
    unfolding agent_step_def Let_def
    using note_and_mark [OF l calm_note a] missing_plane_outcome [OF l] skip start by (simp split: option.split)
qed

subsection \<open>Stages opened and settled\<close>

definition stage_open :: "run_stage_name \<Rightarrow> research_run \<Rightarrow> bool" where
  "stage_open s run \<longleftrightarrow> (\<exists>r. find_stage s (run_stages run) = Some r \<and> \<not> settled (sr_state r))"

lemma sync_wf: "sync runId h run w \<Longrightarrow> owns runId h w \<Longrightarrow> wf_stages (run_stages run)"
proof -
  assume s: "sync runId h run w" "owns runId h w"
  then obtain row where row: "find_run runId (w_db w) = Some row" by (auto simp: owns_def getRunLease_def split: option.splits)
  then have "wf_stages (run_stages (doc runId w))"
    using s find_run_row_ok [OF _ row] by (auto simp: sync_def rinv_def doc_def getRun_def row_ok_def)
  moreover have "map sr_stage (run_stages (doc runId w)) = map sr_stage (run_stages run)"
    using s by (intro core_stages_eq) (simp add: sync_def)
  ultimately show ?thesis by (simp add: wf_stages_def)
qed

lemma step_open:
  assumes "sync runId h (ls_run ls) w" "owns runId h w" "ws_target step = StageTarget t" "step_state runId ls db step \<noteq> Terminal"
  shows "stage_open t (ls_run ls)"
  using wf_stages_find [OF sync_wf [OF assms(1,2)], of t] assms(3,4)
  by (auto simp: step_state_def stage_open_def split: if_splits)

lemma open_count_settle:
  assumes "stage_open s run" "core run' = core (setStage s f None run)" "\<And>r. settled (sr_state (f r))"
  shows "open_count run' + 1 = open_count run"
proof -
  obtain r where r: "List.find (\<lambda>r. sr_stage r = s) (run_stages run) = Some r" "\<not> settled (sr_state r)"
    using assms(1) by (auto simp: stage_open_def find_stage_def)
  have "open_count (setStage s f None run) + 1 = open_count run"
    unfolding open_count_def setStage_def on_stage_def
    using filter_update_first_less [OF r(1), of "\<lambda>r. \<not> settled (sr_state r)" "\<lambda>r. (f r)\<lparr>sr_attempt := sr_attempt r\<rparr>"] r(2) assms(3)
    by simp
  then show ?thesis using open_count_core [OF assms(2)] by simp
qed

lemma open_count_start:
  assumes "stage_open s run" "core run' = core (setStage s (begin_record t) (Some n) run)"
  shows "open_count run' = open_count run" "stage_open s run'"
proof -
  let ?f = "\<lambda>r. (begin_record t r)\<lparr>sr_attempt := n\<rparr>"
  obtain r where r: "List.find (\<lambda>r. sr_stage r = s) (run_stages run) = Some r" "\<not> settled (sr_state r)"
    using assms(1) by (auto simp: stage_open_def find_stage_def)
  have f: "\<not> settled (sr_state (?f r))" for r by (simp add: begin_record_def settled_def)
  have "open_count (setStage s (begin_record t) (Some n) run) = open_count run"
    unfolding open_count_def setStage_def on_stage_def
    using filter_update_first_same [OF r(1), of "\<lambda>r. \<not> settled (sr_state r)" ?f] r(2) f by simp
  then show "open_count run' = open_count run" using open_count_core [OF assms(2)] by simp
  have "find_stage s (run_stages (setStage s (begin_record t) (Some n) run)) = Some (?f r)"
    unfolding find_stage_def setStage_def on_stage_def
    using find_update_first_same [of "\<lambda>r. sr_stage r = s" ?f "run_stages run"] r(1) by (simp add: begin_record_def)
  then obtain r' where "find_stage s (run_stages run') = Some r'" "tup r' = tup (?f r)"
    using find_stage_core [OF assms(2), of s] by auto
  then show "stage_open s run'" using f [of r] by (auto simp: stage_open_def tup_def)
qed

lemma open_count_on_stage: "open_count (on_stage s f run) \<le> open_count run + 1"
proof -
  have "length (filter P (update_first Q f xs)) \<le> length (filter P xs) + 1" for P Q and xs :: "stage_record list"
    by (induction xs) auto
  then show ?thesis by (simp add: open_count_def on_stage_def)
qed

lemma open_count_reopen: "open_count (reopen_stages f ss run) \<le> open_count run + length ss"
proof (induction ss arbitrary: run)
  case (Cons s ss)
  have "open_count (reopen_stages f ss (on_stage s f run)) \<le> open_count (on_stage s f run) + length ss" by (rule Cons.IH)
  then show ?case using open_count_on_stage [of s f run] by (simp add: reopen_stages_def)
qed (simp add: reopen_stages_def)

text \<open>After a transition of the loop's run the walk has a known weight.\<close>

lemma moved_linv:
  assumes "moved runId h R run w run' w1" "ls_run ls = run" "run_status run' = RunRunning"
  shows "linv runId h (ls\<lparr>ls_run := run'\<rparr>) w1"
    "weight runId (ls\<lparr>ls_run := run'\<rparr>) w1 + open_count run \<le> weight runId ls w + open_count run'"
proof -
  show "linv runId h (ls\<lparr>ls_run := run'\<rparr>) w1" using assms by (simp add: moved_def linv_def)
  have "keys_le runId w w1" using assms(1) by (simp add: moved_def meta_keys)
  then show "weight runId (ls\<lparr>ls_run := run'\<rparr>) w1 + open_count run \<le> weight runId ls w + open_count run'"
    using weight_le [of runId w w1 "ls\<lparr>ls_run := run'\<rparr>" ls] assms(2) by simp
qed

lemma settle_bind:
  assumes l: "linv runId h ls w" and n: "weight runId ls w \<le> n" and op: "owns runId h w \<Longrightarrow> stage_open s (ls_run ls)"
    and e: "edits fn (\<lambda>u. setStage s (f u) None)" and f: "\<And>u. plain_record (f u)" "\<And>u r. settled (sr_state (f u r))"
    and E: "E (LeaseLost runId) w"
    and k: "\<And>run' w1. linv runId h (ls\<lparr>ls_run := run'\<rparr>) w1 \<Longrightarrow> weight runId (ls\<lparr>ls_run := run'\<rparr>) w1 < n \<Longrightarrow> outcome runId h w1 (k run' w1) Q E"
  shows "outcome runId h w (bindE (transition d runId fn (Some h)) k w) Q E"
proof (rule outcome_transition_bind [where run = "ls_run ls", OF _ e])
  show "sync runId h (ls_run ls) w" using l by (simp add: linv_def)
  show "good_edit (ls_run ls) (setStage s (f u) None)" for u using plain_setStage [OF f(1)] by (rule plain_good)
  show "E (LeaseLost runId) w" by (rule E)
next
  fix run' w1 u assume m: "moved runId h (\<lambda>r r'. core r' = core (setStage s (f u) None r)) (ls_run ls) w run' w1"
  then have c: "core run' = core (setStage s (f u) None (ls_run ls))" "owns runId h w" by (auto simp: moved_def)
  have "run_status run' = RunRunning" using c(1) l by (auto simp: linv_def core_def setStage_def on_stage_def)
  note ml = moved_linv [OF m refl this]
  have "open_count run' + 1 = open_count (ls_run ls)" using open_count_settle [OF op [OF c(2)] c(1) f(2)] .
  then show "outcome runId h w1 (k run' w1) Q E" using ml n by (intro k) auto
qed

end
