(* ===== verification/Orch_Correct.thy ===== *)
theory Orch_Correct
  imports Orch_Logic
begin

text \<open>
  The stage machine of \<open>Orchestrator\<close> is correct: each kind of step makes the walk lighter or ends the
  execution without a completed run, so the walk over the plan ends; attempts never fall; and what the
  execution returns as completed has every stage settled.
\<close>

section \<open>Stage steps\<close>

abbreviation not_budget :: "exn \<Rightarrow> world \<Rightarrow> bool" where
  "not_budget \<equiv> \<lambda>e _. \<forall>m. e \<noteq> BudgetExhausted m"

lemma weight_same: "same w w1 \<Longrightarrow> weight runId ls w1 = weight runId ls w"
  by (simp add: weight_def agents_open_def agentStepDone_def rounds_left_def qg_round_def getMeta_def same_def)

lemma continue_calm:
  assumes "linv runId h ls w" "weight runId ls w < n" "calm m"
  shows "outcome runId h w (thenE m (returnE (Continue ls)) w) (advances runId h n) E"
  using assms linv_rinv [OF assms(1)]
  by (intro outcome_calm_then outcome_return) (auto simp: advances_def linv_same weight_same dest: adv_rinv)

lemma continue_calm_state:
  assumes "linv runId h ls w" "weight runId ls w < n" "calm m"
  shows "outcome runId h w (thenE m (returnE ls) w) (\<lambda>ls' w'. linv runId h ls' w' \<and> weight runId ls' w' < n) E"
  using assms linv_rinv [OF assms(1)]
  by (intro outcome_calm_then outcome_return) (auto simp: linv_same weight_same dest: adv_rinv)

lemma settle_finish:
  assumes "linv runId h ls w" "weight runId ls w \<le> n" "owns runId h w \<Longrightarrow> stage_open s (ls_run ls)" "settled st" "E (LeaseLost runId) w"
    and "\<And>run' w1. linv runId h (ls\<lparr>ls_run := run'\<rparr>) w1 \<Longrightarrow> weight runId (ls\<lparr>ls_run := run'\<rparr>) w1 < n \<Longrightarrow> outcome runId h w1 (k run' w1) Q E"
  shows "outcome runId h w (bindE (finish_stage d runId (Some h) s st err) k w) Q E"
  unfolding finish_stage_def
  by (rule settle_bind [where f = "\<lambda>u. end_stage st (now d u) err", OF assms(1,2) _ edits_edit_at])
    (use assms in \<open>auto simp: end_stage_def\<close>)

lemma budget_skip_outcome:
  assumes "linv runId h ls w" "weight runId ls w \<le> n" "owns runId h w \<Longrightarrow> stage_open s (ls_run ls)"
  shows "outcome runId h w (budget_skip d runId (Some h) s ls w) (advances runId h n) any_exn"
  unfolding budget_skip_def Let_def
proof (rule settle_finish [OF assms(1,2)], goal_cases)
  case (4 run' w1)
  then show ?case by (intro continue_calm) auto
qed (use assms(3) in \<open>simp_all add: settled_def\<close>)

lemma missing_handler_outcome:
  assumes "linv runId h ls w"
  shows "outcome runId h w (missing_handler d runId (Some h) s w) (advances runId h n) any_exn"
  unfolding missing_handler_def Let_def
proof (rule outcome_transition_bind [where run = "ls_run ls", OF _ edits_edit_at], goal_cases)
  case (2 u)
  show ?case using plain_comp [OF plain_failed plain_setStage [OF plain_records(1)]] by (intro plain_good)
next
  case (4 run' w1 u)
  then have "run_status run' = RunFailed" by (auto simp: moved_def core_def)
  with 4 show ?case by (intro outcome_calm_then outcome_return_calm) (auto dest: moved_rinv adv_rinv)
qed (use assms in \<open>auto simp: linv_def\<close>)

lemma start_stage_outcome:
  assumes l: "linv runId h ls w" and op: "owns runId h w \<Longrightarrow> stage_open s (ls_run ls)"
  shows "outcome runId h w (start_stage d runId (Some h) s (ls_run ls) w)
    (\<lambda>run' w1. linv runId h (ls\<lparr>ls_run := run'\<rparr>) w1 \<and> weight runId (ls\<lparr>ls_run := run'\<rparr>) w1 \<le> weight runId ls w \<and> stage_open s run') any_exn"
  unfolding start_stage_def Let_def
proof (rule outcome_transition_bind [where run = "ls_run ls", OF _ edits_edit_at], goal_cases)
  case (2 u) show ?case by (rule good_start)
next
  case (4 run' w1 u)
  then have c: "core run' = core (setStage s (begin_record (now d u)) (Some (next_attempt s (ls_run ls))) (ls_run ls))" "owns runId h w"
    by (auto simp: moved_def)
  have "run_status run' = RunRunning" using c(1) l by (auto simp: linv_def core_def setStage_def on_stage_def)
  note ml = moved_linv [OF 4 refl this]
  note oc = open_count_start [OF op [OF c(2)] c(1)]
  show ?case
    by (intro outcome_calm_then outcome_return)
      (use ml oc in \<open>auto simp: weight_same linv_same dest: linv_rinv adv_rinv\<close>)
qed (use l in \<open>auto simp: linv_def\<close>)

subsection \<open>The quality gate and the plan revision\<close>

lemma rounds_left_next:
  assumes "qg_round runId (w_db w) = Some n" "n < MAX_QUALITY_ROUNDS"
  shows "rounds_left runId (on_db (setMeta (qgRoundKey runId) (str_of_nat (n + 1))) w) + 1 = rounds_left runId w"
  using assms number_of_str_of_nat [of "n + 1"]
  by (simp add: rounds_left_def qg_round_def getMeta_def setMeta_def MAX_QUALITY_ROUNDS_def del: number_of_str_of_nat)

lemma agents_open_keys:
  "(\<And>i. getMeta (agentDoneKey runId i) (w_db w') = getMeta (agentDoneKey runId i) (w_db w)) \<Longrightarrow> agents_open runId ls w' = agents_open runId ls w"
  by (simp add: agents_open_def agentStepDone_def)

lemma regenerate_outcome:
  assumes l: "linv runId h ls w" and r: "qg_round runId (w_db w) = Some n" "n < MAX_QUALITY_ROUNDS" and m: "weight runId ls w < m"
  shows "outcome runId h w (regenerate d runId (Some h) n sg ls w)
    (\<lambda>(jump, ls') w'. jump \<and> linv runId h ls' w' \<and> weight runId ls' w' < m) not_budget"
  unfolding regenerate_def
proof (intro outcome_setMeta_then outcome_calm_then, goal_cases)
  case (5 w1 w2 w3)
  have s2: "sync runId h (ls_run ls) w2" using 5(1,3) l by (simp add: linv_def sync_setMeta)
  then have s3: "sync runId h (ls_run ls) w3" using sync_same 5(5) by blast
  have "weight runId ls w2 + 4 = weight runId ls w"
  proof -
    have "rounds_left runId w1 + 1 = rounds_left runId w" using rounds_left_next [OF r] 5(1) by simp
    moreover have "rounds_left runId w2 = rounds_left runId w1"
      unfolding 5(3) by (simp add: rounds_left_def qg_round_def getMeta_def setMeta_def qgRoundKey_def)
    moreover have "agents_open runId ls w2 = agents_open runId ls w"
      unfolding 5(1,3) by (rule agents_open_keys) (simp add: getMeta_def setMeta_def qgRoundKey_def agentDoneKey_def)
    ultimately show ?thesis by (simp add: weight_def)
  qed
  then have w3: "weight runId ls w3 + 4 = weight runId ls w" using weight_same [OF 5(5)] by simp
  let ?F = "reopen_stages reopen_record [Generate_hypotheses, Critique_falsify, Rank]"
  show ?case
  proof (rule outcome_edit_bind [where run = "ls_run ls", OF s3], goal_cases)
    case (3 run' w4)
    then have c: "core run' = core (?F (ls_run ls))" by (simp add: moved_def)
    have "run_status run' = RunRunning"
      using status_core [OF c] l by (simp add: linv_def reopen_stages_def on_stage_def)
    note ml = moved_linv [OF 3 refl this]
    have "open_count run' \<le> open_count (ls_run ls) + 3"
      using open_count_core [OF c] open_count_reopen [of reopen_record "[Generate_hypotheses, Critique_falsify, Rank]" "ls_run ls"] by simp
    then show ?case using ml w3 m by (intro outcome_return) (auto dest: linv_rinv)
  qed (auto intro: plain_reopen_stages)
qed (use l in \<open>auto simp: linv_rinv\<close>)

lemma with_debate_agents:
  assumes "\<not> list_ex (\<lambda>s. is_agent (ws_target s)) (wp_steps p)"
  shows "length (filter (\<lambda>s. is_agent (ws_target s) \<and> P s) (with_debate p i)) \<le> 1"
proof -
  let ?A = "\<lambda>s. is_agent (ws_target s)"
  have none: "filter ?A (take n (wp_steps p)) = []" "filter ?A (drop n (wp_steps p)) = []" for n
    using assms by (auto simp: list_ex_iff filter_empty_conv dest: in_set_takeD in_set_dropD)
  let ?steps = "take (Suc i) (wp_steps p) @ [debate_step p (ws_id (wp_steps p ! i))] @ drop (Suc i) (wp_steps p)"
  have len: "length (filter ?A ?steps) = 1" by (simp add: none debate_step_def)
  have upd: "map ws_target (xs[j := (xs ! j)\<lparr>ws_after := a\<rparr>]) = map ws_target xs" for xs j a
    by (cases "j < length xs") (auto simp: map_update intro: nth_equalityI simp: nth_list_update)
  then have same: "map ws_target (with_debate p i) = map ws_target ?steps"
    unfolding with_debate_def Let_def by (simp only: upd split: if_split) blast
  have "length (filter ?A xs) = length (filter is_agent (map ws_target xs))" for xs by (simp add: filter_map comp_def)
  then have "length (filter ?A (with_debate p i)) = 1" using len same by metis
  then show ?thesis using length_filter_mono [of "with_debate p i" "\<lambda>s. ?A s \<and> P s" ?A] by simp
qed

lemma kernelPlanRevisionFor_Some:
  assumes "kernelPlanRevisionFor db runId p t = Inr (Some q)"
  obtains i where "q = revised_plan p i t" "wp_origin p = Origin_default" "\<not> list_ex (\<lambda>s. is_agent (ws_target s)) (wp_steps p)"
  using assms that by (auto simp: kernelPlanRevisionFor_def parse_plan_def split: if_splits option.splits sum.splits)

lemma revision_weight:
  assumes "kernelPlanRevisionFor db runId' (ls_plan ls) t = Inr (Some p)"
  shows "weight runId (ls\<lparr>ls_plan := p\<rparr>) w < weight runId ls w"
proof -
  obtain i where i: "p = revised_plan (ls_plan ls) i t" "wp_origin (ls_plan ls) = Origin_default"
      "\<not> list_ex (\<lambda>s. is_agent (ws_target s)) (wp_steps (ls_plan ls))"
    using assms by (rule kernelPlanRevisionFor_Some)
  have "agents_open runId (ls\<lparr>ls_plan := p\<rparr>) w \<le> 1"
    unfolding agents_open_def i(1) using with_debate_agents [OF i(3)] by (simp add: revised_plan_def)
  then show ?thesis using i(1,2) by (simp add: weight_def plan_weight_def revised_plan_def)
qed

lemma adopt_revision_outcome:
  assumes l: "linv runId h ls w" and m: "weight runId ls w < m"
  shows "outcome runId h w (adopt_revision d runId ls w) (\<lambda>ls' w'. linv runId h ls' w' \<and> weight runId ls' w' < m) not_budget"
proof -
  have t: "same w (tick w)" by (simp add: same_def)
  have adv: "adv runId h w (tick w)" using kept_adv [OF linv_rinv [OF l] same_kept [OF t]] .
  have lt: "linv runId h ls (tick w)" "weight runId ls (tick w) < m" using linv_same [OF t l] weight_same [OF t] m by simp_all
  show ?thesis
  proof (cases "kernelPlanRevisionFor (w_db w) runId (ls_plan ls) (now d w)")
    case (Inl x)
    then show ?thesis using adv by (simp add: adopt_revision_def outcome_def)
  next
    case (Inr q)
    show ?thesis
    proof (cases q)
      case None
      then show ?thesis using Inr adv lt by (simp add: adopt_revision_def outcome_def)
    next
      case (Some p)
      then have w: "weight runId (ls\<lparr>ls_plan := p\<rparr>) (tick w) < m" using revision_weight Inr lt(2) less_trans by blast
      have ll: "linv runId h (ls\<lparr>ls_plan := p\<rparr>) (tick w)" using lt(1) by (simp add: linv_def)
      have "outcome runId h (tick w) (thenE (putObjectE d ''workflow_plan'' (plan_json p)) (thenE (eventE d runId e) (returnE (ls\<lparr>ls_plan := p\<rparr>))) (tick w))
          (\<lambda>ls' w'. linv runId h ls' w' \<and> weight runId ls' w' < m) not_budget" for e
        using ll w by (intro outcome_calm_then continue_calm_state) (auto simp: linv_same weight_same dest: linv_rinv)
      then show ?thesis using Inr Some adv by (auto simp: adopt_revision_def Let_def outcome_def intro: adv_trans)
    qed
  qed
qed

abbreviation lighter :: "id \<Rightarrow> string \<Rightarrow> nat \<Rightarrow> loop_state \<Rightarrow> world \<Rightarrow> bool" where
  "lighter runId h n ls w \<equiv> linv runId h ls w \<and> weight runId ls w < n"

lemma rank_gate_outcome:
  assumes l: "lighter runId h m ls w"
  shows "outcome runId h w (rank_gate d runId (Some h) ls w) (\<lambda>(_, ls'). lighter runId h m ls') not_budget"
proof -
  have go: "outcome runId h w (thenE (weak_proceeding d runId rnd left sg)
      (bindE (adopt_revision d runId ls) (\<lambda>ls'. returnE (False, ls'))) w) (\<lambda>(_, ls'). lighter runId h m ls') not_budget" for rnd left sg
  proof (rule outcome_calm_then, goal_cases)
    case (3 w1)
    then have "lighter runId h m ls w1" using l by (simp add: linv_same weight_same)
    then show ?case
      by (intro outcome_bind [OF adopt_revision_outcome]) (auto intro!: outcome_return dest: linv_rinv)
  qed (use l in \<open>auto simp: weak_proceeding_def intro: calm_when dest: linv_rinv\<close>)
  have re: "outcome runId h w (regenerate d runId (Some h) n sg ls w) (\<lambda>(_, ls'). lighter runId h m ls') not_budget"
    if "qg_round runId (w_db w) = Some n" "n < MAX_QUALITY_ROUNDS" for n sg
    using regenerate_outcome [OF _ that] l by (blast intro: outcome_conseq)
  show ?thesis unfolding rank_gate_def Let_def using go re by (auto split: option.split)
qed

lemma budget_warning_outcome:
  assumes "lighter runId h m ls w"
  shows "outcome runId h w (budget_warning d runId s ls w) (\<lambda>ls'. lighter runId h m ls') E"
proof -
  have "lighter runId h m (ls\<lparr>ls_warned := True\<rparr>) w"
    using assms by (simp add: linv_def weight_def agents_open_def agentStepDone_def)
  then show ?thesis
    unfolding budget_warning_def using assms by (auto intro: continue_calm_state outcome_return dest: linv_rinv)
qed

lemma after_outcome_outcome:
  assumes "lighter runId h m ls w"
  shows "outcome runId h w (after_outcome d runId (Some h) s gated ls w) (advances runId h m) not_budget"
  unfolding after_outcome_def
proof (rule outcome_bind [where ?Q1.0 = "\<lambda>(_, ls'). lighter runId h m ls'"], goal_cases)
  case 1
  show ?case using assms rank_gate_outcome by (auto intro: outcome_return dest: linv_rinv)
next
  case (2 a w1)
  obtain jump ls' where a: "a = (jump, ls')" by (cases a)
  then have l: "lighter runId h m ls' w1" using 2 by simp
  then have now: "outcome runId h w1 (returnE (Continue ls') w1) (advances runId h m) not_budget"
    by (intro outcome_return) (auto simp: advances_def dest: linv_rinv)
  have "outcome runId h w1 (bindE (budget_warning d runId s ls') (\<lambda>ls''. returnE (Continue ls'')) w1) (advances runId h m) not_budget"
    by (rule outcome_bind, rule budget_warning_outcome [OF l]) (auto intro!: outcome_return simp: advances_def dest: linv_rinv)
  then show ?case using now by (simp add: a)
qed

subsection \<open>The body of a stage and its exceptions\<close>

definition body_spec :: "id \<Rightarrow> string \<Rightarrow> run_stage_name \<Rightarrow> loop_state \<Rightarrow> nat \<Rightarrow> body_result \<Rightarrow> world \<Rightarrow> bool" where
  "body_spec runId h s ls n res w' \<longleftrightarrow>
     (case res of
        BodyOk out \<Rightarrow> advances runId h n out w'
      | BodyRaised e run \<Rightarrow> run_status run \<noteq> RunCompleted \<and>
          ((\<exists>m. e = BudgetExhausted m) \<longrightarrow> linv runId h ls w' \<and> weight runId ls w' \<le> n \<and> stage_open s (ls_run ls)))"

lemma guarded_outcome:
  assumes "outcome runId h w (m w) (advances runId h n) not_budget" "run_status run \<noteq> RunCompleted"
  shows "outcome runId h w (guarded m run w) (body_spec runId h s ls n) E"
  unfolding guarded_def
proof (rule outcome_catch [where ?E1.0 = not_budget], goal_cases)
  case 1
  show ?case by (rule outcome_bind, rule assms(1)) (auto intro!: outcome_return simp: body_spec_def dest: adv_rinv)
next
  case (2 e w1)
  then show ?case using assms(2) by (intro outcome_return) (auto simp: body_spec_def dest: adv_rinv)
qed

lemma skip_stage_outcome:
  assumes "linv runId h ls w" "weight runId ls w \<le> n" "stage_open s (ls_run ls)"
  shows "outcome runId h w (skip_stage d runId (Some h) s reason ls w) (lighter runId h n) not_budget"
  unfolding skip_stage_def
  by (rule settle_finish [OF assms(1,2)]) (use assms(3) in \<open>auto simp: settled_def intro: continue_calm_state\<close>)

definition done_record :: "instant \<Rightarrow> nat \<Rightarrow> stage_record \<Rightarrow> stage_record" where
  "done_record t n rec = rec\<lparr>sr_state := SDone, sr_endedAt := Some t,
     sr_checkpointRef := (if n > 0 then Some (''step_outputs:'' @ str_of_nat n) else sr_checkpointRef rec)\<rparr>"

lemma done_stage_transition:
  "done_stage d runId lease s =
     transition d runId (\<lambda>r w. (Inr (setStage s (done_record (now d w) (countStepOutputs runId s None (w_db w))) None r), tick w)) lease"
  unfolding done_stage_def done_record_def [abs_def] edit_at_def Let_def ..

lemma plain_done: "plain_record (done_record t n)"
  unfolding done_record_def [abs_def] by simp

lemma handle_outcome_outcome:
  assumes "linv runId h ls w" "weight runId ls w \<le> n" "stage_open s (ls_run ls)"
  shows "outcome runId h w (handle_outcome d runId (Some h) s ls out w) (body_spec runId h s ls n) not_budget"
proof (cases out)
  case (OutSkipped reason)
  show ?thesis
    unfolding handle_outcome_def OutSkipped stage_outcome.case
    by (rule outcome_bind, rule skip_stage_outcome [OF assms]) (auto intro!: guarded_outcome after_outcome_outcome simp: linv_def)
next
  case (OutDone summary)
  show ?thesis
    unfolding handle_outcome_def OutDone stage_outcome.case done_stage_transition
  proof (rule settle_bind [OF assms(1,2), where s = s and f = "\<lambda>u. done_record (now d u) (countStepOutputs runId s None (w_db u))"], goal_cases)
    case (6 run' w1)
    then have "run_status run' = RunRunning" by (simp add: linv_def)
    with 6 show ?case
      by (intro guarded_outcome outcome_calm_then after_outcome_outcome)
        (auto simp: linv_same weight_same dest: linv_rinv adv_rinv)
  qed (use assms(3) plain_done in \<open>simp_all add: settled_def edits_def same_def done_record_def\<close>)
qed

lemma kept_linv:
  assumes "linv runId h ls w" "kept runId h w w'"
  shows "linv runId h ls w'" "weight runId ls w' \<le> weight runId ls w"
  using assms kept_sync weight_le [OF kept_keys [OF assms(2)], of ls ls] by (auto simp: linv_def)

lemma outcome_read_bind: "outcome runId h w (f (g w) w) Q E \<Longrightarrow> outcome runId h w (bindE (readE g) f w) Q E"
  by (simp add: bindE_def readE_def)

lemma stage_body_outcome:
  assumes hdl: "\<And>r. keeps runId h (sh_applicable hdl r)" "\<And>r. keeps runId h (sh_execute hdl r)"
    and l: "linv runId h ls w" "weight runId ls w \<le> n" "stage_open s (ls_run ls)"
  shows "outcome runId h w (stage_body d runId (Some h) s hdl ls w) (body_spec runId h s ls n) E"
  unfolding stage_body_def
proof (rule outcome_catch [where ?E1.0 = "\<lambda>e w'. (\<exists>m. e = BudgetExhausted m) \<longrightarrow> linv runId h ls w' \<and> weight runId ls w' \<le> n"], goal_cases)
  case (2 e w1)
  then show ?case using l by (intro outcome_return) (auto simp: body_spec_def linv_def dest: adv_rinv)
next
  case 1
  let ?E = "\<lambda>e w'. (\<exists>m. e = BudgetExhausted m) \<longrightarrow> linv runId h ls w' \<and> weight runId ls w' \<le> n"
  have call: "outcome runId h u (m u) (\<lambda>_ w'. linv runId h ls w' \<and> weight runId ls w' \<le> n) ?E"
    if "keeps runId h m" "linv runId h ls u" "weight runId ls u \<le> n" for m :: "'b comp" and u
    using that outcome_keeps [OF that(1) linv_rinv [OF that(2)]]
    by (elim outcome_conseq) (auto dest: kept_linv)
  show ?case
  proof (rule outcome_bind, rule call [OF hdl(1) l(1,2)])
    fix a w1 assume a: "linv runId h ls w1 \<and> weight runId ls w1 \<le> n"
    have exec: "outcome runId h w1 (bindE (sh_execute hdl (ls_run ls)) (handle_outcome d runId (Some h) s ls) w1) (body_spec runId h s ls n) ?E"
    proof (rule outcome_bind, rule call [OF hdl(2)])
      fix out w2 assume "linv runId h ls w2 \<and> weight runId ls w2 \<le> n"
      then show "outcome runId h w2 (handle_outcome d runId (Some h) s ls out w2) (body_spec runId h s ls n) ?E"
        using handle_outcome_outcome [of runId h ls w2 n s d out] l(3) by (auto elim: outcome_conseq)
    qed (use a in auto)
    have skip: "outcome runId h w1 (bindE (skip_stage d runId (Some h) s r ls) (\<lambda>ls'. returnE (BodyOk (Continue ls'))) w1) (body_spec runId h s ls n) ?E" for r
    proof (rule outcome_bind)
      show "outcome runId h w1 (skip_stage d runId (Some h) s r ls w1) (lighter runId h n) ?E"
        using skip_stage_outcome [of runId h ls w1 n s d r] a l(3) by (auto elim: outcome_conseq)
    qed (auto intro!: outcome_return simp: body_spec_def advances_def dest: linv_rinv)
    have stop: "outcome runId h w1 (throwE (Failure x) w1) (body_spec runId h s ls n) ?E" for x
      using a by (intro outcome_throw) (auto dest: linv_rinv)
    show "outcome runId h w1 ((case a of Applicable \<Rightarrow>
              bindE (readE (cancelled runId)) (\<lambda>c.
                if c then throwE (Failure ''cancelled by user'')
                else bindE (sh_execute hdl (ls_run ls)) (handle_outcome d runId (Some h) s ls))
          | NotApplicable reason \<Rightarrow>
              bindE (skip_stage d runId (Some h) s
                  (case reason of Some r \<Rightarrow> r | None \<Rightarrow> ''not applicable (stage predicate returned false)'') ls) (\<lambda>ls'.
                returnE (BodyOk (Continue ls')))) w1) (body_spec runId h s ls n) ?E"
      using exec skip stop by (cases a) (auto intro!: outcome_read_bind)
  qed
qed

lemma fail_stage_outcome:
  assumes "rinv runId h w"
  shows "outcome runId h w (fail_stage d runId (Some h) s msg w) (advances runId h n) any_exn"
  unfolding fail_stage_def Let_def
proof (rule outcome_transition_bind [where run = "doc runId w", OF _ edits_edit_at], goal_cases)
  case 1 show ?case using assms by (simp add: sync_def)
next
  case (2 u)
  have "run_cancelRequested (setStage sg f n a) = run_cancelRequested a" for sg f n a by (simp add: setStage_def on_stage_def)
  then show ?case
    using plain_comp [OF plain_cancelled [where c = "\<lambda>a. if cancelled runId w \<or> starts_with_ci msg ''cancelled'' then False else run_cancelRequested a"]
      plain_setStage [OF plain_records(1)]] by (intro plain_good) (simp only:)
next
  case (4 run' w1 u)
  then have "run_status run' \<noteq> RunCompleted" by (auto simp: moved_def core_def)
  with 4 show ?case by (intro outcome_return_calm) (auto dest: moved_rinv)
qed simp

lemma stage_catch_outcome:
  assumes "rinv runId h w" "body_spec runId h s ls n (BodyRaised e run) w"
  shows "outcome runId h w (stage_catch d runId (Some h) s ls e run w) (advances runId h n) any_exn"
proof (cases "\<exists>m. e = BudgetExhausted m")
  case True
  then obtain m where e: "e = BudgetExhausted m" by blast
  then have l: "linv runId h ls w" "weight runId ls w \<le> n" "stage_open s (ls_run ls)" using assms(2) by (auto simp: body_spec_def)
  show ?thesis
    unfolding stage_catch_def e exn.case
    by (rule settle_finish [OF l(1,2)]) (use l(3) in \<open>auto simp: settled_def intro: continue_calm\<close>)
next
  case False
  have "run_status run \<noteq> RunCompleted" using assms(2) by (simp add: body_spec_def)
  then have "outcome runId h w (thenE (noteE d runId x) (returnE (Return run)) w) (advances runId h n) any_exn" for x
    using assms(1) by (intro outcome_return_calm) auto
  then show ?thesis using False fail_stage_outcome [OF assms(1)] by (auto simp: stage_catch_def split: exn.split)
qed

lemma stage_step_outcome:
  assumes wb: "well_behaved d runId h" and l: "linv runId h ls w" and op: "owns runId h w \<Longrightarrow> stage_open s (ls_run ls)"
  shows "outcome runId h w (stage_step d runId (Some h) s ls w) (advances runId h (weight runId ls w)) any_exn"
proof -
  have go: "outcome runId h w (bindE (start_stage d runId (Some h) s (ls_run ls)) (\<lambda>run.
            bindE (stage_body d runId (Some h) s hdl (ls\<lparr>ls_run := run\<rparr>)) (\<lambda>res.
              case res of
                BodyOk out \<Rightarrow> returnE out
              | BodyRaised e run' \<Rightarrow> stage_catch d runId (Some h) s (ls\<lparr>ls_run := run\<rparr>) e run')) w) (advances runId h (weight runId ls w)) any_exn"
    if hdl: "od_stages d s = Some hdl" for hdl
  proof (rule outcome_bind, rule start_stage_outcome [OF l op], simp, goal_cases)
    case (1 run w1)
    then have k: "linv runId h (ls\<lparr>ls_run := run\<rparr>) w1" "weight runId (ls\<lparr>ls_run := run\<rparr>) w1 \<le> weight runId ls w" "stage_open s run" by auto
    show ?case
    proof (rule outcome_bind, rule stage_body_outcome [OF _ _ k(1,2)], goal_cases)
      case (4 res w2)
      then show ?case by (cases res) (auto simp: body_spec_def intro!: outcome_return stage_catch_outcome dest: adv_rinv)
    qed (use wb hdl k in \<open>auto simp: well_behaved_def\<close>)
  qed
  show ?thesis
    unfolding stage_step_def using budget_skip_outcome [OF l order_refl op] missing_handler_outcome [OF l] go by (auto split: option.split)
qed

section \<open>The walk\<close>

lemma workflow_step_outcome:
  assumes wb: "well_behaved d runId h" and l: "linv runId h ls w"
    and n: "nextWorkflowStep (ls_plan ls) (step_state runId ls (w_db w)) {} = Some step"
  shows "outcome runId h w (workflow_step_of d runId (Some h) step ls w) (advances runId h (weight runId ls w)) any_exn"
proof -
  have s: "step \<in> set (wp_steps (ls_plan ls))" "step_state runId ls (w_db w) step \<noteq> Terminal"
    using nextWorkflowStep_Some [OF n] by (auto simp: runnable_def)
  show ?thesis
  proof (cases "ws_target step")
    case (AgentTarget c)
    then have "\<not> agentStepDone runId ls (w_db w) (ws_id step)" using s(2) by (simp add: step_state_def split: if_splits)
    then show ?thesis using agent_step_outcome [OF wb l s(1)] AgentTarget by (simp add: workflow_step_of_def)
  next
    case (StageTarget t)
    have "owns runId h w \<Longrightarrow> stage_open t (ls_run ls)" using step_open [OF _ _ StageTarget s(2)] l by (auto simp: linv_def)
    then show ?thesis using stage_step_outcome [OF wb l] StageTarget by (simp add: workflow_step_of_def)
  qed
qed

definition exit_spec :: "id \<Rightarrow> string \<Rightarrow> int option \<Rightarrow> bool \<Rightarrow> loop_exit option \<Rightarrow> world \<Rightarrow> bool" where
  "exit_spec runId h stopIdx short ex w \<longleftrightarrow>
     (case ex of
        None \<Rightarrow> short
      | Some (Returned run) \<Rightarrow> run_status run \<noteq> RunCompleted
      | Some (Broke ls) \<Rightarrow> linv runId h ls w \<and>
          (stopIdx = None \<longrightarrow> nextWorkflowStep (ls_plan ls) (step_state runId ls (w_db w)) {} = None))"

text \<open>Fuel runs out only where it does not exceed the weight of the walk.\<close>

lemma stage_loop_outcome:
  assumes wb: "well_behaved d runId h"
  shows "linv runId h ls w \<Longrightarrow>
    outcome runId h w (stage_loop n d runId (Some h) stopIdx ls w) (exit_spec runId h stopIdx (n \<le> weight runId ls w)) any_exn"
proof (induction n arbitrary: ls w)
  case 0
  then show ?case by (auto simp: exit_spec_def intro: outcome_return dest: linv_rinv)
next
  case (Suc n)
  let ?X = "exit_spec runId h stopIdx (Suc n \<le> weight runId ls w)"
  show ?case
    unfolding stage_loop.simps
  proof (rule outcome_calm_then, goal_cases)
    case (3 w1)
    then have l: "linv runId h ls w1" "weight runId ls w1 = weight runId ls w" using Suc.prems linv_same weight_same by auto
    let ?next = "nextWorkflowStep (ls_plan ls) (step_state runId ls (w_db w1)) {}"
    have broke: "outcome runId h w1 (returnE (Some (Broke ls)) w1) ?X any_exn" if "stopIdx = None \<longrightarrow> ?next = None"
      using l that by (intro outcome_return) (auto simp: exit_spec_def dest: linv_rinv)
    have step: "outcome runId h w1 (bindE (workflow_step_of d runId (Some h) step ls) (\<lambda>out.
        case out of Continue ls' \<Rightarrow> stage_loop n d runId (Some h) stopIdx ls' | Return run \<Rightarrow> returnE (Some (Returned run))) w1)
        ?X any_exn" if "?next = Some step" for step
    proof (rule outcome_bind, rule workflow_step_outcome [OF wb l(1) that], goal_cases)
      case (1 out w2)
      have "outcome runId h w2 (stage_loop n d runId (Some h) stopIdx ls' w2) ?X any_exn" if "out = Continue ls'" for ls'
        using 1 that l(2) by (intro outcome_conseq [OF Suc.IH]) (auto simp: advances_def exit_spec_def split: option.splits loop_exit.splits)
      then show ?case
        using 1 by (cases out) (auto simp: advances_def exit_spec_def intro!: outcome_return dest: adv_rinv)
    qed
    show ?case
      using broke step by (intro outcome_read_bind) (auto simp: beyond_stop_def split: option.split)
  qed (use Suc.prems in \<open>auto dest: linv_rinv\<close>)
qed

section \<open>Before and after the walk\<close>

lemma outcome_sync_keeps:
  assumes "keeps runId h m" "sync runId h run w"
  shows "outcome runId h w (m w) (\<lambda>_. sync runId h run) any_exn"
  using outcome_keeps [OF assms(1) sync_rinv [OF assms(2)]] kept_sync [OF assms(2)] by (rule outcome_conseq) auto

lemma outcome_sync_then:
  assumes "keeps runId h m" "sync runId h run w" "\<And>w1. sync runId h run w1 \<Longrightarrow> outcome runId h w1 (k w1) Q any_exn"
  shows "outcome runId h w (thenE m k w) Q any_exn"
  unfolding thenE_def by (rule outcome_bind, rule outcome_sync_keeps [OF assms(1,2)], rule assms(3))

lemma outcome_edit_noted:
  assumes "sync runId h run w" "plain_edit F" "calm m"
  shows "outcome runId h w (bindE (transition d runId (edit F) (Some h)) (\<lambda>run'. thenE m (returnE run')) w)
    (\<lambda>run' w'. sync runId h run' w' \<and> core run' = core (F run)) any_exn"
proof (rule outcome_edit_bind [OF assms(1,2)], goal_cases)
  case (2 run' w1)
  then have "sync runId h run' w1" "core run' = core (F run)" by (auto simp: moved_def)
  then show ?case using assms(3) by (intro outcome_calm_then outcome_return) (auto dest: sync_rinv adv_rinv sync_same)
qed simp

lemma plain_mark_reopen: "plain_edit (\<lambda>r. mark_run st (reopen_stages (reopen_if P) ss r))"
  by (rule plain_comp [OF plain_fields(5) plain_reopen_stages]) simp

lemma reopen_completed_outcome:
  assumes "sync runId h run w"
  shows "outcome runId h w (reopen_completed d runId (Some h) ss why w) (sync runId h) any_exn"
  unfolding reopen_completed_def
  by (rule outcome_conseq, rule outcome_edit_noted [OF assms plain_mark_reopen]) auto

lemma reopen_feedback_outcome:
  assumes "sync runId h run w"
  shows "outcome runId h w (reopen_feedback d runId (Some h) run w) (sync runId h) any_exn"
proof -
  have "outcome runId h w (bindE (reopen_completed d runId (Some h) ss why) (\<lambda>run'. thenE (doE (on_db (setMeta k v))) (returnE run')) w) (sync runId h) any_exn" for ss why k v
    by (rule outcome_bind, rule reopen_completed_outcome [OF assms])
       (auto intro!: outcome_setMeta_then outcome_return simp: sync_setMeta dest: sync_rinv)
  then show ?thesis using assms by (auto simp: reopen_feedback_def intro: outcome_return dest: sync_rinv)
qed

lemma reopen_debts_outcome:
  assumes "sync runId h run w"
  shows "outcome runId h w (reopen_evidence_debt d runId (Some h) b run w) (sync runId h) any_exn"
    "outcome runId h w (reopen_template_content d runId (Some h) b run w) (sync runId h) any_exn"
  using reopen_completed_outcome [OF assms] outcome_return [OF sync_rinv [OF assms], of "sync runId h" run any_exn] assms
  by (auto simp: reopen_evidence_debt_def reopen_template_content_def)

lemma reopen_marker_skips_outcome:
  assumes "sync runId h run w"
  shows "outcome runId h w (reopen_marker_skips d runId (Some h) marker why run w) (sync runId h) any_exn"
proof -
  have "outcome runId h w (bindE (transition d runId (edit (reopen_stages reopen_record ss)) (Some h)) (\<lambda>run'. thenE (noteE d runId x) (returnE run')) w)
      (sync runId h) any_exn" for ss x
    by (rule outcome_conseq, rule outcome_edit_noted [OF assms plain_reopen_stages]) auto
  then show ?thesis using assms by (auto simp: reopen_marker_skips_def Let_def intro: outcome_return dest: sync_rinv)
qed

lemma release_parking_outcome:
  assumes "sync runId h run w"
  shows "outcome runId h w (release_parking d runId (Some h) stopAfter run w) (sync runId h) any_exn"
proof -
  have "outcome runId h w (bindE (transition d runId (edit clear_parking) (Some h)) (\<lambda>run'. thenE (noteE d runId x) (returnE run')) w) (sync runId h) any_exn" for x
    by (rule outcome_conseq, rule outcome_edit_noted [OF assms]) auto
  then show ?thesis using assms by (auto simp: release_parking_def intro: outcome_return dest: sync_rinv)
qed

lemma start_run_outcome:
  assumes "sync runId h run w"
  shows "outcome runId h w (start_run d runId (Some h) run w) (\<lambda>run' w'. sync runId h run' w' \<and> run_status run' = RunRunning) any_exn"
proof -
  have "outcome runId h w (bindE (transition d runId (edit (mark_run RunRunning)) (Some h)) (\<lambda>run'. thenE (eventE d runId x) (returnE run')) w)
      (\<lambda>run' w'. sync runId h run' w' \<and> run_status run' = RunRunning) any_exn" for x
    by (rule outcome_conseq, rule outcome_edit_noted [OF assms]) (auto simp: mark_run_def dest: status_core)
  then show ?thesis using assms by (auto simp: start_run_def intro: outcome_return dest: sync_rinv)
qed

lemma quiet_latest_plan: "quiet (latest_plan d runId)"
proof -
  have "quiet (thenE (putObjectE d ''workflow_plan'' (plan_json p)) (thenE (noteE d runId x) (returnE p)))" for p x
    by (intro quiet_then) simp_all
  then show ?thesis
    by (auto simp: quiet_def latest_plan_def adoptDefaultPlan_def split: option.splits sum.splits)
qed

lemma outcome_doE_then:
  assumes "sync runId h run w" "db_runs (w_db (f w)) = db_runs (w_db w)" "sync runId h run (f w) \<Longrightarrow> outcome runId h (f w) (k (f w)) Q E"
  shows "outcome runId h w (thenE (doE f) k w) Q E"
proof -
  note eq = owns_cong [OF assms(2)] doc_cong [OF assms(2)] runs_unchanged [OF assms(2)]
  have "sync runId h run (f w)" "adv runId h w (f w)" using assms(1) by (auto simp: sync_def adv_def rinv_def eq attempts_le_def)
  then show ?thesis using assms(3) by (auto simp: thenE_def bindE_def doE_def outcome_def intro: adv_trans)
qed

lemma prologue_outcome:
  assumes "sync runId h runIn w"
  shows "outcome runId h w (prologue d runId (Some h) stopAfter runIn w)
    (\<lambda>(ls, stopIdx) w'. linv runId h ls w' \<and> (stopIdx = None \<longleftrightarrow> stopAfter = None)) any_exn"
  unfolding prologue_def
proof (rule outcome_bind, rule reopen_feedback_outcome [OF assms], rule outcome_bind, rule reopen_debts_outcome(1), assumption,
    rule outcome_bind, rule reopen_debts_outcome(2), assumption, goal_cases)
  case (1 run1 w1 run2 w2 run3 w3)
  show ?case
    unfolding open_budget_def
  proof (rule outcome_doE_then [OF 1(6)], simp, rule outcome_bind, rule reopen_marker_skips_outcome, assumption,
      rule outcome_bind, rule reopen_marker_skips_outcome, assumption, rule outcome_read_bind, rule outcome_calm_then, goal_cases)
    case (3 run4 w4 run5 w5 w6)
    then have "sync runId h run5 w6" using sync_same by blast
    then show ?case
    proof (intro outcome_bind [OF release_parking_outcome] outcome_bind [OF start_run_outcome], goal_cases)
      case (3 run6 w7 run7 w8)
      then show ?case
        by (intro outcome_bind [OF outcome_sync_keeps [OF quiet_keeps [OF quiet_latest_plan]]] outcome_return)
          (auto simp: linv_def stop_index_def split: option.split dest: sync_rinv)
    qed
  qed (auto dest: sync_rinv)
qed

definition finished :: "research_run \<Rightarrow> bool" where
  "finished run \<longleftrightarrow> (\<forall>r \<in> set (run_stages run). settled (sr_state r))"

definition result_spec :: "run_stage_name option \<Rightarrow> research_run \<Rightarrow> bool" where
  "result_spec stopAfter run \<longleftrightarrow> (run_status run = RunCompleted \<longrightarrow> finished run \<and> stopAfter = None)"

lemma pass_finished_settled: "pass_finished run \<Longrightarrow> finished run"
  unfolding pass_finished_def finished_def settled_def open_stage_def list_ex_iff using stage_state.exhaust by metis

lemma finished_core: "core a = core b \<Longrightarrow> finished a = finished b"
proof -
  have "finished r = list_all (\<lambda>(_, st, _, _). settled st) (snd (core r))" for r
    by (auto simp: finished_def core_def list_all_iff)
  then show "core a = core b \<Longrightarrow> finished a = finished b" by simp
qed

lemma park_outcome:
  assumes "sync runId h run w"
  shows "outcome runId h w (park d runId (Some h) s w) (\<lambda>run' _. run_status run' = RunPaused) any_exn"
proof -
  have "plain_edit (\<lambda>r. clear_parking (mark_run RunPaused r))" by (rule plain_comp) simp_all
  then show ?thesis
    unfolding park_def
    by (intro outcome_conseq [OF outcome_edit_noted [OF assms]]) (auto simp: mark_run_def clear_parking_def dest: status_core)
qed

lemma next_round_outcome:
  assumes "sync runId h run w"
  shows "outcome runId h w (next_round d runId (Some h) rnd it w)
    (\<lambda>run' w'. sync runId h run' w' \<and> run_status run' = run_status run) any_exn"
  unfolding next_round_def
proof (intro outcome_setMeta_then, goal_cases)
  case (3 w1 w2)
  then have "sync runId h run w2" using assms by (simp add: sync_setMeta)
  moreover have "run_status (reopen_stages f ss a) = run_status a" for f ss a
    by (induction ss arbitrary: a) (simp_all add: reopen_stages_def on_stage_def)
  ultimately show ?case
    by (intro outcome_conseq [OF outcome_edit_noted [OF _ plain_reopen_stages]]) (auto dest: status_core)
qed (use assms in \<open>auto dest: sync_rinv\<close>)

lemma quiet_decision:
  "quiet (\<lambda>w. if decided_already runId rnd rec (w_db w) then (Inr (), w)
     else thenE (putObjectE d ''iteration'' rec) (noteE d runId x) w)"
  using quiet_then [OF quiet_putObject quiet_note] by (auto simp: quiet_def)

lemma iterate_outcome:
  assumes s: "sync runId h run w"
  shows "outcome runId h w (iterate d runId (Some h) w)
    (\<lambda>again w'. case again of None \<Rightarrow> sync runId h run w' | Some run' \<Rightarrow> sync runId h run' w' \<and> run_status run' = run_status run) any_exn"
  unfolding iterate_def
proof (rule outcome_read_bind, rule outcome_calm_then, goal_cases)
  case (3 w1)
  then have s1: "sync runId h run w1" using s sync_same by blast
  have q: "keeps runId h (\<lambda>w. (Inr (g w), tick w) :: (exn + 'c) \<times> world)" for g
    by (rule quiet_keeps) (simp add: quiet_def)
  show ?case
  proof (rule outcome_bind, rule outcome_sync_keeps [OF q s1], goal_cases)
    case (1 a w2)
    obtain rnd it where a: "a = (rnd, it)" by (cases a)
    have "outcome runId h w3 ((if it_continue it then bindE (next_round d runId (Some h) rnd it) (\<lambda>run. returnE (Some run)) else returnE None) w3)
        (\<lambda>again w'. case again of None \<Rightarrow> sync runId h run w' | Some run' \<Rightarrow> sync runId h run' w' \<and> run_status run' = run_status run) any_exn"
      if t: "sync runId h run w3" for w3
    proof (cases "it_continue it")
      case True
      show ?thesis unfolding if_P [OF True]
        by (rule outcome_bind, rule next_round_outcome [OF t]) (auto intro!: outcome_return dest: sync_rinv)
    qed (use t in \<open>auto intro: outcome_return dest: sync_rinv\<close>)
    then show ?case
      unfolding a prod.case using 1(2) by (intro outcome_sync_then [OF quiet_keeps [OF quiet_decision]])
  qed
qed (use s in \<open>auto dest: sync_rinv\<close>)

lemma quiet_loop_guidance: "quiet (loop_guidance d runId run)"
  using quiet_when [OF quiet_note] by (auto simp: quiet_def loop_guidance_def)

lemma keeps_consolidate: "keeps runId h (od_consolidate d runId) \<Longrightarrow> keeps runId h (consolidate d runId)"
  unfolding consolidate_def by (intro keeps_catch keeps_bind) (auto intro: quiet_keeps)

lemma complete_run_outcome:
  assumes wb: "well_behaved d runId h" and s: "sync runId h run w" and f: "finished run"
  shows "outcome runId h w (complete_run d runId (Some h) w) (\<lambda>run' w'. sync runId h run' w' \<and> finished run') any_exn"
  unfolding complete_run_def
proof (rule outcome_edit_bind [OF s plain_failed], goal_cases)
  case (2 run' w1)
  then have r: "sync runId h run' w1" "core run' = core (run\<lparr>run_status := RunCompleted, run_lastError := None\<rparr>)" by (auto simp: moved_def)
  have "finished run'" using f finished_core [OF r(2)] by (simp add: finished_def)
  moreover have "keeps runId h (consolidate d runId)" using wb by (intro keeps_consolidate) (simp add: well_behaved_def)
  ultimately show ?case
    using r(1) by (intro outcome_sync_then [where run = run'] outcome_return) (auto intro: quiet_keeps quiet_loop_guidance dest: sync_rinv)
qed simp

lemma epilogue_outcome:
  assumes wb: "well_behaved d runId h" and s: "sync runId h run w" "run_status run \<noteq> RunCompleted"
  shows "outcome runId h w (epilogue d runId (Some h) run w) (\<lambda>run' _. result_spec None run') any_exn"
  unfolding epilogue_def
proof (rule outcome_bind [where ?Q1.0 = "\<lambda>run' w'. sync runId h run' w' \<and> result_spec None run'"], goal_cases)
  case 1
  show ?case
  proof (cases "pass_finished run")
    case True
    then show ?thesis using complete_run_outcome [OF wb s(1) pass_finished_settled] by (auto simp: result_spec_def elim: outcome_conseq)
  qed (use s in \<open>auto simp: result_spec_def intro: outcome_return dest: sync_rinv\<close>)
next
  case (2 run' w1)
  have "quiet (\<lambda>w. if run_cancelRequested run' \<or> w_signal w runId then persistKernelControl d run' Ph_cancelled None w
      else if list_ex (\<lambda>s. sr_state s = SFailed) (run_stages run) then persistKernelControl d run' Ph_blocked None w else (Inr (), w))"
    using quiet_control [unfolded quiet_def] by (auto simp: quiet_def)
  then show ?case using 2(2) by (intro outcome_sync_then [OF quiet_keeps, where run = run'] outcome_return) (auto dest: sync_rinv)
qed

section \<open>An execution\<close>

lemma executeOwned_outcome:
  assumes wb: "well_behaved d runId h"
  shows "sync runId h runIn w \<Longrightarrow>
    outcome runId h w (executeOwned k m d runId h stopAfter runIn w) (\<lambda>res _. \<forall>run. res = Some run \<longrightarrow> result_spec stopAfter run) any_exn"
proof (induction k arbitrary: runIn w)
  case 0
  then show ?case by (auto intro: outcome_return dest: sync_rinv)
next
  case (Suc k)
  let ?R = "\<lambda>res _. \<forall>run. res = Some run \<longrightarrow> result_spec stopAfter run"
  show ?case
    unfolding executeOwned.simps
  proof (rule outcome_bind, rule prologue_outcome [OF Suc.prems], clarify, goal_cases)
    case (1 w1 ls stopIdx)
    show ?case
    proof (rule outcome_bind, rule stage_loop_outcome [OF wb 1(2)], goal_cases)
      case (1 ex w2)
      then show ?case
      proof (cases ex)
        case (Some e)
        show ?thesis
        proof (cases e)
          case (Returned run)
          then show ?thesis using 1 Some by (auto simp: exit_spec_def result_spec_def intro!: outcome_return dest: adv_rinv)
        next
          case (Broke ls')
          then have l: "sync runId h (ls_run ls') w2" "run_status (ls_run ls') = RunRunning"
            using 1(2) Some by (auto simp: exit_spec_def linv_def)
          have parked: "outcome runId h w2 (bindE (park d runId (Some h) s) (\<lambda>run. returnE (Some run)) w2) ?R any_exn" for s
            by (rule outcome_bind, rule park_outcome [OF l(1)]) (auto simp: result_spec_def intro!: outcome_return dest: adv_rinv)
          have walked: "outcome runId h w2 (bindE (if pass_finished (ls_run ls') then iterate d runId (Some h) else returnE None) (\<lambda>again.
                case again of Some run \<Rightarrow> executeOwned k m d runId h stopAfter run
                | None \<Rightarrow> bindE (epilogue d runId (Some h) (ls_run ls')) (\<lambda>run. returnE (Some run))) w2) ?R any_exn" if "stopAfter = None"
          proof (rule outcome_bind [where ?Q1.0 = "\<lambda>again w'. case again of None \<Rightarrow> sync runId h (ls_run ls') w'
                | Some run' \<Rightarrow> sync runId h run' w' \<and> run_status run' = run_status (ls_run ls')"], goal_cases)
            case 1
            show ?case using iterate_outcome [OF l(1)] l(1)
              by (cases "pass_finished (ls_run ls')") (auto intro!: outcome_return dest: sync_rinv)
          next
            case (2 again w3)
            have "outcome runId h w3 (bindE (epilogue d runId (Some h) (ls_run ls')) (\<lambda>run. returnE (Some run)) w3) ?R any_exn" if "again = None"
              by (rule outcome_bind, rule epilogue_outcome [OF wb])
                (use that 2(2) l(2) \<open>stopAfter = None\<close> in \<open>auto intro!: outcome_return dest: adv_rinv\<close>)
            then show ?case using 2(2) Suc.IH by (cases again) auto
          qed
          show ?thesis using parked walked l(2) Some Broke by (cases stopAfter) simp_all
        qed
      qed (auto intro!: outcome_return dest: adv_rinv)
    qed
  qed
qed

subsection \<open>Taking and giving back the lease\<close>

lemma lease_update_doc:
  assumes "runs_ok db" "\<And>r. rr_id (f r) = rr_id r \<and> rr_doc (f r) = rr_doc r \<and> (row_ok r \<longrightarrow> row_ok (f r))"
  shows "runs_ok (db\<lparr>db_runs := fst (sql_update P f (db_runs db))\<rparr>)"
    "getRun i (db\<lparr>db_runs := fst (sql_update P f (db_runs db))\<rparr>) = getRun i db"
proof -
  show "runs_ok (db\<lparr>db_runs := fst (sql_update P f (db_runs db))\<rparr>)"
    using assms by (intro runs_ok_update) auto
  show "getRun i (db\<lparr>db_runs := fst (sql_update P f (db_runs db))\<rparr>) = getRun i db"
    unfolding getRun_def using assms(2) by (subst find_run_update) (auto simp: option.map_comp comp_def intro: option.map_cong)
qed

lemma acquireLease_effect:
  assumes "runs_ok db" "acquireLease runId h e t db = Inr (b, db')"
  shows "runs_ok db'" "getRun i db' = getRun i db" "b \<Longrightarrow> fst (getRunLease runId db') = Some h" "\<not> b \<Longrightarrow> db' = db"
proof -
  let ?f = "\<lambda>r. r\<lparr>rr_leaseHolder := Some h, rr_leaseExpiresAt := Some e\<rparr>"
  let ?db = "db\<lparr>db_runs := fst (sql_update (\<lambda>r. rr_id r = runId) ?f (db_runs db))\<rparr>"
  note upd = lease_update_doc [OF assms(1), where f = ?f and P = "\<lambda>r. rr_id r = runId"]
  obtain r where r: "find_run runId db = Some r" using assms(2) by (auto simp: acquireLease_def split: option.splits)
  have "fst (getRunLease runId ?db) = Some h"
    using r find_run_id [OF r] by (simp add: getRunLease_def find_run_update)
  moreover have "runs_ok ?db" "getRun i ?db = getRun i db" using upd by (simp_all add: row_ok_def)
  moreover have "(b, db') = (False, db) \<or> (b, db') = (True, ?db)" using assms(2) r by (auto simp: acquireLease_def split: if_splits)
  ultimately show "runs_ok db'" "getRun i db' = getRun i db" "b \<Longrightarrow> fst (getRunLease runId db') = Some h" "\<not> b \<Longrightarrow> db' = db"
    using assms(1) by auto
qed

lemma releaseLease_effect:
  assumes "runs_ok db"
  shows "runs_ok (releaseLease runId h db)" "getRun i (releaseLease runId h db) = getRun i db"
    "fst (getRunLease runId (releaseLease runId h db)) \<noteq> Some h"
proof -
  let ?f = "\<lambda>r. r\<lparr>rr_leaseHolder := None, rr_leaseExpiresAt := None\<rparr>"
  note upd = lease_update_doc [OF assms, where f = ?f and P = "\<lambda>r. rr_id r = runId \<and> rr_leaseHolder r = Some h"]
  show "runs_ok (releaseLease runId h db)" "getRun i (releaseLease runId h db) = getRun i db"
    unfolding releaseLease_def using upd by (simp_all add: row_ok_def)
  show "fst (getRunLease runId (releaseLease runId h db)) \<noteq> Some h"
    unfolding releaseLease_def getRunLease_def by (subst find_run_update) (auto split: option.split dest: find_run_id)
qed

text \<open>An execution either fails before it starts, with the store as it was, or is the owned execution from
  a world in which the lease was taken.\<close>

lemma execute_cases:
  assumes "runs_ok (w_db w)" "getRun runId (w_db w) = Some run0" "started_ok run0"
  obtains (refused) e w' where "execute k m d runId stopAfter w = (Inl e, w')" "w_db w' = w_db w"
      "\<exists>h t. getRunLease runId (w_db w) = (Some h, Some t) \<and> od_clock d (Suc (w_tick w)) < t \<and> h \<noteq> od_holder d"
    | (owned) w1 where "sync runId (od_holder d) run0 w1" "doc runId w1 = run0" "owns runId (od_holder d) w1" "getMeta key (w_db w1) = getMeta key (w_db w)"
      "execute k m d runId stopAfter w =
        finallyE (executeOwned k m d runId (od_holder d) stopAfter run0)
          (\<lambda>w'. on_db (releaseLease runId (od_holder d)) (w'\<lparr>w_wire := (w_wire w')(runId := None)\<rparr>)) w1"
proof -
  let ?w = "tick (tick w)" and ?h = "od_holder d"
  obtain row where row: "find_run runId (w_db w) = Some row" "rr_doc row = run0" using assms(2) by (auto simp: getRun_def)
  have "\<exists>b db. acquireLease runId ?h (now d w + od_leaseTtl d) (now d (tick w)) (w_db w) = Inr (b, db)"
    using row by (auto simp: acquireLease_def)
  then obtain b db where acq: "acquireLease runId ?h (now d w + od_leaseTtl d) (now d (tick w)) (w_db w) = Inr (b, db)" by blast
  note eff = acquireLease_effect [OF assms(1) acq]
  show thesis
  proof (cases b)
    case False
    let ?e = "LeaseHeld runId (case fst (getRunLease runId (w_db w)) of Some h \<Rightarrow> h | None \<Rightarrow> ''unknown'')"
    have "execute k m d runId stopAfter w = (Inl ?e, ?w\<lparr>w_db := db\<rparr>)"
      using assms(2) acq False by (simp add: execute_def Let_def)
    moreover have "\<exists>h t. getRunLease runId (w_db w) = (Some h, Some t) \<and> od_clock d (Suc (w_tick w)) < t \<and> h \<noteq> ?h"
      using acq False row(1)
      by (auto simp: acquireLease_def live_lease_def getRunLease_def now_def tick_def split: if_splits option.splits)
    ultimately show ?thesis using eff(4) False by (intro refused [of ?e "?w\<lparr>w_db := db\<rparr>"]) auto
  next
    case True
    let ?w1 = "?w\<lparr>w_db := db, w_wire := (w_wire (tick w))(runId \<mapsto> False)\<rparr>"
    have "getRun runId db = Some run0" using eff(2) assms(2) by simp
    then have d: "doc runId ?w1 = run0" by (simp add: doc_def)
    moreover have "owns runId ?h ?w1" using eff(3) True by (simp add: owns_def)
    moreover have "getMeta key (w_db ?w1) = getMeta key (w_db w)"
      using acq row(1) by (auto simp: acquireLease_def getMeta_def split: if_splits)
    moreover have "sync runId ?h run0 ?w1" using eff(1) assms(3) d by (simp add: sync_def rinv_def)
    moreover have "execute k m d runId stopAfter w = finallyE (executeOwned k m d runId ?h stopAfter run0)
        (\<lambda>w'. on_db (releaseLease runId ?h) (w'\<lparr>w_wire := (w_wire w')(runId := None)\<rparr>)) ?w1"
      using assms(2) acq True by (simp add: execute_def Let_def)
    ultimately show ?thesis by (intro owned)
  qed
qed

lemma finallyE_release:
  "fst (finallyE m (\<lambda>w'. on_db (releaseLease r h) (w'\<lparr>w_wire := g w'\<rparr>)) w) = fst (m w)"
  "w_db (snd (finallyE m (\<lambda>w'. on_db (releaseLease r h) (w'\<lparr>w_wire := g w'\<rparr>)) w)) = releaseLease r h (w_db (snd (m w)))"
  by (simp_all add: finallyE_def split: prod.split)

section \<open>Properties\<close>


text \<open>A composition in which every stage succeeds at once and no agent is called.\<close>

definition demo_deps :: deps where
  "demo_deps = \<lparr>od_sha = (\<lambda>s. str_of_nat (length s)), od_clock = int, od_newId = (\<lambda>p n. p @ str_of_nat n), od_localeCompare = (\<lambda>a b. 0),
     od_holder = ''me'', od_leaseTtl = 100, od_cap = None, od_receiptOf = (\<lambda>_. \<lparr>rc_id = [], rc_runId = [], rc_at = 0, rc_stage = None, rc_modelCall = None\<rparr>),
     od_planOf = (\<lambda>_. default_plan ''run_1'' 0),
     od_stages = (\<lambda>s. Some \<lparr>sh_applicable = (\<lambda>_. returnE Applicable), sh_execute = (\<lambda>_. returnE (OutDone ''ok''))\<rparr>),
     od_kernelPlane = None, od_bundleTainted = (\<lambda>_. False),
     od_qualityGate = (\<lambda>_ _. \<lparr>qs_weak = False, qs_metrics = JNull, qs_reasons = JArr [], qs_weakDimensions = JArr []\<rparr>),
     od_supervise = (\<lambda>_ _. []),
     od_evaluateIteration = (\<lambda>_ _ n _ _. \<lparr>it_continue = False, it_reopenStages = [], it_record = JObj [(''id'', JStr ''itr_1'')]\<rparr>),
     od_consolidate = (\<lambda>_. returnE (0, 0))\<rparr>"

definition demo_world :: world where
  "demo_world = \<lparr>w_db = demo_store, w_signal = (\<lambda>_. False), w_wire = Map.empty, w_budget = makeRunBudget [] None, w_tick = 0\<rparr>"

lemma demo_well_behaved: "well_behaved demo_deps runId h"
  by (simp add: well_behaved_def demo_deps_def)

lemma demo_started: "started_ok demo_run"
  by (simp add: started_ok_def demo_run_def new_run_def pending_record_def)

lemma demo_runs_ok: "runs_ok (w_db demo_world)"
  using demo_store_ok [of id] by (simp add: demo_world_def store_ok_def)

lemma demo_get: "getRun ''run_1'' (w_db demo_world) = Some demo_run"
  by (simp add: demo_world_def demo_store_get)


text \<open>C24. One executor per run: while another executor's lease is live, executing the run and reopening its
  stages fail naming that executor and leave the store as it is; a run that does not exist is an error and
  nothing is written.\<close>

theorem second_executor_refused:
  assumes "runs_ok (w_db w)" "getRunLease runId (w_db w) = (Some h, Some t)" "od_clock d (Suc (w_tick w)) < t" "h \<noteq> od_holder d"
    and "getRun missing (w_db w) = None"
  shows "(\<exists>w'. execute k m d runId stopAfter w = (Inl (LeaseHeld runId h), w') \<and> w_db w' = w_db w) \<and>
    (\<exists>e w'. reopenStages d runId stages reason w = (Inl e, w') \<and> w_db w' = w_db w \<and>
      (run_status (doc runId w) \<noteq> RunRunning \<longrightarrow> e = LeaseHeld runId h)) \<and>
    execute k m d missing stopAfter w = (Inl (Failure (''run not found: '' @ missing)), w)"
proof -
  obtain row where row: "find_run runId (w_db w) = Some row" "rr_leaseHolder row = Some h" "rr_leaseExpiresAt row = Some t"
    using assms(2) by (auto simp: getRunLease_def split: option.splits)
  have acq: "acquireLease runId (od_holder d) (now d w + od_leaseTtl d) (now d (tick w)) (w_db w) = Inr (False, w_db w)"
    using row assms(3,4) by (simp add: acquireLease_def live_lease_def now_def tick_def)
  have get: "getRun runId (w_db w) = Some (rr_doc row)" by (simp add: getRun_def row(1))
  have "execute k m d runId stopAfter w = (Inl (LeaseHeld runId h), tick (tick w))"
    using get acq assms(2) by (simp add: execute_def Let_def tick_def)
  moreover have "reopenStages d runId stages reason w =
      (if run_status (rr_doc row) = RunRunning
       then (Inl (Failure (''run '' @ runId @ '' is already running '' @ emdash @ '' reopen is for settled runs'')), w)
       else (Inl (LeaseHeld runId h), tick (tick w)))"
    using get acq assms(2) by (simp add: reopenStages_def Let_def tick_def)
  moreover have "execute k m d missing stopAfter w = (Inl (Failure (''run not found: '' @ missing)), w)"
    using assms(5) by (simp add: execute_def)
  ultimately show ?thesis by (auto simp: doc_def get)
qed

definition leased :: "string \<Rightarrow> store" where
  "leased h = snd (acquire_at ''run_1'' h 1000 0 demo_store)"

lemma leased_facts:
  "runs_ok (leased h)" "getRun i (leased h) = getRun i demo_store" "getRunLease ''run_1'' (leased h) = (Some h, Some 1000)"
proof -
  have acq: "acquireLease ''run_1'' h 1000 0 demo_store = Inr (True, leased h)"
    by (simp add: leased_def acquireLease_def acquire_at_def demo_store_find live_lease_def run_row_of_def)
  have ok: "runs_ok demo_store" using demo_runs_ok by (simp add: demo_world_def)
  show "runs_ok (leased h)" "getRun i (leased h) = getRun i demo_store" by (rule acquireLease_effect [OF ok acq])+
  show "getRunLease ''run_1'' (leased h) = (Some h, Some 1000)"
    by (simp add: leased_def acquire_at_def acquireLease_def demo_store_find live_lease_def getRunLease_def find_run_update)
      (simp add: run_row_of_def demo_run_def new_run_def)
qed

definition held_world :: world where
  "held_world = demo_world\<lparr>w_db := leased ''other''\<rparr>"

theorem second_executor_refused_witness:
  "fst (execute 3 40 demo_deps ''run_1'' None held_world) = Inl (LeaseHeld ''run_1'' ''other'')"
proof -
  have db: "w_db held_world = leased ''other''" by (simp add: held_world_def)
  have "getRun ''none'' (leased ''other'') = None"
    unfolding leased_facts by (simp add: getRun_def find_run_def demo_store_def run_row_of_def demo_run_def new_run_def)
  moreover have "od_clock demo_deps (Suc (w_tick held_world)) < 1000" "''other'' \<noteq> od_holder demo_deps"
    by (simp_all add: demo_deps_def held_world_def demo_world_def)
  ultimately have "\<exists>w'. execute 3 40 demo_deps ''run_1'' None held_world = (Inl (LeaseHeld ''run_1'' ''other''), w')"
    using second_executor_refused [of held_world "''run_1''" "''other''" 1000 demo_deps "''none''" 3 40 None] leased_facts(1,3) [of "''other''"] unfolding db by blast
  then show ?thesis by auto
qed

lemma handlers_irrelevant:
  "now (d\<lparr>od_stages := x\<rparr>) = now d" "renew (d\<lparr>od_stages := x\<rparr>) = renew d" "eventE (d\<lparr>od_stages := x\<rparr>) = eventE d"
  "transition (d\<lparr>od_stages := x\<rparr>) = transition d" "edit_at (d\<lparr>od_stages := x\<rparr>) = edit_at d"
proof -
  show n: "now (d\<lparr>od_stages := x\<rparr>) = now d" by (simp add: fun_eq_iff now_def)
  show r: "renew (d\<lparr>od_stages := x\<rparr>) = renew d" by (simp add: fun_eq_iff renew_def n split: option.split)
  show "eventE (d\<lparr>od_stages := x\<rparr>) = eventE d" by (simp add: fun_eq_iff eventE_def n)
  show "edit_at (d\<lparr>od_stages := x\<rparr>) = edit_at d" by (simp add: fun_eq_iff edit_at_def n)
  show "transition (d\<lparr>od_stages := x\<rparr>) = transition d" unfolding transition_def [abs_def] n r ..
qed

lemma transition_owned:
  assumes "runs_ok (w_db w)" "owns runId h w" "edits fn f"
    and "run_id (f w (doc runId w)) = run_id (doc runId w)" "map sr_stage (run_stages (f w (doc runId w))) = map sr_stage (run_stages (doc runId w))"
  obtains t w' where "transition d runId fn (Some h) w = (Inr ((f w (doc runId w))\<lparr>run_updatedAt := t\<rparr>), w')"
proof -
  obtain row where row: "find_run runId (w_db w) = Some row" "rr_leaseHolder row = Some h"
    using assms(2) by (auto simp: owns_def getRunLease_def split: option.splits)
  have rowok: "row_ok row" "rr_id row = runId" using find_run_row_ok [OF assms(1) row(1)] by auto
  have doc: "doc runId w = rr_doc row" by (simp add: doc_def getRun_def row)
  obtain w1 where fn: "fn (rr_doc row) w = (Inr (f w (rr_doc row)), w1)" "same w w1"
    using assms(3) unfolding edits_def by (metis prod.collapse)
  let ?n = "(f w (rr_doc row))\<lparr>run_updatedAt := now d w1\<rparr>"
  have rows1: "db_runs (w_db w1) = db_runs (w_db w)" using fn(2) by (simp add: same_def)
  have "runs_ok (w_db w1)" "find_run runId (w_db w1) = Some row"
    using assms(1) row(1) runs_unchanged [OF rows1] rows1 by (simp_all add: find_run_def)
  moreover have "run_id ?n = runId" "wf_stages (run_stages ?n)"
    using assms(4,5) rowok by (simp_all add: doc row_ok_def wf_stages_def)
  ultimately obtain db' where "updateRun ?n (now d (tick w1)) (w_db w1) = Inr db'" "fst (getRunLease runId (w_db w1)) = Some h"
    using row(2) by (elim updateRun_found [of "w_db w1" runId row ?n "now d (tick w1)"]) (auto simp: getRunLease_def)
  then have "transition d runId fn (Some h) w = (Inr ?n, renew d (Some h) runId ((tick (tick w1))\<lparr>w_db := db'\<rparr>))"
    using assms(2) fn(1) by (simp add: transition_def holds_lease_def owns_def getRun_def row(1) Let_def)
  then show thesis using that by (simp add: doc)
qed

text \<open>An exhausted token budget skips work instead of failing the run: with no budget left, a stage other
  than \<open>export\<close> is marked skipped with the budget marker, neither its handler nor its applicability test is
  consulted, its attempt count stays, and the marker is the one by which the next execution finds the stage
  and reopens it.\<close>

theorem exhausted_budget_skips_stage:
  assumes "runs_ok (w_db w)" "owns runId h w" "doc runId w = ls_run ls" "\<not> hasRemaining (w_budget w)" "s \<noteq> Export"
  shows "\<exists>run' w'. stage_step d runId (Some h) s ls w = (Inr (Continue (ls\<lparr>ls_run := run'\<rparr>)), w') \<and>
    (\<exists>r. find_stage s (run_stages run') = Some r \<and> sr_state r = SSkipped \<and> sr_attempt r = attempt_of s (ls_run ls)) \<and>
    s \<in> set (marker_skips BUDGET_EXHAUSTED_REASON run') \<and>
    stage_step (d\<lparr>od_stages := handlers\<rparr>) runId (Some h) s ls w = stage_step d runId (Some h) s ls w"
proof -
  let ?b = "w_budget w"
  define err where "err = BUDGET_EXHAUSTED_REASON @ '': spent '' @ str_of_int (rb_spent ?b) @ '' of cap '' @
      (case rb_cap ?b of Some c \<Rightarrow> str_of_int c | None \<Rightarrow> ''null'')"
  let ?f = "\<lambda>u. setStage s (end_stage SSkipped (now d u) err) None"
  have ids: "run_id (?f w r) = run_id r" "map sr_stage (run_stages (?f w r)) = map sr_stage (run_stages r)" for r
    by (simp_all add: setStage_def on_stage_def map_update_first_key end_stage_def)
  obtain t w1 where t: "finish_stage d runId (Some h) s SSkipped err w = (Inr ((?f w (ls_run ls))\<lparr>run_updatedAt := t\<rparr>), w1)"
    unfolding finish_stage_def using assms(3) ids
    by (auto intro: transition_owned [OF assms(1,2) edits_edit_at [of d "\<lambda>t. setStage s (end_stage SSkipped t err) None"], of d])
  let ?run = "(?f w (ls_run ls))\<lparr>run_updatedAt := t\<rparr>"
  let ?e = "eventE d runId (event_for E_stage_skipped s ((''reason'', JStr BUDGET_EXHAUSTED_REASON) # budget_json ?b))"
  have "stage_step d runId (Some h) s ls w = budget_skip d runId (Some h) s ls w" using assms(4,5) by (simp add: stage_step_def)
  also have "\<dots> = bindE (finish_stage d runId (Some h) s SSkipped err) (\<lambda>run. thenE ?e (returnE (Continue (ls\<lparr>ls_run := run\<rparr>)))) w"
    unfolding budget_skip_def Let_def err_def ..
  also have "\<dots> = (Inr (Continue (ls\<lparr>ls_run := ?run\<rparr>)), snd (?e w1))"
    using t by (simp add: bindE_def thenE_def eventE_def doE_def returnE_def)
  finally have step: "stage_step d runId (Some h) s ls w = (Inr (Continue (ls\<lparr>ls_run := ?run\<rparr>)), snd (?e w1))" .
  obtain r where r: "find_stage s (run_stages (ls_run ls)) = Some r"
  proof -
    obtain row where row: "find_run runId (w_db w) = Some row" using assms(2) by (auto simp: owns_def getRunLease_def split: option.splits)
    then have "rr_doc row = ls_run ls" using assms(3) by (simp add: doc_def getRun_def)
    then have "wf_stages (run_stages (ls_run ls))" using find_run_row_ok [OF assms(1) row] by (auto simp: row_ok_def)
    then show thesis using wf_stages_find that by blast
  qed
  let ?r = "(end_stage SSkipped (now d w) err r)\<lparr>sr_attempt := sr_attempt r\<rparr>"
  have f: "find_stage s (run_stages ?run) = Some ?r"
    using r find_update_first_same [of "\<lambda>r. sr_stage r = s" "\<lambda>r. (end_stage SSkipped (now d w) err r)\<lparr>sr_attempt := sr_attempt r\<rparr>" "run_stages (ls_run ls)"]
    by (simp add: setStage_def on_stage_def find_stage_def end_stage_def)
  have "starts_with err BUDGET_EXHAUSTED_REASON" by (simp add: err_def)
  then have "s \<in> set (marker_skips BUDGET_EXHAUSTED_REASON ?run)"
    using f unfolding marker_skips_def find_stage_def
    by (auto simp: end_stage_def dest!: find_Some_iff_set intro!: image_eqI [of _ _ ?r])
  moreover have "stage_step (d\<lparr>od_stages := handlers\<rparr>) runId (Some h) s ls w = stage_step d runId (Some h) s ls w"
    using assms(4,5) by (simp add: stage_step_def budget_skip_def finish_stage_def handlers_irrelevant)
  ultimately show ?thesis using step f r by (auto simp: end_stage_def attempt_of_def)
qed

definition spent_world :: world where
  "spent_world = demo_world\<lparr>w_db := leased ''me'', w_budget := makeRunBudget [] (Some 0)\<rparr>"

definition demo_loop :: loop_state where
  "demo_loop = \<lparr>ls_run = demo_run, ls_plan = default_plan ''run_1'' 0, ls_warned = False, ls_agents = []\<rparr>"

theorem exhausted_budget_skips_stage_witness:
  "\<exists>run' w'. stage_step demo_deps ''run_1'' (Some ''me'') Retrieve demo_loop spent_world = (Inr (Continue (demo_loop\<lparr>ls_run := run'\<rparr>)), w') \<and>
    Retrieve \<in> set (marker_skips BUDGET_EXHAUSTED_REASON run')"
proof -
  have "runs_ok (w_db spent_world)" "owns ''run_1'' ''me'' spent_world" "doc ''run_1'' spent_world = ls_run demo_loop"
    by (simp_all add: spent_world_def owns_def doc_def leased_facts demo_store_get demo_loop_def)
  moreover have "\<not> hasRemaining (w_budget spent_world)"
    by (simp add: spent_world_def hasRemaining_def makeRunBudget_def spentTokensForRun_def)
  ultimately show ?thesis
    using exhausted_budget_skips_stage [of spent_world "''run_1''" "''me''" demo_loop Retrieve demo_deps] by blast
qed

end
