(* ===== verification/Orch_Progress.thy ===== *)
theory Orch_Progress
  imports Orch_Correct
begin

text \<open>
  Every execution ends. The walk over the plan ends because each step makes it lighter; the recursion
  over iteration rounds ends because the iteration controller stops at its cap of rounds and nothing but
  the controller's own decision moves the round counter. The second part is a frame argument over the
  definitions of \<open>Orchestrator\<close>.
\<close>

section \<open>A store key that a computation leaves alone\<close>

definition keeps_meta :: "string \<Rightarrow> 'a comp \<Rightarrow> bool" where
  "keeps_meta key m \<longleftrightarrow> (\<forall>w. getMeta key (w_db (snd (m w))) = getMeta key (w_db w))"

named_theorems frame \<open>computations that leave a key of the meta table alone\<close>

lemma keeps_metaD: "keeps_meta key m \<Longrightarrow> getMeta key (w_db (snd (m w))) = getMeta key (w_db w)"
  by (simp add: keeps_meta_def)

lemma keeps_metaI: "(\<And>w. getMeta key (w_db (snd (m w))) = getMeta key (w_db w)) \<Longrightarrow> keeps_meta key m"
  by (simp add: keeps_meta_def)

lemma keeps_meta_quiet: "quiet m \<Longrightarrow> keeps_meta key m"
  by (simp add: quiet_def keeps_meta_def getMeta_def)

lemma keeps_meta_simple [frame]:
  "keeps_meta key (returnE a)" "keeps_meta key (throwE e)" "keeps_meta key (readE f)" "keeps_meta key (eventE d r x)" "keeps_meta key (noteE d r y)"
  "keeps_meta key (putObjectE d kind p)" "keeps_meta key (persistKernelControl d run ph c)" "keeps_meta key (latest_plan d r)" "keeps_meta key (loop_guidance d r run)"
  using quiet_latest_plan quiet_loop_guidance by (auto intro: keeps_meta_quiet)

lemma keeps_meta_bind [frame]: "keeps_meta key m \<Longrightarrow> (\<And>a. keeps_meta key (f a)) \<Longrightarrow> keeps_meta key (bindE m f)"
  unfolding keeps_meta_def bindE_def by (auto split: prod.split sum.split) (metis snd_conv)+

lemma keeps_meta_then [frame]: "keeps_meta key m \<Longrightarrow> keeps_meta key k \<Longrightarrow> keeps_meta key (thenE m k)"
  by (simp add: thenE_def keeps_meta_bind)

lemma keeps_meta_when [frame]: "keeps_meta key m \<Longrightarrow> keeps_meta key (whenE b m)"
  by (simp add: whenE_def frame)

lemma keeps_meta_catch [frame]: "keeps_meta key m \<Longrightarrow> (\<And>e. keeps_meta key (f e)) \<Longrightarrow> keeps_meta key (catchE m f)"
  unfolding keeps_meta_def catchE_def by (auto split: prod.split sum.split) (metis snd_conv)+

lemma keeps_meta_set [frame]: "k \<noteq> key \<Longrightarrow> keeps_meta key (doE (on_db (setMeta k v)))"
  by (auto simp: keeps_meta_def doE_def getMeta_def setMeta_def)

lemma keeps_meta_edit [frame]: "keeps_meta key (edit f r)" "keeps_meta key (edit_at d g r)"
  by (auto simp: keeps_meta_def edit_def edit_at_def returnE_def)

lemma updateRun_meta: "updateRun run t db = Inr db' \<Longrightarrow> db_meta db' = db_meta db"
  by (auto simp: updateRun_def Let_def split: prod.splits if_splits)

lemma renew_meta: "db_meta (w_db (renew d lease r w)) = db_meta (w_db w)"
  by (auto simp: renew_def renewLease_def split: option.split)

lemma keeps_meta_transition [frame]:
  assumes "\<And>r. keeps_meta key (fn r)"
  shows "keeps_meta key (transition d runId fn lease)"
  unfolding keeps_meta_def
proof
  fix w
  show "getMeta key (w_db (snd (transition d runId fn lease w))) = getMeta key (w_db w)"
  proof (cases "holds_lease lease runId (w_db w)")
    case True
    then show ?thesis
    proof (cases "getRun runId (w_db w)")
      case (Some run)
      obtain r w1 where fn: "fn run w = (r, w1)" by (cases "fn run w")
      then have "getMeta key (w_db w1) = getMeta key (w_db w)" using keeps_metaD [OF assms, of run w] by simp
      then show ?thesis
        using True Some fn
        by (auto simp: transition_def Let_def renew_meta getMeta_def dest!: updateRun_meta split: sum.split)
    qed (simp add: transition_def)
  qed (simp add: transition_def)
qed

lemma keeps_meta_control: "keeps runId h m \<Longrightarrow> key \<in> control_keys runId \<Longrightarrow> keeps_meta key m"
  by (auto simp: keeps_def kept_def keeps_meta_def)

lemma iteration_key_control [simp]: "iterationRoundKey runId \<in> control_keys runId"
  by (simp add: control_keys_def)

lemma iteration_key_other [simp]:
  "qgRoundKey r \<noteq> iterationRoundKey runId" "agentDoneKey r i \<noteq> iterationRoundKey runId" "agentAttemptKey r i \<noteq> iterationRoundKey runId"
  "CHR ''q'' # r \<noteq> iterationRoundKey runId" "iterationFingerprintKey r \<noteq> iterationRoundKey runId"
  by (simp_all add: qgRoundKey_def agentDoneKey_def agentAttemptKey_def iterationRoundKey_def iterationFingerprintKey_def)

section \<open>The round counter during the walk\<close>

lemma agent_step_frame [frame]:
  assumes "well_behaved d runId h"
  shows "keeps_meta (iterationRoundKey runId) (agent_step d runId lease step c ls)"
proof -
  have run: "keeps_meta (iterationRoundKey runId) (run_agent d runId lease step c plane ls)" if "od_kernelPlane d = Some plane" for plane
    using assms that keeps_meta_control [of runId h "plane c" "iterationRoundKey runId"]
    by (simp add: run_agent_def agent_aborted_def markAgentStepDone_def Let_def well_behaved_def frame)
  show ?thesis
    by (rule keeps_metaI) (auto simp: agent_step_def run missing_plane_def markAgentStepDone_def Let_def frame keeps_metaD split: option.split)
qed

lemma stage_operations_frame [frame]:
  "keeps_meta (iterationRoundKey runId) (finish_stage d runId lease s st err)"
  "keeps_meta (iterationRoundKey runId) (budget_skip d runId lease s ls)"
  "keeps_meta (iterationRoundKey runId) (missing_handler d runId lease s)"
  "keeps_meta (iterationRoundKey runId) (start_stage d runId lease s run)"
  "keeps_meta (iterationRoundKey runId) (done_stage d runId lease s)"
  "keeps_meta (iterationRoundKey runId) (skip_stage d runId lease s why ls)"
  "keeps_meta (iterationRoundKey runId) (budget_warning d runId s ls)"
  "keeps_meta (iterationRoundKey runId) (fail_stage d runId lease s msg)"
proof -
  show f: "keeps_meta (iterationRoundKey runId) (finish_stage d runId lease s st err)" for s st err
    by (simp add: finish_stage_def frame)
  show "keeps_meta (iterationRoundKey runId) (budget_skip d runId lease s ls)"
    unfolding keeps_meta_def budget_skip_def Let_def by (auto simp: f frame keeps_metaD)
  show "keeps_meta (iterationRoundKey runId) (missing_handler d runId lease s)"
    by (simp add: missing_handler_def Let_def frame)
  show "keeps_meta (iterationRoundKey runId) (start_stage d runId lease s run)"
    by (simp add: start_stage_def Let_def frame)
  show "keeps_meta (iterationRoundKey runId) (done_stage d runId lease s)"
    unfolding done_stage_transition by (rule keeps_meta_transition) (simp add: keeps_meta_def)
  show "keeps_meta (iterationRoundKey runId) (skip_stage d runId lease s why ls)"
    by (simp add: skip_stage_def f frame)
  show "keeps_meta (iterationRoundKey runId) (budget_warning d runId s ls)"
    unfolding keeps_meta_def budget_warning_def by (auto simp: frame keeps_metaD)
  show "keeps_meta (iterationRoundKey runId) (fail_stage d runId lease s msg)"
    unfolding keeps_meta_def fail_stage_def Let_def by (auto simp: frame keeps_metaD)
qed

lemma rank_gate_frame [frame]: "keeps_meta (iterationRoundKey runId) (rank_gate d runId lease ls)"
proof -
  have r: "keeps_meta (iterationRoundKey runId) (regenerate d runId lease n sg ls)" for n sg
    by (simp add: regenerate_def frame)
  have p: "keeps_meta (iterationRoundKey runId) (thenE (putObjectE d ''workflow_plan'' (plan_json p)) (thenE (eventE d runId e) (returnE (l :: loop_state))))" for p e l
    by (simp add: frame)
  have a: "keeps_meta (iterationRoundKey runId) (adopt_revision d runId l)" for l
    unfolding keeps_meta_def adopt_revision_def Let_def
    using p [THEN keeps_metaD, of _ _ _ "tick w" for w] by (auto split: sum.split option.split)
  have w: "keeps_meta (iterationRoundKey runId) (weak_proceeding d runId rnd left sg)" for rnd left sg
    by (simp add: weak_proceeding_def frame)
  show ?thesis
    unfolding keeps_meta_def rank_gate_def Let_def
    by (auto simp: r a w frame keeps_metaD split: option.split)
qed

lemma stage_step_frame [frame]:
  assumes wb: "well_behaved d runId h"
  shows "keeps_meta (iterationRoundKey runId) (stage_step d runId lease s ls)"
proof -
  have after: "keeps_meta (iterationRoundKey runId) (after_outcome d runId lease s g l)" for g l
    by (simp add: after_outcome_def frame split: prod.split)
  have handle: "keeps_meta (iterationRoundKey runId) (handle_outcome d runId lease s l out)" for l out
    by (auto simp: handle_outcome_def guarded_def after frame split: stage_outcome.split)
  have body: "keeps_meta (iterationRoundKey runId) (stage_body d runId lease s hdl l)" if "od_stages d s = Some hdl" for hdl l
    using wb that keeps_meta_control [of runId h "sh_applicable hdl r" "iterationRoundKey runId" for r]
      keeps_meta_control [of runId h "sh_execute hdl r" "iterationRoundKey runId" for r]
    by (auto simp: stage_body_def well_behaved_def handle frame split: applicability.split)
  have caught: "keeps_meta (iterationRoundKey runId) (stage_catch d runId lease s l e run)" for l e run
    by (auto simp: stage_catch_def frame split: exn.split)
  have go: "keeps_meta (iterationRoundKey runId) (bindE (stage_body d runId lease s hdl l) (\<lambda>res.
      case res of BodyOk out \<Rightarrow> returnE out | BodyRaised e run' \<Rightarrow> stage_catch d runId lease s l e run'))" if "od_stages d s = Some hdl" for hdl l
    by (rule keeps_meta_bind [OF body [OF that]]) (simp add: caught frame split: body_result.split)
  show ?thesis
  proof (cases "od_stages d s")
    case None
    show ?thesis by (rule keeps_metaI) (simp add: stage_step_def None frame keeps_metaD)
  next
    case (Some hdl)
    show ?thesis by (rule keeps_metaI) (simp add: stage_step_def Some go frame keeps_metaD)
  qed
qed

lemma stage_loop_frame [frame]:
  assumes "well_behaved d runId h"
  shows "keeps_meta (iterationRoundKey runId) (stage_loop n d runId lease stopIdx ls)"
proof (induction n arbitrary: ls)
  case (Suc n)
  have "keeps_meta (iterationRoundKey runId) (workflow_step_of d runId lease step l)" for step l
    using agent_step_frame [OF assms] stage_step_frame [OF assms] by (simp add: workflow_step_of_def split: step_target.split)
  then show ?case using Suc.IH by (auto simp: frame split: option.split loop_step.split)
qed (simp add: frame)

section \<open>Fuel\<close>

text \<open>More fuel does not change the result of a walk that has ended.\<close>

lemma stage_loop_mono:
  "fst (stage_loop n d runId lease stopIdx ls w) \<noteq> Inr None \<Longrightarrow> n \<le> m \<Longrightarrow>
   stage_loop m d runId lease stopIdx ls w = stage_loop n d runId lease stopIdx ls w"
proof (induction n arbitrary: m ls w)
  case 0
  then show ?case by (simp add: returnE_def)
next
  case (Suc n)
  obtain m' where m: "m = Suc m'" "n \<le> m'" using Suc.prems(2) by (cases m) auto
  obtain a w1 where pk: "persistKernelControl d (ls_run ls) Ph_select_action None w = (a, w1)" by (cases "persistKernelControl d (ls_run ls) Ph_select_action None w")
  show ?case
  proof (cases "nextWorkflowStep (ls_plan ls) (step_state runId ls (w_db w1)) {}")
    case None
    then show ?thesis using m pk by (auto simp: thenE_def bindE_def readE_def split: sum.split)
  next
    case (Some step)
    obtain r w2 where ws: "workflow_step_of d runId lease step ls w1 = (r, w2)" by (cases "workflow_step_of d runId lease step ls w1")
    have "stage_loop m' d runId lease stopIdx ls' w2 = stage_loop n d runId lease stopIdx ls' w2"
      if "r = Inr (Continue ls')" "a = Inr x" "\<not> beyond_stop stopIdx (ls_plan ls) step" for ls' x
      using Suc.prems(1) pk Some ws that m(2) by (intro Suc.IH) (simp_all add: thenE_def bindE_def readE_def)
    then show ?thesis using m pk Some ws
      by (auto simp: thenE_def bindE_def readE_def split: sum.split loop_step.split)
  qed
qed

lemma stage_loop_ends:
  assumes "well_behaved d runId h" "linv runId h ls w"
  obtains r where "\<And>m. weight runId ls w < m \<Longrightarrow> stage_loop m d runId (Some h) stopIdx ls w = r" "fst r \<noteq> Inr None"
    "outcome runId h w r (exit_spec runId h stopIdx False) any_exn"
proof -
  define n where "n = Suc (weight runId ls w)"
  let ?r = "stage_loop n d runId (Some h) stopIdx ls w"
  have o: "outcome runId h w ?r (exit_spec runId h stopIdx False) any_exn"
    using stage_loop_outcome [OF assms, of n stopIdx] by (simp add: n_def del: stage_loop.simps)
  then have e: "fst ?r \<noteq> Inr None" by (auto simp: outcome_def exit_spec_def)
  show thesis by (rule that [OF _ e o], rule stage_loop_mono [OF e]) (simp add: n_def)
qed

section \<open>Rounds\<close>

lemma iteration_round_cong:
  "getMeta (iterationRoundKey runId) db' = getMeta (iterationRoundKey runId) db \<Longrightarrow> iteration_round runId db' = iteration_round runId db"
  by (simp add: iteration_round_def)

lemma iteration_round_pos: "1 \<le> iteration_round runId db"
  by (simp add: iteration_round_def split: option.split)

lemma prologue_frame:
  assumes "run_status runIn \<noteq> RunCompleted"
  shows "keeps_meta (iterationRoundKey runId) (prologue d runId lease stopAfter runIn)"
proof -
  have c: "keeps_meta (iterationRoundKey runId) (reopen_completed d runId lease ss why)" for ss why
    by (simp add: reopen_completed_def frame)
  have f: "reopen_feedback d runId lease runIn = returnE runIn" using assms by (simp add: fun_eq_iff reopen_feedback_def)
  have e: "keeps_meta (iterationRoundKey runId) (reopen_evidence_debt d runId lease b run)"
      "keeps_meta (iterationRoundKey runId) (reopen_template_content d runId lease b run)" for b run
    by (rule keeps_metaI, simp add: reopen_evidence_debt_def reopen_template_content_def c frame keeps_metaD)+
  have b: "keeps_meta (iterationRoundKey runId) (open_budget d runId)"
    by (rule keeps_metaI) (simp add: open_budget_def doE_def)
  have m: "keeps_meta (iterationRoundKey runId) (reopen_marker_skips d runId lease x why run)" for x why run
    by (simp add: reopen_marker_skips_def Let_def frame)
  have p: "keeps_meta (iterationRoundKey runId) (release_parking d runId lease stopAfter run)"
      "keeps_meta (iterationRoundKey runId) (start_run d runId lease run)" for run
    by (simp_all add: release_parking_def start_run_def frame)
  show ?thesis unfolding prologue_def f by (intro frame e b m p)
qed

lemma next_round_counts:
  assumes "next_round d runId lease rnd it w = (Inr run, w')"
  shows "iteration_round runId (w_db w') = rnd + 1"
proof -
  let ?set = "on_db (setMeta (iterationRoundKey runId) (str_of_nat (rnd + 1)))"
  define k where "k = thenE (doE (on_db (setMeta (iterationFingerprintKey runId)
         (case snapshot_fingerprint (it_record it) of Some f \<Rightarrow> f | None \<Rightarrow> ''undefined''))))
     (bindE (transition d runId (edit (reopen_stages reopen_round (it_reopenStages it))) lease) (\<lambda>run.
     thenE (noteE d runId [(''reason'', JStr ''iteration_round_started''), (''round'', JNum (int rnd + 1)),
         (''reopenStages'', stages_json (it_reopenStages it)), (''trigger'', member_json ''continueTrigger'' (it_record it))])
       (returnE run)))"
  have "k (?set w) = (Inr run, w')" using assms by (simp add: next_round_def k_def thenE_def bindE_def doE_def)
  moreover have "keeps_meta (iterationRoundKey runId) k" by (simp add: k_def frame)
  ultimately have "getMeta (iterationRoundKey runId) (w_db w') = getMeta (iterationRoundKey runId) (w_db (?set w))"
    using keeps_metaD by (metis snd_conv)
  then show ?thesis
    using number_of_str_of_nat [of "rnd + 1"]
    by (simp add: iteration_round_def getMeta_def setMeta_def del: number_of_str_of_nat)
qed

lemma bindE_Inr:
  assumes "bindE m f w = (Inr b, w')"
  obtains a w1 where "m w = (Inr a, w1)" "f a w1 = (Inr b, w')"
  using assms by (auto simp: bindE_def split: prod.splits sum.splits)

lemma thenE_Inr:
  assumes "thenE m k w = (Inr b, w')"
  obtains a w1 where "m w = (Inr a, w1)" "k w1 = (Inr b, w')"
  using assms unfolding thenE_def by (rule bindE_Inr)

lemma bindE_read: "bindE (readE f) g w = g (f w) w"
  by (simp add: bindE_def readE_def)

lemma bindE_value: "bindE (\<lambda>w. (Inr (f w), g w)) k w = k (f w) (g w)"
  by (simp add: bindE_def)

lemma iterate_counts:
  assumes "iterate d runId lease w = (Inr (Some run), w')"
    and cap: "\<And>db rnd b t. N \<le> rnd \<Longrightarrow> \<not> it_continue (od_evaluateIteration d db runId rnd b t)"
  shows "iteration_round runId (w_db w') = iteration_round runId (w_db w) + 1" "iteration_round runId (w_db w) < N"
proof -
  let ?key = "iterationRoundKey runId"
  let ?decide = "\<lambda>rnd it w. if decided_already runId rnd (it_record it) (w_db w) then (Inr (), w)
              else thenE (putObjectE d ''iteration'' (it_record it)) (noteE d runId (iteration_note rnd it)) w"
  let ?note = "noteE d runId [(''reason'', JStr ''supervisor_observation''), (''signals'', JArr (od_supervise d (w_db w) runId))]"
  let ?go = "\<lambda>(rnd, it). thenE (?decide rnd it)
     (if it_continue it then bindE (next_round d runId lease rnd it) (\<lambda>run. returnE (Some run)) else returnE None)"
  let ?at = "\<lambda>w. (iteration_round runId (w_db w),
          od_evaluateIteration d (w_db w) runId (iteration_round runId (w_db w)) (w_budget w) (now d w))"
  have "thenE ?note (bindE (\<lambda>w. (Inr (?at w), tick w)) ?go) w = (Inr (Some run), w')"
    using assms(1) unfolding iterate_def bindE_read .
  then obtain x w1 where w1: "?note w = (Inr x, w1)" and "bindE (\<lambda>w. (Inr (?at w), tick w)) ?go w1 = (Inr (Some run), w')"
    by (rule thenE_Inr)
  then have r1: "?go (?at w1) (tick w1) = (Inr (Some run), w')" unfolding bindE_value by blast
  define rnd where "rnd = iteration_round runId (w_db w1)"
  define it where "it = od_evaluateIteration d (w_db w1) runId rnd (w_budget w1) (now d w1)"
  have rnd: "rnd = iteration_round runId (w_db w)"
    unfolding rnd_def using keeps_metaD [OF keeps_meta_simple(5) [of ?key d runId], of _ w] w1
    by (intro iteration_round_cong) (metis snd_conv)
  obtain y w2 where w2: "?decide rnd it (tick w1) = (Inr y, w2)"
      "(if it_continue it then bindE (next_round d runId lease rnd it) (\<lambda>run. returnE (Some run)) else returnE None) w2 = (Inr (Some run), w')"
    using r1 unfolding prod.case rnd_def [symmetric] it_def [symmetric] by (rule thenE_Inr)
  have c: "it_continue it" using w2(2) by (cases "it_continue it") (auto simp: returnE_def)
  then obtain u w3 where w3: "next_round d runId lease rnd it w2 = (Inr u, w3)" "w' = w3"
    using w2(2) by (auto elim!: bindE_Inr simp: returnE_def)
  show "iteration_round runId (w_db w') = iteration_round runId (w_db w) + 1" using next_round_counts [OF w3(1)] w3(2) rnd by simp
  show "iteration_round runId (w_db w) < N" using cap c rnd unfolding it_def by (metis not_le)
qed

section \<open>Every execution ends\<close>

definition iteration_capped :: "deps \<Rightarrow> id \<Rightarrow> nat \<Rightarrow> bool" where
  "iteration_capped d runId N \<longleftrightarrow> (\<forall>db rnd b t. N \<le> rnd \<longrightarrow> \<not> it_continue (od_evaluateIteration d db runId rnd b t))"

definition start_round :: "id \<Rightarrow> research_run \<Rightarrow> world \<Rightarrow> nat" where
  "start_round runId run w = (if run_status run = RunCompleted then 1 else iteration_round runId (w_db w))"

lemma bindE_no_None: "fst (bindE m (\<lambda>a. returnE (Some a)) w) \<noteq> Inr None"
  by (auto simp: bindE_def returnE_def split: prod.split sum.split)

text \<open>What follows the walk of one round, with the rounds still to come given as a function.\<close>

definition after_walk :: "deps \<Rightarrow> id \<Rightarrow> string \<Rightarrow> run_stage_name option \<Rightarrow> (research_run \<Rightarrow> research_run option comp) \<Rightarrow> loop_state \<Rightarrow> research_run option comp" where
  "after_walk d runId holder stopAfter again ls' =
     (case (stopAfter, run_status (ls_run ls') = RunRunning) of
        (Some s, True) \<Rightarrow> bindE (park d runId (Some holder) s) (\<lambda>run. returnE (Some run))
      | _ \<Rightarrow>
          bindE (if pass_finished (ls_run ls') then iterate d runId (Some holder) else returnE None) (\<lambda>again'.
            case again' of
              Some run \<Rightarrow> again run
            | None \<Rightarrow> bindE (epilogue d runId (Some holder) (ls_run ls')) (\<lambda>run. returnE (Some run))))"

lemma executeOwned_Suc:
  "executeOwned (Suc k) m d runId holder stopAfter runIn =
     bindE (prologue d runId (Some holder) stopAfter runIn) (\<lambda>(ls, stopIdx).
     bindE (stage_loop m d runId (Some holder) stopIdx ls) (\<lambda>exit.
       case exit of
         None \<Rightarrow> returnE None
       | Some (Returned run) \<Rightarrow> returnE (Some run)
       | Some (Broke ls') \<Rightarrow> after_walk d runId holder stopAfter (executeOwned k m d runId holder stopAfter) ls'))"
  unfolding executeOwned.simps after_walk_def ..

lemma after_walk_ends:
  assumes cap: "iteration_capped d runId N" and s: "sync runId h (ls_run ls') w" and st: "run_status (ls_run ls') \<noteq> RunCompleted"
    and again: "\<And>run w'. sync runId h run w' \<Longrightarrow> run_status run \<noteq> RunCompleted \<Longrightarrow>
      iteration_round runId (w_db w') = iteration_round runId (w_db w) + 1 \<Longrightarrow> iteration_round runId (w_db w) < N \<Longrightarrow>
      \<exists>M. \<forall>m \<ge> M. fst (again m run w') \<noteq> Inr None"
  shows "\<exists>M. \<forall>m \<ge> M. fst (after_walk d runId h stopAfter (again m) ls' w) \<noteq> Inr (None :: research_run option)"
proof -
  let ?it = "if pass_finished (ls_run ls') then iterate d runId (Some h) else returnE None"
  let ?ep = "bindE (epilogue d runId (Some h) (ls_run ls')) (\<lambda>run. returnE (Some run))"
  obtain r w' where it: "?it w = (r, w')" by (cases "?it w")
  have "\<exists>M. \<forall>m \<ge> M. fst (bindE ?it (\<lambda>a. case a of Some run \<Rightarrow> again m run | None \<Rightarrow> ?ep) w) \<noteq> Inr None"
  proof (cases "\<exists>run. r = Inr (Some run)")
    case True
    then obtain run where rv: "r = Inr (Some run)" by blast
    then have run: "iterate d runId (Some h) w = (Inr (Some run), w')"
      using it by (cases "pass_finished (ls_run ls')") (auto simp: returnE_def)
    have "sync runId h run w'" "run_status run \<noteq> RunCompleted"
      using iterate_outcome [OF s, of d] run st by (auto simp: outcome_def)
    moreover have "iteration_round runId (w_db w') = iteration_round runId (w_db w) + 1" "iteration_round runId (w_db w) < N"
      using iterate_counts [OF run, of N] cap by (simp_all add: iteration_capped_def)
    ultimately obtain M where "\<forall>m \<ge> M. fst (again m run w') \<noteq> Inr None" using again [of run w'] by blast
    moreover have "?it w = (Inr (Some run), w')" using it rv by simp
    ultimately show ?thesis by (intro exI [of _ M]) (simp add: bindE_def [of ?it])
  next
    case False
    then have "fst (bindE ?it (\<lambda>a. case a of Some run \<Rightarrow> again m run | None \<Rightarrow> ?ep) w) \<noteq> Inr None" for m
      using it bindE_no_None [of "epilogue d runId (Some h) (ls_run ls')" w']
      by (simp only: bindE_def [of ?it]) (auto split: sum.split option.split)
    then show ?thesis by blast
  qed
  moreover have "fst (bindE (park d runId (Some h) sg) (\<lambda>run. returnE (Some run)) w) \<noteq> Inr None" for sg by (rule bindE_no_None)
  ultimately show ?thesis
    by (cases stopAfter; cases "run_status (ls_run ls') = RunRunning") (simp_all add: after_walk_def)
qed

lemma executeOwned_ends:
  assumes wb: "well_behaved d runId h" and cap: "iteration_capped d runId N"
  shows "sync runId h runIn w \<Longrightarrow> 0 < k \<Longrightarrow> N < k + start_round runId runIn w \<Longrightarrow>
    \<exists>M. \<forall>m \<ge> M. fst (executeOwned k m d runId h stopAfter runIn w) \<noteq> Inr None"
proof (induction k arbitrary: runIn w)
  case (Suc k)
  let ?key = "iterationRoundKey runId"
  let ?rest = "\<lambda>m (ls, stopIdx). bindE (stage_loop m d runId (Some h) stopIdx ls) (\<lambda>exit.
       case exit of
         None \<Rightarrow> returnE None
       | Some (Returned run) \<Rightarrow> returnE (Some run)
       | Some (Broke ls') \<Rightarrow> after_walk d runId h stopAfter (executeOwned k m d runId h stopAfter) ls')"
  obtain p w1 where p: "prologue d runId (Some h) stopAfter runIn w = (p, w1)" by (cases "prologue d runId (Some h) stopAfter runIn w")
  show ?case
  proof (cases p)
    case (Inl e)
    then show ?thesis using p by (simp add: executeOwned_Suc bindE_def)
  next
    case (Inr a)
    obtain ls stopIdx where a: "a = (ls, stopIdx)" by (cases a)
    have l: "linv runId h ls w1" using prologue_outcome [OF Suc.prems(1), of d stopAfter] p Inr a by (simp add: outcome_def)
    have r1: "start_round runId runIn w \<le> iteration_round runId (w_db w1)"
      using keeps_metaD [OF prologue_frame, of runIn runId d "Some h" stopAfter w] p iteration_round_pos [of runId "w_db w1"]
        iteration_round_cong [of runId "w_db w1" "w_db w"] by (auto simp: start_round_def)
    obtain r where r: "\<And>m. weight runId ls w1 < m \<Longrightarrow> stage_loop m d runId (Some h) stopIdx ls w1 = r" "fst r \<noteq> Inr None"
        "outcome runId h w1 r (exit_spec runId h stopIdx False) any_exn"
      using stage_loop_ends [OF wb l] by blast
    obtain x w2 where x: "r = (x, w2)" by (cases r)
    have unfold: "executeOwned (Suc k) m d runId h stopAfter runIn w = ?rest m (ls, stopIdx) w1" for m
      using p Inr a by (simp add: executeOwned_Suc bindE_def [of "prologue d runId (Some h) stopAfter runIn"] del: executeOwned.simps)
    have r2: "iteration_round runId (w_db w2) = iteration_round runId (w_db w1)"
      using keeps_metaD [OF stage_loop_frame [OF wb], of "Suc (weight runId ls w1)" "Some h" stopIdx ls w1] r(1) x
      by (intro iteration_round_cong) (simp del: stage_loop.simps)
    show ?thesis
    proof (cases "\<exists>ls'. x = Inr (Some (Broke ls'))")
      case True
      then obtain ls' where ls': "x = Inr (Some (Broke ls'))" by blast
      then have s': "sync runId h (ls_run ls') w2" "run_status (ls_run ls') \<noteq> RunCompleted"
        using r(3) x by (auto simp: outcome_def exit_spec_def linv_def)
      have "\<exists>M. \<forall>m \<ge> M. fst (after_walk d runId h stopAfter (executeOwned k m d runId h stopAfter) ls' w2) \<noteq> Inr None"
        using Suc.prems(3) r1 r2 by (intro after_walk_ends [OF cap s'] Suc.IH) (auto simp: start_round_def)
      then obtain M where "\<forall>m \<ge> M. fst (after_walk d runId h stopAfter (executeOwned k m d runId h stopAfter) ls' w2) \<noteq> Inr None" by blast
      then have "\<forall>m \<ge> max M (Suc (weight runId ls w1)). fst (?rest m (ls, stopIdx) w1) \<noteq> Inr None"
        using r(1) x ls' by (simp add: bindE_def [of "stage_loop m d runId (Some h) stopIdx ls" for m])
      then show ?thesis using unfold by (metis (no_types, lifting))
    next
      case False
      then have "\<forall>m \<ge> Suc (weight runId ls w1). fst (?rest m (ls, stopIdx) w1) \<noteq> Inr None"
        using r x by (auto simp: bindE_def [of "stage_loop m d runId (Some h) stopIdx ls" for m] returnE_def split: sum.split option.split loop_exit.split)
      then show ?thesis using unfold by (metis (no_types, lifting))
    qed
  qed
qed simp

lemma execute_ends_capped:
  assumes "well_behaved d runId (od_holder d)" "iteration_capped d runId N" "N \<le> k" "0 < k"
    and "runs_ok (w_db w)" "getRun runId (w_db w) = Some run0" "started_ok run0"
  shows "\<exists>M. \<forall>m \<ge> M. fst (execute k m d runId stopAfter w) \<noteq> Inr None"
proof (cases "\<exists>m. fst (execute k m d runId stopAfter w) = Inr None")
  case True
  then obtain m0 where m0: "fst (execute k m0 d runId stopAfter w) = Inr None" by blast
  let ?h = "od_holder d" and ?fin = "\<lambda>w'. on_db (releaseLease runId (od_holder d)) (w'\<lparr>w_wire := (w_wire w')(runId := None)\<rparr>)"
  let ?lease = "acquireLease runId ?h (now d w + od_leaseTtl d) (now d (tick w)) (w_db w)"
  obtain db where acq: "?lease = Inr (True, db)"
    using m0 assms(6) by (auto simp: execute_def Let_def split: sum.splits prod.splits bool.splits)
  define w1 where "w1 = (tick (tick w))\<lparr>w_db := db, w_wire := (w_wire (tick w))(runId \<mapsto> False)\<rparr>"
  have eq: "execute k m d runId stopAfter w = finallyE (executeOwned k m d runId ?h stopAfter run0) ?fin w1" for m
    using assms(6) acq by (simp add: execute_def Let_def w1_def)
  have "getRun runId (w_db w1) = Some run0" using acquireLease_effect(2) [OF assms(5) acq] assms(6) by (simp add: w1_def)
  then have "sync runId ?h run0 w1"
    using acquireLease_effect(1) [OF assms(5) acq] assms(7) by (simp add: sync_def rinv_def doc_def w1_def)
  moreover have "N < k + start_round runId run0 w1"
    using assms(3) iteration_round_pos [of runId "w_db w1"] by (simp add: start_round_def)
  ultimately obtain M where "\<forall>m \<ge> M. fst (executeOwned k m d runId ?h stopAfter run0 w1) \<noteq> Inr None"
    using executeOwned_ends [OF assms(1,2) _ assms(4)] by blast
  then show ?thesis unfolding eq finallyE_release by blast
qed blast

end
