(* ===== verification/Orch_Context.thy ===== *)
theory Orch_Context
  imports Orch_Correct
begin

text \<open>
  The operations an executor and its stage handlers act through, on their own: the fenced transition,
  step checkpoints, receipts, progress and cancellation. What a handler does through its context keeps
  the contract \<open>keeps\<close> that the correctness of the stage machine rests on.
\<close>

section \<open>Context operations keep the contract\<close>

lemma kept_rows:
  assumes "runs_ok (w_db w) \<Longrightarrow> runs_ok (w_db w') \<and> core (doc runId w') = core (doc runId w) \<and>
      fst (getRunLease runId (w_db w')) = fst (getRunLease runId (w_db w))"
    and "db_meta (w_db w') = db_meta (w_db w)"
  shows "kept runId h w w'"
proof -
  have "owns runId h w' = owns runId h w" if "runs_ok (w_db w)" using assms(1) [OF that] by (simp add: owns_def)
  moreover have "started_ok (doc runId w') = started_ok (doc runId w)" "attempts_le (doc runId w) (doc runId w')" if "runs_ok (w_db w)"
    using assms(1) [OF that] core_started core_attempts_le by metis+
  ultimately show ?thesis using assms by (simp add: kept_def getMeta_def)
qed

lemma renew_kept: "kept runId h w (renew d lease runId w)"
proof (cases lease)
  case (Some l)
  show ?thesis
    by (rule kept_rows) (use renewLease_effect Some in \<open>auto simp: renew_def doc_def\<close>, simp add: renewLease_def)
qed (simp add: renew_def)

lemma quiet_do: "(\<And>db. db_runs (f db) = db_runs db \<and> db_meta (f db) = db_meta db) \<Longrightarrow> quiet (doE (on_db f))"
  by (simp add: quiet_def doE_def)

lemma receiptSink_keeps: "keeps runId h (receiptSink d runId lease partial)"
proof -
  have "keeps runId h (thenE (putObjectE d ''receipt'' p) (thenE (doE (renew d lease runId)) (eventE d runId e)))" for p e
    by (intro keeps_then keeps_do renew_kept quiet_keeps) simp_all
  then show ?thesis unfolding keeps_def receiptSink_def Let_def by blast
qed

lemma set_subtasks_core: "core (set_subtasks n m run) = core run" "run_id (set_subtasks n m run) = run_id run"
    "map sr_stage (run_stages (set_subtasks n m run)) = map sr_stage (run_stages run)"
proof -
  have "map tup (update_first P (\<lambda>r. r\<lparr>sr_subtasks := x\<rparr>) rs) = map tup rs" for P x rs
    by (rule map_update_first_key) (simp add: tup_def)
  then show "core (set_subtasks n m run) = core run" by (simp add: core_tup set_subtasks_def on_stage_def)
  then show "map sr_stage (run_stages (set_subtasks n m run)) = map sr_stage (run_stages run)" by (rule core_stages_eq)
  show "run_id (set_subtasks n m run) = run_id run" by (simp add: set_subtasks_def on_stage_def)
qed

lemma progress_update_kept:
  assumes "getRun runId (w_db w) = Some fresh" "updateRun (set_subtasks n m fresh) t (w_db w) = Inr db'"
  shows "kept runId h w (tick (w\<lparr>w_db := db'\<rparr>))"
proof (rule kept_rows)
  show "db_meta (w_db (tick (w\<lparr>w_db := db'\<rparr>))) = db_meta (w_db w)"
    using assms(2) by (auto simp: updateRun_def Let_def split: prod.splits if_splits)
next
  assume ok: "runs_ok (w_db w)"
  obtain row where row: "find_run runId (w_db w) = Some row" "rr_doc row = fresh" using assms(1) by (auto simp: getRun_def)
  have rowok: "row_ok row" "rr_id row = runId" using find_run_row_ok [OF ok row(1)] by auto
  have "run_id (set_subtasks n m fresh) = runId" "wf_stages (run_stages (set_subtasks n m fresh))"
    using set_subtasks_core [of n m fresh] rowok row(2) by (auto simp: row_ok_def wf_stages_def)
  from updateRun_found [OF ok row(1) this, of t] assms(2) obtain row' where
    "runs_ok db'" "find_run runId db' = Some row'" "rr_doc row' = set_subtasks n m fresh" "rr_leaseHolder row' = rr_leaseHolder row"
    by auto
  then show "runs_ok (w_db (tick (w\<lparr>w_db := db'\<rparr>))) \<and> core (doc runId (tick (w\<lparr>w_db := db'\<rparr>))) = core (doc runId w) \<and>
      fst (getRunLease runId (w_db (tick (w\<lparr>w_db := db'\<rparr>)))) = fst (getRunLease runId (w_db w))"
    using row set_subtasks_core(1) by (simp add: doc_def getRun_def getRunLease_def)
qed

lemma progress_keeps:
  assumes "run_id run = runId"
  shows "keeps runId h (progress d run lease n m note)"
proof -
  let ?set = "\<lambda>w. if m > 0 then
               (case getRun (run_id run) (w_db w) of
                  None \<Rightarrow> (Inr (), w)
                | Some fresh \<Rightarrow>
                    if find_stage (run_currentStage fresh) (run_stages fresh) = None then (Inr (), w)
                    else case updateRun (set_subtasks n m fresh) (now d w) (w_db w) of
                      Inl _ \<Rightarrow> (Inl (Failure (''run not found: '' @ run_id run)), tick w)
                    | Inr db \<Rightarrow> (Inr (), tick (w\<lparr>w_db := db\<rparr>)))
             else (Inr () :: exn + unit, w)"
  have tick: "kept runId h w (tick w)" for w by (rule kept_frame) simp_all
  have "keeps runId h ?set"
    unfolding keeps_def using assms progress_update_kept tick by (auto split: option.split sum.split)
  moreover have "keeps runId h (case note of None \<Rightarrow> returnE ()
      | Some (reason, detail) \<Rightarrow> eventE d (run_id run) (stage_note (run_currentStage run) ((''reason'', JStr reason) # detail)))"
    by (auto intro: quiet_keeps split: option.split)
  ultimately have "keeps runId h (thenE ?set (case note of None \<Rightarrow> returnE ()
      | Some (reason, detail) \<Rightarrow> eventE d (run_id run) (stage_note (run_currentStage run) ((''reason'', JStr reason) # detail))))"
    by (rule keeps_then)
  then show ?thesis by (simp add: keeps_def progress_def)
qed

lemma run_step_keeps: "keeps runId h fn \<Longrightarrow> keeps runId h (run_step d runId lease stage family key fn)"
proof -
  have "kept runId h w (tick (on_db (putStepOutput (od_sha d) runId stage family key v (now d w)) w))" for v w
    by (rule kept_frame) (simp_all add: putStepOutput_def appendEvent_frame getMeta_def)
  then show "keeps runId h fn \<Longrightarrow> keeps runId h (run_step d runId lease stage family key fn)"
    unfolding run_step_def by (intro keeps_bind keeps_then keeps_do renew_kept) simp_all
qed

lemma checkpointed_keeps:
  assumes "keeps runId h fn"
  shows "keeps runId h (checkpointed d runId lease stage family key fp fn)"
proof -
  have "keeps runId h (doE (on_db (\<lambda>db. snd (clearStepOutputs runId stage family db))))"
      "keeps runId h (doE (on_db (putStepFingerprint runId stage family f)))" for f
    by (rule quiet_keeps, rule quiet_do, simp add: clearStepOutputs_def putStepFingerprint_def)+
  moreover have "keeps runId h (noteE d runId x)" for x by (rule quiet_keeps) simp
  ultimately show ?thesis
    unfolding checkpointed_def using run_step_keeps [OF assms]
    by (auto intro!: keeps_then keeps_bind keeps_when split: option.split)
qed

lemma cancel_run_keeps: "keeps runId h (cancel_run d runId via)"
  unfolding keeps_def
proof
  fix w :: world
  let ?w1 = "w\<lparr>w_wire := (case w_wire w runId of None \<Rightarrow> w_wire w | Some _ \<Rightarrow> (w_wire w)(runId \<mapsto> True))\<rparr>"
  let ?db = "snd (requestCancel runId (w_db w))"
  let ?f = "\<lambda>r. r\<lparr>rr_doc := (rr_doc r)\<lparr>run_cancelRequested := True\<rparr>\<rparr>"
  let ?P = "\<lambda>r. rr_id r = runId \<and> cancellable (rr_status r)"
  have db: "?db = (w_db w)\<lparr>db_runs := fst (sql_update ?P ?f (db_runs (w_db w)))\<rparr>" by (simp add: requestCancel_def Let_def split: prod.split)
  have find: "find_run runId ?db = map_option (\<lambda>r. if ?P r then ?f r else r) (find_run runId (w_db w))"
    unfolding db by (rule find_run_update) simp
  have "runs_ok ?db" if "runs_ok (w_db w)" unfolding db using that by (rule runs_ok_update) (auto simp: row_ok_def)
  moreover have "core (doc runId (?w1\<lparr>w_db := ?db\<rparr>)) = core (doc runId w)"
    by (cases "find_run runId (w_db w)") (simp_all add: doc_def getRun_def find core_def)
  moreover have "fst (getRunLease runId ?db) = fst (getRunLease runId (w_db w))" by (auto simp: getRunLease_def find split: option.split)
  ultimately have k: "kept runId h w (?w1\<lparr>w_db := ?db\<rparr>)" by (intro kept_rows) (simp_all add: db)
  have "keeps runId h (thenE (eventE d runId e) (returnE True))" for e by (intro keeps_then quiet_keeps) simp_all
  then show "kept runId h w (snd (cancel_run d runId via w))"
    using kept_trans [OF k] k by (auto simp: cancel_run_def Let_def keeps_def split: prod.split)
qed

section \<open>The fenced transition\<close>

lemma getRun_renew: "getRun i (w_db (renew d lease r w)) = getRun i (w_db w)"
proof (cases lease)
  case (Some h)
  have "find_run i (renewLease r h t db) = map_option (\<lambda>x. if rr_id x = r \<and> rr_leaseHolder x = Some h then x\<lparr>rr_leaseExpiresAt := Some t\<rparr> else x) (find_run i db)" for t db
    unfolding renewLease_def by (rule find_run_update) simp
  then show ?thesis by (auto simp: renew_def Some getRun_def option.map_comp comp_def intro: option.map_cong)
qed (simp add: renew_def)

lemma updateRun_docs:
  assumes "updateRun run t db = Inr db'"
  shows "getRun (run_id run) db' = Some run" "j \<noteq> run_id run \<Longrightarrow> getRun j db' = getRun j db"
proof -
  let ?f = "\<lambda>r. r\<lparr>rr_status := run_status run, rr_currentStage := run_currentStage run, rr_doc := run, rr_updatedAt := t\<rparr>"
  have db': "db' = db\<lparr>db_runs := fst (sql_update (\<lambda>r. rr_id r = run_id run) ?f (db_runs db))\<rparr>"
    and one: "length (filter (\<lambda>r. rr_id r = run_id run) (db_runs db)) = 1"
    using assms by (auto simp: updateRun_def sql_update_def split: if_splits)
  have find: "find_run i db' = map_option (\<lambda>r. if rr_id r = run_id run then ?f r else r) (find_run i db)" for i
    unfolding db' by (rule find_run_update) simp
  have "find_run (run_id run) db \<noteq> None"
  proof
    assume "find_run (run_id run) db = None"
    then have "filter (\<lambda>r. rr_id r = run_id run) (db_runs db) = []" by (simp add: find_run_def find_None_set filter_empty_conv)
    then show False using one by simp
  qed
  then obtain row where row: "find_run (run_id run) db = Some row" by auto
  then show "getRun (run_id run) db' = Some run" using find_run_id [OF row] by (simp add: getRun_def find)
  show "j \<noteq> run_id run \<Longrightarrow> getRun j db' = getRun j db"
    by (cases "find_run j db") (auto simp: getRun_def find dest: find_run_id)
qed

text \<open>C8. A transition is fenced by the lease on both sides of its edit. An executor that has lost the
  lease before the edit gets \<open>LeaseLost\<close> with the world untouched; one that loses it while the edit is
  computed gets \<open>LeaseLost\<close> and the computed document is not written; only an executor that held the
  lease before and after the edit writes, and then the store holds exactly the returned document and
  every other run's document is as the edit left it.\<close>

theorem transition_fenced:
  assumes "getRun runId (w_db w) = Some run"
  shows "(\<not> holds_lease lease runId (w_db w) \<longrightarrow> transition d runId fn lease w = (Inl (LeaseLost runId), w)) \<and>
    (holds_lease lease runId (w_db w) \<and> fn run w = (Inr nxt, w1) \<and> \<not> holds_lease lease runId (w_db w1) \<longrightarrow>
      transition d runId fn lease w = (Inl (LeaseLost runId), w1)) \<and>
    (transition d runId fn lease w = (Inr run', w') \<longrightarrow>
      (\<exists>nxt w1. holds_lease lease runId (w_db w) \<and> fn run w = (Inr nxt, w1) \<and> holds_lease lease runId (w_db w1) \<and>
        run' = nxt\<lparr>run_updatedAt := now d w1\<rparr> \<and> getRun (run_id nxt) (w_db w') = Some run' \<and>
        (\<forall>j. j \<noteq> run_id nxt \<longrightarrow> getRun j (w_db w') = getRun j (w_db w1))))"
proof (intro conjI impI)
  assume t: "transition d runId fn lease w = (Inr run', w')"
  then have l: "holds_lease lease runId (w_db w)" by (auto simp: transition_def split: if_splits)
  obtain r w1 where fn: "fn run w = (r, w1)" by (cases "fn run w")
  obtain nxt db where n: "r = Inr nxt" "holds_lease lease runId (w_db w1)" "run' = nxt\<lparr>run_updatedAt := now d w1\<rparr>"
      "updateRun run' (now d (tick w1)) (w_db w1) = Inr db" "w' = renew d lease runId ((tick (tick w1))\<lparr>w_db := db\<rparr>)"
    using t l assms fn by (auto simp: transition_def Let_def split: sum.splits if_splits)
  have "getRun (run_id nxt) (w_db w') = Some run' \<and> (\<forall>j. j \<noteq> run_id nxt \<longrightarrow> getRun j (w_db w') = getRun j (w_db w1))"
    using updateRun_docs [OF n(4)] n(3) by (simp add: n(5) getRun_renew)
  then show "\<exists>nxt w1. holds_lease lease runId (w_db w) \<and> fn run w = (Inr nxt, w1) \<and> holds_lease lease runId (w_db w1) \<and>
        run' = nxt\<lparr>run_updatedAt := now d w1\<rparr> \<and> getRun (run_id nxt) (w_db w') = Some run' \<and>
        (\<forall>j. j \<noteq> run_id nxt \<longrightarrow> getRun j (w_db w') = getRun j (w_db w1))"
    using l fn n(1-3) by blast
qed (use assms in \<open>auto simp: transition_def\<close>)

section \<open>Step checkpoints\<close>

lemma step_frame:
  "getStepFingerprint r s f (putStepOutput sha r' s' f' k v t db) = getStepFingerprint r s f db"
  "getStepFingerprint r s f (renewLease i h t db) = getStepFingerprint r s f db"
  "getStepOutput r s f k (renewLease i h t db) = getStepOutput r s f k db"
  "getStepOutput r s f k (putStepFingerprint r' s' f' p db) = getStepOutput r s f k db"
  "getStepOutput r s f k (appendEvent sha i e t db) = getStepOutput r s f k db"
  by (simp_all add: getStepFingerprint_def getStepOutput_def putStepOutput_def renewLease_def putStepFingerprint_def appendEvent_frame)

lemma fingerprint_put: "getStepFingerprint r s f (putStepFingerprint r s f p db) = Some p"
  unfolding getStepFingerprint_def putStepFingerprint_def by (simp add: find_insert_or_replace) (simp add: fp_key_def)

definition prepare_family ::
  "deps \<Rightarrow> id \<Rightarrow> run_stage_name \<Rightarrow> string \<Rightarrow> string \<Rightarrow> world \<Rightarrow> world" where
  "prepare_family d runId stage family fp w =
     (let stored = getStepFingerprint runId stage family (w_db w) in
      if stored = Some fp then w
      else on_db (putStepFingerprint runId stage family fp)
        (if stored = None then w
         else snd (noteE d runId [(''reason'', JStr ''step_checkpoint_invalidated''), (''stage'', JStr (stage_str stage)),
             (''family'', JStr family), (''storedFingerprint'', JStr (the stored)), (''newFingerprint'', JStr fp)]
           (on_db (\<lambda>db. snd (clearStepOutputs runId stage family db)) w))))"

lemma checkpointed_unfold:
  "checkpointed d runId lease stage family key (Some fp) fn w =
     (let u = prepare_family d runId stage family fp w in
      case getStepOutput runId stage family key (w_db u) of
        Some v \<Rightarrow> if v = JNull then run_step d runId lease stage family key fn u else (Inr v, u)
      | None \<Rightarrow> run_step d runId lease stage family key fn u)"
  by (cases "getStepFingerprint runId stage family (w_db w)";
      simp add: checkpointed_def prepare_family_def Let_def thenE_def bindE_def readE_def whenE_def doE_def returnE_def
        noteE_def eventE_def split: option.split)

lemma prepare_family_facts:
  shows "getStepFingerprint runId stage family (w_db (prepare_family d runId stage family fp w)) = Some fp"
    "getStepFingerprint runId stage family (w_db w) = Some fp \<Longrightarrow> prepare_family d runId stage family fp w = w"
    "getStepFingerprint runId stage family (w_db w) \<notin> {None, Some fp} \<Longrightarrow>
      getStepOutput runId stage family key (w_db (prepare_family d runId stage family fp w)) = None"
proof -
  have n: "w_db (snd (noteE d runId x w)) = appendEvent (od_sha d) runId (plain_event E_note x) (now d w) (w_db w)" for x w
    by (simp add: noteE_def eventE_def doE_def)
  show "getStepFingerprint runId stage family (w_db (prepare_family d runId stage family fp w)) = Some fp"
    by (simp add: prepare_family_def Let_def fingerprint_put)
  show "getStepFingerprint runId stage family (w_db w) = Some fp \<Longrightarrow> prepare_family d runId stage family fp w = w"
    by (simp add: prepare_family_def)
  have "getStepOutput runId stage family key (snd (clearStepOutputs runId stage family db)) = None" for db
    unfolding getStepOutput_def clearStepOutputs_def by (auto simp: find_None_set step_key_of_def)
  then show "getStepFingerprint runId stage family (w_db w) \<notin> {None, Some fp} \<Longrightarrow>
      getStepOutput runId stage family key (w_db (prepare_family d runId stage family fp w)) = None"
    by (auto simp: prepare_family_def Let_def step_frame n)
qed

lemma run_step_result:
  assumes "run_step d runId lease stage family key fn u = (Inr v, w')"
  shows "\<exists>u'. fn u = (Inr v, u') \<and> getStepOutput runId stage family key (w_db w') = Some v \<and>
    getStepFingerprint runId stage family (w_db w') = getStepFingerprint runId stage family (w_db u')"
proof -
  obtain r u' where fn: "fn u = (r, u')" by (cases "fn u")
  let ?w = "tick (on_db (putStepOutput (od_sha d) runId stage family key v (now d u')) u')"
  have v: "r = Inr v" "w' = renew d lease runId ?w"
    using assms fn by (auto simp: run_step_def bindE_def thenE_def doE_def returnE_def split: sum.splits)
  have ren: "getStepOutput runId stage family key (w_db (renew d lease runId w)) = getStepOutput runId stage family key (w_db w)"
      "getStepFingerprint runId stage family (w_db (renew d lease runId w)) = getStepFingerprint runId stage family (w_db w)" for w
    by (simp_all add: renew_def step_frame split: option.split)
  have "getStepOutput runId stage family key (putStepOutput sha runId stage family key v t db) = Some v" for sha t db
    unfolding getStepOutput_def putStepOutput_def by (simp add: appendEvent_frame find_insert_or_replace) (simp add: step_key_of_def)
  then show ?thesis using fn v by (simp add: ren step_frame)
qed

text \<open>C21. A checkpointed step is run once per fingerprint of its inputs: once it has returned a value other
  than null, calling it again under the same fingerprint returns that value whatever the step's
  computation is by then, without running it and without touching the store; under another fingerprint
  the value is forgotten and the computation runs again.\<close>

theorem checkpointed_once_per_fingerprint:
  assumes "checkpointed d runId lease stage family key (Some fp) fn w = (Inr v, w1)" "v \<noteq> JNull"
    and "\<And>u. getStepFingerprint runId stage family (w_db (snd (fn u))) = getStepFingerprint runId stage family (w_db u)"
  shows "checkpointed d runId lease stage family key (Some fp) fn' w1 = (Inr v, w1) \<and>
    (fp' \<noteq> fp \<longrightarrow> (\<exists>u. getStepFingerprint runId stage family (w_db u) = Some fp' \<and>
      getStepOutput runId stage family key (w_db u) = None \<and>
      checkpointed d runId lease stage family key (Some fp') fn' w1 = run_step d runId lease stage family key fn' u))"
proof -
  let ?u = "prepare_family d runId stage family fp w"
  have run: "getStepOutput runId stage family key (w_db w1) = Some v \<and> getStepFingerprint runId stage family (w_db w1) = Some fp"
    if r: "run_step d runId lease stage family key fn ?u = (Inr v, w1)"
  proof -
    obtain u' where u': "fn ?u = (Inr v, u')" "getStepOutput runId stage family key (w_db w1) = Some v"
        "getStepFingerprint runId stage family (w_db w1) = getStepFingerprint runId stage family (w_db u')"
      using run_step_result [OF r] by blast
    then show ?thesis using assms(3) [of ?u] by (simp add: prepare_family_facts(1))
  qed
  have st: "getStepOutput runId stage family key (w_db w1) = Some v" "getStepFingerprint runId stage family (w_db w1) = Some fp"
    using assms(1,2) run prepare_family_facts(1) [of runId stage family d fp w]
    by (auto simp: checkpointed_unfold Let_def split: option.splits if_splits)
  have "checkpointed d runId lease stage family key (Some fp) fn' w1 = (Inr v, w1)"
    using st assms(2) by (simp add: checkpointed_unfold prepare_family_facts(2))
  moreover have "checkpointed d runId lease stage family key (Some fp') fn' w1 =
      run_step d runId lease stage family key fn' (prepare_family d runId stage family fp' w1)" if "fp' \<noteq> fp"
    using st prepare_family_facts(3) [of runId stage family w1 fp' key d] that by (simp add: checkpointed_unfold)
  ultimately show ?thesis
    using st prepare_family_facts(1) [of runId stage family d fp' w1] prepare_family_facts(3) [of runId stage family w1 fp' key d] by auto
qed

text \<open>What a stage handler can do through its context keeps the contract the executor relies on:
  recording a receipt, reporting progress, running a checkpointed step whose computation keeps the
  contract, and requesting cancellation change neither the run's status, nor a stage's state, attempt or
  start, nor the lease holder, nor the keys that steer the machine.\<close>

theorem context_operations_keep_contract:
  assumes "run_id run = runId" "keeps runId h fn"
  shows "keeps runId h (receiptSink d runId lease partial) \<and> keeps runId h (progress d run lease n m note) \<and>
    keeps runId h (checkpointed d runId lease stage family key fp fn) \<and> keeps runId h (cancel_run d runId via)"
  by (intro conjI receiptSink_keeps progress_keeps checkpointed_keeps cancel_run_keeps assms)

theorem context_operations_keep_contract_witness:
  "keeps ''run_1'' ''me'' (progress demo_deps demo_run (Some ''me'') 1 3 None) \<and>
   keeps ''run_1'' ''me'' (checkpointed demo_deps ''run_1'' (Some ''me'') Scope ''f'' ''k'' (Some ''fp'') (returnE (JNum 1)))"
  using context_operations_keep_contract [of demo_run "''run_1''" "''me''" "returnE (JNum 1)"] by (simp add: demo_run_def new_run_def)

theorem transition_fenced_witness:
  "transition demo_deps ''run_1'' (edit (mark_run RunRunning)) (Some ''me'') held_world = (Inl (LeaseLost ''run_1''), held_world)"
proof -
  have "getRun ''run_1'' (w_db held_world) = Some demo_run" by (simp add: held_world_def leased_facts demo_store_get)
  moreover have "\<not> holds_lease (Some ''me'') ''run_1'' (w_db held_world)" by (simp add: holds_lease_def held_world_def leased_facts)
  ultimately show ?thesis using transition_fenced by blast
qed

definition sample_step :: "json comp" where
  "sample_step = returnE (JNum 7)"

definition after_sample :: world where
  "after_sample = snd (checkpointed demo_deps ''run_1'' (Some ''me'') Scope ''f'' ''k'' (Some ''fp'') sample_step demo_world)"

theorem checkpointed_once_per_fingerprint_witness:
  "checkpointed demo_deps ''run_1'' (Some ''me'') Scope ''f'' ''k'' (Some ''fp'') (throwE (Failure ''not run'')) after_sample =
    (Inr (JNum 7), after_sample)"
proof -
  let ?c = "checkpointed demo_deps ''run_1'' (Some ''me'') Scope ''f'' ''k'' (Some ''fp'') sample_step demo_world"
  have "getStepOutput ''run_1'' Scope ''f'' ''k'' (w_db (prepare_family demo_deps ''run_1'' Scope ''f'' ''fp'' demo_world)) = None"
    by (simp add: prepare_family_def Let_def demo_world_def demo_store_def empty_store_def getStepFingerprint_def getStepOutput_def putStepFingerprint_def)
  then have "fst ?c = Inr (JNum 7)"
    by (simp add: checkpointed_unfold Let_def run_step_def sample_step_def bindE_def thenE_def doE_def returnE_def)
  then have "?c = (Inr (JNum 7), after_sample)" unfolding after_sample_def by (metis prod.collapse)
  then show ?thesis
    by (rule checkpointed_once_per_fingerprint [THEN conjunct1]) (simp_all add: sample_step_def returnE_def)
qed

end
