(* ===== verification/Objects.thy ===== *)
theory Objects
  imports Store_Runs
begin

text \<open>
  Reading the JSON objects of the store the way the evaluators over persisted state do: string, integer
  and array members with the emptiness a missing member has, blank strings, and the stable sort by a
  comparator of \<open>Array.prototype.sort\<close>.
\<close>

section \<open>Members\<close>

definition jarr :: "string \<Rightarrow> json \<Rightarrow> json list" where
  "jarr k v = (case jget k v of Some (JArr xs) \<Rightarrow> xs | _ \<Rightarrow> [])"

definition jstrs :: "string \<Rightarrow> json \<Rightarrow> string list" where
  "jstrs k v = List.map_filter (\<lambda>x. case x of JStr s \<Rightarrow> Some s | _ \<Rightarrow> None) (jarr k v)"

definition str_at :: "string \<Rightarrow> json \<Rightarrow> string" where
  "str_at k v = (case jstr k v of Some s \<Rightarrow> s | None \<Rightarrow> [])"

definition int_at :: "string \<Rightarrow> json \<Rightarrow> int" where
  "int_at k v = (case jget k v of Some (JNum n) \<Rightarrow> n | _ \<Rightarrow> 0)"

section \<open>Text and order\<close>

definition is_space :: "char \<Rightarrow> bool" where
  "is_space c \<longleftrightarrow> of_char c \<in> {9, 10, 11, 12, 13, 32 :: nat}"

definition blank :: "string \<Rightarrow> bool" where
  "blank s \<longleftrightarrow> list_all is_space s"

text \<open>A stable sort by a comparator, as \<open>Array.prototype.sort\<close>.\<close>

fun insert_by :: "('a \<Rightarrow> 'a \<Rightarrow> int) \<Rightarrow> 'a \<Rightarrow> 'a list \<Rightarrow> 'a list" where
  "insert_by cmp x [] = [x]"
| "insert_by cmp x (y # ys) = (if cmp x y \<le> 0 then x # y # ys else y # insert_by cmp x ys)"

definition sort_by :: "('a \<Rightarrow> 'a \<Rightarrow> int) \<Rightarrow> 'a list \<Rightarrow> 'a list" where
  "sort_by cmp xs = foldr (insert_by cmp) xs []"

lemma sort_by_set [simp]: "set (sort_by cmp xs) = set xs"
proof -
  have "set (insert_by cmp x ys) = insert x (set ys)" for x ys by (induction ys) auto
  then show ?thesis by (induction xs) (auto simp: sort_by_def)
qed

lemma sort_by_Nil [simp]: "sort_by cmp xs = [] \<longleftrightarrow> xs = []"
  using sort_by_set [of cmp xs] by (metis list.set(1) set_empty)


section \<open>Digests and timestamps\<close>

definition canonicalSha256 :: "(string \<Rightarrow> string) \<Rightarrow> json \<Rightarrow> string" where
  "canonicalSha256 sha v = sha (canonicalJson v)"

text \<open>\<open>z.string().datetime()\<close> of the schema library: a calendar date, the time of day with optional seconds and
  fraction, in UTC.\<close>

definition num_at :: "string \<Rightarrow> nat \<Rightarrow> nat \<Rightarrow> nat option" where
  "num_at s i n = (let t = take n (drop i s) in if length t = n \<and> list_all is_digit t then Some (nat_of_digits 0 t) else None)"

definition month_days :: "nat \<Rightarrow> nat \<Rightarrow> nat" where
  "month_days y m =
     (if m = 2 then (if y mod 4 = 0 \<and> (y mod 100 \<noteq> 0 \<or> y mod 400 = 0) then 29 else 28)
      else if m \<in> {4, 6, 9, 11} then 30 else 31)"

definition time_tail :: "string \<Rightarrow> bool" where
  "time_tail t \<longleftrightarrow> t = ''Z'' \<or>
     (take 1 t = '':'' \<and>
      (case num_at t 1 2 of None \<Rightarrow> False
       | Some sec \<Rightarrow> sec < 60 \<and>
           (let f = drop 3 t in f = ''Z'' \<or>
              (take 1 f = ''.'' \<and> drop 1 f \<noteq> [] \<and> last f = CHR ''Z'' \<and> butlast (drop 1 f) \<noteq> [] \<and> list_all is_digit (butlast (drop 1 f))))))"

definition zod_datetime :: "string \<Rightarrow> bool" where
  "zod_datetime s =
     (case (num_at s 0 4, num_at s 5 2, num_at s 8 2, num_at s 11 2, num_at s 14 2) of
        (Some y, Some m, Some d, Some h, Some mi) \<Rightarrow>
          1 \<le> m \<and> m \<le> 12 \<and> 1 \<le> d \<and> d \<le> month_days y m \<and> h < 24 \<and> mi < 60 \<and>
          take 1 (drop 4 s) = ''-'' \<and> take 1 (drop 7 s) = ''-'' \<and> take 1 (drop 10 s) = ''T'' \<and> take 1 (drop 13 s) = '':'' \<and>
          time_tail (drop 16 s)
      | _ \<Rightarrow> False)"


section \<open>Shapes of identifiers and texts\<close>

text \<open>A prefix followed by \<^verbatim>\<open>[a-z0-9]+\<close>, and a length between two bounds.\<close>

definition id_char :: "char \<Rightarrow> bool" where
  "id_char c \<longleftrightarrow> is_digit c \<or> (97 \<le> (of_char c :: nat) \<and> (of_char c :: nat) \<le> 122)"

definition prefixed_id :: "string \<Rightarrow> string \<Rightarrow> bool" where
  "prefixed_id p s \<longleftrightarrow> starts_with s p \<and> drop (length p) s \<noteq> [] \<and> list_all id_char (drop (length p) s)"

definition length_in :: "nat \<Rightarrow> nat \<Rightarrow> string \<Rightarrow> bool" where
  "length_in lo hi s \<longleftrightarrow> lo \<le> length s \<and> length s \<le> hi"

end
