(* ===== verification/Iteration.thy ===== *)
theory Iteration
  imports Orch_Progress Objects
begin

text \<open>
  The research iteration controller of \<^verbatim>\<open>src/src/app/iteration.ts\<close>: after a finished pass of the stage
  machine, \<open>evaluateIteration\<close> decides from persisted state whether another bounded round has actionable
  work. The executability check of a plan (\<^verbatim>\<open>src/src/pipeline/stages/plan.ts\<close>) and the lookup of a
  registered protocol (\<^verbatim>\<open>src/src/experiment/protocol-from-plan.ts\<close>) are the parts it consults.

  \<open>localeCompare\<close> is the runtime's collation; the digest, the identifier of the new record and the round cap
  read from the environment are arguments. Stored objects are JSON values of the shapes their schemas give
  them; a member its schema requires is read as empty where it is missing.
\<close>

section \<open>Executability of a plan\<close>

datatype plan_defect =
    EmptyObjective | NoHypotheses | UnknownHypothesis id | TooFewSteps nat | StepWithoutMethod nat | StepWithoutFailureConditions nat
  | BadStepInput nat string | DanglingDependency nat string | TooFewMetrics nat | MissingRule string | NoTestingPolicy | NoVariables nat

definition MIN_STEPS :: nat where
  "MIN_STEPS = 3"

definition MIN_METRICS :: nat where
  "MIN_METRICS = 2"

definition step_defects :: "string list \<Rightarrow> nat \<Rightarrow> json \<Rightarrow> plan_defect list" where
  "step_defects stepIds i step =
     (if blank (str_at ''method'' step) then [StepWithoutMethod i] else []) @
     (if jarr ''failureConditions'' step = [] then [StepWithoutFailureConditions i] else []) @
     map (BadStepInput i) (filter (\<lambda>ref. starts_with ref ''task_'' \<and> ref \<notin> set stepIds) (jstrs ''inputs'' step)) @
     map (DanglingDependency i) (filter (\<lambda>dep. dep \<notin> set stepIds) (jstrs ''dependsOn'' step))"

definition plan_rules :: "json \<Rightarrow> json" where
  "plan_rules plan = (case jget ''decisionRules'' plan of Some r \<Rightarrow> r | None \<Rightarrow> JObj [])"

definition checkPlanExecutability :: "json \<Rightarrow> id list \<Rightarrow> plan_defect list" where
  "checkPlanExecutability plan known =
     (let steps = jarr ''steps'' plan; stepIds = map (str_at ''id'') steps; hyps = jstrs ''hypothesisIds'' plan in
      (if blank (str_at ''objective'' plan) then [EmptyObjective] else []) @
      (if hyps = [] then [NoHypotheses] else []) @
      map UnknownHypothesis (filter (\<lambda>h. h \<notin> set known) hyps) @
      (if length steps < MIN_STEPS then [TooFewSteps (length steps)] else []) @
      concat (map (\<lambda>(i, step). step_defects stepIds i step) (zip [0..<length steps] steps)) @
      (if length (jarr ''metrics'' plan) < MIN_METRICS then [TooFewMetrics (length (jarr ''metrics'' plan))] else []) @
      List.map_filter (\<lambda>f. if blank (str_at f (plan_rules plan)) then Some (MissingRule f) else None)
        [''successCriterion'', ''weakeningCriterion'', ''falsificationCriterion'', ''stopCriterion''] @
      (if length hyps > 1 \<and> jget ''multipleTestingPolicy'' plan \<in> {None, Some JUndef} then [NoTestingPolicy] else []) @
      List.map_filter (\<lambda>(i, req). if jarr ''variables'' req = [] then Some (NoVariables i) else None)
        (zip [0..<length (jarr ''dataRequirements'' plan)] (jarr ''dataRequirements'' plan)))"

definition planHashOf :: "(string \<Rightarrow> string) \<Rightarrow> json \<Rightarrow> string" where
  "planHashOf sha plan = (case jstr ''planHash'' plan of Some h \<Rightarrow> h | None \<Rightarrow> canonicalSha256 sha (JStr (canonicalJson plan)))"

definition protocolForPlan :: "(string \<Rightarrow> string) \<Rightarrow> store \<Rightarrow> id \<Rightarrow> json \<Rightarrow> json option" where
  "protocolForPlan sha db runId plan =
     List.find (\<lambda>p. str_at ''planId'' p = str_at ''id'' plan \<and> str_at ''planHash'' p = planHashOf sha plan)
       (listObjects ''protocol'' runId db)"

section \<open>The plan-versus-experiment leg\<close>

datatype leg_status =
  No_plan | Unexecuted id | Unexecutable id string | Plan_revised_since_experiment id string string | Current id

definition TRANSPORTAL_SKIP_MARKERS :: "string list" where
  "TRANSPORTAL_SKIP_MARKERS = [''model call failed'', ''budget'']"

definition isScientificUnexecutableSkip :: "string option \<Rightarrow> bool" where
  "isScientificUnexecutableSkip reason =
     (case reason of None \<Rightarrow> False
      | Some r \<Rightarrow> r \<noteq> [] \<and> \<not> list_ex (\<lambda>m. starts_with r m) TRANSPORTAL_SKIP_MARKERS)"

definition ended_or_created :: "json \<Rightarrow> string" where
  "ended_or_created r = (case jstr ''endedAt'' r of Some t \<Rightarrow> t | None \<Rightarrow> str_at ''createdAt'' r)"

definition last_completed :: "(string \<Rightarrow> string \<Rightarrow> int) \<Rightarrow> store \<Rightarrow> id \<Rightarrow> json option" where
  "last_completed lc db runId =
     (case sort_by (\<lambda>a b. lc (ended_or_created b) (ended_or_created a))
        (filter (\<lambda>r. starts_with (str_at ''specId'' r) ''xsp_'' \<and> str_at ''status'' r = ''completed'')
          (listObjects ''experiment_run'' runId db)) of
        [] \<Rightarrow> None | r # _ \<Rightarrow> Some r)"

definition experimentLegStatus :: "(string \<Rightarrow> string \<Rightarrow> int) \<Rightarrow> store \<Rightarrow> id \<Rightarrow> leg_status" where
  "experimentLegStatus lc db runId =
     (case at_last (listObjects ''plan'' runId db) of
        None \<Rightarrow> No_plan
      | Some plan \<Rightarrow>
          (case last_completed lc db runId of
             None \<Rightarrow>
               (case Option.bind (getRun runId db) (\<lambda>run. find_stage Execute (run_stages run)) of
                  None \<Rightarrow> Unexecuted (str_at ''id'' plan)
                | Some execStage \<Rightarrow>
                    if sr_state execStage = SSkipped \<and> isScientificUnexecutableSkip (sr_error execStage)
                    then (let skipEndedAt = (case sr_endedAt execStage of Some t \<Rightarrow> iso t | None \<Rightarrow> []) in
                          case jstr ''frozenAt'' plan of
                            Some frozen \<Rightarrow> if frozen > skipEndedAt then Unexecuted (str_at ''id'' plan)
                              else Unexecutable (str_at ''id'' plan) (the (sr_error execStage))
                          | None \<Rightarrow> Unexecutable (str_at ''id'' plan) (the (sr_error execStage)))
                    else Unexecuted (str_at ''id'' plan))
           | Some r \<Rightarrow>
               (case (jstr ''frozenAt'' plan, jstr ''endedAt'' r) of
                  (Some frozenAt, Some endedAt) \<Rightarrow>
                    if frozenAt > endedAt then Plan_revised_since_experiment (str_at ''id'' plan) frozenAt endedAt
                    else Current (str_at ''id'' plan)
                | _ \<Rightarrow> Current (str_at ''id'' plan))))"

section \<open>Material state\<close>

definition HYPOTHESIS_SCOPE_FIELDS :: "string list" where
  "HYPOTHESIS_SCOPE_FIELDS = [''statement'', ''mechanism'', ''predictions'']"

definition PLAN_SCOPE_FIELDS :: "string list" where
  "PLAN_SCOPE_FIELDS = [''steps'', ''metrics'', ''decisionRules'']"

definition semantic_entry :: "json \<Rightarrow> bool" where
  "semantic_entry entry =
     (let scope = (if str_at ''objectType'' entry = ''hypothesis'' then HYPOTHESIS_SCOPE_FIELDS
                   else if str_at ''objectType'' entry = ''plan'' then PLAN_SCOPE_FIELDS else [])
      in list_ex (\<lambda>f. f \<in> set scope) (jstrs ''changedFields'' entry) \<or>
         list_ex (\<lambda>f. f = ''falsifiability_retained:false'' \<or> f = ''decision_rules_preserved:false'') (jstrs ''semanticFlags'' entry))"

definition countSemanticRevisions :: "store \<Rightarrow> id \<Rightarrow> nat" where
  "countSemanticRevisions db runId =
     length (filter semantic_entry (concat (map (jarr ''entries'') (listObjects ''version_diff'' runId db))))"

definition consumed_feedback :: "store \<Rightarrow> id \<Rightarrow> string list" where
  "consumed_feedback db runId = map (str_at ''triggerFeedbackId'') (listObjects ''revision'' runId db)"

definition iteration_material :: "store \<Rightarrow> id \<Rightarrow> (string \<times> json) list" where
  "iteration_material db runId =
     (let count = (\<lambda>kind. JNum (int (length (listObjects kind runId db))));
          count_if = (\<lambda>kind P. JNum (int (length (filter P (listObjects kind runId db))))) in
      [(''claims'', count ''claim''),
       (''verifiedClaims'', count_if ''claim'' (\<lambda>c. str_at ''bindingStatus'' c = ''verified'')),
       (''hypotheses'', count ''hypothesis''),
       (''hypothesisVersionSum'', JNum (sum_list (map (int_at ''version'') (listObjects ''hypothesis'' runId db)))),
       (''scorecards'', count ''scorecard''),
       (''plans'', count ''plan''),
       (''revisions'', count ''revision''),
       (''semanticRevisionChanges'', JNum (int (countSemanticRevisions db runId))),
       (''experimentRunsCompleted'', count_if ''experiment_run'' (\<lambda>r. str_at ''status'' r = ''completed'')),
       (''feedbackSignals'', count ''feedback''),
       (''feedbackConsumed'', count_if ''feedback'' (\<lambda>s. str_at ''id'' s \<in> set (consumed_feedback db runId))),
       (''effectEstimates'', count ''effect_estimate''),
       (''protocolsRegistered'', count ''protocol'')])"

definition material_fingerprint :: "(string \<Rightarrow> string) \<Rightarrow> store \<Rightarrow> id \<Rightarrow> string" where
  "material_fingerprint sha db runId = sha (canonicalJson (JObj (iteration_material db runId)))"

definition computeIterationSnapshot :: "(string \<Rightarrow> string) \<Rightarrow> store \<Rightarrow> id \<Rightarrow> nat \<Rightarrow> json" where
  "computeIterationSnapshot sha db runId rnd =
     JObj ([(''round'', JNum (int rnd))] @ iteration_material db runId @ [(''fingerprint'', JStr (material_fingerprint sha db runId))])"

section \<open>The decision\<close>

text \<open>The number of rounds is read from the environment and clamped; a missing, unreadable or zero value gives
  three rounds.\<close>

definition MAX_ITERATION_ROUNDS :: "int option \<Rightarrow> nat" where
  "MAX_ITERATION_ROUNDS env = nat (min 10 (max 1 (case env of None \<Rightarrow> 3 | Some n \<Rightarrow> if n = 0 then 3 else n)))"

definition FEEDBACK_LEG :: "run_stage_name list" where
  "FEEDBACK_LEG = [Feedback, Revise, Export]"

definition EXPERIMENT_LEG :: "run_stage_name list" where
  "EXPERIMENT_LEG = [Execute, Feedback, Revise, Export]"

datatype iteration_trigger = Unconsumed_feedback "id list" | Executable_plan_unexecuted id string

datatype iteration_stop = Round_cap nat | Budget_exhausted int int | No_material_delta | No_actionable_work

fun trigger_json :: "iteration_trigger \<Rightarrow> json" where
  "trigger_json (Unconsumed_feedback ids) = JObj [(''kind'', JStr ''unconsumed_feedback''), (''signalIds'', JArr (map JStr ids))]"
| "trigger_json (Executable_plan_unexecuted planId because) =
     JObj [(''kind'', JStr ''executable_plan_unexecuted''), (''planId'', JStr planId), (''because'', JStr because)]"

fun stop_json :: "iteration_stop \<Rightarrow> json" where
  "stop_json (Round_cap n) = JObj [(''kind'', JStr ''round_cap''), (''rounds'', JNum (int n))]"
| "stop_json (Budget_exhausted spent cap) = JObj [(''kind'', JStr ''budget_exhausted''), (''spent'', JNum spent), (''cap'', JNum cap)]"
| "stop_json No_material_delta = JObj [(''kind'', JStr ''no_material_delta'')]"
| "stop_json No_actionable_work = JObj [(''kind'', JStr ''no_actionable_work'')]"

definition buildRecord ::
  "id \<Rightarrow> id \<Rightarrow> nat \<Rightarrow> instant \<Rightarrow> json \<Rightarrow> iteration_trigger + iteration_stop \<Rightarrow> run_stage_name list \<Rightarrow> string \<Rightarrow> string list \<Rightarrow> json" where
  "buildRecord freshId runId rnd decidedAt snapshot why reopen rationale hints =
     JObj ([(''id'', JStr freshId), (''runId'', JStr runId), (''round'', JNum (int rnd)), (''decidedAt'', JStr (iso decidedAt))] @
       (case why of
          Inl t \<Rightarrow> [(''decision'', JStr ''continue''), (''continueTrigger'', trigger_json t)]
        | Inr s \<Rightarrow> [(''decision'', JStr ''stop''), (''stopReason'', stop_json s)]) @
       [(''reopenStages'', stages_json reopen), (''rationale'', JStr rationale), (''snapshot'', snapshot),
        (''unblockHints'', JArr (map JStr hints))])"

definition stop_at :: "id \<Rightarrow> id \<Rightarrow> nat \<Rightarrow> instant \<Rightarrow> json \<Rightarrow> iteration_stop \<Rightarrow> string \<Rightarrow> string list \<Rightarrow> iteration_decision" where
  "stop_at freshId runId rnd decidedAt snapshot s rationale hints =
     \<lparr>it_continue = False, it_reopenStages = [], it_record = buildRecord freshId runId rnd decidedAt snapshot (Inr s) [] rationale hints\<rparr>"

definition continue_at ::
  "id \<Rightarrow> id \<Rightarrow> nat \<Rightarrow> instant \<Rightarrow> json \<Rightarrow> iteration_trigger \<Rightarrow> run_stage_name list \<Rightarrow> string \<Rightarrow> iteration_decision" where
  "continue_at freshId runId rnd decidedAt snapshot t leg rationale =
     \<lparr>it_continue = True, it_reopenStages = leg, it_record = buildRecord freshId runId rnd decidedAt snapshot (Inl t) leg rationale []\<rparr>"

definition unconsumed_feedback :: "(string \<Rightarrow> string \<Rightarrow> int) \<Rightarrow> store \<Rightarrow> id \<Rightarrow> json list" where
  "unconsumed_feedback lc db runId =
     sort_by (\<lambda>a b. let c = lc (str_at ''receivedAt'' a) (str_at ''receivedAt'' b) in if c \<noteq> 0 then c else lc (str_at ''id'' a) (str_at ''id'' b))
       (filter (\<lambda>s. str_at ''id'' s \<notin> set (consumed_feedback db runId)) (listObjects ''feedback'' runId db))"

text \<open>The plan leg has work for the machine: the plan passes the check, and either nothing was executed yet and
  no protocol hands the work to people, or the plan was revised after the last experiment.\<close>

definition plan_trigger :: "(string \<Rightarrow> string) \<Rightarrow> (string \<Rightarrow> string \<Rightarrow> int) \<Rightarrow> store \<Rightarrow> id \<Rightarrow> (iteration_trigger \<times> string) option" where
  "plan_trigger sha lc db runId =
     (case at_last (listObjects ''plan'' runId db) of
        None \<Rightarrow> None
      | Some plan \<Rightarrow>
          (let executable = (checkPlanExecutability plan (map (str_at ''id'') (listObjects ''hypothesis'' runId db)) = []);
               pid = str_at ''id'' plan in
           case experimentLegStatus lc db runId of
             Unexecuted _ \<Rightarrow>
               if executable \<and> protocolForPlan sha db runId plan = None
               then Some (Executable_plan_unexecuted pid ''never_executed'',
                 ''plan '' @ pid @ '' passes the deterministic executability check but no experiment has completed '' @ emdash @
                 '' reopening execute -> feedback -> revise -> export'')
               else None
           | Plan_revised_since_experiment _ frozenAt endedAt \<Rightarrow>
               if executable
               then Some (Executable_plan_unexecuted pid ''revised_since'',
                 ''plan '' @ pid @ '' was causally revised (re-frozen '' @ take 19 frozenAt @ '') after the last completed experiment ('' @
                 take 19 endedAt @ '') '' @ emdash @ '' the revised registration deserves its own experiment'')
               else None
           | _ \<Rightarrow> None))"

definition completed_run_of :: "store \<Rightarrow> id \<Rightarrow> id \<Rightarrow> bool" where
  "completed_run_of db runId specId =
     list_ex (\<lambda>r. str_at ''specId'' r = specId \<and> str_at ''status'' r = ''completed'') (listObjects ''experiment_run'' runId db)"

definition unblock_hints :: "(string \<Rightarrow> string) \<Rightarrow> (string \<Rightarrow> string \<Rightarrow> int) \<Rightarrow> store \<Rightarrow> id \<Rightarrow> string list" where
  "unblock_hints sha lc db runId =
     (let leg = experimentLegStatus lc db runId;
          approvedUnrun = filter (\<lambda>spec. jarr ''approvals'' spec \<noteq> [] \<and> \<not> completed_run_of db runId (str_at ''id'' spec))
            (listObjects ''experiment_spec'' runId db) in
      map (\<lambda>spec. ''approved experiment spec '' @ str_at ''id'' spec @ '' has no completed run: far experiment rerun '' @ str_at ''id'' spec)
        (take 3 approvedUnrun) @
      (if leg \<noteq> No_plan \<and> list_ex (\<lambda>r. str_at ''status'' r = ''completed'') (listObjects ''experiment_run'' runId db)
       then [''falsification loop has executed evidence '' @ emdash @ '' add expert/literature feedback to drive a causal revision round''] else []) @
      (case (leg, at_last (listObjects ''plan'' runId db)) of
         (Unexecuted _, Some plan) \<Rightarrow>
           (case protocolForPlan sha db runId plan of
              None \<Rightarrow> []
            | Some p \<Rightarrow> [''protocol '' @ str_at ''id'' p @ '' is registered and awaits real-world execution with human-attested records '' @
                ''(checklist + committed allocation + collection form); recorded outcomes re-enter feedback -> revise as experiment feedback''])
       | _ \<Rightarrow> []))"

definition evaluateIteration ::
  "(string \<Rightarrow> string) \<Rightarrow> (string \<Rightarrow> string \<Rightarrow> int) \<Rightarrow> int option \<Rightarrow> (nat \<Rightarrow> instant \<Rightarrow> id) \<Rightarrow> store \<Rightarrow> id \<Rightarrow> nat \<Rightarrow> run_budget \<Rightarrow> instant \<Rightarrow> iteration_decision" where
  "evaluateIteration sha lc env newItr db runId rnd budget decidedAt =
     (let cap = MAX_ITERATION_ROUNDS env; snapshot = computeIterationSnapshot sha db runId rnd; itr = newItr rnd decidedAt;
          stop = stop_at itr runId rnd decidedAt snapshot; go = continue_at itr runId rnd decidedAt snapshot in
      if cap \<le> rnd then
        stop (Round_cap cap)
          (''iteration round cap reached ('' @ str_of_nat rnd @ ''/'' @ str_of_nat cap @ '') '' @ emdash @ '' further rounds need new feedback or an approved experiment'')
          [''add a feedback signal (expert judgment / new literature / reviewer comment) and resume '' @ emdash @ '' feedback reopens the loop'',
           ''approve a drafted experiment: far experiment approve  --by  --hypothesis , then far experiment rerun '']
      else if rb_cap budget \<noteq> None \<and> \<not> hasRemaining budget then
        stop (Budget_exhausted (rb_spent budget) (the (rb_cap budget)))
          (''run budget exhausted (spent '' @ str_of_int (rb_spent budget) @ '' of cap '' @ str_of_int (the (rb_cap budget)) @ '') '' @ emdash @
           '' iteration cannot afford another round'')
          [''raise FARLAB_RUN_TOKEN_BUDGET and resume '' @ emdash @ '' budget-exhausted legs reopen automatically'']
      else if 1 < rnd \<and> getMeta (iterationFingerprintKey runId) db = Some (material_fingerprint sha db runId) then
        stop No_material_delta
          (''round produced no material change in domain state (identical material fingerprint) '' @ emdash @ '' continuing would thrash, not research'')
          [''inject NEW information before continuing: feedback signal, additional literature, or an approved experiment'']
      else
        (let unconsumed = unconsumed_feedback lc db runId in
         if unconsumed \<noteq> [] then
           go (Unconsumed_feedback (map (str_at ''id'') unconsumed)) FEEDBACK_LEG
             (str_of_nat (length unconsumed) @ '' feedback signal(s) await causal absorption '' @ emdash @ '' reopening feedback -> revise -> export'')
         else case plan_trigger sha lc db runId of
           Some (t, rationale) \<Rightarrow> go t EXPERIMENT_LEG rationale
         | None \<Rightarrow>
             stop No_actionable_work
               ''no actionable iteration leg: no unconsumed feedback, and the plan leg has no executable unexecuted work''
               (unblock_hints sha lc db runId)))"

section \<open>Properties\<close>

lemma max_rounds_bounds: "1 \<le> MAX_ITERATION_ROUNDS env" "MAX_ITERATION_ROUNDS env \<le> 10"
  by (auto simp: MAX_ITERATION_ROUNDS_def)

lemmas iteration_cases = evaluateIteration_def Let_def stop_at_def continue_at_def

definition feedback_pending :: "store \<Rightarrow> id \<Rightarrow> bool" where
  "feedback_pending db runId \<longleftrightarrow>
     list_ex (\<lambda>s. list_all (\<lambda>r. str_at ''triggerFeedbackId'' r \<noteq> str_at ''id'' s) (listObjects ''revision'' runId db)) (listObjects ''feedback'' runId db)"

lemma unconsumed_iff: "unconsumed_feedback lc db runId \<noteq> [] \<longleftrightarrow> feedback_pending db runId"
  by (auto simp: unconsumed_feedback_def consumed_feedback_def feedback_pending_def filter_empty_conv list_ex_iff list_all_iff image_iff) metis+

lemma budget_stop: "rb_cap b \<noteq> None \<and> \<not> hasRemaining b \<longleftrightarrow> \<not> hasRemaining b"
  by (auto simp: hasRemaining_def split: option.splits)

lemma continue_iff:
  "it_continue (evaluateIteration sha lc env newItr db runId rnd b t) =
     (rnd < MAX_ITERATION_ROUNDS env \<and> hasRemaining b \<and>
      \<not> (1 < rnd \<and> getMeta (iterationFingerprintKey runId) db = Some (material_fingerprint sha db runId)) \<and>
      (feedback_pending db runId \<or> plan_trigger sha lc db runId \<noteq> None))"
  unfolding iteration_cases budget_stop unconsumed_iff by (auto split: option.split)

text \<open>The iteration controller continues exactly when no stop rule holds and named work exists: the round
  is below the cap, the budget is not exhausted, the material state differs from the one recorded before
  the round, and either some feedback signal was consumed by no revision, which reopens feedback, revise
  and export, or else the plan leg has machine-executable unexecuted work, which reopens execute as well.
  A stop reopens nothing.\<close>

theorem iteration_discipline:
  "it_continue (evaluateIteration sha lc env newItr db runId rnd b t) =
     (rnd < MAX_ITERATION_ROUNDS env \<and> hasRemaining b \<and>
      \<not> (1 < rnd \<and> getMeta (iterationFingerprintKey runId) db = Some (material_fingerprint sha db runId)) \<and>
      (feedback_pending db runId \<or> plan_trigger sha lc db runId \<noteq> None)) \<and>
   it_reopenStages (evaluateIteration sha lc env newItr db runId rnd b t) =
     (if \<not> it_continue (evaluateIteration sha lc env newItr db runId rnd b t) then []
      else if feedback_pending db runId then FEEDBACK_LEG else EXPERIMENT_LEG)"
proof
  show "it_reopenStages (evaluateIteration sha lc env newItr db runId rnd b t) =
     (if \<not> it_continue (evaluateIteration sha lc env newItr db runId rnd b t) then []
      else if feedback_pending db runId then FEEDBACK_LEG else EXPERIMENT_LEG)"
    unfolding iteration_cases budget_stop unconsumed_iff by (auto split: option.split)
qed (rule continue_iff)

lemma fingerprint_of_record:
  "snapshot_fingerprint (it_record (evaluateIteration sha lc env newItr db runId rnd b t)) = Some (material_fingerprint sha db runId)"
proof -
  have "jget ''snapshot'' (buildRecord i r n u s why rs rat hints) = Some s" for i r n u s why rs rat hints
    by (cases why) (simp_all add: buildRecord_def jget_def)
  moreover have "jstr ''fingerprint'' (computeIterationSnapshot sha db runId rnd) = Some (material_fingerprint sha db runId)"
    by (simp add: computeIterationSnapshot_def iteration_material_def Let_def jstr_def jget_def)
  ultimately show ?thesis by (auto simp: snapshot_fingerprint_def iteration_cases split: option.split)
qed

text \<open>Iteration does not thrash: when a round that the controller granted ends with the same objects in the
  store as before it, the controller stops, whatever else happened in between. The fingerprint the
  orchestrator remembers at the start of a round is the one in the decision's record.\<close>

theorem round_without_progress_is_last:
  assumes "getMeta (iterationFingerprintKey runId) db' = snapshot_fingerprint (it_record (evaluateIteration sha lc env newItr db runId rnd b t))"
    and "\<And>kind. listObjects kind runId db' = listObjects kind runId db" "1 \<le> rnd"
  shows "\<not> it_continue (evaluateIteration sha lc env newItr db' runId (rnd + 1) b' t')"
proof -
  have "material_fingerprint sha db' runId = material_fingerprint sha db runId"
    using assms(2) by (simp add: material_fingerprint_def iteration_material_def countSemanticRevisions_def consumed_feedback_def)
  then show ?thesis
    using assms(1,3) by (simp add: continue_iff fingerprint_of_record)
qed

definition feedback_store :: store where
  "feedback_store = demo_store\<lparr>db_objects := [
     \<lparr>ob_kind = ''feedback'', ob_id = ''fb_1'', ob_runId = ''run_1'',
      ob_json = JObj [(''id'', JStr ''fb_1''), (''receivedAt'', JStr ''2026-01-01'')], ob_createdAt = 1\<rparr>]\<rparr>"

definition demo_evaluate :: "store \<Rightarrow> id \<Rightarrow> nat \<Rightarrow> run_budget \<Rightarrow> instant \<Rightarrow> iteration_decision" where
  "demo_evaluate = evaluateIteration (\<lambda>s. str_of_nat (length s)) (\<lambda>a b. 0) None (\<lambda>n t. ''itr_'' @ str_of_nat n)"

lemma feedback_store_pending: "feedback_pending feedback_store ''run_1''"
  unfolding feedback_store_def by code_simp

theorem round_without_progress_is_last_witness:
  "it_continue (demo_evaluate feedback_store ''run_1'' 1 (makeRunBudget [] None) 5) \<and>
   \<not> it_continue (demo_evaluate
      (setMeta (iterationFingerprintKey ''run_1'') (material_fingerprint (\<lambda>s. str_of_nat (length s)) feedback_store ''run_1'') feedback_store)
      ''run_1'' 2 (makeRunBudget [] None) 9)"
proof
  show "it_continue (demo_evaluate feedback_store ''run_1'' 1 (makeRunBudget [] None) 5)"
    by (simp add: demo_evaluate_def continue_iff feedback_store_pending hasRemaining_def makeRunBudget_def MAX_ITERATION_ROUNDS_def)
  let ?db = "setMeta (iterationFingerprintKey ''run_1'') (material_fingerprint (\<lambda>s. str_of_nat (length s)) feedback_store ''run_1'') feedback_store"
  have "listObjects kind ''run_1'' ?db = listObjects kind ''run_1'' feedback_store" for kind
    by (simp add: listObjects_def setMeta_def)
  moreover have "getMeta (iterationFingerprintKey ''run_1'') ?db = Some (material_fingerprint (\<lambda>s. str_of_nat (length s)) feedback_store ''run_1'')"
    by (simp add: getMeta_def setMeta_def)
  ultimately show "\<not> it_continue (demo_evaluate ?db ''run_1'' 2 (makeRunBudget [] None) 9)"
    using round_without_progress_is_last [of "''run_1''" ?db "\<lambda>s. str_of_nat (length s)" "\<lambda>a b. 0" None "\<lambda>n t. ''itr_'' @ str_of_nat n"
        feedback_store 1 "makeRunBudget [] None" 5 "makeRunBudget [] None" 9]
    unfolding demo_evaluate_def by (simp add: fingerprint_of_record numeral_2_eq_2)
qed




theorem iteration_discipline_witness:
  "it_continue (demo_evaluate feedback_store ''run_1'' 1 (makeRunBudget [] None) 5) \<and>
   it_reopenStages (demo_evaluate feedback_store ''run_1'' 1 (makeRunBudget [] None) 5) = [Feedback, Revise, Export]"
  using iteration_discipline [of "\<lambda>s. str_of_nat (length s)" "\<lambda>a b. 0" None "\<lambda>n t. ''itr_'' @ str_of_nat n" feedback_store "''run_1''" 1
      "makeRunBudget [] None" 5]
  by (simp add: demo_evaluate_def feedback_store_pending hasRemaining_def makeRunBudget_def MAX_ITERATION_ROUNDS_def FEEDBACK_LEG_def)

end
