(* ===== verification/Memory.thy ===== *)
theory Memory
  imports Objects
begin

text \<open>
  Research memory: the governed cross-run items of \<^verbatim>\<open>src/src/domain/memory.ts\<close>, their tables and write
  gate in \<^verbatim>\<open>src/src/persistence/store.ts\<close>, the deterministic consolidation of a finished run
  (\<^verbatim>\<open>src/src/app/memory.ts\<close>) and the human edit and archive operations
  (\<^verbatim>\<open>src/src/server/memory-ops.ts\<close>).

  The memory tables are a state of their own beside the store they consult; timestamps are the ISO strings
  the columns hold. A parse failure and every thrown error is an \<^const>\<open>Inl\<close> value: the operations that return
  only that have written nothing, the profile writer returns the tables it leaves behind. Full-text search and activation ranking are not modelled.
\<close>

section \<open>Items\<close>

datatype content_taint = Trusted | Untrusted_literal | Derived_untrusted

datatype trust_class = Own_verified | Own_unverified | External_literature | External_untrusted

datatype memory_kind = Episodic | Semantic | Experiment_outcome | Profile

datatype memory_status = Active | Superseded | Archived

datatype memory_outcome = Succeeded | Failed_outcome | Inconclusive

record provenance =
  pv_runId :: "id option"
  pv_receiptId :: "id option"
  pv_sourceRef :: "string option"

record memory_item =
  mi_id :: id
  mi_kind :: memory_kind
  mi_entityType :: string
  mi_title :: string
  mi_body :: string
  mi_status :: memory_status
  mi_outcome :: "memory_outcome option"
  mi_failureReason :: "string option"
  mi_trustClass :: trust_class
  mi_taint :: content_taint
  mi_provenance :: provenance
  mi_createdAt :: string
  mi_lastAccessedAt :: string
  mi_accessCount :: nat
  mi_supersedesId :: "id option"

definition deriveTrustClass :: "content_taint \<Rightarrow> provenance \<Rightarrow> trust_class" where
  "deriveTrustClass taint pv =
     (if taint = Untrusted_literal \<or> taint = Derived_untrusted
      then (if pv_sourceRef pv \<noteq> None then External_literature else External_untrusted)
      else if pv_runId pv \<noteq> None \<and> pv_receiptId pv \<noteq> None then Own_verified else Own_unverified)"

fun MEMORY_LIFECYCLE :: "memory_status \<Rightarrow> memory_status list" where
  "MEMORY_LIFECYCLE Active = [Superseded, Archived]"
| "MEMORY_LIFECYCLE Superseded = [Archived]"
| "MEMORY_LIFECYCLE Archived = []"

definition MemoryId :: "string \<Rightarrow> bool" where
  "MemoryId s \<longleftrightarrow> prefixed_id ''mem_'' s"

text \<open>What the schema accepts; a parsed item is the item itself.\<close>

definition MemoryItemSchema :: "memory_item \<Rightarrow> bool" where
  "MemoryItemSchema m \<longleftrightarrow>
     MemoryId (mi_id m) \<and> length_in 2 48 (mi_entityType m) \<and> length_in 3 200 (mi_title m) \<and> mi_body m \<noteq> [] \<and>
     zod_datetime (mi_createdAt m) \<and> zod_datetime (mi_lastAccessedAt m) \<and>
     (case mi_failureReason m of None \<Rightarrow> True | Some r \<Rightarrow> 3 \<le> length r) \<and>
     (case mi_supersedesId m of None \<Rightarrow> True | Some i \<Rightarrow> MemoryId i) \<and>
     (mi_kind m = Experiment_outcome \<and> mi_outcome m = Some Failed_outcome \<longrightarrow> mi_failureReason m \<noteq> None) \<and>
     (mi_trustClass m = External_literature \<longrightarrow> pv_sourceRef (mi_provenance m) \<noteq> None)"

section \<open>Tables and the write gate\<close>

record memory_edge =
  me_fromId :: id
  me_toId :: id
  me_relation :: string
  me_at :: string

record memory_db =
  mb_items :: "memory_item list"
  mb_fts :: "(id \<times> string) list"
  mb_edges :: "memory_edge list"

datatype memory_error =
    Schema_violation id
  | No_such_item string id
  | Lifecycle_forbids string memory_status memory_status
  | Edge_exists
  | No_such_run id
  | Bad_request string
  | Not_found id
  | Lifecycle id memory_status

definition getMemory :: "id \<Rightarrow> memory_db \<Rightarrow> memory_item option" where
  "getMemory i mb = List.find (\<lambda>m. mi_id m = i) (mb_items mb)"

text \<open>Verified trust needs an existing run and a receipt of that run; otherwise the item is stored as unverified.\<close>

definition receipt_resolves :: "store \<Rightarrow> provenance \<Rightarrow> bool" where
  "receipt_resolves db pv =
     (case (pv_runId pv, pv_receiptId pv) of
        (Some runId, Some receiptId) \<Rightarrow>
          getRun runId db \<noteq> None \<and> list_ex (\<lambda>r. jstr ''id'' r = Some receiptId) (listObjects ''receipt'' runId db)
      | _ \<Rightarrow> False)"

definition gated_trust :: "store \<Rightarrow> memory_item \<Rightarrow> trust_class" where
  "gated_trust db m =
     (if mi_trustClass m = Own_verified \<and> \<not> receipt_resolves db (mi_provenance m) then Own_unverified else mi_trustClass m)"

definition fts_text :: "memory_item \<Rightarrow> string" where
  "fts_text m = mi_title m @ [CHR 10] @ mi_body m"

definition putMemory :: "store \<Rightarrow> memory_item \<Rightarrow> memory_db \<Rightarrow> memory_error + memory_db" where
  "putMemory db m mb =
     (if \<not> MemoryItemSchema m then Inl (Schema_violation (mi_id m))
      else Inr (mb\<lparr>mb_items := insert_or_replace mi_id (m\<lparr>mi_trustClass := gated_trust db m\<rparr>) (mb_items mb),
             mb_fts := filter (\<lambda>f. fst f \<noteq> mi_id m) (mb_fts mb) @ [(mi_id m, fts_text m)]\<rparr>))"

definition edge_of :: "memory_edge \<Rightarrow> id \<times> id \<times> string" where
  "edge_of e = (me_fromId e, me_toId e, me_relation e)"

definition listMemory ::
  "memory_kind option \<Rightarrow> memory_status option \<Rightarrow> id option \<Rightarrow> nat option \<Rightarrow> memory_db \<Rightarrow> memory_item list" where
  "listMemory kind status runId limit mb =
     take (min (case limit of None \<Rightarrow> 100 | Some n \<Rightarrow> n) 500)
       (sort_by (\<lambda>a b. if mi_createdAt a > mi_createdAt b then -1 else if mi_createdAt a = mi_createdAt b then 0 else 1)
         (filter (\<lambda>m. (kind = None \<or> kind = Some (mi_kind m)) \<and> (status = None \<or> status = Some (mi_status m)) \<and>
            (runId = None \<or> runId = pv_runId (mi_provenance m))) (mb_items mb)))"

definition supersedeMemory :: "store \<Rightarrow> id \<Rightarrow> memory_item \<Rightarrow> string option \<Rightarrow> memory_db \<Rightarrow> memory_error + memory_db" where
  "supersedeMemory db oldId replacement reasonType mb =
     (case getMemory oldId mb of
        None \<Rightarrow> Inl (No_such_item ''supersedeMemory'' oldId)
      | Some old \<Rightarrow>
          if Superseded \<notin> set (MEMORY_LIFECYCLE (mi_status old)) then Inl (Lifecycle_forbids ''supersedeMemory'' (mi_status old) Superseded)
          else
            (let marked = old\<lparr>mi_status := Superseded\<rparr>; nxt = replacement\<lparr>mi_supersedesId := Some oldId\<rparr> in
             case putMemory db marked mb of
               Inl e \<Rightarrow> Inl e
             | Inr mb1 \<Rightarrow>
                 (case putMemory db nxt mb1 of
                    Inl e \<Rightarrow> Inl e
                  | Inr mb2 \<Rightarrow>
                      (let edges = insert_or_ignore edge_of \<lparr>me_fromId = oldId, me_toId = mi_id nxt, me_relation = ''supersedes'', me_at = mi_createdAt nxt\<rparr> (mb_edges mb2);
                           edges' = (case reasonType of None \<Rightarrow> edges
                             | Some r \<Rightarrow> insert_or_ignore edge_of \<lparr>me_fromId = mi_id nxt, me_toId = mi_id nxt, me_relation = r, me_at = mi_createdAt nxt\<rparr> edges)
                       in Inr (mb2\<lparr>mb_edges := edges'\<rparr>)))))"

definition store_archive :: "store \<Rightarrow> id \<Rightarrow> string \<Rightarrow> string \<Rightarrow> memory_db \<Rightarrow> memory_error + memory_db" where
  "store_archive db i relationType t mb =
     (case getMemory i mb of
        None \<Rightarrow> Inl (No_such_item ''archiveMemory'' i)
      | Some item \<Rightarrow>
          if Archived \<notin> set (MEMORY_LIFECYCLE (mi_status item)) then Inl (Lifecycle_forbids ''archiveMemory'' (mi_status item) Archived)
          else case putMemory db (item\<lparr>mi_status := Archived\<rparr>) mb of
            Inl e \<Rightarrow> Inl e
          | Inr mb1 \<Rightarrow>
              (let e = \<lparr>me_fromId = i, me_toId = i, me_relation = relationType, me_at = t\<rparr> in
               if edge_of e \<in> edge_of ` set (mb_edges mb1) then Inl Edge_exists
               else Inr (mb1\<lparr>mb_edges := mb_edges mb1 @ [e]\<rparr>)))"

definition listMemoryEdges :: "id option \<Rightarrow> id option \<Rightarrow> memory_db \<Rightarrow> memory_edge list" where
  "listMemoryEdges fromId toId mb =
     take 500 (sort_by (\<lambda>a b. if me_at a > me_at b then -1 else if me_at a = me_at b then 0 else 1)
       (filter (\<lambda>e. (fromId = None \<or> fromId = Some (me_fromId e)) \<and> (toId = None \<or> toId = Some (me_toId e))) (mb_edges mb)))"

section \<open>Consolidation of a run\<close>

definition memIdFor :: "(string \<Rightarrow> string) \<Rightarrow> string \<Rightarrow> string \<Rightarrow> id" where
  "memIdFor sha ns key = ''mem_'' @ take 24 (sha (ns @ '':'' @ key))"

definition plain_item :: "id \<Rightarrow> memory_kind \<Rightarrow> string \<Rightarrow> string \<Rightarrow> string \<Rightarrow> trust_class \<Rightarrow> content_taint \<Rightarrow> provenance \<Rightarrow> string \<Rightarrow> string \<Rightarrow> memory_item" where
  "plain_item i kind entity title body trust taint pv created now =
     \<lparr>mi_id = i, mi_kind = kind, mi_entityType = entity, mi_title = title, mi_body = body, mi_status = Active, mi_outcome = None,
      mi_failureReason = None, mi_trustClass = trust, mi_taint = taint, mi_provenance = pv, mi_createdAt = created,
      mi_lastAccessedAt = now, mi_accessCount = 0, mi_supersedesId = None\<rparr>"

definition run_provenance :: "id \<Rightarrow> string option \<Rightarrow> provenance" where
  "run_provenance runId sourceRef = \<lparr>pv_runId = Some runId, pv_receiptId = None, pv_sourceRef = sourceRef\<rparr>"

definition question_text :: "store \<Rightarrow> research_run \<Rightarrow> string" where
  "question_text db run = (case Option.bind (getObject ''question'' (run_questionId run) db) (jstr ''text'') of Some t \<Rightarrow> t | None \<Rightarrow> run_id run)"

definition episode_item :: "(string \<Rightarrow> string) \<Rightarrow> store \<Rightarrow> research_run \<Rightarrow> string \<Rightarrow> memory_item" where
  "episode_item sha db run now =
     (let runId = run_id run in
      plain_item (memIdFor sha ''run'' runId) Episodic ''run'' (take 200 (question_text db run))
        (stringify (JObj [(''runId'', JStr runId), (''status'', JStr (status_str (run_status run))), (''questionId'', JStr (run_questionId run)),
           (''hypothesisCount'', JNum (int (length (listObjects ''hypothesis'' runId db)))),
           (''feedbackCount'', JNum (int (length (listObjects ''feedback'' runId db)))), (''completedAt'', JStr now)]))
        Own_unverified Trusted (run_provenance runId None) now now)"

definition experiment_terminal :: "json \<Rightarrow> bool" where
  "experiment_terminal e \<longleftrightarrow> str_at ''status'' e \<noteq> ''queued'' \<and> str_at ''status'' e \<noteq> ''running''"

definition experiment_outcome_of :: "json \<Rightarrow> memory_outcome" where
  "experiment_outcome_of e =
     (if str_at ''status'' e = ''completed'' then Succeeded
      else if str_at ''status'' e = ''failed'' \<or> str_at ''status'' e = ''canceled'' then Failed_outcome else Inconclusive)"

definition member_or_undef :: "string \<Rightarrow> json \<Rightarrow> json" where
  "member_or_undef k v = (case jget k v of Some x \<Rightarrow> x | None \<Rightarrow> JUndef)"

definition stat_verdicts :: "store \<Rightarrow> json \<Rightarrow> json list" where
  "stat_verdicts db e =
     map (\<lambda>s. JObj [(''metric'', member_or_undef ''metricKey'' s), (''estimate'', member_or_undef ''pointEstimate'' s), (''ci'', member_or_undef ''ci'' s)])
       (List.map_filter (\<lambda>sid. getObject ''stat_report'' sid db) (jstrs ''statReportIds'' e))"

definition experiment_item :: "(string \<Rightarrow> string) \<Rightarrow> store \<Rightarrow> research_run \<Rightarrow> string \<Rightarrow> json \<Rightarrow> memory_item" where
  "experiment_item sha db run now e =
     (let status = str_at ''status'' e; outcome = experiment_outcome_of e in
      (plain_item (memIdFor sha ''experiment'' (str_at ''id'' e)) Experiment_outcome ''experiment''
         (''experiment '' @ status @ '' for: '' @ take 120 (question_text db run))
         (stringify (JObj [(''experimentRunId'', JStr (str_at ''id'' e)), (''specId'', member_or_undef ''specId'' e), (''specHash'', member_or_undef ''specHash'' e),
            (''status'', JStr status), (''executor'', member_or_undef ''executor'' e), (''resultCount'', JNum (int (length (jarr ''resultIds'' e)))),
            (''statReports'', JArr (stat_verdicts db e))]))
         Own_unverified Trusted (run_provenance (run_id run) None) (case jstr ''endedAt'' e of Some t \<Rightarrow> t | None \<Rightarrow> now) now)
       \<lparr>mi_outcome := Some outcome,
        mi_failureReason := (if outcome = Failed_outcome
          then Some (take 500 (case jstr ''error'' e of Some m \<Rightarrow> m | None \<Rightarrow> ''experiment '' @ status @ '' (no error detail recorded)''))
          else None)\<rparr>)"

definition SEMANTIC_FINDINGS_PER_RUN :: nat where
  "SEMANTIC_FINDINGS_PER_RUN = 20"

text \<open>Claims that take part in relations, in the order they first occur, each with its relations.\<close>

fun add_finding :: "json \<Rightarrow> string \<Rightarrow> (json \<times> string list) list \<Rightarrow> (json \<times> string list) list" where
  "add_finding c rel [] = [(c, [rel])]"
| "add_finding c rel ((d, rels) # fs) =
     (if str_at ''id'' d = str_at ''id'' c then (d, rels @ [rel]) # fs else (d, rels) # add_finding c rel fs)"

definition object_by_id :: "id \<Rightarrow> json list \<Rightarrow> json option" where
  "object_by_id i objs = List.find (\<lambda>c. str_at ''id'' c = i) (rev objs)"

definition findings_of :: "store \<Rightarrow> id \<Rightarrow> (json \<times> string list) list" where
  "findings_of db runId =
     fold (\<lambda>rel fs.
         case Option.bind (jstr ''claimId'' rel) (\<lambda>i. object_by_id i (listObjects ''claim'' runId db)) of
           None \<Rightarrow> fs
         | Some c \<Rightarrow> add_finding c (str_at ''relation'' rel) fs)
       (listObjects ''evidence_relation'' runId db) []"

definition doc_identifier :: "string \<Rightarrow> json \<Rightarrow> string option" where
  "doc_identifier kind doc = Option.bind (List.find (\<lambda>i. str_at ''kind'' i = kind) (jarr ''identifiers'' doc)) (jstr ''value'')"

definition source_ref :: "store \<Rightarrow> id \<Rightarrow> json \<Rightarrow> string option" where
  "source_ref db runId claim =
     (case jarr ''locators'' claim of [] \<Rightarrow> None
      | l # _ \<Rightarrow>
          Option.bind (Option.bind (jstr ''sourceDocumentId'' l) (\<lambda>i. object_by_id i (listObjects ''source_document'' runId db)))
            (\<lambda>doc. case doc_identifier ''doi'' doc of Some d \<Rightarrow> Some (''doi:'' @ d) | None \<Rightarrow> doc_identifier ''url'' doc))"

definition finding_item :: "(string \<Rightarrow> string) \<Rightarrow> store \<Rightarrow> id \<Rightarrow> string \<Rightarrow> json \<times> string list \<Rightarrow> memory_item" where
  "finding_item sha db runId now f =
     (let claim = fst f; ref = source_ref db runId claim in
      plain_item (memIdFor sha ''claim'' (str_at ''id'' claim)) Semantic ''finding'' (take 200 (str_at ''text'' claim))
        (stringify (JObj [(''claimId'', JStr (str_at ''id'' claim)), (''relations'', JArr (map JStr (snd f))),
           (''sourceDocumentId'', (case jarr ''locators'' claim of [] \<Rightarrow> JNull
              | l # _ \<Rightarrow> (case jstr ''sourceDocumentId'' l of Some d \<Rightarrow> JStr d | None \<Rightarrow> JNull)))]))
        (deriveTrustClass Derived_untrusted (run_provenance runId ref)) Derived_untrusted (run_provenance runId ref) now now)"

definition semanticFindingsForRun :: "(string \<Rightarrow> string) \<Rightarrow> store \<Rightarrow> id \<Rightarrow> string \<Rightarrow> memory_item list" where
  "semanticFindingsForRun sha db runId now =
     map (finding_item sha db runId now) (take SEMANTIC_FINDINGS_PER_RUN (findings_of db runId))"

definition consolidation_items :: "(string \<Rightarrow> string) \<Rightarrow> store \<Rightarrow> research_run \<Rightarrow> string \<Rightarrow> memory_item list" where
  "consolidation_items sha db run now =
     [episode_item sha db run now] @
     map (experiment_item sha db run now) (filter experiment_terminal (listObjects ''experiment_run'' (run_id run) db)) @
     semanticFindingsForRun sha db (run_id run) now"

fun put_all :: "store \<Rightarrow> memory_item list \<Rightarrow> memory_db \<Rightarrow> memory_error + memory_db" where
  "put_all db [] mb = Inr mb"
| "put_all db (m # ms) mb = (case putMemory db m mb of Inl e \<Rightarrow> Inl e | Inr mb' \<Rightarrow> put_all db ms mb')"

text \<open>All items are parsed before the first one is written.\<close>

definition consolidateRun ::
  "(string \<Rightarrow> string) \<Rightarrow> store \<Rightarrow> id \<Rightarrow> string \<Rightarrow> memory_db \<Rightarrow> memory_error + (nat \<times> string list) \<times> memory_db" where
  "consolidateRun sha db runId now mb =
     (case getRun runId db of
        None \<Rightarrow> Inl (No_such_run runId)
      | Some run \<Rightarrow>
          (let items = consolidation_items sha db run now;
               skipped = map (\<lambda>e. str_at ''id'' e @ '': non-terminal ('' @ str_at ''status'' e @ '')'')
                 (filter (\<lambda>e. \<not> experiment_terminal e) (listObjects ''experiment_run'' (run_id run) db)) in
           case List.find (\<lambda>m. \<not> MemoryItemSchema m) items of
             Some m \<Rightarrow> Inl (Schema_violation (mi_id m))
           | None \<Rightarrow> map_sum id (Pair (length items, skipped)) (put_all db items mb)))"

definition recordMemoryConditioning ::
  "(string \<Rightarrow> string) \<Rightarrow> id \<Rightarrow> run_stage_name \<Rightarrow> (id \<times> string \<times> string) list \<Rightarrow> instant \<Rightarrow> store \<Rightarrow> store" where
  "recordMemoryConditioning sha runId stage items t db =
     (if items = [] then db
      else
        (let ids = concat (map (\<lambda>(i, x). (if i = 0 then [] else '','') @ x) (zip [0..<length items] (sort_key (\<lambda>x. x) (map fst items))));
             already = list_ex (\<lambda>r. jstr ''stage'' (er_payload r) = Some (stage_str stage) \<and>
               (case jget ''detail'' (er_payload r) of None \<Rightarrow> False
                | Some d \<Rightarrow> jstr ''reason'' d = Some ''memory_conditioning'' \<and> jstr ''ids'' d = Some ids)) (run_events runId db) in
         if already then db
         else appendEvent sha runId ((plain_event E_note [(''reason'', JStr ''memory_conditioning''), (''ids'', JStr ids),
             (''items'', JArr (map (\<lambda>(i, k, tr). JObj [(''id'', JStr i), (''kind'', JStr k), (''trustClass'', JStr tr)]) items))])
             \<lparr>ev_stage := Some (stage_str stage)\<rparr>) t db))"

section \<open>Human edits\<close>

record edit_input =
  ei_title :: "string option"
  ei_body :: "string option"
  ei_failureReason :: "string option"
  ei_reason :: string

definition EditMemoryBody :: "edit_input \<Rightarrow> bool" where
  "EditMemoryBody e \<longleftrightarrow>
     (case ei_title e of None \<Rightarrow> True | Some t \<Rightarrow> length_in 3 200 t) \<and> (case ei_body e of None \<Rightarrow> True | Some b \<Rightarrow> b \<noteq> []) \<and>
     (case ei_failureReason e of None \<Rightarrow> True | Some r \<Rightarrow> length_in 3 2000 r) \<and> length_in 1 2000 (ei_reason e)"

definition mustGetMemory :: "id \<Rightarrow> memory_db \<Rightarrow> memory_error + memory_item" where
  "mustGetMemory i mb =
     (if \<not> MemoryId i then Inl (Bad_request (''malformed memory id: '' @ i))
      else case getMemory i mb of None \<Rightarrow> Inl (Not_found i) | Some m \<Rightarrow> Inr m)"

text \<open>Runs of white space become one space, and none is left at the ends.\<close>

fun collapse_spaces :: "string \<Rightarrow> string" where
  "collapse_spaces [] = []"
| "collapse_spaces (c # cs) =
     (if is_space c then (case collapse_spaces cs of [] \<Rightarrow> [] | d # ds \<Rightarrow> if d = CHR '' '' then d # ds else CHR '' '' # d # ds)
      else c # collapse_spaces cs)"

definition reasonEdgeType :: "string \<Rightarrow> string \<Rightarrow> string" where
  "reasonEdgeType action reason = action @ '':'' @ dropWhile is_space (collapse_spaces reason)"

definition auditEvent ::
  "(string \<Rightarrow> string) \<Rightarrow> memory_item \<Rightarrow> (string \<times> json) list \<Rightarrow> instant \<Rightarrow> store \<Rightarrow> store" where
  "auditEvent sha item detail t db =
     (case pv_runId (mi_provenance item) of
        None \<Rightarrow> db
      | Some runId \<Rightarrow> if getRun runId db = None then db
          else appendEvent sha runId (plain_event E_note (detail @ [(''memoryId'', JStr (mi_id item)), (''actor'', JStr ''human'')])) t db)"

definition edited_item :: "id \<Rightarrow> string \<Rightarrow> edit_input \<Rightarrow> memory_item \<Rightarrow> memory_item" where
  "edited_item freshId now e old =
     (let pick = (\<lambda>x y. case x of None \<Rightarrow> y | Some v \<Rightarrow> v); pv = mi_provenance old in
      \<lparr>mi_id = freshId, mi_kind = mi_kind old, mi_entityType = mi_entityType old, mi_title = pick (ei_title e) (mi_title old),
       mi_body = pick (ei_body e) (mi_body old), mi_status = Active, mi_outcome = mi_outcome old,
       mi_failureReason = (case ei_failureReason e of None \<Rightarrow> mi_failureReason old | Some r \<Rightarrow> Some r),
       mi_trustClass = deriveTrustClass Untrusted_literal pv, mi_taint = Untrusted_literal, mi_provenance = pv,
       mi_createdAt = now, mi_lastAccessedAt = now, mi_accessCount = 0, mi_supersedesId = None\<rparr>)"

definition unchanged :: "memory_item \<Rightarrow> memory_item \<Rightarrow> bool" where
  "unchanged nxt old \<longleftrightarrow> mi_title nxt = mi_title old \<and> mi_body nxt = mi_body old \<and> mi_failureReason nxt = mi_failureReason old"

definition changed_fields :: "edit_input \<Rightarrow> memory_item \<Rightarrow> json" where
  "changed_fields e old = JArr (map JStr (
     (if ei_title e \<noteq> None \<and> ei_title e \<noteq> Some (mi_title old) then [''title''] else []) @
     (if ei_body e \<noteq> None \<and> ei_body e \<noteq> Some (mi_body old) then [''body''] else []) @
     (if ei_failureReason e \<noteq> None \<and> ei_failureReason e \<noteq> mi_failureReason old then [''failureReason''] else [])))"

definition editMemory ::
  "(string \<Rightarrow> string) \<Rightarrow> id \<Rightarrow> instant \<Rightarrow> id \<Rightarrow> edit_input \<Rightarrow> store \<times> memory_db \<Rightarrow> memory_error + id option \<times> store \<times> memory_db" where
  "editMemory sha freshId t i e s =
     (case s of (db, mb) \<Rightarrow>
      if \<not> EditMemoryBody e then Inl (Bad_request ''invalid edit request (reason is required)'')
      else case mustGetMemory i mb of
        Inl err \<Rightarrow> Inl err
      | Inr old \<Rightarrow>
          if mi_status old \<noteq> Active then Inl (Lifecycle i (mi_status old))
          else
            (let nxt = edited_item freshId (iso t) e old in
             if unchanged nxt old then Inr (None, db, mb)
             else if \<not> MemoryItemSchema nxt then Inl (Schema_violation freshId)
             else case supersedeMemory db (mi_id old) nxt (Some (reasonEdgeType ''edited_human'' (ei_reason e))) mb of
               Inl err \<Rightarrow> Inl err
             | Inr mb' \<Rightarrow> Inr (Some freshId,
                 auditEvent sha old [(''reason'', JStr ''memory_edited_human''), (''newId'', JStr freshId),
                   (''changedFields'', changed_fields e old), (''editReason'', JStr (ei_reason e))] t db, mb')))"

definition archiveMemory ::
  "(string \<Rightarrow> string) \<Rightarrow> instant \<Rightarrow> id \<Rightarrow> string \<Rightarrow> store \<times> memory_db \<Rightarrow> memory_error + bool \<times> store \<times> memory_db" where
  "archiveMemory sha t i reason s =
     (case s of (db, mb) \<Rightarrow>
      if \<not> length_in 1 2000 reason then Inl (Bad_request ''invalid archive request (reason is required)'')
      else case mustGetMemory i mb of
        Inl err \<Rightarrow> Inl err
      | Inr item \<Rightarrow>
          if mi_status item = Archived then Inr (False, db, mb)
          else case store_archive db (mi_id item) (reasonEdgeType ''archived_human'' reason) (iso t) mb of
            Inl err \<Rightarrow> Inl err
          | Inr mb' \<Rightarrow> Inr (True, auditEvent sha item [(''reason'', JStr ''memory_archived_human''), (''archiveReason'', JStr reason)] t db, mb'))"

section \<open>Conversation profiles\<close>

record proposal =
  pr_kind :: string
  pr_status :: string
  pr_resolvedAt :: "string option"

record conversation =
  cv_id :: id
  cv_autoApprove :: "string list"
  cv_messages :: "proposal list list"

fun note_resolution :: "string \<Rightarrow> bool \<times> string \<Rightarrow> (string \<times> bool \<times> string) list \<Rightarrow> (string \<times> bool \<times> string) list" where
  "note_resolution kind v [] = [(kind, v)]"
| "note_resolution kind v ((k, w) # xs) = (if k = kind then (k, if snd w \<le> snd v then v else w) # xs else (k, w) # note_resolution kind v xs)"

definition latest_resolutions :: "conversation \<Rightarrow> (string \<times> bool \<times> string) list" where
  "latest_resolutions c =
     fold (\<lambda>p. note_resolution (pr_kind p) (pr_status p = ''executed'', case pr_resolvedAt p of Some t \<Rightarrow> t | None \<Rightarrow> []))
       (filter (\<lambda>p. pr_status p = ''executed'' \<or> pr_status p = ''rejected'') (concat (cv_messages c))) []"

definition rarrow :: string where
  "rarrow = map char_of [226, 134, 146 :: nat]"

definition profile_item :: "(string \<Rightarrow> string) \<Rightarrow> conversation \<Rightarrow> string \<Rightarrow> string \<times> bool \<times> string \<Rightarrow> memory_item" where
  "profile_item sha c now entry =
     (case entry of (kind, approved, resolvedAt) \<Rightarrow>
      let disposition = (if approved then ''approved'' else ''rejected''); remembered = (kind \<in> set (cv_autoApprove c)) in
      plain_item (memIdFor sha ''profile'' (cv_id c @ '':'' @ kind)) Profile ''preference''
        (''researcher preference: '' @ kind @ '' '' @ rarrow @ '' '' @ disposition @ (if remembered then '' (auto-trusted in this conversation)'' else []))
        (stringify (JObj [(''conversationId'', JStr (cv_id c)), (''kind'', JStr kind), (''disposition'', JStr disposition),
           (''rememberedGrant'', JBool remembered), (''resolvedAt'', JStr resolvedAt)]))
        Own_unverified Trusted \<lparr>pv_runId = None, pv_receiptId = None, pv_sourceRef = None\<rparr> now now)"

text \<open>Each preference is parsed and written before the next one, so those before a failing one stay.\<close>

fun put_each :: "store \<Rightarrow> memory_item list \<Rightarrow> memory_db \<Rightarrow> memory_error option \<times> memory_db" where
  "put_each db [] mb = (None, mb)"
| "put_each db (m # ms) mb = (case putMemory db m mb of Inl e \<Rightarrow> (Some e, mb) | Inr mb' \<Rightarrow> put_each db ms mb')"

definition consolidateConversationProfile ::
  "(string \<Rightarrow> string) \<Rightarrow> store \<Rightarrow> conversation \<Rightarrow> string \<Rightarrow> memory_db \<Rightarrow> (memory_error + nat) \<times> memory_db" where
  "consolidateConversationProfile sha db c now mb =
     (case put_each db (map (profile_item sha c now) (latest_resolutions c)) mb of
        (None, mb') \<Rightarrow> (Inr (length (latest_resolutions c)), mb')
      | (Some e, mb') \<Rightarrow> (Inl e, mb'))"

section \<open>The tables stay governed\<close>

definition mem_ok :: "memory_db \<Rightarrow> bool" where
  "mem_ok mb \<longleftrightarrow> distinct (map mi_id (mb_items mb)) \<and> (\<forall>m \<in> set (mb_items mb). MemoryItemSchema m) \<and>
     distinct (map fst (mb_fts mb)) \<and> set (mb_fts mb) = (\<lambda>m. (mi_id m, fts_text m)) ` set (mb_items mb) \<and>
     distinct (map edge_of (mb_edges mb))"

lemma insert_or_replace_distinct: "distinct (map key rows) \<Longrightarrow> distinct (map key (insert_or_replace key r rows))"
  by (auto simp: insert_or_replace_def distinct_map inj_on_def)

lemma insert_or_ignore_distinct: "distinct (map key rows) \<Longrightarrow> distinct (map key (insert_or_ignore key r rows))"
  by (auto simp: insert_or_ignore_def)

lemma gated_schema: "MemoryItemSchema m \<Longrightarrow> MemoryItemSchema (m\<lparr>mi_trustClass := gated_trust db m\<rparr>)"
  by (auto simp: MemoryItemSchema_def gated_trust_def)

lemma fts_text_trust [simp]: "fts_text (m\<lparr>mi_trustClass := t\<rparr>) = fts_text m" "fts_text (m\<lparr>mi_status := s\<rparr>) = fts_text m"
  by (simp_all add: fts_text_def)

lemma putMemory_ok:
  assumes "putMemory db m mb = Inr mb'" "mem_ok mb"
  shows "mem_ok mb'"
proof -
  have s: "MemoryItemSchema m" and mb': "mb' = mb\<lparr>mb_items := insert_or_replace mi_id (m\<lparr>mi_trustClass := gated_trust db m\<rparr>) (mb_items mb),
             mb_fts := filter (\<lambda>f. fst f \<noteq> mi_id m) (mb_fts mb) @ [(mi_id m, fts_text m)]\<rparr>"
    using assms(1) by (auto simp: putMemory_def split: if_splits)
  have "distinct (map mi_id (mb_items mb'))"
    using assms(2) by (simp add: mb' mem_ok_def insert_or_replace_distinct)
  moreover have "\<forall>m \<in> set (mb_items mb'). MemoryItemSchema m"
    using assms(2) gated_schema [OF s] by (auto simp: mb' mem_ok_def insert_or_replace_def)
  moreover have "distinct (map fst (mb_fts mb'))"
    using assms(2) insert_or_replace_distinct [of fst "mb_fts mb" "(mi_id m, fts_text m)"] by (simp add: mb' mem_ok_def insert_or_replace_def)
  moreover have "set (mb_fts mb') = (\<lambda>m. (mi_id m, fts_text m)) ` set (mb_items mb')"
    using assms(2) by (auto simp: mb' mem_ok_def insert_or_replace_def image_iff)
  ultimately show ?thesis using assms(2) by (simp add: mem_ok_def mb')
qed

lemma put_all_ok: "put_all db ms mb = Inr mb' \<Longrightarrow> mem_ok mb \<Longrightarrow> mem_ok mb'"
  by (induction ms arbitrary: mb) (auto split: sum.splits dest: putMemory_ok)

lemma edges_ok: "mem_ok mb \<Longrightarrow> distinct (map edge_of es) \<Longrightarrow> mem_ok (mb\<lparr>mb_edges := es\<rparr>)"
  by (simp add: mem_ok_def)

lemma supersedeMemory_ok:
  assumes "supersedeMemory db i r why mb = Inr mb'" "mem_ok mb"
  shows "mem_ok mb'"
proof -
  obtain mb1 mb2 m1 m2 es where p: "putMemory db m1 mb = Inr mb1" "putMemory db m2 mb1 = Inr mb2" "mb' = mb2\<lparr>mb_edges := es\<rparr>"
    and es: "distinct (map edge_of (mb_edges mb2)) \<Longrightarrow> distinct (map edge_of es)"
    using assms(1) by (auto simp: supersedeMemory_def Let_def insert_or_ignore_distinct split: option.splits if_splits sum.splits)
  have "mem_ok mb2" using putMemory_ok p(1,2) assms(2) by blast
  then show ?thesis using es p(3) edges_ok by (simp add: mem_ok_def)
qed

lemma store_archive_ok:
  assumes "store_archive db i rel t mb = Inr mb'" "mem_ok mb"
  shows "mem_ok mb'"
proof -
  obtain mb1 m1 e where p: "putMemory db m1 mb = Inr mb1" "mb' = mb1\<lparr>mb_edges := mb_edges mb1 @ [e]\<rparr>" "edge_of e \<notin> edge_of ` set (mb_edges mb1)"
    using assms(1) by (auto simp: store_archive_def Let_def split: option.splits if_splits sum.splits)
  have "mem_ok mb1" using putMemory_ok p(1) assms(2) by blast
  then show ?thesis using p(2,3) by (simp add: mem_ok_def)
qed

section \<open>Reading back\<close>

lemma getMemory_put:
  assumes "putMemory db m mb = Inr mb'"
  shows "getMemory i mb' = (if i = mi_id m then Some (m\<lparr>mi_trustClass := gated_trust db m\<rparr>) else getMemory i mb)"
  using assms find_insert_or_replace [of mi_id i "m\<lparr>mi_trustClass := gated_trust db m\<rparr>" "mb_items mb"]
  by (auto simp: putMemory_def getMemory_def split: if_splits)

lemma getMemory_id: "getMemory i mb = Some m \<Longrightarrow> mi_id m = i"
  by (auto simp: getMemory_def dest: find_Some_iff_set)

lemma getMemory_edges [simp]: "getMemory i (mb\<lparr>mb_edges := es\<rparr>) = getMemory i mb"
  by (simp add: getMemory_def)

lemma getMemory_put_all:
  assumes "put_all db ms mb = Inr mb'" "m \<in> set ms" "\<And>x. x \<in> set ms \<Longrightarrow> mi_status x = Active \<and> mi_accessCount x = 0"
  shows "\<exists>m'. getMemory (mi_id m) mb' = Some m' \<and> mi_status m' = Active \<and> mi_accessCount m' = 0"
proof -
  have "\<exists>m'. getMemory i mb' = Some m' \<and> mi_status m' = Active \<and> mi_accessCount m' = 0"
    if "put_all db ms mb = Inr mb'" "\<forall>x \<in> set ms. mi_status x = Active \<and> mi_accessCount x = 0"
      "i \<in> mi_id ` set ms \<or> (\<exists>m'. getMemory i mb = Some m' \<and> mi_status m' = Active \<and> mi_accessCount m' = 0)" for i ms mb
    using that
  proof (induction ms arbitrary: mb)
    case (Cons x xs)
    obtain mb1 where p: "putMemory db x mb = Inr mb1" "put_all db xs mb1 = Inr mb'" using Cons.prems(1) by (auto split: sum.splits)
    have "i \<in> mi_id ` set xs \<or> (\<exists>m'. getMemory i mb1 = Some m' \<and> mi_status m' = Active \<and> mi_accessCount m' = 0)"
      using Cons.prems(2,3) getMemory_put [OF p(1), of i] by auto
    then show ?case using Cons.IH p(2) Cons.prems(2) by auto
  qed auto
  then show ?thesis using assms by blast
qed

lemma supersedeMemory_effect:
  assumes "supersedeMemory db i nxt (Some why) mb = Inr mb'" "getMemory i mb = Some old"
  obtains mb1 mb2 where "putMemory db (old\<lparr>mi_status := Superseded\<rparr>) mb = Inr mb1"
    "putMemory db (nxt\<lparr>mi_supersedesId := Some i\<rparr>) mb1 = Inr mb2"
    "mb' = mb2\<lparr>mb_edges := insert_or_ignore edge_of
       \<lparr>me_fromId = mi_id nxt, me_toId = mi_id nxt, me_relation = why, me_at = mi_createdAt nxt\<rparr>
       (insert_or_ignore edge_of
         \<lparr>me_fromId = i, me_toId = mi_id nxt, me_relation = ''supersedes'', me_at = mi_createdAt nxt\<rparr> (mb_edges mb2))\<rparr>"
    "Superseded \<in> set (MEMORY_LIFECYCLE (mi_status old))"
proof -
  let ?m = "old\<lparr>mi_status := Superseded\<rparr>" and ?n = "nxt\<lparr>mi_supersedesId := Some i\<rparr>"
  have l: "Superseded \<in> set (MEMORY_LIFECYCLE (mi_status old))"
    by (rule ccontr) (use assms in \<open>simp add: supersedeMemory_def\<close>)
  obtain mb1 where p1: "putMemory db ?m mb = Inr mb1"
    using assms l by (cases "putMemory db ?m mb") (simp_all add: supersedeMemory_def Let_def)
  obtain mb2 where p2: "putMemory db ?n mb1 = Inr mb2"
    using assms l p1 by (cases "putMemory db ?n mb1") (simp_all add: supersedeMemory_def Let_def)
  show thesis
    by (rule that [OF p1 p2 _ l]) (use assms l p1 p2 in \<open>simp_all add: supersedeMemory_def Let_def\<close>)
qed

lemma editMemory_effect:
  assumes "editMemory sha freshId t i e (db, mb) = Inr (Some n, db', mb')"
  obtains old where "getMemory i mb = Some old" "mi_status old = Active" "n = freshId" "mi_id old = i"
    "supersedeMemory db i (edited_item freshId (iso t) e old) (Some (reasonEdgeType ''edited_human'' (ei_reason e))) mb = Inr mb'"
proof -
  have b: "EditMemoryBody e" and g0: "MemoryId i"
    by (rule ccontr, use assms in \<open>simp add: editMemory_def mustGetMemory_def split: if_splits\<close>)+
  obtain old where g: "getMemory i mb = Some old"
    using assms b g0 by (cases "getMemory i mb") (simp_all add: editMemory_def mustGetMemory_def)
  have i: "mi_id old = i" using g by (rule getMemory_id)
  let ?x = "edited_item freshId (iso t) e old"
  have a: "mi_status old = Active" by (rule ccontr) (use assms b g0 g in \<open>simp add: editMemory_def mustGetMemory_def\<close>)
  have u: "\<not> unchanged ?x old" by (rule ccontr) (use assms b g0 g a in \<open>simp add: editMemory_def mustGetMemory_def Let_def\<close>)
  have sc: "MemoryItemSchema ?x" by (rule ccontr) (use assms b g0 g a u in \<open>simp add: editMemory_def mustGetMemory_def Let_def\<close>)
  show thesis
    by (rule that [OF g a _ i])
      (use assms b g0 g a u sc i in \<open>simp_all add: editMemory_def mustGetMemory_def Let_def split: sum.splits\<close>)
qed

lemma edit_effect:
  assumes "editMemory sha freshId t i e (db, mb) = Inr (Some n, db', mb')" "freshId \<noteq> i"
  obtains old where "getMemory i mb = Some old" "mi_status old = Active" "n = freshId"
    "getMemory i mb' = Some (old\<lparr>mi_status := Superseded, mi_trustClass := gated_trust db old\<rparr>)"
    "getMemory freshId mb' = Some ((edited_item freshId (iso t) e old)\<lparr>mi_supersedesId := Some i\<rparr>)"
    "\<And>j. j \<noteq> i \<Longrightarrow> j \<noteq> freshId \<Longrightarrow> getMemory j mb' = getMemory j mb"
    "\<exists>x \<in> set (mb_edges mb'). me_fromId x = freshId \<and> me_relation x = reasonEdgeType ''edited_human'' (ei_reason e)"
proof -
  let ?why = "reasonEdgeType ''edited_human'' (ei_reason e)"
  obtain old where old: "getMemory i mb = Some old" "mi_status old = Active" "n = freshId" "mi_id old = i"
    and sup: "supersedeMemory db i (edited_item freshId (iso t) e old) (Some ?why) mb = Inr mb'"
    using editMemory_effect [OF assms(1)] by metis
  let ?marked = "old\<lparr>mi_status := Superseded\<rparr>" and ?new = "(edited_item freshId (iso t) e old)\<lparr>mi_supersedesId := Some i\<rparr>"
  have nid: "mi_id (edited_item freshId (iso t) e old) = freshId" by (simp add: edited_item_def Let_def)
  obtain mb1 mb2 es where p: "putMemory db ?marked mb = Inr mb1" "putMemory db ?new mb1 = Inr mb2"
      "mb' = mb2\<lparr>mb_edges := insert_or_ignore edge_of
        \<lparr>me_fromId = freshId, me_toId = freshId, me_relation = ?why, me_at = mi_createdAt (edited_item freshId (iso t) e old)\<rparr> es\<rparr>"
    using supersedeMemory_effect [OF sup old(1)] unfolding nid by metis
  have g: "?new\<lparr>mi_trustClass := gated_trust db ?new\<rparr> = ?new"
    by (simp add: gated_trust_def edited_item_def Let_def deriveTrustClass_def)
  have m: "gated_trust db ?marked = gated_trust db old" by (simp add: gated_trust_def)
  have r: "getMemory j mb' = (if j = freshId then Some ?new
      else if j = i then Some (?marked\<lparr>mi_trustClass := gated_trust db old\<rparr>) else getMemory j mb)" for j
    using getMemory_put [OF p(2), of j] getMemory_put [OF p(1), of j] by (simp add: p(3) nid old(4) m g)
  have x: "\<exists>x \<in> set (mb_edges mb'). me_fromId x = freshId \<and> me_relation x = ?why"
    by (auto simp: p(3) insert_or_ignore_def edge_of_def)
  show thesis by (rule that [OF old(1-3)]) (use r x assms(2) in simp_all)
qed

text \<open>C20. Human edits cannot launder trust and never destroy a record: a successful edit of an item keeps the
  item, marked superseded, and adds a new active item that points back to it, carries the taint of
  untrusted content and one of the two external trust classes, whatever class the original had; every
  other item is unchanged, and the reason is on an audit edge written in the same transaction.\<close>

theorem human_edit_cannot_launder_trust:
  assumes "editMemory sha freshId t i e (db, mb) = Inr (Some n, db', mb')" "freshId \<noteq> i"
  shows "\<exists>old new. getMemory i mb = Some old \<and> mi_status old = Active \<and>
    getMemory i mb' = Some (old\<lparr>mi_status := Superseded, mi_trustClass := gated_trust db old\<rparr>) \<and>
    getMemory freshId mb' = Some new \<and> mi_status new = Active \<and> mi_supersedesId new = Some i \<and> mi_taint new = Untrusted_literal \<and>
    mi_trustClass new \<in> {External_literature, External_untrusted} \<and>
    (\<forall>j. j \<noteq> i \<and> j \<noteq> freshId \<longrightarrow> getMemory j mb' = getMemory j mb) \<and>
    (\<exists>x \<in> set (mb_edges mb'). me_fromId x = freshId \<and> me_relation x = reasonEdgeType ''edited_human'' (ei_reason e))"
proof (rule edit_effect [OF assms])
  fix old
  assume o: "getMemory i mb = Some old" "mi_status old = Active"
    "getMemory i mb' = Some (old\<lparr>mi_status := Superseded, mi_trustClass := gated_trust db old\<rparr>)"
    "getMemory freshId mb' = Some ((edited_item freshId (iso t) e old)\<lparr>mi_supersedesId := Some i\<rparr>)"
    "\<And>j. j \<noteq> i \<Longrightarrow> j \<noteq> freshId \<Longrightarrow> getMemory j mb' = getMemory j mb"
    "\<exists>x \<in> set (mb_edges mb'). me_fromId x = freshId \<and> me_relation x = reasonEdgeType ''edited_human'' (ei_reason e)"
  let ?new = "(edited_item freshId (iso t) e old)\<lparr>mi_supersedesId := Some i\<rparr>"
  have "mi_status ?new = Active" "mi_taint ?new = Untrusted_literal" "mi_trustClass ?new \<in> {External_literature, External_untrusted}"
    by (simp_all add: edited_item_def Let_def deriveTrustClass_def)
  then show ?thesis using o by (intro exI [of _ old] exI [of _ ?new]) auto
qed


definition demo_item :: memory_item where
  "demo_item = plain_item ''mem_a'' Semantic ''finding'' ''Salt lowers the freezing point'' ''see run 1'' Own_unverified Trusted
     \<lparr>pv_runId = None, pv_receiptId = None, pv_sourceRef = None\<rparr> ''2026-01-01T00:00:00.000Z'' ''2026-01-01T00:00:00.000Z''"

definition demo_mb :: memory_db where
  "demo_mb = \<lparr>mb_items = [demo_item], mb_fts = [(''mem_a'', fts_text demo_item)], mb_edges = []\<rparr>"

definition demo_edit :: edit_input where
  "demo_edit = \<lparr>ei_title = Some ''Salt lowers it by 1.86 K'', ei_body = None, ei_failureReason = None, ei_reason = ''precision''\<rparr>"

lemma demo_facts:
  "MemoryItemSchema demo_item" "EditMemoryBody demo_edit" "MemoryId ''mem_a''" "mi_status demo_item = Active" "mi_id demo_item = ''mem_a''"
  "getMemory ''mem_a'' demo_mb = Some demo_item" "pv_runId (mi_provenance demo_item) = None" "mi_kind demo_item = Semantic"
  "MemoryItemSchema (edited_item ''mem_b'' (iso 0) demo_edit demo_item)"
  "MemoryItemSchema ((edited_item ''mem_b'' (iso 0) demo_edit demo_item)\<lparr>mi_supersedesId := Some ''mem_a''\<rparr>)"
  "MemoryItemSchema (demo_item\<lparr>mi_status := Superseded\<rparr>)"
  "\<not> unchanged (edited_item ''mem_b'' (iso 0) demo_edit demo_item) demo_item"
  "mem_ok demo_mb" "mb_edges demo_mb = []"
  by code_simp+

lemma demo_edit_works:
  "\<exists>db' mb'. editMemory (\<lambda>x. x) ''mem_b'' 0 ''mem_a'' demo_edit (empty_store, demo_mb) = Inr (Some ''mem_b'', db', mb')"
  by (simp add: editMemory_def mustGetMemory_def supersedeMemory_def putMemory_def Let_def demo_facts)

theorem human_edit_cannot_launder_trust_witness:
  "\<exists>mb' new. getMemory ''mem_b'' mb' = Some new \<and> mi_trustClass new \<in> {External_literature, External_untrusted} \<and>
     (\<exists>db'. editMemory (\<lambda>x. x) ''mem_b'' 0 ''mem_a'' demo_edit (empty_store, demo_mb) = Inr (Some ''mem_b'', db', mb'))"
proof -
  obtain db' mb' where e: "editMemory (\<lambda>x. x) ''mem_b'' 0 ''mem_a'' demo_edit (empty_store, demo_mb) = Inr (Some ''mem_b'', db', mb')"
    using demo_edit_works by blast
  have "''mem_b'' \<noteq> ''mem_a''" by simp
  from human_edit_cannot_launder_trust [OF e this] obtain new where
    n: "getMemory ''mem_b'' mb' = Some new" "mi_trustClass new \<in> {External_literature, External_untrusted}" by (elim exE conjE)
  show ?thesis using n e by (intro exI conjI)
qed

section \<open>The lifecycle as an abstract machine\<close>

text \<open>An item is added once, active, and its status then only moves along the lifecycle.\<close>

inductive memory_step :: "(id \<rightharpoonup> memory_status) \<Rightarrow> (id \<rightharpoonup> memory_status) \<Rightarrow> bool" where
  add: "f i = None \<Longrightarrow> memory_step f (f(i \<mapsto> Active))"
| mark: "f i = Some s \<Longrightarrow> s' \<in> set (MEMORY_LIFECYCLE s) \<Longrightarrow> memory_step f (f(i \<mapsto> s'))"

inductive_cases memory_stepE: "memory_step f g"

definition statuses :: "memory_db \<Rightarrow> id \<rightharpoonup> memory_status" where
  "statuses mb = (\<lambda>i. map_option mi_status (getMemory i mb))"

lemma memory_step_absorbing: "memory_step f g \<Longrightarrow> f i = Some Archived \<Longrightarrow> g i = Some Archived"
  by (erule memory_stepE) (auto split: if_splits)

lemma memory_steps_absorbing: "memory_step\<^sup>*\<^sup>* f g \<Longrightarrow> f i = Some Archived \<Longrightarrow> g i = Some Archived"
  by (induction rule: rtranclp_induct) (auto dest: memory_step_absorbing)

lemma memory_step_dom: "memory_step f g \<Longrightarrow> f i \<noteq> None \<Longrightarrow> g i \<noteq> None"
  by (erule memory_stepE) (auto split: if_splits)

lemma memory_steps_dom: "memory_step\<^sup>*\<^sup>* f g \<Longrightarrow> f i \<noteq> None \<Longrightarrow> g i \<noteq> None"
  by (induction rule: rtranclp_induct) (auto dest: memory_step_dom)

lemma statuses_put: "putMemory db m mb = Inr mb' \<Longrightarrow> statuses mb' = (statuses mb)(mi_id m \<mapsto> mi_status m)"
  by (rule ext) (auto simp: statuses_def getMemory_put)

lemma statuses_edges [simp]: "statuses (mb\<lparr>mb_edges := es\<rparr>) = statuses mb"
  by (simp add: statuses_def)

lemma supersedeMemory_refines:
  assumes "supersedeMemory db i nxt (Some why) mb = Inr mb'" "getMemory (mi_id nxt) mb = None" "mi_status nxt = Active"
    "getMemory i mb = Some old"
  shows "memory_step\<^sup>*\<^sup>* (statuses mb) (statuses mb')"
proof (rule supersedeMemory_effect [OF assms(1,4)])
  fix mb1 mb2
  assume p: "putMemory db (old\<lparr>mi_status := Superseded\<rparr>) mb = Inr mb1"
      "putMemory db (nxt\<lparr>mi_supersedesId := Some i\<rparr>) mb1 = Inr mb2"
      "mb' = mb2\<lparr>mb_edges := insert_or_ignore edge_of
       \<lparr>me_fromId = mi_id nxt, me_toId = mi_id nxt, me_relation = why, me_at = mi_createdAt nxt\<rparr>
       (insert_or_ignore edge_of
         \<lparr>me_fromId = i, me_toId = mi_id nxt, me_relation = ''supersedes'', me_at = mi_createdAt nxt\<rparr> (mb_edges mb2))\<rparr>"
    and l: "Superseded \<in> set (MEMORY_LIFECYCLE (mi_status old))"
  have s1: "statuses mb1 = (statuses mb)(i \<mapsto> Superseded)" using statuses_put [OF p(1)] getMemory_id [OF assms(4)] by simp
  have s2: "statuses mb' = (statuses mb1)(mi_id nxt \<mapsto> Active)" using statuses_put [OF p(2)] p(3) assms(3) by simp
  have n: "mi_id nxt \<noteq> i" using assms(2,4) by auto
  have fresh: "statuses mb (mi_id nxt) = None" using assms(2) by (simp add: statuses_def)
  have one: "memory_step (statuses mb) (statuses mb1)"
    unfolding s1 by (rule memory_step.mark [OF _ l]) (simp add: statuses_def assms(4))
  have two: "memory_step (statuses mb1) (statuses mb')"
    unfolding s2 by (rule memory_step.add) (simp add: s1 n fresh)
  show ?thesis using converse_rtranclp_into_rtranclp [of memory_step, OF one r_into_rtranclp [of memory_step, OF two]] .
qed

lemma store_archive_effect:
  assumes "store_archive db i rel t mb = Inr mb'"
  obtains item mb1 es where "getMemory i mb = Some item" "Archived \<in> set (MEMORY_LIFECYCLE (mi_status item))"
    "putMemory db (item\<lparr>mi_status := Archived\<rparr>) mb = Inr mb1" "mb' = mb1\<lparr>mb_edges := es\<rparr>"
  using assms by (auto simp: store_archive_def Let_def split: option.splits if_splits sum.splits)

lemma store_archive_refines:
  assumes "store_archive db i rel t mb = Inr mb'"
  shows "memory_step (statuses mb) (statuses mb') \<and> statuses mb' i = Some Archived"
proof (rule store_archive_effect [OF assms])
  fix item mb1 es
  assume g: "getMemory i mb = Some item" and l: "Archived \<in> set (MEMORY_LIFECYCLE (mi_status item))"
    and p: "putMemory db (item\<lparr>mi_status := Archived\<rparr>) mb = Inr mb1" "mb' = mb1\<lparr>mb_edges := es\<rparr>"
  have s: "statuses mb' = (statuses mb)(i \<mapsto> Archived)" using statuses_put [OF p(1)] getMemory_id [OF g] by (simp add: p(2))
  show ?thesis unfolding s using memory_step.mark [OF _ l, of "statuses mb" i] g by (simp add: statuses_def)
qed

lemma archiveMemory_effect:
  assumes "archiveMemory sha t i reason (db, mb) = Inr (changed, db', mb')"
  shows "if changed then store_archive db i (reasonEdgeType ''archived_human'' reason) (iso t) mb = Inr mb'
     else mb' = mb \<and> db' = db \<and> statuses mb i = Some Archived"
proof -
  have b: "length_in 1 2000 reason" and v: "MemoryId i"
    by (rule ccontr, use assms in \<open>simp add: archiveMemory_def mustGetMemory_def split: if_splits\<close>)+
  obtain item where g: "getMemory i mb = Some item"
    using assms b v by (cases "getMemory i mb") (simp_all add: archiveMemory_def mustGetMemory_def)
  have "mi_id item = i" using g by (rule getMemory_id)
  then show ?thesis using assms b v g
    by (cases "mi_status item = Archived") (auto simp: archiveMemory_def mustGetMemory_def statuses_def split: sum.splits)
qed


text \<open>C15. The human operations refine the memory lifecycle machine: read as a map from ids to statuses, a
  successful edit under a fresh id and a successful archive are sequences of steps that add an active item
  or move one item along the lifecycle. So no human operation removes an item or revives an archived one,
  and an archive request that succeeds leaves the item archived, whether or not it already was.\<close>

theorem human_operations_refine_lifecycle:
  "(editMemory sha freshId t i e (db, mb) = Inr (Some n, db', mb') \<and> getMemory freshId mb = None \<longrightarrow>
      memory_step\<^sup>*\<^sup>* (statuses mb) (statuses mb')) \<and>
   (archiveMemory sha t i reason (db, mb) = Inr (changed, db', mb') \<longrightarrow>
      memory_step\<^sup>*\<^sup>* (statuses mb) (statuses mb') \<and> statuses mb' i = Some Archived) \<and>
   (memory_step\<^sup>*\<^sup>* f g \<longrightarrow> dom f \<subseteq> dom g \<and> (\<forall>j. f j = Some Archived \<longrightarrow> g j = Some Archived))"
proof (intro conjI impI)
  assume "editMemory sha freshId t i e (db, mb) = Inr (Some n, db', mb') \<and> getMemory freshId mb = None"
  then have e: "editMemory sha freshId t i e (db, mb) = Inr (Some n, db', mb')" and fresh: "getMemory freshId mb = None" by simp_all
  obtain old where o: "getMemory i mb = Some old"
      "supersedeMemory db i (edited_item freshId (iso t) e old) (Some (reasonEdgeType ''edited_human'' (ei_reason e))) mb = Inr mb'"
    using editMemory_effect [OF e] by metis
  have x: "mi_id (edited_item freshId (iso t) e old) = freshId" "mi_status (edited_item freshId (iso t) e old) = Active"
    by (simp_all add: edited_item_def Let_def)
  show "memory_step\<^sup>*\<^sup>* (statuses mb) (statuses mb')"
    by (rule supersedeMemory_refines [OF o(2) _ x(2) o(1)]) (simp add: x(1) fresh)
next
  assume "archiveMemory sha t i reason (db, mb) = Inr (changed, db', mb')"
  note a = archiveMemory_effect [OF this]
  show "memory_step\<^sup>*\<^sup>* (statuses mb) (statuses mb')" using a store_archive_refines by (cases changed) (auto intro: r_into_rtranclp)
  show "statuses mb' i = Some Archived" using a store_archive_refines by (cases changed) auto
next
  assume m: "memory_step\<^sup>*\<^sup>* f g"
  show "dom f \<subseteq> dom g" using memory_steps_dom [OF m] by blast
  show "\<forall>j. f j = Some Archived \<longrightarrow> g j = Some Archived" using memory_steps_absorbing [OF m] by blast
qed

theorem human_operations_refine_lifecycle_witness:
  "(\<exists>db' mb'. editMemory (\<lambda>x. x) ''mem_b'' 0 ''mem_a'' demo_edit (empty_store, demo_mb) = Inr (Some ''mem_b'', db', mb') \<and>
     memory_step\<^sup>*\<^sup>* (statuses demo_mb) (statuses mb')) \<and>
   (\<exists>db' mb'. archiveMemory (\<lambda>x. x) 0 ''mem_a'' ''obsolete'' (empty_store, demo_mb) = Inr (True, db', mb') \<and> statuses mb' ''mem_a'' = Some Archived)"
proof
  obtain db' mb' where e: "editMemory (\<lambda>x. x) ''mem_b'' 0 ''mem_a'' demo_edit (empty_store, demo_mb) = Inr (Some ''mem_b'', db', mb')"
    using demo_edit_works by (elim exE)
  have "getMemory ''mem_b'' demo_mb = None" by code_simp
  then have "memory_step\<^sup>*\<^sup>* (statuses demo_mb) (statuses mb')"
    using human_operations_refine_lifecycle [THEN conjunct1, rule_format, OF conjI [OF e]] by simp
  with e show "\<exists>db' mb'. editMemory (\<lambda>x. x) ''mem_b'' 0 ''mem_a'' demo_edit (empty_store, demo_mb) = Inr (Some ''mem_b'', db', mb') \<and>
     memory_step\<^sup>*\<^sup>* (statuses demo_mb) (statuses mb')" by (intro exI conjI)
next
  have "MemoryItemSchema (demo_item\<lparr>mi_status := Archived\<rparr>)" by code_simp
  then obtain db' mb' where a: "archiveMemory (\<lambda>x. x) 0 ''mem_a'' ''obsolete'' (empty_store, demo_mb) = Inr (True, db', mb')"
    by (simp add: archiveMemory_def mustGetMemory_def store_archive_def putMemory_def Let_def demo_facts length_in_def)
  from human_operations_refine_lifecycle [THEN conjunct2, THEN conjunct1, rule_format, OF a] a
  show "\<exists>db' mb'. archiveMemory (\<lambda>x. x) 0 ''mem_a'' ''obsolete'' (empty_store, demo_mb) = Inr (True, db', mb') \<and> statuses mb' ''mem_a'' = Some Archived"
    by (elim conjE) (intro exI conjI)
qed


section \<open>The write gate on every path\<close>

text \<open>The tables are well formed and every item stored as verified has a receipt in the store that resolves.\<close>

definition governed :: "store \<Rightarrow> memory_db \<Rightarrow> bool" where
  "governed db mb \<longleftrightarrow> mem_ok mb \<and>
     (\<forall>m \<in> set (mb_items mb). mi_trustClass m = Own_verified \<longrightarrow> receipt_resolves db (mi_provenance m))"

lemma putMemory_governed:
  assumes "putMemory db m mb = Inr mb'" "governed db mb"
  shows "governed db mb'"
proof -
  have "mb_items mb' = insert_or_replace mi_id (m\<lparr>mi_trustClass := gated_trust db m\<rparr>) (mb_items mb)"
    using assms(1) by (auto simp: putMemory_def split: if_splits)
  then have "\<forall>x \<in> set (mb_items mb'). mi_trustClass x = Own_verified \<longrightarrow> receipt_resolves db (mi_provenance x)"
    using assms(2) by (auto simp: governed_def insert_or_replace_def gated_trust_def split: if_splits)
  then show ?thesis using putMemory_ok [OF assms(1)] assms(2) by (simp add: governed_def)
qed

lemma put_all_governed: "put_all db ms mb = Inr mb' \<Longrightarrow> governed db mb \<Longrightarrow> governed db mb'"
  by (induction ms arbitrary: mb) (auto split: sum.splits dest: putMemory_governed)

lemma put_each_governed: "governed db mb \<Longrightarrow> governed db (snd (put_each db ms mb))"
  by (induction ms arbitrary: mb) (auto split: sum.splits dest: putMemory_governed)

lemma governed_edges: "governed db mb \<Longrightarrow> mem_ok (mb\<lparr>mb_edges := es\<rparr>) \<Longrightarrow> governed db (mb\<lparr>mb_edges := es\<rparr>)"
  by (simp add: governed_def)

lemma supersedeMemory_governed:
  assumes "supersedeMemory db i nxt (Some why) mb = Inr mb'" "governed db mb" "getMemory i mb = Some old"
  shows "governed db mb'"
proof (rule supersedeMemory_effect [OF assms(1,3)])
  fix mb1 mb2
  assume p: "putMemory db (old\<lparr>mi_status := Superseded\<rparr>) mb = Inr mb1" "putMemory db (nxt\<lparr>mi_supersedesId := Some i\<rparr>) mb1 = Inr mb2"
      "mb' = mb2\<lparr>mb_edges := insert_or_ignore edge_of
       \<lparr>me_fromId = mi_id nxt, me_toId = mi_id nxt, me_relation = why, me_at = mi_createdAt nxt\<rparr>
       (insert_or_ignore edge_of
         \<lparr>me_fromId = i, me_toId = mi_id nxt, me_relation = ''supersedes'', me_at = mi_createdAt nxt\<rparr> (mb_edges mb2))\<rparr>"
  have "governed db mb2" using putMemory_governed [OF p(2) putMemory_governed [OF p(1) assms(2)]] .
  moreover have "mem_ok mb'" using supersedeMemory_ok [OF assms(1)] assms(2) by (simp add: governed_def)
  ultimately show ?thesis using governed_edges p(3) by simp
qed

lemma store_archive_governed:
  assumes "store_archive db i rel t mb = Inr mb'" "governed db mb"
  shows "governed db mb'"
proof (rule store_archive_effect [OF assms(1)])
  fix item mb1 es
  assume p: "putMemory db (item\<lparr>mi_status := Archived\<rparr>) mb = Inr mb1" "mb' = mb1\<lparr>mb_edges := es\<rparr>"
  have "mem_ok mb'" using store_archive_ok [OF assms(1)] assms(2) by (simp add: governed_def)
  then show ?thesis using governed_edges putMemory_governed [OF p(1) assms(2)] p(2) by simp
qed

lemma auditEvent_governed: "governed (auditEvent sha item d t db) mb = governed db mb"
proof -
  have "receipt_resolves (appendEvent sha r e t db) pv = receipt_resolves db pv" for r e pv
    by (simp add: receipt_resolves_def getRun_def find_run_def listObjects_def appendEvent_frame split: option.splits)
  then show ?thesis by (auto simp: auditEvent_def governed_def split: option.splits)
qed

lemma consolidateRun_puts:
  assumes "consolidateRun sha db runId now mb = Inr (r, mb')"
  obtains run where "getRun runId db = Some run" "put_all db (consolidation_items sha db run now) mb = Inr mb'"
    "fst r = length (consolidation_items sha db run now)" "list_all MemoryItemSchema (consolidation_items sha db run now)"
proof -
  obtain run where run: "getRun runId db = Some run"
    using assms by (cases "getRun runId db") (simp_all add: consolidateRun_def)
  let ?items = "consolidation_items sha db run now"
  have n: "List.find (\<lambda>m. \<not> MemoryItemSchema m) ?items = None"
    using assms run by (cases "List.find (\<lambda>m. \<not> MemoryItemSchema m) ?items") (simp_all add: consolidateRun_def Let_def)
  have ok: "list_all MemoryItemSchema ?items"
    using n by (simp add: find_None_iff list_all_iff)
  show thesis
    by (rule that [OF run _ _ ok])
      (use assms run n in \<open>cases "put_all db ?items mb"; simp add: consolidateRun_def Let_def; auto\<close>)+
qed

lemma editMemory_store:
  assumes "editMemory sha freshId t i e (db, mb) = Inr (n, db', mb')"
  shows "(n = None \<and> db' = db \<and> mb' = mb) \<or> (n = Some freshId \<and> (\<exists>item d. db' = auditEvent sha item d t db))"
proof -
  have b: "EditMemoryBody e" and v: "MemoryId i"
    by (rule ccontr, use assms in \<open>simp add: editMemory_def mustGetMemory_def split: if_splits\<close>)+
  obtain old where g: "getMemory i mb = Some old"
    using assms b v by (cases "getMemory i mb") (simp_all add: editMemory_def mustGetMemory_def)
  let ?x = "edited_item freshId (iso t) e old"
  have a: "mi_status old = Active" by (rule ccontr) (use assms b v g in \<open>simp add: editMemory_def mustGetMemory_def\<close>)
  show ?thesis
  proof (cases "unchanged ?x old")
    case True
    then show ?thesis using assms b v g a by (simp add: editMemory_def mustGetMemory_def Let_def)
  next
    case False
    have sc: "MemoryItemSchema ?x" by (rule ccontr) (use assms b v g a False in \<open>simp add: editMemory_def mustGetMemory_def Let_def\<close>)
    let ?s = "supersedeMemory db (mi_id old) ?x (Some (reasonEdgeType ''edited_human'' (ei_reason e))) mb"
    obtain mb1 where "?s = Inr mb1"
      using assms b v g a False sc by (cases ?s) (simp_all add: editMemory_def mustGetMemory_def Let_def)
    then have "n = Some freshId \<and> db' = auditEvent sha old [(''reason'', JStr ''memory_edited_human''), (''newId'', JStr freshId),
                   (''changedFields'', changed_fields e old), (''editReason'', JStr (ei_reason e))] t db"
      using assms b v g a False sc by (simp add: editMemory_def mustGetMemory_def Let_def)
    then show ?thesis by blast
  qed
qed

lemma editMemory_governed:
  assumes "editMemory sha freshId t i e (db, mb) = Inr (n, db', mb')" "governed db mb"
  shows "governed db' mb'"
  using editMemory_store [OF assms(1)]
proof (elim disjE conjE exE)
  fix item d
  assume n: "n = Some freshId" and db': "db' = auditEvent sha item d t db"
  obtain old where "getMemory i mb = Some old"
      "supersedeMemory db i (edited_item freshId (iso t) e old) (Some (reasonEdgeType ''edited_human'' (ei_reason e))) mb = Inr mb'"
    using editMemory_effect [OF assms(1) [unfolded n]] by metis
  then have "governed db mb'" using supersedeMemory_governed assms(2) by blast
  then show ?thesis by (simp add: db' auditEvent_governed)
qed (use assms(2) in simp)

lemma archiveMemory_store:
  assumes "archiveMemory sha t i reason (db, mb) = Inr (changed, db', mb')" "changed"
  shows "\<exists>item d. db' = auditEvent sha item d t db"
proof -
  have b: "length_in 1 2000 reason" and v: "MemoryId i"
    by (rule ccontr, use assms in \<open>simp add: archiveMemory_def mustGetMemory_def split: if_splits\<close>)+
  obtain item where g: "getMemory i mb = Some item"
    using assms b v by (cases "getMemory i mb") (simp_all add: archiveMemory_def mustGetMemory_def)
  have "mi_status item \<noteq> Archived" using assms b v g by (auto simp: archiveMemory_def mustGetMemory_def)
  then show ?thesis using assms b v g
    by (cases "store_archive db (mi_id item) (reasonEdgeType ''archived_human'' reason) (iso t) mb")
      (auto simp: archiveMemory_def mustGetMemory_def)
qed

lemma archiveMemory_governed:
  assumes "archiveMemory sha t i reason (db, mb) = Inr (changed, db', mb')" "governed db mb"
  shows "governed db' mb'"
  using archiveMemory_effect [OF assms(1)] archiveMemory_store [OF assms(1)] store_archive_governed assms(2)
  by (cases changed) (auto simp: auditEvent_governed)

text \<open>C19. The memory tables stay governed whatever is written: after every put, consolidation of a run, human
  edit or archive that succeeds, and after the consolidation of a conversation even when it fails half way,
  item ids are unique, every item satisfies the schema (a failed experiment has its reason, a literature
  item its source), the full-text rows are exactly those of the items, edges are unique, and an item
  stored as verified has a run and a receipt of that run in the store.\<close>

theorem memory_tables_governed:
  assumes "governed db mb"
  shows "(putMemory db m mb = Inr mb' \<longrightarrow> governed db mb') \<and>
    (consolidateRun sha db runId now mb = Inr (r, mb') \<longrightarrow> governed db mb') \<and>
    governed db (snd (consolidateConversationProfile sha db c now mb)) \<and>
    (editMemory sha freshId t i e (db, mb) = Inr (n, db', mb') \<longrightarrow> governed db' mb') \<and>
    (archiveMemory sha t i reason (db, mb) = Inr (ch, db', mb') \<longrightarrow> governed db' mb')"
proof (intro conjI impI)
  show "governed db mb'" if "putMemory db m mb = Inr mb'" using putMemory_governed [OF that assms] .
  show "governed db mb'" if "consolidateRun sha db runId now mb = Inr (r, mb')"
    using consolidateRun_puts [OF that] put_all_governed assms by metis
  show "governed db (snd (consolidateConversationProfile sha db c now mb))"
    using put_each_governed [OF assms, of "map (profile_item sha c now) (latest_resolutions c)"]
    by (auto simp: consolidateConversationProfile_def split: prod.splits option.splits)
  show "governed db' mb'" if "editMemory sha freshId t i e (db, mb) = Inr (n, db', mb')"
    using editMemory_governed [OF that assms] .
  show "governed db' mb'" if "archiveMemory sha t i reason (db, mb) = Inr (ch, db', mb')"
    using archiveMemory_governed [OF that assms] .
qed

theorem memory_tables_governed_witness:
  "governed empty_store demo_mb \<and> (\<exists>db' mb'. editMemory (\<lambda>x. x) ''mem_b'' 0 ''mem_a'' demo_edit (empty_store, demo_mb) = Inr (Some ''mem_b'', db', mb') \<and>
     governed db' mb')"
proof -
  have g: "governed empty_store demo_mb" by code_simp
  obtain db' mb' where e: "editMemory (\<lambda>x. x) ''mem_b'' 0 ''mem_a'' demo_edit (empty_store, demo_mb) = Inr (Some ''mem_b'', db', mb')"
    using demo_edit_works by (elim exE)
  have "governed db' mb'" using memory_tables_governed [OF g] e by blast
  then show ?thesis using g e by (intro conjI exI)
qed


section \<open>Consolidating again\<close>

lemma fold_insert_or_replace:
  "fold (insert_or_replace key) ms rows = filter (\<lambda>x. key x \<notin> key ` set ms) rows @ fold (insert_or_replace key) ms []"
proof (induction ms arbitrary: rows rule: rev_induct)
  case (snoc m ms)
  show ?case using snoc [of rows] by (simp add: insert_or_replace_def) (metis (mono_tags, lifting))
qed simp

lemma fold_insert_or_replace_twice:
  "fold (insert_or_replace key) ms (fold (insert_or_replace key) ms rows) = fold (insert_or_replace key) ms rows"
proof -
  let ?new = "fold (insert_or_replace key) ms []"
  have "key ` set (fold (insert_or_replace key) ms rows) \<subseteq> key ` set ms \<union> key ` set rows" for ms rows
    by (induction ms arbitrary: rows) (fastforce simp: insert_or_replace_def)+
  from this [of ms "[]"] have "filter (\<lambda>x. key x \<notin> key ` set ms) ?new = []" by (auto simp: filter_empty_conv)
  then show ?thesis using fold_insert_or_replace [of key ms "fold (insert_or_replace key) ms rows"] fold_insert_or_replace [of key ms rows]
    by (simp add: filter_append)
qed

lemma fold_insert_or_replace_keys: "key ` set (fold (insert_or_replace key) ms rows) = key ` set ms \<union> key ` set rows"
  by (induction ms arbitrary: rows) (auto simp: insert_or_replace_def)

lemma put_all_rows:
  "put_all db ms mb = Inr mb' \<Longrightarrow>
     mb' = mb\<lparr>mb_items := fold (insert_or_replace mi_id) (map (\<lambda>m. m\<lparr>mi_trustClass := gated_trust db m\<rparr>) ms) (mb_items mb),
       mb_fts := fold (insert_or_replace fst) (map (\<lambda>m. (mi_id m, fts_text m)) ms) (mb_fts mb)\<rparr>"
proof (induction ms arbitrary: mb)
  case (Cons m ms)
  obtain mb1 where p: "putMemory db m mb = Inr mb1" "put_all db ms mb1 = Inr mb'" using Cons.prems by (auto split: sum.splits)
  have "mb1 = mb\<lparr>mb_items := insert_or_replace mi_id (m\<lparr>mi_trustClass := gated_trust db m\<rparr>) (mb_items mb),
      mb_fts := insert_or_replace fst (mi_id m, fts_text m) (mb_fts mb)\<rparr>"
    using p(1) by (auto simp: putMemory_def insert_or_replace_def split: if_splits)
  with Cons.IH [OF p(2)] show ?case by simp
qed simp

lemma put_all_twice: "put_all db ms mb = Inr mb1 \<Longrightarrow> put_all db ms mb1 = Inr mb2 \<Longrightarrow> mb2 = mb1"
  by (drule put_all_rows, drule put_all_rows) (simp add: fold_insert_or_replace_twice)

lemma put_all_ids: "put_all db ms mb = Inr mb' \<Longrightarrow> mi_id ` set (mb_items mb') = mi_id ` set ms \<union> mi_id ` set (mb_items mb)"
  by (drule put_all_rows) (simp add: fold_insert_or_replace_keys image_image)

lemma consolidation_ids: "map mi_id (consolidation_items sha db run now) = map mi_id (consolidation_items sha db run now')"
  by (simp add: consolidation_items_def episode_item_def experiment_item_def semanticFindingsForRun_def finding_item_def plain_item_def Let_def)

lemma consolidation_length:
  "length (consolidation_items sha db run now) \<le> 1 + length (filter experiment_terminal (listObjects ''experiment_run'' (run_id run) db)) + 20"
  by (simp add: consolidation_items_def semanticFindingsForRun_def SEMANTIC_FINDINGS_PER_RUN_def)

lemma consolidation_fresh:
  "m \<in> set (consolidation_items sha db run now) \<Longrightarrow> mi_status m = Active \<and> mi_accessCount m = 0"
  by (auto simp: consolidation_items_def episode_item_def experiment_item_def semanticFindingsForRun_def finding_item_def plain_item_def Let_def)

lemma mem_ok_length: "mem_ok mb \<Longrightarrow> length (mb_items mb) = card (mi_id ` set (mb_items mb))"
  using distinct_card [of "map mi_id (mb_items mb)"] by (simp add: mem_ok_def)

text \<open>Consolidating a run is bounded and idempotent: it writes the episode, one item for each terminal
  experiment and at most twenty findings, so the table grows by at most that; consolidating the same run
  again, at any later time, adds no row, and at the same time changes nothing at all.\<close>

theorem consolidation_bounded_idempotent:
  assumes "mem_ok mb" "getRun runId db = Some run" "consolidateRun sha db runId now mb = Inr (r, mb1)"
  shows "fst r \<le> 1 + length (filter experiment_terminal (listObjects ''experiment_run'' (run_id run) db)) + 20 \<and>
    length (mb_items mb1) \<le> length (mb_items mb) + fst r \<and>
    (\<forall>now' r' mb2. consolidateRun sha db runId now' mb1 = Inr (r', mb2) \<longrightarrow>
       mi_id ` set (mb_items mb2) = mi_id ` set (mb_items mb1) \<and> length (mb_items mb2) = length (mb_items mb1) \<and> (now' = now \<longrightarrow> mb2 = mb1))"
proof -
  let ?items = "consolidation_items sha db run"
  have p: "put_all db (?items now) mb = Inr mb1" and r: "fst r = length (?items now)"
    using consolidateRun_puts [OF assms(3)] assms(2) by auto
  have ok1: "mem_ok mb1" using put_all_ok [OF p assms(1)] .
  have "card (mi_id ` set (?items now)) \<le> length (?items now)"
    by (meson card_image_le card_length finite_set order_trans)
  then have "length (mb_items mb1) \<le> length (mb_items mb) + fst r"
    using mem_ok_length [OF ok1] mem_ok_length [OF assms(1)] put_all_ids [OF p] r
      card_Un_le [of "mi_id ` set (?items now)" "mi_id ` set (mb_items mb)"] by simp
  moreover have "mi_id ` set (mb_items mb2) = mi_id ` set (mb_items mb1) \<and> length (mb_items mb2) = length (mb_items mb1) \<and> (now' = now \<longrightarrow> mb2 = mb1)"
    if c: "consolidateRun sha db runId now' mb1 = Inr (r', mb2)" for now' r' mb2
  proof -
    have p2: "put_all db (?items now') mb1 = Inr mb2" using consolidateRun_puts [OF c] assms(2) by auto
    have "mi_id ` set (?items now') = mi_id ` set (?items now)"
      using arg_cong [OF consolidation_ids [of sha db run now' now], of set] by simp
    then have "mi_id ` set (mb_items mb2) = mi_id ` set (mb_items mb1)" using put_all_ids [OF p2] put_all_ids [OF p] by auto
    moreover have "mem_ok mb2" using put_all_ok [OF p2 ok1] .
    ultimately show ?thesis using mem_ok_length ok1 put_all_twice [OF p] p2 by auto
  qed
  ultimately show ?thesis using consolidation_length [of sha db run now] r by auto
qed

text \<open>Consolidation writes every item afresh, so consolidating a run again after a human archived or
  superseded one of its items makes that item active again with its access count reset, although the
  lifecycle declares archived to be terminal.\<close>

theorem reconsolidation_reactivates:
  assumes "getRun runId db = Some run" "consolidateRun sha db runId now mb = Inr (r, mb')" "m \<in> set (consolidation_items sha db run now')"
  shows "\<exists>m'. getMemory (mi_id m) mb' = Some m' \<and> mi_status m' = Active \<and> mi_accessCount m' = 0"
proof -
  have p: "put_all db (consolidation_items sha db run now) mb = Inr mb'"
    using consolidateRun_puts [OF assms(2)] assms(1) by auto
  obtain x where x: "x \<in> set (consolidation_items sha db run now)" "mi_id x = mi_id m"
    using assms(3) arg_cong [OF consolidation_ids [of sha db run now' now], of set] by (metis image_iff set_map)
  show ?thesis using getMemory_put_all [OF p x(1)] consolidation_fresh x(2) by metis
qed


definition demo_hash :: "string \<Rightarrow> string" where
  "demo_hash s = ''ab''"

definition demo_archived :: memory_item where
  "demo_archived = (episode_item demo_hash demo_store demo_run ''2026-01-01T00:00:00.000Z'')\<lparr>mi_status := Archived, mi_accessCount := 7\<rparr>"

definition demo_archive :: memory_db where
  "demo_archive = \<lparr>mb_items = [demo_archived], mb_fts = [(''mem_ab'', fts_text demo_archived)], mb_edges = []\<rparr>"

lemma demo_consolidation:
  "consolidation_items demo_hash demo_store demo_run now = [episode_item demo_hash demo_store demo_run now]"
  by (simp add: consolidation_items_def listObjects_def demo_store_def empty_store_def semanticFindingsForRun_def findings_of_def)

lemma demo_archive_facts:
  "MemoryItemSchema (episode_item demo_hash demo_store demo_run ''2026-01-01T00:00:00.000Z'')" "mem_ok demo_archive"
  "mi_id (episode_item demo_hash demo_store demo_run ''2026-01-01T00:00:00.000Z'') = ''mem_ab''"
  "statuses demo_archive ''mem_ab'' = Some Archived"
  by code_simp+

lemma demo_consolidates: "\<exists>r mb'. consolidateRun demo_hash demo_store ''run_1'' ''2026-01-01T00:00:00.000Z'' demo_archive = Inr (r, mb')"
  by (simp add: consolidateRun_def demo_store_get demo_consolidation demo_archive_facts Let_def putMemory_def)

theorem consolidation_bounded_idempotent_witness:
  "\<exists>r mb'. consolidateRun demo_hash demo_store ''run_1'' ''2026-01-01T00:00:00.000Z'' demo_archive = Inr (r, mb') \<and> length (mb_items mb') \<le> 1 + fst r"
proof -
  obtain r mb' where c: "consolidateRun demo_hash demo_store ''run_1'' ''2026-01-01T00:00:00.000Z'' demo_archive = Inr (r, mb')"
    using demo_consolidates by blast
  from consolidation_bounded_idempotent [OF demo_archive_facts(2) demo_store_get c] c show ?thesis
    by (auto simp: demo_archive_def)
qed

theorem reconsolidation_reactivates_witness:
  "statuses demo_archive ''mem_ab'' = Some Archived \<and>
   (\<exists>r mb'. consolidateRun demo_hash demo_store ''run_1'' ''2026-01-01T00:00:00.000Z'' demo_archive = Inr (r, mb') \<and> statuses mb' ''mem_ab'' = Some Active)"
proof -
  obtain r mb' where c: "consolidateRun demo_hash demo_store ''run_1'' ''2026-01-01T00:00:00.000Z'' demo_archive = Inr (r, mb')"
    using demo_consolidates by blast
  have "episode_item demo_hash demo_store demo_run ''2026-01-01T00:00:00.000Z'' \<in> set (consolidation_items demo_hash demo_store demo_run ''2026-01-01T00:00:00.000Z'')"
    by (simp add: demo_consolidation)
  from reconsolidation_reactivates [OF demo_store_get c this] have "statuses mb' ''mem_ab'' = Some Active"
    by (auto simp: statuses_def demo_archive_facts)
  then show ?thesis using c demo_archive_facts(4) by blast
qed

end
