(* ===== verification/Campaign.thy ===== *)
theory Campaign
  imports Complex_Main Workflow_Plan Objects
begin

text \<open>
  Preregistered campaigns of several experiments: the schema of \<^verbatim>\<open>src/src/domain/campaign.ts\<close>, the pure decision
  core of \<^verbatim>\<open>src/src/app/campaign.ts\<close> (which units may run, when the campaign stops, what alpha is left) and the
  driver loop of \<^verbatim>\<open>src/src/app/campaign-driver.ts\<close>.

  Alpha shares and e-values are exact rationals, so the rounding of floating-point sums and products is not
  modelled. The executor of a unit, the lookup of its frozen specification, the answers of the cancellation
  poll, the clock and the printing of numbers are arguments. An executor that throws ends the drive with its
  error.
\<close>

section \<open>Specifications\<close>

record campaign_unit =
  cu_label :: string
  cu_hypothesisId :: id
  cu_experimentSpecId :: id
  cu_dependsOn :: "string list"

datatype cross_unit_policy =
    Single_primary string
  | Alpha_spending "(string \<times> rat) list" rat
  | E_value_accumulation rat

datatype stop_kind = All_units_terminal | Primary_falsified | Budget_rule | Units_rule | E_value_rule

record campaign_spec =
  cs_id :: id
  cs_runId :: id
  cs_questionId :: "id option"
  cs_units :: "campaign_unit list"
  cs_policy :: cross_unit_policy
  cs_priorAlphaSpent :: rat
  cs_stopRules :: "(stop_kind \<times> string option) list"
  cs_createdAt :: string
  cs_frozenAt :: "string option"
  cs_planHash :: "string option"

definition labels :: "campaign_spec \<Rightarrow> string list" where
  "labels c = map cu_label (cs_units c)"

definition unit_shape :: "campaign_unit \<Rightarrow> bool" where
  "unit_shape u \<longleftrightarrow> length_in 3 120 (cu_label u) \<and> prefixed_id ''hyp_'' (cu_hypothesisId u) \<and>
     prefixed_id ''xsp_'' (cu_experimentSpecId u) \<and> list_all (length_in 3 120) (cu_dependsOn u)"

text \<open>The keys of a record of shares are distinct.\<close>

fun policy_shape :: "cross_unit_policy \<Rightarrow> bool" where
  "policy_shape (Single_primary l) = length_in 3 120 l"
| "policy_shape (Alpha_spending shares family) =
     (distinct (map fst shares) \<and> list_all (\<lambda>s. 0 < snd s \<and> snd s \<le> 1 / 2) shares \<and> 0 < family \<and> family \<le> 1 / 2)"
| "policy_shape (E_value_accumulation t) = (0 < t)"

definition opt_all :: "('a \<Rightarrow> bool) \<Rightarrow> 'a option \<Rightarrow> bool" where
  "opt_all P x = (case x of None \<Rightarrow> True | Some v \<Rightarrow> P v)"

definition campaign_shape :: "campaign_spec \<Rightarrow> bool" where
  "campaign_shape c \<longleftrightarrow> prefixed_id ''cmp_'' (cs_id c) \<and> prefixed_id ''run_'' (cs_runId c) \<and>
     opt_all (prefixed_id ''q_'') (cs_questionId c) \<and>
     2 \<le> length (cs_units c) \<and> length (cs_units c) \<le> 24 \<and> list_all unit_shape (cs_units c) \<and> policy_shape (cs_policy c) \<and>
     0 \<le> cs_priorAlphaSpent c \<and> cs_priorAlphaSpent c \<le> 1 / 2 \<and>
     cs_stopRules c \<noteq> [] \<and> list_all (\<lambda>r. opt_all (length_in 3 300) (snd r)) (cs_stopRules c) \<and>
     zod_datetime (cs_createdAt c) \<and> opt_all zod_datetime (cs_frozenAt c) \<and> opt_all (\<lambda>h. length h = 64) (cs_planHash c)"

text \<open>
  The depth-first search. A label in \<open>visiting\<close> has state 1 and one in \<open>visited\<close> state 2; the search stops at
  the first \<open>false\<close>, here \<^const>\<open>None\<close>, so states of abandoned labels never matter.
\<close>

definition unit_of :: "campaign_unit list \<Rightarrow> string \<Rightarrow> campaign_unit option" where
  "unit_of us l = List.find (\<lambda>u. cu_label u = l) (rev us)"

lemma unit_of_Some: "unit_of us l = Some u \<Longrightarrow> u \<in> set us \<and> cu_label u = l"
  by (auto simp: unit_of_def dest: find_Some_iff_set)

definition unvisited :: "campaign_unit list \<Rightarrow> string list \<Rightarrow> nat" where
  "unvisited us visiting = card (cu_label ` set us - set visiting)"

lemma unvisited_less:
  assumes "unit_of us l = Some u" "l \<notin> set visiting"
  shows "unvisited us (l # visiting) < unvisited us visiting"
proof -
  have "l \<in> cu_label ` set us" using unit_of_Some [OF assms(1)] by auto
  then have "cu_label ` set us - set (l # visiting) \<subset> cu_label ` set us - set visiting" using assms(2) by auto
  then show ?thesis unfolding unvisited_def by (intro psubset_card_mono) auto
qed

function dfs :: "campaign_unit list \<Rightarrow> string list \<Rightarrow> string list \<Rightarrow> string \<Rightarrow> string list option"
  and dfs_all :: "campaign_unit list \<Rightarrow> string list \<Rightarrow> string list \<Rightarrow> string list \<Rightarrow> string list option" where
  "dfs us visiting visited l =
     (if l \<in> set visited then Some visited
      else if l \<in> set visiting then None
      else case unit_of us l of
        None \<Rightarrow> None
      | Some u \<Rightarrow> map_option ((#) l) (dfs_all us (l # visiting) visited (cu_dependsOn u)))"
| "dfs_all us visiting visited [] = Some visited"
| "dfs_all us visiting visited (d # ds) =
     (case dfs us visiting visited d of None \<Rightarrow> None | Some visited' \<Rightarrow> dfs_all us visiting visited' ds)"
  by pat_completeness auto
termination
  by (relation "measures [\<lambda>x. case x of Inl (us, visiting, _, _) \<Rightarrow> unvisited us visiting | Inr (us, visiting, _, _) \<Rightarrow> unvisited us visiting,
                          \<lambda>x. case x of Inl _ \<Rightarrow> 0 | Inr (_, _, _, ds) \<Rightarrow> Suc (length ds)]")
     (auto simp: unvisited_less)

declare dfs.simps [simp del]

definition units_refine :: "campaign_unit list \<Rightarrow> bool" where
  "units_refine us \<longleftrightarrow> distinct (map cu_label us) \<and>
     list_all (\<lambda>u. list_all (\<lambda>d. d \<noteq> cu_label u \<and> unit_of us d \<noteq> None) (cu_dependsOn u)) us \<and>
     dfs_all us [] [] (map cu_label us) \<noteq> None"

fun policy_refine :: "string list \<Rightarrow> rat \<Rightarrow> cross_unit_policy \<Rightarrow> bool" where
  "policy_refine ls prior (Single_primary l) = (l \<in> set ls)"
| "policy_refine ls prior (Alpha_spending shares family) =
     (set (map fst shares) \<subseteq> set ls \<and> set ls \<subseteq> set (map fst shares) \<and> sum_list (map snd shares) + prior \<le> family + 1 / 10 ^ 9)"
| "policy_refine ls prior (E_value_accumulation t) = (1 \<le> t)"

definition CampaignSpec :: "campaign_spec \<Rightarrow> bool" where
  "CampaignSpec c \<longleftrightarrow> campaign_shape c \<and> units_refine (cs_units c) \<and> policy_refine (labels c) (cs_priorAlphaSpent c) (cs_policy c)"

section \<open>Decisions\<close>

datatype terminal_state = T_completed | T_failed | T_canceled

datatype unit_state = U_pending | U_running | U_terminal terminal_state

record unit_runtime =
  us_label :: string
  us_state :: unit_state
  us_alphaSpent :: "rat option"
  us_eValue :: "rat option"

abbreviation "U_completed \<equiv> U_terminal T_completed"

text \<open>A \<open>Map\<close> built from the states: the last entry of a label wins.\<close>

definition by_label :: "unit_runtime list \<Rightarrow> string \<Rightarrow> unit_runtime option" where
  "by_label ss l = List.find (\<lambda>s. us_label s = l) (rev ss)"

definition depsSatisfied :: "campaign_unit \<Rightarrow> unit_runtime list \<Rightarrow> bool" where
  "depsSatisfied u ss = list_all (\<lambda>d. map_option us_state (by_label ss d) = Some U_completed) (cu_dependsOn u)"

definition state_of :: "unit_runtime list \<Rightarrow> string \<Rightarrow> unit_state" where
  "state_of ss l = (case List.find (\<lambda>s. us_label s = l) ss of None \<Rightarrow> U_pending | Some s \<Rightarrow> us_state s)"

definition runnableUnits :: "campaign_spec \<Rightarrow> unit_runtime list \<Rightarrow> string list" where
  "runnableUnits c ss = map cu_label (filter (\<lambda>u. depsSatisfied u ss) (filter (\<lambda>u. state_of ss (cu_label u) = U_pending) (cs_units c)))"

record external_flags =
  xf_budgetExhausted :: bool
  xf_unitsExhausted :: bool
  xf_eValueReached :: bool

datatype stop_reason =
    Product_reached rat rat | All_terminal_reached | Primary_falsified_reached string | Budget_reached | Units_reached | E_value_reached

definition e_value :: "unit_runtime \<Rightarrow> rat" where
  "e_value s = (case us_eValue s of None \<Rightarrow> 1 | Some e \<Rightarrow> e)"

definition completed_product :: "unit_runtime list \<Rightarrow> rat" where
  "completed_product ss = prod_list (map e_value (filter (\<lambda>s. us_state s = U_completed) ss))"

definition is_terminal :: "unit_runtime option \<Rightarrow> bool" where
  "is_terminal x = (case x of Some s \<Rightarrow> us_state s \<in> {U_completed, U_terminal T_failed, U_terminal T_canceled} | None \<Rightarrow> False)"

definition all_terminal :: "campaign_spec \<Rightarrow> unit_runtime list \<Rightarrow> bool" where
  "all_terminal c ss = list_all (\<lambda>u. is_terminal (by_label ss (cu_label u))) (cs_units c)"

fun stop_by :: "campaign_spec \<Rightarrow> unit_runtime list \<Rightarrow> external_flags \<Rightarrow> stop_kind \<Rightarrow> stop_reason option" where
  "stop_by c ss x All_units_terminal = (if all_terminal c ss then Some All_terminal_reached else None)"
| "stop_by c ss x Primary_falsified =
     (case cs_policy c of
        Single_primary l \<Rightarrow> if map_option us_state (by_label ss l) = Some (U_terminal T_failed) then Some (Primary_falsified_reached l) else None
      | _ \<Rightarrow> None)"
| "stop_by c ss x Budget_rule = (if xf_budgetExhausted x then Some Budget_reached else None)"
| "stop_by c ss x Units_rule = (if xf_unitsExhausted x then Some Units_reached else None)"
| "stop_by c ss x E_value_rule = (if xf_eValueReached x then Some E_value_reached else None)"

fun first_stop :: "campaign_spec \<Rightarrow> unit_runtime list \<Rightarrow> external_flags \<Rightarrow> (stop_kind \<times> string option) list \<Rightarrow> stop_reason option" where
  "first_stop c ss x [] = None"
| "first_stop c ss x (r # rs) = (case stop_by c ss x (fst r) of None \<Rightarrow> first_stop c ss x rs | Some y \<Rightarrow> Some y)"

text \<open>\<^const>\<open>None\<close> is not stopped.\<close>

definition evaluateStop :: "campaign_spec \<Rightarrow> unit_runtime list \<Rightarrow> external_flags \<Rightarrow> stop_reason option" where
  "evaluateStop c ss x =
     (case cs_policy c of
        E_value_accumulation t \<Rightarrow>
          if t \<le> completed_product ss then Some (Product_reached (completed_product ss) t) else first_stop c ss x (cs_stopRules c)
      | _ \<Rightarrow> first_stop c ss x (cs_stopRules c))"

definition alphaLedger :: "campaign_spec \<Rightarrow> unit_runtime list \<Rightarrow> (string \<times> rat option) list" where
  "alphaLedger c ss =
     (case cs_policy c of
        Alpha_spending shares family \<Rightarrow>
          map (\<lambda>u. let share = (case map_of shares (cu_label u) of None \<Rightarrow> 0 | Some a \<Rightarrow> a);
                       spent = (case Option.bind (by_label ss (cu_label u)) us_alphaSpent of None \<Rightarrow> 0 | Some a \<Rightarrow> a)
                   in (cu_label u, Some (max 0 (share - spent)))) (cs_units c)
      | _ \<Rightarrow> map (\<lambda>u. (cu_label u, None)) (cs_units c))"

record campaign_decision =
  cd_runnable :: "string list"
  cd_stop :: "stop_reason option"
  cd_alphaBudget :: "(string \<times> rat option) list"
  cd_eValueProduct :: "rat option"

definition decideCampaign :: "campaign_spec \<Rightarrow> unit_runtime list \<Rightarrow> external_flags \<Rightarrow> campaign_decision" where
  "decideCampaign c ss x =
     (let stop = evaluateStop c ss x; budget = alphaLedger c ss;
          prod = (case cs_policy c of E_value_accumulation _ \<Rightarrow> Some (completed_product ss) | _ \<Rightarrow> None) in
      if stop \<noteq> None then \<lparr>cd_runnable = [], cd_stop = stop, cd_alphaBudget = budget, cd_eValueProduct = prod\<rparr>
      else \<lparr>cd_runnable = filter (\<lambda>l. case map_of budget l of None \<Rightarrow> False | Some None \<Rightarrow> True | Some (Some a) \<Rightarrow> 0 < a) (runnableUnits c ss),
             cd_stop = None, cd_alphaBudget = budget, cd_eValueProduct = prod\<rparr>)"


section \<open>The driver\<close>

record unit_result =
  ur_state :: terminal_state
  ur_alphaSpent :: "rat option"
  ur_eValue :: "rat option"
  ur_experimentRunId :: id
  ur_falsified :: bool

record drive_env =
  de_cancel :: "nat \<Rightarrow> bool"
  de_now :: "nat \<Rightarrow> instant"
  de_sha :: "string \<Rightarrow> string"
  de_resolve :: "id \<Rightarrow> store \<Rightarrow> json option"
  de_alphaOf :: "json \<Rightarrow> rat option"
  de_execute :: "json \<Rightarrow> store \<Rightarrow> (string + unit_result) \<times> store"
  de_number :: "rat \<Rightarrow> json"
  de_text :: "rat \<Rightarrow> string"
  de_precise :: "rat \<Rightarrow> string"

text \<open>A finished experiment becomes a unit result: a falsifying verdict of a completed run is a failed unit.\<close>

definition stateFromReports :: "string \<Rightarrow> string list \<Rightarrow> terminal_state \<times> bool" where
  "stateFromReports status verdicts =
     (if status = ''canceled'' then (T_canceled, False)
      else if status = ''failed'' then (T_failed, False)
      else if ''falsifies'' \<in> set verdicts then (T_failed, True) else (T_completed, False))"

definition default_result :: "(json \<Rightarrow> rat option) \<Rightarrow> json \<Rightarrow> json list \<Rightarrow> unit_result" where
  "default_result eValueOf run reports =
     (let mapped = stateFromReports (str_at ''status'' run) (map (str_at ''verdict'') reports); es = List.map_filter eValueOf reports in
      \<lparr>ur_state = fst mapped, ur_alphaSpent = None, ur_eValue = (if es = [] then None else Some (prod_list es)),
       ur_experimentRunId = str_at ''id'' run, ur_falsified = snd mapped\<rparr>)"

definition default_execute ::
  "(json \<Rightarrow> store \<Rightarrow> (string + json \<times> json list) \<times> store) \<Rightarrow> (json \<Rightarrow> rat option) \<Rightarrow> json \<Rightarrow> store \<Rightarrow> (string + unit_result) \<times> store" where
  "default_execute executeExperiment eValueOf unitSpec db =
     (case executeExperiment unitSpec db of
        (Inl e, db') \<Rightarrow> (Inl e, db')
      | (Inr (run, reports), db') \<Rightarrow> (Inr (default_result eValueOf run reports), db'))"

record drive_state =
  dr_states :: "unit_runtime list"
  dr_executed :: "id list"
  dr_db :: store
  dr_polls :: nat
  dr_ticks :: nat

definition combinedEValue :: "unit_runtime list \<Rightarrow> rat" where
  "combinedEValue ss = prod_list (map e_value ss)"

definition eValueReached :: "campaign_spec \<Rightarrow> unit_runtime list \<Rightarrow> bool" where
  "eValueReached c ss = (case cs_policy c of E_value_accumulation t \<Rightarrow> t \<le> combinedEValue ss | _ \<Rightarrow> False)"

definition driver_flags :: "campaign_spec \<Rightarrow> unit_runtime list \<Rightarrow> external_flags" where
  "driver_flags c ss = \<lparr>xf_budgetExhausted = False, xf_unitsExhausted = False, xf_eValueReached = eValueReached c ss\<rparr>"

definition nextDecision :: "campaign_spec \<Rightarrow> unit_runtime list \<Rightarrow> campaign_decision" where
  "nextDecision c ss = decideCampaign c ss (driver_flags c ss)"

fun stop_text :: "drive_env \<Rightarrow> stop_reason \<Rightarrow> string" where
  "stop_text e (Product_reached p t) = ''e_value_threshold: '' @ de_precise e p @ '' >= '' @ de_text e t"
| "stop_text e All_terminal_reached = ''all_units_terminal''"
| "stop_text e (Primary_falsified_reached l) = ''primary_falsified: '' @ l"
| "stop_text e Budget_reached = ''budget_exhausted''"
| "stop_text e Units_reached = ''units_exhausted''"
| "stop_text e E_value_reached = ''e_value_threshold''"

definition note_campaign :: "drive_env \<Rightarrow> campaign_spec \<Rightarrow> string \<Rightarrow> (string \<times> json) list \<Rightarrow> drive_state \<Rightarrow> drive_state" where
  "note_campaign e c kind detail s =
     s\<lparr>dr_db := appendEvent (de_sha e) (cs_runId c)
         (plain_event E_note ([(''kind'', JStr kind), (''campaignId'', JStr (cs_id c))] @ detail)) (de_now e (dr_ticks s)) (dr_db s),
       dr_ticks := Suc (dr_ticks s)\<rparr>"

definition note_stop :: "drive_env \<Rightarrow> campaign_spec \<Rightarrow> stop_reason \<Rightarrow> drive_state \<Rightarrow> drive_state" where
  "note_stop e c r = note_campaign e c ''campaign_stopped'' [(''stopReason'', JStr (stop_text e r))]"

definition push_state :: "string \<Rightarrow> unit_state \<Rightarrow> drive_state \<Rightarrow> drive_state" where
  "push_state l st s = s\<lparr>dr_states := dr_states s @ [\<lparr>us_label = l, us_state = st, us_alphaSpent = None, us_eValue = None\<rparr>]\<rparr>"

text \<open>The first entry of the label is updated in place.\<close>

fun finish_unit :: "string \<Rightarrow> unit_result \<Rightarrow> rat option \<Rightarrow> unit_runtime list \<Rightarrow> unit_runtime list" where
  "finish_unit l r alpha [] = []"
| "finish_unit l r alpha (s # ss) =
     (if us_label s = l then s\<lparr>us_state := U_terminal (ur_state r), us_alphaSpent := alpha, us_eValue := ur_eValue r\<rparr> # ss
      else s # finish_unit l r alpha ss)"

definition share_of :: "campaign_spec \<Rightarrow> string \<Rightarrow> rat option" where
  "share_of c l = (case cs_policy c of Alpha_spending shares _ \<Rightarrow> map_of shares l | _ \<Rightarrow> None)"

definition over_spends :: "drive_env \<Rightarrow> campaign_spec \<Rightarrow> string \<Rightarrow> json \<Rightarrow> bool" where
  "over_spends e c l unitSpec =
     (case (share_of c l, de_alphaOf e unitSpec) of (Some share, Some a) \<Rightarrow> share + 1 / 10 ^ 9 < a | _ \<Rightarrow> False)"

fun terminal_str :: "terminal_state \<Rightarrow> string" where
  "terminal_str T_completed = ''completed''"
| "terminal_str T_failed = ''failed''"
| "terminal_str T_canceled = ''canceled''"

definition finished_detail :: "drive_env \<Rightarrow> string \<Rightarrow> unit_result \<Rightarrow> rat option \<Rightarrow> unit_runtime list \<Rightarrow> (string \<times> json) list" where
  "finished_detail e l r alpha ss =
     [(''unit'', JStr l), (''experimentRunId'', JStr (ur_experimentRunId r))] @
     (if ur_falsified r then [(''falsified'', JBool True),
        (''note'', JStr (''preregistered analysis produced a falsifies verdict '' @ emdash @ '' failed experiments are findings''))] else []) @
     (case alpha of None \<Rightarrow> [] | Some a \<Rightarrow> [(''alphaSpent'', de_number e a)]) @
     (case ur_eValue r of None \<Rightarrow> [] | Some v \<Rightarrow> [(''eValue'', de_number e v), (''combinedEValue'', de_number e (combinedEValue ss))])"

definition run_unit_spec :: "drive_env \<Rightarrow> campaign_spec \<Rightarrow> string \<Rightarrow> id \<Rightarrow> json \<Rightarrow> drive_state \<Rightarrow> (string + unit) \<times> drive_state" where
  "run_unit_spec e c l specId unitSpec s =
     (let s1 = note_campaign e c ''campaign_unit_started'' [(''unit'', JStr l), (''specId'', JStr specId)] (push_state l U_running s) in
      case de_execute e unitSpec (dr_db s1) of
        (Inl err, db) \<Rightarrow> (Inl err, s1\<lparr>dr_db := db\<rparr>)
      | (Inr r, db) \<Rightarrow>
          (let alpha = (case ur_alphaSpent r of Some a \<Rightarrow> Some a | None \<Rightarrow> share_of c l);
               s2 = s1\<lparr>dr_db := db, dr_executed := dr_executed s1 @ [ur_experimentRunId r], dr_states := finish_unit l r alpha (dr_states s1)\<rparr> in
           (Inr (), note_campaign e c (''campaign_unit_'' @ terminal_str (ur_state r)) (finished_detail e l r alpha (dr_states s2)) s2)))"

definition fail_unit :: "drive_env \<Rightarrow> campaign_spec \<Rightarrow> string \<Rightarrow> string \<Rightarrow> drive_state \<Rightarrow> drive_state" where
  "fail_unit e c l err s =
     note_campaign e c ''campaign_unit_failed'' [(''unit'', JStr l), (''error'', JStr err)] (push_state l (U_terminal T_failed) s)"

definition run_unit :: "drive_env \<Rightarrow> campaign_spec \<Rightarrow> string \<Rightarrow> drive_state \<Rightarrow> (string + unit) \<times> drive_state" where
  "run_unit e c l s =
     (case List.find (\<lambda>u. cu_label u = l) (cs_units c) of
        None \<Rightarrow> (Inl ''undefined unit'', s)
      | Some u \<Rightarrow>
          (let specId = cu_experimentSpecId u in
           case de_resolve e specId (dr_db s) of
             None \<Rightarrow> (Inr (), fail_unit e c l (''frozen spec '' @ specId @ '' not found'') s)
           | Some unitSpec \<Rightarrow>
               if over_spends e c l unitSpec
               then (Inr (), fail_unit e c l (''frozen spec alpha '' @ de_text e (the (de_alphaOf e unitSpec)) @ '' exceeds campaign share '' @
                 de_text e (the (share_of c l)) @ '' '' @ emdash @ '' refusing to over-spend the family budget'') s)
               else run_unit_spec e c l specId unitSpec s))"

datatype drive_exit = Go | Stopped stop_reason | Threw string

definition poll :: "drive_state \<Rightarrow> drive_state" where
  "poll s = s\<lparr>dr_polls := Suc (dr_polls s)\<rparr>"

fun run_units :: "drive_env \<Rightarrow> campaign_spec \<Rightarrow> string list \<Rightarrow> drive_state \<Rightarrow> drive_exit \<times> drive_state" where
  "run_units e c [] s = (Go, s)"
| "run_units e c (l # ls) s =
     (if de_cancel e (dr_polls s) then (Go, poll s)
      else case cd_stop (nextDecision c (dr_states s)) of
        Some r \<Rightarrow> (Stopped r, note_stop e c r (poll s))
      | None \<Rightarrow>
          (case run_unit e c l (poll s) of
             (Inl err, s') \<Rightarrow> (Threw err, s')
           | (Inr _, s') \<Rightarrow> run_units e c ls s'))"

definition stalled_note :: "drive_env \<Rightarrow> campaign_spec \<Rightarrow> drive_state \<Rightarrow> drive_state" where
  "stalled_note e c s =
     (if length (dr_states s) < length (cs_units c)
      then note_campaign e c ''campaign_stalled''
        [(''pending'', JArr (map JStr (filter (\<lambda>l. l \<notin> us_label ` set (dr_states s)) (labels c))))] s
      else s)"

fun drive_rounds :: "drive_env \<Rightarrow> campaign_spec \<Rightarrow> nat \<Rightarrow> drive_state \<Rightarrow> drive_exit \<times> drive_state" where
  "drive_rounds e c 0 s = (Go, s)"
| "drive_rounds e c (Suc n) s =
     (if de_cancel e (dr_polls s) then (Go, poll s)
      else
        (let d = nextDecision c (dr_states s) in
         case cd_stop d of
           Some r \<Rightarrow> (Stopped r, note_stop e c r (poll s))
         | None \<Rightarrow>
             if cd_runnable d = [] then (Go, stalled_note e c (poll s))
             else case run_units e c (cd_runnable d) (poll s) of
               (Go, s') \<Rightarrow> drive_rounds e c n s'
             | x \<Rightarrow> x))"

record campaign_outcome =
  co_campaignId :: id
  co_stop :: "stop_reason option"
  co_unitStates :: "unit_runtime list"
  co_executedRunIds :: "id list"
  co_eValue :: "rat option"

definition outcome_of :: "campaign_spec \<Rightarrow> stop_reason option \<Rightarrow> rat option \<Rightarrow> drive_state \<Rightarrow> campaign_outcome" where
  "outcome_of c r ev s = \<lparr>co_campaignId = cs_id c, co_stop = r, co_unitStates = dr_states s, co_executedRunIds = dr_executed s, co_eValue = ev\<rparr>"

definition driveCampaign :: "drive_env \<Rightarrow> campaign_spec \<Rightarrow> store \<Rightarrow> (string + campaign_outcome) \<times> store" where
  "driveCampaign e c db =
     (case drive_rounds e c (length (cs_units c)) \<lparr>dr_states = [], dr_executed = [], dr_db = db, dr_polls = 0, dr_ticks = 0\<rparr> of
        (Threw err, s) \<Rightarrow> (Inl err, dr_db s)
      | (Stopped r, s) \<Rightarrow> (Inr (outcome_of c (Some r) (Some (combinedEValue (dr_states s))) s), dr_db s)
      | (Go, s) \<Rightarrow>
          (let final = cd_stop (nextDecision c (dr_states s));
               s' = (case final of None \<Rightarrow> s | Some r \<Rightarrow> note_stop e c r s);
               ev = (case cs_policy c of E_value_accumulation _ \<Rightarrow> Some (combinedEValue (dr_states s')) | _ \<Rightarrow> None)
           in (Inr (outcome_of c final ev s'), dr_db s')))"


section \<open>One unit\<close>

lemma note_campaign_simps [simp]:
  "dr_states (note_campaign e c k d s) = dr_states s" "dr_executed (note_campaign e c k d s) = dr_executed s"
  "dr_polls (note_campaign e c k d s) = dr_polls s"
  by (simp_all add: note_campaign_def)

lemma note_stop_simps [simp]: "dr_states (note_stop e c r s) = dr_states s" "dr_executed (note_stop e c r s) = dr_executed s"
  by (simp_all add: note_stop_def)

lemma poll_simps [simp]: "dr_states (poll s) = dr_states s" "dr_executed (poll s) = dr_executed s" "dr_polls (poll s) = Suc (dr_polls s)"
  by (simp_all add: poll_def)

lemma stalled_note_simps [simp]: "dr_states (stalled_note e c s) = dr_states s" "dr_executed (stalled_note e c s) = dr_executed s"
  by (simp_all add: stalled_note_def)

lemma push_state_simps [simp]:
  "dr_states (push_state l st s) = dr_states s @ [\<lparr>us_label = l, us_state = st, us_alphaSpent = None, us_eValue = None\<rparr>]"
  "dr_executed (push_state l st s) = dr_executed s" "dr_polls (push_state l st s) = dr_polls s"
  by (simp_all add: push_state_def)

lemma by_label_Some: "by_label ss l = Some x \<Longrightarrow> x \<in> set ss \<and> us_label x = l"
  by (auto simp: by_label_def dest: find_Some_iff_set)

lemma finish_unit_snoc:
  "l \<notin> us_label ` set ss \<Longrightarrow> us_label x = l \<Longrightarrow>
     finish_unit l r a (ss @ [x]) = ss @ [x\<lparr>us_state := U_terminal (ur_state r), us_alphaSpent := a, us_eValue := ur_eValue r\<rparr>]"
  by (induction ss) auto

definition terminal_entry :: "unit_runtime \<Rightarrow> bool" where
  "terminal_entry x \<longleftrightarrow> (\<exists>t. us_state x = U_terminal t)"

text \<open>A unit that does not throw adds one terminal entry, booked at the alpha the executor reported or at its
  share, and at most one executed run.\<close>

definition unit_step :: "drive_env \<Rightarrow> campaign_spec \<Rightarrow> string \<Rightarrow> drive_state \<Rightarrow> drive_state \<Rightarrow> unit_runtime \<Rightarrow> bool" where
  "unit_step e c l s s' x \<longleftrightarrow> dr_states s' = dr_states s @ [x] \<and> us_label x = l \<and> terminal_entry x \<and> dr_polls s' = dr_polls s \<and>
     length (dr_executed s') \<le> Suc (length (dr_executed s)) \<and>
     (us_alphaSpent x = None \<or> us_alphaSpent x = share_of c l \<or>
      (\<exists>spec db r. fst (de_execute e spec db) = Inr r \<and> ur_alphaSpent r \<noteq> None \<and> us_alphaSpent x = ur_alphaSpent r))"

lemma fail_unit_step:
  "unit_step e c l s (fail_unit e c l err s) \<lparr>us_label = l, us_state = U_terminal T_failed, us_alphaSpent = None, us_eValue = None\<rparr>"
  by (simp add: unit_step_def fail_unit_def terminal_entry_def)

lemma run_unit_spec_step:
  assumes "run_unit_spec e c l i sp s = (Inr (), s')" "l \<notin> us_label ` set (dr_states s)"
  shows "\<exists>x r db. unit_step e c l s s' x \<and> fst (de_execute e sp db) = Inr r \<and> us_state x = U_terminal (ur_state r) \<and>
    length (dr_executed s') = Suc (length (dr_executed s)) \<and> us_alphaSpent x = (case ur_alphaSpent r of Some a \<Rightarrow> Some a | None \<Rightarrow> share_of c l)"
proof -
  let ?s1 = "note_campaign e c ''campaign_unit_started'' [(''unit'', JStr l), (''specId'', JStr i)] (push_state l U_running s)"
  obtain res db where ex: "de_execute e sp (dr_db ?s1) = (res, db)" by (cases "de_execute e sp (dr_db ?s1)")
  obtain r where r: "res = Inr r" using assms(1) ex by (cases res) (simp_all add: run_unit_spec_def Let_def)
  let ?a = "case ur_alphaSpent r of Some a \<Rightarrow> Some a | None \<Rightarrow> share_of c l"
  let ?x = "\<lparr>us_label = l, us_state = U_terminal (ur_state r), us_alphaSpent = ?a, us_eValue = ur_eValue r\<rparr>"
  have f: "finish_unit l r a (dr_states s @ [\<lparr>us_label = l, us_state = U_running, us_alphaSpent = None, us_eValue = None\<rparr>]) =
      dr_states s @ [\<lparr>us_label = l, us_state = U_terminal (ur_state r), us_alphaSpent = a, us_eValue = ur_eValue r\<rparr>]" for a
    using finish_unit_snoc [OF assms(2)] by simp
  have s': "dr_states s' = dr_states s @ [?x]" "dr_executed s' = dr_executed s @ [ur_experimentRunId r]" "dr_polls s' = dr_polls s"
    using assms(1) by (auto simp: run_unit_spec_def Let_def ex r f)
  have "fst (de_execute e sp (dr_db ?s1)) = Inr r" by (simp add: ex r)
  moreover have "unit_step e c l s s' ?x"
  proof (cases "ur_alphaSpent r")
    case None
    then show ?thesis by (simp add: unit_step_def s' terminal_entry_def)
  next
    case (Some a)
    then have "\<exists>spec db r. fst (de_execute e spec db) = Inr r \<and> ur_alphaSpent r \<noteq> None \<and> us_alphaSpent ?x = ur_alphaSpent r"
      using calculation by (intro exI [of _ sp] exI [of _ "dr_db ?s1"] exI [of _ r]) simp
    then show ?thesis unfolding unit_step_def by (simp add: s' terminal_entry_def)
  qed
  ultimately show ?thesis by (intro exI [of _ ?x] exI [of _ r] exI [of _ "dr_db ?s1"]) (simp add: s')
qed

lemma run_unit_step:
  assumes "run_unit e c l s = (Inr (), s')" "l \<notin> us_label ` set (dr_states s)"
  shows "\<exists>x. unit_step e c l s s' x"
proof -
  obtain u where u: "List.find (\<lambda>u. cu_label u = l) (cs_units c) = Some u"
    using assms(1) by (cases "List.find (\<lambda>u. cu_label u = l) (cs_units c)") (simp_all add: run_unit_def)
  show ?thesis
  proof (cases "de_resolve e (cu_experimentSpecId u) (dr_db s)")
    case None
    then have "\<exists>err. s' = fail_unit e c l err s" using assms(1) by (auto simp: run_unit_def u)
    then show ?thesis using fail_unit_step by (elim exE, hypsubst) (rule exI)
  next
    case (Some sp)
    show ?thesis
    proof (cases "over_spends e c l sp")
      case True
      then have "\<exists>err. s' = fail_unit e c l err s" using assms(1) Some by (auto simp: run_unit_def u Let_def)
      then show ?thesis using fail_unit_step by (elim exE, hypsubst) (rule exI)
    next
      case False
      then have "run_unit_spec e c l (cu_experimentSpecId u) sp s = (Inr (), s')"
        using assms(1) Some by (simp add: run_unit_def u Let_def)
      from run_unit_spec_step [OF this assms(2)] show ?thesis by blast
    qed
  qed
qed

section \<open>Order of execution\<close>

definition deps_done :: "campaign_spec \<Rightarrow> unit_runtime list \<Rightarrow> string \<Rightarrow> bool" where
  "deps_done c ss l \<longleftrightarrow> (\<forall>u \<in> set (cs_units c). cu_label u = l \<longrightarrow>
     (\<forall>d \<in> set (cu_dependsOn u). \<exists>x \<in> set ss. us_label x = d \<and> us_state x = U_completed))"

text \<open>Every entry was started once, for a unit of the campaign, with its dependencies completed before it and
  no stop rule in force.\<close>

definition in_order :: "campaign_spec \<Rightarrow> unit_runtime list \<Rightarrow> bool" where
  "in_order c ss \<longleftrightarrow> (\<forall>xs s ys. ss = xs @ s # ys \<longrightarrow>
     us_label s \<in> set (labels c) \<and> us_label s \<notin> us_label ` set xs \<and> terminal_entry s \<and> deps_done c xs (us_label s) \<and>
     cd_stop (nextDecision c xs) = None)"

lemma in_order_Nil [simp]: "in_order c []"
  by (simp add: in_order_def)

lemma in_order_snoc:
  "in_order c (ss @ [s]) \<longleftrightarrow> in_order c ss \<and> us_label s \<in> set (labels c) \<and> us_label s \<notin> us_label ` set ss \<and> terminal_entry s \<and>
     deps_done c ss (us_label s) \<and> cd_stop (nextDecision c ss) = None" (is "?l \<longleftrightarrow> ?r")
proof
  assume l: ?l
  have "in_order c ss"
    unfolding in_order_def
  proof (intro allI impI)
    fix xs x ys
    assume "ss = xs @ x # ys"
    then have "ss @ [s] = xs @ x # (ys @ [s])" by simp
    with l show "us_label x \<in> set (labels c) \<and> us_label x \<notin> us_label ` set xs \<and> terminal_entry x \<and> deps_done c xs (us_label x) \<and>
        cd_stop (nextDecision c xs) = None" unfolding in_order_def by blast
  qed
  moreover have "ss @ [s] = ss @ s # []" by simp
  ultimately show ?r using l unfolding in_order_def by blast
next
  assume r: ?r
  show ?l
    unfolding in_order_def
  proof (intro allI impI)
    fix xs x ys
    assume e: "ss @ [s] = xs @ x # ys"
    show "us_label x \<in> set (labels c) \<and> us_label x \<notin> us_label ` set xs \<and> terminal_entry x \<and> deps_done c xs (us_label x) \<and>
        cd_stop (nextDecision c xs) = None"
    proof (cases ys rule: rev_cases)
      case Nil
      then show ?thesis using e r by simp
    next
      case (snoc zs z)
      then have "ss = xs @ x # zs" using e by simp
      then show ?thesis using r unfolding in_order_def by blast
    qed
  qed
qed

lemma in_order_terminal: "in_order c ss \<Longrightarrow> x \<in> set ss \<Longrightarrow> terminal_entry x"
  by (induction ss rule: rev_induct) (auto simp: in_order_snoc)

lemma in_order_distinct: "in_order c ss \<Longrightarrow> distinct (map us_label ss) \<and> us_label ` set ss \<subseteq> set (labels c)"
  by (induction ss rule: rev_induct) (auto simp: in_order_snoc)

definition ready :: "campaign_spec \<Rightarrow> unit_runtime list \<Rightarrow> string \<Rightarrow> bool" where
  "ready c ss l \<longleftrightarrow> l \<in> set (labels c) \<and> l \<notin> us_label ` set ss \<and> deps_done c ss l"

lemma deps_done_append: "deps_done c ss l \<Longrightarrow> deps_done c (ss @ zs) l"
  unfolding deps_done_def set_append by blast

lemma ready_snoc: "ready c ss l \<Longrightarrow> us_label x \<noteq> l \<Longrightarrow> ready c (ss @ [x]) l"
  using deps_done_append [of c ss l "[x]"] by (auto simp: ready_def)

lemma runnable_ready:
  assumes "in_order c ss" "distinct (labels c)" "l \<in> set (runnableUnits c ss)"
  shows "ready c ss l"
proof -
  obtain u where u: "u \<in> set (cs_units c)" "cu_label u = l" "state_of ss l = U_pending" "depsSatisfied u ss"
    using assms(3) by (auto simp: runnableUnits_def)
  have fresh: "l \<notin> us_label ` set ss"
  proof
    assume "l \<in> us_label ` set ss"
    then obtain x where "List.find (\<lambda>s. us_label s = l) ss = Some x" "x \<in> set ss"
      by (cases "List.find (\<lambda>s. us_label s = l) ss") (auto simp: find_None_set dest: find_Some_iff_set)
    then show False using in_order_terminal [OF assms(1), of x] u(3) by (auto simp: state_of_def terminal_entry_def)
  qed
  have same: "u' = u" if "u' \<in> set (cs_units c)" "cu_label u' = l" for u'
    using assms(2) u(1,2) that by (auto simp: labels_def distinct_map inj_on_def)
  have finished: "\<exists>x \<in> set ss. us_label x = d \<and> us_state x = U_completed" if "d \<in> set (cu_dependsOn u)" for d
  proof -
    have "map_option us_state (by_label ss d) = Some U_completed" using u(4) that by (simp add: depsSatisfied_def list_all_iff)
    then show ?thesis using by_label_Some [of ss d] by auto
  qed
  have "deps_done c ss l" unfolding deps_done_def
  proof (intro ballI impI)
    fix u' d
    assume "u' \<in> set (cs_units c)" "cu_label u' = l" "d \<in> set (cu_dependsOn u')"
    then have "d \<in> set (cu_dependsOn u)" using same by blast
    then show "\<exists>x \<in> set ss. us_label x = d \<and> us_state x = U_completed" by (rule finished)
  qed
  moreover have "l \<in> set (labels c)" using u(1,2) by (auto simp: labels_def)
  ultimately show ?thesis using fresh by (simp add: ready_def)
qed

lemma decision_runnable:
  "set (cd_runnable (nextDecision c ss)) \<subseteq> set (runnableUnits c ss)"
  "distinct (labels c) \<Longrightarrow> distinct (cd_runnable (nextDecision c ss))"
proof -
  let ?r = "cd_runnable (nextDecision c ss)"
  have r: "?r = [] \<or> (\<exists>P. ?r = filter P (runnableUnits c ss))"
    by (auto simp: nextDecision_def decideCampaign_def Let_def)
  then show "set ?r \<subseteq> set (runnableUnits c ss)" by auto
  assume "distinct (labels c)"
  then have "distinct (runnableUnits c ss)"
    by (simp add: runnableUnits_def labels_def distinct_map_filter)
  with r show "distinct ?r" by auto
qed


section \<open>The whole drive\<close>

definition booked :: "drive_env \<Rightarrow> campaign_spec \<Rightarrow> unit_runtime \<Rightarrow> bool" where
  "booked e c x \<longleftrightarrow> us_alphaSpent x = None \<or> us_alphaSpent x = share_of c (us_label x) \<or>
     (\<exists>spec db r. fst (de_execute e spec db) = Inr r \<and> ur_alphaSpent r \<noteq> None \<and> us_alphaSpent x = ur_alphaSpent r)"

definition drive_ok :: "drive_env \<Rightarrow> campaign_spec \<Rightarrow> drive_state \<Rightarrow> bool" where
  "drive_ok e c s \<longleftrightarrow> in_order c (dr_states s) \<and> length (dr_executed s) \<le> length (dr_states s) \<and> list_all (booked e c) (dr_states s)"

lemma drive_ok_same [simp]:
  "drive_ok e c (poll s) = drive_ok e c s" "drive_ok e c (note_stop e' c' r s) = drive_ok e c s"
  "drive_ok e c (stalled_note e' c' s) = drive_ok e c s"
  by (simp_all add: drive_ok_def)

lemma unit_step_ok:
  assumes "drive_ok e c s" "unit_step e c l s s' x" "ready c (dr_states s) l" "cd_stop (nextDecision c (dr_states s)) = None"
  shows "drive_ok e c s'"
  using assms by (simp add: drive_ok_def unit_step_def in_order_snoc ready_def booked_def)

lemma run_units_ok:
  assumes "run_units e c ls s = (x, s')" "\<And>err. x \<noteq> Threw err" "drive_ok e c s" "distinct ls" "\<forall>l \<in> set ls. ready c (dr_states s) l"
  shows "drive_ok e c s'"
  using assms
proof (induction ls arbitrary: s)
  case (Cons l ls)
  show ?case
  proof (cases "de_cancel e (dr_polls s) \<or> cd_stop (nextDecision c (dr_states s)) \<noteq> None")
    case True
    then show ?thesis using Cons.prems(1,3) by (auto split: if_splits)
  next
    case False
    obtain s1 where r: "run_unit e c l (poll s) = (Inr (), s1)" "run_units e c ls s1 = (x, s')"
      using Cons.prems(1,2) False by (auto split: prod.splits sum.splits)
    obtain y where y: "unit_step e c l (poll s) s1 y"
      using run_unit_step [OF r(1)] Cons.prems(5) by (auto simp: ready_def)
    have ok: "drive_ok e c s1"
      by (rule unit_step_ok [OF _ y]) (use Cons.prems(3,5) False in simp_all)
    have "\<forall>k \<in> set ls. ready c (dr_states s1) k"
      using Cons.prems(4,5) y by (auto simp: unit_step_def intro!: ready_snoc)
    then show ?thesis using Cons.IH [OF r(2) Cons.prems(2) ok] Cons.prems(4) by simp
  qed
qed simp

lemma drive_rounds_ok:
  assumes "drive_rounds e c n s = (x, s')" "\<And>err. x \<noteq> Threw err" "drive_ok e c s" "distinct (labels c)"
  shows "drive_ok e c s'"
  using assms(1,2,3)
proof (induction n arbitrary: s)
  case (Suc n)
  let ?d = "nextDecision c (dr_states s)"
  show ?case
  proof (cases "de_cancel e (dr_polls s) \<or> cd_stop ?d \<noteq> None \<or> cd_runnable ?d = []")
    case True
    then show ?thesis using Suc.prems(1,3) by (auto simp: Let_def split: if_splits option.splits)
  next
    case False
    obtain y s1 where r: "run_units e c (cd_runnable ?d) (poll s) = (y, s1)" by (cases "run_units e c (cd_runnable ?d) (poll s)")
    have o: "in_order c (dr_states s)" using Suc.prems(3) by (simp add: drive_ok_def)
    have y: "y \<noteq> Threw err" for err
    proof
      assume "y = Threw err"
      then have "x = Threw err" using Suc.prems(1) False r by (auto simp: Let_def)
      then show False using Suc.prems(2) by blast
    qed
    have ok: "drive_ok e c s1"
      by (rule run_units_ok [OF r y])
        (use Suc.prems(3) decision_runnable [of c "dr_states s"] runnable_ready [OF o assms(4)] assms(4) in auto)
    show ?thesis
    proof (cases y)
      case Go
      then have "drive_rounds e c n s1 = (x, s')" using Suc.prems(1) False r by (simp add: Let_def)
      then show ?thesis using Suc.IH Suc.prems(2) ok by blast
    next
      case (Stopped q)
      then show ?thesis using Suc.prems(1) False r ok by (simp add: Let_def)
    next
      case (Threw q)
      then show ?thesis using y by blast
    qed
  qed
qed simp

lemma driveCampaign_ok:
  assumes "CampaignSpec c" "driveCampaign e c db = (Inr out, db')"
  shows "in_order c (co_unitStates out) \<and> length (co_executedRunIds out) \<le> length (co_unitStates out) \<and> list_all (booked e c) (co_unitStates out)"
proof -
  let ?s0 = "\<lparr>dr_states = [], dr_executed = [], dr_db = db, dr_polls = 0, dr_ticks = 0\<rparr>"
  obtain x s where r: "drive_rounds e c (length (cs_units c)) ?s0 = (x, s)" by (cases "drive_rounds e c (length (cs_units c)) ?s0")
  have x: "x \<noteq> Threw err" for err using assms(2) r by (auto simp: driveCampaign_def)
  have d: "distinct (labels c)" using assms(1) by (simp add: CampaignSpec_def units_refine_def labels_def)
  have "drive_ok e c s" by (rule drive_rounds_ok [OF r x _ d]) (simp add: drive_ok_def)
  moreover have "co_unitStates out = dr_states s \<and> co_executedRunIds out = dr_executed s"
    using assms(2) r by (cases x) (auto simp: driveCampaign_def outcome_of_def Let_def split: option.splits)
  ultimately show ?thesis by (simp add: drive_ok_def)
qed

text \<open>C14. A campaign runs its units in order and never past a stop: in every outcome of a valid campaign each
  unit was started at most once, ended in a terminal state, was started only after all its dependencies had
  completed and while no stop rule held, and no more experiments were executed than units were started.\<close>

theorem campaign_runs_in_order:
  assumes "CampaignSpec c" "driveCampaign e c db = (Inr out, db')"
  shows "distinct (map us_label (co_unitStates out)) \<and> us_label ` set (co_unitStates out) \<subseteq> set (labels c) \<and>
    length (co_executedRunIds out) \<le> length (co_unitStates out) \<and> length (co_unitStates out) \<le> length (cs_units c) \<and>
    (\<forall>xs s ys. co_unitStates out = xs @ s # ys \<longrightarrow>
       (\<exists>t. us_state s = U_terminal t) \<and> cd_stop (nextDecision c xs) = None \<and>
       (\<forall>u \<in> set (cs_units c). cu_label u = us_label s \<longrightarrow>
          (\<forall>d \<in> set (cu_dependsOn u). \<exists>x \<in> set xs. us_label x = d \<and> us_state x = U_completed)))"
proof -
  note ok = driveCampaign_ok [OF assms]
  then have d: "distinct (map us_label (co_unitStates out))" "us_label ` set (co_unitStates out) \<subseteq> set (labels c)"
    using in_order_distinct by auto
  then have "length (co_unitStates out) \<le> length (cs_units c)"
    using card_mono [OF _ d(2)] distinct_card [OF d(1)] card_length [of "labels c"] by (simp add: labels_def)
  then show ?thesis using ok d unfolding in_order_def deps_done_def terminal_entry_def by blast
qed


section \<open>Progress\<close>

fun unit_topo :: "campaign_unit list \<Rightarrow> string list \<Rightarrow> bool" where
  "unit_topo us [] = True"
| "unit_topo us (l # v) = (unit_topo us v \<and> (\<forall>u \<in> set us. cu_label u = l \<longrightarrow> set (cu_dependsOn u) \<subseteq> set v))"

lemma unit_of_unique:
  assumes "distinct (map cu_label us)" "u \<in> set us"
  shows "unit_of us (cu_label u) = Some u"
  using assms find_unique_key [of cu_label "rev us" u] by (simp add: unit_of_def flip: rev_map)

lemma dfs_topo:
  "dfs us visiting visited l = Some v \<Longrightarrow> distinct (map cu_label us) \<Longrightarrow> unit_topo us visited \<Longrightarrow>
     unit_topo us v \<and> set visited \<subseteq> set v \<and> l \<in> set v"
  "dfs_all us visiting visited ds = Some v \<Longrightarrow> distinct (map cu_label us) \<Longrightarrow> unit_topo us visited \<Longrightarrow>
     unit_topo us v \<and> set visited \<subseteq> set v \<and> set ds \<subseteq> set v"
proof (induction us visiting visited l and us visiting visited ds arbitrary: v and v rule: dfs_dfs_all.induct)
  case (1 us visiting visited l)
  show ?case
  proof (cases "l \<in> set visited")
    case True
    then show ?thesis using "1.prems" by (simp add: dfs.simps)
  next
    case False
    then obtain u v' where u: "unit_of us l = Some u" "dfs_all us (l # visiting) visited (cu_dependsOn u) = Some v'" "v = l # v'" "l \<notin> set visiting"
      using "1.prems"(1) by (auto simp: dfs.simps split: if_splits option.splits)
    have t: "unit_topo us v' \<and> set visited \<subseteq> set v' \<and> set (cu_dependsOn u) \<subseteq> set v'"
      using "1.IH" [OF False u(4) u(1) u(2) "1.prems"(2,3)] .
    have "u' = u" if "u' \<in> set us" "cu_label u' = l" for u'
      using unit_of_unique [OF "1.prems"(2) that(1)] that(2) u(1) by simp
    then show ?thesis using t u(3) by auto
  qed
next
  case (2 us visiting visited)
  then show ?case by simp
next
  case (3 us visiting visited d ds)
  obtain w where w: "dfs us visiting visited d = Some w" "dfs_all us visiting w ds = Some v"
    using "3.prems"(1) by (auto split: option.splits)
  have "unit_topo us w \<and> set visited \<subseteq> set w \<and> d \<in> set w" using "3.IH"(1) [OF w(1) "3.prems"(2,3)] .
  moreover from this have "unit_topo us v \<and> set w \<subseteq> set v \<and> set ds \<subseteq> set v" using "3.IH"(2) [OF w(1) w(2) "3.prems"(2)] by blast
  ultimately show ?case by auto
qed

text \<open>While some unit has not been started, one of those has all its dependencies among the started ones.\<close>

lemma next_unit_exists:
  assumes "units_refine us" "l \<in> cu_label ` set us" "l \<notin> S"
  shows "\<exists>u \<in> set us. cu_label u \<notin> S \<and> set (cu_dependsOn u) \<subseteq> S"
proof -
  obtain v where v: "dfs_all us [] [] (map cu_label us) = Some v" using assms(1) by (auto simp: units_refine_def)
  have t: "unit_topo us v" "cu_label ` set us \<subseteq> set v"
    using dfs_topo(2) [OF v] assms(1) by (simp_all add: units_refine_def)
  let ?P = "\<lambda>x. x \<in> cu_label ` set us \<and> x \<notin> S"
  have "\<exists>x \<in> set v. ?P x" using t(2) assms(2,3) by blast
  then obtain ys x zs where s: "v = ys @ x # zs" "?P x" "\<forall>z \<in> set zs. \<not> ?P z" using split_list_last_prop [of v ?P] by blast
  obtain u where u: "u \<in> set us" "cu_label u = x" using s(2) by blast
  have "unit_topo us (x # zs)" using t(1) unfolding s(1) by (induction ys) auto
  then have "set (cu_dependsOn u) \<subseteq> set zs" using u by simp
  moreover have "set (cu_dependsOn u) \<subseteq> cu_label ` set us"
  proof
    fix d
    assume "d \<in> set (cu_dependsOn u)"
    then obtain u' where "unit_of us d = Some u'" using assms(1) u(1) by (auto simp: units_refine_def list_all_iff)
    then show "d \<in> cu_label ` set us" using unit_of_Some by blast
  qed
  ultimately have "set (cu_dependsOn u) \<subseteq> S" using s(3) by blast
  then show ?thesis using u s(2) by blast
qed

definition all_completed :: "unit_runtime list \<Rightarrow> bool" where
  "all_completed ss \<longleftrightarrow> (\<forall>x \<in> set ss. us_state x = U_completed)"

lemma by_label_completed:
  assumes "all_completed ss"
  shows "map_option us_state (by_label ss l) = (if l \<in> us_label ` set ss then Some U_completed else None)"
proof (cases "by_label ss l")
  case None
  then show ?thesis by (auto simp: by_label_def find_None_set)
next
  case (Some x)
  from by_label_Some [OF this] have "x \<in> set ss" "us_label x = l" by simp_all
  then show ?thesis using assms Some by (auto simp: all_completed_def)
qed

lemma first_stop_Some: "first_stop c ss x rs = Some r \<Longrightarrow> \<exists>k. stop_by c ss x k = Some r"
  by (induction rs) (auto split: option.splits)

lemma no_early_stop:
  assumes "all_completed ss" "\<forall>t. cs_policy c \<noteq> E_value_accumulation t" "cd_stop (nextDecision c ss) = Some r"
  shows "set (labels c) \<subseteq> us_label ` set ss"
proof -
  have f: "\<not> xf_budgetExhausted (driver_flags c ss)" "\<not> xf_unitsExhausted (driver_flags c ss)" "\<not> xf_eValueReached (driver_flags c ss)"
    using assms(2) by (auto simp: driver_flags_def eValueReached_def split: cross_unit_policy.splits)
  have "evaluateStop c ss (driver_flags c ss) = Some r"
    using assms(3) by (auto simp: nextDecision_def decideCampaign_def Let_def split: if_splits)
  then have "first_stop c ss (driver_flags c ss) (cs_stopRules c) = Some r"
    using assms(2) by (auto simp: evaluateStop_def split: cross_unit_policy.splits)
  then obtain k where "stop_by c ss (driver_flags c ss) k = Some r"
    using first_stop_Some by blast
  then have "all_terminal c ss"
    by (cases k) (auto simp: f by_label_completed [OF assms(1)] split: if_splits cross_unit_policy.splits)
  then have t: "is_terminal (by_label ss (cu_label u))" if "u \<in> set (cs_units c)" for u
    using that by (simp add: all_terminal_def list_all_iff)
  have "cu_label u \<in> us_label ` set ss" if u: "u \<in> set (cs_units c)" for u
  proof -
    obtain x where "by_label ss (cu_label u) = Some x" using t [OF u] by (auto simp: is_terminal_def split: option.splits)
    from by_label_Some [OF this] show ?thesis by (metis image_eqI)
  qed
  then show ?thesis by (auto simp: labels_def)
qed


text \<open>What the liveness of a campaign needs of its surroundings: nobody cancels, every frozen specification is
  found within its share, and every experiment completes.\<close>

definition cooperative :: "drive_env \<Rightarrow> campaign_spec \<Rightarrow> bool" where
  "cooperative e c \<longleftrightarrow> (\<forall>n. \<not> de_cancel e n) \<and>
     (\<forall>i db. \<exists>sp. de_resolve e i db = Some sp \<and> (\<forall>l. \<not> over_spends e c l sp)) \<and>
     (\<forall>sp db. \<exists>r. fst (de_execute e sp db) = Inr r \<and> ur_state r = T_completed)"

definition good :: "campaign_spec \<Rightarrow> drive_state \<Rightarrow> bool" where
  "good c s \<longleftrightarrow> in_order c (dr_states s) \<and> all_completed (dr_states s) \<and> length (dr_executed s) = length (dr_states s)"

definition covered :: "campaign_spec \<Rightarrow> drive_state \<Rightarrow> bool" where
  "covered c s \<longleftrightarrow> set (labels c) \<subseteq> us_label ` set (dr_states s)"

lemma good_same [simp]:
  "good c (poll s) = good c s" "good c (note_stop e c' r s) = good c s" "good c (stalled_note e c' s) = good c s"
  "covered c (poll s) = covered c s" "covered c (note_stop e c' r s) = covered c s" "covered c (stalled_note e c' s) = covered c s"
  by (simp_all add: good_def covered_def)

lemma run_unit_completes:
  assumes "cooperative e c" "ready c (dr_states s) l" "good c s" "cd_stop (nextDecision c (dr_states s)) = None"
  shows "\<exists>x s'. run_unit e c l s = (Inr (), s') \<and> dr_states s' = dr_states s @ [x] \<and> us_label x = l \<and> good c s'"
proof -
  have "l \<in> set (labels c)" using assms(2) by (simp add: ready_def)
  then obtain u where u: "List.find (\<lambda>u. cu_label u = l) (cs_units c) = Some u"
    by (cases "List.find (\<lambda>u. cu_label u = l) (cs_units c)") (auto simp: find_None_set labels_def)
  obtain sp where sp: "de_resolve e (cu_experimentSpecId u) (dr_db s) = Some sp" "\<not> over_spends e c l sp"
    using assms(1) unfolding cooperative_def by metis
  have ru: "run_unit e c l s = run_unit_spec e c l (cu_experimentSpecId u) sp s" by (simp add: run_unit_def u Let_def sp)
  let ?s1 = "note_campaign e c ''campaign_unit_started'' [(''unit'', JStr l), (''specId'', JStr (cu_experimentSpecId u))] (push_state l U_running s)"
  obtain r where "fst (de_execute e sp (dr_db ?s1)) = Inr r" using assms(1) unfolding cooperative_def by metis
  then obtain s' where s': "run_unit_spec e c l (cu_experimentSpecId u) sp s = (Inr (), s')"
    by (cases "de_execute e sp (dr_db ?s1)") (simp add: run_unit_spec_def Let_def)
  obtain x r' db where x: "unit_step e c l s s' x" "fst (de_execute e sp db) = Inr r'" "us_state x = U_terminal (ur_state r')"
      "length (dr_executed s') = Suc (length (dr_executed s))"
    using run_unit_spec_step [OF s'] assms(2) unfolding ready_def by blast
  have "ur_state r' = T_completed" using assms(1) x(2) unfolding cooperative_def by (metis sum.inject(2))
  then have "good c s'" using x assms(2-4) by (auto simp: good_def unit_step_def in_order_snoc ready_def all_completed_def)
  then show ?thesis using s' x(1) by (auto simp: ru unit_step_def)
qed

lemma run_units_completes:
  assumes "cooperative e c" "\<forall>t. cs_policy c \<noteq> E_value_accumulation t" "good c s" "distinct ls" "\<forall>l \<in> set ls. ready c (dr_states s) l"
  shows "\<exists>x s'. run_units e c ls s = (x, s') \<and> good c s' \<and>
    (x = Go \<and> length (dr_states s') = length (dr_states s) + length ls \<or> (\<exists>r. x = Stopped r) \<and> covered c s')"
  using assms(3-5)
proof (induction ls arbitrary: s)
  case (Cons l ls)
  have nc: "\<not> de_cancel e (dr_polls s)" using assms(1) by (simp add: cooperative_def)
  show ?case
  proof (cases "cd_stop (nextDecision c (dr_states s))")
    case (Some r)
    have "covered c s" using no_early_stop [OF _ assms(2) Some] Cons.prems(1) by (simp add: good_def covered_def)
    then show ?thesis using nc Some Cons.prems(1) by simp
  next
    case None
    obtain x s1 where r: "run_unit e c l (poll s) = (Inr (), s1)" "dr_states s1 = dr_states s @ [x]" "us_label x = l" "good c s1"
      using run_unit_completes [OF assms(1), of "poll s" l] Cons.prems(1,3) None by auto
    have "\<forall>k \<in> set ls. ready c (dr_states s1) k" using Cons.prems(2,3) r(2,3) by (auto intro!: ready_snoc)
    from Cons.IH [OF r(4) _ this] Cons.prems(2) show ?thesis using nc None r(1,2) by auto
  qed
qed simp


lemma fresh_label:
  "l \<notin> us_label ` set ss \<Longrightarrow> by_label ss l = None" "l \<notin> us_label ` set ss \<Longrightarrow> List.find (\<lambda>s. us_label s = l) ss = None"
  by (auto simp: by_label_def find_None_set image_iff)

lemma map_of_units:
  "distinct (map cu_label us) \<Longrightarrow> u \<in> set us \<Longrightarrow> map_of (map (\<lambda>u. (cu_label u, f u)) us) (cu_label u) = Some (f u)"
  by (intro map_of_is_SomeI) (auto simp: comp_def)

lemma budget_open:
  assumes "CampaignSpec c" "u \<in> set (cs_units c)" "cu_label u \<notin> us_label ` set ss"
  shows "case map_of (alphaLedger c ss) (cu_label u) of None \<Rightarrow> False | Some None \<Rightarrow> True | Some (Some a) \<Rightarrow> 0 < a"
proof -
  have d: "distinct (map cu_label (cs_units c))" using assms(1) by (simp add: CampaignSpec_def units_refine_def)
  note fresh = fresh_label(1) [OF assms(3)]
  show ?thesis
  proof (cases "cs_policy c")
    case (Alpha_spending shares family)
    then have "cu_label u \<in> set (map fst shares)" "list_all (\<lambda>s. 0 < snd s) shares"
      using assms(1,2) by (auto simp: CampaignSpec_def campaign_shape_def labels_def list_all_iff)
    then obtain a where m: "map_of shares (cu_label u) = Some a"
      by (cases "map_of shares (cu_label u)") (auto simp: map_of_eq_None_iff)
    have "0 < a" using map_of_SomeD [OF m] \<open>list_all (\<lambda>s. 0 < snd s) shares\<close> by (auto simp: list_all_iff)
    then show ?thesis by (simp add: alphaLedger_def Alpha_spending map_of_units [OF d assms(2)] fresh m Let_def)
  qed (simp_all add: alphaLedger_def map_of_units [OF d assms(2)])
qed

lemma decision_progress:
  assumes "CampaignSpec c" "\<forall>t. cs_policy c \<noteq> E_value_accumulation t" "all_completed ss" "\<not> set (labels c) \<subseteq> us_label ` set ss"
  shows "cd_stop (nextDecision c ss) = None \<and> cd_runnable (nextDecision c ss) \<noteq> []"
proof -
  have stop: "cd_stop (nextDecision c ss) = None"
    using no_early_stop [OF assms(3,2)] assms(4) by (cases "cd_stop (nextDecision c ss)") auto
  obtain u where u: "u \<in> set (cs_units c)" "cu_label u \<notin> us_label ` set ss" "set (cu_dependsOn u) \<subseteq> us_label ` set ss"
  proof -
    obtain l where "l \<in> cu_label ` set (cs_units c)" "l \<notin> us_label ` set ss" using assms(4) by (auto simp: labels_def)
    moreover have "units_refine (cs_units c)" using assms(1) by (simp add: CampaignSpec_def)
    ultimately show thesis using next_unit_exists that by blast
  qed
  have "state_of ss (cu_label u) = U_pending" by (simp add: state_of_def fresh_label(2) [OF u(2)])
  moreover have "depsSatisfied u ss"
    using u(3) by_label_completed [OF assms(3)] by (auto simp: depsSatisfied_def list_all_iff)
  ultimately have "cu_label u \<in> set (runnableUnits c ss)" using u(1) by (auto simp: runnableUnits_def)
  then have "cu_label u \<in> set (cd_runnable (nextDecision c ss))"
    using stop budget_open [OF assms(1) u(1,2)] by (auto simp: nextDecision_def decideCampaign_def Let_def split: if_splits)
  then show ?thesis using stop by auto
qed

lemma covered_rest:
  assumes "in_order c ss" "distinct (labels c)" "set (labels c) \<subseteq> us_label ` set ss"
  shows "cd_runnable (nextDecision c ss) = []"
proof (rule ccontr)
  assume "cd_runnable (nextDecision c ss) \<noteq> []"
  then obtain l where "l \<in> set (cd_runnable (nextDecision c ss))" by (cases "cd_runnable (nextDecision c ss)") auto
  then have "ready c ss l" using decision_runnable(1) runnable_ready [OF assms(1,2)] by blast
  then show False using assms(3) by (auto simp: ready_def)
qed

lemma drive_rounds_completes:
  assumes "CampaignSpec c" "cooperative e c" "\<forall>t. cs_policy c \<noteq> E_value_accumulation t"
    and "good c s" "length (cs_units c) \<le> n + length (dr_states s)"
  shows "\<exists>x s'. drive_rounds e c n s = (x, s') \<and> (\<forall>err. x \<noteq> Threw err) \<and> good c s' \<and> covered c s'"
  using assms(4,5)
proof (induction n arbitrary: s)
  case 0
  have o: "distinct (map us_label (dr_states s))" "us_label ` set (dr_states s) \<subseteq> set (labels c)"
    using 0(1) in_order_distinct by (auto simp: good_def)
  have "card (set (labels c)) \<le> card (us_label ` set (dr_states s))"
    using 0(2) distinct_card [OF o(1)] card_length [of "labels c"] by (simp add: labels_def)
  then have "us_label ` set (dr_states s) = set (labels c)" using card_seteq [OF _ o(2)] by simp
  then show ?case using 0(1) by (simp add: covered_def)
next
  case (Suc n)
  let ?d = "nextDecision c (dr_states s)"
  have d: "distinct (labels c)" using assms(1) by (simp add: CampaignSpec_def units_refine_def labels_def)
  have nc: "\<not> de_cancel e (dr_polls s)" using assms(2) by (simp add: cooperative_def)
  have g: "in_order c (dr_states s)" "all_completed (dr_states s)" using Suc.prems(1) by (simp_all add: good_def)
  show ?case
  proof (cases "covered c s")
    case True
    then have "cd_runnable ?d = []" using covered_rest [OF g(1) d] by (simp add: covered_def)
    then show ?thesis using nc True Suc.prems(1) by (cases "cd_stop ?d") (simp_all add: Let_def)
  next
    case False
    then have p: "cd_stop ?d = None" "cd_runnable ?d \<noteq> []"
      using decision_progress [OF assms(1,3) g(2)] by (simp_all add: covered_def)
    have "\<forall>l \<in> set (cd_runnable ?d). ready c (dr_states (poll s)) l"
      using decision_runnable(1) runnable_ready [OF g(1) d] by fastforce
    from run_units_completes [OF assms(2,3) _ decision_runnable(2) [OF d] this] Suc.prems(1)
    obtain x s1 where r: "run_units e c (cd_runnable ?d) (poll s) = (x, s1)" "good c s1"
        "x = Go \<and> length (dr_states s1) = length (dr_states s) + length (cd_runnable ?d) \<or> (\<exists>r. x = Stopped r) \<and> covered c s1"
      by auto
    show ?thesis
    proof (cases "x = Go")
      case True
      then have "length (cs_units c) \<le> n + length (dr_states s1)" using r(3) p(2) Suc.prems(2) by (cases "cd_runnable ?d") auto
      from Suc.IH [OF r(2) this] show ?thesis using nc p r(1) True by (simp add: Let_def)
    next
      case False
      then obtain q where "x = Stopped q" "covered c s1" using r(3) by blast
      then show ?thesis using nc p r(1,2) by (simp add: Let_def)
    qed
  qed
qed

lemma driveCampaign_completes:
  assumes "CampaignSpec c" "cooperative e c" "\<forall>t. cs_policy c \<noteq> E_value_accumulation t"
  shows "\<exists>out db'. driveCampaign e c db = (Inr out, db') \<and> set (map us_label (co_unitStates out)) = set (labels c) \<and>
    (\<forall>s \<in> set (co_unitStates out). us_state s = U_completed) \<and> length (co_executedRunIds out) = length (cs_units c)"
proof -
  let ?s0 = "\<lparr>dr_states = [], dr_executed = [], dr_db = db, dr_polls = 0, dr_ticks = 0\<rparr>"
  have "good c ?s0" by (simp add: good_def all_completed_def)
  from drive_rounds_completes [OF assms this, of "length (cs_units c)"]
  obtain x s where r: "drive_rounds e c (length (cs_units c)) ?s0 = (x, s)" "\<forall>err. x \<noteq> Threw err" "good c s" "covered c s" by auto
  obtain out db' where o: "driveCampaign e c db = (Inr out, db')" "co_unitStates out = dr_states s" "co_executedRunIds out = dr_executed s"
    using r(1,2) by (cases x) (auto simp: driveCampaign_def outcome_of_def Let_def split: option.splits)
  have d: "distinct (map us_label (dr_states s))" "us_label ` set (dr_states s) = set (labels c)"
    using r(3,4) in_order_distinct [of c "dr_states s"] unfolding good_def covered_def by blast+
  have "distinct (labels c)" using assms(1) by (simp add: CampaignSpec_def units_refine_def labels_def)
  then have "length (dr_states s) = length (cs_units c)"
    using distinct_card [OF d(1)] d(2) distinct_card [of "labels c"] by (simp add: labels_def)
  then show ?thesis using o d r(3) by (auto simp: good_def all_completed_def)
qed


text \<open>C29. A valid campaign runs to the end: when nobody cancels, every frozen specification is found and stays
  within its share, and every experiment completes, the drive returns with every unit of the campaign
  completed and exactly one experiment run for each, whatever order its dependencies impose and whatever
  stop rules it declares (under the primary-comparison and alpha-spending policies).\<close>

theorem campaign_completes:
  assumes "CampaignSpec c" "cooperative e c" "\<forall>t. cs_policy c \<noteq> E_value_accumulation t"
  shows "\<exists>out db'. driveCampaign e c db = (Inr out, db') \<and> set (map us_label (co_unitStates out)) = set (labels c) \<and>
    (\<forall>s \<in> set (co_unitStates out). us_state s = U_completed) \<and> length (co_executedRunIds out) = length (cs_units c)"
  by (rule driveCampaign_completes [OF assms])

section \<open>The family-wise budget\<close>

definition spent_alpha :: "unit_runtime \<Rightarrow> rat" where
  "spent_alpha s = (case us_alphaSpent s of None \<Rightarrow> 0 | Some a \<Rightarrow> a)"

lemma sum_shares_le:
  fixes shares :: "(string \<times> rat) list"
  assumes "distinct (map fst shares)" "\<forall>s \<in> set shares. 0 \<le> snd s" "distinct ls" "set ls \<subseteq> set (map fst shares)"
  shows "sum_list (map (\<lambda>l. the (map_of shares l)) ls) \<le> sum_list (map snd shares)"
proof -
  let ?f = "\<lambda>l. the (map_of shares l)"
  have nonneg: "0 \<le> ?f l" if l: "l \<in> set (map fst shares)" for l
  proof -
    obtain a where "map_of shares l = Some a" using l by (cases "map_of shares l") (auto simp: map_of_eq_None_iff)
    then show ?thesis using map_of_SomeD assms(2) by force
  qed
  have "sum_list (map ?f ls) = sum ?f (set ls)" using assms(3) by (simp add: sum_list_distinct_conv_sum_set)
  also have "\<dots> \<le> sum ?f (set (map fst shares))" by (rule sum_mono2) (use assms(4) nonneg in auto)
  also have "\<dots> = sum_list (map ?f (map fst shares))" by (rule sum_list_distinct_conv_sum_set [OF assms(1), symmetric])
  also have "\<dots> = sum_list (map snd shares)"
    using assms(1) by (intro arg_cong [of _ _ sum_list]) (auto simp: map_of_is_SomeI)
  finally show ?thesis .
qed

lemma default_execute_alpha: "fst (default_execute X f sp db) = Inr r \<Longrightarrow> ur_alphaSpent r = None"
  by (cases "X sp db") (auto simp: default_execute_def default_result_def Let_def split: sum.splits)

text \<open>Alpha spending never exceeds the family budget: with the repository's own executor, in every outcome of
  a valid campaign under the alpha-spending policy each unit is booked at most at its declared share, and
  all bookings together with what earlier campaigns spent stay within the family alpha (to the tolerance
  the schema grants).\<close>

theorem campaign_alpha_bounded:
  assumes "CampaignSpec c" "cs_policy c = Alpha_spending shares family" "de_execute e = default_execute X eValueOf"
    and "driveCampaign e c db = (Inr out, db')"
  shows "(\<forall>s \<in> set (co_unitStates out). \<exists>a. map_of shares (us_label s) = Some a \<and> spent_alpha s \<le> a) \<and>
    sum_list (map spent_alpha (co_unitStates out)) + cs_priorAlphaSpent c \<le> family + 1 / 10 ^ 9"
proof -
  let ?ss = "co_unitStates out"
  note ok = driveCampaign_ok [OF assms(1,4)]
  have o: "distinct (map us_label ?ss)" "us_label ` set ?ss \<subseteq> set (labels c)" using ok in_order_distinct by auto
  have p: "distinct (map fst shares)" "\<forall>s \<in> set shares. 0 < snd s" "set (labels c) \<subseteq> set (map fst shares)"
      "sum_list (map snd shares) + cs_priorAlphaSpent c \<le> family + 1 / 10 ^ 9"
    using assms(1,2) by (simp_all add: CampaignSpec_def campaign_shape_def list_all_iff)
  have b: "\<exists>a. map_of shares (us_label s) = Some a \<and> spent_alpha s \<le> a" if s: "s \<in> set ?ss" for s
  proof -
    obtain a where a: "map_of shares (us_label s) = Some a"
      using s o(2) p(3) by (cases "map_of shares (us_label s)") (auto simp: map_of_eq_None_iff)
    have "0 < a" using map_of_SomeD [OF a] p(2) by force
    moreover have "us_alphaSpent s = None \<or> us_alphaSpent s = Some a"
      using ok s default_execute_alpha a unfolding list_all_iff booked_def assms(3) share_of_def assms(2) by fastforce
    ultimately show ?thesis using a by (auto simp: spent_alpha_def)
  qed
  have "sum_list (map spent_alpha ?ss) \<le> sum_list (map (\<lambda>s. the (map_of shares (us_label s))) ?ss)"
    by (rule sum_list_mono) (use b in force)
  also have "\<dots> = sum_list (map (\<lambda>l. the (map_of shares l)) (map us_label ?ss))" by (simp add: comp_def)
  also have "\<dots> \<le> sum_list (map snd shares)"
    by (rule sum_shares_le) (use p o in \<open>auto simp: less_imp_le\<close>)
  finally show ?thesis using b p(4) by auto
qed


section \<open>A concrete campaign, for the witnesses\<close>

definition demo_unit :: "string \<Rightarrow> string list \<Rightarrow> campaign_unit" where
  "demo_unit l ds = \<lparr>cu_label = l, cu_hypothesisId = ''hyp_1'', cu_experimentSpecId = ''xsp_1'', cu_dependsOn = ds\<rparr>"

definition demo_campaign :: campaign_spec where
  "demo_campaign = \<lparr>cs_id = ''cmp_1'', cs_runId = ''run_1'', cs_questionId = None,
     cs_units = [demo_unit ''ablation'' [''primary''], demo_unit ''primary'' []],
     cs_policy = Alpha_spending [(''primary'', 3 / 100), (''ablation'', 1 / 100)] (5 / 100), cs_priorAlphaSpent = 0,
     cs_stopRules = [(All_units_terminal, None)], cs_createdAt = ''2026-01-01T00:00:00Z'', cs_frozenAt = None, cs_planHash = None\<rparr>"

definition demo_env :: drive_env where
  "demo_env = \<lparr>de_cancel = \<lambda>_. False, de_now = \<lambda>n. int n, de_sha = \<lambda>s. s, de_resolve = \<lambda>i db. Some JNull, de_alphaOf = \<lambda>_. None,
     de_execute = default_execute (\<lambda>sp db. (Inr (JObj [(''id'', JStr ''xrun_1''), (''status'', JStr ''completed'')], []), db)) (\<lambda>_. None),
     de_number = \<lambda>_. JNull, de_text = \<lambda>_. [], de_precise = \<lambda>_. []\<rparr>"

lemma demo_campaign_valid: "CampaignSpec demo_campaign"
  by code_simp

lemma demo_cooperative: "cooperative demo_env c"
proof -
  have "jstr ''status'' (JObj [(''id'', JStr ''xrun_1''), (''status'', JStr ''completed'')]) = Some ''completed''" by code_simp
  then show ?thesis
    by (auto simp: cooperative_def demo_env_def over_spends_def default_execute_def default_result_def Let_def stateFromReports_def str_at_def
        split: option.splits)
qed

lemma demo_policy: "\<forall>t. cs_policy demo_campaign \<noteq> E_value_accumulation t"
  by (simp add: demo_campaign_def)

theorem campaign_completes_witness:
  "\<exists>out db'. driveCampaign demo_env demo_campaign empty_store = (Inr out, db') \<and> length (co_executedRunIds out) = 2"
  using campaign_completes [OF demo_campaign_valid demo_cooperative demo_policy, of empty_store]
  by (auto simp: demo_campaign_def)

lemma demo_drive: "\<exists>out db'. driveCampaign demo_env demo_campaign empty_store = (Inr out, db')"
  using driveCampaign_completes [OF demo_campaign_valid demo_cooperative demo_policy] by blast

theorem campaign_runs_in_order_witness:
  "\<exists>out db'. driveCampaign demo_env demo_campaign empty_store = (Inr out, db') \<and> length (co_unitStates out) \<le> 2"
proof -
  obtain out db' where d: "driveCampaign demo_env demo_campaign empty_store = (Inr out, db')" using demo_drive by blast
  have "length (cs_units demo_campaign) = 2" by (simp add: demo_campaign_def)
  with campaign_runs_in_order [OF demo_campaign_valid d] d show ?thesis by auto
qed

theorem campaign_alpha_bounded_witness:
  "\<exists>out db'. driveCampaign demo_env demo_campaign empty_store = (Inr out, db') \<and>
     sum_list (map spent_alpha (co_unitStates out)) \<le> 5 / 100 + 1 / 10 ^ 9"
proof -
  obtain out db' where d: "driveCampaign demo_env demo_campaign empty_store = (Inr out, db')" using demo_drive by blast
  have p: "cs_policy demo_campaign = Alpha_spending [(''primary'', 3 / 100), (''ablation'', 1 / 100)] (5 / 100)"
    by (simp add: demo_campaign_def)
  have e: "de_execute demo_env = default_execute (\<lambda>sp db. (Inr (JObj [(''id'', JStr ''xrun_1''), (''status'', JStr ''completed'')], []), db)) (\<lambda>_. None)"
    by (simp add: demo_env_def)
  have "cs_priorAlphaSpent demo_campaign = 0" by (simp add: demo_campaign_def)
  with campaign_alpha_bounded [OF demo_campaign_valid p e d] d show ?thesis by auto
qed

text \<open>A threshold of one, which the schema accepts, stops an e-value campaign before any unit has run: the
  product of no e-values is one.\<close>

lemma e_value_threshold_one_stops_at_once:
  "cs_policy c = E_value_accumulation 1 \<Longrightarrow> cd_stop (nextDecision c []) = Some (Product_reached 1 1)"
  by (simp add: nextDecision_def decideCampaign_def evaluateStop_def completed_product_def Let_def)

end
