(* ===== verification/Tool_Integrations.thy ===== *)
theory Tool_Integrations
  imports Objects Hooks
begin

text \<open>
  Tool integrations, \<^verbatim>\<open>src/src/domain/tool-integration.ts\<close>, and the expansion of a plugin's manifest into
  them, \<^verbatim>\<open>src/src/plugins/manifest.ts\<close> and \<^verbatim>\<open>src/src/plugins/import.ts\<close>: the schemas of the four kinds,
  the checks across their members, the instantiation of a draft and the masking of secrets. Whether a text
  is a URL is decided by the platform and is an argument; the wording of a schema violation is not kept.
\<close>

section \<open>Reading JSON\<close>

definition trim :: "string \<Rightarrow> string" where
  "trim s = rev (dropWhile is_space (rev (dropWhile is_space s)))"

definition absent :: "string \<Rightarrow> json \<Rightarrow> bool" where
  "absent k v \<longleftrightarrow> jget k v \<in> {None, Some JUndef}"

definition parse_text :: "nat \<Rightarrow> nat \<Rightarrow> string \<Rightarrow> json \<Rightarrow> string option" where
  "parse_text lo hi k v = Option.bind (jstr k v) (\<lambda>s. if length_in lo hi s then Some s else None)"

definition optional :: "(string \<Rightarrow> json \<Rightarrow> 'a option) \<Rightarrow> string \<Rightarrow> json \<Rightarrow> 'a option option" where
  "optional p k v = (if absent k v then Some None else map_option Some (p k v))"

definition defaulted :: "'a \<Rightarrow> (string \<Rightarrow> json \<Rightarrow> 'a option) \<Rightarrow> string \<Rightarrow> json \<Rightarrow> 'a option" where
  "defaulted d p k v = (if absent k v then Some d else p k v)"

definition jint :: "string \<Rightarrow> json \<Rightarrow> int option" where
  "jint k v = (case jget k v of Some (JNum n) \<Rightarrow> Some n | _ \<Rightarrow> None)"

definition jbool :: "string \<Rightarrow> json \<Rightarrow> bool option" where
  "jbool k v = (case jget k v of Some (JBool b) \<Rightarrow> Some b | _ \<Rightarrow> None)"

fun as_text :: "json \<Rightarrow> string option" where
  "as_text (JStr s) = Some s"
| "as_text _ = None"

definition jtexts :: "string \<Rightarrow> json \<Rightarrow> string list option" where
  "jtexts k v = (case jget k v of Some (JArr xs) \<Rightarrow> those (map as_text xs) | _ \<Rightarrow> None)"

definition jrecord :: "string \<Rightarrow> json \<Rightarrow> (string \<times> string) list option" where
  "jrecord k v = (case jget k v of Some (JObj kvs) \<Rightarrow> those (map (\<lambda>(a, x). map_option (Pair a) (as_text x)) kvs) | _ \<Rightarrow> None)"

definition choice :: "(string \<times> 'a) list \<Rightarrow> string \<Rightarrow> json \<Rightarrow> 'a option" where
  "choice alts k v = Option.bind (jstr k v) (map_of alts)"

definition opt_max :: "nat \<Rightarrow> string option \<Rightarrow> bool" where
  "opt_max n x = (case x of None \<Rightarrow> True | Some s \<Rightarrow> length s \<le> n)"

definition lower :: "char \<Rightarrow> bool" where
  "lower c \<longleftrightarrow> 97 \<le> (of_char c :: nat) \<and> (of_char c :: nat) \<le> 122"

text \<open>One character of a first class, then between two bounds of a second class.\<close>

fun shaped :: "(char \<Rightarrow> bool) \<Rightarrow> (char \<Rightarrow> bool) \<Rightarrow> nat \<Rightarrow> nat \<Rightarrow> string \<Rightarrow> bool" where
  "shaped p q lo hi [] = False"
| "shaped p q lo hi (c # cs) \<longleftrightarrow> p c \<and> length_in lo hi cs \<and> list_all q cs"

section \<open>The four kinds\<close>

datatype tool_created_by = By_researcher | By_conversation | By_plugin_import

record tool_provenance =
  tp_conversationId :: "id option"
  tp_messageId :: "id option"
  tp_pluginId :: "string option"

record tool_test_record =
  tt_at :: string
  tt_ok :: bool
  tt_summary :: string

datatype mcp_transport = Stdio | Http

datatype command_scope = Palette | Composer | Both_scopes

record mcp_server =
  ms_transport :: mcp_transport
  ms_command :: "string option"
  ms_args :: "string list"
  ms_env :: "(string \<times> string) list"
  ms_url :: "string option"
  ms_headers :: "(string \<times> string) list"
  ms_toolNamePrefix :: "string option"
  ms_riskClass :: tool_risk_class
  ms_timeoutMs :: int
  ms_lastTest :: "tool_test_record option"

record skill_integration =
  si_name :: string
  si_description :: string
  si_whenToUse :: "string option"
  si_priority :: int
  si_body :: string

record command_integration =
  ci_name :: string
  ci_template :: string
  ci_scope :: command_scope

record hook_integration =
  hi_event :: hook_event
  hi_toolPattern :: "string option"
  hi_riskClass :: "tool_risk_class option"
  hi_action :: hook_action

datatype tool_kind =
    Mcp_server mcp_server | Skill skill_integration | Command command_integration | Hook_rule hook_integration

record tool_draft =
  td_label :: string
  td_enabled :: bool
  td_provenance :: "tool_provenance option"
  td_kind :: tool_kind

record tool_integration =
  tg_id :: id
  tg_createdAt :: string
  tg_updatedAt :: string
  tg_createdBy :: tool_created_by
  tg_draft :: tool_draft

definition ToolProvenance :: "tool_provenance \<Rightarrow> bool" where
  "ToolProvenance p \<longleftrightarrow>
     (case tp_conversationId p of None \<Rightarrow> True | Some c \<Rightarrow> prefixed_id ''conv_'' c) \<and>
     (case tp_messageId p of None \<Rightarrow> True | Some m \<Rightarrow> prefixed_id ''cmsg_'' m) \<and>
     (case tp_pluginId p of None \<Rightarrow> True | Some s \<Rightarrow> length_in 1 200 s)"

definition ToolTestRecord :: "tool_test_record \<Rightarrow> bool" where
  "ToolTestRecord t \<longleftrightarrow> zod_datetime (tt_at t) \<and> length_in 1 1000 (tt_summary t)"

definition pairs_ok :: "(string \<times> string) list \<Rightarrow> bool" where
  "pairs_ok kvs = list_all (\<lambda>(k, v). length_in 1 100 k \<and> length v \<le> 2000) kvs"

definition McpServerIntegration :: "(string \<Rightarrow> bool) \<Rightarrow> mcp_server \<Rightarrow> bool" where
  "McpServerIntegration isUrl m \<longleftrightarrow>
     (case ms_command m of None \<Rightarrow> True | Some c \<Rightarrow> length_in 1 500 c) \<and>
     length (ms_args m) \<le> 50 \<and> list_all (length_in 1 500) (ms_args m) \<and> pairs_ok (ms_env m) \<and>
     (case ms_url m of None \<Rightarrow> True | Some u \<Rightarrow> isUrl u \<and> length u \<le> 2000) \<and> pairs_ok (ms_headers m) \<and>
     (case ms_toolNamePrefix m of None \<Rightarrow> True | Some p \<Rightarrow> shaped lower (\<lambda>c. id_char c \<or> c = CHR ''_'') 0 15 p) \<and>
     1000 \<le> ms_timeoutMs m \<and> ms_timeoutMs m \<le> 120000 \<and>
     (case ms_lastTest m of None \<Rightarrow> True | Some t \<Rightarrow> ToolTestRecord t)"

definition kebab :: "char \<Rightarrow> bool" where
  "kebab c \<longleftrightarrow> id_char c \<or> c = CHR ''-''"

definition SkillIntegration :: "skill_integration \<Rightarrow> bool" where
  "SkillIntegration s \<longleftrightarrow> shaped id_char kebab 1 63 (si_name s) \<and> length_in 1 500 (si_description s) \<and>
     opt_max 1000 (si_whenToUse s) \<and> 0 \<le> si_priority s \<and> si_priority s \<le> 100 \<and> length_in 1 50000 (si_body s)"

definition CommandIntegration :: "command_integration \<Rightarrow> bool" where
  "CommandIntegration c \<longleftrightarrow> shaped lower kebab 1 31 (ci_name c) \<and> length_in 1 10000 (ci_template c)"

fun HookAction :: "hook_action \<Rightarrow> bool" where
  "HookAction (Block r) \<longleftrightarrow> length_in 1 500 r"
| "HookAction (Require_approval r) \<longleftrightarrow> opt_max 500 r"
| "HookAction (Log n) \<longleftrightarrow> opt_max 500 n"

definition HookRuleIntegration :: "hook_integration \<Rightarrow> bool" where
  "HookRuleIntegration h \<longleftrightarrow> (case hi_toolPattern h of None \<Rightarrow> True | Some p \<Rightarrow> length_in 1 200 p) \<and> HookAction (hi_action h)"

fun kind_ok :: "(string \<Rightarrow> bool) \<Rightarrow> tool_kind \<Rightarrow> bool" where
  "kind_ok isUrl (Mcp_server m) = McpServerIntegration isUrl m"
| "kind_ok isUrl (Skill s) = SkillIntegration s"
| "kind_ok isUrl (Command c) = CommandIntegration c"
| "kind_ok isUrl (Hook_rule h) = HookRuleIntegration h"

definition draft_ok :: "(string \<Rightarrow> bool) \<Rightarrow> tool_draft \<Rightarrow> bool" where
  "draft_ok isUrl d \<longleftrightarrow> length_in 1 80 (td_label d) \<and>
     (case td_provenance d of None \<Rightarrow> True | Some p \<Rightarrow> ToolProvenance p) \<and> kind_ok isUrl (td_kind d)"

text \<open>An identifier of the shared shape: the prefix and 20 to 32 characters.\<close>

definition idOf :: "string \<Rightarrow> string \<Rightarrow> bool" where
  "idOf p s \<longleftrightarrow> prefixed_id (p @ ''_'') s \<and> length_in 20 32 (drop (Suc (length p)) s)"

definition ToolIntegrationSchema :: "(string \<Rightarrow> bool) \<Rightarrow> tool_integration \<Rightarrow> bool" where
  "ToolIntegrationSchema isUrl g \<longleftrightarrow> idOf ''tint'' (tg_id g) \<and> zod_datetime (tg_createdAt g) \<and> zod_datetime (tg_updatedAt g) \<and>
     draft_ok isUrl (tg_draft g)"

section \<open>Checks across members\<close>

definition hook_rule_of :: "string \<Rightarrow> bool \<Rightarrow> hook_integration \<Rightarrow> hook_rule" where
  "hook_rule_of label enabled h = \<lparr>hr_label = label, hr_enabled = enabled, hr_event = hi_event h, hr_toolPattern = hi_toolPattern h,
     hr_riskClass = hi_riskClass h, hr_action = hi_action h\<rparr>"

fun issue_text :: "integration_issue \<Rightarrow> string" where
  "issue_text MatchMissing = ''match requires toolPattern and/or riskClass''"
| "issue_text TurnEndOnlyLogs = ''turn_end rules can only log''"
| "issue_text AfterToolBlocks = ''after_tool rules run post-execution '' @ emdash @ '' use require_approval on before_tool instead''"

fun integrationSemanticIssues :: "tool_kind \<Rightarrow> string list" where
  "integrationSemanticIssues (Mcp_server m) =
     (if ms_transport m = Stdio \<and> (ms_command m = None \<or> ms_command m = Some []) then [''stdio transport requires a command''] else []) @
     (if ms_transport m = Http \<and> ms_url m = None then [''http transport requires a url''] else [])"
| "integrationSemanticIssues (Hook_rule h) = map issue_text (hookRuleSemanticIssues (hook_rule_of [] False h))"
| "integrationSemanticIssues _ = []"

section \<open>Drafts\<close>

definition riskClasses :: "(string \<times> tool_risk_class) list" where
  "riskClasses = [(''read'', Risk_read), (''edit'', Risk_edit), (''execute'', Risk_execute), (''destructive'', Risk_destructive)]"

definition read_action :: "json \<Rightarrow> hook_action option" where
  "read_action v =
     (if jstr ''type'' v = Some ''block'' then map_option Block (jstr ''reason'' v)
      else if jstr ''type'' v = Some ''require_approval'' then map_option Require_approval (optional jstr ''reason'' v)
      else if jstr ''type'' v = Some ''log'' then map_option Log (optional jstr ''note'' v)
      else None)"

definition read_mcp :: "json \<Rightarrow> mcp_server option" where
  "read_mcp v =
     Option.bind (choice [(''stdio'', Stdio), (''http'', Http)] ''transport'' v) (\<lambda>tr.
     Option.bind (optional jstr ''command'' v) (\<lambda>c.
     Option.bind (defaulted [] jtexts ''args'' v) (\<lambda>as.
     Option.bind (defaulted [] jrecord ''env'' v) (\<lambda>ev.
     Option.bind (optional jstr ''url'' v) (\<lambda>u.
     Option.bind (defaulted [] jrecord ''headers'' v) (\<lambda>hs.
     Option.bind (optional jstr ''toolNamePrefix'' v) (\<lambda>p.
     Option.bind (defaulted Risk_execute (choice riskClasses) ''riskClass'' v) (\<lambda>r.
     Option.bind (defaulted 30000 jint ''timeoutMs'' v) (\<lambda>t.
       Some \<lparr>ms_transport = tr, ms_command = c, ms_args = as, ms_env = ev, ms_url = u, ms_headers = hs, ms_toolNamePrefix = p,
             ms_riskClass = r, ms_timeoutMs = t, ms_lastTest = None\<rparr>)))))))))"

definition read_skill :: "json \<Rightarrow> skill_integration option" where
  "read_skill v =
     Option.bind (jstr ''name'' v) (\<lambda>n. Option.bind (jstr ''description'' v) (\<lambda>d. Option.bind (optional jstr ''whenToUse'' v) (\<lambda>u.
     Option.bind (defaulted 0 jint ''priority'' v) (\<lambda>p. Option.bind (jstr ''body'' v) (\<lambda>b.
       Some \<lparr>si_name = n, si_description = trim d, si_whenToUse = u, si_priority = p, si_body = b\<rparr>)))))"

definition read_command :: "json \<Rightarrow> command_integration option" where
  "read_command v =
     Option.bind (jstr ''name'' v) (\<lambda>n. Option.bind (jstr ''template'' v) (\<lambda>t.
     Option.bind (defaulted Both_scopes (choice [(''palette'', Palette), (''composer'', Composer), (''both'', Both_scopes)]) ''scope'' v) (\<lambda>s.
       Some \<lparr>ci_name = n, ci_template = t, ci_scope = s\<rparr>)))"

definition read_hook :: "json \<Rightarrow> hook_integration option" where
  "read_hook v =
     Option.bind (choice [(''before_tool'', Before_tool), (''after_tool'', After_tool), (''turn_end'', Turn_end)] ''event'' v) (\<lambda>ev.
     Option.bind (case jget ''match'' v of Some (JObj kvs) \<Rightarrow> Some (JObj kvs) | _ \<Rightarrow> None) (\<lambda>m.
     Option.bind (optional jstr ''toolPattern'' m) (\<lambda>p. Option.bind (optional (choice riskClasses) ''riskClass'' m) (\<lambda>r.
     Option.bind (jget ''action'' v) (\<lambda>a. Option.bind (read_action a) (\<lambda>ac.
       Some \<lparr>hi_event = ev, hi_toolPattern = p, hi_riskClass = r, hi_action = ac\<rparr>))))))"

definition read_kind :: "json \<Rightarrow> tool_kind option" where
  "read_kind v =
     (if jstr ''kind'' v = Some ''mcp_server'' then map_option Mcp_server (read_mcp v)
      else if jstr ''kind'' v = Some ''skill'' then map_option Skill (read_skill v)
      else if jstr ''kind'' v = Some ''command'' then map_option Command (read_command v)
      else if jstr ''kind'' v = Some ''hook_rule'' then map_option Hook_rule (read_hook v)
      else None)"

definition read_provenance :: "string \<Rightarrow> json \<Rightarrow> tool_provenance option" where
  "read_provenance k v =
     Option.bind (case jget k v of Some (JObj kvs) \<Rightarrow> Some (JObj kvs) | _ \<Rightarrow> None) (\<lambda>p.
     Option.bind (optional jstr ''conversationId'' p) (\<lambda>c. Option.bind (optional jstr ''messageId'' p) (\<lambda>m.
     Option.bind (optional jstr ''pluginId'' p) (\<lambda>g.
       Some \<lparr>tp_conversationId = c, tp_messageId = m, tp_pluginId = g\<rparr>))))"

definition ToolIntegrationDraftSchema :: "(string \<Rightarrow> bool) \<Rightarrow> json \<Rightarrow> tool_draft option" where
  "ToolIntegrationDraftSchema isUrl v =
     Option.bind (jstr ''label'' v) (\<lambda>l. Option.bind (jbool ''enabled'' v) (\<lambda>en. Option.bind (optional read_provenance ''provenance'' v) (\<lambda>p.
     Option.bind (read_kind v) (\<lambda>k.
       let d = \<lparr>td_label = trim l, td_enabled = en, td_provenance = p, td_kind = k\<rparr> in if draft_ok isUrl d then Some d else None))))"

definition CreateToolIntegrationArgsSchema :: "(string \<Rightarrow> bool) \<Rightarrow> json \<Rightarrow> (tool_draft \<times> string list) option" where
  "CreateToolIntegrationArgsSchema isUrl v =
     Option.bind (jget ''draft'' v) (\<lambda>dv. Option.bind (ToolIntegrationDraftSchema isUrl dv) (\<lambda>d.
     Option.bind (parse_text 1 2000 ''rationale'' v) (\<lambda>_. Option.bind (defaulted [] jtexts ''warnings'' v) (\<lambda>ws.
       if list_all (\<lambda>w. length w \<le> 500) ws \<and> length ws \<le> 10 then Some (d, ws) else None))))"

fun join :: "string \<Rightarrow> string list \<Rightarrow> string" where
  "join sep [] = []"
| "join sep [x] = x"
| "join sep (x # xs) = x @ sep @ join sep xs"

datatype draft_error = Draft_issues string | Draft_schema

definition instantiateDraft :: "(string \<Rightarrow> bool) \<Rightarrow> tool_draft \<Rightarrow> id \<Rightarrow> tool_created_by \<Rightarrow> tool_provenance option \<Rightarrow> string \<Rightarrow> string \<Rightarrow> draft_error + tool_integration" where
  "instantiateDraft isUrl d i by p at1 at2 =
     (if integrationSemanticIssues (td_kind d) \<noteq> [] then Inl (Draft_issues (''tool integration draft invalid: '' @ join ''; '' (integrationSemanticIssues (td_kind d))))
      else let g = \<lparr>tg_id = i, tg_createdAt = at1, tg_updatedAt = at2, tg_createdBy = by,
                     tg_draft = (case p of None \<Rightarrow> d | Some _ \<Rightarrow> d\<lparr>td_provenance := p\<rparr>)\<rparr> in
           if ToolIntegrationSchema isUrl g then Inr g else Inl Draft_schema)"

section \<open>Secrets\<close>

definition bullets :: string where
  "bullets = concat (replicate 4 [CHR 0xE2, CHR 0x80, CHR 0xA2])"

definition maskSecret :: "string \<Rightarrow> string" where
  "maskSecret v = (if v = [] then [] else bullets @ drop (length v - 4) v)"

fun mask_kind :: "tool_kind \<Rightarrow> tool_kind" where
  "mask_kind (Mcp_server m) = Mcp_server (m\<lparr>ms_env := map (\<lambda>(k, v). (k, maskSecret v)) (ms_env m), ms_headers := map (\<lambda>(k, v). (k, maskSecret v)) (ms_headers m)\<rparr>)"
| "mask_kind k = k"

definition maskIntegrationSecrets :: "tool_integration \<Rightarrow> tool_integration" where
  "maskIntegrationSecrets g = g\<lparr>tg_draft := (tg_draft g)\<lparr>td_kind := mask_kind (td_kind (tg_draft g))\<rparr>\<rparr>"


section \<open>Plugins\<close>

text \<open>A manifest as the schema leaves it, with the shapes of the kinds it bundles; a command's own label is not used.\<close>

record plugin_manifest =
  pm_name :: string
  pm_version :: string
  pm_license :: string
  pm_sourceUri :: "string option"
  pm_skills :: "skill_integration list"
  pm_commands :: "(string \<times> command_integration) list"
  pm_hookRules :: "(string \<times> hook_integration) list"
  pm_mcpServers :: "(string \<times> mcp_server) list"
  pm_entry :: "string option"

fun digits_then :: "(string \<Rightarrow> bool) \<Rightarrow> string \<Rightarrow> bool" where
  "digits_then k s \<longleftrightarrow> takeWhile is_digit s \<noteq> [] \<and> k (dropWhile is_digit s)"

definition semver :: "string \<Rightarrow> bool" where
  "semver s = digits_then (\<lambda>t. t \<noteq> [] \<and> hd t = CHR ''.'' \<and> digits_then (\<lambda>u. u \<noteq> [] \<and> hd u = CHR ''.'' \<and> digits_then (\<lambda>x. x = []) (tl u)) (tl t)) s"

definition word_char :: "char \<Rightarrow> bool" where
  "word_char c \<longleftrightarrow> id_char c \<or> c = CHR ''_'' \<or> 65 \<le> (of_char c :: nat) \<and> (of_char c :: nat) \<le> 90"

definition PluginManifestSchema :: "(string \<Rightarrow> bool) \<Rightarrow> plugin_manifest \<Rightarrow> bool" where
  "PluginManifestSchema isUrl m \<longleftrightarrow>
     shaped id_char kebab 1 63 (pm_name m) \<and> semver (pm_version m) \<and> length_in 1 100 (pm_license m) \<and> opt_max 500 (pm_sourceUri m) \<and>
     length (pm_skills m) \<le> 20 \<and> list_all SkillIntegration (pm_skills m) \<and>
     length (pm_commands m) \<le> 20 \<and> list_all (\<lambda>(l, c). length_in 1 80 l \<and> CommandIntegration c) (pm_commands m) \<and>
     length (pm_hookRules m) \<le> 20 \<and> list_all (\<lambda>(l, h). length_in 1 80 l \<and> HookRuleIntegration h) (pm_hookRules m) \<and>
     length (pm_mcpServers m) \<le> 10 \<and>
     list_all (\<lambda>(l, s). length_in 1 80 l \<and> ms_lastTest s = None \<and> McpServerIntegration isUrl s) (pm_mcpServers m) \<and>
     (case pm_entry m of None \<Rightarrow> True | Some f \<Rightarrow> length_in 1 200 f \<and> list_all (\<lambda>c. word_char c \<or> c = CHR ''.'' \<or> c = CHR ''-'') f)"

definition pluginIdOf :: "plugin_manifest \<Rightarrow> string" where
  "pluginIdOf m = pm_name m @ ''@'' @ pm_version m"

fun squeeze :: "string \<Rightarrow> string" where
  "squeeze (a # b # cs) = (if a = CHR ''_'' \<and> b = CHR ''_'' then squeeze (b # cs) else a # squeeze (b # cs))"
| "squeeze s = s"

definition sanitizePrefix :: "string \<Rightarrow> string" where
  "sanitizePrefix name =
     (let s = take 12 (squeeze (map (\<lambda>c. if id_char c \<or> c = CHR ''_'' then c else CHR ''_'') name));
          raw = rev (dropWhile (\<lambda>c. c = CHR ''_'') (rev s)) in
      if raw \<noteq> [] then raw else ''plugin'')"

datatype import_warning = Skipped_shape string | Skipped_semantics string "string list" | Floored string tool_risk_class

record plugin_host =
  ph_execPath :: string
  ph_hostMain :: string
  ph_newId :: "nat \<Rightarrow> id"

record import_state =
  im_ids :: nat
  im_out :: "tool_integration list"
  im_warnings :: "import_warning list"

definition push :: "(string \<Rightarrow> bool) \<Rightarrow> plugin_host \<Rightarrow> string \<Rightarrow> string \<Rightarrow> string \<Rightarrow> string \<Rightarrow> tool_kind \<Rightarrow> import_state \<Rightarrow> import_state" where
  "push isUrl h pluginId at1 at2 label k s =
     (let s' = s\<lparr>im_ids := Suc (im_ids s)\<rparr>;
          g = \<lparr>tg_id = ph_newId h (im_ids s), tg_createdAt = at1, tg_updatedAt = at2, tg_createdBy = By_plugin_import,
               tg_draft = \<lparr>td_label = trim label, td_enabled = False,
                           td_provenance = Some \<lparr>tp_conversationId = None, tp_messageId = None, tp_pluginId = Some pluginId\<rparr>, td_kind = k\<rparr>\<rparr> in
      if \<not> ToolIntegrationSchema isUrl g then s'\<lparr>im_warnings := im_warnings s @ [Skipped_shape label]\<rparr>
      else if integrationSemanticIssues k \<noteq> [] then s'\<lparr>im_warnings := im_warnings s @ [Skipped_semantics label (integrationSemanticIssues k)]\<rparr>
      else s'\<lparr>im_out := im_out s @ [g]\<rparr>)"

text \<open>A plugin cannot classify its own servers below execution.\<close>

definition floor_risk :: "tool_risk_class \<Rightarrow> tool_risk_class" where
  "floor_risk r = (if r = Risk_read \<or> r = Risk_edit then Risk_execute else r)"

definition push_server :: "(string \<Rightarrow> bool) \<Rightarrow> plugin_host \<Rightarrow> string \<Rightarrow> string \<Rightarrow> string \<Rightarrow> string \<Rightarrow> string \<times> mcp_server \<Rightarrow> import_state \<Rightarrow> import_state" where
  "push_server isUrl h pluginId at1 at2 name ls s =
     (let r = ms_riskClass (snd ls);
          s1 = (if floor_risk r \<noteq> r then s\<lparr>im_warnings := im_warnings s @ [Floored (fst ls) r]\<rparr> else s) in
      push isUrl h pluginId at1 at2 (name @ ''/'' @ fst ls) (Mcp_server ((snd ls)\<lparr>ms_riskClass := floor_risk r\<rparr>)) s1)"

definition entry_server :: "plugin_host \<Rightarrow> string \<Rightarrow> string \<Rightarrow> mcp_server" where
  "entry_server h name dir = \<lparr>ms_transport = Stdio, ms_command = Some (ph_execPath h), ms_args = [ph_hostMain h, dir], ms_env = [], ms_url = None,
     ms_headers = [], ms_toolNamePrefix = Some (sanitizePrefix name), ms_riskClass = Risk_execute, ms_timeoutMs = 30000, ms_lastTest = None\<rparr>"

definition push_all :: "(string \<Rightarrow> bool) \<Rightarrow> plugin_host \<Rightarrow> plugin_manifest \<Rightarrow> string \<Rightarrow> string \<Rightarrow> string \<Rightarrow> import_state \<Rightarrow> import_state" where
  "push_all isUrl h m dir at1 at2 s0 =
     (let p = push isUrl h (pluginIdOf m) at1 at2;
          n = pm_name m;
          s1 = fold (\<lambda>k. p (n @ ''/'' @ si_name k) (Skill k)) (pm_skills m) s0;
          s2 = fold (\<lambda>lc. p (n @ ''/'' @ ci_name (snd lc)) (Command (snd lc))) (pm_commands m) s1;
          s3 = fold (\<lambda>lh. p (n @ ''/'' @ fst lh) (Hook_rule (snd lh))) (pm_hookRules m) s2;
          s4 = fold (push_server isUrl h (pluginIdOf m) at1 at2 n) (pm_mcpServers m) s3 in
      if pm_entry m \<noteq> None then p (n @ '' (entry)'') (Mcp_server (entry_server h n dir)) s4 else s4)"

definition expandPluginManifest :: "(string \<Rightarrow> bool) \<Rightarrow> plugin_host \<Rightarrow> plugin_manifest \<Rightarrow> string \<Rightarrow> string \<Rightarrow> string \<Rightarrow> tool_integration list \<times> import_warning list" where
  "expandPluginManifest isUrl h m dir at1 at2 =
     (let s = push_all isUrl h m dir at1 at2 \<lparr>im_ids = 0, im_out = [], im_warnings = []\<rparr> in (im_out s, im_warnings s))"

text \<open>What every integration a plugin brings has: it is off until the researcher turns it on, it records the
  plugin, its shape and its members are sound, and as a server it asks for at least the execution class.\<close>

definition staged :: "(string \<Rightarrow> bool) \<Rightarrow> string \<Rightarrow> tool_integration \<Rightarrow> bool" where
  "staged isUrl pluginId g \<longleftrightarrow> \<not> td_enabled (tg_draft g) \<and> tg_createdBy g = By_plugin_import \<and>
     map_option tp_pluginId (td_provenance (tg_draft g)) = Some (Some pluginId) \<and>
     ToolIntegrationSchema isUrl g \<and> integrationSemanticIssues (td_kind (tg_draft g)) = [] \<and>
     (case td_kind (tg_draft g) of Mcp_server m \<Rightarrow> ms_riskClass m \<in> {Risk_execute, Risk_destructive} | _ \<Rightarrow> True)"

definition risk_ok :: "tool_kind \<Rightarrow> bool" where
  "risk_ok k = (case k of Mcp_server m \<Rightarrow> ms_riskClass m \<in> {Risk_execute, Risk_destructive} | _ \<Rightarrow> True)"

lemma push_staged:
  assumes "list_all (staged isUrl p) (im_out s)" "risk_ok k"
  shows "list_all (staged isUrl p) (im_out (push isUrl h p at1 at2 l k s))"
  using assms by (cases k) (simp_all add: push_def Let_def staged_def risk_ok_def)

text \<open>Every push leaves one integration or one warning that names it.\<close>

definition skips :: "import_warning list \<Rightarrow> nat" where
  "skips ws = length (filter (\<lambda>w. case w of Floored _ _ \<Rightarrow> False | _ \<Rightarrow> True) ws)"

lemma push_counts:
  "length (im_out (push isUrl h p at1 at2 l k s)) + skips (im_warnings (push isUrl h p at1 at2 l k s)) =
   Suc (length (im_out s) + skips (im_warnings s))"
  by (simp add: push_def Let_def skips_def)

lemma fold_keeps: "(\<And>x s. x \<in> set xs \<Longrightarrow> P s \<Longrightarrow> P (f x s)) \<Longrightarrow> P s \<Longrightarrow> P (fold f xs s)"
  by (induction xs arbitrary: s) auto

lemma fold_counts: "(\<And>x s. c (f x s) = Suc (c s)) \<Longrightarrow> c (fold f xs s) = c s + length xs" for c :: "'s \<Rightarrow> nat"
  by (induction xs arbitrary: s) auto

lemma floor_risk_range: "floor_risk r \<in> {Risk_execute, Risk_destructive}"
  by (cases r) (simp_all add: floor_risk_def)

lemma push_server_staged:
  "list_all (staged isUrl p) (im_out s) \<Longrightarrow> list_all (staged isUrl p) (im_out (push_server isUrl h p at1 at2 n ls s))"
  using floor_risk_range by (simp add: push_server_def Let_def push_staged risk_ok_def)

lemma push_server_counts:
  "length (im_out (push_server isUrl h p at1 at2 n ls s)) + skips (im_warnings (push_server isUrl h p at1 at2 n ls s)) =
   Suc (length (im_out s) + skips (im_warnings s))"
  by (simp add: push_server_def Let_def push_counts, simp add: skips_def)

lemma push_all_staged:
  assumes "list_all (staged isUrl (pluginIdOf m)) (im_out s)"
  shows "list_all (staged isUrl (pluginIdOf m)) (im_out (push_all isUrl h m dir at1 at2 s))"
proof -
  let ?P = "\<lambda>s. list_all (staged isUrl (pluginIdOf m)) (im_out s)"
  have skill: "?P s \<Longrightarrow> ?P (fold (\<lambda>k. push isUrl h (pluginIdOf m) at1 at2 (l k) (Skill k)) ks s)" for l ks s
    by (rule fold_keeps [where P = ?P]) (simp_all add: push_staged risk_ok_def)
  have command: "?P s \<Longrightarrow> ?P (fold (\<lambda>k. push isUrl h (pluginIdOf m) at1 at2 (l k) (Command (snd k))) ks s)" for l s
    and ks :: "(string \<times> command_integration) list"
    by (rule fold_keeps [where P = ?P]) (simp_all add: push_staged risk_ok_def)
  have hook: "?P s \<Longrightarrow> ?P (fold (\<lambda>k. push isUrl h (pluginIdOf m) at1 at2 (l k) (Hook_rule (snd k))) ks s)" for l s
    and ks :: "(string \<times> hook_integration) list"
    by (rule fold_keeps [where P = ?P]) (simp_all add: push_staged risk_ok_def)
  have server: "?P s \<Longrightarrow> ?P (fold (push_server isUrl h (pluginIdOf m) at1 at2 n) ks s)" for n ks s
    by (rule fold_keeps [where P = ?P]) (simp_all add: push_server_staged)
  have "?P (fold (push_server isUrl h (pluginIdOf m) at1 at2 (pm_name m)) (pm_mcpServers m)
     (fold (\<lambda>lh. push isUrl h (pluginIdOf m) at1 at2 (pm_name m @ ''/'' @ fst lh) (Hook_rule (snd lh))) (pm_hookRules m)
      (fold (\<lambda>lc. push isUrl h (pluginIdOf m) at1 at2 (pm_name m @ ''/'' @ ci_name (snd lc)) (Command (snd lc))) (pm_commands m)
       (fold (\<lambda>k. push isUrl h (pluginIdOf m) at1 at2 (pm_name m @ ''/'' @ si_name k) (Skill k)) (pm_skills m) s))))"
    by (rule server, rule hook, rule command, rule skill, rule assms)
  then show ?thesis by (simp add: push_all_def Let_def push_staged risk_ok_def entry_server_def)
qed

lemma push_all_counts:
  fixes m :: plugin_manifest
  defines "c \<equiv> \<lambda>s. length (im_out s) + skips (im_warnings s)"
  shows "c (push_all isUrl h m dir at1 at2 s) = c s + length (pm_skills m) + length (pm_commands m) + length (pm_hookRules m) +
           length (pm_mcpServers m) + (if pm_entry m = None then 0 else 1)"
proof -
  have p: "c (push isUrl h p at1 at2 l k s) = Suc (c s)" for p l k s by (simp add: c_def push_counts)
  have q: "c (push_server isUrl h p at1 at2 n ls s) = Suc (c s)" for p n ls s by (simp add: c_def push_server_counts)
  show ?thesis by (simp add: push_all_def Let_def p q fold_counts [where c = c])
qed

text \<open>C31. Importing a plugin only stages integrations: each one that comes out is disabled, records the plugin it
  came from, satisfies the schema and the checks across members, and no server among them is classified below
  execution whatever the manifest declares. Nothing is lost silently either: every skill, command, rule, server and
  entry of the manifest is in the result or in a warning.\<close>

theorem plugin_import_stages:
  "list_all (staged isUrl (pluginIdOf m)) (fst (expandPluginManifest isUrl h m dir at1 at2)) \<and>
   length (fst (expandPluginManifest isUrl h m dir at1 at2)) + skips (snd (expandPluginManifest isUrl h m dir at1 at2)) =
     length (pm_skills m) + length (pm_commands m) + length (pm_hookRules m) + length (pm_mcpServers m) + (if pm_entry m = None then 0 else 1)"
  using push_all_staged [of isUrl m "\<lparr>im_ids = 0, im_out = [], im_warnings = []\<rparr>" h dir at1 at2]
    push_all_counts [of isUrl h m dir at1 at2 "\<lparr>im_ids = 0, im_out = [], im_warnings = []\<rparr>"]
  by (simp add: expandPluginManifest_def Let_def skips_def)

text \<open>The prefix made from a plugin's name keeps a leading digit, which the schema of a server does not allow, so
  the entry of such a plugin never becomes an integration.\<close>

lemma squeeze_head: "squeeze (c # cs) \<noteq> [] \<and> hd (squeeze (c # cs)) = c"
  by (induction "c # cs" arbitrary: c cs rule: squeeze.induct) auto

lemma strip_end_head: "\<not> P x \<Longrightarrow> \<exists>ys. rev (dropWhile P (rev (x # xs))) = x # ys"
proof -
  assume x: "\<not> P x"
  have "dropWhile P (zs @ [x]) = dropWhile P zs @ [x]" for zs using x by (induction zs) auto
  then show ?thesis by simp
qed

lemma sanitizePrefix_digit:
  assumes "is_digit c"
  shows "\<exists>t. sanitizePrefix (c # cs) = c # t"
proof -
  have c: "id_char c" "c \<noteq> CHR ''_''" using assms by (auto simp: id_char_def is_digit_def)
  define f where "f = map (\<lambda>c. if id_char c \<or> c = CHR ''_'' then c else CHR ''_'') cs"
  obtain ys where s: "squeeze (c # f) = c # ys" using squeeze_head [of c f] by (cases "squeeze (c # f)") auto
  have "take 12 (c # ys) = c # take 11 ys" by simp
  then obtain zs where z: "rev (dropWhile (\<lambda>c. c = CHR ''_'') (rev (take 12 (c # ys)))) = c # zs"
    using strip_end_head [of "\<lambda>c. c = CHR ''_''" c "take 11 ys"] c(2) by metis
  have "map (\<lambda>c. if id_char c \<or> c = CHR ''_'' then c else CHR ''_'') (c # cs) = c # f" by (simp add: f_def c(1))
  then show ?thesis unfolding sanitizePrefix_def Let_def by (simp only: s z list.distinct if_True not_False_eq_True simp_thms) blast
qed

lemma digit_plugin_entry_skipped:
  assumes "pm_name m = c # cs" "is_digit c"
  shows "\<not> ToolIntegrationSchema isUrl \<lparr>tg_id = i, tg_createdAt = at1, tg_updatedAt = at2, tg_createdBy = By_plugin_import,
           tg_draft = \<lparr>td_label = l, td_enabled = False, td_provenance = p, td_kind = Mcp_server (entry_server h (pm_name m) dir)\<rparr>\<rparr>"
proof -
  obtain t where "sanitizePrefix (pm_name m) = c # t" using sanitizePrefix_digit assms by metis
  moreover have "\<not> lower c" using assms(2) by (simp add: lower_def is_digit_def)
  ultimately show ?thesis by (simp add: ToolIntegrationSchema_def draft_ok_def McpServerIntegration_def entry_server_def)
qed

section \<open>Masking\<close>

text \<open>What a masked projection shows depends on the last four characters of a secret alone; a secret of at most
  four characters is therefore shown in full behind the bullets.\<close>

definition same_tail :: "string \<times> string \<Rightarrow> string \<times> string \<Rightarrow> bool" where
  "same_tail a b \<longleftrightarrow> fst a = fst b \<and> (snd a = [] \<longleftrightarrow> snd b = []) \<and> drop (length (snd a) - 4) (snd a) = drop (length (snd b) - 4) (snd b)"

lemma mask_pairs: "list_all2 same_tail xs ys \<Longrightarrow> map (\<lambda>(k, v). (k, maskSecret v)) xs = map (\<lambda>(k, v). (k, maskSecret v)) ys"
  by (induction rule: list_all2_induct) (auto simp: same_tail_def maskSecret_def)

lemma masking_hides:
  assumes "list_all2 same_tail (ms_env a) ev" "list_all2 same_tail (ms_headers a) hs"
  shows "mask_kind (Mcp_server (a\<lparr>ms_env := ev, ms_headers := hs\<rparr>)) = mask_kind (Mcp_server a)"
  using mask_pairs [OF assms(1)] mask_pairs [OF assms(2)] by simp

lemma short_secret_shown: "v \<noteq> [] \<Longrightarrow> length v \<le> 4 \<Longrightarrow> maskSecret v = bullets @ v"
  by (simp add: maskSecret_def)

end
