(* ===== verification/Workspace_Paths.thy ===== *)
theory Workspace_Paths
  imports Tool_Integrations
begin

text \<open>
  The fence around the workspace of \<^verbatim>\<open>src/src/agent/capabilities/workspace-tools.ts\<close>: a relative path is resolved
  lexically against the root, as the platform's \<open>path.resolve\<close> does on POSIX systems for an absolute root, and refused
  when it leaves the root.
\<close>

section \<open>Paths\<close>

fun split_path :: "string \<Rightarrow> string list" where
  "split_path [] = [[]]"
| "split_path (c # cs) = (if c = CHR ''/'' then [] # split_path cs else
     (case split_path cs of [] \<Rightarrow> [[c]] | s # ss \<Rightarrow> (c # s) # ss))"

text \<open>The segments seen so far are kept in reverse; above the root there is nothing to leave.\<close>

fun normalize :: "string list \<Rightarrow> string list \<Rightarrow> string list" where
  "normalize acc [] = rev acc"
| "normalize acc (s # ss) =
     (if s = [] \<or> s = ''.'' then normalize acc ss
      else if s = ''..'' then normalize (tl acc) ss
      else normalize (s # acc) ss)"

definition flat_path :: "string list \<Rightarrow> string" where
  "flat_path ss = concat (map (\<lambda>s. CHR ''/'' # s) ss)"

definition show_path :: "string list \<Rightarrow> string" where
  "show_path ss = (if ss = [] then ''/'' else flat_path ss)"

definition path_resolve :: "string \<Rightarrow> string \<Rightarrow> string" where
  "path_resolve root rel = show_path (normalize [] (split_path (if starts_with rel ''/'' then rel else root @ ''/'' @ rel)))"

definition resolveInsideRoot :: "string \<Rightarrow> string \<Rightarrow> string option" where
  "resolveInsideRoot root rel =
     (let cleaned = trim rel in
      if cleaned = [] then None
      else let resolved = path_resolve root cleaned; rootNorm = path_resolve root root in
           if resolved \<noteq> rootNorm \<and> \<not> starts_with resolved (rootNorm @ ''/'') then None else Some resolved)"

section \<open>Nothing outside the root\<close>

text \<open>A proper segment names an entry of a directory: not empty, no separator, neither the directory nor its parent.\<close>

definition proper :: "string \<Rightarrow> bool" where
  "proper s \<longleftrightarrow> s \<noteq> [] \<and> s \<noteq> ''.'' \<and> s \<noteq> ''..'' \<and> CHR ''/'' \<notin> set s"

lemma split_path_segments: "s \<in> set (split_path p) \<Longrightarrow> CHR ''/'' \<notin> set s"
  by (induction p arbitrary: s) (auto split: if_splits list.splits)

lemma normalize_proper:
  "list_all proper acc \<Longrightarrow> (\<And>s. s \<in> set ss \<Longrightarrow> CHR ''/'' \<notin> set s) \<Longrightarrow> list_all proper (normalize acc ss)"
proof (induction acc ss rule: normalize.induct)
  case (2 acc s ss)
  have "list_all proper (tl acc)" using "2.prems"(1) by (cases acc) auto
  moreover have "CHR ''/'' \<notin> set s" "\<And>x. x \<in> set ss \<Longrightarrow> CHR ''/'' \<notin> set x" using "2.prems"(2) by auto
  moreover have "\<not> (s = [] \<or> s = ''.'') \<Longrightarrow> s \<noteq> ''..'' \<Longrightarrow> list_all proper (s # acc)"
    using \<open>CHR ''/'' \<notin> set s\<close> "2.prems"(1) by (simp add: proper_def [of s])
  ultimately show ?case using "2.IH" "2.prems"(1) by (cases "s = [] \<or> s = ''.''"; cases "s = ''..''") auto
qed simp

lemma path_resolve_proper: "\<exists>ss. path_resolve root rel = show_path ss \<and> list_all proper ss"
proof -
  have "list_all proper (normalize [] (split_path p))" for p
    by (rule normalize_proper) (use split_path_segments in auto)
  then show ?thesis unfolding path_resolve_def by blast
qed

lemma take_segment: "CHR ''/'' \<notin> set a \<Longrightarrow> x = [] \<or> hd x = CHR ''/'' \<Longrightarrow> takeWhile (\<lambda>c. c \<noteq> CHR ''/'') (a @ x) = a"
  by (induction a; cases x) auto

lemma flat_path_head: "flat_path ss = [] \<or> hd (flat_path ss) = CHR ''/''"
  by (cases ss) (auto simp: flat_path_def)

lemma flat_path_prefix:
  assumes "flat_path as = flat_path bs @ CHR ''/'' # rest" "list_all proper as" "list_all proper bs"
  shows "\<exists>cs. as = bs @ cs"
  using assms
proof (induction bs arbitrary: as)
  case (Cons b bs)
  then obtain a as' where as: "as = a # as'" by (cases as) (auto simp: flat_path_def)
  have eq: "a @ flat_path as' = b @ (flat_path bs @ CHR ''/'' # rest)" using Cons.prems(1) by (simp add: flat_path_def as)
  have "CHR ''/'' \<notin> set a" "CHR ''/'' \<notin> set b" using Cons.prems(2,3) by (simp_all add: as proper_def)
  moreover have "hd (flat_path bs @ CHR ''/'' # rest) = CHR ''/''" by (cases bs) (simp_all add: flat_path_def)
  ultimately have "a = b" using eq take_segment flat_path_head by metis
  moreover have "\<exists>cs. as' = bs @ cs" using Cons eq as \<open>a = b\<close> by auto
  ultimately show ?case using as by auto
qed simp

text \<open>C32. The fence holds: whatever the agent asks for, an accepted path is the normalized root itself or the root
  followed by proper names only, so no sequence of parent references and no absolute path leads out of it.\<close>

theorem workspace_fence:
  assumes "resolveInsideRoot root rel = Some p"
  shows "\<exists>rs cs. path_resolve root root = show_path rs \<and> p = show_path (rs @ cs) \<and> list_all proper (rs @ cs)"
proof -
  obtain rs where r: "path_resolve root root = show_path rs" "list_all proper rs" using path_resolve_proper by blast
  obtain ps where p: "path_resolve root (trim rel) = show_path ps" "list_all proper ps" using path_resolve_proper by blast
  have res: "p = show_path ps" and c: "show_path ps = show_path rs \<or> starts_with (show_path ps) (show_path rs @ ''/'')"
    using assms r p by (auto simp: resolveInsideRoot_def Let_def split: if_splits)
  have "\<exists>cs. show_path ps = show_path (rs @ cs) \<and> list_all proper (rs @ cs)"
  proof (cases "show_path ps = show_path rs")
    case True then show ?thesis using r(2) by (metis append_Nil2)
  next
    case False
    then have st: "starts_with (show_path ps) (show_path rs @ ''/'')" using c by blast
    have ps: "ps \<noteq> []" using st by (auto simp: show_path_def starts_with_def flat_path_def split: if_splits)
    have rs: "rs \<noteq> []"
    proof
      assume "rs = []"
      then have "take 2 (flat_path ps) = ''//''" using st ps by (simp add: show_path_def starts_with_def numeral_2_eq_2)
      then show False using ps p(2) by (cases ps; cases "hd ps") (auto simp: flat_path_def proper_def)
    qed
    then have "take (Suc (length (flat_path rs))) (flat_path ps) = flat_path rs @ ''/''"
      using st ps by (simp add: starts_with_def show_path_def)
    then have "flat_path ps = (flat_path rs @ ''/'') @ drop (Suc (length (flat_path rs))) (flat_path ps)"
      using append_take_drop_id by metis
    then obtain rest where "flat_path ps = flat_path rs @ CHR ''/'' # rest" by auto
    then obtain cs where "ps = rs @ cs" using flat_path_prefix p(2) r(2) by blast
    then show ?thesis using p(2) by blast
  qed
  then show ?thesis using r(1) res by auto
qed

theorem workspace_fence_witness:
  "(\<exists>rs cs. path_resolve ''/ws'' ''/ws'' = show_path rs \<and> ''/ws/b'' = show_path (rs @ cs) \<and> list_all proper (rs @ cs)) \<and>
   resolveInsideRoot ''/ws'' ''../etc'' = None"
proof -
  have "resolveInsideRoot ''/ws'' '' a/../b '' = Some ''/ws/b''" by code_simp
  moreover have "resolveInsideRoot ''/ws'' ''../etc'' = None" by code_simp
  ultimately show ?thesis using workspace_fence by blast
qed

text \<open>Relative paths made of proper names alone are never refused.\<close>

end
