(* ===== verification/Conversations.thy ===== *)
theory Conversations
  imports Workspace_Paths
begin

text \<open>
  The conversation between the researcher and the resident agent, \<^verbatim>\<open>src/src/domain/conversation.ts\<close> and
  \<^verbatim>\<open>src/src/server/conversations.ts\<close>: messages that are stored before the model runs, replies that land after it,
  and the proposals through which every action of the agent passes the researcher.

  A workspace holds the conversation, automation and tool-integration objects as typed tables beside the
  store. Everything awaited (the model turn, the creation of a run, a shell command) is an argument that maps
  the workspace to a result and a new workspace, so whatever other writers do meanwhile is covered. Clock
  readings and generated identifiers come from counters. The wording of messages that are not plain ASCII is
  an argument.
\<close>

section \<open>Documents\<close>

record conv_seed =
  sd_title :: string
  sd_identifiers :: "(string \<times> string) list"
  sd_text :: "string option"
  sd_year :: "int option"
  sd_authors :: "string list"

datatype action_kind = Launch_research | Cancel_run | Create_automation | Cancel_automation | Create_tool_integration | Run_command

datatype proposal_status = Pending | Executed | Rejected | Failed_proposal

datatype risk_level = Risk_low | Risk_moderate | Risk_high

record conv_proposal =
  cp_id :: id
  cp_kind :: action_kind
  cp_title :: string
  cp_args :: json
  cp_status :: proposal_status
  cp_result :: "string option"
  cp_autoApproved :: bool
  cp_riskLevel :: "risk_level option"
  cp_argSummary :: "(string \<times> string) list option"
  cp_createdAt :: string
  cp_resolvedAt :: "string option"

datatype message_role = Researcher | Agent | Automation_role

record tool_trace =
  tr_tool :: string
  tr_ok :: bool
  tr_summary :: "string option"
  tr_durationMs :: "nat option"

record message_usage =
  mu_provider :: string
  mu_modelId :: string
  mu_latencyMs :: int
  mu_inputTokens :: "int option"
  mu_outputTokens :: "int option"
  mu_modelCalls :: "nat option"
  mu_toolCalls :: "nat option"

record conv_candidate =
  cc_id :: string
  cc_text :: string
  cc_rationale :: string

text \<open>A member that is absent when empty is a list.\<close>

record conv_message =
  cm_id :: id
  cm_role :: message_role
  cm_content :: string
  cm_seeds :: "conv_seed list"
  cm_candidates :: "conv_candidate list"
  cm_toolTrace :: "tool_trace list"
  cm_proposals :: "conv_proposal list"
  cm_usage :: "message_usage option"
  cm_thinking :: "string option"
  cm_replyError :: "string option"
  cm_replyDraft :: "string option"
  cm_createdAt :: string

datatype conv_status = Conv_open | Converged

datatype reasoning_gear = Gear_low | Gear_medium | Gear_high

record conv_doc =
  cd_id :: id
  cd_title :: string
  cd_status :: conv_status
  cd_providerConfigId :: "id option"
  cd_reasoningGear :: "reasoning_gear option"
  cd_messages :: "conv_message list"
  cd_runIds :: "id list"
  cd_turns :: nat
  cd_autoApprove :: "action_kind list"
  cd_createdAt :: string
  cd_updatedAt :: string

definition ConversationSeedSchema :: "conv_seed \<Rightarrow> bool" where
  "ConversationSeedSchema s \<longleftrightarrow> length_in 1 500 (sd_title s) \<and> length (sd_identifiers s) \<le> 20 \<and>
     list_all (\<lambda>i. fst i \<in> {''doi'', ''arxiv'', ''url'', ''other''} \<and> length_in 1 500 (snd i)) (sd_identifiers s) \<and>
     opt_max 50000 (sd_text s) \<and> length (sd_authors s) \<le> 50 \<and> list_all (\<lambda>a. length a \<le> 300) (sd_authors s)"

definition ConversationProposalSchema :: "conv_proposal \<Rightarrow> bool" where
  "ConversationProposalSchema p \<longleftrightarrow> prefixed_id ''act_'' (cp_id p) \<and> length_in 1 300 (cp_title p) \<and> opt_max 2000 (cp_result p) \<and>
     cp_createdAt p \<noteq> [] \<and> cp_resolvedAt p \<noteq> Some []"

definition ConversationMessageSchema :: "conv_message \<Rightarrow> bool" where
  "ConversationMessageSchema m \<longleftrightarrow> prefixed_id ''cmsg_'' (cm_id m) \<and> cm_content m \<noteq> [] \<and>
     length (cm_seeds m) \<le> 50 \<and> list_all ConversationSeedSchema (cm_seeds m) \<and>
     length (cm_candidates m) \<le> 5 \<and>
     list_all (\<lambda>c. cc_id c \<noteq> [] \<and> length_in 1 2000 (cc_text c) \<and> length (cc_rationale c) \<le> 2000) (cm_candidates m) \<and>
     length (cm_toolTrace m) \<le> 40 \<and> list_all (\<lambda>x. length_in 1 64 (tr_tool x) \<and> opt_max 300 (tr_summary x)) (cm_toolTrace m) \<and>
     length (cm_proposals m) \<le> 10 \<and> list_all ConversationProposalSchema (cm_proposals m) \<and>
     opt_max 12000 (cm_thinking m) \<and> opt_max 2000 (cm_replyError m) \<and> opt_max 40000 (cm_replyDraft m) \<and> cm_createdAt m \<noteq> []"

definition ConversationSchema :: "conv_doc \<Rightarrow> bool" where
  "ConversationSchema c \<longleftrightarrow> prefixed_id ''conv_'' (cd_id c) \<and> length_in 1 120 (cd_title c) \<and>
     (case cd_providerConfigId c of None \<Rightarrow> True | Some p \<Rightarrow> prefixed_id ''mcfg_'' p) \<and>
     length (cd_messages c) \<le> 2000 \<and> list_all ConversationMessageSchema (cd_messages c) \<and>
     length (cd_runIds c) \<le> 200 \<and> list_all (prefixed_id ''run_'') (cd_runIds c) \<and> length (cd_autoApprove c) \<le> 10 \<and>
     cd_createdAt c \<noteq> [] \<and> cd_updatedAt c \<noteq> []"

datatype automation_trigger = Run_completed_trigger | Schedule_trigger nat

record automation =
  au_id :: id
  au_conversationId :: id
  au_label :: string
  au_trigger :: automation_trigger
  au_task :: string
  au_enabled :: bool
  au_maxTurnsPerFire :: nat
  au_fireCount :: nat
  au_notifiedRunIds :: "id list"
  au_lastFiredAt :: "string option"
  au_createdAt :: string
  au_updatedAt :: string

section \<open>The workspace\<close>

record ws =
  ws_convs :: "conv_doc list"
  ws_autos :: "automation list"
  ws_tools :: "tool_integration list"
  ws_db :: store
  ws_inflight :: "id list"
  ws_clock :: nat
  ws_ids :: nat

datatype conv_error =
    Not_found_conv string | Validation_conv string | Conversation_full | Turn_in_flight | Turn_cancelled | Model_failed string
  | Schema_conv | Thrown string

text \<open>An action maps the workspace to an error or a value, and a new workspace.\<close>

type_synonym 'a act = "ws \<Rightarrow> (conv_error + 'a) \<times> ws"

definition give :: "'a \<Rightarrow> 'a act" where
  "give x w = (Inr x, w)"

definition fails :: "conv_error \<Rightarrow> 'a act" where
  "fails e w = (Inl e, w)"

definition andThen :: "'a act \<Rightarrow> ('a \<Rightarrow> 'b act) \<Rightarrow> 'b act" where
  "andThen m f w = (case m w of (Inl e, w') \<Rightarrow> (Inl e, w') | (Inr x, w') \<Rightarrow> f x w')"

record command_result =
  cr_exitCode :: "int option"
  cr_stdout :: string
  cr_stderr :: string
  cr_timedOut :: bool
  cr_durationMs :: nat
  cr_truncated :: bool
  cr_spawnFailed :: bool

text \<open>Names for the texts that are written in Chinese in the source.\<close>

datatype prose =
    New_conversation | Clarify "string list" | Launched id | Run_missing id | Run_not_ours id | Run_terminal id run_status
  | Cancel_asked id | Automation_made string automation_trigger | Draft_invalid "string list" | Tool_staged string "string list"
  | Outside_root string | Command_report string nat command_result | Automation_stopped string | Execution_failed string | Rejected_text
  | Resolution proposal_status string string bool
  | Fire_notice string automation_trigger string string | Fire_prompt automation_trigger string string
  | Fire_failed string string string | Fire_threw string string | Schedule_notice | One_completed id | Many_completed "id list"

record generation =
  gn_status :: string
  gn_error :: "string option"
  gn_reply :: "(string \<times> string list \<times> (string \<times> string) list) option"
  gn_toolTrace :: "tool_trace list"
  gn_proposals :: "conv_proposal list"
  gn_usage :: "message_usage option"
  gn_thinking :: "string option"

record turn_input =
  ti_text :: string
  ti_seeds :: "conv_seed list"
  ti_history :: "conv_message list"
  ti_automated :: bool
  ti_maxTurns :: "nat option"
  ti_session :: "id \<times> string"
  ti_reasoning :: "(string \<times> string) option"

text \<open>While the model runs it reports pieces of its reply, each at a time in milliseconds, and other parts of the
  program write to the workspace.\<close>

datatype turn_progress = Reply_reset nat | Reply_delta nat string | Elsewhere "ws \<Rightarrow> ws"

record conv_env =
  ce_now :: "nat \<Rightarrow> string"
  ce_instant :: "nat \<Rightarrow> instant"
  ce_newId :: "string \<Rightarrow> nat \<Rightarrow> id"
  ce_prose :: "prose \<Rightarrow> string"
  ce_sha :: "string \<Rightarrow> string"
  ce_isUrl :: "string \<Rightarrow> bool"
  ce_root :: string
  ce_generate :: "conv_doc \<Rightarrow> turn_input \<Rightarrow> ws \<Rightarrow> turn_progress list \<times> (conv_error + generation)"
  ce_createRun :: "(string \<Rightarrow> conv_seed list \<Rightarrow> id option \<Rightarrow> ws \<Rightarrow> (conv_error + id) \<times> ws) option"
  ce_command :: "string \<Rightarrow> string \<Rightarrow> nat \<Rightarrow> ws \<Rightarrow> (conv_error + command_result) \<times> ws"

definition now_str :: "conv_env \<Rightarrow> string act" where
  "now_str e w = (Inr (ce_now e (ws_clock w)), w\<lparr>ws_clock := Suc (ws_clock w)\<rparr>)"

definition newId :: "conv_env \<Rightarrow> string \<Rightarrow> id act" where
  "newId e prefix w = (Inr (ce_newId e prefix (ws_ids w)), w\<lparr>ws_ids := Suc (ws_ids w)\<rparr>)"

definition get_conv :: "id \<Rightarrow> ws \<Rightarrow> conv_doc option" where
  "get_conv i w = List.find (\<lambda>c. cd_id c = i) (ws_convs w)"

definition mustGetConversation :: "id \<Rightarrow> conv_doc act" where
  "mustGetConversation i w =
     (case get_conv i w of None \<Rightarrow> (Inl (Not_found_conv (''conversation not found: '' @ i)), w) | Some c \<Rightarrow> (Inr c, w))"

text \<open>Every write of a conversation is parsed first.\<close>

definition put_conv :: "conv_doc \<Rightarrow> conv_doc act" where
  "put_conv c w = (if ConversationSchema c then (Inr c, w\<lparr>ws_convs := insert_or_replace cd_id c (ws_convs w)\<rparr>) else (Inl Schema_conv, w))"

section \<open>Managing conversations\<close>

definition MAX_MESSAGES :: nat where
  "MAX_MESSAGES = 500"

definition HISTORY_TURNS :: nat where
  "HISTORY_TURNS = 24"

text \<open>The title is what the caller passed when that is a string; the provider's configuration must exist.\<close>

definition createConversation :: "conv_env \<Rightarrow> string option \<Rightarrow> json option \<Rightarrow> conv_doc act" where
  "createConversation e title providerConfigId =
     andThen (now_str e) (\<lambda>now w.
       (let go = (\<lambda>pc. andThen (newId e ''conv'') (\<lambda>i.
              put_conv \<lparr>cd_id = i,
                cd_title = (case title of Some t \<Rightarrow> if trim t \<noteq> [] then take 120 (trim t) else ce_prose e New_conversation | None \<Rightarrow> ce_prose e New_conversation),
                cd_status = Conv_open, cd_providerConfigId = pc, cd_reasoningGear = None, cd_messages = [], cd_runIds = [], cd_turns = 0, cd_autoApprove = [],
                cd_createdAt = now, cd_updatedAt = now\<rparr>)) in
        case providerConfigId of
          None \<Rightarrow> go None w
        | Some (JStr p) \<Rightarrow>
            if \<not> prefixed_id ''mcfg_'' p then fails (Validation_conv ''field \"providerConfigId\" must be a model config id (mcfg_...)'') w
            else if getObject ''model_config'' p (ws_db w) = None then fails (Not_found_conv (''model config not found: '' @ p)) w
            else go (Some p) w
        | Some _ \<Rightarrow> fails (Validation_conv ''field \"providerConfigId\" must be a model config id (mcfg_...)'') w))"

definition renameConversation :: "conv_env \<Rightarrow> id \<Rightarrow> string option \<Rightarrow> conv_doc act" where
  "renameConversation e i title =
     andThen (mustGetConversation i) (\<lambda>c.
       case title of
         Some t \<Rightarrow> if trim t = [] then fails (Validation_conv ''field \"title\" must be a non-empty string'')
           else andThen (now_str e) (\<lambda>now. put_conv (c\<lparr>cd_title := take 120 (trim t), cd_updatedAt := now\<rparr>))
       | None \<Rightarrow> fails (Validation_conv ''field \"title\" must be a non-empty string''))"

definition deleteConversation :: "id \<Rightarrow> unit act" where
  "deleteConversation i w =
     (if get_conv i w = None then (Inl (Not_found_conv (''conversation not found: '' @ i)), w)
      else (Inr (), w\<lparr>ws_convs := filter (\<lambda>c. cd_id c \<noteq> i) (ws_convs w)\<rparr>))"

text \<open>The conversations are visited most recently updated first; the order only matters when a write fails.\<close>

fun detach_each :: "conv_env \<Rightarrow> id \<Rightarrow> conv_doc list \<Rightarrow> nat act" where
  "detach_each e runId [] = give 0"
| "detach_each e runId (c # cs) =
     (if runId \<notin> set (cd_runIds c) then detach_each e runId cs
      else andThen (now_str e) (\<lambda>now.
        andThen (put_conv (c\<lparr>cd_runIds := filter (\<lambda>r. r \<noteq> runId) (cd_runIds c), cd_updatedAt := now\<rparr>)) (\<lambda>_.
          andThen (detach_each e runId cs) (\<lambda>n. give (Suc n)))))"

definition listConversations :: "(string \<Rightarrow> int) \<Rightarrow> ws \<Rightarrow> conv_doc list" where
  "listConversations dateParse w = sort_by (\<lambda>a b. dateParse (cd_updatedAt b) - dateParse (cd_updatedAt a)) (ws_convs w)"

definition detachRunFromAllConversations :: "(string \<Rightarrow> int) \<Rightarrow> conv_env \<Rightarrow> id \<Rightarrow> nat act" where
  "detachRunFromAllConversations dateParse e runId w = detach_each e runId (listConversations dateParse w) w"

definition seed_key :: "conv_seed \<Rightarrow> string" where
  "seed_key s = sd_title s @ ''|'' @ (case sd_identifiers s of [] \<Rightarrow> [] | i # _ \<Rightarrow> snd i)"

fun dedupe_seeds :: "string set \<Rightarrow> conv_seed list \<Rightarrow> conv_seed list" where
  "dedupe_seeds seen [] = []"
| "dedupe_seeds seen (s # ss) = (if seed_key s \<in> seen then dedupe_seeds seen ss else s # dedupe_seeds (insert (seed_key s) seen) ss)"

definition collectConversationSeeds :: "conv_doc \<Rightarrow> conv_seed list" where
  "collectConversationSeeds c = take 50 (dedupe_seeds {} (concat (map cm_seeds (filter (\<lambda>m. cm_role m = Researcher) (cd_messages c)))))"

definition read_identifier :: "json \<Rightarrow> (string \<times> string) option" where
  "read_identifier v = (case (jstr ''kind'' v, jstr ''value'' v) of (Some k, Some x) \<Rightarrow> Some (k, x) | _ \<Rightarrow> None)"

definition seed_title :: "json \<Rightarrow> string option" where
  "seed_title v = Option.bind (jstr ''title'' v) (\<lambda>t. if trim t = [] then None else Some (take 500 (trim t)))"

definition read_seed :: "json \<Rightarrow> conv_seed option" where
  "read_seed v =
     Option.bind (seed_title v) (\<lambda>t. Option.bind (those (map read_identifier (jarr ''identifiers'' v))) (\<lambda>ids.
       let s = \<lparr>sd_title = t, sd_identifiers = ids,
                sd_text = (case jstr ''text'' v of Some x \<Rightarrow> if x \<noteq> [] \<and> length x \<le> 50000 then Some x else None | None \<Rightarrow> None),
                sd_year = jint ''year'' v, sd_authors = take 50 (jstrs ''authors'' v)\<rparr> in
       if ConversationSeedSchema s then Some s else None))"

fun is_object :: "json \<Rightarrow> bool" where
  "is_object (JObj _) = True"
| "is_object (JArr _) = True"
| "is_object _ = False"

text \<open>The field of a shape violation, which the message names, is not kept.\<close>

fun read_seeds :: "nat \<Rightarrow> json list \<Rightarrow> conv_error + conv_seed list" where
  "read_seeds i [] = Inr []"
| "read_seeds i (v # vs) =
     (if \<not> is_object v then Inl (Validation_conv (''seeds['' @ str_of_nat i @ '']: must be an object''))
      else if seed_title v = None then Inl (Validation_conv (''seeds['' @ str_of_nat i @ ''].title: must be a non-empty string''))
      else case read_seed v of
        None \<Rightarrow> Inl (Validation_conv (''seeds['' @ str_of_nat i @ '']: shape invalid''))
      | Some s \<Rightarrow> (case read_seeds (Suc i) vs of Inl x \<Rightarrow> Inl x | Inr ss \<Rightarrow> Inr (s # ss)))"

fun parseConversationSeeds :: "json \<Rightarrow> conv_error + conv_seed list" where
  "parseConversationSeeds JUndef = Inr []"
| "parseConversationSeeds (JArr vs) =
     (if 50 < length vs then Inl (Validation_conv ''field \"seeds\" must hold at most 50 items'') else read_seeds 0 vs)"
| "parseConversationSeeds _ = Inl (Validation_conv ''field \"seeds\" must be an array'')"

section \<open>The reasoning route\<close>

definition ACTIVE_MODEL_CONFIG_META_KEY :: string where
  "ACTIVE_MODEL_CONFIG_META_KEY = ''activeModelConfigId''"

definition route_candidates :: "ws \<Rightarrow> conv_doc \<Rightarrow> id list" where
  "route_candidates w c =
     (case cd_providerConfigId c of Some p \<Rightarrow> [p] | None \<Rightarrow> []) @
     (case getMeta ACTIVE_MODEL_CONFIG_META_KEY (ws_db w) of Some a \<Rightarrow> if a \<noteq> [] then [a] else [] | None \<Rightarrow> [])"

text \<open>The configuration's identifier, the style and the default gear it declares.\<close>

definition declared_route :: "ws \<Rightarrow> id \<Rightarrow> (string \<times> string \<times> string) option" where
  "declared_route w i =
     Option.bind (getObject ''model_config'' i (ws_db w)) (\<lambda>cfg. Option.bind (jget ''reasoning'' cfg) (\<lambda>r.
       if r = JUndef then None else Some (str_at ''id'' cfg, str_at ''style'' r, str_at ''defaultGear'' r)))"

definition resolveConversationReasoningRoute :: "ws \<Rightarrow> conv_doc \<Rightarrow> (string \<times> string \<times> string) option" where
  "resolveConversationReasoningRoute w c =
     (case List.map_filter (declared_route w) (route_candidates w c) of [] \<Rightarrow> None | r # _ \<Rightarrow> Some r)"

fun gear_str :: "reasoning_gear \<Rightarrow> string" where
  "gear_str Gear_low = ''low''"
| "gear_str Gear_medium = ''medium''"
| "gear_str Gear_high = ''high''"

definition effectiveConversationReasoning :: "ws \<Rightarrow> conv_doc \<Rightarrow> (string \<times> string) option" where
  "effectiveConversationReasoning w c =
     map_option (\<lambda>(_, style, gear). (style, case cd_reasoningGear c of Some g \<Rightarrow> gear_str g | None \<Rightarrow> gear)) (resolveConversationReasoningRoute w c)"

text \<open>The gear asked for, or null to clear it.\<close>

definition read_gear :: "json \<Rightarrow> reasoning_gear option option" where
  "read_gear v = (if v = JNull then Some None else if v = JStr ''low'' then Some (Some Gear_low) else if v = JStr ''medium'' then Some (Some Gear_medium)
     else if v = JStr ''high'' then Some (Some Gear_high) else None)"

definition setConversationReasoningGear :: "conv_env \<Rightarrow> id \<Rightarrow> json \<Rightarrow> conv_doc act" where
  "setConversationReasoningGear e i rawGear =
     andThen (mustGetConversation i) (\<lambda>c w.
       case read_gear rawGear of
         None \<Rightarrow> (Inl (Validation_conv ''field \"gear\" must be \"low\" | \"medium\" | \"high\" | null''), w)
       | Some g \<Rightarrow>
           if resolveConversationReasoningRoute w c = None
           then (Inl (Validation_conv (''this conversation's model route has no declared reasoning capability '' @ emdash @ '' declare one on the model config first'')), w)
           else andThen (now_str e) (\<lambda>now. put_conv (c\<lparr>cd_reasoningGear := g, cd_updatedAt := now\<rparr>)) w)"

section \<open>Turns\<close>

definition new_message :: "id \<Rightarrow> message_role \<Rightarrow> string \<Rightarrow> string \<Rightarrow> conv_message" where
  "new_message i r content now = \<lparr>cm_id = i, cm_role = r, cm_content = content, cm_seeds = [], cm_candidates = [], cm_toolTrace = [],
     cm_proposals = [], cm_usage = None, cm_thinking = None, cm_replyError = None, cm_replyDraft = None, cm_createdAt = now\<rparr>"

definition serializeTurn :: "id \<Rightarrow> 'a act \<Rightarrow> 'a act" where
  "serializeTurn i body w =
     (if i \<in> set (ws_inflight w) then (Inl Turn_in_flight, w)
      else case body (w\<lparr>ws_inflight := i # ws_inflight w\<rparr>) of
        (r, w') \<Rightarrow> (r, w'\<lparr>ws_inflight := removeAll i (ws_inflight w')\<rparr>))"

fun error_text :: "conv_error \<Rightarrow> string" where
  "error_text (Not_found_conv s) = s"
| "error_text (Validation_conv s) = s"
| "error_text Conversation_full = ''conversation reached the message limit '' @ emdash @ '' start a new conversation''"
| "error_text Turn_in_flight = ''this conversation already has a turn running '' @ emdash @ '' wait for it to land''"
| "error_text Turn_cancelled = ''resident agent turn cancelled; the received reply prefix was preserved''"
| "error_text (Model_failed s) = s"
| "error_text Schema_conv = ''schema''"
| "error_text (Thrown s) = s"

definition set_message :: "id \<Rightarrow> (conv_message \<Rightarrow> conv_message) \<Rightarrow> conv_doc \<Rightarrow> conv_doc" where
  "set_message mid f c = c\<lparr>cd_messages := map (\<lambda>m. if cm_id m = mid then f m else m) (cd_messages c)\<rparr>"

text \<open>A failure to write the marker is swallowed.\<close>

definition markReplyFailed :: "conv_env \<Rightarrow> id \<Rightarrow> id \<Rightarrow> conv_error \<Rightarrow> ws \<Rightarrow> ws" where
  "markReplyFailed e i mid err w =
     (case get_conv i w of
        None \<Rightarrow> w
      | Some c \<Rightarrow>
          if \<not> list_ex (\<lambda>m. cm_id m = mid) (cd_messages c) then w
          else snd (andThen (now_str e) (\<lambda>now. put_conv ((set_message mid (\<lambda>m. m\<lparr>cm_replyError := Some (take 2000 (error_text err))\<rparr>) c)
             \<lparr>cd_updatedAt := now\<rparr>)) w))"

definition writeReplyDraft :: "conv_env \<Rightarrow> id \<Rightarrow> id \<Rightarrow> string \<Rightarrow> unit act" where
  "writeReplyDraft e i mid draft w =
     (case get_conv i w of
        None \<Rightarrow> (Inr (), w)
      | Some c \<Rightarrow>
          if \<not> list_ex (\<lambda>m. cm_id m = mid) (cd_messages c) then (Inr (), w)
          else andThen (now_str e) (\<lambda>now. andThen (put_conv ((set_message mid
               (\<lambda>m. m\<lparr>cm_replyDraft := (if draft \<noteq> [] then Some (take 40000 draft) else None)\<rparr>) c)\<lparr>cd_updatedAt := now\<rparr>)) (\<lambda>_. give ())) w)"

definition appendAutomationRecord :: "conv_env \<Rightarrow> id \<Rightarrow> string \<Rightarrow> conv_doc act" where
  "appendAutomationRecord e i content =
     andThen (mustGetConversation i) (\<lambda>c.
       if MAX_MESSAGES \<le> length (cd_messages c) then fails Conversation_full
       else andThen (newId e ''cmsg'') (\<lambda>mid. andThen (now_str e) (\<lambda>now. andThen (now_str e) (\<lambda>now'.
         put_conv (c\<lparr>cd_messages := cd_messages c @ [new_message mid Automation_role (take 2000 content) now], cd_updatedAt := now'\<rparr>)))))"

definition attachRunToConversation :: "conv_env \<Rightarrow> id \<Rightarrow> id \<Rightarrow> conv_doc act" where
  "attachRunToConversation e i runId =
     andThen (mustGetConversation i) (\<lambda>c. andThen (now_str e) (\<lambda>now.
       put_conv (c\<lparr>cd_runIds := cd_runIds c @ [runId], cd_status := Converged, cd_updatedAt := now\<rparr>)))"

section \<open>Proposals\<close>

text \<open>The messages are searched from the last.\<close>

fun find_from :: "id \<Rightarrow> nat \<Rightarrow> conv_message list \<Rightarrow> (nat \<times> conv_proposal) option" where
  "find_from pid i [] = None"
| "find_from pid i (m # ms) =
     (case find_from pid (Suc i) ms of
        Some r \<Rightarrow> Some r
      | None \<Rightarrow> map_option (Pair i) (List.find (\<lambda>p. cp_id p = pid) (cm_proposals m)))"

definition findProposal :: "conv_doc \<Rightarrow> id \<Rightarrow> (nat \<times> conv_proposal) option" where
  "findProposal c pid = find_from pid 0 (cd_messages c)"

definition parse_id :: "string \<Rightarrow> string \<Rightarrow> json \<Rightarrow> id option" where
  "parse_id prefix k v = Option.bind (jstr k v) (\<lambda>s. if prefixed_id prefix s then Some s else None)"

definition parse_trigger :: "json \<Rightarrow> automation_trigger option" where
  "parse_trigger v =
     (case jget ''trigger'' v of
        None \<Rightarrow> None
      | Some t \<Rightarrow>
          if jstr ''kind'' t = Some ''run_completed'' then Some Run_completed_trigger
          else if jstr ''kind'' t = Some ''schedule'' then
            (case jget ''intervalMinutes'' t of Some (JNum n) \<Rightarrow> if 1 \<le> n \<and> n \<le> 20160 then Some (Schedule_trigger (nat n)) else None | _ \<Rightarrow> None)
          else None)"

text \<open>The arguments of a new automation: its label, trigger and task.\<close>

definition CreateAutomationArgsSchema :: "json \<Rightarrow> (string option \<times> automation_trigger \<times> string) option" where
  "CreateAutomationArgsSchema v =
     (case (if absent ''label'' v then Some None else map_option Some (parse_text 1 120 ''label'' v), parse_trigger v, parse_text 10 2000 ''task'' v) of
        (Some l, Some t, Some k) \<Rightarrow> Some (l, t, k) | _ \<Rightarrow> None)"

definition RunCommandArgsSchema :: "json \<Rightarrow> (string \<times> string option \<times> nat) option" where
  "RunCommandArgsSchema v =
     (case (parse_text 1 2000 ''command'' v, if absent ''cwd'' v then Some None else map_option Some (parse_text 0 500 ''cwd'' v),
            if absent ''timeoutMs'' v then Some 30000
            else case jget ''timeoutMs'' v of Some (JNum n) \<Rightarrow> if 1000 \<le> n \<and> n \<le> 120000 then Some (nat n) else None | _ \<Rightarrow> None) of
        (Some c, Some d, Some t) \<Rightarrow> Some (c, d, t) | _ \<Rightarrow> None)"

definition get_auto :: "id \<Rightarrow> ws \<Rightarrow> automation option" where
  "get_auto i w = List.find (\<lambda>a. au_id a = i) (ws_autos w)"

definition put_auto :: "automation \<Rightarrow> ws \<Rightarrow> ws" where
  "put_auto a w = w\<lparr>ws_autos := insert_or_replace au_id a (ws_autos w)\<rparr>"

definition launch_research :: "conv_env \<Rightarrow> conv_doc \<Rightarrow> json \<Rightarrow> (bool \<times> string) act" where
  "launch_research e c args =
     (case parse_text 10 2000 ''question'' args of
        None \<Rightarrow> fails Schema_conv
      | Some q \<Rightarrow>
          (case ce_createRun e of
             None \<Rightarrow> give (False, ''run creation is unavailable in this context (no createRun bridge)'')
           | Some create \<Rightarrow>
               andThen (create q (collectConversationSeeds c) (cd_providerConfigId c)) (\<lambda>runId.
               andThen (attachRunToConversation e (cd_id c) runId) (\<lambda>_. give (True, ce_prose e (Launched runId))))))"

definition cancel_run_action :: "conv_env \<Rightarrow> conv_doc \<Rightarrow> json \<Rightarrow> (bool \<times> string) act" where
  "cancel_run_action e c args w =
     (case parse_id ''run_'' ''runId'' args of
        None \<Rightarrow> (Inl Schema_conv, w)
      | Some runId \<Rightarrow>
          (case getRun runId (ws_db w) of
             None \<Rightarrow> (Inr (False, ce_prose e (Run_missing runId)), w)
           | Some run \<Rightarrow>
               if runId \<notin> set (cd_runIds c) then (Inr (False, ce_prose e (Run_not_ours runId)), w)
               else (case requestCancel runId (ws_db w) of (ok, db) \<Rightarrow>
                 if \<not> ok then (Inr (False, ce_prose e (Run_terminal runId (run_status run))), w\<lparr>ws_db := db\<rparr>)
                 else (Inr (True, ce_prose e (Cancel_asked runId)),
                   w\<lparr>ws_db := appendEvent (ce_sha e) runId (plain_event E_run_cancelled [(''via'', JStr ''conversation-proposal'')]) (ce_instant e (ws_clock w)) db,
                     ws_clock := Suc (ws_clock w)\<rparr>))))"

definition create_automation :: "conv_env \<Rightarrow> conv_doc \<Rightarrow> json \<Rightarrow> string \<Rightarrow> (bool \<times> string) act" where
  "create_automation e c args now =
     (case CreateAutomationArgsSchema args of
        None \<Rightarrow> fails Schema_conv
      | Some (label, trigger, task) \<Rightarrow>
          andThen (newId e ''auto'') (\<lambda>i w.
            let a = \<lparr>au_id = i, au_conversationId = cd_id c, au_label = (case label of Some l \<Rightarrow> l | None \<Rightarrow> take 60 task), au_trigger = trigger,
                     au_task = task, au_enabled = True, au_maxTurnsPerFire = 6, au_fireCount = 0, au_notifiedRunIds = [], au_lastFiredAt = None,
                     au_createdAt = now, au_updatedAt = now\<rparr> in
            (Inr (True, ce_prose e (Automation_made (au_label a) trigger)), put_auto a w)))"

text \<open>What the agent drafted is stored disabled; the researcher activates it in the settings.\<close>

definition create_tool :: "conv_env \<Rightarrow> conv_doc \<Rightarrow> json \<Rightarrow> (bool \<times> string) act" where
  "create_tool e c args =
     (case CreateToolIntegrationArgsSchema (ce_isUrl e) args of
        None \<Rightarrow> fails Schema_conv
      | Some (draft, warnings) \<Rightarrow>
          if integrationSemanticIssues (td_kind draft) \<noteq> [] then give (False, ce_prose e (Draft_invalid (integrationSemanticIssues (td_kind draft))))
          else andThen (newId e ''tint'') (\<lambda>i. andThen (now_str e) (\<lambda>at1. andThen (now_str e) (\<lambda>at2 w.
            case instantiateDraft (ce_isUrl e) (draft\<lparr>td_enabled := False\<rparr>) i By_conversation
                   (Some \<lparr>tp_conversationId = Some (cd_id c), tp_messageId = None, tp_pluginId = None\<rparr>) at1 at2 of
              Inl (Draft_issues s) \<Rightarrow> (Inl (Thrown s), w)
            | Inl Draft_schema \<Rightarrow> (Inl Schema_conv, w)
            | Inr g \<Rightarrow> (Inr (True, ce_prose e (Tool_staged (td_label (tg_draft g)) warnings)),
                w\<lparr>ws_tools := insert_or_replace tg_id g (ws_tools w)\<rparr>)))))"

definition run_command :: "conv_env \<Rightarrow> json \<Rightarrow> (bool \<times> string) act" where
  "run_command e args =
     (case RunCommandArgsSchema args of
        None \<Rightarrow> fails Schema_conv
      | Some (command, cwd, timeoutMs) \<Rightarrow>
          let rel = (case cwd of Some d \<Rightarrow> d | None \<Rightarrow> ''.'') in
          (case resolveInsideRoot (ce_root e) rel of
             None \<Rightarrow> give (False, ce_prose e (Outside_root rel))
           | Some dir \<Rightarrow> andThen (ce_command e command dir timeoutMs) (\<lambda>r.
               give (\<not> cr_timedOut r \<and> \<not> cr_spawnFailed r \<and> (cr_exitCode r = Some 0 \<or> cr_exitCode r = None),
                     ce_prose e (Command_report command timeoutMs r)))))"

definition cancel_automation :: "conv_env \<Rightarrow> conv_doc \<Rightarrow> json \<Rightarrow> string \<Rightarrow> (bool \<times> string) act" where
  "cancel_automation e c args now w =
     (case parse_id ''auto_'' ''automationId'' args of
        None \<Rightarrow> (Inl Schema_conv, w)
      | Some i \<Rightarrow>
          (case get_auto i w of
             None \<Rightarrow> (Inr (False, ''automation not found: '' @ i), w)
           | Some a \<Rightarrow>
               if au_conversationId a \<noteq> cd_id c then (Inr (False, ''that automation belongs to a different conversation''), w)
               else (Inr (True, ce_prose e (Automation_stopped (au_label a))), put_auto (a\<lparr>au_enabled := False, au_updatedAt := now\<rparr>) w)))"

fun execute_kind :: "conv_env \<Rightarrow> conv_doc \<Rightarrow> string \<Rightarrow> json \<Rightarrow> action_kind \<Rightarrow> (bool \<times> string) act" where
  "execute_kind e c now args Launch_research = launch_research e c args"
| "execute_kind e c now args Cancel_run = cancel_run_action e c args"
| "execute_kind e c now args Create_automation = create_automation e c args now"
| "execute_kind e c now args Create_tool_integration = create_tool e c args"
| "execute_kind e c now args Run_command = run_command e args"
| "execute_kind e c now args Cancel_automation = cancel_automation e c args now"

text \<open>Whatever is thrown becomes the result of a failed execution.\<close>

definition executeProposal :: "conv_env \<Rightarrow> conv_doc \<Rightarrow> conv_proposal \<Rightarrow> ws \<Rightarrow> (bool \<times> string) \<times> ws" where
  "executeProposal e c p w =
     (case execute_kind e c (ce_now e (ws_clock w)) (cp_args p) (cp_kind p) (w\<lparr>ws_clock := Suc (ws_clock w)\<rparr>) of
        (Inr r, w') \<Rightarrow> (r, w')
      | (Inl err, w') \<Rightarrow> ((False, ce_prose e (Execution_failed (error_text err))), w'))"

fun proposal_status_str :: "proposal_status \<Rightarrow> string" where
  "proposal_status_str Pending = ''pending''"
| "proposal_status_str Executed = ''executed''"
| "proposal_status_str Rejected = ''rejected''"
| "proposal_status_str Failed_proposal = ''failed''"

text \<open>The gate: the proposal that is to be resolved, if it is still pending.\<close>

definition pending_proposal :: "id \<Rightarrow> id \<Rightarrow> (conv_doc \<times> conv_proposal) act" where
  "pending_proposal i pid =
     andThen (mustGetConversation i) (\<lambda>c.
       case findProposal c pid of
         None \<Rightarrow> fails (Not_found_conv (''proposal not found: '' @ pid))
       | Some (_, p) \<Rightarrow> if cp_status p \<noteq> Pending then fails (Validation_conv (''proposal already '' @ proposal_status_str (cp_status p))) else give (c, p))"

definition settle :: "proposal_status \<Rightarrow> string \<Rightarrow> string \<Rightarrow> conv_proposal \<Rightarrow> conv_proposal" where
  "settle status result now p = p\<lparr>cp_status := status, cp_result := Some (take 2000 result), cp_resolvedAt := Some now\<rparr>"

definition settle_in :: "id \<Rightarrow> (conv_proposal \<Rightarrow> conv_proposal) \<Rightarrow> conv_doc \<Rightarrow> conv_doc" where
  "settle_in pid f c =
     (case findProposal c pid of
        None \<Rightarrow> c
      | Some (k, _) \<Rightarrow> c\<lparr>cd_messages := (cd_messages c)[k := (cd_messages c ! k)\<lparr>cm_proposals :=
          map (\<lambda>p. if cp_id p = pid then f p else p) (cm_proposals (cd_messages c ! k))\<rparr>]\<rparr>)"

definition remembered :: "bool \<Rightarrow> bool \<Rightarrow> action_kind \<Rightarrow> conv_doc \<Rightarrow> conv_doc" where
  "remembered approve remember kind c =
     (if approve \<and> remember \<and> kind \<notin> set (cd_autoApprove c) \<and> length (cd_autoApprove c) < 10
      then c\<lparr>cd_autoApprove := cd_autoApprove c @ [kind]\<rparr> else c)"

text \<open>After the gate: execution, then the outcome is written on a fresh reading of the conversation.\<close>

definition execute_step :: "conv_env \<Rightarrow> bool \<Rightarrow> conv_doc \<Rightarrow> conv_proposal \<Rightarrow> ws \<Rightarrow> (proposal_status \<times> string) \<times> ws" where
  "execute_step e approve c p w =
     (if approve then (case executeProposal e c p w of ((ok, result), w') \<Rightarrow> ((if ok then Executed else Failed_proposal, result), w'))
      else ((Rejected, ce_prose e Rejected_text), w))"

definition write_outcome :: "conv_env \<Rightarrow> id \<Rightarrow> conv_proposal \<Rightarrow> bool \<Rightarrow> bool \<Rightarrow> string \<Rightarrow> proposal_status \<Rightarrow> string \<Rightarrow> conv_doc act" where
  "write_outcome e i p approve remember now status result =
     andThen (mustGetConversation i) (\<lambda>c.
     andThen (put_conv ((settle_in (cp_id p) (settle status result now) (remembered approve remember (cp_kind p) c))\<lparr>cd_updatedAt := now\<rparr>)) (\<lambda>_.
       appendAutomationRecord e i (ce_prose e (Resolution status (cp_title p) result (approve \<and> remember)))))"

definition resolve_rest :: "conv_env \<Rightarrow> id \<Rightarrow> bool \<Rightarrow> bool \<Rightarrow> conv_doc \<times> conv_proposal \<Rightarrow> conv_doc act" where
  "resolve_rest e i approve remember cp =
     andThen (now_str e) (\<lambda>now w.
       case execute_step e approve (fst cp) (snd cp) w of
         ((status, result), w') \<Rightarrow> write_outcome e i (snd cp) approve remember now status result w')"

definition resolveConversationProposal :: "conv_env \<Rightarrow> id \<Rightarrow> id \<Rightarrow> bool \<Rightarrow> bool \<Rightarrow> conv_doc act" where
  "resolveConversationProposal e i pid approve remember = andThen (pending_proposal i pid) (resolve_rest e i approve remember)"

section \<open>Running a turn\<close>

record draft_state =
  ds_draft :: string
  ds_replace :: bool
  ds_lastWrite :: nat

definition flushDraft :: "conv_env \<Rightarrow> id \<Rightarrow> id \<Rightarrow> bool \<Rightarrow> nat \<Rightarrow> draft_state \<Rightarrow> draft_state act" where
  "flushDraft e i mid force now d =
     (if \<not> force \<and> int now - int (ds_lastWrite d) < 400 then give d
      else andThen (writeReplyDraft e i mid (ds_draft d)) (\<lambda>_. give (d\<lparr>ds_lastWrite := now\<rparr>)))"

text \<open>Observers of the progress are isolated: a draft that cannot be written is not an error of the turn.\<close>

definition observe :: "conv_env \<Rightarrow> id \<Rightarrow> id \<Rightarrow> bool \<Rightarrow> nat \<Rightarrow> draft_state \<Rightarrow> ws \<Rightarrow> draft_state \<times> ws" where
  "observe e i mid force now d w = (case flushDraft e i mid force now d w of (Inl _, w') \<Rightarrow> (d, w') | (Inr d', w') \<Rightarrow> (d', w'))"

fun onProgress :: "conv_env \<Rightarrow> id \<Rightarrow> id \<Rightarrow> turn_progress \<Rightarrow> draft_state \<times> ws \<Rightarrow> draft_state \<times> ws" where
  "onProgress e i mid (Elsewhere f) (d, w) = (d, f w)"
| "onProgress e i mid (Reply_reset now) (d, w) = observe e i mid True now (d\<lparr>ds_draft := [], ds_replace := False\<rparr>) w"
| "onProgress e i mid (Reply_delta now text) (d, w) =
     observe e i mid False now (d\<lparr>ds_draft := take 40000 ((if ds_replace d then [] else ds_draft d) @ text), ds_replace := False\<rparr>) w"

definition take_last :: "nat \<Rightarrow> 'a list \<Rightarrow> 'a list" where
  "take_last n xs = drop (length xs - n) xs"

definition turn_of :: "ws \<Rightarrow> conv_doc \<Rightarrow> conv_message \<Rightarrow> turn_input" where
  "turn_of w c m = \<lparr>ti_text = cm_content m, ti_seeds = cm_seeds m,
     ti_history = take_last HISTORY_TURNS (filter (\<lambda>x. cm_id x \<noteq> cm_id m) (cd_messages c)),
     ti_automated = False, ti_maxTurns = None, ti_session = (cd_id c, cm_id m), ti_reasoning = effectiveConversationReasoning w c\<rparr>"

text \<open>The model turn; the draft is written once more when it ends, however it ends.\<close>

definition draft_start :: "conv_message \<Rightarrow> draft_state" where
  "draft_start m = \<lparr>ds_draft = (case cm_replyDraft m of Some x \<Rightarrow> x | None \<Rightarrow> []), ds_replace = (case cm_replyDraft m of Some x \<Rightarrow> x \<noteq> [] | None \<Rightarrow> False), ds_lastWrite = 0\<rparr>"

definition generate_turn :: "conv_env \<Rightarrow> id \<Rightarrow> conv_doc \<Rightarrow> conv_message \<Rightarrow> generation act" where
  "generate_turn e i c m w =
     (case ce_generate e c (turn_of w c m) w of (events, result) \<Rightarrow>
       case fold (onProgress e i (cm_id m)) events (draft_start m, w) of (d, w') \<Rightarrow>
         andThen (writeReplyDraft e i (cm_id m) (ds_draft d)) (\<lambda>_ w. (result, w)) w')"

definition candidate_messages :: "nat \<Rightarrow> (string \<times> string) list \<Rightarrow> conv_candidate list" where
  "candidate_messages n cs = map (\<lambda>(k, text, rationale). \<lparr>cc_id = ''cand_'' @ str_of_nat (n + k + 1), cc_text = text, cc_rationale = rationale\<rparr>)
     (zip [0..<length cs] cs)"

definition candidate_count :: "conv_message list \<Rightarrow> nat" where
  "candidate_count ms = sum_list (map (\<lambda>m. length (cm_candidates m)) ms)"

definition reply_content :: "conv_env \<Rightarrow> string \<Rightarrow> string list \<Rightarrow> string" where
  "reply_content e reply questions = (if questions = [] then reply else reply @ [char_of (10 :: nat)] @ ce_prose e (Clarify questions))"

definition agent_message :: "conv_env \<Rightarrow> id \<Rightarrow> string \<Rightarrow> nat \<Rightarrow> generation \<Rightarrow> string \<times> string list \<times> (string \<times> string) list \<Rightarrow> conv_message" where
  "agent_message e i now n g r =
     (new_message i Agent (reply_content e (fst r) (fst (snd r))) now)
       \<lparr>cm_candidates := candidate_messages n (snd (snd r)), cm_toolTrace := gn_toolTrace g, cm_proposals := gn_proposals g, cm_usage := gn_usage g,
        cm_thinking := (if gn_thinking g = Some [] then None else gn_thinking g)\<rparr>"

fun index_of :: "('a \<Rightarrow> bool) \<Rightarrow> 'a list \<Rightarrow> nat option" where
  "index_of p [] = None"
| "index_of p (x # xs) = (if p x then Some 0 else map_option Suc (index_of p xs))"

text \<open>The reply lands after the message it answers, whatever was appended since.\<close>

definition land_reply :: "conv_env \<Rightarrow> id \<Rightarrow> id \<Rightarrow> generation \<Rightarrow> string \<times> string list \<times> (string \<times> string) list \<Rightarrow> conv_doc act" where
  "land_reply e i mid g r =
     andThen (mustGetConversation i) (\<lambda>c.
       case index_of (\<lambda>m. cm_id m = mid) (cd_messages c) of
         None \<Rightarrow> fails (Validation_conv ''the answered message disappeared while the turn ran'')
       | Some k \<Rightarrow>
           andThen (newId e ''cmsg'') (\<lambda>aid. andThen (now_str e) (\<lambda>now. andThen (now_str e) (\<lambda>now'.
             put_conv (c\<lparr>cd_messages := take k (cd_messages c) @ [(cd_messages c ! k)\<lparr>cm_replyError := None, cm_replyDraft := None\<rparr>,
                  agent_message e aid now (candidate_count (cd_messages c)) g r] @ drop (Suc k) (cd_messages c),
                cd_turns := Suc (cd_turns c), cd_updatedAt := now'\<rparr>)))))"

fun run_granted :: "conv_env \<Rightarrow> id \<Rightarrow> conv_proposal list \<Rightarrow> unit act" where
  "run_granted e i [] = give ()"
| "run_granted e i (p # ps) =
     (if cp_autoApproved p \<and> cp_status p = Pending
      then andThen (resolveConversationProposal e i (cp_id p) True False) (\<lambda>_. run_granted e i ps)
      else run_granted e i ps)"

definition runAndLandTurn :: "conv_env \<Rightarrow> id \<Rightarrow> conv_doc \<Rightarrow> id \<Rightarrow> conv_doc act" where
  "runAndLandTurn e i c mid =
     (case List.find (\<lambda>m. cm_id m = mid) (cd_messages c) of
        None \<Rightarrow> fails (Not_found_conv (''message not found: '' @ mid))
      | Some m \<Rightarrow>
          andThen (generate_turn e i c m) (\<lambda>g.
            case (gn_status g = ''completed'', gn_reply g) of
              (True, Some r) \<Rightarrow>
                andThen (land_reply e i mid g r) (\<lambda>_. andThen (run_granted e i (gn_proposals g)) (\<lambda>_. mustGetConversation i))
            | _ \<Rightarrow>
                if gn_status g = ''aborted'' then fails Turn_cancelled
                else fails (Model_failed (''resident agent turn failed ('' @ gn_status g @ ''): '' @ (case gn_error g of Some x \<Rightarrow> x | None \<Rightarrow> ''no reply'')))))"

definition marked :: "conv_env \<Rightarrow> id \<Rightarrow> id \<Rightarrow> 'a act \<Rightarrow> 'a act" where
  "marked e i mid body w = (case body w of (Inl err, w') \<Rightarrow> (Inl err, markReplyFailed e i mid err w') | (Inr x, w') \<Rightarrow> (Inr x, w'))"

definition researcher_message :: "id \<Rightarrow> string \<Rightarrow> conv_seed list \<Rightarrow> string \<Rightarrow> conv_message" where
  "researcher_message mid text seeds now = (new_message mid Researcher text now)\<lparr>cm_seeds := seeds\<rparr>"

definition with_message :: "conv_env \<Rightarrow> conv_doc \<Rightarrow> conv_message \<Rightarrow> string \<Rightarrow> string \<Rightarrow> conv_doc" where
  "with_message e c m text now = c\<lparr>cd_title := (if cd_messages c = [] \<and> cd_title c = ce_prose e New_conversation then take 60 text else cd_title c),
     cd_messages := cd_messages c @ [m], cd_updatedAt := now\<rparr>"

text \<open>The text is what was passed when that is a string.\<close>

definition post_body :: "conv_env \<Rightarrow> id \<Rightarrow> string option \<Rightarrow> json \<Rightarrow> conv_doc act" where
  "post_body e i text seeds =
     andThen (mustGetConversation i) (\<lambda>c.
       if MAX_MESSAGES \<le> length (cd_messages c) then fails Conversation_full
       else if text = None \<or> trim (the text) = [] then fails (Validation_conv ''field \"text\" is required (non-empty)'')
       else case parseConversationSeeds seeds of
         Inl err \<Rightarrow> fails err
       | Inr ss \<Rightarrow>
           let body = take 20000 (trim (the text)) in
           andThen (now_str e) (\<lambda>now. andThen (newId e ''cmsg'') (\<lambda>mid.
           andThen (put_conv (with_message e c (researcher_message mid body ss now) body now)) (\<lambda>c'.
             marked e i mid (runAndLandTurn e i c' mid)))))"

definition postConversationMessage :: "conv_env \<Rightarrow> id \<Rightarrow> string option \<Rightarrow> json \<Rightarrow> conv_doc act" where
  "postConversationMessage e i text seeds = serializeTurn i (post_body e i text seeds)"

definition retry_body :: "conv_env \<Rightarrow> id \<Rightarrow> id \<Rightarrow> conv_doc act" where
  "retry_body e i mid =
     andThen (mustGetConversation i) (\<lambda>c.
       if MAX_MESSAGES \<le> length (cd_messages c) then fails Conversation_full
       else if cd_messages c = [] \<or> cm_id (last (cd_messages c)) \<noteq> mid \<or> cm_role (last (cd_messages c)) \<noteq> Researcher
       then fails (Validation_conv ''only the conversation's last message can be retried, and only while it has no reply'')
       else marked e i mid (runAndLandTurn e i c mid))"

definition retryConversationTurn :: "conv_env \<Rightarrow> id \<Rightarrow> id \<Rightarrow> conv_doc act" where
  "retryConversationTurn e i mid = serializeTurn i (retry_body e i mid)"

section \<open>The gate of the proposals\<close>

lemma andThen_Inr: "andThen m f w = (Inr y, w') \<longleftrightarrow> (\<exists>x w1. m w = (Inr x, w1) \<and> f x w1 = (Inr y, w'))"
  by (auto simp: andThen_def split: prod.splits sum.splits)

lemma mustGet_Inr: "mustGetConversation i w = (Inr c, w') \<longleftrightarrow> get_conv i w = Some c \<and> w' = w"
  by (auto simp: mustGetConversation_def split: option.splits)

lemma get_conv_id: "get_conv i w = Some c \<Longrightarrow> cd_id c = i"
  by (auto simp: get_conv_def find_Some_iff)

lemma put_conv_Inr: "put_conv c w = (Inr c', w') \<Longrightarrow> c' = c \<and> ConversationSchema c \<and> get_conv (cd_id c) w' = Some c"
  by (auto simp: put_conv_def get_conv_def find_insert_or_replace split: if_splits)

text \<open>Settling a proposal leaves the found proposal in place with its new status.\<close>

lemma find_from_bounds: "find_from pid j ms = Some (k, p) \<Longrightarrow> j \<le> k \<and> k < j + length ms"
  by (induction ms arbitrary: j) (fastforce split: option.splits)+

lemma find_map_settle:
  "(\<And>p. cp_id (f p) = cp_id p) \<Longrightarrow>
   List.find (\<lambda>p. cp_id p = pid) (map (\<lambda>p. if cp_id p = pid then f p else p) ps) = map_option f (List.find (\<lambda>p. cp_id p = pid) ps)"
  by (induction ps) auto

lemma find_from_settle:
  assumes "\<And>p. cp_id (f p) = cp_id p" "find_from pid j ms = Some (k, p)"
  shows "find_from pid j (ms[k - j := (ms ! (k - j))\<lparr>cm_proposals := map (\<lambda>p. if cp_id p = pid then f p else p) (cm_proposals (ms ! (k - j)))\<rparr>]) = Some (k, f p)"
  using assms(2)
proof (induction ms arbitrary: j)
  case (Cons m ms)
  show ?case
  proof (cases "find_from pid (Suc j) ms")
    case None
    then show ?thesis using Cons.prems assms(1) by (auto simp: find_map_settle)
  next
    case (Some r)
    then have r: "find_from pid (Suc j) ms = Some (k, p)" using Cons.prems by simp
    then have "Suc j \<le> k" using find_from_bounds by blast
    then have "k - j = Suc (k - Suc j)" by simp
    then show ?thesis using Cons.IH [OF r] by simp
  qed
qed simp

lemma find_from_snoc: "cm_proposals m = [] \<Longrightarrow> find_from pid j (ms @ [m]) = find_from pid j ms"
  by (induction ms arbitrary: j) auto

lemma findProposal_settled:
  assumes "status \<noteq> Pending"
  shows "case findProposal (settle_in pid (settle status result now) c) pid of None \<Rightarrow> True | Some (_, p) \<Rightarrow> cp_status p \<noteq> Pending"
proof (cases "findProposal c pid")
  case None
  then show ?thesis by (simp add: settle_in_def)
next
  case (Some kp)
  obtain k p where kp: "kp = (k, p)" by (cases kp)
  with Some have f: "find_from pid 0 (cd_messages c) = Some (k, p)" by (simp add: findProposal_def)
  have "find_from pid 0 (cd_messages (settle_in pid (settle status result now) c)) = Some (k, settle status result now p)"
    using find_from_settle [where f = "settle status result now", OF _ f] Some kp by (simp add: settle_in_def settle_def)
  then show ?thesis using assms by (simp add: findProposal_def settle_def)
qed

definition no_longer_pending :: "id \<Rightarrow> id \<Rightarrow> ws \<Rightarrow> bool" where
  "no_longer_pending i pid w = (case get_conv i w of None \<Rightarrow> True | Some c \<Rightarrow> (case findProposal c pid of None \<Rightarrow> True | Some (_, p) \<Rightarrow> cp_status p \<noteq> Pending))"

lemma settled_refused: "no_longer_pending i pid w \<Longrightarrow> \<exists>err. resolveConversationProposal e i pid a r w = (Inl err, w)"
  by (auto simp: no_longer_pending_def resolveConversationProposal_def pending_proposal_def andThen_def mustGetConversation_def fails_def split: option.splits prod.splits)

lemma findProposal_append:
  "findProposal (c\<lparr>cd_messages := cd_messages c @ [new_message m r x now], cd_updatedAt := now'\<rparr>) pid = findProposal c pid"
  by (simp add: findProposal_def find_from_snoc new_message_def)

lemma append_record_Inr:
  assumes "appendAutomationRecord e i content w = (Inr c', w')"
  obtains c m now now' where "get_conv i w = Some c"
    "get_conv i w' = Some (c\<lparr>cd_messages := cd_messages c @ [new_message m Automation_role (take 2000 content) now], cd_updatedAt := now'\<rparr>)"
proof -
  obtain c where c: "get_conv i w = Some c" using assms by (auto simp: appendAutomationRecord_def andThen_Inr mustGet_Inr)
  then have "cd_id c = i" by (rule get_conv_id)
  with assms c show thesis
    by (auto simp: appendAutomationRecord_def andThen_Inr mustGet_Inr fails_def split: if_splits dest!: put_conv_Inr intro!: that)
qed

lemma settle_in_id [simp]: "cd_id (settle_in pid f c) = cd_id c"
  by (simp add: settle_in_def split: option.split)

lemma remembered_fields [simp]: "cd_id (remembered a r k c) = cd_id c" "cd_messages (remembered a r k c) = cd_messages c"
  by (simp_all add: remembered_def)

lemma write_outcome_settles:
  assumes "write_outcome e i p a r now status result w = (Inr c', w')" "status \<noteq> Pending"
  shows "no_longer_pending i (cp_id p) w'"
proof -
  let ?new = "\<lambda>c. (settle_in (cp_id p) (settle status result now) (remembered a r (cp_kind p) c))\<lparr>cd_updatedAt := now\<rparr>"
  obtain c w1 c1 where c: "get_conv i w = Some c" and put: "put_conv (?new c) w = (Inr c1, w1)"
    and app: "appendAutomationRecord e i (ce_prose e (Resolution status (cp_title p) result (a \<and> r))) w1 = (Inr c', w')"
    using assms(1) by (auto simp: write_outcome_def andThen_Inr mustGet_Inr)
  have "get_conv i w1 = Some (?new c)" using put_conv_Inr [OF put] get_conv_id [OF c] by simp
  with app obtain m now2 now3 where g: "get_conv i w' = Some ((?new c)\<lparr>cd_messages := cd_messages (?new c) @
      [new_message m Automation_role (take 2000 (ce_prose e (Resolution status (cp_title p) result (a \<and> r)))) now2], cd_updatedAt := now3\<rparr>)"
    by (elim append_record_Inr) auto
  have "findProposal (?new c) (cp_id p) = findProposal (settle_in (cp_id p) (settle status result now) (remembered a r (cp_kind p) c)) (cp_id p)"
    by (simp add: findProposal_def)
  then show ?thesis
    using findProposal_settled [OF assms(2), of "cp_id p" result now "remembered a r (cp_kind p) c"]
    by (simp only: no_longer_pending_def g option.case findProposal_append)
qed

lemma execute_step_status: "execute_step e a c p w = ((status, result), w') \<Longrightarrow> status \<noteq> Pending"
  by (auto simp: execute_step_def split: if_splits prod.splits)

lemma find_from_id: "find_from pid j ms = Some (k, p) \<Longrightarrow> cp_id p = pid"
  by (induction ms arbitrary: j) (auto simp: find_Some_iff split: option.splits)

lemma pending_Inr:
  assumes "pending_proposal i pid w = (Inr (c, p), w')"
  shows "w' = w \<and> get_conv i w = Some c \<and> cp_id p = pid \<and> cp_status p = Pending"
proof -
  obtain c0 where c0: "get_conv i w = Some c0" using assms by (auto simp: pending_proposal_def andThen_Inr mustGet_Inr)
  obtain k p0 where f: "findProposal c0 pid = Some (k, p0)"
    using assms c0 by (cases "findProposal c0 pid") (auto simp: pending_proposal_def andThen_def mustGetConversation_def fails_def)
  then have "cp_id p0 = pid" using find_from_id by (simp add: findProposal_def)
  then show ?thesis using assms c0 f
    by (cases "cp_status p0 = Pending") (auto simp: pending_proposal_def andThen_def mustGetConversation_def fails_def give_def)
qed

lemma resolve_settles:
  assumes "resolveConversationProposal e i pid a r w = (Inr c', w')"
  shows "no_longer_pending i pid w'"
proof -
  obtain c p w0 where p: "pending_proposal i pid w = (Inr (c, p), w0)" and rest: "resolve_rest e i a r (c, p) w0 = (Inr c', w')"
    using assms by (auto simp: resolveConversationProposal_def andThen_Inr)
  obtain status result w2 where "execute_step e a c p (snd (now_str e w0)) = ((status, result), w2)" by (metis surj_pair)
  moreover from this have "write_outcome e i p a r (ce_now e (ws_clock w0)) status result w2 = (Inr c', w')"
    using rest by (simp add: resolve_rest_def andThen_def now_str_def)
  ultimately show ?thesis using write_outcome_settles execute_step_status pending_Inr [OF p] by metis
qed

text \<open>What a rejection leaves alone.\<close>

definition outside :: "ws \<Rightarrow> automation list \<times> tool_integration list \<times> store \<times> id list" where
  "outside w = (ws_autos w, ws_tools w, ws_db w, ws_inflight w)"

lemma outside_andThen:
  "(\<And>w. outside (snd (m w)) = outside w) \<Longrightarrow> (\<And>x w. outside (snd (f x w)) = outside w) \<Longrightarrow> outside (snd (andThen m f w)) = outside w"
  by (simp add: andThen_def split: prod.split sum.split) (metis snd_conv)

lemma outside_basic:
  "outside (snd (now_str e w)) = outside w" "outside (snd (newId e k w)) = outside w" "outside (snd (mustGetConversation i w)) = outside w"
  "outside (snd (put_conv c w)) = outside w" "outside (snd (give x w)) = outside w" "outside (snd (fails err w)) = outside w"
  by (simp_all add: outside_def now_str_def newId_def mustGetConversation_def put_conv_def give_def fails_def split: option.split)

lemma outside_record: "outside (snd (appendAutomationRecord e i x w)) = outside w"
  unfolding appendAutomationRecord_def by (intro outside_andThen) (simp_all add: outside_basic outside_andThen)

lemma outside_outcome: "outside (snd (write_outcome e i p a r now status result w)) = outside w"
  unfolding write_outcome_def by (intro outside_andThen) (simp_all add: outside_basic outside_record)

lemma outside_reject: "outside (snd (resolveConversationProposal e i pid False r w)) = outside w"
  unfolding resolveConversationProposal_def resolve_rest_def pending_proposal_def
  by (intro outside_andThen) (simp_all add: outside_basic outside_outcome execute_step_def split: option.split prod.split)


text \<open>The gate is not held while an approved command runs: its proposal is still pending then, so a second approval that
  arrives meanwhile passes the gate too and runs the command again.\<close>

lemma get_conv_convs: "ws_convs w' = ws_convs w \<Longrightarrow> get_conv i w' = get_conv i w"
  by (simp add: get_conv_def)

lemma pending_convs: "ws_convs w' = ws_convs w \<Longrightarrow> fst (pending_proposal i pid w') = fst (pending_proposal i pid w) \<and> snd (pending_proposal i pid w') = w'"
  by (auto simp: pending_proposal_def andThen_def mustGetConversation_def get_conv_def fails_def give_def split: option.splits)

lemma approval_window:
  assumes gate: "pending_proposal i pid w = (Inr (c, p), w)" and kind: "cp_kind p = Run_command"
    and quiet: "\<And>cmd dir t w. ws_convs (snd (ce_command e cmd dir t w)) = ws_convs w"
  shows "pending_proposal i pid (snd (execute_step e True c p w)) = (Inr (c, p), snd (execute_step e True c p w))"
proof -
  have "ws_convs (snd (run_command e args w)) = ws_convs w" for args w
    using quiet by (auto simp: run_command_def fails_def give_def andThen_def Let_def split: option.splits prod.splits sum.splits)
      (metis snd_conv)+
  then have "ws_convs (snd (execute_step e True c p w)) = ws_convs w"
    by (simp add: execute_step_def executeProposal_def kind split: prod.split sum.split) (metis select_convs(1) snd_conv ws.ext_inject ws.surjective ws.update_convs(6))
  then show ?thesis using pending_convs gate by (metis fst_conv prod.collapse)
qed

section \<open>The researcher's words stay\<close>

definition holds :: "id \<Rightarrow> id \<Rightarrow> string \<Rightarrow> conv_seed list \<Rightarrow> ws \<Rightarrow> bool" where
  "holds i mid body ss w \<longleftrightarrow> (\<exists>c m. get_conv i w = Some c \<and> ConversationSchema c \<and> m \<in> set (cd_messages c) \<and>
     cm_id m = mid \<and> cm_role m = Researcher \<and> cm_content m = body \<and> cm_seeds m = ss)"

text \<open>The messages of a document that say the same in the same place.\<close>

definition says :: "id \<Rightarrow> string \<Rightarrow> conv_seed list \<Rightarrow> conv_message \<Rightarrow> bool" where
  "says mid body ss m \<longleftrightarrow> cm_id m = mid \<and> cm_role m = Researcher \<and> cm_content m = body \<and> cm_seeds m = ss"

definition safe :: "(ws \<Rightarrow> bool) \<Rightarrow> 'a act \<Rightarrow> bool" where
  "safe P m \<longleftrightarrow> (\<forall>w. P w \<longrightarrow> P (snd (m w)))"

lemma safe_andThen: "safe P m \<Longrightarrow> (\<And>x. safe P (f x)) \<Longrightarrow> safe P (andThen m f)"
  unfolding safe_def andThen_def by (fastforce split: prod.split sum.split)

lemma safe_pure: "safe P (give x)" "safe P (fails err)" "safe P (mustGetConversation i)"
  by (auto simp: safe_def give_def fails_def mustGetConversation_def split: option.split)

lemma holds_clock [simp]: "holds i mid body ss (w\<lparr>ws_clock := n\<rparr>) = holds i mid body ss w" "holds i mid body ss (w\<lparr>ws_ids := n\<rparr>) = holds i mid body ss w"
  "holds i mid body ss (w\<lparr>ws_autos := a\<rparr>) = holds i mid body ss w" "holds i mid body ss (w\<lparr>ws_tools := t\<rparr>) = holds i mid body ss w"
  "holds i mid body ss (w\<lparr>ws_db := d\<rparr>) = holds i mid body ss w" "holds i mid body ss (w\<lparr>ws_inflight := f\<rparr>) = holds i mid body ss w"
  by (simp_all add: holds_def get_conv_def)

lemma safe_clock: "safe (holds i mid body ss) (now_str e)" "safe (holds i mid body ss) (newId e k)"
  by (simp_all add: safe_def now_str_def newId_def)

text \<open>Reading a conversation and writing back a version that still has the message keeps it.\<close>

definition retains :: "id \<Rightarrow> string \<Rightarrow> conv_seed list \<Rightarrow> conv_doc \<Rightarrow> conv_doc \<Rightarrow> bool" where
  "retains mid body ss c c' \<longleftrightarrow> cd_id c' = cd_id c \<and> (list_ex (says mid body ss) (cd_messages c) \<longrightarrow> list_ex (says mid body ss) (cd_messages c'))"

lemma holds_says: "holds i mid body ss w \<longleftrightarrow> (\<exists>c. get_conv i w = Some c \<and> ConversationSchema c \<and> list_ex (says mid body ss) (cd_messages c))"
  unfolding holds_def list_ex_iff says_def by blast

lemma get_conv_put:
  "get_conv i (w\<lparr>ws_convs := insert_or_replace cd_id c (ws_convs w)\<rparr>) = (if cd_id c = i then Some c else get_conv i w)"
  by (simp add: get_conv_def find_insert_or_replace)

lemma holds_put:
  assumes "holds i mid body ss w" "get_conv k w = Some c" "retains mid body ss c c'"
  shows "holds i mid body ss (snd (put_conv c' w))"
  using assms get_conv_id [OF assms(2)] by (auto simp: holds_says put_conv_def get_conv_put retains_def)

lemma get_conv_ticks [simp]: "get_conv i (w\<lparr>ws_clock := n\<rparr>) = get_conv i w" "get_conv i (w\<lparr>ws_ids := n\<rparr>) = get_conv i w"
  "get_conv i (w\<lparr>ws_db := d\<rparr>) = get_conv i w" "get_conv i (w\<lparr>ws_inflight := f\<rparr>) = get_conv i w"
  by (simp_all add: get_conv_def)

text \<open>The state of an operation that has read a conversation and not written it yet.\<close>

definition track :: "id \<Rightarrow> id \<Rightarrow> string \<Rightarrow> conv_seed list \<Rightarrow> id \<Rightarrow> conv_doc \<Rightarrow> ws \<Rightarrow> bool" where
  "track i mid body ss k c w \<longleftrightarrow> holds i mid body ss w \<and> get_conv k w = Some c"

definition lands :: "(ws \<Rightarrow> bool) \<Rightarrow> (ws \<Rightarrow> bool) \<Rightarrow> 'a act \<Rightarrow> bool" where
  "lands P Q m \<longleftrightarrow> (\<forall>w. P w \<longrightarrow> Q (snd (m w)))"

lemma lands_seq: "safe P m \<Longrightarrow> (\<And>w. P w \<Longrightarrow> Q w) \<Longrightarrow> (\<And>x. lands P Q (f x)) \<Longrightarrow> lands P Q (andThen m f)"
  unfolding safe_def lands_def andThen_def by (fastforce split: prod.split sum.split)

lemma track_ticks: "safe (track i mid body ss k c) (now_str e)" "safe (track i mid body ss k c) (newId e p)"
  by (simp_all add: safe_def track_def now_str_def newId_def)

lemma track_now: "(\<And>x. lands (track i mid body ss k c) (holds i mid body ss) (f x)) \<Longrightarrow> lands (track i mid body ss k c) (holds i mid body ss) (andThen (now_str e) f)"
  by (rule lands_seq) (simp_all add: track_ticks, simp add: track_def)

lemma track_newId: "(\<And>x. lands (track i mid body ss k c) (holds i mid body ss) (f x)) \<Longrightarrow> lands (track i mid body ss k c) (holds i mid body ss) (andThen (newId e p) f)"
  by (rule lands_seq) (simp_all add: track_ticks, simp add: track_def)

lemma track_put: "retains mid body ss c c' \<Longrightarrow> lands (track i mid body ss k c) (holds i mid body ss) (put_conv c')"
  using holds_put by (auto simp: lands_def track_def)

lemma track_fails: "lands (track i mid body ss k c) (holds i mid body ss) (fails err)"
  by (simp add: lands_def track_def fails_def)

lemma safe_read:
  assumes "\<And>c. lands (track i mid body ss k c) (holds i mid body ss) (f c)"
  shows "safe (holds i mid body ss) (andThen (mustGetConversation k) f)"
  using assms by (auto simp: safe_def lands_def track_def andThen_def mustGetConversation_def split: option.split)

lemma retains_snoc: "retains mid body ss c (c\<lparr>cd_messages := cd_messages c @ [m], cd_updatedAt := now\<rparr>)"
  by (simp add: retains_def)

lemma retains_trivial: "retains mid body ss c (c\<lparr>cd_runIds := r, cd_status := s, cd_updatedAt := now\<rparr>)"
  by (simp add: retains_def)

lemma safe_record: "safe (holds i mid body ss) (appendAutomationRecord e k x)"
  unfolding appendAutomationRecord_def
  by (rule safe_read) (simp add: track_fails track_newId track_now track_put retains_snoc)

lemma safe_attach: "safe (holds i mid body ss) (attachRunToConversation e k r)"
  unfolding attachRunToConversation_def
  by (rule safe_read) (simp add: track_now track_put retains_trivial)

text \<open>Changing only proposals, or only the reply fields of messages, keeps what they say.\<close>

lemma says_fields [simp]:
  "says mid body ss (m\<lparr>cm_proposals := p\<rparr>) = says mid body ss m" "says mid body ss (m\<lparr>cm_replyError := x\<rparr>) = says mid body ss m"
  "says mid body ss (m\<lparr>cm_replyDraft := d\<rparr>) = says mid body ss m"
  by (simp_all add: says_def)

lemma list_ex_update: "k < length ms \<Longrightarrow> (P (ms ! k) \<Longrightarrow> P m) \<Longrightarrow> list_ex P ms \<Longrightarrow> list_ex P (ms[k := m])"
  unfolding list_ex_length by (metis length_list_update nth_list_update)

lemma retains_settle: "retains mid body ss c ((settle_in pid f (remembered a r kd c))\<lparr>cd_updatedAt := now\<rparr>)"
proof (cases "findProposal (remembered a r kd c) pid")
  case None then show ?thesis by (simp add: retains_def settle_in_def)
next
  case (Some kp)
  obtain k p where kp: "kp = (k, p)" by (cases kp)
  then have "k < length (cd_messages c)" using Some find_from_bounds [of pid 0 "cd_messages c" k p] by (simp add: findProposal_def)
  then show ?thesis using Some kp by (auto simp: retains_def settle_in_def intro!: list_ex_update)
qed

lemma andThen_assoc: "andThen (andThen m f) g = andThen m (\<lambda>x. andThen (f x) g)"
  by (rule ext) (simp add: andThen_def split: prod.split sum.split)

lemma safe_outcome: "safe (holds i mid body ss) (write_outcome e k p a r now st res)"
  unfolding write_outcome_def andThen_assoc [symmetric]
  by (intro safe_andThen safe_read track_put retains_settle safe_record)

text \<open>What the rest of the program may do meanwhile: start runs, run commands and write to the workspace, as long as the
  message stays where it is.\<close>

definition others_keep :: "conv_env \<Rightarrow> (ws \<Rightarrow> bool) \<Rightarrow> bool" where
  "others_keep e P \<longleftrightarrow>
     (\<forall>create q s p. ce_createRun e = Some create \<longrightarrow> safe P (create q s p)) \<and>
     (\<forall>cmd dir t. safe P (ce_command e cmd dir t)) \<and>
     (\<forall>c ti w f. Elsewhere f \<in> set (fst (ce_generate e c ti w)) \<longrightarrow> (\<forall>w. P w \<longrightarrow> P (f w)))"

lemma safe_launch: "others_keep e (holds i mid body ss) \<Longrightarrow> safe (holds i mid body ss) (launch_research e c args)"
  by (auto simp: launch_research_def others_keep_def intro!: safe_andThen safe_pure safe_attach split: option.split)

lemma safe_command: "others_keep e (holds i mid body ss) \<Longrightarrow> safe (holds i mid body ss) (run_command e args)"
  by (auto simp: run_command_def others_keep_def Let_def intro!: safe_andThen safe_pure split: option.split)

lemma safe_cancel: "safe (holds i mid body ss) (cancel_run_action e c args)" "safe (holds i mid body ss) (cancel_automation e c args now)"
  by (simp_all add: safe_def cancel_run_action_def cancel_automation_def put_auto_def split: option.split prod.split)

lemma safe_create: "safe (holds i mid body ss) (create_automation e c args now)"
  by (simp add: safe_def create_automation_def andThen_def newId_def fails_def put_auto_def Let_def split: option.split prod.split)

lemma safe_tool: "safe (holds i mid body ss) (create_tool e c args)"
proof (cases "CreateToolIntegrationArgsSchema (ce_isUrl e) args")
  case (Some da)
  obtain d ws where da: "da = (d, ws)" by (cases da)
  show ?thesis
    by (auto simp: create_tool_def Some da safe_pure intro!: safe_andThen safe_clock)
       (simp add: safe_def split: sum.split draft_error.split)
qed (simp add: create_tool_def safe_pure)

lemma safe_kind: "others_keep e (holds i mid body ss) \<Longrightarrow> safe (holds i mid body ss) (execute_kind e c now args kind)"
  by (cases kind) (simp_all add: safe_launch safe_command safe_cancel safe_create safe_tool)

lemma holds_execute:
  assumes "others_keep e (holds i mid body ss)" "holds i mid body ss w"
  shows "holds i mid body ss (snd (execute_step e a c p w))"
proof -
  have "holds i mid body ss (snd (execute_kind e c (ce_now e (ws_clock w)) (cp_args p) (cp_kind p) (w\<lparr>ws_clock := Suc (ws_clock w)\<rparr>)))"
    using safe_kind [OF assms(1)] assms(2) by (simp add: safe_def)
  then show ?thesis using assms(2) by (auto simp: execute_step_def executeProposal_def split: prod.split sum.split)
qed

lemma safe_resolve:
  assumes "others_keep e (holds i mid body ss)"
  shows "safe (holds i mid body ss) (resolveConversationProposal e k pid a r)"
proof -
  have rest: "safe (holds i mid body ss) (resolve_rest e k a r cp)" for cp
  proof -
    have "safe (holds i mid body ss) (\<lambda>w. case execute_step e a (fst cp) (snd cp) w of ((status, result), w') \<Rightarrow> write_outcome e k (snd cp) a r now status result w')" for now
      using holds_execute [OF assms] safe_outcome unfolding safe_def by (metis (no_types, lifting) case_prod_beta)
    then show ?thesis unfolding resolve_rest_def by (intro safe_andThen safe_clock)
  qed
  have "safe (holds i mid body ss) (pending_proposal k pid)"
    unfolding pending_proposal_def by (intro safe_andThen safe_pure) (auto simp: safe_pure split: option.split)
  with rest show ?thesis unfolding resolveConversationProposal_def by (intro safe_andThen)
qed

lemma list_ex_map_says: "(\<And>m. says mid body ss (f m) = says mid body ss m) \<Longrightarrow> list_ex (says mid body ss) (map f ms) = list_ex (says mid body ss) ms"
  by (induction ms) auto

lemma retains_set_message: "(\<And>m. says mid body ss (f m) = says mid body ss m) \<Longrightarrow> retains mid body ss c ((set_message k f c)\<lparr>cd_updatedAt := now\<rparr>)"
  by (simp add: retains_def set_message_def list_ex_map_says)

lemma safe_draft: "safe (holds i mid body ss) (writeReplyDraft e k m d)"
proof -
  have "lands (track i mid body ss k c) (holds i mid body ss) (andThen (andThen (now_str e) (\<lambda>now. put_conv ((set_message m
               (\<lambda>m. m\<lparr>cm_replyDraft := x\<rparr>) c)\<lparr>cd_updatedAt := now\<rparr>))) (\<lambda>_. give ()))" for c x
  proof -
    have l: "lands (track i mid body ss k c) (holds i mid body ss) (andThen (now_str e) (\<lambda>now. put_conv ((set_message m (\<lambda>m. m\<lparr>cm_replyDraft := x\<rparr>) c)\<lparr>cd_updatedAt := now\<rparr>)))"
      by (intro track_now track_put retains_set_message) simp
    then show ?thesis unfolding lands_def andThen_def [of "andThen _ _"] by (auto simp: give_def split: prod.split sum.split)
  qed
  then show ?thesis
    by (auto simp: safe_def writeReplyDraft_def lands_def track_def andThen_assoc split: option.split)
qed

lemma holds_observe: "holds i mid body ss w \<Longrightarrow> holds i mid body ss (snd (observe e k m force now d w))"
proof -
  assume h: "holds i mid body ss w"
  have "safe (holds i mid body ss) (flushDraft e k m force now d)"
    unfolding flushDraft_def by (auto intro!: safe_andThen safe_pure safe_draft)
  then show ?thesis using h by (auto simp: safe_def observe_def split: prod.split sum.split)
qed

lemma holds_progress:
  "(\<And>f. Elsewhere f \<in> set evs \<Longrightarrow> \<forall>w. holds i mid body ss w \<longrightarrow> holds i mid body ss (f w)) \<Longrightarrow> holds i mid body ss w \<Longrightarrow>
   holds i mid body ss (snd (fold (onProgress e k m) evs (d, w)))"
proof (induction evs arbitrary: d w)
  case (Cons ev evs)
  have "holds i mid body ss (snd (onProgress e k m ev (d, w)))"
    using Cons.prems by (cases ev) (simp_all add: holds_observe)
  then show ?case using Cons.IH [of "snd (onProgress e k m ev (d, w))" "fst (onProgress e k m ev (d, w))"] Cons.prems(1) by simp
qed simp

lemma safe_generate:
  assumes "others_keep e (holds i mid body ss)"
  shows "safe (holds i mid body ss) (generate_turn e k c m)"
  unfolding safe_def
proof (intro allI impI)
  fix w assume h: "holds i mid body ss w"
  obtain evs r where g: "ce_generate e c (turn_of w c m) w = (evs, r)" by (cases "ce_generate e c (turn_of w c m) w")
  obtain d w' where f: "fold (onProgress e k (cm_id m)) evs (draft_start m, w) = (d, w')" by (cases "fold (onProgress e k (cm_id m)) evs (draft_start m, w)")
  have "\<And>f. Elsewhere f \<in> set evs \<Longrightarrow> \<forall>w. holds i mid body ss w \<longrightarrow> holds i mid body ss (f w)"
    using assms g unfolding others_keep_def by (metis fst_conv)
  then have "holds i mid body ss w'" using holds_progress [where evs = evs, OF _ h] f by (metis snd_conv)
  moreover have "safe (holds i mid body ss) (andThen (writeReplyDraft e k (cm_id m) (ds_draft d)) (\<lambda>_ w. (r, w)))"
    by (intro safe_andThen safe_draft) (simp add: safe_def)
  ultimately show "holds i mid body ss (snd (generate_turn e k c m w))" by (simp add: generate_turn_def g f safe_def)
qed

lemma index_of_Some: "index_of p xs = Some k \<Longrightarrow> k < length xs \<and> p (xs ! k)"
  by (induction xs arbitrary: k) (auto split: if_splits)

lemma retains_land:
  assumes "k < length (cd_messages c)"
  shows "retains mid body ss c (c\<lparr>cd_messages := take k (cd_messages c) @ [(cd_messages c ! k)\<lparr>cm_replyError := None, cm_replyDraft := None\<rparr>, a] @ drop (Suc k) (cd_messages c),
           cd_turns := t, cd_updatedAt := now\<rparr>)"
proof -
  have "list_ex P (cd_messages c) = list_ex P (take k (cd_messages c) @ cd_messages c ! k # drop (Suc k) (cd_messages c))" for P
    using id_take_nth_drop [OF assms] by metis
  then show ?thesis by (auto simp: retains_def)
qed

lemma safe_land: "safe (holds i mid body ss) (land_reply e k m g r)"
  unfolding land_reply_def
proof (rule safe_read)
  fix c
  show "lands (track i mid body ss k c) (holds i mid body ss)
     (case index_of (\<lambda>x. cm_id x = m) (cd_messages c) of
         None \<Rightarrow> fails (Validation_conv ''the answered message disappeared while the turn ran'')
       | Some k \<Rightarrow>
           andThen (newId e ''cmsg'') (\<lambda>aid. andThen (now_str e) (\<lambda>now. andThen (now_str e) (\<lambda>now'.
             put_conv (c\<lparr>cd_messages := take k (cd_messages c) @ [(cd_messages c ! k)\<lparr>cm_replyError := None, cm_replyDraft := None\<rparr>,
                  agent_message e aid now (candidate_count (cd_messages c)) g r] @ drop (Suc k) (cd_messages c),
                cd_turns := Suc (cd_turns c), cd_updatedAt := now'\<rparr>)))))"
  proof (cases "index_of (\<lambda>x. cm_id x = m) (cd_messages c)")
    case (Some j)
    then show ?thesis using index_of_Some by (simp only: option.case) (intro track_newId track_now track_put retains_land, blast)
  qed (simp add: track_fails)
qed

lemma safe_granted: "others_keep e (holds i mid body ss) \<Longrightarrow> safe (holds i mid body ss) (run_granted e k ps)"
  by (induction ps) (auto intro!: safe_andThen safe_pure safe_resolve)

lemma safe_turn:
  assumes "others_keep e (holds i mid body ss)"
  shows "safe (holds i mid body ss) (runAndLandTurn e k c m)"
proof (cases "List.find (\<lambda>x. cm_id x = m) (cd_messages c)")
  case (Some x)
  have "safe (holds i mid body ss) (case (gn_status g = ''completed'', gn_reply g) of
              (True, Some r) \<Rightarrow> andThen (land_reply e k m g r) (\<lambda>_. andThen (run_granted e k (gn_proposals g)) (\<lambda>_. mustGetConversation k))
            | _ \<Rightarrow> if gn_status g = ''aborted'' then fails Turn_cancelled
                else fails (Model_failed (''resident agent turn failed ('' @ gn_status g @ ''): '' @ (case gn_error g of Some x \<Rightarrow> x | None \<Rightarrow> ''no reply''))))" for g
    by (cases "gn_reply g"; cases "gn_status g = ''completed''") (simp_all add: safe_andThen safe_land safe_granted assms safe_pure)
  then show ?thesis by (simp add: runAndLandTurn_def Some safe_andThen safe_generate assms)
qed (simp add: runAndLandTurn_def safe_pure)

text \<open>A failure is written on the message.\<close>

lemma schema_set_error:
  assumes "ConversationSchema c" "length x \<le> 2000" "now \<noteq> []"
  shows "ConversationSchema ((set_message mid (\<lambda>m. m\<lparr>cm_replyError := Some x\<rparr>) c)\<lparr>cd_updatedAt := now\<rparr>)"
proof -
  have "ConversationMessageSchema (m\<lparr>cm_replyError := Some x\<rparr>)" if "ConversationMessageSchema m" for m
    using that assms(2) by (simp add: ConversationMessageSchema_def opt_max_def)
  then show ?thesis using assms by (auto simp: ConversationSchema_def set_message_def list_all_iff)
qed

lemma marked_message:
  assumes "holds i mid body ss w" "\<And>n. ce_now e n \<noteq> []"
  shows "\<exists>c m. get_conv i (markReplyFailed e i mid err w) = Some c \<and> m \<in> set (cd_messages c) \<and> says mid body ss m \<and>
           cm_replyError m = Some (take 2000 (error_text err))"
proof -
  obtain c m where c: "get_conv i w = Some c" "ConversationSchema c" "m \<in> set (cd_messages c)" "says mid body ss m"
    using assms(1) by (auto simp: holds_says list_ex_iff)
  define c' where "c' = (set_message mid (\<lambda>m. m\<lparr>cm_replyError := Some (take 2000 (error_text err))\<rparr>) c)\<lparr>cd_updatedAt := ce_now e (ws_clock w)\<rparr>"
  have s: "ConversationSchema c'" unfolding c'_def by (rule schema_set_error) (use c assms(2) in auto)
  have "list_ex (\<lambda>m. cm_id m = mid) (cd_messages c)" using c(3,4) by (auto simp: list_ex_iff says_def)
  then have "get_conv i (markReplyFailed e i mid err w) = get_conv i (snd (put_conv c' (w\<lparr>ws_clock := Suc (ws_clock w)\<rparr>)))"
    by (simp add: markReplyFailed_def c(1) andThen_def now_str_def c'_def)
  also have "\<dots> = Some c'" using s get_conv_id [OF c(1)] get_conv_put [of i _ "w\<lparr>ws_clock := Suc (ws_clock w)\<rparr>"] by (simp add: put_conv_def c'_def set_message_def)
  finally show ?thesis using c(3,4) by (auto simp: c'_def set_message_def says_def intro!: exI [of _ "m\<lparr>cm_replyError := Some (take 2000 (error_text err))\<rparr>"])
qed

definition message_kept :: "id \<Rightarrow> id \<Rightarrow> string \<Rightarrow> conv_seed list \<Rightarrow> conv_error + conv_doc \<Rightarrow> ws \<Rightarrow> bool" where
  "message_kept i mid body ss r w \<longleftrightarrow> (\<exists>c m. get_conv i w = Some c \<and> m \<in> set (cd_messages c) \<and> says mid body ss m \<and>
     (\<forall>err. r = Inl err \<longrightarrow> cm_replyError m = Some (take 2000 (error_text err))))"

lemma marked_keeps:
  assumes "safe (holds i mid body ss) act" "holds i mid body ss w" "\<And>n. ce_now e n \<noteq> []" "marked e i mid act w = (r, w')"
  shows "message_kept i mid body ss r w'"
proof (cases "act w")
  case (Pair x w1)
  then have h: "holds i mid body ss w1" using assms(1,2) by (auto simp: safe_def)
  show ?thesis
  proof (cases x)
    case (Inl err)
    then have "r = Inl err" "w' = markReplyFailed e i mid err w1" using assms(4) Pair by (auto simp: marked_def)
    then show ?thesis using marked_message [OF h assms(3), of err] by (auto simp: message_kept_def)
  next
    case (Inr y)
    then have "r = Inr y" "w' = w1" using assms(4) Pair by (auto simp: marked_def)
    then show ?thesis using h by (auto simp: message_kept_def holds_says list_ex_iff)
  qed
qed

text \<open>The message that is posted satisfies the schema.\<close>

lemma read_seeds_ok: "read_seeds j vs = Inr ss \<Longrightarrow> length ss = length vs \<and> list_all ConversationSeedSchema ss"
proof (induction vs arbitrary: j ss)
  case (Cons v vs)
  then obtain s ss' where "read_seed v = Some s" "read_seeds (Suc j) vs = Inr ss'" "ss = s # ss'"
    by (auto split: if_splits option.splits sum.splits)
  moreover have "ConversationSeedSchema s" using \<open>read_seed v = Some s\<close> by (auto simp: read_seed_def Let_def bind_eq_Some_conv split: if_splits)
  ultimately show ?case using Cons.IH by auto
qed simp

lemma parse_seeds_ok: "parseConversationSeeds v = Inr ss \<Longrightarrow> length ss \<le> 50 \<and> list_all ConversationSeedSchema ss"
  by (cases v) (auto split: if_splits dest: read_seeds_ok)

lemma with_message_schema:
  assumes "ConversationSchema c" "length (cd_messages c) < MAX_MESSAGES" "body \<noteq> []" "length ss \<le> 50" "list_all ConversationSeedSchema ss"
    "prefixed_id ''cmsg_'' mid" "now \<noteq> []"
  shows "ConversationSchema (with_message e c (researcher_message mid body ss now) body now)"
proof -
  have "ConversationMessageSchema (researcher_message mid body ss now)"
    using assms by (simp add: ConversationMessageSchema_def researcher_message_def new_message_def opt_max_def)
  moreover have "length_in 1 120 (take 60 body)" using assms(3) by (cases body) (simp_all add: length_in_def)
  ultimately show ?thesis using assms(1,2,7) by (simp add: ConversationSchema_def with_message_def MAX_MESSAGES_def)
qed

lemma andThen_now: "andThen (now_str e) f w = f (ce_now e (ws_clock w)) (w\<lparr>ws_clock := Suc (ws_clock w)\<rparr>)"
  by (simp add: andThen_def now_str_def)

lemma andThen_newId: "andThen (newId e p) f w = f (ce_newId e p (ws_ids w)) (w\<lparr>ws_ids := Suc (ws_ids w)\<rparr>)"
  by (simp add: andThen_def newId_def)

lemma andThen_must: "get_conv i w = Some c \<Longrightarrow> andThen (mustGetConversation i) f w = f c w"
  by (simp add: andThen_def mustGetConversation_def)

lemma post_body_keeps:
  assumes c: "get_conv i w = Some c" "ConversationSchema c" "length (cd_messages c) < MAX_MESSAGES"
    and t: "trim t \<noteq> []" and s: "parseConversationSeeds seeds = Inr ss"
    and env: "\<And>n. ce_now e n \<noteq> []" "\<And>n. prefixed_id ''cmsg_'' (ce_newId e ''cmsg'' n)"
    and others: "others_keep e (holds i (ce_newId e ''cmsg'' (ws_ids w)) (take 20000 (trim t)) ss)"
    and run: "post_body e i (Some t) seeds w = (r, w')"
  shows "message_kept i (ce_newId e ''cmsg'' (ws_ids w)) (take 20000 (trim t)) ss r w'"
proof -
  define mid where "mid = ce_newId e ''cmsg'' (ws_ids w)"
  define body where "body = take 20000 (trim t)"
  define now where "now = ce_now e (ws_clock w)"
  define c' where "c' = with_message e c (researcher_message mid body ss now) body now"
  have b: "body \<noteq> []" using t by (simp add: body_def)
  have s': "ConversationSchema c'" unfolding c'_def
    by (rule with_message_schema [OF c(2,3) b]) (use parse_seeds_ok [OF s] env in \<open>auto simp: mid_def now_def\<close>)
  define w1 where "w1 = w\<lparr>ws_clock := Suc (ws_clock w), ws_ids := Suc (ws_ids w), ws_convs := insert_or_replace cd_id c' (ws_convs w)\<rparr>"
  have ci: "cd_id c' = i" using get_conv_id [OF c(1)] by (simp add: c'_def with_message_def)
  have "get_conv i w1 = Some c'" using ci by (simp add: w1_def get_conv_def find_insert_or_replace)
  moreover have "list_ex (says mid body ss) (cd_messages c')"
    by (simp add: c'_def with_message_def says_def researcher_message_def new_message_def)
  ultimately have h: "holds i mid body ss w1" using s' unfolding holds_says by blast
  have "post_body e i (Some t) seeds w = andThen (put_conv c') (\<lambda>c'. marked e i mid (runAndLandTurn e i c' mid)) (w\<lparr>ws_clock := Suc (ws_clock w), ws_ids := Suc (ws_ids w)\<rparr>)"
    using c(3) t by (simp add: post_body_def andThen_must [OF c(1)] s andThen_now andThen_newId not_le Let_def mid_def body_def now_def c'_def)
  then have "marked e i mid (runAndLandTurn e i c' mid) w1 = (r, w')"
    using run s' by (simp add: andThen_def put_conv_def w1_def)
  then show ?thesis using marked_keeps [OF safe_turn [OF others] h [unfolded mid_def body_def] env(1)] by (simp add: mid_def body_def)
qed

text \<open>A resolution lands whenever the conversation has room for its record.\<close>

lemma schema_settle:
  assumes "ConversationSchema c" "now \<noteq> []"
  shows "ConversationSchema ((settle_in pid (settle st res now) (remembered a r kd c))\<lparr>cd_updatedAt := now\<rparr>)"
proof -
  let ?c = "remembered a r kd c"
  have pr: "ConversationProposalSchema (settle st res now p)" if "ConversationProposalSchema p" for p
    using that assms(2) by (auto simp: ConversationProposalSchema_def settle_def opt_max_def)
  have msg: "ConversationMessageSchema (m\<lparr>cm_proposals := map (\<lambda>p. if cp_id p = pid then settle st res now p else p) (cm_proposals m)\<rparr>)"
    if "ConversationMessageSchema m" for m
    using that pr by (auto simp: ConversationMessageSchema_def list_all_iff)
  have auto: "length (cd_autoApprove ?c) \<le> 10" using assms(1) by (simp add: ConversationSchema_def remembered_def)
  have rest: "ConversationSchema (?c\<lparr>cd_messages := ms, cd_updatedAt := now\<rparr>)"
    if "list_all ConversationMessageSchema ms" "length ms = length (cd_messages c)" for ms
    using that assms auto by (auto simp: ConversationSchema_def remembered_def)
  have ms: "list_all ConversationMessageSchema (cd_messages c)" using assms(1) by (simp add: ConversationSchema_def)
  show ?thesis
  proof (cases "findProposal ?c pid")
    case None then show ?thesis using assms by (auto simp: settle_in_def ConversationSchema_def remembered_def)
  next
    case (Some kp)
    obtain k p where kp: "kp = (k, p)" by (cases kp)
    then have k: "k < length (cd_messages c)" using Some find_from_bounds [of pid 0 "cd_messages c" k p] by (simp add: findProposal_def)
    have "ConversationMessageSchema (cd_messages c ! k)" using ms k by (simp add: list_all_length)
    then have "list_all ConversationMessageSchema ((cd_messages c)[k := (cd_messages c ! k)\<lparr>cm_proposals := map (\<lambda>p. if cp_id p = pid then settle st res now p else p) (cm_proposals (cd_messages c ! k))\<rparr>])"
      using msg ms k by (simp add: list_all_length nth_list_update)
    from rest [OF this] show ?thesis using Some kp by (simp add: settle_in_def)
  qed
qed

definition env_ok :: "conv_env \<Rightarrow> bool" where
  "env_ok e \<longleftrightarrow> (\<forall>n. ce_now e n \<noteq> []) \<and> (\<forall>n. prefixed_id ''cmsg_'' (ce_newId e ''cmsg'' n)) \<and> (\<forall>p. ce_prose e p \<noteq> [])"

lemma record_lands:
  assumes "env_ok e" "get_conv i w = Some c" "ConversationSchema c" "length (cd_messages c) < MAX_MESSAGES" "x \<noteq> []"
  shows "\<exists>c' w'. appendAutomationRecord e i x w = (Inr c', w')"
proof -
  have "ConversationMessageSchema (new_message (ce_newId e ''cmsg'' n) Automation_role (take 2000 x) (ce_now e m))" for n m
    using assms(1,5) by (simp add: ConversationMessageSchema_def new_message_def opt_max_def env_ok_def)
  then have "ConversationSchema (c\<lparr>cd_messages := cd_messages c @ [new_message (ce_newId e ''cmsg'' n) Automation_role (take 2000 x) (ce_now e m)], cd_updatedAt := ce_now e m'\<rparr>)" for n m m'
    using assms(1,3,4) by (simp add: ConversationSchema_def MAX_MESSAGES_def env_ok_def)
  then show ?thesis using assms(4)
    by (simp add: appendAutomationRecord_def andThen_must [OF assms(2)] andThen_now andThen_newId put_conv_def not_le)
qed

lemma outcome_lands:
  assumes "env_ok e" "get_conv i w = Some c" "ConversationSchema c" "length (cd_messages c) < MAX_MESSAGES" "now \<noteq> []"
  shows "\<exists>c' w'. write_outcome e i p a r now st res w = (Inr c', w')"
proof -
  let ?c = "(settle_in (cp_id p) (settle st res now) (remembered a r (cp_kind p) c))\<lparr>cd_updatedAt := now\<rparr>"
  have s: "ConversationSchema ?c" using assms(3,5) by (rule schema_settle)
  have "cd_id ?c = i" using get_conv_id [OF assms(2)] by simp
  then have "get_conv i (w\<lparr>ws_convs := insert_or_replace cd_id ?c (ws_convs w)\<rparr>) = Some ?c" by (subst get_conv_put) simp
  moreover have "length (cd_messages ?c) = length (cd_messages c)" by (simp add: settle_in_def split: option.split)
  ultimately have "\<exists>c' w'. appendAutomationRecord e i (ce_prose e (Resolution st (cp_title p) res (a \<and> r))) (w\<lparr>ws_convs := insert_or_replace cd_id ?c (ws_convs w)\<rparr>) = (Inr c', w')"
    using record_lands [OF assms(1) _ s] assms(1,4) by (auto simp: env_ok_def)
  then show ?thesis using s by (simp add: write_outcome_def andThen_must [OF assms(2)] andThen_def [of "put_conv _"] put_conv_def)
qed

lemma reject_lands:
  assumes "env_ok e" "pending_proposal i pid w = (Inr (c, p), w)" "ConversationSchema c" "length (cd_messages c) < MAX_MESSAGES"
  shows "\<exists>c' w'. resolveConversationProposal e i pid False r w = (Inr c', w')"
proof -
  have "get_conv i (w\<lparr>ws_clock := Suc (ws_clock w)\<rparr>) = Some c" using pending_Inr [OF assms(2)] by simp
  from outcome_lands [OF assms(1) this assms(3,4)] show ?thesis using assms(1)
    by (simp add: resolveConversationProposal_def andThen_def [of "pending_proposal _ _"] assms(2) resolve_rest_def andThen_now execute_step_def env_ok_def)
qed

text \<open>C13. The researcher's message survives the model: once a text passes the checks, whatever the model turn does
  (fail, be cancelled, throw, disappear in a schema violation, or land and then fail while granted actions run) the
  message is in the conversation afterwards with its full text and materials, and when the call fails the reason is
  written on the message. The other parts of the program may write meanwhile as long as they leave the message in place.\<close>

theorem message_survives:
  assumes "get_conv i w = Some c" "ConversationSchema c" "length (cd_messages c) < MAX_MESSAGES" "i \<notin> set (ws_inflight w)"
    and "trim t \<noteq> []" "parseConversationSeeds seeds = Inr ss"
    and "\<And>n. ce_now e n \<noteq> []" "\<And>n. prefixed_id ''cmsg_'' (ce_newId e ''cmsg'' n)"
    and "others_keep e (holds i (ce_newId e ''cmsg'' (ws_ids w)) (take 20000 (trim t)) ss)"
    and "postConversationMessage e i (Some t) seeds w = (r, w')"
  shows "message_kept i (ce_newId e ''cmsg'' (ws_ids w)) (take 20000 (trim t)) ss r w' \<and> i \<notin> set (ws_inflight w')"
proof -
  obtain w1 where run: "post_body e i (Some t) seeds (w\<lparr>ws_inflight := i # ws_inflight w\<rparr>) = (r, w1)"
    and w': "w' = w1\<lparr>ws_inflight := removeAll i (ws_inflight w1)\<rparr>"
    using assms(4,10) by (auto simp: postConversationMessage_def serializeTurn_def split: prod.splits)
  have "message_kept i (ce_newId e ''cmsg'' (ws_ids w)) (take 20000 (trim t)) ss r w1"
    using post_body_keeps [where w = "w\<lparr>ws_inflight := i # ws_inflight w\<rparr>", OF _ assms(2,3,5,6,7,8) _ run] assms(1,9) by simp
  then show ?thesis by (simp add: w' message_kept_def)
qed

section \<open>A small conversation\<close>

definition demo_proposal :: conv_proposal where
  "demo_proposal = \<lparr>cp_id = ''act_1'', cp_kind = Cancel_automation, cp_title = ''stop'', cp_args = JObj [(''automationId'', JStr ''auto_1'')],
     cp_status = Pending, cp_result = None, cp_autoApproved = False, cp_riskLevel = None, cp_argSummary = None, cp_createdAt = ''t'', cp_resolvedAt = None\<rparr>"

definition demo_conv :: conv_doc where
  "demo_conv = \<lparr>cd_id = ''conv_1'', cd_title = ''demo'', cd_status = Conv_open, cd_providerConfigId = None, cd_reasoningGear = None,
     cd_messages = [(new_message ''cmsg_0'' Agent ''shall I stop it?'' ''t'')\<lparr>cm_proposals := [demo_proposal]\<rparr>], cd_runIds = [], cd_turns = 1,
     cd_autoApprove = [], cd_createdAt = ''t'', cd_updatedAt = ''t''\<rparr>"

text \<open>A model that reports two pieces of a reply and then fails.\<close>

definition demo_conv_env :: conv_env where
  "demo_conv_env = \<lparr>ce_now = (\<lambda>n. ''now''), ce_instant = int, ce_newId = (\<lambda>p n. p @ ''_'' @ str_of_nat n), ce_prose = (\<lambda>_. ''text''), ce_sha = (\<lambda>s. s),
     ce_isUrl = (\<lambda>_. True), ce_root = ''/ws'',
     ce_generate = (\<lambda>c ti w. ([Reply_delta 500 ''par'', Reply_delta 1000 ''tial''], Inr \<lparr>gn_status = ''model_error'', gn_error = Some ''timeout'', gn_reply = None,
        gn_toolTrace = [], gn_proposals = [], gn_usage = None, gn_thinking = None\<rparr>)),
     ce_createRun = None, ce_command = (\<lambda>_ _ _ w. (Inl (Thrown ''no shell''), w))\<rparr>"

definition demo_ws :: ws where
  "demo_ws = \<lparr>ws_convs = [demo_conv], ws_autos = [], ws_tools = [], ws_db = empty_store, ws_inflight = [], ws_clock = 0, ws_ids = 5\<rparr>"

lemma demo_schema: "ConversationSchema demo_conv"
  by (simp add: ConversationSchema_def demo_conv_def ConversationMessageSchema_def new_message_def ConversationProposalSchema_def demo_proposal_def
      prefixed_id_def starts_with_def id_char_def is_digit_def length_in_def opt_max_def)

lemma demo_room: "length (cd_messages demo_conv) < MAX_MESSAGES"
  by (simp add: demo_conv_def MAX_MESSAGES_def)

lemma demo_others: "others_keep demo_conv_env P"
  by (simp add: others_keep_def demo_conv_env_def safe_def)

lemma demo_message_id: "prefixed_id ''cmsg_'' (ce_newId demo_conv_env ''cmsg'' n)"
proof -
  have "list_all id_char (str_of_nat n)" using digits_of_nat_digits by (auto simp: str_of_nat_def list_all_iff id_char_def)
  moreover have "str_of_nat n \<noteq> []" by (simp add: str_of_nat_def)
  ultimately show ?thesis by (simp add: prefixed_id_def demo_conv_env_def starts_with_def)
qed

theorem message_survives_witness:
  "message_kept ''conv_1'' ''cmsg_5'' ''why?'' [] (fst (postConversationMessage demo_conv_env ''conv_1'' (Some '' why? '') JUndef demo_ws))
     (snd (postConversationMessage demo_conv_env ''conv_1'' (Some '' why? '') JUndef demo_ws))"
proof -
  have "ce_newId demo_conv_env ''cmsg'' (ws_ids demo_ws) = ''cmsg_5''" by code_simp
  moreover have "trim '' why? '' = ''why?''" by code_simp
  moreover have "get_conv ''conv_1'' demo_ws = Some demo_conv" by (simp add: get_conv_def demo_ws_def demo_conv_def)
  moreover note demo_room
  moreover have "''conv_1'' \<notin> set (ws_inflight demo_ws)" by (simp add: demo_ws_def)
  moreover have "ce_now demo_conv_env n \<noteq> []" for n by (simp add: demo_conv_env_def)
  ultimately show ?thesis
    using message_survives [of "''conv_1''" demo_ws demo_conv "'' why? ''" JUndef "[]" demo_conv_env, OF _ demo_schema _ _ _ _ _ demo_message_id demo_others prod.collapse [symmetric]]
    by simp
qed

lemma demo_env_ok: "env_ok demo_conv_env"
  using demo_message_id by (simp add: env_ok_def) (simp add: demo_conv_env_def)

lemma demo_pending: "pending_proposal ''conv_1'' ''act_1'' demo_ws = (Inr (demo_conv, demo_proposal), demo_ws)"
  by (simp add: pending_proposal_def andThen_def mustGetConversation_def get_conv_def demo_ws_def findProposal_def demo_conv_def demo_proposal_def give_def fails_def)


end
