(* ===== verification/Automations.thy ===== *)
theory Automations
  imports Conversations
begin

text \<open>
  The automation engine, \<^verbatim>\<open>src/src/server/automations.ts\<close>, with the store's atomic claim of a fire: standing
  instructions that run agent turns in their conversation on a schedule or when a run completes. A tick works
  on the automations as they were listed at its start; the claim and the final mark read them afresh. An instant
  is in milliseconds; reading a text as an instant is an argument.
\<close>

section \<open>The store's side\<close>

text \<open>The newest runs first.\<close>

definition listRuns :: "nat \<Rightarrow> store \<Rightarrow> run_row list" where
  "listRuns n db = take n (sort_by (\<lambda>a b. rr_createdAt b - rr_createdAt a) (db_runs db))"

text \<open>One statement: the fire time is advanced only while it is still the one observed. A null written over the time of
  the last update is kept as the empty text.\<close>

definition claimAutomationFire :: "id \<Rightarrow> string option \<Rightarrow> string option \<Rightarrow> ws \<Rightarrow> bool \<times> ws" where
  "claimAutomationFire i observed ts w =
     (case get_auto i w of
        None \<Rightarrow> (False, w)
      | Some a \<Rightarrow>
          if au_lastFiredAt a \<noteq> observed then (False, w)
          else (True, w\<lparr>ws_autos := map (\<lambda>x. if au_id x = i then x\<lparr>au_lastFiredAt := ts, au_updatedAt := (case ts of Some t \<Rightarrow> t | None \<Rightarrow> [])\<rparr> else x) (ws_autos w)\<rparr>))"

section \<open>Firing\<close>

definition automated_input :: "conv_env \<Rightarrow> ws \<Rightarrow> automation \<Rightarrow> conv_doc \<Rightarrow> string \<Rightarrow> turn_input" where
  "automated_input e w a c notice = \<lparr>ti_text = ce_prose e (Fire_prompt (au_trigger a) notice (au_task a)), ti_seeds = [], ti_history = take_last 24 (cd_messages c),
     ti_automated = True, ti_maxTurns = Some (au_maxTurnsPerFire a), ti_session = (au_conversationId a, au_id a @ '':'' @ str_of_nat (au_fireCount a)),
     ti_reasoning = effectiveConversationReasoning w c\<rparr>"

text \<open>Nobody observes the progress of an automated turn; the other writers are there as before.\<close>

fun elsewhere :: "turn_progress \<Rightarrow> ws \<Rightarrow> ws" where
  "elsewhere (Elsewhere f) w = f w"
| "elsewhere _ w = w"

text \<open>Remembered grants are blanked: the turn sees a conversation that approves nothing by itself.\<close>

definition automated_turn :: "conv_env \<Rightarrow> automation \<Rightarrow> conv_doc \<Rightarrow> string \<Rightarrow> generation act" where
  "automated_turn e a c notice w =
     (case ce_generate e (c\<lparr>cd_autoApprove := []\<rparr>) (automated_input e w a c notice) w of (events, result) \<Rightarrow> (result, fold elsewhere events w))"

definition append_reply :: "conv_env \<Rightarrow> id \<Rightarrow> nat \<Rightarrow> generation \<Rightarrow> string \<times> string list \<times> (string \<times> string) list \<Rightarrow> unit act" where
  "append_reply e i n g r w =
     (case get_conv i w of
        None \<Rightarrow> (Inr (), w)
      | Some c \<Rightarrow>
          andThen (newId e ''cmsg'') (\<lambda>mid. andThen (now_str e) (\<lambda>now. andThen (now_str e) (\<lambda>now'.
            andThen (put_conv (c\<lparr>cd_messages := cd_messages c @ [(agent_message e mid now n g r)\<lparr>cm_thinking := None\<rparr>],
              cd_turns := Suc (cd_turns c), cd_updatedAt := now'\<rparr>)) (\<lambda>_. give ())))) w)"

definition fire_turn :: "conv_env \<Rightarrow> automation \<Rightarrow> conv_doc \<Rightarrow> string \<Rightarrow> unit act" where
  "fire_turn e a c notice =
     andThen (appendAutomationRecord e (au_conversationId a) (ce_prose e (Fire_notice (au_label a) (au_trigger a) notice (au_task a)))) (\<lambda>_.
     andThen (automated_turn e a c notice) (\<lambda>g.
       case (gn_status g = ''completed'', gn_reply g) of
         (True, Some r) \<Rightarrow> append_reply e (au_conversationId a) (candidate_count (cd_messages c)) g r
       | _ \<Rightarrow> andThen (appendAutomationRecord e (au_conversationId a)
               (ce_prose e (Fire_failed (au_label a) (gn_status g) (case gn_error g of Some x \<Rightarrow> x | None \<Rightarrow> ''no reply'')))) (\<lambda>_. give ())))"

definition disable :: "automation \<Rightarrow> string \<Rightarrow> ws \<Rightarrow> ws" where
  "disable a now w = put_auto (a\<lparr>au_enabled := False, au_updatedAt := now\<rparr>) w"

definition fire :: "conv_env \<Rightarrow> automation \<Rightarrow> string \<Rightarrow> string \<Rightarrow> bool act" where
  "fire e a notice now w =
     (case get_conv (au_conversationId a) w of
        None \<Rightarrow> (Inr False, disable a now w)
      | Some c \<Rightarrow>
          if MAX_MESSAGES \<le> length (cd_messages c) then (Inr False, disable a now w)
          else (case fire_turn e a c notice w of
              (Inr _, w') \<Rightarrow> (Inr True, w')
            | (Inl err, w') \<Rightarrow> andThen (appendAutomationRecord e (au_conversationId a) (ce_prose e (Fire_threw (au_label a) (error_text err)))) (\<lambda>_. give True) w'))"

section \<open>The tick\<close>

definition markFired :: "automation \<Rightarrow> id list \<Rightarrow> string \<Rightarrow> ws \<Rightarrow> ws" where
  "markFired a newRunIds now w =
     (let fresh = (case get_auto (au_id a) w of Some x \<Rightarrow> x | None \<Rightarrow> a);
          notified = au_notifiedRunIds fresh @ filter (\<lambda>i. i \<notin> set (au_notifiedRunIds fresh)) newRunIds in
      put_auto (fresh\<lparr>au_fireCount := Suc (au_fireCount fresh), au_notifiedRunIds := take_last 50 notified, au_lastFiredAt := Some now, au_updatedAt := now\<rparr>) w)"

definition due :: "(string \<Rightarrow> int) \<Rightarrow> automation \<Rightarrow> nat \<Rightarrow> int" where
  "due dateParse a minutes = dateParse (case au_lastFiredAt a of Some t \<Rightarrow> t | None \<Rightarrow> au_createdAt a) + int minutes * 60000"

definition completed_runs :: "(string \<Rightarrow> int) \<Rightarrow> automation \<Rightarrow> store \<Rightarrow> id list" where
  "completed_runs dateParse a db =
     map rr_id (filter (\<lambda>r. rr_status r = RunCompleted \<and> rr_id r \<notin> set (au_notifiedRunIds a) \<and> dateParse (au_createdAt a) \<le> rr_createdAt r) (listRuns 60 db))"

definition claim_and_fire :: "conv_env \<Rightarrow> automation \<Rightarrow> string \<Rightarrow> id list \<Rightarrow> string \<Rightarrow> bool act" where
  "claim_and_fire e a notice runIds now w =
     (case claimAutomationFire (au_id a) (au_lastFiredAt a) (Some now) w of
        (False, w') \<Rightarrow> (Inr False, w')
      | (True, w') \<Rightarrow>
          andThen (fire e a notice now) (\<lambda>ok w.
            if ok then (Inr True, markFired a runIds now w)
            else (Inr False, snd (claimAutomationFire (au_id a) (Some now) (au_lastFiredAt a) w))) w')"

definition tick_one :: "(string \<Rightarrow> int) \<Rightarrow> conv_env \<Rightarrow> int \<Rightarrow> automation \<Rightarrow> bool act" where
  "tick_one dateParse e now a w =
     (if \<not> au_enabled a then (Inr False, w)
      else case au_trigger a of
        Schedule_trigger minutes \<Rightarrow>
          if now < due dateParse a minutes then (Inr False, w) else claim_and_fire e a (ce_prose e Schedule_notice) [] (iso now) w
      | Run_completed_trigger \<Rightarrow>
          (case completed_runs dateParse a (ws_db w) of
             [] \<Rightarrow> (Inr False, w)
           | [r] \<Rightarrow> claim_and_fire e a (ce_prose e (One_completed r)) [r] (iso now) w
           | rs \<Rightarrow> claim_and_fire e a (ce_prose e (Many_completed rs)) rs (iso now) w))"

fun tick_all :: "(string \<Rightarrow> int) \<Rightarrow> conv_env \<Rightarrow> int \<Rightarrow> automation list \<Rightarrow> nat act" where
  "tick_all dateParse e now [] = give 0"
| "tick_all dateParse e now (a # as) = andThen (tick_one dateParse e now a) (\<lambda>f. andThen (tick_all dateParse e now as) (\<lambda>n. give (if f then Suc n else n)))"

text \<open>Passes of one process are serialized by a flag that is cleared however the pass ends.\<close>

definition engine_tick :: "(string \<Rightarrow> int) \<Rightarrow> conv_env \<Rightarrow> int \<Rightarrow> bool \<Rightarrow> nat act" where
  "engine_tick dateParse e now busy w = (if busy then (Inr 0, w) else tick_all dateParse e now (ws_autos w) w)"

definition safeTick :: "(string \<Rightarrow> int) \<Rightarrow> conv_env \<Rightarrow> int \<Rightarrow> bool \<Rightarrow> ws \<Rightarrow> nat \<times> ws" where
  "safeTick dateParse e now busy w = (case engine_tick dateParse e now busy w of (Inr n, w') \<Rightarrow> (n, w') | (Inl _, w') \<Rightarrow> (0, w'))"

section \<open>A fire is claimed once\<close>

lemma get_auto_map:
  "(\<And>x. au_id (f x) = au_id x) \<Longrightarrow> List.find (\<lambda>a. au_id a = i) (map f as) = map_option f (List.find (\<lambda>a. au_id a = i) as)"
  by (induction as) auto

lemma get_auto_id: "get_auto i w = Some a \<Longrightarrow> au_id a = i"
  by (auto simp: get_auto_def find_Some_iff)

lemma claim_won:
  "claimAutomationFire i observed ts w = (True, w') \<longleftrightarrow>
   (\<exists>a. get_auto i w = Some a \<and> au_lastFiredAt a = observed \<and>
     w' = w\<lparr>ws_autos := map (\<lambda>x. if au_id x = i then x\<lparr>au_lastFiredAt := ts, au_updatedAt := (case ts of Some t \<Rightarrow> t | None \<Rightarrow> [])\<rparr> else x) (ws_autos w)\<rparr>)"
  by (auto simp: claimAutomationFire_def split: option.splits)

lemma claim_lost: "claimAutomationFire i observed ts w = (False, w') \<longleftrightarrow> w' = w \<and> (\<forall>a. get_auto i w = Some a \<longrightarrow> au_lastFiredAt a \<noteq> observed)"
  by (auto simp: claimAutomationFire_def split: option.splits)

lemma claim_advances: "claimAutomationFire i observed ts w = (True, w') \<Longrightarrow> \<exists>a. get_auto i w' = Some a \<and> au_lastFiredAt a = ts"
  by (auto simp: claim_won get_auto_def get_auto_map dest: get_auto_id [unfolded get_auto_def])

text \<open>The interface a claimant relies on: a register that advances only from the observed value, in one step.\<close>

fun wins :: "('v \<Rightarrow> 'v \<Rightarrow> 's \<Rightarrow> bool \<times> 's) \<Rightarrow> 'v \<Rightarrow> 'v list \<Rightarrow> 's \<Rightarrow> nat" where
  "wins claim observed [] s = 0"
| "wins claim observed (v # vs) s = (case claim observed v s of (won, s') \<Rightarrow> (if won then 1 else 0) + wins claim observed vs s')"

locale claim_register =
  fixes current :: "'s \<Rightarrow> 'v option"
    and claim :: "'v \<Rightarrow> 'v \<Rightarrow> 's \<Rightarrow> bool \<times> 's"
  assumes claim_hit: "current s = Some observed \<Longrightarrow> \<exists>s'. claim observed v s = (True, s') \<and> current s' = Some v"
    and claim_miss: "current s \<noteq> Some observed \<Longrightarrow> claim observed v s = (False, s)"
begin

lemma wins_stale: "current s \<noteq> Some observed \<Longrightarrow> wins claim observed vs s = 0"
  by (induction vs) (simp_all add: claim_miss)

lemma wins_once:
  assumes "observed \<notin> set vs"
  shows "wins claim observed vs s = (if vs \<noteq> [] \<and> current s = Some observed then 1 else 0)"
proof (cases "current s = Some observed")
  case True
  show ?thesis
  proof (cases vs)
    case (Cons v vs')
    obtain s' where c: "claim observed v s = (True, s')" "current s' = Some v" using claim_hit [OF True] by blast
    then have "wins claim observed vs' s' = 0" using assms Cons by (intro wins_stale) auto
    then show ?thesis using True Cons c by simp
  qed simp
next
  case False then show ?thesis using wins_stale by simp
qed

end

interpretation fires: claim_register "\<lambda>w. map_option au_lastFiredAt (get_auto i w)" "claimAutomationFire i" for i
proof
  fix w observed ts
  assume "map_option au_lastFiredAt (get_auto i w) = Some observed"
  then have "fst (claimAutomationFire i observed ts w)" by (auto simp: claimAutomationFire_def split: option.splits)
  then show "\<exists>w'. claimAutomationFire i observed ts w = (True, w') \<and> map_option au_lastFiredAt (get_auto i w') = Some ts"
    using claim_advances [of i observed ts w "snd (claimAutomationFire i observed ts w)"] by (cases "claimAutomationFire i observed ts w") auto
next
  fix w observed ts
  assume "map_option au_lastFiredAt (get_auto i w) \<noteq> Some observed"
  then show "claimAutomationFire i observed ts w = (False, w)" by (auto simp: claim_lost)
qed

text \<open>C30. A due automation fires in one process only: of all processes that saw the same last fire time and try to claim
  the fire, in whatever order their claims reach the store, exactly one wins while the automation still has that time,
  and none afterwards; and a process that lost its claim leaves the workspace as it was, without a model turn.\<close>

theorem automation_claimed_once:
  assumes "observed \<notin> set ts"
  shows "wins (claimAutomationFire i) observed ts w = (if ts \<noteq> [] \<and> map_option au_lastFiredAt (get_auto i w) = Some observed then 1 else 0) \<and>
         (\<forall>e a notice runIds now. au_id a = i \<longrightarrow> au_lastFiredAt a = observed \<longrightarrow> map_option au_lastFiredAt (get_auto i w) \<noteq> Some observed \<longrightarrow>
            claim_and_fire e a notice runIds now w = (Inr False, w))"
  using fires.wins_once [OF assms] fires.claim_miss by (auto simp: claim_and_fire_def)

definition demo_automation :: automation where
  "demo_automation = \<lparr>au_id = ''auto_1'', au_conversationId = ''conv_1'', au_label = ''digest'', au_trigger = Schedule_trigger 60, au_task = ''summarise'',
     au_enabled = True, au_maxTurnsPerFire = 6, au_fireCount = 0, au_notifiedRunIds = [], au_lastFiredAt = None, au_createdAt = ''t0'', au_updatedAt = ''t0''\<rparr>"

theorem automation_claimed_once_witness:
  "wins (claimAutomationFire ''auto_1'') None [Some ''t1'', Some ''t2''] (demo_ws\<lparr>ws_autos := [demo_automation]\<rparr>) = 1"
  using automation_claimed_once [of None "[Some ''t1'', Some ''t2'']" "''auto_1''" "demo_ws\<lparr>ws_autos := [demo_automation]\<rparr>"]
  by (simp add: get_auto_def demo_automation_def)

section \<open>Unattended turns propose and never act\<close>

definition surface :: "ws \<Rightarrow> store \<times> tool_integration list \<times> id set" where
  "surface w = (ws_db w, ws_tools w, set (map au_id (ws_autos w)))"

definition surf :: "store \<times> tool_integration list \<times> id set \<Rightarrow> ws \<Rightarrow> bool" where
  "surf S w \<longleftrightarrow> surface w = S"

lemma surf_steps: "safe (surf S) (now_str e)" "safe (surf S) (newId e p)" "safe (surf S) (put_conv c)"
  by (simp_all add: safe_def surf_def surface_def now_str_def newId_def put_conv_def)

lemma surf_record: "safe (surf S) (appendAutomationRecord e i x)"
  unfolding appendAutomationRecord_def by (auto intro!: safe_andThen safe_pure surf_steps)

lemma surf_reply: "safe (surf S) (append_reply e i n g r)"
  unfolding safe_def
proof (intro allI impI)
  fix w assume s: "surf S w"
  show "surf S (snd (append_reply e i n g r w))"
  proof (cases "get_conv i w")
    case (Some c)
    have "safe (surf S) (andThen (newId e ''cmsg'') (\<lambda>mid. andThen (now_str e) (\<lambda>now. andThen (now_str e) (\<lambda>now'.
        andThen (put_conv (c\<lparr>cd_messages := cd_messages c @ [(agent_message e mid now n g r)\<lparr>cm_thinking := None\<rparr>],
              cd_turns := Suc (cd_turns c), cd_updatedAt := now'\<rparr>)) (\<lambda>_. give ())))))"
      by (intro safe_andThen safe_pure surf_steps)
    then show ?thesis using s by (simp add: append_reply_def Some safe_def)
  qed (simp add: append_reply_def s)
qed

text \<open>The other writers of the workspace do not touch runs, tools or the set of automations during the turn.\<close>

definition others_quiet :: "conv_env \<Rightarrow> bool" where
  "others_quiet e \<longleftrightarrow> (\<forall>c ti w f w'. Elsewhere f \<in> set (fst (ce_generate e c ti w)) \<longrightarrow> surface (f w') = surface w')"

lemma surf_turn: "others_quiet e \<Longrightarrow> safe (surf S) (automated_turn e a c notice)"
proof -
  assume q: "others_quiet e"
  have "(\<And>f w'. Elsewhere f \<in> set evs \<Longrightarrow> surface (f w') = surface w') \<Longrightarrow> surface (fold elsewhere evs w) = surface w" for evs w
  proof (induction evs arbitrary: w)
    case (Cons ev evs)
    have "surface (elsewhere ev w) = surface w" using Cons.prems by (cases ev) auto
    then show ?case using Cons by simp
  qed simp
  then show ?thesis using q
    by (auto simp: safe_def surf_def automated_turn_def others_quiet_def split: prod.split) (metis fst_conv)
qed

lemma surf_fire_turn: "others_quiet e \<Longrightarrow> safe (surf S) (fire_turn e a c notice)"
  unfolding fire_turn_def
  by (intro safe_andThen surf_record surf_turn) (auto intro!: safe_andThen surf_record surf_reply safe_pure split: option.split bool.split)

lemma surf_put_auto: "surf S w \<Longrightarrow> au_id a \<in> snd (snd S) \<Longrightarrow> surf S (put_auto a w)"
  by (auto simp: surf_def surface_def put_auto_def insert_or_replace_def)

lemma surf_fire:
  assumes "others_quiet e" "au_id a \<in> snd (snd S)"
  shows "safe (surf S) (fire e a notice now)"
  unfolding safe_def
proof (intro allI impI)
  fix w assume s: "surf S w"
  have rec: "safe (surf S) (andThen (appendAutomationRecord e i x) (\<lambda>_. give True))" for i x
    by (intro safe_andThen surf_record safe_pure)
  have "surf S (snd (fire_turn e a c notice w))" for c using surf_fire_turn [OF assms(1)] s by (simp add: safe_def)
  then show "surf S (snd (fire e a notice now w))"
    using s assms(2) rec by (auto simp: fire_def disable_def safe_def intro!: surf_put_auto split: option.split prod.split sum.split) (metis snd_conv)+
qed

lemma surface_map: "(\<And>x. au_id (f x) = au_id x) \<Longrightarrow> surface (w\<lparr>ws_autos := map f (ws_autos w)\<rparr>) = surface w"
  by (simp add: surface_def image_image)

lemma surf_claim: "surf S w \<Longrightarrow> surf S (snd (claimAutomationFire i o1 ts w))"
  by (auto simp: claimAutomationFire_def surf_def surface_map split: option.split)

lemma surf_mark: "surf S w \<Longrightarrow> au_id a \<in> snd (snd S) \<Longrightarrow> surf S (markFired a rs now w)"
  by (auto simp: markFired_def Let_def intro!: surf_put_auto split: option.split dest: get_auto_id)

lemma surf_claim_and_fire:
  assumes "others_quiet e" "au_id a \<in> snd (snd S)"
  shows "safe (surf S) (claim_and_fire e a notice rs now)"
proof -
  have "safe (surf S) (andThen (fire e a notice now) (\<lambda>ok w.
            if ok then (Inr True, markFired a rs now w)
            else (Inr False, snd (claimAutomationFire (au_id a) (Some now) (au_lastFiredAt a) w))))"
    by (intro safe_andThen surf_fire [OF assms]) (simp add: safe_def surf_claim surf_mark assms(2))
  then have "surf S (snd (claim_and_fire e a notice rs now w))" if "surf S w" for w
    using surf_claim [OF that, of "au_id a" "au_lastFiredAt a" "Some now"] that
    by (cases "claimAutomationFire (au_id a) (au_lastFiredAt a) (Some now) w"; cases "fst (claimAutomationFire (au_id a) (au_lastFiredAt a) (Some now) w)")
       (simp_all add: safe_def claim_and_fire_def)
  then show ?thesis by (simp add: safe_def)
qed

lemma surf_tick_one: "others_quiet e \<Longrightarrow> au_id a \<in> snd (snd S) \<Longrightarrow> safe (surf S) (tick_one dateParse e now a)"
  using surf_claim_and_fire by (auto simp: safe_def tick_one_def split: automation_trigger.split list.split)

lemma surf_tick_all: "others_quiet e \<Longrightarrow> set (map au_id as) \<subseteq> snd (snd S) \<Longrightarrow> safe (surf S) (tick_all dateParse e now as)"
  by (induction as) (auto intro!: safe_andThen safe_pure surf_tick_one)

text \<open>An unattended pass proposes and never acts: whatever the model answers and whatever was granted in the
  conversation, a tick starts, cancels and changes no run, stages no tool and creates no automation; proposals of the
  turn are only recorded.\<close>

theorem tick_never_acts:
  assumes "others_quiet e"
  shows "surface (snd (safeTick dateParse e now busy w)) = surface w"
proof -
  have "safe (surf (surface w)) (tick_all dateParse e now (ws_autos w))"
    using assms by (intro surf_tick_all) (auto simp: surface_def)
  then show ?thesis by (auto simp: safe_def surf_def safeTick_def engine_tick_def split: prod.split sum.split)
qed

theorem tick_never_acts_witness: "surface (snd (safeTick (\<lambda>_. 0) demo_conv_env 3600000 False (demo_ws\<lparr>ws_autos := [demo_automation]\<rparr>))) = surface (demo_ws\<lparr>ws_autos := [demo_automation]\<rparr>)"
  by (rule tick_never_acts) (simp add: others_quiet_def demo_conv_env_def)

section \<open>An automation without its conversation\<close>

text \<open>The record that was read at the start of the pass is written back disabled, which also undoes the claim; the rewind
  that follows finds nothing to do, and the automation is not tried again.\<close>

lemma get_auto_put: "get_auto i (put_auto a w) = (if au_id a = i then Some a else get_auto i w)"
  by (simp add: get_auto_def put_auto_def find_insert_or_replace)

lemma orphan_disabled:
  assumes "get_auto (au_id a) w = Some a" "au_lastFiredAt a \<noteq> Some now" "get_conv (au_conversationId a) w = None"
  shows "\<exists>w'. claim_and_fire e a notice rs now w = (Inr False, w') \<and>
           get_auto (au_id a) w' = Some (a\<lparr>au_enabled := False, au_updatedAt := now\<rparr>)"
proof -
  obtain w1 where c: "claimAutomationFire (au_id a) (au_lastFiredAt a) (Some now) w = (True, w1)"
    and "ws_convs w1 = ws_convs w" using assms(1) by (auto simp: claimAutomationFire_def)
  then have n: "get_conv (au_conversationId a) w1 = None" using assms(3) by (simp add: get_conv_def)
  have "claimAutomationFire (au_id a) (Some now) (au_lastFiredAt a) (disable a now w1) = (False, disable a now w1)"
    using assms(2) by (simp add: claim_lost disable_def get_auto_put)
  then show ?thesis by (simp add: claim_and_fire_def c andThen_def fire_def n disable_def get_auto_put)
qed

section \<open>More completed runs than the automation remembers\<close>

lemma sort_by_mset: "mset (sort_by cmp xs) = mset xs"
proof -
  have "mset (insert_by cmp x ys) = add_mset x (mset ys)" for x ys by (induction ys) auto
  then show ?thesis by (induction xs) (auto simp: sort_by_def)
qed

lemma listRuns_distinct: "distinct (map rr_id (db_runs db)) \<Longrightarrow> distinct (map rr_id (listRuns n db))"
  unfolding listRuns_def take_map [symmetric] by (metis distinct_take mset_eq_imp_distinct_iff mset_map sort_by_mset)

definition eligible :: "(string \<Rightarrow> int) \<Rightarrow> automation \<Rightarrow> store \<Rightarrow> id list" where
  "eligible dateParse a db = map rr_id (filter (\<lambda>r. rr_status r = RunCompleted \<and> dateParse (au_createdAt a) \<le> rr_createdAt r) (listRuns 60 db))"

lemma unnotified_left:
  assumes "distinct (map rr_id (db_runs db))" "50 < length (eligible dateParse a db)" "length (au_notifiedRunIds a) \<le> 50"
  shows "completed_runs dateParse a db \<noteq> []"
proof
  assume none: "completed_runs dateParse a db = []"
  have "set (eligible dateParse a db) \<subseteq> set (au_notifiedRunIds a)"
    using none by (auto simp: completed_runs_def eligible_def filter_empty_conv)
  then have "card (set (eligible dateParse a db)) \<le> 50"
    using assms(3) by (meson List.finite_set card_length card_mono le_trans)
  moreover have "distinct (eligible dateParse a db)"
    unfolding eligible_def using listRuns_distinct [OF assms(1)] by (simp add: distinct_map_filter)
  ultimately show False using assms(2) distinct_card by fastforce
qed

lemma markFired_bound:
  assumes "get_auto (au_id a) (markFired a rs now w) = Some b"
  shows "length (au_notifiedRunIds b) \<le> 50"
  using assms by (auto simp: markFired_def Let_def get_auto_put take_last_def split: option.splits if_splits dest: get_auto_id)

text \<open>A run-completed automation remembers the last fifty runs it reported while it looks at the newest sixty: with
  more than fifty completed runs among those, an automation whose memory is within its bound, and so one that has just
  fired, finds unreported runs at every pass and is claimed and fired again.\<close>

theorem automation_refires:
  assumes "au_enabled a" "au_trigger a = Run_completed_trigger" "get_auto (au_id a) w = Some a"
    and "distinct (map rr_id (db_runs (ws_db w)))" "50 < length (eligible dateParse a (ws_db w))" "length (au_notifiedRunIds a) \<le> 50"
  shows "(\<exists>notice rs. rs \<noteq> [] \<and> tick_one dateParse e now a w = claim_and_fire e a notice rs (iso now) w) \<and>
         fst (claimAutomationFire (au_id a) (au_lastFiredAt a) (Some (iso now)) w) \<and>
         (\<forall>rs now' w' b. get_auto (au_id a) (markFired a rs now' w') = Some b \<longrightarrow> length (au_notifiedRunIds b) \<le> 50)"
proof -
  have ne: "completed_runs dateParse a (ws_db w) \<noteq> []" using unnotified_left assms by blast
  have "\<exists>notice rs. rs \<noteq> [] \<and> tick_one dateParse e now a w = claim_and_fire e a notice rs (iso now) w"
  proof (cases "completed_runs dateParse a (ws_db w)")
    case (Cons r rs)
    then show ?thesis using assms(1,2) by (cases rs) (simp_all add: tick_one_def, blast+)
  qed (use ne in simp)
  then show ?thesis using assms(3) markFired_bound by (auto simp: claimAutomationFire_def)
qed

text \<open>Sixty completed runs, of which the automation has just reported the last fifty.\<close>

definition many_runs :: "run_row list" where
  "many_runs = map (\<lambda>n. (run_row_of demo_run 0)\<lparr>rr_id := ''run_'' @ str_of_nat n, rr_status := RunCompleted, rr_createdAt := 1000\<rparr>) [0..<60]"

definition busy_automation :: automation where
  "busy_automation = demo_automation\<lparr>au_trigger := Run_completed_trigger, au_notifiedRunIds := map (\<lambda>n. ''run_'' @ str_of_nat n) [10..<60]\<rparr>"

lemma many_runs_ids: "map rr_id many_runs = map (\<lambda>n. ''run_'' @ str_of_nat n) [0..<60]"
  by (simp add: many_runs_def)

lemma str_of_nat_inj: "str_of_nat m = str_of_nat n \<Longrightarrow> m = n"
  by (metis number_of_str_of_nat option.inject)

lemma many_runs_distinct: "distinct (map rr_id many_runs)"
  unfolding many_runs_ids by (simp add: distinct_map inj_on_def str_of_nat_inj)

lemma many_eligible: "length (eligible (\<lambda>_. 0) busy_automation (empty_store\<lparr>db_runs := many_runs\<rparr>)) = 60"
proof -
  let ?sorted = "sort_by (\<lambda>a b. rr_createdAt b - rr_createdAt a) many_runs"
  have "length many_runs = 60" by (simp add: many_runs_def)
  then have l: "length ?sorted = 60" using sort_by_mset mset_eq_length by metis
  have "\<forall>r \<in> set many_runs. rr_status r = RunCompleted \<and> 0 \<le> rr_createdAt r" by (auto simp: many_runs_def)
  then have "filter (\<lambda>r. rr_status r = RunCompleted \<and> 0 \<le> rr_createdAt r) ?sorted = ?sorted" by (simp add: filter_id_conv)
  then show ?thesis using l by (simp add: eligible_def listRuns_def)
qed

theorem automation_refires_witness:
  "\<exists>notice rs. rs \<noteq> [] \<and>
     tick_one (\<lambda>_. 0) demo_conv_env 5000 busy_automation (demo_ws\<lparr>ws_autos := [busy_automation], ws_db := empty_store\<lparr>db_runs := many_runs\<rparr>\<rparr>) =
     claim_and_fire demo_conv_env busy_automation notice rs (iso 5000) (demo_ws\<lparr>ws_autos := [busy_automation], ws_db := empty_store\<lparr>db_runs := many_runs\<rparr>\<rparr>)"
  using automation_refires [of busy_automation "demo_ws\<lparr>ws_autos := [busy_automation], ws_db := empty_store\<lparr>db_runs := many_runs\<rparr>\<rparr>" "\<lambda>_. 0" demo_conv_env 5000]
    many_runs_distinct many_eligible
  by (simp add: get_auto_def) (simp add: busy_automation_def demo_automation_def)

end
