(* ===== verification/Agent_Protocol.thy ===== *)
theory Agent_Protocol
  imports Tool_Integrations Run_Budget
begin

text \<open>
  What the agent kernel works with: the transcript and its actions (\<^verbatim>\<open>src/src/agent/protocol.ts\<close>), tools and their
  registry (\<^verbatim>\<open>src/src/agent/tool.ts\<close>), the tripwires against exfiltration (\<^verbatim>\<open>src/src/shared/exfil-guard.ts\<close>), the
  context budget and layered compaction (\<^verbatim>\<open>src/src/agent/budget.ts\<close>, \<^verbatim>\<open>src/src/agent/compaction.ts\<close>) and the durable
  rollout with the reconstruction of a session from it (\<^verbatim>\<open>src/src/agent/rollout.ts\<close>). A rollout line is modelled
  without its timestamp, and reading a file that ends in a torn line as the list of its well-formed lines.
\<close>

section \<open>Transcript\<close>

record tool_result_entry =
  te_turn :: nat
  te_tool :: string
  te_ok :: bool
  te_payload :: json
  te_truncated :: bool
  te_spilledTo :: "string option"
  te_untrusted :: bool
  te_actionHash :: "string option"
  te_deduplicatedFromTurn :: "nat option"

datatype transcript_entry =
    Task_entry string
  | Context_entry string json
  | Steer_entry string
  | Handoff_entry string
  | Use_tool_entry nat string json string
  | Finish_entry nat string
  | Result_entry tool_result_entry
  | Error_entry nat string

datatype agent_action = Use_tool string json string | Finish string json

text \<open>An entry as the object the program serializes; absent members are left out.\<close>

fun entry_json :: "transcript_entry \<Rightarrow> json" where
  "entry_json (Task_entry t) = JObj [(''kind'', JStr ''task''), (''text'', JStr t)]"
| "entry_json (Context_entry l p) = JObj [(''kind'', JStr ''context''), (''label'', JStr l), (''payload'', p)]"
| "entry_json (Steer_entry t) = JObj [(''kind'', JStr ''steer''), (''text'', JStr t)]"
| "entry_json (Handoff_entry s) = JObj [(''kind'', JStr ''handoff''), (''summary'', JStr s)]"
| "entry_json (Use_tool_entry n t a r) = JObj [(''kind'', JStr ''action''), (''turn'', JNum (int n)), (''action'', JStr ''use_tool''),
     (''tool'', JStr t), (''args'', a), (''reason'', JStr r)]"
| "entry_json (Finish_entry n r) = JObj [(''kind'', JStr ''action''), (''turn'', JNum (int n)), (''action'', JStr ''finish''), (''reason'', JStr r)]"
| "entry_json (Result_entry e) = JObj ([(''kind'', JStr ''tool_result''), (''turn'', JNum (int (te_turn e))), (''tool'', JStr (te_tool e)),
     (''ok'', JBool (te_ok e)), (''payload'', te_payload e), (''actionHash'', opt_json JStr (te_actionHash e)),
     (''deduplicatedFromTurn'', opt_json (\<lambda>n. JNum (int n)) (te_deduplicatedFromTurn e)),
     (''truncated'', if te_truncated e then JBool True else JUndef), (''spilledTo'', opt_json JStr (te_spilledTo e)),
     (''untrusted'', if te_untrusted e then JBool True else JUndef)])"
| "entry_json (Error_entry n m) = JObj [(''kind'', JStr ''error''), (''turn'', JNum (int n)), (''message'', JStr m)]"

fun is_handoff :: "transcript_entry \<Rightarrow> bool" where
  "is_handoff (Handoff_entry _) = True"
| "is_handoff _ = False"

fun entry_turn :: "transcript_entry \<Rightarrow> nat option" where
  "entry_turn (Use_tool_entry n _ _ _) = Some n"
| "entry_turn (Finish_entry n _) = Some n"
| "entry_turn (Result_entry e) = Some (te_turn e)"
| "entry_turn (Error_entry n _) = Some n"
| "entry_turn _ = None"

definition result_entries :: "transcript_entry list \<Rightarrow> tool_result_entry list" where
  "result_entries ts = List.map_filter (\<lambda>t. case t of Result_entry e \<Rightarrow> Some e | _ \<Rightarrow> None) ts"

datatype turn_action = A_use_tool | A_finish | A_invalid_action | A_permission_denied | A_tool_error | A_steer | A_compaction

record agent_turn_record =
  at_turn :: nat
  at_action :: turn_action
  at_tool :: "string option"
  at_ok :: "bool option"
  at_reason :: "string option"

section \<open>Tools\<close>

record tool_result =
  tx_ok :: bool
  tx_data :: json
  tx_error :: json
  tx_summary :: "string option"

text \<open>A tool runs in the world of the process: it returns a result, throws a message, or does not settle in time.\<close>

datatype tool_outcome = Settled tool_result | Tool_threw string | Tool_hung

record 'w agent_tool =
  tl_name :: string
  tl_validate :: "json \<Rightarrow> string + json"
  tl_summarize :: "(json \<Rightarrow> string) option"
  tl_riskClass :: "tool_risk_class option"
  tl_external :: bool
  tl_version :: "string option"
  tl_source :: "string option"
  tl_execute :: "json \<Rightarrow> 'w \<Rightarrow> tool_outcome \<times> 'w"

definition TOOL_NAME_RE :: "string \<Rightarrow> bool" where
  "TOOL_NAME_RE s \<longleftrightarrow> s \<noteq> [] \<and> (97 \<le> (of_char (hd s) :: nat) \<and> (of_char (hd s) :: nat) \<le> 122) \<and> length_in 2 31 (tl s) \<and>
     list_all (\<lambda>c. id_char c \<or> c = CHR ''_'') (tl s)"

definition get_tool :: "string \<Rightarrow> 'w agent_tool list \<Rightarrow> 'w agent_tool option" where
  "get_tool n tools = List.find (\<lambda>t. tl_name t = n) tools"

definition register :: "'w agent_tool \<Rightarrow> 'w agent_tool list \<Rightarrow> string + 'w agent_tool list" where
  "register t tools =
     (if \<not> TOOL_NAME_RE (tl_name t) then Inl (''invalid tool name: '' @ tl_name t)
      else if get_tool (tl_name t) tools \<noteq> None then Inl (''tool already registered: '' @ tl_name t)
      else Inr (tools @ [t]))"

text \<open>A sub-agent's registry; setting a name again keeps its place.\<close>

fun restrict :: "'w agent_tool list \<Rightarrow> string list \<Rightarrow> string + 'w agent_tool list" where
  "restrict tools [] = Inr []"
| "restrict tools (n # ns) =
     (case get_tool n tools of
        None \<Rightarrow> Inl (''restrict: unknown tool '' @ [CHR 39] @ n @ [CHR 39])
      | Some t \<Rightarrow> (case restrict tools ns of Inl x \<Rightarrow> Inl x | Inr ts \<Rightarrow> Inr (t # filter (\<lambda>x. tl_name x \<noteq> n) ts)))"

definition risk_of :: "'w agent_tool \<Rightarrow> tool_risk_class" where
  "risk_of t = (case tl_riskClass t of Some r \<Rightarrow> r | None \<Rightarrow> Risk_execute)"

fun risk_str :: "tool_risk_class \<Rightarrow> string" where
  "risk_str Risk_read = ''read''"
| "risk_str Risk_edit = ''edit''"
| "risk_str Risk_execute = ''execute''"
| "risk_str Risk_destructive = ''destructive''"

section \<open>Tripwires\<close>

datatype exfil_violation = Secret_hit string | Canary_hit string | Oversized nat nat

definition MAX_OUTBOUND_CHARS :: nat where
  "MAX_OUTBOUND_CHARS = 2000000"

definition ends_with :: "string \<Rightarrow> string \<Rightarrow> bool" where
  "ends_with s p \<longleftrightarrow> starts_with (rev s) (rev p)"

text \<open>A name whose value is a credential: the generic families, alone or after an underscore, subsume the listed services.\<close>

definition secret_name :: "string \<Rightarrow> bool" where
  "secret_name n \<longleftrightarrow> list_ex (\<lambda>k. n = k @ ''_API_KEY'') [''ZAI'', ''DASHSCOPE'', ''OPENAI'', ''ANTHROPIC'', ''GITHUB'', ''HF''] \<or>
     list_ex (\<lambda>f. n = f \<or> ends_with n (''_'' @ f)) [''API_KEY'', ''ACCESS_TOKEN'', ''SECRET'', ''PASSWORD'', ''PRIVATE_KEY'']"

definition collectEnvSecrets :: "(string \<times> string) list \<Rightarrow> (string \<times> string) list" where
  "collectEnvSecrets env = filter (\<lambda>(n, v). 16 \<le> length v \<and> secret_name n) env"

fun scanOutbound :: "string \<Rightarrow> (string \<times> string) list \<Rightarrow> (string \<times> string) list \<Rightarrow> exfil_violation option" where
  "scanOutbound text secrets canaries =
     (if MAX_OUTBOUND_CHARS < length text then Some (Oversized (length text) MAX_OUTBOUND_CHARS)
      else case List.find (\<lambda>s. contains text (snd s)) secrets of
        Some s \<Rightarrow> Some (Secret_hit (fst s))
      | None \<Rightarrow> map_option (\<lambda>c. Canary_hit (fst c)) (List.find (\<lambda>c. contains text (snd c)) canaries))"

fun describeViolation :: "exfil_violation \<Rightarrow> string" where
  "describeViolation (Secret_hit n) = ''exfil tripwire: outbound content contains secret '' @ n @ '' (value never logged); request cut fail-closed''"
| "describeViolation (Canary_hit i) = ''exfil tripwire: outbound content contains hidden session marker '' @ i @ ''; context-copy exfil shape; request cut fail-closed''"
| "describeViolation (Oversized n m) = ''exfil tripwire: outbound content '' @ str_of_nat n @ '' chars exceeds ceiling '' @ str_of_nat m @ ''; request cut fail-closed''"

text \<open>\<open>text.split(v).join(r)\<close> for a non-empty \<open>v\<close>: occurrences from the left, without overlap.\<close>

function replace_all :: "string \<Rightarrow> string \<Rightarrow> string \<Rightarrow> string" where
  "replace_all v r [] = []"
| "replace_all v r (c # cs) =
     (if v \<noteq> [] \<and> starts_with (c # cs) v then r @ replace_all v r (drop (length v) (c # cs)) else c # replace_all v r cs)"
  by pat_completeness auto

termination
  by (relation "measure (\<lambda>(v, r, s). length s)") auto

definition redact_text :: "(string \<times> string) list \<Rightarrow> (string \<times> string) list \<Rightarrow> string \<Rightarrow> string" where
  "redact_text secrets canaries text =
     fold (\<lambda>c t. replace_all (snd c) ''[REDACTED:session-marker]'' t) canaries
       (fold (\<lambda>s t. replace_all (snd s) (''[REDACTED:'' @ fst s @ '']'') t) secrets text)"

text \<open>\<open>JSON.parse\<close> is an argument that fails on text that is not JSON.\<close>

definition redactOutbound :: "(string \<Rightarrow> json option) \<Rightarrow> json \<Rightarrow> (string \<times> string) list \<Rightarrow> (string \<times> string) list \<Rightarrow> json" where
  "redactOutbound parse v secrets canaries =
     (let text = stringify v; redacted = redact_text secrets canaries text in
      if redacted = text then v else case parse redacted of Some v' \<Rightarrow> v' | None \<Rightarrow> v)"

section \<open>Context budget\<close>

record token_budget =
  tb_soft :: nat
  tb_hard :: nat
  tb_maxToolResultChars :: nat

definition defaultBudget :: "nat \<Rightarrow> token_budget" where
  "defaultBudget contextWindowTokens = \<lparr>tb_soft = contextWindowTokens * 18 div 100, tb_hard = contextWindowTokens * 28 div 100, tb_maxToolResultChars = 6000\<rparr>"

definition estimateTokens :: "json \<Rightarrow> nat" where
  "estimateTokens v = (length (stringify v) + 3) div 4"

definition transcriptTokens :: "transcript_entry list \<Rightarrow> nat" where
  "transcriptTokens ts = sum_list (map (\<lambda>t. estimateTokens (entry_json t)) ts)"

section \<open>Compaction\<close>

definition headTrim :: "json \<Rightarrow> nat \<Rightarrow> json" where
  "headTrim payload maxChars =
     (let text = stringify payload in
      if length text \<le> maxChars then JObj [(''preserved'', JBool True)]
      else JObj [(''truncated'', JBool True), (''head'', JStr (take maxChars text)), (''originalChars'', JNum (int (length text)))])"

definition compact_entry :: "'w agent_tool list \<Rightarrow> nat \<Rightarrow> transcript_entry \<Rightarrow> transcript_entry" where
  "compact_entry tools cutoff t =
     (case t of
        Result_entry e \<Rightarrow>
          if cutoff \<le> te_turn e \<or> te_truncated e then t
          else Result_entry (e\<lparr>te_payload := (case Option.bind (get_tool (te_tool e) tools) tl_summarize of
                 Some f \<Rightarrow> JStr (f (te_payload e)) | None \<Rightarrow> headTrim (te_payload e) 400), te_truncated := True\<rparr>)
      | _ \<Rightarrow> t)"

text \<open>With no result to keep the turn of the cutoff is read past the end of the list, which throws: \<^const>\<open>None\<close>.\<close>

definition microcompact :: "transcript_entry list \<Rightarrow> 'w agent_tool list \<Rightarrow> nat \<Rightarrow> transcript_entry list option" where
  "microcompact entries tools keepLast =
     (let rs = result_entries entries in
      if length rs \<le> keepLast then Some entries
      else if keepLast = 0 then None
      else Some (map (compact_entry tools (te_turn (rs ! (length rs - keepLast)))) entries))"

text \<open>\<open>slice(-n)\<close>, which is the whole list for \<open>n = 0\<close>.\<close>

definition slice_last :: "nat \<Rightarrow> 'a list \<Rightarrow> 'a list" where
  "slice_last n xs = (if n = 0 then xs else drop (length xs - n) xs)"

definition compactedTranscript :: "transcript_entry list \<Rightarrow> string \<Rightarrow> string \<Rightarrow> nat \<Rightarrow> transcript_entry list" where
  "compactedTranscript entries task handoffSummary keepLast = [Task_entry task, Handoff_entry handoffSummary] @ slice_last keepLast entries"

section \<open>Handoff\<close>

record handoff_draft =
  hd_objective :: string
  hd_completed :: "string list"
  hd_decisions :: "string list"
  hd_remaining :: "string list"
  hd_references :: "string list"

text \<open>The identifiers of a text that a handoff should keep: object identifiers, digests and DOIs, found from the left
  without overlap and without regard to case.\<close>

definition word_ch :: "char \<Rightarrow> bool" where
  "word_ch c \<longleftrightarrow> id_char (to_lower c) \<or> c = CHR ''_''"

definition alnum :: "char \<Rightarrow> bool" where
  "alnum c \<longleftrightarrow> id_char (to_lower c)"

definition not_word_next :: "string \<Rightarrow> bool" where
  "not_word_next s \<longleftrightarrow> s = [] \<or> \<not> word_ch (hd s)"

text \<open>How many characters a reference takes at the start of a text that is preceded by a word character or not.\<close>

definition object_ref :: "string \<Rightarrow> nat option" where
  "object_ref s =
     (case List.find (\<lambda>p. starts_with_ci s (p @ ''_'')) [''run'', ''hyp'', ''clm'', ''src'', ''bnd'', ''ags'', ''rcp'', ''exp'', ''corp'', ''q''] of
        None \<Rightarrow> None
      | Some p \<Rightarrow> (let n = Suc (length p); body = takeWhile alnum (drop n s) in
          if 6 \<le> length body \<and> not_word_next (drop (n + length body) s) then Some (n + length body) else None))"

definition hex_char :: "char \<Rightarrow> bool" where
  "hex_char c \<longleftrightarrow> is_digit c \<or> (97 \<le> (of_char (to_lower c) :: nat) \<and> (of_char (to_lower c) :: nat) \<le> 102)"

definition digest_ref :: "string \<Rightarrow> nat option" where
  "digest_ref s =
     (if starts_with_ci s ''sha256:'' \<and> 16 \<le> length (takeWhile hex_char (drop 7 s)) then Some (7 + length (takeWhile hex_char (drop 7 s))) else None)"

definition doi_char :: "char \<Rightarrow> bool" where
  "doi_char c \<longleftrightarrow> alnum c \<or> c \<in> set ''-._;()/:''"

definition doi_ref :: "string \<Rightarrow> nat option" where
  "doi_ref s =
     (let digits = takeWhile is_digit (drop 3 s); rest = drop (3 + length digits) s; tail = takeWhile doi_char (drop 1 rest) in
      if starts_with s ''10.'' \<and> 4 \<le> length digits \<and> length digits \<le> 9 \<and> starts_with rest ''/'' \<and> tail \<noteq> []
      then Some (4 + length digits + length tail) else None)"

definition ref_at :: "bool \<Rightarrow> string \<Rightarrow> nat option" where
  "ref_at afterWord s =
     (case (if afterWord then None else object_ref s) of
        Some n \<Rightarrow> Some n
      | None \<Rightarrow> (case digest_ref s of Some n \<Rightarrow> Some n | None \<Rightarrow> if afterWord then None else doi_ref s))"

function refs_from :: "bool \<Rightarrow> string \<Rightarrow> string list" where
  "refs_from afterWord [] = []"
| "refs_from afterWord (c # cs) =
     (case ref_at afterWord (c # cs) of
        Some n \<Rightarrow> if n = 0 then refs_from (word_ch c) cs
                   else take n (c # cs) # refs_from (word_ch (last (take n (c # cs)))) (drop n (c # cs))
      | None \<Rightarrow> refs_from (word_ch c) cs)"
  by pat_completeness auto

termination
  by (relation "measure (\<lambda>(b, s). length s)") auto

definition stableReferences :: "json \<Rightarrow> string list" where
  "stableReferences v = take 30 (remdups_first (refs_from False (stringify v)))"

definition newline :: string where
  "newline = [char_of (10 :: nat)]"

fun join_lines :: "string list \<Rightarrow> string" where
  "join_lines [] = []"
| "join_lines [x] = x"
| "join_lines (x # xs) = x @ newline @ join_lines xs"

definition bulleted :: "string list \<Rightarrow> string" where
  "bulleted ls = join_lines (map (\<lambda>l. ''- '' @ l) ls)"

definition renderHandoff :: "handoff_draft \<Rightarrow> string" where
  "renderHandoff d =
     ''Objective'' @ newline @ hd_objective d @ newline @ newline @
     ''Completed'' @ newline @ bulleted (hd_completed d) @ newline @ newline @
     ''Decisions'' @ newline @ (if hd_decisions d \<noteq> [] then bulleted (hd_decisions d) else ''- No explicit decision recorded.'') @ newline @ newline @
     ''Remaining'' @ newline @ bulleted (hd_remaining d) @ newline @ newline @
     ''References'' @ newline @ (if hd_references d \<noteq> [] then bulleted (hd_references d) else ''- No stable identifier recorded.'')"

definition transcript_json :: "transcript_entry list \<Rightarrow> json" where
  "transcript_json ts = JArr (map entry_json ts)"

definition handoffQualityIssues :: "handoff_draft \<Rightarrow> transcript_entry list \<Rightarrow> string list" where
  "handoffQualityIssues d ts =
     (let rendered = renderHandoff d; refs = stableReferences (transcript_json ts) in
      (if length rendered < 120 then [''handoff too short ('' @ str_of_nat (length rendered) @ '' chars; minimum 120)''] else []) @
      (if refs \<noteq> [] \<and> \<not> list_ex (contains rendered) refs
       then [''handoff dropped all '' @ str_of_nat (length refs) @ '' stable identifier(s)''] else []))"

fun is_action :: "transcript_entry \<Rightarrow> bool" where
  "is_action (Use_tool_entry _ _ _ _) = True"
| "is_action (Finish_entry _ _) = True"
| "is_action _ = False"

definition deterministicHandoffFallback :: "transcript_entry list \<Rightarrow> string \<Rightarrow> string \<Rightarrow> string" where
  "deterministicHandoffFallback ts task failure =
     renderHandoff \<lparr>hd_objective = (if 8 \<le> length task then take 2000 task else ''Continue task: '' @ task),
       hd_completed = [''Transcript contains '' @ str_of_nat (length (filter is_action ts)) @ '' recorded action(s) and '' @
           str_of_nat (length (result_entries ts)) @ '' tool result(s); '' @ str_of_nat (length (filter te_ok (result_entries ts))) @ '' tool result(s) succeeded.'',
         ''Semantic summarization was unavailable: '' @ take 500 failure @ ''. Recent transcript entries are preserved verbatim below this handoff.''],
       hd_decisions = [],
       hd_remaining = [''Continue from the preserved recent transcript and re-check earlier work before treating any item as complete.''],
       hd_references = stableReferences (JArr [JStr task, transcript_json ts])\<rparr>"

section \<open>Rollout\<close>

datatype tool_phase = Phase_started | Phase_finished

datatype disposition = Tool_not_started | Tool_outcome_unknown

datatype rollout_line =
    Session_meta string string string string nat "string option"
  | Resumed nat "disposition option"
  | Transcript_item transcript_entry
  | Tool_lifecycle nat string tool_phase
  | Effect_committed tool_result_entry
  | Compacted string "transcript_entry list" "nat \<times> nat list"
  | Turn_line agent_turn_record
  | Session_end string

fun meta_task :: "rollout_line list \<Rightarrow> string option" where
  "meta_task [] = None"
| "meta_task (Session_meta s c p t n par # ls) = Some t"
| "meta_task (_ # ls) = meta_task ls"

text \<open>The transcript after the newest baseline: every item extends it, every condensation starts it anew.\<close>

fun replay :: "string \<Rightarrow> transcript_entry list \<Rightarrow> rollout_line list \<Rightarrow> transcript_entry list" where
  "replay task acc [] = acc"
| "replay task acc (Transcript_item e # ls) = replay task (acc @ [e]) ls"
| "replay task acc (Compacted summary kept forgotten # ls) =
     replay task ([Task_entry task] @ (if summary \<noteq> [] then [Handoff_entry summary] else []) @ kept) ls"
| "replay task acc (_ # ls) = replay task acc ls"

definition replay_transcript :: "rollout_line list \<Rightarrow> transcript_entry list" where
  "replay_transcript ls = replay (case meta_task ls of Some t \<Rightarrow> t | None \<Rightarrow> []) [] ls"

definition turn_records :: "rollout_line list \<Rightarrow> agent_turn_record list" where
  "turn_records ls = List.map_filter (\<lambda>l. case l of Turn_line r \<Rightarrow> Some r | _ \<Rightarrow> None) ls"

definition effect_lines :: "rollout_line list \<Rightarrow> tool_result_entry list" where
  "effect_lines ls = List.map_filter (\<lambda>l. case l of Effect_committed e \<Rightarrow> Some e | _ \<Rightarrow> None) ls"

text \<open>The first successful result under each action hash.\<close>

fun first_effects :: "(string \<times> tool_result_entry) list \<Rightarrow> tool_result_entry list \<Rightarrow> (string \<times> tool_result_entry) list" where
  "first_effects acc [] = acc"
| "first_effects acc (e # es) =
     (case te_actionHash e of
        Some h \<Rightarrow> if te_ok e \<and> map_of acc h = None then first_effects (acc @ [(h, e)]) es else first_effects acc es
      | None \<Rightarrow> first_effects acc es)"

text \<open>An action without a result after it is an open turn; the search stops at the last tool action.\<close>

fun open_action :: "transcript_entry list \<Rightarrow> (nat \<times> string) option" where
  "open_action [] = None"
| "open_action (t # ts) =
     (case open_action ts of
        Some x \<Rightarrow> Some x
      | None \<Rightarrow>
          (case t of
             Use_tool_entry n tool _ _ \<Rightarrow>
               if list_ex (\<lambda>u. case u of Use_tool_entry _ _ _ _ \<Rightarrow> True | _ \<Rightarrow> False) ts then None
               else if list_ex (\<lambda>u. case u of Result_entry e \<Rightarrow> te_turn e = n | _ \<Rightarrow> False) ts then None else Some (n, tool)
           | _ \<Rightarrow> None))"

definition open_turn :: "rollout_line list \<Rightarrow> transcript_entry list \<Rightarrow> (nat \<times> string \<times> disposition) option" where
  "open_turn ls ts =
     map_option (\<lambda>(n, tool). (n, tool,
       if Tool_lifecycle n tool Phase_started \<in> set ls \<and> Tool_lifecycle n tool Phase_finished \<notin> set ls then Tool_outcome_unknown else Tool_not_started))
       (open_action ts)"

record reconstructed_session =
  rs_transcript :: "transcript_entry list"
  rs_turns :: "agent_turn_record list"
  rs_committedEffects :: "tool_result_entry list"
  rs_openTurn :: "(nat \<times> string \<times> disposition) option"
  rs_ended :: bool

definition reconstructSession :: "rollout_line list \<Rightarrow> reconstructed_session" where
  "reconstructSession ls =
     (let ts = replay_transcript ls in
      \<lparr>rs_transcript = ts, rs_turns = turn_records ls,
       rs_committedEffects = map snd (first_effects [] (effect_lines ls @ result_entries ts)),
       rs_openTurn = open_turn ls ts,
       rs_ended = list_ex (\<lambda>l. case l of Session_end _ \<Rightarrow> True | _ \<Rightarrow> False) ls\<rparr>)"

end
