(* ===== verification/Agent_Loop.thy ===== *)
theory Agent_Loop
  imports Agent_Protocol
begin

text \<open>
  The tool loop of the agent kernel, \<^verbatim>\<open>src/src/agent/loop.ts\<close>, over the permission engine and the extension bus. A
  session turns a state into a state and possibly an end; the world of the process (the model, the tools, the clock,
  the caller's abort) is a type variable that every awaited call may change. The model's answer is already validated
  against the action schema, as the provider plane does. The state keeps two histories the program does not have, for
  stating properties only: the executions of tools and the transcripts sent to the model.
\<close>

section \<open>State\<close>

datatype loop_status = L_completed | L_max_turns | L_aborted | L_failed | L_step_timeout | L_total_timeout | L_stop_condition

fun loop_status_str :: "loop_status \<Rightarrow> string" where
  "loop_status_str L_completed = ''completed''"
| "loop_status_str L_max_turns = ''max_turns''"
| "loop_status_str L_aborted = ''aborted''"
| "loop_status_str L_failed = ''failed''"
| "loop_status_str L_step_timeout = ''step_timeout''"
| "loop_status_str L_total_timeout = ''total_timeout''"
| "loop_status_str L_stop_condition = ''stop_condition''"

datatype agent_event =
    Session_started | Turn_started nat | Model_call_done nat | Tool_used nat string bool "nat option" | Permission_asked nat string bool
  | Compaction_event string nat nat | Steered nat | Session_finished loop_status nat

record telemetry =
  tm_turns :: nat
  tm_modelCalls :: nat
  tm_toolCalls :: nat
  tm_failedToolCalls :: nat
  tm_permissionAsks :: nat
  tm_compactions :: nat

record stop_context =
  sc_turn :: nat
  sc_turnsRemaining :: nat
  sc_tokensUsed :: nat
  sc_transcriptTokens :: nat

datatype model_answer = Answer agent_action | Invalid_output string | Provider_error string string

record model_reply =
  mr_answer :: model_answer
  mr_totalTokens :: "nat option"

datatype handoff_reply = Handoff_threw string | Handoff_failed string string "nat option" | Handoff_draft handoff_draft "nat option"

record execution =
  ex_turn :: nat
  ex_tool :: string
  ex_asked :: json
  ex_args :: json
  ex_hash :: string
  ex_effectful :: bool
  ex_ok :: bool
  ex_transcript :: "transcript_entry list"

record 'w loop_env =
  le_task :: string
  le_context :: "(string \<times> json) list"
  le_capability :: string
  le_purpose :: string
  le_sessionId :: string
  le_parent :: "string option"
  le_maxTurns :: nat
  le_budget :: token_budget
  le_keepLast :: nat
  le_maxFinishReasks :: nat
  le_maxConsecutiveInvalid :: nat
  le_stepTimeout :: "nat option"
  le_totalTimeout :: "nat option"
  le_stopWhen :: "(string \<times> (stop_context \<Rightarrow> bool)) list"
  le_resultSchema :: "(json \<Rightarrow> string list + json) option"
  le_tools :: "'w agent_tool list"
  le_permissions :: permission_engine_options
  le_ask :: "string \<Rightarrow> json \<Rightarrow> 'w \<Rightarrow> bool \<times> 'w"
  le_before :: "'w before_handler list"
  le_after :: "(nat \<times> (tool_call_info \<Rightarrow> 'w \<Rightarrow> 'w)) list"
  le_turnEnd :: "(nat \<times> (nat \<Rightarrow> string \<Rightarrow> 'w \<Rightarrow> 'w)) list"
  le_artifacts :: "(string \<Rightarrow> 'w \<Rightarrow> string \<times> 'w) option"
  le_model :: "nat \<Rightarrow> transcript_entry list \<Rightarrow> 'w \<Rightarrow> model_reply \<times> 'w"
  le_handoff :: "transcript_entry list \<Rightarrow> 'w \<Rightarrow> handoff_reply \<times> 'w"
  le_now :: "'w \<Rightarrow> nat \<times> 'w"
  le_abort :: "'w \<Rightarrow> bool \<times> 'w"
  le_steer :: "'w \<Rightarrow> string option \<times> 'w"
  le_sha :: "string \<Rightarrow> string"
  le_unhashable :: "json \<Rightarrow> string option"
  le_parse :: "string \<Rightarrow> json option"
  le_secrets :: "(string \<times> string) list"
  le_canary :: string

record 'w agent_state =
  ls_transcript :: "transcript_entry list"
  ls_turns :: "agent_turn_record list"
  ls_rollout :: "rollout_line list"
  ls_events :: "agent_event list"
  ls_telemetry :: telemetry
  ls_effects :: "(string \<times> tool_result_entry) list"
  ls_consecutiveInvalid :: nat
  ls_finishReasks :: nat
  ls_totalTokens :: nat
  ls_budget :: "run_budget option"
  ls_engine :: permission_engine
  ls_world :: 'w
  ls_executions :: "execution list"
  ls_sent :: "transcript_entry list list"

text \<open>A turn goes on to the next, ends the session, or leaves the loop without ending it: it throws, or waits for a tool
  that never settles when there is no step timeout.\<close>

datatype turn_exit = Continue | Ended loop_status "string option" "json option" | Loop_threw string

type_synonym 'w step = "'w agent_state \<Rightarrow> turn_exit option \<times> 'w agent_state"

definition andGo :: "'w step \<Rightarrow> 'w step \<Rightarrow> 'w step" where
  "andGo f g s = (case f s of (Some x, s') \<Rightarrow> (Some x, s') | (None, s') \<Rightarrow> g s')"

definition go :: "('w agent_state \<Rightarrow> 'w agent_state) \<Rightarrow> 'w step" where
  "go f s = (None, f s)"

definition exit_with :: "turn_exit \<Rightarrow> 'w step" where
  "exit_with x s = (Some x, s)"

definition ended :: "loop_status \<Rightarrow> string \<Rightarrow> 'w step" where
  "ended st err = exit_with (Ended st (Some err) None)"

section \<open>Bookkeeping\<close>

definition append_line :: "rollout_line \<Rightarrow> 'w agent_state \<Rightarrow> 'w agent_state" where
  "append_line l s = s\<lparr>ls_rollout := ls_rollout s @ [l]\<rparr>"

definition emit :: "agent_event \<Rightarrow> 'w agent_state \<Rightarrow> 'w agent_state" where
  "emit ev s = s\<lparr>ls_events := ls_events s @ [ev]\<rparr>"

definition pushEntry :: "transcript_entry \<Rightarrow> 'w agent_state \<Rightarrow> 'w agent_state" where
  "pushEntry e s = append_line (Transcript_item e) (s\<lparr>ls_transcript := ls_transcript s @ [e]\<rparr>)"

definition pushTurn :: "agent_turn_record \<Rightarrow> 'w agent_state \<Rightarrow> 'w agent_state" where
  "pushTurn r s = append_line (Turn_line r) (s\<lparr>ls_turns := ls_turns s @ [r]\<rparr>)"

definition turn_rec :: "nat \<Rightarrow> turn_action \<Rightarrow> string option \<Rightarrow> bool option \<Rightarrow> string option \<Rightarrow> agent_turn_record" where
  "turn_rec n a t ok r = \<lparr>at_turn = n, at_action = a, at_tool = t, at_ok = ok, at_reason = r\<rparr>"

definition plain_result :: "nat \<Rightarrow> string \<Rightarrow> bool \<Rightarrow> json \<Rightarrow> tool_result_entry" where
  "plain_result n t ok p = \<lparr>te_turn = n, te_tool = t, te_ok = ok, te_payload = p, te_truncated = False, te_spilledTo = None, te_untrusted = False,
     te_actionHash = None, te_deduplicatedFromTurn = None\<rparr>"

definition in_world :: "('w \<Rightarrow> 'a \<times> 'w) \<Rightarrow> ('a \<Rightarrow> 'w step) \<Rightarrow> 'w step" where
  "in_world f k s = (case f (ls_world s) of (x, w) \<Rightarrow> k x (s\<lparr>ls_world := w\<rparr>))"

definition turn_end_hooks :: "'w loop_env \<Rightarrow> nat \<Rightarrow> string \<Rightarrow> 'w agent_state \<Rightarrow> 'w agent_state" where
  "turn_end_hooks e n action s = s\<lparr>ls_world := turnEnd (le_turnEnd e) n action (ls_world s)\<rparr>"

definition check_abort :: "'w loop_env \<Rightarrow> 'w step" where
  "check_abort e = in_world (le_abort e) (\<lambda>a. if a then ended L_aborted ''aborted by caller'' else go id)"

definition over :: "'w loop_env \<Rightarrow> nat option \<Rightarrow> 'w step \<Rightarrow> 'w step" where
  "over e deadline k = (case deadline of None \<Rightarrow> go id | Some d \<Rightarrow> in_world (le_now e) (\<lambda>now. if d \<le> now then k else go id))"

section \<open>Before the model call\<close>

definition stop_conditions :: "'w loop_env \<Rightarrow> nat \<Rightarrow> 'w step" where
  "stop_conditions e n s =
     (case List.find (\<lambda>c. snd c \<lparr>sc_turn = n, sc_turnsRemaining = le_maxTurns e - n + 1, sc_tokensUsed = ls_totalTokens s,
             sc_transcriptTokens = transcriptTokens (ls_transcript s)\<rparr>) (le_stopWhen e) of
        Some c \<Rightarrow> ended L_stop_condition (''stop condition fired before turn '' @ str_of_nat n @ '': '' @ fst c) s
      | None \<Rightarrow> (None, s))"

definition stopAfterTurns :: "nat \<Rightarrow> string \<times> (stop_context \<Rightarrow> bool)" where
  "stopAfterTurns n = (''turns>='' @ str_of_nat n, \<lambda>c. n \<le> sc_turn c)"

definition stopOnTokenBudget :: "nat \<Rightarrow> string \<times> (stop_context \<Rightarrow> bool)" where
  "stopOnTokenBudget n = (''tokens>='' @ str_of_nat n, \<lambda>c. n \<le> sc_tokensUsed c)"

definition turn_gate :: "'w loop_env \<Rightarrow> nat option \<Rightarrow> nat \<Rightarrow> 'w step" where
  "turn_gate e totalDeadline n =
     andGo (check_abort e)
    (andGo (over e totalDeadline (ended L_total_timeout (''session exceeded totalTimeoutMs ('' @ str_of_nat (the (le_totalTimeout e)) @ ''ms) before turn '' @ str_of_nat n)))
           (stop_conditions e n))"

definition steer_turn :: "'w loop_env \<Rightarrow> nat \<Rightarrow> 'w step" where
  "steer_turn e n = in_world (le_steer e) (\<lambda>t. case t of
     None \<Rightarrow> go id
   | Some x \<Rightarrow> go (emit (Steered n) \<circ> pushTurn (turn_rec n A_steer None None (Some (take 200 x))) \<circ> pushEntry (Steer_entry x)))"

definition begin_turn :: "nat \<Rightarrow> 'w step" where
  "begin_turn n = go (\<lambda>s. emit (Turn_started n) (s\<lparr>ls_telemetry := (ls_telemetry s)\<lparr>tm_turns := Suc (tm_turns (ls_telemetry s))\<rparr>\<rparr>))"

record handoff_outcome =
  ho_summary :: string
  ho_degraded :: bool
  ho_modelCallCompleted :: bool
  ho_reason :: string

definition record_call :: "nat option \<Rightarrow> 'w agent_state \<Rightarrow> 'w agent_state" where
  "record_call tokens s = s\<lparr>ls_budget := map_option (spend (map_option int tokens)) (ls_budget s),
     ls_telemetry := (ls_telemetry s)\<lparr>tm_modelCalls := Suc (tm_modelCalls (ls_telemetry s))\<rparr>\<rparr>"

definition fallback_outcome :: "transcript_entry list \<Rightarrow> string \<Rightarrow> bool \<Rightarrow> string \<Rightarrow> handoff_outcome" where
  "fallback_outcome ts task called reason =
     \<lparr>ho_summary = deterministicHandoffFallback ts task reason, ho_degraded = True, ho_modelCallCompleted = called, ho_reason = reason\<rparr>"

definition handoffSummary :: "'w loop_env \<Rightarrow> 'w agent_state \<Rightarrow> handoff_outcome \<times> 'w agent_state" where
  "handoffSummary e s =
     (case le_handoff e (ls_transcript s) (ls_world s) of (r, w) \<Rightarrow>
      let s1 = s\<lparr>ls_world := w\<rparr>; ts = ls_transcript s in
      case r of
        Handoff_threw m \<Rightarrow> (fallback_outcome ts (le_task e) False (''handoff provider threw: '' @ m), s1)
      | Handoff_failed k m tokens \<Rightarrow> (fallback_outcome ts (le_task e) True (''handoff model call failed ('' @ k @ ''): '' @ m), record_call tokens s1)
      | Handoff_draft d tokens \<Rightarrow>
          (let issues = handoffQualityIssues d ts in
           if issues \<noteq> [] then (fallback_outcome ts (le_task e) True (''handoff quality gate rejected output: '' @ join ''; '' issues), record_call tokens s1)
           else (\<lparr>ho_summary = renderHandoff d, ho_degraded = False, ho_modelCallCompleted = True, ho_reason = []\<rparr>, record_call tokens s1)))"

text \<open>Entries after the handoff are dropped from the oldest until the rest fits or only two entries are left.\<close>

fun drop_suffix :: "nat \<Rightarrow> transcript_entry list \<Rightarrow> transcript_entry list" where
  "drop_suffix hard (a # b # c # rest) = (if hard < transcriptTokens (a # b # c # rest) then drop_suffix hard (a # b # rest) else a # b # c # rest)"
| "drop_suffix hard ts = ts"

definition emergency :: string where
  "emergency = ''Hard context limit forced omission of handoff detail. Inspect the durable rollout before assuming earlier work is complete.''"

fun replace_handoff :: "transcript_entry list \<Rightarrow> transcript_entry list" where
  "replace_handoff [] = []"
| "replace_handoff (t # ts) = (if is_handoff t then Handoff_entry emergency # ts else t # replace_handoff ts)"

fun remove_handoff :: "transcript_entry list \<Rightarrow> transcript_entry list" where
  "remove_handoff [] = []"
| "remove_handoff (t # ts) = (if is_handoff t then ts else t # remove_handoff ts)"

definition degrade :: "nat \<Rightarrow> transcript_entry list \<Rightarrow> transcript_entry list" where
  "degrade hard ts =
     (let t1 = drop_suffix hard ts;
          t2 = (if hard < transcriptTokens t1 then replace_handoff t1 else t1) in
      if hard < transcriptTokens t2 then remove_handoff t2 else t2)"

text \<open>What a condensation dropped. The program compares entries by identity; here a transcript entry is dropped unless
  an equal one is kept.\<close>

definition forgotten :: "transcript_entry list \<Rightarrow> transcript_entry list \<Rightarrow> nat \<times> nat list" where
  "forgotten before after =
     (let dropped = filter (\<lambda>t. t \<notin> set after) before in (length dropped, sort (remdups (List.map_filter entry_turn dropped))))"

definition handoff_text :: "transcript_entry list \<Rightarrow> string option" where
  "handoff_text ts = (case List.find is_handoff ts of Some (Handoff_entry s) \<Rightarrow> Some s | _ \<Rightarrow> None)"

definition full_compaction :: "'w loop_env \<Rightarrow> nat \<Rightarrow> nat \<Rightarrow> transcript_entry list \<Rightarrow> 'w step" where
  "full_compaction e n tokensBefore micro s =
     (case handoffSummary e s of (h, s1) \<Rightarrow>
      let hard = tb_hard (le_budget e);
          compacted = compactedTranscript micro (le_task e) (ho_summary h) (le_keepLast e);
          budgetDegraded = hard < transcriptTokens compacted;
          ts = (if budgetDegraded then degrade hard compacted else compacted);
          after = transcriptTokens ts;
          line = Compacted (case handoff_text ts of Some x \<Rightarrow> x | None \<Rightarrow> []) (drop (if handoff_text ts = None then 1 else 2) ts) (forgotten (ls_transcript s) ts);
          s2 = append_line line (s1\<lparr>ls_transcript := ts\<rparr>);
          s3 = s2\<lparr>ls_telemetry := (ls_telemetry s2)\<lparr>tm_compactions := Suc (tm_compactions (ls_telemetry s2))\<rparr>\<rparr>;
          s4 = (if ho_modelCallCompleted h then emit (Compaction_event ''full'' tokensBefore after) s3 else s3);
          s5 = (if ho_degraded h \<or> budgetDegraded then emit (Compaction_event ''degrade'' tokensBefore after) s4 else s4);
          s6 = pushTurn (turn_rec n A_compaction None None (Some (if ho_degraded h then ''deterministic handoff fallback: '' @ ho_reason h else ''full handoff''))) s5 in
      if hard < after
      then ended L_failed (''task context alone exceeds transcriptHard ('' @ str_of_nat after @ '' > '' @ str_of_nat hard @ ''); shorten the task or raise the explicit context budget'') s6
      else (None, s6))"

definition compaction_gate :: "'w loop_env \<Rightarrow> nat \<Rightarrow> 'w step" where
  "compaction_gate e n s =
     (let tokensBefore = transcriptTokens (ls_transcript s) in
      if tokensBefore \<le> tb_soft (le_budget e) then (None, s)
      else case microcompact (ls_transcript s) (le_tools e) (le_keepLast e) of
        None \<Rightarrow> exit_with (Loop_threw ''Cannot read properties of undefined'') s
      | Some micro \<Rightarrow>
          if tb_hard (le_budget e) < transcriptTokens micro then full_compaction e n tokensBefore micro s
          else if transcriptTokens micro < tokensBefore
          then (None, emit (Compaction_event ''micro'' tokensBefore (transcriptTokens micro))
            (s\<lparr>ls_transcript := micro, ls_telemetry := (ls_telemetry s)\<lparr>tm_compactions := Suc (tm_compactions (ls_telemetry s))\<rparr>\<rparr>))
          else (None, s))"

section \<open>The model call\<close>

definition budget_gate :: "nat \<Rightarrow> 'w step" where
  "budget_gate n s =
     (case ls_budget s of
        Some b \<Rightarrow> if hasRemaining b then (None, s)
          else ended L_stop_condition (''run token budget exhausted before turn '' @ str_of_nat n @ '' '' @ emdash @ '' raise FARLAB_RUN_TOKEN_BUDGET and resume'') s
      | None \<Rightarrow> (None, s))"

definition call_model :: "'w loop_env \<Rightarrow> nat \<Rightarrow> 'w agent_state \<Rightarrow> model_answer \<times> 'w agent_state" where
  "call_model e n s =
     (case le_model e n (ls_transcript s) (ls_world s) of (r, w) \<Rightarrow>
       let s1 = record_call (mr_totalTokens r) (s\<lparr>ls_world := w, ls_sent := ls_sent s @ [ls_transcript s]\<rparr>) in
       (mr_answer r, emit (Model_call_done n) (s1\<lparr>ls_totalTokens := ls_totalTokens s1 + (case mr_totalTokens r of Some t \<Rightarrow> t | None \<Rightarrow> 0)\<rparr>)))"

definition ms_text :: "'w loop_env \<Rightarrow> string" where
  "ms_text e = str_of_nat (the (le_stepTimeout e)) @ ''ms''"

definition after_model :: "'w loop_env \<Rightarrow> nat option \<Rightarrow> nat \<Rightarrow> 'w step" where
  "after_model e stepDeadline n = over e stepDeadline
     (andGo (go (pushTurn (turn_rec n A_tool_error (Some ''-'') (Some False) (Some (''step timeout '' @ ms_text e)))))
            (ended L_step_timeout (''turn '' @ str_of_nat n @ '' exceeded stepTimeoutMs ('' @ ms_text e @ '') after the model call '' @ emdash @ '' not starting the tool phase'')))"

text \<open>Another invalid action in a row: the turn is over, or the session when there were too many.\<close>

definition invalid_action :: "'w loop_env \<Rightarrow> string \<Rightarrow> 'w step" where
  "invalid_action e what s =
     (if le_maxConsecutiveInvalid e \<le> ls_consecutiveInvalid s
      then ended L_failed (str_of_nat (ls_consecutiveInvalid s) @ '' consecutive '' @ what) s
      else exit_with Continue s)"

definition count_invalid :: "'w agent_state \<Rightarrow> 'w agent_state" where
  "count_invalid s = s\<lparr>ls_consecutiveInvalid := Suc (ls_consecutiveInvalid s)\<rparr>"

definition invalid_output :: "'w loop_env \<Rightarrow> nat \<Rightarrow> string \<Rightarrow> 'w step" where
  "invalid_output e n msg =
     andGo (go (pushTurn (turn_rec n A_invalid_action None (Some False) (Some (take 500 msg))) \<circ>
                pushEntry (Error_entry n (''your reply was not a valid action object: '' @ msg)) \<circ> count_invalid))
           (invalid_action e ''invalid model actions'')"

definition finish_action :: "'w loop_env \<Rightarrow> nat \<Rightarrow> string \<Rightarrow> json \<Rightarrow> 'w step" where
  "finish_action e n reason result =
     andGo (go (pushEntry (Finish_entry n reason)))
       (let fin = (\<lambda>v. andGo (go (pushTurn (turn_rec n A_finish None (Some True) (Some (take 200 reason))) \<circ> turn_end_hooks e n ''finish''))
                             (exit_with (Ended L_completed None (Some v)))) in
        case le_resultSchema e of
          None \<Rightarrow> fin result
        | Some check \<Rightarrow>
            (case check result of
               Inr v \<Rightarrow> fin v
             | Inl issues \<Rightarrow>
                 andGo (go (\<lambda>s. s\<lparr>ls_finishReasks := Suc (ls_finishReasks s)\<rparr>)) (\<lambda>s.
                   if le_maxFinishReasks e < ls_finishReasks s
                   then ended L_failed (''finish payload rejected '' @ str_of_nat (ls_finishReasks s) @ '' times: '' @ join ''; '' (take 3 issues)) s
                   else andGo (go (pushTurn (turn_rec n A_invalid_action None None (Some ''finish-rejected'')) \<circ>
                          pushEntry (Error_entry n (''finish payload rejected by the result contract: '' @ join ''; '' (take 5 issues) @ '' '' @ emdash @ '' fix the payload and finish again''))))
                          (exit_with Continue) s)))"

section \<open>The tool call\<close>

text \<open>Does an action embed a slice of untrusted content: windows of 48 characters, every 24, at most 200 per result.\<close>

fun squeeze_spaces :: "string \<Rightarrow> string" where
  "squeeze_spaces [] = []"
| "squeeze_spaces (c # cs) =
     (if is_space c then (case cs of d # _ \<Rightarrow> if is_space d then squeeze_spaces cs else CHR '' '' # squeeze_spaces cs | [] \<Rightarrow> [CHR '' ''])
      else c # squeeze_spaces cs)"

function windows :: "nat \<Rightarrow> string \<Rightarrow> string list" where
  "windows k [] = []"
| "windows k (c # cs) = (if k = 0 \<or> length (c # cs) < 48 then [] else take 48 (c # cs) # windows (k - 1) (drop 24 (c # cs)))"
  by pat_completeness auto

termination
  by (relation "measure (\<lambda>(k, p). length p)") auto

definition argsEmbedUntrusted :: "json \<Rightarrow> transcript_entry list \<Rightarrow> bool" where
  "argsEmbedUntrusted args ts =
     list_ex (\<lambda>r. list_ex (contains (stringify args)) (windows 200 (squeeze_spaces (stringify (te_payload r)))))
       (take 20 (filter (\<lambda>r. te_untrusted r \<and> te_ok r) (result_entries ts)))"

definition denied :: "'w loop_env \<Rightarrow> nat \<Rightarrow> string \<Rightarrow> json \<Rightarrow> string option \<Rightarrow> 'w step" where
  "denied e n tool payload reason =
     andGo (go (turn_end_hooks e n ''use_tool'' \<circ> pushTurn (turn_rec n A_permission_denied (Some tool) (Some False) reason) \<circ>
                pushEntry (Result_entry (plain_result n tool False payload))))
           (exit_with Continue)"

definition denied_payload :: "string \<Rightarrow> json" where
  "denied_payload r = JObj [(''denied'', JBool True), (''reason'', JStr r)]"

definition exfil_gate :: "'w loop_env \<Rightarrow> nat \<Rightarrow> string \<Rightarrow> json \<Rightarrow> 'w step" where
  "exfil_gate e n tool args =
     (case scanOutbound (stringify args) (le_secrets e) [(''session'', le_canary e)] of
        None \<Rightarrow> go id
      | Some v \<Rightarrow> denied e n tool (denied_payload (describeViolation v)) (Some (take 200 (describeViolation v))))"

text \<open>The permission engine, asking in the world when it has to; the clock is read for the expiry of grants.\<close>

definition permission :: "'w loop_env \<Rightarrow> 'w agent_tool \<Rightarrow> json \<Rightarrow> 'w agent_state \<Rightarrow> permission_decision \<times> 'w agent_state" where
  "permission e t args s =
     (case le_now e (ls_world s) of (now, w) \<Rightarrow>
      case decide_begin (le_sha e) (le_permissions e) (tl_name t) args (tl_riskClass t) (int now) (ls_engine s) of
        (Decided d, en) \<Rightarrow> (d, s\<lparr>ls_world := w, ls_engine := en\<rparr>)
      | (Asking key at1, en) \<Rightarrow>
          (case le_ask e (tl_name t) args w of (granted, w') \<Rightarrow>
           case decide_resume (le_permissions e) (tl_name t) key at1 granted en of (d, en') \<Rightarrow> (d, s\<lparr>ls_world := w', ls_engine := en'\<rparr>)))"

definition untrusted_policy :: "'w agent_tool \<Rightarrow> json \<Rightarrow> transcript_entry list \<Rightarrow> permission_decision \<Rightarrow> permission_decision" where
  "untrusted_policy t args ts d =
     (if pd_effect d = Allow \<and> risk_of t \<noteq> Risk_read \<and> argsEmbedUntrusted args ts
      then \<lparr>pd_effect = Deny, pd_rule = Some ''untrusted-content policy (RU-3 T3): effectful tool args embed untrusted external content'', pd_cachedGrant = False, pd_asked = False\<rparr>
      else d)"

definition permission_gate :: "'w loop_env \<Rightarrow> nat \<Rightarrow> 'w agent_tool \<Rightarrow> json \<Rightarrow> 'w step" where
  "permission_gate e n t args s =
     (case permission e t args s of (d0, s1) \<Rightarrow>
      let d = untrusted_policy t args (ls_transcript s1) d0;
          s2 = (if pd_asked d then s1\<lparr>ls_telemetry := (ls_telemetry s1)\<lparr>tm_permissionAsks := Suc (tm_permissionAsks (ls_telemetry s1))\<rparr>\<rparr> else s1);
          s3 = (if pd_asked d \<or> pd_cachedGrant d then emit (Permission_asked n (tl_name t) (pd_effect d = Allow)) s2 else s2) in
      if pd_effect d \<noteq> Allow
      then denied e n (tl_name t) (denied_payload (case pd_rule d of Some r \<Rightarrow> r | None \<Rightarrow> ''permission denied'')) (pd_rule d) s3
      else (None, s3))"

definition hook_gate :: "'w loop_env \<Rightarrow> nat \<Rightarrow> string \<Rightarrow> json \<Rightarrow> (json \<Rightarrow> 'w step) \<Rightarrow> 'w step" where
  "hook_gate e n tool args k =
     in_world (beforeToolCall (le_before e) \<lparr>tc_tool = tool, tc_args = args, tc_turn = n\<rparr>) (\<lambda>out.
       case bo_terminate out of
         Some r \<Rightarrow> ended L_aborted (''terminated by hook: '' @ r)
       | None \<Rightarrow>
           (case bo_blocked out of
              Some r \<Rightarrow> denied e n tool (JObj [(''blocked'', JBool True), (''reason'', JStr r)]) (Some (''hook: '' @ r))
            | None \<Rightarrow> k (case bo_args out of Some a \<Rightarrow> a | None \<Rightarrow> args)))"

definition invalid_args :: "'w loop_env \<Rightarrow> nat \<Rightarrow> string \<Rightarrow> string \<Rightarrow> string \<Rightarrow> 'w step" where
  "invalid_args e n tool msg reason =
     andGo (go (pushTurn (turn_rec n A_invalid_action (Some tool) (Some False) (Some reason)) \<circ>
                pushEntry (Result_entry (plain_result n tool False (JObj [(''validationError'', JStr msg)]))) \<circ> count_invalid))
           (invalid_action e ''invalid actions'')"

definition action_hash :: "'w loop_env \<Rightarrow> 'w agent_tool \<Rightarrow> json \<Rightarrow> string" where
  "action_hash e t v = canonicalSha256 (le_sha e) (JObj [(''tool'', JStr (tl_name t)), (''source'', JStr (case tl_source t of Some x \<Rightarrow> x | None \<Rightarrow> ''builtin'')),
     (''version'', case tl_version t of Some x \<Rightarrow> JStr x | None \<Rightarrow> JNull), (''riskClass'', JStr (risk_str (risk_of t))), (''args'', v)])"

definition effectful :: "'w agent_tool \<Rightarrow> bool" where
  "effectful t \<longleftrightarrow> risk_of t \<noteq> Risk_read"

text \<open>The result of an effect that already succeeded is replayed.\<close>

definition replay_effect :: "'w loop_env \<Rightarrow> nat \<Rightarrow> string \<Rightarrow> string \<Rightarrow> tool_result_entry \<Rightarrow> 'w step" where
  "replay_effect e n tool h prior =
     andGo (go (turn_end_hooks e n ''use_tool'' \<circ> emit (Tool_used n tool True (Some (te_turn prior))) \<circ>
                pushTurn (turn_rec n A_use_tool (Some tool) (Some True)
                  (Some (''deduplicated effectful action '' @ take 12 h @ ''; replayed successful turn '' @ str_of_nat (te_turn prior)))) \<circ>
                pushEntry (Result_entry (prior\<lparr>te_turn := n, te_tool := tool, te_ok := True, te_actionHash := Some h, te_deduplicatedFromTurn := Some (te_turn prior)\<rparr>))))
           (exit_with Continue)"

definition skipped :: "nat \<Rightarrow> string \<Rightarrow> string \<Rightarrow> string \<Rightarrow> 'w agent_state \<Rightarrow> 'w agent_state" where
  "skipped n tool why reason = pushTurn (turn_rec n A_tool_error (Some tool) (Some False) (Some reason)) \<circ>
     pushEntry (Result_entry (plain_result n tool False (JObj [(''skipped'', JBool True), (''reason'', JStr why)])))"

definition settled_result :: "tool_outcome \<Rightarrow> tool_result option" where
  "settled_result out =
     (case out of
        Settled r \<Rightarrow> Some r
      | Tool_threw m \<Rightarrow> Some \<lparr>tx_ok = False, tx_data = JUndef, tx_error = JObj [(''kind'', JStr ''execution''), (''message'', JStr m)], tx_summary = None\<rparr>
      | Tool_hung \<Rightarrow> None)"

text \<open>Oversized payloads go to the artifact store, or are cut.\<close>

definition bounded_payload :: "'w loop_env \<Rightarrow> tool_result \<Rightarrow> 'w agent_state \<Rightarrow> (json \<times> bool \<times> string option) \<times> 'w agent_state" where
  "bounded_payload e r s =
     (let payload = (if tx_ok r then (if tx_data r = JUndef then JNull else tx_data r) else JObj [(''error'', tx_error r)]);
          text = stringify payload in
      if length text \<le> tb_maxToolResultChars (le_budget e) then ((payload, False, None), s)
      else case le_artifacts e of
        Some put \<Rightarrow> (case put text (ls_world s) of (ref, w) \<Rightarrow>
          ((JObj [(''spilledTo'', JStr ref), (''sizeChars'', JNum (int (length text)))], False, Some ref), s\<lparr>ls_world := w\<rparr>))
      | None \<Rightarrow> ((JObj [(''truncated'', JBool True), (''head'', JStr (take (tb_maxToolResultChars (le_budget e)) text)),
           (''originalChars'', JNum (int (length text)))], True, None), s))"

definition record_result :: "'w loop_env \<Rightarrow> nat \<Rightarrow> 'w agent_tool \<Rightarrow> json \<Rightarrow> string \<Rightarrow> tool_result \<Rightarrow> 'w step" where
  "record_result e n t v h r s =
     (case bounded_payload e r s of ((payload, truncated, spilled), s1) \<Rightarrow>
      let entry = \<lparr>te_turn = n, te_tool = tl_name t, te_ok = tx_ok r, te_payload = payload, te_truncated = truncated, te_spilledTo = spilled,
                   te_untrusted = tl_external t, te_actionHash = Some h, te_deduplicatedFromTurn = None\<rparr>;
          s2 = pushEntry (Result_entry entry) s1;
          s3 = (if effectful t \<and> tx_ok r
                then append_line (Effect_committed entry) (s2\<lparr>ls_effects := filter (\<lambda>x. fst x \<noteq> h) (ls_effects s2) @ [(h, entry)]\<rparr>) else s2);
          s4 = append_line (Tool_lifecycle n (tl_name t) Phase_finished) s3;
          tm = ls_telemetry s4;
          s5 = s4\<lparr>ls_telemetry := tm\<lparr>tm_toolCalls := Suc (tm_toolCalls tm), tm_failedToolCalls := tm_failedToolCalls tm + (if tx_ok r then 0 else 1)\<rparr>\<rparr>;
          s6 = emit (Tool_used n (tl_name t) (tx_ok r) None) (pushTurn (turn_rec n A_use_tool (Some (tl_name t)) (Some (tx_ok r)) (tx_summary r)) s5);
          s7 = s6\<lparr>ls_world := afterToolCall (le_after e) \<lparr>tc_tool = tl_name t, tc_args = v, tc_turn = n\<rparr> (ls_world s6)\<rparr> in
      exit_with Continue (turn_end_hooks e n ''use_tool'' s7))"

definition execute_tool :: "'w loop_env \<Rightarrow> nat \<Rightarrow> 'w agent_tool \<Rightarrow> json \<Rightarrow> json \<Rightarrow> string \<Rightarrow> 'w step" where
  "execute_tool e n t asked v h s =
     (let s1 = append_line (Tool_lifecycle n (tl_name t) Phase_started) s in
      case tl_execute t v (ls_world s1) of (out, w) \<Rightarrow>
      let s2 = s1\<lparr>ls_world := w, ls_executions := ls_executions s1 @ [\<lparr>ex_turn = n, ex_tool = tl_name t, ex_asked = asked, ex_args = v, ex_hash = h,
                 ex_effectful = effectful t, ex_ok = (case settled_result out of Some r \<Rightarrow> tx_ok r | None \<Rightarrow> False),
                 ex_transcript = ls_transcript s1\<rparr>]\<rparr> in
      case settled_result out of
        Some r \<Rightarrow> record_result e n t v h r s2
      | None \<Rightarrow>
          if le_stepTimeout e = None then exit_with (Loop_threw ''the tool never settles'') s2
          else ended L_step_timeout (''turn '' @ str_of_nat n @ '': tool '' @ tl_name t @ '' did not settle within the remaining step budget (stepTimeoutMs '' @ ms_text e @ '')'')
            (skipped n (tl_name t) ''step timeout (tool hung)'' (''step timeout '' @ ms_text e @ '' (tool hung)'') s2))"

definition run_tool :: "'w loop_env \<Rightarrow> nat option \<Rightarrow> nat \<Rightarrow> 'w agent_tool \<Rightarrow> json \<Rightarrow> json \<Rightarrow> string \<Rightarrow> 'w step" where
  "run_tool e stepDeadline n t asked v h s =
     (case (if effectful t then map_of (ls_effects s) h else None) of
        Some prior \<Rightarrow> replay_effect e n (tl_name t) h prior s
      | None \<Rightarrow>
          andGo (check_abort e)
         (andGo (over e stepDeadline
                  (andGo (go (skipped n (tl_name t) ''step timeout'' (''step timeout '' @ ms_text e)))
                         (ended L_step_timeout (''turn '' @ str_of_nat n @ '' exceeded stepTimeoutMs ('' @ ms_text e @ '') before tool execution''))))
                (execute_tool e n t asked v h)) s)"

definition use_tool :: "'w loop_env \<Rightarrow> nat option \<Rightarrow> nat \<Rightarrow> string \<Rightarrow> json \<Rightarrow> string \<Rightarrow> 'w step" where
  "use_tool e stepDeadline n tool args reason =
     andGo (go (pushEntry (Use_tool_entry n tool (redactOutbound (le_parse e) args (le_secrets e) [(''session'', le_canary e)]) reason)))
       (case get_tool tool (le_tools e) of
          None \<Rightarrow>
            andGo (go (pushTurn (turn_rec n A_invalid_action (Some tool) (Some False) None) \<circ>
                       pushEntry (Error_entry n (''unknown tool '' @ [CHR 39] @ tool @ [CHR 39] @ '' '' @ emdash @ '' available: '' @ join '', '' (map tl_name (le_tools e)))) \<circ> count_invalid))
                  (invalid_action e ''invalid actions'')
        | Some t \<Rightarrow>
            andGo (exfil_gate e n tool args)
           (andGo (permission_gate e n t args)
                  (hook_gate e n tool args (\<lambda>hookArgs.
                    case tl_validate t hookArgs of
                      Inl msg \<Rightarrow> invalid_args e n tool (''invalid arguments for tool '' @ [CHR 39] @ tool @ [CHR 39] @ '': '' @ msg) ''args validation failed''
                    | Inr v \<Rightarrow>
                        andGo (go (\<lambda>s. s\<lparr>ls_consecutiveInvalid := 0\<rparr>))
                       (andGo (check_abort e)
                         (case le_unhashable e v of
                            Some m \<Rightarrow> invalid_args e n tool (''validated tool action is not canonically hashable: '' @ m) (''validated tool action is not canonically hashable: '' @ m)
                          | None \<Rightarrow> run_tool e stepDeadline n t args v (action_hash e t v)))))))"

section \<open>The loop\<close>

definition answer_step :: "'w loop_env \<Rightarrow> nat option \<Rightarrow> nat \<Rightarrow> model_answer \<Rightarrow> 'w step" where
  "answer_step e stepDeadline n a =
     (case a of
        Invalid_output m \<Rightarrow> invalid_output e n m
      | Provider_error k m \<Rightarrow> ended L_failed (''model call failed ('' @ k @ ''): '' @ m)
      | Answer (Finish reason result) \<Rightarrow> finish_action e n reason result
      | Answer (Use_tool tool args reason) \<Rightarrow> use_tool e stepDeadline n tool args reason)"

definition deadline_from :: "'w loop_env \<Rightarrow> nat option \<Rightarrow> (nat option \<Rightarrow> 'w step) \<Rightarrow> 'w step" where
  "deadline_from e timeout k = (case timeout of None \<Rightarrow> k None | Some ms \<Rightarrow> in_world (le_now e) (\<lambda>now. k (Some (now + ms))))"

definition model_phase :: "'w loop_env \<Rightarrow> nat option \<Rightarrow> nat \<Rightarrow> 'w step" where
  "model_phase e stepDeadline n s =
     (case call_model e n s of (a, s1) \<Rightarrow> andGo (after_model e stepDeadline n) (answer_step e stepDeadline n a) s1)"

definition one_turn :: "'w loop_env \<Rightarrow> nat option \<Rightarrow> nat \<Rightarrow> 'w step" where
  "one_turn e totalDeadline n =
     andGo (turn_gate e totalDeadline n)
       (deadline_from e (le_stepTimeout e) (\<lambda>stepDeadline.
         andGo (steer_turn e n)
        (andGo (begin_turn n)
        (andGo (compaction_gate e n)
        (andGo (budget_gate n)
               (model_phase e stepDeadline n))))))"

definition finish :: "loop_status \<Rightarrow> 'w agent_state \<Rightarrow> 'w agent_state" where
  "finish st s = (let s1 = append_line (Session_end (loop_status_str st)) s in emit (Session_finished st (length (ls_turns s1))) s1)"

record loop_result =
  lr_status :: loop_status
  lr_result :: "json option"
  lr_error :: "string option"

text \<open>From a turn on, with the number of turns left.\<close>

fun loop :: "'w loop_env \<Rightarrow> nat option \<Rightarrow> nat \<Rightarrow> nat \<Rightarrow> 'w agent_state \<Rightarrow> (string + loop_result) \<times> 'w agent_state" where
  "loop e totalDeadline n 0 s =
     (Inr \<lparr>lr_status = L_max_turns, lr_result = None, lr_error = Some (''reached max turns ('' @ str_of_nat (le_maxTurns e) @ '') without a valid finish'')\<rparr>, finish L_max_turns s)"
| "loop e totalDeadline n (Suc k) s =
     (case one_turn e totalDeadline n s of
        (Some (Ended st err res), s') \<Rightarrow> (Inr \<lparr>lr_status = st, lr_result = res, lr_error = err\<rparr>, finish st s')
      | (Some (Loop_threw m), s') \<Rightarrow> (Inl m, s')
      | (_, s') \<Rightarrow> loop e totalDeadline (Suc n) k s')"

text \<open>A session starts from its task, or continues a reconstructed one.\<close>

record resume_plan =
  rp_transcript :: "transcript_entry list"
  rp_priorTurns :: nat
  rp_openTurn :: "(nat \<times> string \<times> disposition) option"
  rp_committedEffects :: "tool_result_entry list"

text \<open>The plan to continue a conversation turn from the lines of its rollout, and the one of a refinement session. The
  former counts turn records, the latter takes the greatest turn.\<close>

fun meta_capability :: "rollout_line list \<Rightarrow> string option" where
  "meta_capability [] = None"
| "meta_capability (Session_meta s c p t n par # ls) = Some c"
| "meta_capability (_ # ls) = meta_capability ls"

definition planConversationResume :: "rollout_line list \<Rightarrow> resume_plan option" where
  "planConversationResume ls =
     (let rec = reconstructSession ls in
      if ls = [] \<or> meta_capability ls \<notin> {None, Some ''conversation-resident''} \<or> rs_ended rec \<or> rs_transcript rec = [] then None
      else Some \<lparr>rp_transcript = rs_transcript rec, rp_priorTurns = length (rs_turns rec), rp_openTurn = rs_openTurn rec,
        rp_committedEffects = rs_committedEffects rec\<rparr>)"

definition refine_resume :: "string \<Rightarrow> rollout_line list \<Rightarrow> string + resume_plan" where
  "refine_resume sid ls =
     (let rec = reconstructSession ls in
      if ls = [] then Inl (''resume: no rollout found for session '' @ sid)
      else case (case meta_capability ls of Some c \<Rightarrow> if c = ''refine-evidence-gaps'' then None else Some c | None \<Rightarrow> None) of
        Some c \<Rightarrow> Inl (''resume: session '' @ sid @ '' belongs to capability '' @ [CHR 39] @ c @ [CHR 39] @ '', not refine-evidence-gaps'')
      | None \<Rightarrow> Inr \<lparr>rp_transcript = rs_transcript rec, rp_priorTurns = fold max (map at_turn (rs_turns rec)) 0, rp_openTurn = rs_openTurn rec,
          rp_committedEffects = rs_committedEffects rec\<rparr>)"

definition interrupted_payload :: "disposition \<Rightarrow> json" where
  "interrupted_payload d = JObj [(''interrupted'', JBool True),
     (''disposition'', JStr (if d = Tool_outcome_unknown then ''tool_outcome_unknown'' else ''tool_not_started'')),
     (''note'', JStr (if d = Tool_outcome_unknown then ''the session crashed during this tool call '' @ emdash @ '' its outcome is unknown; do not assume it succeeded''
        else ''the session was interrupted before this tool call started''))]"

definition open_session :: "'w loop_env \<Rightarrow> resume_plan option \<Rightarrow> 'w agent_state \<Rightarrow> 'w agent_state" where
  "open_session e plan s =
     (case plan of
        Some p \<Rightarrow>
          (let s1 = append_line (Resumed (rp_priorTurns p) (map_option (\<lambda>(_, _, d). d) (rp_openTurn p))) (s\<lparr>ls_transcript := ls_transcript s @ rp_transcript p\<rparr>) in
           case rp_openTurn p of
             None \<Rightarrow> s1
           | Some (n, tool, d) \<Rightarrow>
               pushTurn (turn_rec n A_tool_error (Some tool) (Some False) (Some (''interrupted: '' @ (if d = Tool_outcome_unknown then ''tool_outcome_unknown'' else ''tool_not_started''))))
                 (pushEntry (Result_entry (plain_result n tool False (interrupted_payload d))) s1))
      | None \<Rightarrow>
          append_line (Session_meta (le_sessionId e) (le_capability e) (le_purpose e) (le_task e) (le_maxTurns e) (le_parent e))
            (fold (\<lambda>(l, p). pushEntry (Context_entry l p)) (le_context e) (pushEntry (Task_entry (le_task e)) s)))"

definition initial_effects :: "resume_plan option \<Rightarrow> transcript_entry list \<Rightarrow> (string \<times> tool_result_entry) list" where
  "initial_effects plan ts = first_effects [] ((case plan of Some p \<Rightarrow> rp_committedEffects p | None \<Rightarrow> []) @ result_entries ts)"

definition empty_session :: "run_budget option \<Rightarrow> permission_engine \<Rightarrow> rollout_line list \<Rightarrow> 'w \<Rightarrow> 'w agent_state" where
  "empty_session b en ls w = \<lparr>ls_transcript = [], ls_turns = [], ls_rollout = ls, ls_events = [],
     ls_telemetry = \<lparr>tm_turns = 0, tm_modelCalls = 0, tm_toolCalls = 0, tm_failedToolCalls = 0, tm_permissionAsks = 0, tm_compactions = 0\<rparr>,
     ls_effects = [], ls_consecutiveInvalid = 0, ls_finishReasks = 0, ls_totalTokens = 0, ls_budget = b, ls_engine = en, ls_world = w,
     ls_executions = [], ls_sent = []\<rparr>"

definition session_start :: "'w loop_env \<Rightarrow> resume_plan option \<Rightarrow> 'w agent_state \<Rightarrow> 'w agent_state" where
  "session_start e plan s =
     (let s1 = open_session e plan s in emit Session_started (s1\<lparr>ls_effects := initial_effects plan (ls_transcript s1)\<rparr>))"

definition prior_turns :: "resume_plan option \<Rightarrow> nat" where
  "prior_turns plan = (case plan of Some p \<Rightarrow> rp_priorTurns p | None \<Rightarrow> 0)"

definition runAgentLoop :: "'w loop_env \<Rightarrow> resume_plan option \<Rightarrow> 'w agent_state \<Rightarrow> (string + loop_result) \<times> 'w agent_state" where
  "runAgentLoop e plan s0 =
     (let s = session_start e plan s0 in
      case (case le_totalTimeout e of None \<Rightarrow> (None, ls_world s) | Some ms \<Rightarrow> (case le_now e (ls_world s) of (now, w) \<Rightarrow> (Some (now + ms), w))) of
        (totalDeadline, w) \<Rightarrow> loop e totalDeadline (Suc (prior_turns plan)) (le_maxTurns e - prior_turns plan) (s\<lparr>ls_world := w\<rparr>))"

end
