(* ===== verification/Agent_Logic.thy ===== *)
theory Agent_Logic
  imports Agent_Loop "HOL-Library.Sublist"
begin

text \<open>
  How properties of sessions are proved: triples over the steps of a turn, an interface for predicates that the
  bookkeeping of the loop keeps, and an interface for predicates carried from turn to turn, whose client lemma is that
  a whole session carries them.
\<close>

section \<open>Triples\<close>

text \<open>From \<open>A\<close>, a step that goes on reaches \<open>C\<close> and one that leaves the turn reaches \<open>E\<close>.\<close>

definition triple :: "('w agent_state \<Rightarrow> bool) \<Rightarrow> 'w step \<Rightarrow> ('w agent_state \<Rightarrow> bool) \<Rightarrow> (turn_exit \<Rightarrow> 'w agent_state \<Rightarrow> bool) \<Rightarrow> bool" where
  "triple A f C E \<longleftrightarrow> (\<forall>s. A s \<longrightarrow> (case f s of (None, s') \<Rightarrow> C s' | (Some x, s') \<Rightarrow> E x s'))"

lemma tripleI: "(\<And>s. A s \<Longrightarrow> case f s of (None, s') \<Rightarrow> C s' | (Some x, s') \<Rightarrow> E x s') \<Longrightarrow> triple A f C E"
  by (simp add: triple_def)

lemma tripleD: "triple A f C E \<Longrightarrow> A s \<Longrightarrow> case f s of (None, s') \<Rightarrow> C s' | (Some x, s') \<Rightarrow> E x s'"
  by (simp add: triple_def)

lemma triple_weaken:
  "triple A f C E \<Longrightarrow> (\<And>s. A' s \<Longrightarrow> A s) \<Longrightarrow> (\<And>s. C s \<Longrightarrow> C' s) \<Longrightarrow> (\<And>x s. E x s \<Longrightarrow> E' x s) \<Longrightarrow> triple A' f C' E'"
  unfolding triple_def by (fastforce split: option.splits)

lemma triple_fact: "(c \<Longrightarrow> triple A f C E) \<Longrightarrow> triple (\<lambda>s. A s \<and> c) f C E"
  by (auto simp: triple_def)

lemma triple_andGo: "triple A f B E \<Longrightarrow> triple B g C E \<Longrightarrow> triple A (andGo f g) C E"
  unfolding triple_def andGo_def by (fastforce split: option.splits)

lemma triple_go: "(\<And>s. A s \<Longrightarrow> C (f s)) \<Longrightarrow> triple A (go f) C E"
  by (simp add: triple_def go_def)

lemma triple_exit: "(\<And>s. A s \<Longrightarrow> E x s) \<Longrightarrow> triple A (exit_with x) C E"
  by (simp add: triple_def exit_with_def)

lemma triple_in_world: "(\<And>s w. A s \<Longrightarrow> A (s\<lparr>ls_world := w\<rparr>)) \<Longrightarrow> (\<And>x. triple A (k x) C E) \<Longrightarrow> triple A (in_world f k) C E"
  unfolding triple_def in_world_def by (simp add: case_prod_unfold)

lemma triple_check_abort: "(\<And>s w. A s \<Longrightarrow> A (s\<lparr>ls_world := w\<rparr>)) \<Longrightarrow> (\<And>s err. A s \<Longrightarrow> E (Ended L_aborted err None) s) \<Longrightarrow> triple A (check_abort e) A E"
  unfolding check_abort_def by (rule triple_in_world) (auto simp: ended_def intro!: triple_go triple_exit)

lemma triple_over: "(\<And>s w. A s \<Longrightarrow> A (s\<lparr>ls_world := w\<rparr>)) \<Longrightarrow> triple A k A E \<Longrightarrow> triple A (over e d k) A E"
  unfolding over_def by (cases d) (auto intro!: triple_in_world triple_go)

section \<open>Bookkeeping\<close>

text \<open>Two states that differ only in counters, grants, budget, world and further events.\<close>

definition same_core :: "'w agent_state \<Rightarrow> 'w agent_state \<Rightarrow> bool" where
  "same_core s s' \<longleftrightarrow> ls_transcript s' = ls_transcript s \<and> ls_turns s' = ls_turns s \<and> ls_rollout s' = ls_rollout s \<and>
     ls_effects s' = ls_effects s \<and> ls_executions s' = ls_executions s \<and> ls_sent s' = ls_sent s \<and>
     pe_mode (ls_engine s') = pe_mode (ls_engine s) \<and> prefix (ls_events s) (ls_events s')"

fun quiet_line :: "rollout_line \<Rightarrow> bool" where
  "quiet_line (Tool_lifecycle _ _ _) = True"
| "quiet_line (Session_end _) = True"
| "quiet_line _ = False"

text \<open>A session that ends as completed gives a result that the result contract accepts.\<close>

definition accepted :: "'w loop_env \<Rightarrow> json option \<Rightarrow> bool" where
  "accepted e res \<longleftrightarrow> (\<exists>v. res = Some v \<and> (case le_resultSchema e of None \<Rightarrow> True | Some check \<Rightarrow> Inr v \<in> range check))"

fun sound_exit :: "'w loop_env \<Rightarrow> turn_exit \<Rightarrow> bool" where
  "sound_exit e (Ended L_completed err res) = (err = None \<and> accepted e res)"
| "sound_exit e _ = True"

abbreviation quietly :: "'w loop_env \<Rightarrow> ('w agent_state \<Rightarrow> bool) \<Rightarrow> 'w step \<Rightarrow> bool" where
  "quietly e I f \<equiv> triple I f I (\<lambda>x s. I s \<and> sound_exit e x)"

lemma decide_begin_mode: "pe_mode (snd (decide_begin sha opts tool args risk now en)) = pe_mode en"
  by (auto simp: decide_begin_def decideAsk_begin_def Let_def split: option.splits if_splits)

lemma decide_resume_mode: "pe_mode (snd (decide_resume opts tool key now granted en)) = pe_mode en"
  by (simp add: decide_resume_def Let_def)

lemma permission_same_core: "same_core s (snd (permission e t args s))"
proof -
  obtain now w where c: "le_now e (ls_world s) = (now, w)"
    by fastforce
  obtain q en where b: "decide_begin (le_sha e) (le_permissions e) (tl_name t) args (tl_riskClass t) (int now) (ls_engine s) = (q, en)"
    by fastforce
  have m: "pe_mode en = pe_mode (ls_engine s)"
    using decide_begin_mode [of "le_sha e" "le_permissions e" "tl_name t" args "tl_riskClass t" "int now" "ls_engine s"] b by simp
  show ?thesis
    using m by (cases q) (simp_all add: permission_def c b same_core_def case_prod_unfold decide_resume_mode)
qed

lemma same_core_trans: "same_core s t \<Longrightarrow> same_core t u \<Longrightarrow> same_core s u"
  unfolding same_core_def using prefix_order.order_trans by auto

locale quiet_invariant =
  fixes I :: "'w agent_state \<Rightarrow> bool"
  assumes entry: "I s \<Longrightarrow> I (pushEntry t s)"
    and turn: "I s \<Longrightarrow> I (pushTurn r s)"
    and line: "I s \<Longrightarrow> quiet_line l \<Longrightarrow> I (append_line l s)"
    and same: "I s \<Longrightarrow> same_core s s' \<Longrightarrow> I s'"
begin

lemma world [simp]: "I s \<Longrightarrow> I (s\<lparr>ls_world := w\<rparr>)"
  by (erule same) (simp add: same_core_def)

lemma telemetry [simp]: "I s \<Longrightarrow> I (s\<lparr>ls_telemetry := tm\<rparr>)"
  by (erule same) (simp add: same_core_def)

lemma invalid [simp]: "I s \<Longrightarrow> I (s\<lparr>ls_consecutiveInvalid := k\<rparr>)"
  by (erule same) (simp add: same_core_def)

lemma reasks [simp]: "I s \<Longrightarrow> I (s\<lparr>ls_finishReasks := k\<rparr>)"
  by (erule same) (simp add: same_core_def)

lemma emitted [simp]: "I s \<Longrightarrow> I (emit ev s)"
  by (erule same) (simp add: same_core_def emit_def)

lemma hooks [simp]: "I s \<Longrightarrow> I (turn_end_hooks e n a s)"
  by (simp add: turn_end_hooks_def)

lemma counted [simp]: "I s \<Longrightarrow> I (count_invalid s)"
  by (simp add: count_invalid_def)

lemmas pushed [simp] = entry turn

lemma quiet_ended: "st \<noteq> L_completed \<Longrightarrow> quietly e I (ended st err)"
  unfolding ended_def by (rule triple_exit) (cases st, simp_all)

lemma quiet_continue: "quietly e I (exit_with Continue)"
  by (rule triple_exit) simp

lemma quiet_skipped: "quietly e I (go (skipped n tool why reason))"
  by (rule triple_go) (simp add: skipped_def)

lemma quiet_over: "quietly e I k \<Longrightarrow> quietly e I (over e d k)"
  by (rule triple_over) simp_all

lemma quiet_check_abort: "quietly e I (check_abort e)"
  by (rule triple_check_abort) simp_all

lemma quiet_stop_conditions: "quietly e I (stop_conditions e n)"
  by (rule tripleI) (simp add: stop_conditions_def ended_def exit_with_def split: option.splits)

lemma quiet_turn_gate: "quietly e I (turn_gate e d n)"
  unfolding turn_gate_def
  by (rule triple_andGo [OF quiet_check_abort triple_andGo [OF quiet_over [OF quiet_ended] quiet_stop_conditions]]) simp

lemma quiet_steer_turn: "quietly e I (steer_turn e n)"
  unfolding steer_turn_def by (rule triple_in_world) (auto split: option.splits intro!: triple_go)

lemma quiet_begin_turn: "quietly e I (begin_turn n)"
  unfolding begin_turn_def by (rule triple_go) simp

lemma quiet_budget_gate: "quietly e I (budget_gate n)"
  by (rule tripleI) (simp add: budget_gate_def ended_def exit_with_def split: option.splits)

lemma quiet_after_model: "quietly e I (after_model e d n)"
  unfolding after_model_def by (rule quiet_over [OF triple_andGo [OF triple_go quiet_ended]]) simp_all

lemma quiet_invalid_action: "quietly e I (invalid_action e what)"
  by (rule tripleI) (simp add: invalid_action_def ended_def exit_with_def)

lemma quiet_invalid_output: "quietly e I (invalid_output e n msg)"
  unfolding invalid_output_def by (rule triple_andGo [OF _ quiet_invalid_action]) (auto intro!: triple_go)

lemma quiet_invalid_args: "quietly e I (invalid_args e n tool msg reason)"
  unfolding invalid_args_def by (rule triple_andGo [OF _ quiet_invalid_action]) (auto intro!: triple_go)

lemma denied_exits: "triple I (denied e n tool payload reason) C (\<lambda>x s. I s \<and> sound_exit e x)"
  unfolding denied_def by (rule triple_andGo [OF triple_go triple_exit, where B = I]) simp_all

lemma quiet_replay_effect: "quietly e I (replay_effect e n tool h prior)"
  unfolding replay_effect_def by (rule triple_andGo [OF _ quiet_continue]) (auto intro!: triple_go)

lemma quiet_finish_action: "quietly e I (finish_action e n reason result)"
proof -
  have fin: "quietly e I (andGo (go (pushTurn r \<circ> turn_end_hooks e n a)) (exit_with (Ended L_completed None (Some v))))"
    if "accepted e (Some v)" for r a v
    by (rule triple_andGo [OF triple_go triple_exit]) (simp_all add: that)
  have reask: "quietly e I (andGo (go (\<lambda>s. s\<lparr>ls_finishReasks := Suc (ls_finishReasks s)\<rparr>))
      (\<lambda>s. if le_maxFinishReasks e < ls_finishReasks s then ended L_failed (msg s) s else andGo (go f) (exit_with Continue) s))"
    if "\<And>s. I s \<Longrightarrow> I (f s)" for msg f
    using that by (intro triple_andGo [OF triple_go] tripleI) (auto simp: ended_def exit_with_def andGo_def go_def)
  have acc: "accepted e (Some v)" if "le_resultSchema e = Some check" "check result = Inr v" for check v
    using that rangeI [of check result] by (simp add: accepted_def)
  have body: "quietly e I (case le_resultSchema e of None \<Rightarrow> f result | Some check \<Rightarrow> (case check result of Inr v \<Rightarrow> f v | Inl issues \<Rightarrow> g issues))"
    if "\<And>v. accepted e (Some v) \<Longrightarrow> quietly e I (f v)" "\<And>issues. quietly e I (g issues)" for f g
    using that acc by (cases "le_resultSchema e") (simp_all add: accepted_def split: sum.splits)
  show ?thesis
    unfolding finish_action_def Let_def
    by (rule triple_andGo [OF triple_go body]) (simp, erule fin, rule reask, simp)
qed

text \<open>What a bounded payload changes is the world.\<close>

lemma bounded_payload_inv: "I s \<Longrightarrow> I (snd (bounded_payload e r s))"
  by (auto simp: bounded_payload_def Let_def split: option.splits prod.splits)

lemma quiet_deadline_from: "(\<And>d. triple I (k d) C E) \<Longrightarrow> triple I (deadline_from e t k) C E"
  unfolding deadline_from_def by (cases t) (auto intro!: triple_in_world)

end

section \<open>Gates of a tool call\<close>

text \<open>What holds when the gates let an action through: the tool is registered, no credential or session marker leaves in
  the arguments that were asked for, the permission engine does not deny them, and arguments of an effectful tool embed
  no untrusted content.\<close>

definition admissible :: "'w loop_env \<Rightarrow> 'w agent_tool \<Rightarrow> json \<Rightarrow> permission_mode \<Rightarrow> transcript_entry list \<Rightarrow> bool" where
  "admissible e t asked mode ts \<longleftrightarrow> get_tool (tl_name t) (le_tools e) = Some t \<and>
     scanOutbound (stringify asked) (le_secrets e) [(''session'', le_canary e)] = None \<and>
     map_option fst (verdict_of (le_permissions e) mode (tl_name t) asked (tl_riskClass t)) \<noteq> Some Deny \<and>
     (effectful t \<longrightarrow> \<not> argsEmbedUntrusted asked ts)"

definition cleared :: "'w loop_env \<Rightarrow> 'w agent_tool \<Rightarrow> json \<Rightarrow> 'w agent_state \<Rightarrow> bool" where
  "cleared e t asked s \<longleftrightarrow> admissible e t asked (pe_mode (ls_engine s)) (ls_transcript s)"

lemma cleared_world [simp]: "cleared e t asked (s\<lparr>ls_world := w\<rparr>) = cleared e t asked s"
  by (simp add: cleared_def)

lemma cleared_invalid [simp]: "cleared e t asked (s\<lparr>ls_consecutiveInvalid := k\<rparr>) = cleared e t asked s"
  by (simp add: cleared_def)

lemma verdict_clears:
  assumes "map_option fst (verdict_of opts mode tool args risk) \<noteq> Some Deny"
  shows "Deny \<notin> effects mode tool args (po_rules opts)"
    and "\<not> (mode = Mode_explore \<and> (case risk of None \<Rightarrow> Risk_execute | Some r \<Rightarrow> r) \<noteq> Risk_read)"
  using assms verdict_deny [of _ opts mode tool args risk]
  by (force simp: effects_def, auto simp: verdict_effect mode_effect_def split: if_splits)

lemma get_tool_name: "get_tool n tools = Some t \<Longrightarrow> tl_name t = n"
  by (auto simp: get_tool_def find_Some_iff)

lemma permission_allows:
  assumes "pd_effect (fst (permission e t args s)) = Allow"
  shows "map_option fst (verdict_of (le_permissions e) (pe_mode (ls_engine s)) (tl_name t) args (tl_riskClass t)) \<noteq> Some Deny"
  using assms by (auto simp: permission_def decide_begin_def split: prod.splits)

lemma untrusted_policy_allows:
  "pd_effect (untrusted_policy t args ts d) = Allow \<Longrightarrow> pd_effect d = Allow \<and> (effectful t \<longrightarrow> \<not> argsEmbedUntrusted args ts)"
  by (auto simp: untrusted_policy_def effectful_def split: if_splits)

context quiet_invariant
begin

lemma exfil_gate_scans:
  "triple I (exfil_gate e n tool args) (\<lambda>s. I s \<and> scanOutbound (stringify args) (le_secrets e) [(''session'', le_canary e)] = None)
     (\<lambda>x s. I s \<and> sound_exit e x)"
  unfolding exfil_gate_def
  by (cases "scanOutbound (stringify args) (le_secrets e) [(''session'', le_canary e)]")
    (simp_all add: denied_exits triple_go del: scanOutbound.simps)

lemma permission_gate_clears:
  assumes "get_tool (tl_name t) (le_tools e) = Some t" "scanOutbound (stringify args) (le_secrets e) [(''session'', le_canary e)] = None"
  shows "triple I (permission_gate e n t args) (\<lambda>s. I s \<and> cleared e t args s) (\<lambda>x s. I s \<and> sound_exit e x)"
proof (rule tripleI)
  fix s assume I: "I s"
  obtain d0 s1 where p: "permission e t args s = (d0, s1)"
    by fastforce
  let ?d = "untrusted_policy t args (ls_transcript s1) d0"
  let ?s2 = "if pd_asked ?d then s1\<lparr>ls_telemetry := (ls_telemetry s1)\<lparr>tm_permissionAsks := Suc (tm_permissionAsks (ls_telemetry s1))\<rparr>\<rparr> else s1"
  let ?s3 = "if pd_asked ?d \<or> pd_cachedGrant ?d then emit (Permission_asked n (tl_name t) (pd_effect ?d = Allow)) ?s2 else ?s2"
  have core: "same_core s s1"
    using permission_same_core [of s e t args] p by simp
  have I3: "I ?s3"
    using same [OF I core] by simp
  have core3: "ls_transcript ?s3 = ls_transcript s1 \<and> pe_mode (ls_engine ?s3) = pe_mode (ls_engine s)"
    using core by (simp add: same_core_def emit_def)
  show "case permission_gate e n t args s of (None, s') \<Rightarrow> I s' \<and> cleared e t args s' | (Some x, s') \<Rightarrow> I s' \<and> sound_exit e x"
  proof (cases "pd_effect ?d = Allow")
    case True
    have "cleared e t args ?s3"
      using assms core3 untrusted_policy_allows [OF True] permission_allows [of e t args s] p
      by (simp add: cleared_def admissible_def del: scanOutbound.simps)
    then show ?thesis
      using True I3 by (simp add: permission_gate_def p Let_def)
  next
    case False
    show ?thesis
      using False tripleD [OF denied_exits I3] by (simp add: permission_gate_def p Let_def)
  qed
qed

end

section \<open>Turn by turn\<close>

lemma pushTurn_transcript [simp]: "ls_transcript (pushTurn r s) = ls_transcript s"
  by (simp add: pushTurn_def append_line_def)

lemma emit_transcript [simp]: "ls_transcript (emit ev s) = ls_transcript s"
  by (simp add: emit_def)

lemma full_compaction_bound:
  "fst (full_compaction e n k micro s) = None \<Longrightarrow> transcriptTokens (ls_transcript (snd (full_compaction e n k micro s))) \<le> tb_hard (le_budget e)"
  by (simp add: full_compaction_def case_prod_unfold Let_def ended_def exit_with_def append_line_def split: if_splits)

lemma compaction_gate_bound:
  assumes "fst (compaction_gate e n s) = None" "tb_soft (le_budget e) \<le> tb_hard (le_budget e)"
  shows "transcriptTokens (ls_transcript (snd (compaction_gate e n s))) \<le> tb_hard (le_budget e)"
  using assms full_compaction_bound [of e n _ _ s]
  by (auto simp: compaction_gate_def Let_def exit_with_def split: option.splits if_splits)

lemma execute_tool_sound: "fst (execute_tool e n t asked v h s) = Some x \<Longrightarrow> sound_exit e x"
  by (auto simp: execute_tool_def record_result_def Let_def ended_def exit_with_def split: prod.splits option.splits if_splits)

locale turn_invariant =
  fixes e :: "'w loop_env" and P Q :: "nat \<Rightarrow> 'w agent_state \<Rightarrow> bool"
  assumes P_quiet: "quiet_invariant (P n)"
    and Q_quiet: "quiet_invariant (Q n)"
    and onward: "Q n s \<Longrightarrow> P (Suc n) s"
    and unspent: "P n s \<Longrightarrow> P (Suc n) s"
    and compaction: "quietly e (P n) (compaction_gate e n)"
    and model: "P n s \<Longrightarrow> (tb_soft (le_budget e) \<le> tb_hard (le_budget e) \<Longrightarrow> transcriptTokens (ls_transcript s) \<le> tb_hard (le_budget e)) \<Longrightarrow>
      Q n (snd (call_model e n s))"
    and execution: "Q n s \<Longrightarrow> cleared e t asked s \<Longrightarrow> tl_validate t a = Inr v \<Longrightarrow>
      (effectful t \<Longrightarrow> map_of (ls_effects s) (action_hash e t v) = None) \<Longrightarrow>
      P (Suc n) (snd (execute_tool e n t asked v (action_hash e t v) s))"
begin

abbreviation spent :: "nat \<Rightarrow> turn_exit \<Rightarrow> 'w agent_state \<Rightarrow> bool" where
  "spent n x s \<equiv> P (Suc n) s \<and> sound_exit e x"

lemma spends: "triple A f (Q n) (\<lambda>x s. Q n s \<and> sound_exit e x) \<Longrightarrow> triple A f (Q n) (spent n)"
  by (erule triple_weaken) (auto intro: onward)

lemma spent_go: "triple A f C (\<lambda>x s. Q n s \<and> sound_exit e x) \<Longrightarrow> triple A f C (spent n)"
  by (erule triple_weaken) (auto intro: onward)

lemma spent_end: "quietly e (Q n) f \<Longrightarrow> (\<And>s. A s \<Longrightarrow> Q n s) \<Longrightarrow> triple A f (P (Suc n)) (spent n)"
  by (erule triple_weaken) (auto intro: onward)

lemma execute_tool_spends:
  assumes "tl_validate t a = Inr v"
  shows "triple (\<lambda>s. Q n s \<and> cleared e t asked s \<and> (effectful t \<longrightarrow> map_of (ls_effects s) (action_hash e t v) = None))
    (execute_tool e n t asked v (action_hash e t v)) (P (Suc n)) (spent n)"
proof (rule tripleI)
  fix s assume A: "Q n s \<and> cleared e t asked s \<and> (effectful t \<longrightarrow> map_of (ls_effects s) (action_hash e t v) = None)"
  have "P (Suc n) (snd (execute_tool e n t asked v (action_hash e t v) s))"
    using execution [of n s t asked a v] A assms by blast
  then show "case execute_tool e n t asked v (action_hash e t v) s of (None, s') \<Rightarrow> P (Suc n) s' | (Some x, s') \<Rightarrow> spent n x s'"
    using execute_tool_sound [of e n t asked v "action_hash e t v" s] by (simp add: case_prod_unfold split: option.splits)
qed

lemma run_tool_spends:
  assumes "tl_validate t a = Inr v"
  shows "triple (\<lambda>s. Q n s \<and> cleared e t asked s) (run_tool e d n t asked v (action_hash e t v)) (P (Suc n)) (spent n)"
proof (rule tripleI)
  fix s assume A: "Q n s \<and> cleared e t asked s"
  let ?h = "action_hash e t v"
  let ?B = "\<lambda>s. Q n s \<and> cleared e t asked s \<and> (effectful t \<longrightarrow> map_of (ls_effects s) ?h = None)"
  note world = quiet_invariant.world [OF Q_quiet]
  have late: "triple ?B (andGo (go (skipped n (tl_name t) why reason)) (ended L_step_timeout err)) C (spent n)" for why reason err C
    unfolding ended_def
    by (rule triple_andGo [OF triple_go triple_exit, where B = "Q n"])
      (auto intro: onward simp: skipped_def quiet_invariant.pushed [OF Q_quiet])
  have fresh: "triple ?B (andGo (check_abort e) (andGo (over e d (andGo (go (skipped n (tl_name t) why reason)) (ended L_step_timeout err)))
      (execute_tool e n t asked v ?h))) (P (Suc n)) (spent n)" for why reason err
    by (rule triple_andGo [OF triple_check_abort triple_andGo [OF triple_over [OF _ late] execute_tool_spends [OF assms]]])
      (simp_all add: world onward)
  have rep: "triple (Q n) (replay_effect e n (tl_name t) ?h prior) (P (Suc n)) (spent n)" for prior
    by (rule spent_end [OF quiet_invariant.quiet_replay_effect [OF Q_quiet]])
  show "case run_tool e d n t asked v ?h s of (None, s') \<Rightarrow> P (Suc n) s' | (Some x, s') \<Rightarrow> spent n x s'"
  proof (cases "if effectful t then map_of (ls_effects s) ?h else None")
    case None
    then show ?thesis
      using tripleD [OF fresh, of s] A unfolding run_tool_def by (simp split: if_splits)
  next
    case (Some prior)
    then show ?thesis
      using tripleD [OF rep, of s] A unfolding run_tool_def by simp
  qed
qed

lemma use_tool_spends: "triple (Q n) (use_tool e d n tool args reason) (P (Suc n)) (spent n)"
proof -
  note q = Q_quiet [of n]
  have unknown: "triple (Q n) (andGo (go (pushTurn r \<circ> pushEntry t \<circ> count_invalid)) (invalid_action e what)) (P (Suc n)) (spent n)" for r t what
    by (rule spent_end [OF triple_andGo [OF triple_go quiet_invariant.quiet_invalid_action [OF q]]])
      (simp_all add: quiet_invariant.pushed [OF q] quiet_invariant.counted [OF q])
  have bad: "triple (\<lambda>s. Q n s \<and> cleared e t args s) (invalid_args e n tool msg r) (P (Suc n)) (spent n)" for t msg r
    by (rule spent_end [OF quiet_invariant.quiet_invalid_args [OF q]]) simp
  have run: "triple (\<lambda>s. Q n s \<and> cleared e t args s)
      (case tl_validate t a of Inl msg \<Rightarrow> invalid_args e n tool (f msg) r
       | Inr v \<Rightarrow> andGo (go (\<lambda>s. s\<lparr>ls_consecutiveInvalid := 0\<rparr>)) (andGo (check_abort e)
           (case le_unhashable e v of Some m \<Rightarrow> invalid_args e n tool (g m) (g' m) | None \<Rightarrow> run_tool e d n t args v (action_hash e t v))))
      (P (Suc n)) (spent n)" for t a f r g g'
  proof (cases "tl_validate t a")
    case (Inr v)
    have last: "triple (\<lambda>s. Q n s \<and> cleared e t args s)
        (case le_unhashable e v of Some m \<Rightarrow> invalid_args e n tool (g m) (g' m) | None \<Rightarrow> run_tool e d n t args v (action_hash e t v)) (P (Suc n)) (spent n)"
      using bad run_tool_spends [OF Inr] by (cases "le_unhashable e v") simp_all
    show ?thesis
      unfolding Inr sum.case
      by (rule triple_andGo [OF triple_go triple_andGo [OF triple_check_abort last]])
        (simp_all add: quiet_invariant.world [OF q] quiet_invariant.invalid [OF q] onward)
  qed (simp add: bad)
  have hook: "triple (\<lambda>s. Q n s \<and> cleared e t args s) (hook_gate e n tool args k) (P (Suc n)) (spent n)"
    if "\<And>a. triple (\<lambda>s. Q n s \<and> cleared e t args s) (k a) (P (Suc n)) (spent n)" for t k
    unfolding hook_gate_def
    by (rule triple_in_world)
      (auto simp: ended_def quiet_invariant.world [OF q] onward that split: option.splits
        intro!: triple_exit triple_weaken [OF quiet_invariant.denied_exits [OF q]])
  have perm: "triple (\<lambda>s. Q n s \<and> scanOutbound (stringify args) (le_secrets e) [(''session'', le_canary e)] = None)
      (permission_gate e n t args) (\<lambda>s. Q n s \<and> cleared e t args s) (spent n)" if "get_tool tool (le_tools e) = Some t" for t
    by (rule triple_fact, rule spent_go, rule quiet_invariant.permission_gate_clears [OF q]) (simp add: that get_tool_name [OF that])
  have known: "triple (Q n) (andGo (exfil_gate e n tool args) (andGo (permission_gate e n t args) (hook_gate e n tool args k))) (P (Suc n)) (spent n)"
    if "get_tool tool (le_tools e) = Some t" "\<And>a. triple (\<lambda>s. Q n s \<and> cleared e t args s) (k a) (P (Suc n)) (spent n)" for t k
    by (rule triple_andGo [OF spent_go [OF quiet_invariant.exfil_gate_scans [OF q]] triple_andGo [OF perm hook]]) (rule that)+
  show ?thesis
    unfolding use_tool_def
  proof (rule triple_andGo [OF triple_go, where B = "Q n"], goal_cases)
    case 2
    show ?case
      by (cases "get_tool tool (le_tools e)") (simp_all only: option.case unknown known run)
  qed (simp add: quiet_invariant.pushed [OF q])
qed

lemma answer_step_spends: "triple (Q n) (answer_step e d n a) (P (Suc n)) (spent n)"
proof -
  have fail: "triple (Q n) (ended L_failed err) (P (Suc n)) (spent n)" for err
    by (rule spent_end [OF quiet_invariant.quiet_ended [OF Q_quiet]]) simp_all
  have "triple (Q n) (invalid_output e n m) (P (Suc n)) (spent n)" "triple (Q n) (finish_action e n r v) (P (Suc n)) (spent n)" for m r v
    by (rule spent_end [OF quiet_invariant.quiet_invalid_output [OF Q_quiet]] spent_end [OF quiet_invariant.quiet_finish_action [OF Q_quiet]], simp)+
  then show ?thesis
    using fail use_tool_spends unfolding answer_step_def by (simp split: model_answer.splits agent_action.splits)
qed

lemma model_phase_spends:
  "triple (\<lambda>s. P n s \<and> (tb_soft (le_budget e) \<le> tb_hard (le_budget e) \<longrightarrow> transcriptTokens (ls_transcript s) \<le> tb_hard (le_budget e)))
     (model_phase e d n) (P (Suc n)) (spent n)"
proof (rule tripleI)
  fix s assume A: "P n s \<and> (tb_soft (le_budget e) \<le> tb_hard (le_budget e) \<longrightarrow> transcriptTokens (ls_transcript s) \<le> tb_hard (le_budget e))"
  obtain a s1 where c: "call_model e n s = (a, s1)"
    by fastforce
  have "Q n s1"
    using model [of n s] A c by simp
  note after = tripleD [OF triple_andGo [OF spent_go [OF quiet_invariant.quiet_after_model [OF Q_quiet]] answer_step_spends] this]
  show "case model_phase e d n s of (None, s') \<Rightarrow> P (Suc n) s' | (Some x, s') \<Rightarrow> spent n x s'"
    using after by (simp add: model_phase_def c)
qed

lemma compaction_gate_spends:
  "triple (P n) (compaction_gate e n)
     (\<lambda>s. P n s \<and> (tb_soft (le_budget e) \<le> tb_hard (le_budget e) \<longrightarrow> transcriptTokens (ls_transcript s) \<le> tb_hard (le_budget e))) (spent n)"
proof (rule tripleI)
  fix s assume "P n s"
  then show "case compaction_gate e n s of
      (None, s') \<Rightarrow> P n s' \<and> (tb_soft (le_budget e) \<le> tb_hard (le_budget e) \<longrightarrow> transcriptTokens (ls_transcript s') \<le> tb_hard (le_budget e))
    | (Some x, s') \<Rightarrow> spent n x s'"
    using tripleD [OF compaction, of n s] compaction_gate_bound [of e n s] unspent by (cases "compaction_gate e n s") (auto split: option.splits)
qed

lemma budget_gate_spends: "(\<And>s. A s \<Longrightarrow> P n s) \<Longrightarrow> triple A (budget_gate n) A (spent n)"
  by (rule tripleI) (simp add: budget_gate_def ended_def exit_with_def unspent split: option.splits)

lemma one_turn_spends: "triple (P n) (one_turn e d n) (P (Suc n)) (spent n)"
proof -
  note q = P_quiet [of n]
  have early: "quietly e (P n) f \<Longrightarrow> triple (P n) f (P n) (spent n)" for f
    by (erule triple_weaken) (auto intro: unspent)
  show ?thesis
    unfolding one_turn_def
    by (rule triple_andGo [OF early [OF quiet_invariant.quiet_turn_gate [OF q]] quiet_invariant.quiet_deadline_from [OF q
          triple_andGo [OF early [OF quiet_invariant.quiet_steer_turn [OF q]] triple_andGo [OF early [OF quiet_invariant.quiet_begin_turn [OF q]]
            triple_andGo [OF compaction_gate_spends triple_andGo [OF budget_gate_spends model_phase_spends]]]]]])
      simp
qed

lemma later: "P n s \<Longrightarrow> P (n + k) s"
  by (induction k) (simp_all add: unspent)

lemma finished: "P n s \<Longrightarrow> P n (finish st s)"
  by (simp add: finish_def Let_def quiet_invariant.line [OF P_quiet] quiet_invariant.emitted [OF P_quiet])

text \<open>A session carries the predicate to its end, and ends as completed only with an accepted result.\<close>

lemma loop_carries:
  "P n s \<Longrightarrow> loop e d n k s = (r, s') \<Longrightarrow>
   P (n + k) s' \<and> (\<forall>res. r = Inr res \<longrightarrow> lr_status res = L_completed \<longrightarrow> lr_error res = None \<and> accepted e (lr_result res))"
proof (induction k arbitrary: n s)
  case 0
  then show ?case by (auto simp: finished)
next
  case (Suc k)
  obtain x s1 where o: "one_turn e d n s = (x, s1)"
    by fastforce
  have t: "case x of None \<Rightarrow> P (Suc n) s1 | Some y \<Rightarrow> spent n y s1"
    using tripleD [OF one_turn_spends Suc.prems(1), of d] o by simp
  show ?case
  proof (cases "x = None \<or> x = Some Continue")
    case True
    then show ?thesis
      using Suc.IH [of "Suc n" s1] Suc.prems(2) t o by (auto split: option.splits)
  next
    case False
    then obtain y where y: "x = Some y" "y \<noteq> Continue"
      by (cases x) auto
    have P1: "P (Suc n + k) s1"
      using t y later [of "Suc n" s1 k] by simp
    show ?thesis
      using Suc.prems(2) t o y finished [OF P1] P1 by (cases y) auto
  qed
qed

lemma session_carries:
  assumes "P (Suc (prior_turns plan)) (session_start e plan s0)" "runAgentLoop e plan s0 = (r, s')"
  shows "P (Suc (max (le_maxTurns e) (prior_turns plan))) s'"
    and "r = Inr res \<Longrightarrow> lr_status res = L_completed \<Longrightarrow> lr_error res = None \<and> accepted e (lr_result res)"
proof -
  obtain d w where "loop e d (Suc (prior_turns plan)) (le_maxTurns e - prior_turns plan) ((session_start e plan s0)\<lparr>ls_world := w\<rparr>) = (r, s')"
    using assms(2) that [of None "ls_world (session_start e plan s0)"]
    by (cases "le_totalTimeout e") (auto simp: runAgentLoop_def Let_def split: prod.splits)
  note c = loop_carries [OF quiet_invariant.world [OF P_quiet assms(1)] this]
  show "P (Suc (max (le_maxTurns e) (prior_turns plan))) s'"
    using conjunct1 [OF c] by (simp add: nat_minus_add_max [symmetric] add.commute del: nat_minus_add_max)
  show "r = Inr res \<Longrightarrow> lr_status res = L_completed \<Longrightarrow> lr_error res = None \<and> accepted e (lr_result res)"
    using c by blast
qed

end

end
