(* ===== verification/Agent_Safety.thy ===== *)
theory Agent_Safety
  imports Agent_Logic
begin

text \<open>
  What a session of the agent kernel guarantees, whatever the model answers, the tools do and the hooks rewrite: which
  tool calls are executed, that an effect is not repeated within a session or by the session that resumes it, how large
  a context the model is sent, how long a session lasts, and that the durable rollout reconstructs the session.
\<close>

section \<open>What a step changes\<close>

lemma pushEntry_core [simp]:
  "ls_executions (pushEntry t s) = ls_executions s" "ls_sent (pushEntry t s) = ls_sent s" "ls_effects (pushEntry t s) = ls_effects s"
  "ls_engine (pushEntry t s) = ls_engine s" "ls_events (pushEntry t s) = ls_events s" "ls_turns (pushEntry t s) = ls_turns s"
  "ls_transcript (pushEntry t s) = ls_transcript s @ [t]" "ls_rollout (pushEntry t s) = ls_rollout s @ [Transcript_item t]"
  by (simp_all add: pushEntry_def append_line_def)

lemma pushTurn_core [simp]:
  "ls_executions (pushTurn r s) = ls_executions s" "ls_sent (pushTurn r s) = ls_sent s" "ls_effects (pushTurn r s) = ls_effects s"
  "ls_engine (pushTurn r s) = ls_engine s" "ls_events (pushTurn r s) = ls_events s" "ls_turns (pushTurn r s) = ls_turns s @ [r]"
  "ls_rollout (pushTurn r s) = ls_rollout s @ [Turn_line r]"
  by (simp_all add: pushTurn_def append_line_def)

lemma append_line_core [simp]:
  "ls_executions (append_line l s) = ls_executions s" "ls_sent (append_line l s) = ls_sent s" "ls_effects (append_line l s) = ls_effects s"
  "ls_engine (append_line l s) = ls_engine s" "ls_events (append_line l s) = ls_events s" "ls_turns (append_line l s) = ls_turns s"
  "ls_transcript (append_line l s) = ls_transcript s" "ls_rollout (append_line l s) = ls_rollout s @ [l]" "ls_world (append_line l s) = ls_world s"
  by (simp_all add: append_line_def)

lemma emit_core [simp]:
  "ls_executions (emit ev s) = ls_executions s" "ls_sent (emit ev s) = ls_sent s" "ls_effects (emit ev s) = ls_effects s"
  "ls_engine (emit ev s) = ls_engine s" "ls_events (emit ev s) = ls_events s @ [ev]" "ls_turns (emit ev s) = ls_turns s"
  "ls_rollout (emit ev s) = ls_rollout s"
  by (simp_all add: emit_def)

lemma effect_lines_append [simp]: "effect_lines (xs @ ys) = effect_lines xs @ effect_lines ys"
  by (simp add: effect_lines_def List.map_filter_def)

lemma effect_lines_simps [simp]:
  "effect_lines [] = []" "effect_lines (Transcript_item t # ls) = effect_lines ls" "effect_lines (Turn_line r # ls) = effect_lines ls"
  "effect_lines (Tool_lifecycle n tool p # ls) = effect_lines ls" "effect_lines (Effect_committed x # ls) = x # effect_lines ls"
  "effect_lines (Compacted a b c # ls) = effect_lines ls" "effect_lines (Session_end z # ls) = effect_lines ls"
  "effect_lines (Session_meta i j k l m q # ls) = effect_lines ls" "effect_lines (Resumed u v # ls) = effect_lines ls"
  by (simp_all add: effect_lines_def List.map_filter_simps)

lemma effect_lines_quiet [simp]: "quiet_line l \<Longrightarrow> effect_lines [l] = []"
  by (cases l) simp_all

text \<open>The hashes of the effects a session carried out, and those its rollout records.\<close>

definition performed :: "'w agent_state \<Rightarrow> string list" where
  "performed s = map ex_hash (filter (\<lambda>x. ex_effectful x \<and> ex_ok x) (ls_executions s))"

definition recorded :: "rollout_line list \<Rightarrow> string option list" where
  "recorded ls = map te_actionHash (filter te_ok (effect_lines ls))"

lemma bounded_payload_core:
  assumes "bounded_payload e r s = (pl, s')"
  shows "ls_executions s' = ls_executions s" "ls_sent s' = ls_sent s" "ls_effects s' = ls_effects s" "ls_engine s' = ls_engine s"
    "ls_events s' = ls_events s" "ls_turns s' = ls_turns s" "ls_transcript s' = ls_transcript s" "ls_rollout s' = ls_rollout s"
  using assms by (auto simp: bounded_payload_def Let_def split: if_splits option.splits prod.splits)

lemma record_result_core:
  fixes s :: "'w agent_state"
  assumes "snd (record_result e n t v h r s) = s'"
  shows "ls_executions s' = ls_executions s \<and> ls_sent s' = ls_sent s \<and> ls_engine s' = ls_engine s \<and>
    fst ` set (ls_effects s') = (if effectful t \<and> tx_ok r then insert h (fst ` set (ls_effects s)) else fst ` set (ls_effects s)) \<and>
    recorded (ls_rollout s') = recorded (ls_rollout s) @ (if effectful t \<and> tx_ok r then [Some h] else [])"
proof -
  obtain pl tr sp s1 where b: "bounded_payload e r s = ((pl, tr, sp), s1)"
    by (cases "bounded_payload e r s") auto
  note c = bounded_payload_core [OF b]
  have upd: "insert h (fst ` {x \<in> set xs. fst x \<noteq> h}) = insert h (fst ` set xs)" for xs :: "(string \<times> tool_result_entry) list"
    by auto
  show ?thesis
    unfolding assms [symmetric] record_result_def b Let_def
    by (cases "effectful t \<and> tx_ok r") (simp_all add: c upd exit_with_def turn_end_hooks_def recorded_def, blast)
qed

lemma execute_tool_core:
  fixes s :: "'w agent_state"
  assumes "snd (execute_tool e n t asked v h s) = s'"
  shows "\<exists>ok. ls_executions s' = ls_executions s @ [\<lparr>ex_turn = n, ex_tool = tl_name t, ex_asked = asked, ex_args = v, ex_hash = h, ex_effectful = effectful t,
      ex_ok = ok, ex_transcript = ls_transcript s\<rparr>] \<and> ls_sent s' = ls_sent s \<and> ls_engine s' = ls_engine s \<and>
    fst ` set (ls_effects s') = (if effectful t \<and> ok then insert h (fst ` set (ls_effects s)) else fst ` set (ls_effects s)) \<and>
    recorded (ls_rollout s') = recorded (ls_rollout s) @ (if effectful t \<and> ok then [Some h] else [])"
proof -
  obtain out w where o: "tl_execute t v (ls_world s) = (out, w)"
    by fastforce
  show ?thesis
  proof (cases "settled_result out")
    case None
    show ?thesis
      unfolding assms [symmetric] execute_tool_def Let_def
      by (intro exI [of _ False]) (simp add: o None ended_def exit_with_def skipped_def recorded_def)
  next
    case (Some r)
    show ?thesis
      unfolding assms [symmetric] execute_tool_def Let_def
      by (intro exI [of _ "tx_ok r"]) (simp add: o Some record_result_core [OF refl], simp add: recorded_def)
  qed
qed

section \<open>Properties of what a session did\<close>

text \<open>The part of a state that only model calls and tool executions change.\<close>

record deeds =
  de_executions :: "execution list"
  de_sent :: "transcript_entry list list"
  de_effects :: "string set"
  de_mode :: permission_mode
  de_recorded :: "string option list"

definition deeds_of :: "'w agent_state \<Rightarrow> deeds" where
  "deeds_of s = \<lparr>de_executions = ls_executions s, de_sent = ls_sent s, de_effects = fst ` set (ls_effects s),
     de_mode = pe_mode (ls_engine s), de_recorded = recorded (ls_rollout s)\<rparr>"

definition with_execution :: "execution \<Rightarrow> deeds \<Rightarrow> deeds" where
  "with_execution x d = d\<lparr>de_executions := de_executions d @ [x],
     de_effects := (if ex_effectful x \<and> ex_ok x then insert (ex_hash x) (de_effects d) else de_effects d),
     de_recorded := de_recorded d @ (if ex_effectful x \<and> ex_ok x then [Some (ex_hash x)] else [])\<rparr>"

lemma deeds_quiet: "quiet_invariant (\<lambda>s. A (deeds_of s))"
proof
  show "A (deeds_of s) \<Longrightarrow> A (deeds_of (pushEntry t s))" for s t
    by (simp add: deeds_of_def recorded_def)
  show "A (deeds_of s) \<Longrightarrow> A (deeds_of (pushTurn r s))" for s r
    by (simp add: deeds_of_def recorded_def)
  show "A (deeds_of s) \<Longrightarrow> quiet_line l \<Longrightarrow> A (deeds_of (append_line l s))" for s l
    by (simp add: deeds_of_def recorded_def)
  show "A (deeds_of s) \<Longrightarrow> same_core s s' \<Longrightarrow> A (deeds_of s')" for s s'
    by (simp add: deeds_of_def same_core_def)
qed

lemma handoffSummary_core:
  assumes "handoffSummary e s = (h, s')"
  shows "ls_executions s' = ls_executions s" "ls_sent s' = ls_sent s" "ls_effects s' = ls_effects s" "ls_engine s' = ls_engine s"
    "ls_events s' = ls_events s" "ls_turns s' = ls_turns s" "ls_transcript s' = ls_transcript s" "ls_rollout s' = ls_rollout s"
  using assms
  by (auto simp: handoffSummary_def Let_def record_call_def split: prod.splits handoff_reply.splits if_splits)

lemma full_compaction_deeds:
  "deeds_of (snd (full_compaction e n k micro s)) = deeds_of s \<and> (\<forall>x. fst (full_compaction e n k micro s) = Some x \<longrightarrow> sound_exit e x)"
proof -
  obtain h s1 where h: "handoffSummary e s = (h, s1)"
    by fastforce
  show ?thesis
    by (simp add: full_compaction_def h Let_def ended_def exit_with_def deeds_of_def recorded_def handoffSummary_core [OF h])
qed

lemma compaction_gate_deeds:
  "deeds_of (snd (compaction_gate e n s)) = deeds_of s \<and> (\<forall>x. fst (compaction_gate e n s) = Some x \<longrightarrow> sound_exit e x)"
proof -
  have micro: "deeds_of (emit ev (s\<lparr>ls_transcript := ts, ls_telemetry := tm\<rparr>)) = deeds_of s" for ev ts tm
    by (simp add: deeds_of_def)
  show ?thesis
    by (simp add: compaction_gate_def Let_def exit_with_def micro full_compaction_deeds split: option.splits)
qed

lemma call_model_deeds: "deeds_of (snd (call_model e n s)) = (deeds_of s)\<lparr>de_sent := ls_sent s @ [ls_transcript s]\<rparr>"
  by (simp add: call_model_def Let_def record_call_def deeds_of_def split: prod.splits)

locale deeds_invariant =
  fixes e :: "'w loop_env" and P Q :: "nat \<Rightarrow> deeds \<Rightarrow> bool"
  assumes onward: "Q n d \<Longrightarrow> P (Suc n) d"
    and unspent: "P n d \<Longrightarrow> P (Suc n) d"
    and model: "P n d \<Longrightarrow> (tb_soft (le_budget e) \<le> tb_hard (le_budget e) \<Longrightarrow> transcriptTokens ts \<le> tb_hard (le_budget e)) \<Longrightarrow>
      Q n (d\<lparr>de_sent := de_sent d @ [ts]\<rparr>)"
    and execution: "Q n d \<Longrightarrow> admissible e t asked (de_mode d) ts \<Longrightarrow> tl_validate t a = Inr v \<Longrightarrow>
      (effectful t \<Longrightarrow> action_hash e t v \<notin> de_effects d) \<Longrightarrow>
      P (Suc n) (with_execution \<lparr>ex_turn = n, ex_tool = tl_name t, ex_asked = asked, ex_args = v, ex_hash = action_hash e t v,
        ex_effectful = effectful t, ex_ok = ok, ex_transcript = ts\<rparr> d)"

sublocale deeds_invariant \<subseteq> turn: turn_invariant e "\<lambda>n s. P n (deeds_of s)" "\<lambda>n s. Q n (deeds_of s)"
proof (rule turn_invariant.intro)
  show "P n (deeds_of s) \<Longrightarrow> (tb_soft (le_budget e) \<le> tb_hard (le_budget e) \<Longrightarrow> transcriptTokens (ls_transcript s) \<le> tb_hard (le_budget e)) \<Longrightarrow>
      Q n (deeds_of (snd (call_model e n s)))" for n s
    using model [of n "deeds_of s" "ls_transcript s"] by (simp add: call_model_deeds) (simp add: deeds_of_def)
  show "triple (\<lambda>s. P n (deeds_of s)) (compaction_gate e n) (\<lambda>s. P n (deeds_of s)) (\<lambda>x s. P n (deeds_of s) \<and> sound_exit e x)" for n
    using compaction_gate_deeds [of e n] by (simp add: triple_def case_prod_unfold split: option.splits)
  show "P (Suc n) (deeds_of (snd (execute_tool e n t asked v (action_hash e t v) s)))"
    if "Q n (deeds_of s)" "cleared e t asked s" "tl_validate t a = Inr v" "effectful t \<Longrightarrow> map_of (ls_effects s) (action_hash e t v) = None" for n s t asked a v
  proof -
    let ?h = "action_hash e t v"
    obtain ok where x: "deeds_of (snd (execute_tool e n t asked v ?h s)) = with_execution \<lparr>ex_turn = n, ex_tool = tl_name t, ex_asked = asked, ex_args = v,
        ex_hash = ?h, ex_effectful = effectful t, ex_ok = ok, ex_transcript = ls_transcript s\<rparr> (deeds_of s)"
      using execute_tool_core [of e n t asked v ?h s, OF refl] by (auto simp: deeds_of_def with_execution_def)
    show ?thesis
      unfolding x
      using that by (intro execution) (auto simp: cleared_def deeds_of_def map_of_eq_None_iff)
  qed
qed (simp_all add: deeds_quiet onward unspent)

section \<open>Tool calls\<close>

definition justified :: "'w loop_env \<Rightarrow> permission_mode \<Rightarrow> execution \<Rightarrow> bool" where
  "justified e mode x \<longleftrightarrow> (\<exists>t. get_tool (ex_tool x) (le_tools e) = Some t \<and> (\<exists>a. tl_validate t a = Inr (ex_args x)) \<and>
     scanOutbound (stringify (ex_asked x)) (le_secrets e) [(''session'', le_canary e)] = None \<and>
     Deny \<notin> effects mode (ex_tool x) (ex_asked x) (po_rules (le_permissions e)) \<and>
     (risk_of t \<noteq> Risk_read \<longrightarrow> mode \<noteq> Mode_explore \<and> \<not> argsEmbedUntrusted (ex_asked x) (ex_transcript x)))"

lemma admissible_justified:
  "admissible e t asked mode ts \<Longrightarrow> tl_validate t a = Inr v \<Longrightarrow>
   justified e mode \<lparr>ex_turn = n, ex_tool = tl_name t, ex_asked = asked, ex_args = v, ex_hash = h, ex_effectful = f, ex_ok = ok, ex_transcript = ts\<rparr>"
  using verdict_clears [of "le_permissions e" mode "tl_name t" asked "tl_riskClass t"]
  by (auto simp: admissible_def justified_def effectful_def risk_of_def simp del: scanOutbound.simps)

definition calls_justified :: "'w loop_env \<Rightarrow> permission_mode \<Rightarrow> deeds \<Rightarrow> bool" where
  "calls_justified e mode d \<longleftrightarrow> de_mode d = mode \<and> list_all (justified e mode) (de_executions d)"

interpretation calls: deeds_invariant e "\<lambda>_. calls_justified e mode" "\<lambda>_. calls_justified e mode" for e mode
  by unfold_locales (auto simp: calls_justified_def with_execution_def intro: admissible_justified)

text \<open>Effects: \<open>before\<close> are the hashes known at the start and \<open>r0\<close> the records the rollout had.\<close>

definition effects_once :: "string set \<Rightarrow> string option list \<Rightarrow> deeds \<Rightarrow> bool" where
  "effects_once before r0 d \<longleftrightarrow>
     (let hs = map ex_hash (filter (\<lambda>x. ex_effectful x \<and> ex_ok x) (de_executions d)) in
      distinct hs \<and> before \<inter> set hs = {} \<and> de_effects d = before \<union> set hs \<and> de_recorded d = r0 @ map Some hs)"

interpretation once: deeds_invariant e "\<lambda>_. effects_once before r0" "\<lambda>_. effects_once before r0" for e before r0
  by unfold_locales (auto simp: effects_once_def with_execution_def Let_def)

definition context_bounded :: "nat \<Rightarrow> deeds \<Rightarrow> bool" where
  "context_bounded hard d \<longleftrightarrow> (\<forall>ts\<in>set (de_sent d). transcriptTokens ts \<le> hard)"

definition fitting :: "'w loop_env \<Rightarrow> deeds \<Rightarrow> bool" where
  "fitting e d \<longleftrightarrow> (tb_soft (le_budget e) \<le> tb_hard (le_budget e) \<longrightarrow> context_bounded (tb_hard (le_budget e)) d)"

interpretation fits: deeds_invariant e "\<lambda>_. fitting e" "\<lambda>_. fitting e" for e
  by unfold_locales (auto simp: fitting_def context_bounded_def with_execution_def)

text \<open>Turns: before turn \<open>n\<close> of a session with \<open>p\<close> prior turns.\<close>

definition turns_counted :: "nat \<Rightarrow> nat \<Rightarrow> nat \<Rightarrow> deeds \<Rightarrow> bool" where
  "turns_counted p k n d \<longleftrightarrow> p < n \<and> length (de_sent d) \<le> k + n - Suc p \<and> sorted_wrt (<) (map ex_turn (de_executions d)) \<and>
     list_all (\<lambda>x. p < ex_turn x \<and> ex_turn x < n) (de_executions d)"

interpretation counts: deeds_invariant e "turns_counted p 0" "turns_counted p 1" for e p
  by unfold_locales
    (auto simp: turns_counted_def with_execution_def sorted_wrt_append list_all_iff)

section \<open>Where a session starts\<close>

lemma first_effects_keys:
  "fst ` set (first_effects acc es) = fst ` set acc \<union> {h. \<exists>x\<in>set es. te_ok x \<and> te_actionHash x = Some h}"
proof (induction es arbitrary: acc)
  case (Cons x es)
  show ?case
  proof (cases "te_actionHash x")
    case (Some h)
    have "map_of acc h \<noteq> None \<Longrightarrow> h \<in> fst ` set acc"
      by (metis map_of_eq_None_iff)
    then show ?thesis
      using Some Cons.IH by auto
  qed (use Cons.IH in auto)
qed simp

lemma first_effects_sound:
  "(\<And>h y. (h, y) \<in> set acc \<Longrightarrow> te_ok y \<and> te_actionHash y = Some h) \<Longrightarrow> (h, y) \<in> set (first_effects acc es) \<Longrightarrow> te_ok y \<and> te_actionHash y = Some h"
proof (induction es arbitrary: acc)
  case (Cons x es)
  have "\<forall>k z. (k, z) \<in> set (acc @ [(h', x)]) \<longrightarrow> te_ok z \<and> te_actionHash z = Some k" if "te_actionHash x = Some h'" "te_ok x" for h'
    using that Cons.prems(1) by auto
  then show ?case
    using Cons.IH [of acc] Cons.IH [of "acc @ [(the (te_actionHash x), x)]"] Cons.prems by (auto split: option.splits if_splits)
qed auto

lemma committed_effects_cover:
  assumes "Some h \<in> set (recorded ls)"
  shows "\<exists>y\<in>set (rs_committedEffects (reconstructSession ls)). te_ok y \<and> te_actionHash y = Some h"
proof -
  let ?es = "effect_lines ls @ result_entries (replay_transcript ls)"
  have "h \<in> fst ` set (first_effects [] ?es)"
    using assms unfolding first_effects_keys by (auto simp: recorded_def)
  then obtain y where y: "(h, y) \<in> set (first_effects [] ?es)"
    by auto
  then show ?thesis
    using first_effects_sound [OF _ y] by (force simp: reconstructSession_def Let_def)
qed

lemma result_entries_simps [simp]:
  "result_entries [] = []" "result_entries (Task_entry t # ts) = result_entries ts" "result_entries (Context_entry l c # ts) = result_entries ts"
  "result_entries (Result_entry x # ts) = x # result_entries ts"
  by (simp_all add: result_entries_def List.map_filter_simps)

lemma result_entries_append [simp]: "result_entries (xs @ ys) = result_entries xs @ result_entries ys"
  by (simp add: result_entries_def List.map_filter_def)

lemma push_contexts:
  "ls_transcript (fold (\<lambda>(l, p). pushEntry (Context_entry l p)) cs s) = ls_transcript s @ map (\<lambda>(l, p). Context_entry l p) cs \<and>
   ls_rollout (fold (\<lambda>(l, p). pushEntry (Context_entry l p)) cs s) = ls_rollout s @ map (\<lambda>(l, p). Transcript_item (Context_entry l p)) cs \<and>
   ls_turns (fold (\<lambda>(l, p). pushEntry (Context_entry l p)) cs s) = ls_turns s \<and>
   ls_executions (fold (\<lambda>(l, p). pushEntry (Context_entry l p)) cs s) = ls_executions s \<and>
   ls_sent (fold (\<lambda>(l, p). pushEntry (Context_entry l p)) cs s) = ls_sent s \<and>
   ls_engine (fold (\<lambda>(l, p). pushEntry (Context_entry l p)) cs s) = ls_engine s"
  by (induction cs arbitrary: s) (auto simp: split_beta)

lemma no_result_in_contexts [simp]: "result_entries (map (\<lambda>(l, p). Context_entry l p) cs) = []"
  by (induction cs) auto

lemma no_effect_in_contexts [simp]: "effect_lines (map (\<lambda>(l, p). Transcript_item (Context_entry l p)) cs) = []"
  by (induction cs) auto

lemma initial_effects_fresh: "initial_effects None (Task_entry t # map (\<lambda>(l, p). Context_entry l p) cs) = []"
  by (simp add: initial_effects_def)

lemma start_deeds:
  "\<exists>known. deeds_of (session_start e plan (empty_session b en ls w)) =
     \<lparr>de_executions = [], de_sent = [], de_effects = known, de_mode = pe_mode en, de_recorded = recorded ls\<rparr> \<and>
     (plan = None \<longrightarrow> known = {}) \<and>
     (\<forall>p x h. plan = Some p \<longrightarrow> x \<in> set (rp_committedEffects p) \<longrightarrow> te_ok x \<longrightarrow> te_actionHash x = Some h \<longrightarrow> h \<in> known)"
proof (cases plan)
  case None
  then show ?thesis
    by (simp add: session_start_def open_session_def Let_def deeds_of_def empty_session_def push_contexts recorded_def initial_effects_fresh)
next
  case (Some p)
  let ?s = "open_session e (Some p) (empty_session b en ls w)"
  have s: "ls_executions ?s = []" "ls_sent ?s = []" "ls_engine ?s = en" "recorded (ls_rollout ?s) = recorded ls"
    by (simp_all add: open_session_def Let_def empty_session_def recorded_def split: option.splits)
  show ?thesis
    unfolding Some session_start_def Let_def
    by (rule exI [of _ "fst ` set (initial_effects (Some p) (ls_transcript ?s))"])
      (simp add: s deeds_of_def, auto simp: initial_effects_def first_effects_keys)
qed

lemma fresh_deeds:
  "deeds_of (session_start e None (empty_session b en ls w)) =
     \<lparr>de_executions = [], de_sent = [], de_effects = {}, de_mode = pe_mode en, de_recorded = recorded ls\<rparr>"
  using start_deeds [of e None b en ls w] by auto

section \<open>Guarantees\<close>

lemma interval_length: "sorted_wrt (<) xs \<Longrightarrow> (\<And>x. x \<in> set xs \<Longrightarrow> a < x \<and> x \<le> b) \<Longrightarrow> length xs \<le> b - (a :: nat)"
  using card_mono [of "{a<..b}" "set xs"] distinct_card [of xs]
  by (fastforce simp: strict_sorted_iff)





section \<open>The rollout mirrors the session\<close>

lemma replay_append: "replay task acc (xs @ ys) = replay task (replay task acc xs) ys"
  by (induction task acc xs rule: replay.induct) simp_all

lemma meta_task_append: "meta_task xs = Some t \<Longrightarrow> meta_task (xs @ ys) = Some t"
  by (induction xs rule: meta_task.induct) simp_all

lemma turn_records_append [simp]: "turn_records (xs @ ys) = turn_records xs @ turn_records ys"
  by (simp add: turn_records_def List.map_filter_def)

lemma turn_records_simps [simp]:
  "turn_records [] = []" "turn_records (Transcript_item t # ls) = turn_records ls" "turn_records (Turn_line r # ls) = r # turn_records ls"
  "turn_records (Compacted a b c # ls) = turn_records ls" "turn_records (Session_meta i j k l m q # ls) = turn_records ls"
  by (simp_all add: turn_records_def List.map_filter_simps)

text \<open>Lines that say nothing of the transcript or the turns.\<close>

fun side_line :: "rollout_line \<Rightarrow> bool" where
  "side_line (Transcript_item _) = False"
| "side_line (Compacted _ _ _) = False"
| "side_line (Turn_line _) = False"
| "side_line _ = True"

lemma side_line_silent: "side_line l \<Longrightarrow> replay task acc [l] = acc \<and> turn_records [l] = []"
  by (cases l) (simp_all add: turn_records_def List.map_filter_simps)

definition micro_compacted :: "'w agent_state \<Rightarrow> bool" where
  "micro_compacted s \<longleftrightarrow> (\<exists>before after. Compaction_event ''micro'' before after \<in> set (ls_events s))"

definition mirrored :: "string \<Rightarrow> 'w agent_state \<Rightarrow> bool" where
  "mirrored task s \<longleftrightarrow> turn_records (ls_rollout s) = ls_turns s \<and>
     (micro_compacted s \<or> (meta_task (ls_rollout s) = Some task \<and> replay task [] (ls_rollout s) = ls_transcript s))"

lemma mirrored_side: "mirrored task s \<Longrightarrow> side_line l \<Longrightarrow> mirrored task (append_line l s)"
  using side_line_silent [of l] by (auto simp: mirrored_def micro_compacted_def meta_task_append replay_append)

lemma mirrored_entry: "mirrored task s \<Longrightarrow> mirrored task (pushEntry t s)"
  by (auto simp: mirrored_def micro_compacted_def meta_task_append replay_append)

lemma mirrored_turn: "mirrored task s \<Longrightarrow> mirrored task (pushTurn r s)"
  by (auto simp: mirrored_def micro_compacted_def meta_task_append replay_append)

lemma mirrored_same: "mirrored task s \<Longrightarrow> ls_rollout s' = ls_rollout s \<Longrightarrow> ls_turns s' = ls_turns s \<Longrightarrow> ls_transcript s' = ls_transcript s \<Longrightarrow>
    prefix (ls_events s) (ls_events s') \<Longrightarrow> mirrored task s'"
  by (auto simp: mirrored_def micro_compacted_def dest: set_mono_prefix)

interpretation mirror: quiet_invariant "mirrored task" for task
proof
  show "mirrored task s \<Longrightarrow> quiet_line l \<Longrightarrow> mirrored task (append_line l s)" for s :: "'w agent_state" and l
    by (cases l) (simp_all add: mirrored_side)
qed (auto simp: mirrored_entry mirrored_turn same_core_def intro: mirrored_same)

text \<open>A compacted transcript is the task, perhaps a handoff, and what was kept.\<close>

lemma drop_suffix_shape: "\<exists>rest'. drop_suffix hard (a # b # rest) = a # b # rest' \<and> (hard < transcriptTokens (a # b # rest') \<longrightarrow> rest' = [])"
proof (induction rest)
  case (Cons c rest)
  then show ?case
    by auto
qed simp

lemma degrade_shape:
  assumes "summary \<noteq> []"
  shows "(\<exists>x rest'. x \<noteq> [] \<and> degrade hard (Task_entry task # Handoff_entry summary # rest) = Task_entry task # Handoff_entry x # rest') \<or>
    degrade hard (Task_entry task # Handoff_entry summary # rest) = [Task_entry task]"
proof -
  obtain rest' where d: "drop_suffix hard (Task_entry task # Handoff_entry summary # rest) = Task_entry task # Handoff_entry summary # rest'"
      "hard < transcriptTokens (Task_entry task # Handoff_entry summary # rest') \<longrightarrow> rest' = []"
    using drop_suffix_shape by blast
  show ?thesis
    using assms d by (auto simp: degrade_def Let_def emergency_def)
qed

definition compaction_line :: "transcript_entry list \<Rightarrow> nat \<times> nat list \<Rightarrow> rollout_line" where
  "compaction_line ts gone = Compacted (case handoff_text ts of Some x \<Rightarrow> x | None \<Rightarrow> []) (drop (if handoff_text ts = None then 1 else 2) ts) gone"

lemma compaction_line_replays:
  "(\<exists>x rest. x \<noteq> [] \<and> ts = Task_entry task # Handoff_entry x # rest) \<or> ts = [Task_entry task] \<Longrightarrow> replay task acc [compaction_line ts gone] = ts"
  by (auto simp: compaction_line_def handoff_text_def)

lemma handoff_summary_nonempty: "ho_summary (fst (handoffSummary e s)) \<noteq> []"
  by (simp add: handoffSummary_def fallback_outcome_def deterministicHandoffFallback_def renderHandoff_def Let_def split: prod.splits handoff_reply.splits)

lemma mirrored_compacted:
  assumes "mirrored task s" "ls_rollout s' = ls_rollout s @ [compaction_line ts gone]" "ls_turns s' = ls_turns s" "ls_transcript s' = ts"
    "prefix (ls_events s) (ls_events s')" "(\<exists>x rest. x \<noteq> [] \<and> ts = Task_entry task # Handoff_entry x # rest) \<or> ts = [Task_entry task]"
  shows "mirrored task s'"
proof -
  have "turn_records [compaction_line ts gone] = []"
    by (simp add: compaction_line_def)
  then show ?thesis
    using assms(1,5) compaction_line_replays [OF assms(6)] assms(2-4)
    by (auto simp: mirrored_def micro_compacted_def meta_task_append replay_append dest: set_mono_prefix)
qed

lemma full_compaction_mirrored:
  assumes "mirrored (le_task e) s"
  shows "mirrored (le_task e) (snd (full_compaction e n k micro s))"
proof -
  obtain h s1 where h: "handoffSummary e s = (h, s1)"
    by fastforce
  define c where "c = compactedTranscript micro (le_task e) (ho_summary h) (le_keepLast e)"
  define ts where "ts = (if tb_hard (le_budget e) < transcriptTokens c then degrade (tb_hard (le_budget e)) c else c)"
  have "ho_summary h \<noteq> []"
    using handoff_summary_nonempty [of e s] h by simp
  then have shape: "(\<exists>x rest. x \<noteq> [] \<and> ts = Task_entry (le_task e) # Handoff_entry x # rest) \<or> ts = [Task_entry (le_task e)]"
    using degrade_shape by (simp add: ts_def c_def compactedTranscript_def)
  have "mirrored (le_task e) (append_line (compaction_line ts (forgotten (ls_transcript s) ts)) (s1\<lparr>ls_transcript := ts\<rparr>))"
    by (rule mirrored_compacted [OF assms _ _ _ _ shape]) (simp_all add: handoffSummary_core [OF h])
  note rest = mirror.telemetry [OF this]
  show ?thesis
    unfolding full_compaction_def h Let_def prod.case compaction_line_def [symmetric] c_def [symmetric] ts_def [symmetric]
    by (simp add: ended_def exit_with_def rest)
qed

lemma compaction_gate_mirrored: "mirrored (le_task e) s \<Longrightarrow> mirrored (le_task e) (snd (compaction_gate e n s))"
proof -
  assume m: "mirrored (le_task e) s"
  have micro: "mirrored (le_task e) (emit (Compaction_event ''micro'' a b) (s\<lparr>ls_transcript := ts, ls_telemetry := tm\<rparr>))" for a b ts tm
    using m by (auto simp: mirrored_def micro_compacted_def)
  show ?thesis
    using m by (simp add: compaction_gate_def Let_def exit_with_def micro full_compaction_mirrored split: option.splits)
qed

lemma execute_tool_mirrored:
  fixes s :: "'w agent_state"
  assumes "mirrored task s"
  shows "mirrored task (snd (execute_tool e n t asked v h s))"
proof -
  have ran: "mirrored task (s'\<lparr>ls_world := w, ls_executions := xs\<rparr>)" if "mirrored task s'" for s' :: "'w agent_state" and w xs
    using that by (rule mirrored_same) simp_all
  have eff: "mirrored task (s'\<lparr>ls_effects := xs\<rparr>)" if "mirrored task s'" for s' :: "'w agent_state" and xs
    using that by (rule mirrored_same) simp_all
  have rec: "mirrored task (snd (record_result e n t v h r s'))" if "mirrored task s'" for s' :: "'w agent_state" and r
  proof -
    obtain pl tr sp s1 where b: "bounded_payload e r s' = ((pl, tr, sp), s1)"
      by (cases "bounded_payload e r s'") auto
    have "mirrored task s1"
      using mirror.bounded_payload_inv [OF that, of e r] b by simp
    then show ?thesis
      by (simp add: record_result_def b Let_def exit_with_def mirrored_side eff)
  qed
  show ?thesis
    using assms by (simp add: execute_tool_def Let_def ended_def exit_with_def skipped_def mirrored_side ran rec split: prod.splits option.splits)
qed

interpretation mirror_turns: turn_invariant e "\<lambda>_. mirrored (le_task e)" "\<lambda>_. mirrored (le_task e)" for e
proof (rule turn_invariant.intro)
  show "mirrored (le_task e) (snd (call_model e n s))" if "mirrored (le_task e) s" for n s
    using that by (rule mirrored_same) (simp_all add: call_model_def Let_def record_call_def split: prod.splits)
  show "triple (mirrored (le_task e)) (compaction_gate e n) (mirrored (le_task e)) (\<lambda>x s. mirrored (le_task e) s \<and> sound_exit e x)" for n
    using compaction_gate_mirrored [of e _ n] compaction_gate_deeds [of e n] by (simp add: triple_def case_prod_unfold split: option.splits)
qed (simp_all add: mirror.quiet_invariant_axioms execute_tool_mirrored)


section \<open>A session by example\<close>

text \<open>An agent with one effectful tool: the model writes notes for a given number of turns and
  then finishes. The session has one turn.\<close>

definition note_tool :: "unit agent_tool" where
  "note_tool = \<lparr>tl_name = ''write_note'', tl_validate = Inr, tl_summarize = None, tl_riskClass = Some Risk_edit, tl_external = False,
     tl_version = None, tl_source = None, tl_execute = (\<lambda>_ w. (Settled \<lparr>tx_ok = True, tx_data = JStr ''saved'', tx_error = JUndef, tx_summary = None\<rparr>, w))\<rparr>"

definition note_env :: "nat \<Rightarrow> unit loop_env" where
  "note_env uses = \<lparr>le_task = ''note it'', le_context = [], le_capability = ''conversation-resident'', le_purpose = ''demo'', le_sessionId = ''s'', le_parent = None,
     le_maxTurns = 1, le_budget = \<lparr>tb_soft = 70, tb_hard = 80, tb_maxToolResultChars = 100\<rparr>, le_keepLast = 4, le_maxFinishReasks = 2,
     le_maxConsecutiveInvalid = 3, le_stepTimeout = Some 9, le_totalTimeout = Some 99, le_stopWhen = [], le_resultSchema = Some Inr,
     le_tools = [note_tool], le_permissions = \<lparr>po_rules = [\<lparr>pr_tool = Some ''write_note'', pr_argsMatch = None, pr_effect = Allow, pr_note = None, pr_bypassImmune = False\<rparr>],
       po_defaultEffect = None, po_hasAsk = False, po_approvalTtlMs = None\<rparr>,
     le_ask = (\<lambda>_ _ w. (False, w)), le_before = [], le_after = [], le_turnEnd = [], le_artifacts = None,
     le_model = (\<lambda>n _ w. (\<lparr>mr_answer = Answer (if n \<le> uses then Use_tool ''write_note'' (JStr ''x'') ''r'' else Finish ''ok'' (JStr ''done'')), mr_totalTokens = Some 5\<rparr>, w)),
     le_handoff = (\<lambda>_ w. (Handoff_threw ''offline'', w)), le_now = (\<lambda>w. (0, w)), le_abort = (\<lambda>w. (False, w)), le_steer = (\<lambda>w. (None, w)),
     le_sha = (\<lambda>_. ''h''), le_unhashable = (\<lambda>_. None), le_parse = (\<lambda>_. None), le_secrets = [], le_canary = ''FARCANARY''\<rparr>"

definition note_run :: "nat \<Rightarrow> resume_plan option \<Rightarrow> rollout_line list \<Rightarrow> (string + loop_result) \<times> unit agent_state" where
  "note_run uses plan ls = runAgentLoop (note_env uses) plan (empty_session None (new_engine None) ls ())"

lemma scanOutbound_code [code]:
  "scanOutbound text secrets canaries =
     (if 2000000 < int (length text) then Some (Oversized (length text) MAX_OUTBOUND_CHARS)
      else case List.find (\<lambda>s. contains text (snd s)) secrets of
        Some s \<Rightarrow> Some (Secret_hit (fst s))
      | None \<Rightarrow> map_option (\<lambda>c. Canary_hit (fst c)) (List.find (\<lambda>c. contains text (snd c)) canaries))"
  by (simp add: MAX_OUTBOUND_CHARS_def)

text \<open>Evaluation order: a step runs once the state before it is known.\<close>

fun resume_with :: "turn_exit option \<times> 'w agent_state \<Rightarrow> 'w step \<Rightarrow> turn_exit option \<times> 'w agent_state" where
  "resume_with (Some x, s) g = (Some x, s)"
| "resume_with (None, s) g = g s"

lemma andGo_code [code]: "andGo f g s = resume_with (f s) g"
  by (cases "(f s, g)" rule: resume_with.cases) (simp_all add: andGo_def)

fun world_with :: "'a \<times> 'w \<Rightarrow> ('a \<Rightarrow> 'w step) \<Rightarrow> 'w agent_state \<Rightarrow> turn_exit option \<times> 'w agent_state" where
  "world_with (x, w) k s = k x (s\<lparr>ls_world := w\<rparr>)"

lemma in_world_code [code]: "in_world f k s = world_with (f (ls_world s)) k s"
  by (cases "f (ls_world s)") (simp add: in_world_def)

fun digits_fuel :: "nat \<Rightarrow> nat \<Rightarrow> string" where
  "digits_fuel 0 n = [char_of (48 + n)]"
| "digits_fuel (Suc f) n = (if n < 10 then [char_of (48 + n)] else digits_fuel f (n div 10) @ [char_of (48 + n mod 10)])"

lemma digits_fuel: "n \<le> f \<Longrightarrow> digits_fuel f n = digits_of_nat n"
proof (induction f arbitrary: n)
  case 0
  then show ?case by (simp add: digits_of_nat.simps)
next
  case (Suc f)
  show ?case
  proof (cases "n < 10")
    case False
    then have "n div 10 \<le> f" using Suc.prems by linarith
    then show ?thesis using Suc.IH False by (simp add: digits_of_nat.simps [of n])
  qed (simp add: digits_of_nat.simps [of n])
qed

lemma digits_code [code]: "digits_of_nat n = digits_fuel n n"
  by (simp add: digits_fuel)

fun loop_with :: "(nat \<Rightarrow> 'w agent_state \<Rightarrow> (string + loop_result) \<times> 'w agent_state) \<Rightarrow> turn_exit option \<times> 'w agent_state \<Rightarrow> nat \<Rightarrow>
    (string + loop_result) \<times> 'w agent_state" where
  "loop_with k (Some (Ended st err res), s) n = (Inr \<lparr>lr_status = st, lr_result = res, lr_error = err\<rparr>, finish st s)"
| "loop_with k (Some (Loop_threw m), s) n = (Inl m, s)"
| "loop_with k (Some Continue, s) n = k (Suc n) s"
| "loop_with k (None, s) n = k (Suc n) s"

lemma loop_code [code]:
  "loop e d n 0 s = (Inr \<lparr>lr_status = L_max_turns, lr_result = None,
     lr_error = Some (''reached max turns ('' @ str_of_nat (le_maxTurns e) @ '') without a valid finish'')\<rparr>, finish L_max_turns s)"
  "loop e d n (Suc k) s = loop_with (\<lambda>m. loop e d m k) (one_turn e d n s) n"
proof -
  show "loop e d n (Suc k) s = loop_with (\<lambda>m. loop e d m k) (one_turn e d n s) n"
    by (cases "one_turn e d n s") (simp split: option.splits turn_exit.splits)
qed simp

fun answered :: "model_answer \<times> 'w agent_state \<Rightarrow> (model_answer \<Rightarrow> 'w step) \<Rightarrow> turn_exit option \<times> 'w agent_state" where
  "answered (a, s) k = k a s"

lemma model_phase_code [code]: "model_phase e d n s = answered (call_model e n s) (\<lambda>a. andGo (after_model e d n) (answer_step e d n a))"
  by (cases "call_model e n s") (simp add: model_phase_def)

fun is_micro :: "agent_event \<Rightarrow> bool" where
  "is_micro (Compaction_event layer _ _) = (layer = ''micro'')"
| "is_micro _ = False"

fun crash_view :: "unit agent_state \<Rightarrow> nat \<times> nat \<times> string option list \<times> bool \<times> bool" where
  "crash_view s = (length (ls_executions s), length (ls_sent s), recorded (take 8 (ls_rollout s)), planConversationResume (take 8 (ls_rollout s)) = None,
     list_ex is_micro (ls_events s))"

lemma note_run_view: "crash_view (snd (note_run 1 None [])) = (1, 1, [Some ''h''], False, False)"
  by code_simp

lemma note_run_split: "note_run uses plan ls = (fst (note_run uses plan ls), snd (note_run uses plan ls))"
  by simp




lemma note_run_completes: "map_sum id lr_status (fst (note_run 0 None [])) = Inr L_completed"
  by code_simp



end
