(* ===== verification/Model_Routing.thy ===== *)
theory Model_Routing
  imports Run_Model Conversations
begin

text \<open>
  Which model serves a run: the configurations of model routes (\<^verbatim>\<open>src/src/domain/model-config.ts\<close>), the resolution of a run
  to a provider with its failover chain and gates (\<^verbatim>\<open>src/src/app/provider-resolver.ts\<close>), and the failover provider with its
  process-wide cooldowns (\<^verbatim>\<open>src/src/providers/fallback.ts\<close>). The call of a single provider is an argument over a world
  that also holds the clock; the host of a URL is an argument.
\<close>

section \<open>Configurations\<close>

datatype wire_protocol = Wire_openai | Wire_openai_responses | Wire_anthropic | Wire_gemini | Wire_offline

datatype reasoning_style = Reasoning_effort | Enable_thinking | Thinking_budget | Thinking_config

record model_config =
  mc_id :: id
  mc_label :: string
  mc_wire :: wire_protocol
  mc_baseUrl :: string
  mc_modelId :: string
  mc_apiKey :: string
  mc_fallbackConfigIds :: "id list"
  mc_reasoning :: "(reasoning_style \<times> reasoning_gear) option"

fun required_wire :: "reasoning_style \<Rightarrow> wire_protocol" where
  "required_wire Reasoning_effort = Wire_openai"
| "required_wire Enable_thinking = Wire_openai"
| "required_wire Thinking_budget = Wire_anthropic"
| "required_wire Thinking_config = Wire_gemini"

definition assertReasoningWireCompat :: "model_config \<Rightarrow> bool" where
  "assertReasoningWireCompat c \<longleftrightarrow>
     (case mc_reasoning c of
        None \<Rightarrow> True
      | Some (style, _) \<Rightarrow>
          mc_wire c \<noteq> Wire_offline \<and>
          (mc_wire c = required_wire style \<or> mc_wire c = Wire_openai_responses \<and> style = Reasoning_effort))"

definition ModelProviderConfig :: "(string \<Rightarrow> bool) \<Rightarrow> model_config \<Rightarrow> bool" where
  "ModelProviderConfig isUrl c \<longleftrightarrow>
     trim (mc_label c) \<noteq> [] \<and> length (trim (mc_label c)) \<le> 80 \<and> isUrl (mc_baseUrl c) \<and>
     trim (mc_modelId c) \<noteq> [] \<and> length (trim (mc_modelId c)) \<le> 200 \<and> length (mc_fallbackConfigIds c) \<le> 4 \<and>
     assertReasoningWireCompat c"

definition STAGE_REASONING_GEAR :: "(string \<times> reasoning_gear) list" where
  "STAGE_REASONING_GEAR =
     [(''retrieve'', Gear_high), (''build_evidence'', Gear_high), (''verify_sources'', Gear_low), (''generate_hypotheses'', Gear_high),
      (''critique_falsify'', Gear_high), (''rank'', Gear_high), (''plan'', Gear_medium), (''execute'', Gear_low), (''feedback'', Gear_low),
      (''revise'', Gear_high), (''export'', Gear_low), (''scope'', Gear_medium)]"

definition stageReasoningGear :: "string \<Rightarrow> reasoning_gear" where
  "stageReasoningGear stage =
     (case map_of STAGE_REASONING_GEAR stage of
        Some g \<Rightarrow> g
      | None \<Rightarrow> if starts_with stage ''agent:'' then Gear_medium else if starts_with stage ''action:'' then Gear_high else Gear_medium)"

fun reasoningBudgetTokens :: "reasoning_gear \<Rightarrow> nat" where
  "reasoningBudgetTokens Gear_low = 8192"
| "reasoningBudgetTokens Gear_medium = 16384"
| "reasoningBudgetTokens Gear_high = 32768"

definition clampGearForModel :: "reasoning_gear \<Rightarrow> string \<Rightarrow> reasoning_gear" where
  "clampGearForModel g modelId = (if starts_with_ci modelId ''glm-5'' \<and> g = Gear_medium then Gear_high else g)"

definition maskApiKey :: "string \<Rightarrow> string" where
  "maskApiKey key = (if key = [] then [] else bullets @ drop (length key - 4) key)"

section \<open>Compliance\<close>

definition is_letter :: "char \<Rightarrow> bool" where
  "is_letter c \<longleftrightarrow> CHR ''a'' \<le> to_lower c \<and> to_lower c \<le> CHR ''z''"

definition isQwenFamily :: "string \<Rightarrow> bool" where
  "isQwenFamily modelId =
     (let s = trim modelId in starts_with_ci s ''qwen'' \<and> (case drop 4 s of [] \<Rightarrow> True | c # _ \<Rightarrow> \<not> is_letter c))"

definition isBailianEndpoint :: "(string \<Rightarrow> string option) \<Rightarrow> string \<Rightarrow> bool" where
  "isBailianEndpoint hostname baseUrl =
     (case hostname baseUrl of
        None \<Rightarrow> False
      | Some h \<Rightarrow>
          let host = map to_lower h; suffix = ''.aliyuncs.com'' in
          host = ''aliyuncs.com'' \<or> (length suffix \<le> length host \<and> drop (length host - length suffix) host = suffix))"

datatype violation = Not_qwen model_config | Not_bailian model_config

definition competitionViolationOf :: "(string \<Rightarrow> string option) \<Rightarrow> model_config \<Rightarrow> violation option" where
  "competitionViolationOf hostname c =
     (if \<not> isQwenFamily (mc_modelId c) then Some (Not_qwen c)
      else if \<not> isBailianEndpoint hostname (mc_baseUrl c) then Some (Not_bailian c)
      else None)"

section \<open>Resolution\<close>

record route_store =
  rs_configs :: "id \<rightharpoonup> model_config"
  rs_meta :: "string \<rightharpoonup> string"

definition MAX_CHAIN_ROUTES :: nat where
  "MAX_CHAIN_ROUTES = 6"

function chain_loop :: "(id \<rightharpoonup> model_config) \<Rightarrow> model_config list \<Rightarrow> id list \<Rightarrow> id list \<Rightarrow> model_config list" where
  "chain_loop configs routes seen [] = routes"
| "chain_loop configs routes seen (configId # queue) =
     (if MAX_CHAIN_ROUTES \<le> length routes then routes
      else if configId \<in> set seen then chain_loop configs routes seen queue
      else case configs configId of
        None \<Rightarrow> chain_loop configs routes (configId # seen) queue
      | Some cfg \<Rightarrow> chain_loop configs (routes @ [cfg]) (configId # seen) (queue @ mc_fallbackConfigIds cfg))"
  by pat_completeness auto

termination
  by (relation "measures [\<lambda>(configs, routes, seen, queue). MAX_CHAIN_ROUTES - length routes, \<lambda>(configs, routes, seen, queue). length queue]") auto

datatype config_chain = Missing_chain id | Route_chain "model_config list"

definition buildChain :: "(id \<rightharpoonup> model_config) \<Rightarrow> id \<Rightarrow> config_chain" where
  "buildChain configs firstConfigId =
     (if configs firstConfigId = None then Missing_chain firstConfigId else Route_chain (chain_loop configs [] [] [firstConfigId]))"

datatype refusal = Pinned_route route | No_config | Violates violation

datatype provider =
    Builtin route
  | Custom model_config
  | Missing_config id
  | Competition_refusal refusal
  | Test_double_refusal
  | Fallback_chain "model_config list"

definition readCompetitionRouteMode :: "route_store \<Rightarrow> bool" where
  "readCompetitionRouteMode st \<longleftrightarrow> rs_meta st ''competition_route_mode'' = Some ''on''"

definition writeCompetitionRouteMode :: "bool \<Rightarrow> route_store \<Rightarrow> route_store" where
  "writeCompetitionRouteMode on st = st\<lparr>rs_meta := (rs_meta st)(''competition_route_mode'' := (if on then Some ''on'' else None))\<rparr>"

definition selected_config :: "route_store \<Rightarrow> research_run \<Rightarrow> id option" where
  "selected_config st run = (case run_providerConfigId run of Some c \<Rightarrow> Some c | None \<Rightarrow> rs_meta st ''activeModelConfigId'')"

text \<open>Both passes over a chain look a route's configuration up again by its id.\<close>

definition first_violation :: "(string \<Rightarrow> string option) \<Rightarrow> (id \<rightharpoonup> model_config) \<Rightarrow> model_config list \<Rightarrow> violation option" where
  "first_violation hostname configs cs =
     (case List.map_filter (\<lambda>c. Option.bind (configs (mc_id c)) (competitionViolationOf hostname)) cs of [] \<Rightarrow> None | v # _ \<Rightarrow> Some v)"

definition resolveRunProvider :: "(string \<Rightarrow> string option) \<Rightarrow> bool \<Rightarrow> route_store \<Rightarrow> research_run \<Rightarrow> provider option" where
  "resolveRunProvider hostname testDoubleEnabled st run =
     (let competition = readCompetitionRouteMode st in
      case run_routeOverride run of
        Some r \<Rightarrow> Some (if competition \<and> r \<noteq> Route_dashscope then Competition_refusal (Pinned_route r) else Builtin r)
      | None \<Rightarrow>
          (case selected_config st run of
             None \<Rightarrow> if competition then Some (Competition_refusal No_config) else None
           | Some configId \<Rightarrow>
               (case buildChain (rs_configs st) configId of
                  Missing_chain c \<Rightarrow> Some (Missing_config c)
                | Route_chain routes \<Rightarrow>
                    if \<not> testDoubleEnabled \<and> map_option mc_wire (rs_configs st configId) = Some Wire_offline then Some Test_double_refusal
                    else case (if competition then first_violation hostname (rs_configs st) routes else None) of
                      Some v \<Rightarrow> Some (Competition_refusal (Violates v))
                    | None \<Rightarrow> Some (case routes of [c] \<Rightarrow> Custom c | _ \<Rightarrow> Fallback_chain routes))))"

definition resolveRunReasoningRoute :: "route_store \<Rightarrow> research_run \<Rightarrow> (reasoning_style \<times> reasoning_gear \<times> string) option" where
  "resolveRunReasoningRoute st run =
     (if run_routeOverride run \<noteq> None then None
      else case selected_config st run of
        None \<Rightarrow> None
      | Some configId \<Rightarrow>
          (case buildChain (rs_configs st) configId of
             Missing_chain _ \<Rightarrow> None
           | Route_chain routes \<Rightarrow>
               (case List.map_filter (\<lambda>c. Option.bind (rs_configs st (mc_id c))
                   (\<lambda>cfg. map_option (\<lambda>(style, g). (style, g, mc_modelId cfg)) (mc_reasoning cfg))) routes of
                  [] \<Rightarrow> None | x # _ \<Rightarrow> Some x)))"

definition provider_name :: "id \<Rightarrow> string" where
  "provider_name configId = ''custom:'' @ configId"

definition resolveChainNames :: "route_store \<Rightarrow> id \<Rightarrow> string list" where
  "resolveChainNames st firstConfigId =
     (case buildChain (rs_configs st) firstConfigId of
        Missing_chain c \<Rightarrow> [provider_name c]
      | Route_chain routes \<Rightarrow> map (\<lambda>c. provider_name (mc_id c)) routes)"

section \<open>Failover\<close>

datatype error_kind = Provider_error | Rate_limited | Invalid_output | Timeout | Auth_error | Quota_exceeded

record call_error =
  ce_kind :: error_kind
  ce_message :: string
  ce_retryable :: bool
  ce_httpStatus :: "nat option"

record 'a call_result =
  scr_ok :: bool
  scr_data :: "'a option"
  scr_error :: "call_error option"
  scr_provider :: string

definition COOLDOWN_MS :: nat where
  "COOLDOWN_MS = 60000"

fun isFailoverWorthy :: "call_error \<Rightarrow> bool" where
  "isFailoverWorthy e =
     (case ce_kind e of
        Rate_limited \<Rightarrow> True | Timeout \<Rightarrow> True | Quota_exceeded \<Rightarrow> True | Auth_error \<Rightarrow> True
      | Provider_error \<Rightarrow> ce_httpStatus e \<notin> {Some 400, Some 404, Some 413}
      | Invalid_output \<Rightarrow> False)"

definition error_of :: "'a call_result \<Rightarrow> call_error" where
  "error_of r = (case scr_error r of Some e \<Rightarrow> e
     | None \<Rightarrow> \<lparr>ce_kind = Provider_error, ce_message = ''unknown failure'', ce_retryable = False, ce_httpStatus = None\<rparr>)"

record failover_route =
  fr_name :: string
  fr_configId :: string

text \<open>The process: the cooldown registry, the failovers that were reported, and the calls that were made with their
  results, next to the world of the providers.\<close>

record ('w, 'a) failover_state =
  fs_cooldownUntil :: "string \<rightharpoonup> nat"
  fs_failovers :: "(string \<times> string \<times> call_error) list"
  fs_calls :: "(failover_route \<times> 'a call_result) list"
  fs_world :: 'w

definition clearFallbackCooldowns :: "('w, 'a) failover_state \<Rightarrow> ('w, 'a) failover_state" where
  "clearFallbackCooldowns s = s\<lparr>fs_cooldownUntil := Map.empty\<rparr>"

definition usable :: "nat \<Rightarrow> (string \<rightharpoonup> nat) \<Rightarrow> failover_route \<Rightarrow> bool" where
  "usable t cool r \<longleftrightarrow> fr_configId r = [] \<or> (case cool (fr_configId r) of Some u \<Rightarrow> u \<le> t | None \<Rightarrow> True)"

definition chain_of :: "nat \<Rightarrow> (string \<rightharpoonup> nat) \<Rightarrow> failover_route list \<Rightarrow> failover_route list" where
  "chain_of t cool routes = (let u = filter (usable t cool) routes in if u \<noteq> [] then u else routes)"

definition cool_down :: "nat \<Rightarrow> failover_route \<Rightarrow> (string \<rightharpoonup> nat) \<Rightarrow> (string \<rightharpoonup> nat)" where
  "cool_down t r cool = (if fr_configId r \<noteq> [] then cool(fr_configId r \<mapsto> t + COOLDOWN_MS) else cool)"

fun try_routes ::
  "(failover_route \<Rightarrow> 'w \<Rightarrow> 'a call_result \<times> 'w) \<Rightarrow> ('w \<Rightarrow> nat) \<Rightarrow> failover_route list \<Rightarrow> ('w, 'a) failover_state \<Rightarrow> string + 'a call_result \<times> ('w, 'a) failover_state" where
  "try_routes call clock [] s = Inl ''fallback chain: unreachable terminal state''"
| "try_routes call clock (r # rest) s =
     (let (res, w) = call r (fs_world s); s1 = s\<lparr>fs_world := w, fs_calls := fs_calls s @ [(r, res)]\<rparr> in
      if scr_ok res then Inr (res, s1)
      else case rest of
        [] \<Rightarrow> Inr (res, s1)
      | nxt # _ \<Rightarrow>
          if \<not> isFailoverWorthy (error_of res) then Inr (res, s1)
          else try_routes call clock rest
            (s1\<lparr>fs_cooldownUntil := cool_down (clock w) r (fs_cooldownUntil s1),
                fs_failovers := fs_failovers s1 @ [(fr_name r, fr_name nxt, error_of res)]\<rparr>))"

definition structuredCall ::
  "(failover_route \<Rightarrow> 'w \<Rightarrow> 'a call_result \<times> 'w) \<Rightarrow> ('w \<Rightarrow> nat) \<Rightarrow> failover_route list \<Rightarrow> ('w, 'a) failover_state \<Rightarrow> string + 'a call_result \<times> ('w, 'a) failover_state" where
  "structuredCall call clock routes s =
     (if routes = [] then Inl ''fallback chain requires at least one route''
      else try_routes call clock (chain_of (clock (fs_world s)) (fs_cooldownUntil s) routes) s)"

text \<open>The routes of a resolved chain.\<close>

definition route_of :: "model_config \<Rightarrow> failover_route" where
  "route_of c = \<lparr>fr_name = provider_name (mc_id c), fr_configId = mc_id c\<rparr>"

section \<open>Chains\<close>

text \<open>Configurations are stored under their own id.\<close>

definition keyed :: "(id \<rightharpoonup> model_config) \<Rightarrow> bool" where
  "keyed configs \<longleftrightarrow> (\<forall>k c. configs k = Some c \<longrightarrow> mc_id c = k)"

text \<open>A configuration declares another as its fallback.\<close>

definition declares :: "(id \<rightharpoonup> model_config) \<Rightarrow> id \<Rightarrow> id \<Rightarrow> bool" where
  "declares configs a b \<longleftrightarrow> (\<exists>c. configs a = Some c \<and> b \<in> set (mc_fallbackConfigIds c))"

definition chain_inv :: "(id \<rightharpoonup> model_config) \<Rightarrow> model_config list \<Rightarrow> id list \<Rightarrow> bool" where
  "chain_inv configs routes seen \<longleftrightarrow> distinct (map mc_id routes) \<and> set (map mc_id routes) \<subseteq> set seen \<and>
     (\<forall>c\<in>set routes. configs (mc_id c) = Some c) \<and> length routes \<le> MAX_CHAIN_ROUTES"

lemma chain_loop_extends: "\<exists>ext. chain_loop configs routes seen queue = routes @ ext"
proof (induction configs routes seen queue rule: chain_loop.induct)
  case (2 configs routes seen configId queue)
  then show ?case
    by (cases "configs configId") auto
qed simp

lemma chain_loop_inv:
  "keyed configs \<Longrightarrow> chain_inv configs routes seen \<Longrightarrow> \<exists>seen'. chain_inv configs (chain_loop configs routes seen queue) seen'"
proof (induction configs routes seen queue rule: chain_loop.induct)
  case (2 configs routes seen configId queue)
  consider "MAX_CHAIN_ROUTES \<le> length routes \<or> configId \<in> set seen" | "length routes < MAX_CHAIN_ROUTES" "configId \<notin> set seen" "configs configId = None" |
      cfg where "length routes < MAX_CHAIN_ROUTES" "configId \<notin> set seen" "configs configId = Some cfg"
    by (cases "configs configId") force+
  then show ?case
  proof cases
    case 1
    then show ?thesis
      using 2 by (auto simp: not_le)
  next
    case 2
    then show ?thesis
      using "2.IH"(2) "2.prems" by (simp add: chain_inv_def not_le [symmetric] subset_insertI2)
  next
    case 3
    then have "chain_inv configs (routes @ [cfg]) (configId # seen)"
      using "2.prems" by (auto simp: chain_inv_def keyed_def)
    then show ?thesis
      using "2.IH"(3) "2.prems"(1) 3 by (simp add: not_le [symmetric])
  qed
qed auto

lemma chain_loop_reachable:
  "keyed configs \<Longrightarrow> \<forall>k\<in>set queue \<union> mc_id ` set routes. (declares configs)\<^sup>*\<^sup>* a k \<Longrightarrow>
   \<forall>c\<in>set (chain_loop configs routes seen queue). (declares configs)\<^sup>*\<^sup>* a (mc_id c)"
proof (induction configs routes seen queue rule: chain_loop.induct)
  case (2 configs routes seen configId queue)
  have next_queue: "\<forall>k\<in>set (queue @ mc_fallbackConfigIds cfg) \<union> mc_id ` set (routes @ [cfg]). (declares configs)\<^sup>*\<^sup>* a k" if "configs configId = Some cfg" for cfg
  proof -
    have "mc_id cfg = configId"
      using "2.prems"(1) that by (simp add: keyed_def)
    moreover have "(declares configs)\<^sup>*\<^sup>* a k" if "k \<in> set (mc_fallbackConfigIds cfg)" for k
    proof -
      have "declares configs configId k"
        using that \<open>configs configId = Some cfg\<close> by (auto simp: declares_def)
      then show ?thesis
        using "2.prems"(2) by (meson UnI1 list.set_intros(1) rtranclp.rtrancl_into_rtrancl)
    qed
    ultimately show ?thesis
      using "2.prems"(2) by auto
  qed
  show ?case
    using "2.IH" "2.prems" next_queue by (auto split: option.splits)
qed auto

lemma chain_loop_takes:
  "keyed configs \<Longrightarrow> length routes + length q1 \<le> MAX_CHAIN_ROUTES \<Longrightarrow> \<forall>k\<in>set seen. configs k = None \<or> k \<in> mc_id ` set routes \<Longrightarrow>
   k \<in> set q1 \<Longrightarrow> configs k \<noteq> None \<Longrightarrow> k \<in> mc_id ` set (chain_loop configs routes seen (q1 @ q2))"
proof (induction q1 arbitrary: routes seen q2 k)
  case (Cons b q1)
  have kept: "mc_id ` set routes' \<subseteq> mc_id ` set (chain_loop configs routes' seen' queue')" for routes' seen' queue'
    using chain_loop_extends [of configs routes' seen' queue'] by auto
  have room: "\<not> MAX_CHAIN_ROUTES \<le> length routes"
    using Cons.prems(2) by simp
  consider "b \<in> set seen" | "b \<notin> set seen" "configs b = None" | cfg where "b \<notin> set seen" "configs b = Some cfg"
    by blast
  then show ?case
  proof cases
    case 1
    have "k \<in> mc_id ` set (chain_loop configs routes seen (q1 @ q2))"
    proof (cases "k = b")
      case True
      then have "k \<in> mc_id ` set routes"
        using 1 Cons.prems(3,5) by auto
      then show ?thesis
        using kept [of routes seen "q1 @ q2"] by (rule rev_subsetD)
    next
      case False
      then show ?thesis
        using Cons.prems by (intro Cons.IH) auto
    qed
    then show ?thesis
      using 1 room by simp
  next
    case 2
    then show ?thesis
      using Cons.prems room by (auto intro!: Cons.IH)
  next
    case 3
    have id: "mc_id cfg = b"
      using Cons.prems(1) 3 by (simp add: keyed_def)
    have seen': "\<forall>k\<in>set (b # seen). configs k = None \<or> k \<in> mc_id ` set (routes @ [cfg])"
      using Cons.prems(3) id by auto
    have "k \<in> mc_id ` set (chain_loop configs (routes @ [cfg]) (b # seen) (q1 @ q2 @ mc_fallbackConfigIds cfg))"
    proof (cases "k = b")
      case True
      then show ?thesis
        using kept [of "routes @ [cfg]"] id by auto
    next
      case False
      then show ?thesis
        using Cons.prems seen' by (intro Cons.IH) auto
    qed
    then show ?thesis
      using 3 room by simp
  qed
qed simp

text \<open>The failover chain of a configuration is sound: it starts with that configuration, holds at most six, none twice, only
  configurations that the declared fallbacks lead to, and every existing configuration that the first one declares.\<close>

theorem chain_sound:
  assumes "buildChain configs k = Route_chain routes" "keyed configs"
  shows "\<exists>c. configs k = Some c \<and> (\<exists>rest. routes = c # rest) \<and> distinct (map mc_id routes) \<and> length routes \<le> 6 \<and>
    (\<forall>d\<in>set routes. configs (mc_id d) = Some d \<and> (declares configs)\<^sup>*\<^sup>* k (mc_id d)) \<and>
    (length (mc_fallbackConfigIds c) \<le> 4 \<longrightarrow> (\<forall>f\<in>set (mc_fallbackConfigIds c). configs f \<noteq> None \<longrightarrow> f \<in> mc_id ` set routes))"
proof -
  obtain c where c: "configs k = Some c" and routes: "routes = chain_loop configs [] [] [k]"
    using assms(1) by (auto simp: buildChain_def split: if_splits)
  have id: "mc_id c = k"
    using assms(2) c by (simp add: keyed_def)
  have step: "routes = chain_loop configs [c] [k] (mc_fallbackConfigIds c @ [])"
    using c by (simp add: routes MAX_CHAIN_ROUTES_def)
  obtain rest where rest: "routes = c # rest"
    using chain_loop_extends [of configs "[c]" "[k]" "mc_fallbackConfigIds c"] step by auto
  obtain seen where inv: "chain_inv configs routes seen"
    using chain_loop_inv [OF assms(2), of "[]" "[]" "[k]"] routes by (auto simp: chain_inv_def)
  have reach: "\<forall>d\<in>set routes. (declares configs)\<^sup>*\<^sup>* k (mc_id d)"
    using chain_loop_reachable [OF assms(2), of "[k]" "[]" k "[]"] routes by simp
  have declared: "f \<in> mc_id ` set routes" if "length (mc_fallbackConfigIds c) \<le> 4" "f \<in> set (mc_fallbackConfigIds c)" "configs f \<noteq> None" for f
    unfolding step using that id by (intro chain_loop_takes [OF assms(2)]) (simp_all add: MAX_CHAIN_ROUTES_def)
  show ?thesis
    using c rest inv reach declared by (auto simp: chain_inv_def MAX_CHAIN_ROUTES_def)
qed

definition sample_config :: "id \<Rightarrow> wire_protocol \<Rightarrow> id list \<Rightarrow> model_config" where
  "sample_config k w fs = \<lparr>mc_id = k, mc_label = k, mc_wire = w, mc_baseUrl = ''https://x.aliyuncs.com'', mc_modelId = ''qwen3-max'', mc_apiKey = ''k'',
     mc_fallbackConfigIds = fs, mc_reasoning = None\<rparr>"

definition sample_configs :: "id \<rightharpoonup> model_config" where
  "sample_configs = [''a'' \<mapsto> sample_config ''a'' Wire_openai [''b'', ''gone'', ''a''], ''b'' \<mapsto> sample_config ''b'' Wire_offline [''a'']]"

lemma sample_keyed: "keyed sample_configs"
  by (auto simp: keyed_def sample_configs_def sample_config_def split: if_splits)

lemma sample_chain:
  "buildChain sample_configs ''a'' = Route_chain [sample_config ''a'' Wire_openai [''b'', ''gone'', ''a''], sample_config ''b'' Wire_offline [''a'']]"
  by (simp add: buildChain_def sample_configs_def MAX_CHAIN_ROUTES_def sample_config_def)

theorem chain_sound_witness:
  "distinct (map mc_id [sample_config ''a'' Wire_openai [''b'', ''gone'', ''a''], sample_config ''b'' Wire_offline [''a'']]) \<and>
   (declares sample_configs)\<^sup>*\<^sup>* ''a'' ''b''"
  using chain_sound [OF sample_chain sample_keyed] by (auto simp: sample_config_def)

section \<open>One structured call\<close>

text \<open>What a call adds to the state of the process: the calls of a chain in order, all but the last failed in a way
  that justifies another route.\<close>

definition attempts_ok :: "failover_route list \<Rightarrow> 'a call_result \<Rightarrow> (failover_route \<times> 'a call_result) list \<Rightarrow> bool" where
  "attempts_ok chain res ns \<longleftrightarrow> ns \<noteq> [] \<and> map fst ns = take (length ns) chain \<and> snd (last ns) = res \<and>
     (\<forall>(r, x)\<in>set (butlast ns). \<not> scr_ok x \<and> isFailoverWorthy (error_of x)) \<and>
     (scr_ok res \<or> \<not> isFailoverWorthy (error_of res) \<or> length ns = length chain)"

definition reported :: "(failover_route \<times> 'a call_result) list \<Rightarrow> (string \<times> string \<times> call_error) list" where
  "reported ns = map2 (\<lambda>a b. (fr_name (fst a), fr_name (fst b), error_of (snd a))) (butlast ns) (tl ns)"

definition cooled :: "(failover_route \<times> 'a call_result) list \<Rightarrow> string set" where
  "cooled ns = fr_configId ` fst ` set (butlast ns) - {[]}"

definition call_effect ::
  "failover_route list \<Rightarrow> ('w, 'a) failover_state \<Rightarrow> 'a call_result \<Rightarrow> ('w, 'a) failover_state \<Rightarrow> (failover_route \<times> 'a call_result) list \<Rightarrow> bool" where
  "call_effect chain s res s' ns \<longleftrightarrow> attempts_ok chain res ns \<and> fs_calls s' = fs_calls s @ ns \<and>
     fs_failovers s' = fs_failovers s @ reported ns \<and>
     (\<forall>k. k \<notin> cooled ns \<longrightarrow> fs_cooldownUntil s' k = fs_cooldownUntil s k) \<and>
     (\<forall>k\<in>cooled ns. \<exists>t. fs_cooldownUntil s' k = Some (t + COOLDOWN_MS))"

lemma call_effect_one:
  assumes "scr_ok res \<or> \<not> isFailoverWorthy (error_of res) \<or> rest = []"
  shows "call_effect (r # rest) s res (s\<lparr>fs_world := w, fs_calls := fs_calls s @ [(r, res)]\<rparr>) [(r, res)]"
  using assms by (auto simp: call_effect_def attempts_ok_def reported_def cooled_def)

lemma call_effect_next:
  assumes "\<not> scr_ok x" "isFailoverWorthy (error_of x)"
    and "call_effect (nxt # rest) (s\<lparr>fs_world := w, fs_calls := fs_calls s @ [(r, x)], fs_cooldownUntil := cool_down t r (fs_cooldownUntil s),
      fs_failovers := fs_failovers s @ [(fr_name r, fr_name nxt, error_of x)]\<rparr>) res s' ns"
  shows "call_effect (r # nxt # rest) s res s' ((r, x) # ns)"
proof -
  obtain y ns' where ns: "ns = (nxt, y) # ns'"
    using assms(3) by (cases ns) (auto simp: call_effect_def attempts_ok_def)
  have attempts: "attempts_ok (r # nxt # rest) res ((r, x) # ns)"
    using assms by (auto simp: call_effect_def attempts_ok_def ns)
  have rep: "reported ((r, x) # ns) = (fr_name r, fr_name nxt, error_of x) # reported ns"
    by (simp add: reported_def ns)
  have cool: "cooled ((r, x) # ns) = (cooled ns \<union> {fr_configId r}) - {[]}"
    by (auto simp: cooled_def ns)
  have keep: "cool_down t r (fs_cooldownUntil s) k = (if k = fr_configId r \<and> k \<noteq> [] then Some (t + COOLDOWN_MS) else fs_cooldownUntil s k)" for k
    by (simp add: cool_down_def)
  have no: "[] \<notin> cooled ns"
    by (simp add: cooled_def)
  show ?thesis
    using assms(3) attempts no unfolding call_effect_def rep cool by (auto simp: keep split: if_splits)
qed

lemma try_routes_effect:
  "chain \<noteq> [] \<Longrightarrow> \<exists>res s' ns. try_routes call clock chain s = Inr (res, s') \<and> call_effect chain s res s' ns"
proof (induction chain arbitrary: s)
  case (Cons r rest)
  obtain x w where x: "call r (fs_world s) = (x, w)"
    by (cases "call r (fs_world s)")
  show ?case
  proof (cases "scr_ok x \<or> \<not> isFailoverWorthy (error_of x) \<or> rest = []")
    case True
    then have "try_routes call clock (r # rest) s = Inr (x, s\<lparr>fs_world := w, fs_calls := fs_calls s @ [(r, x)]\<rparr>)"
      using x by (cases rest) (auto simp: Let_def simp del: isFailoverWorthy.simps)
    then show ?thesis
      using call_effect_one [OF True, of r s w] by blast
  next
    case False
    then obtain nxt rest' where rest: "rest = nxt # rest'"
      by (cases rest) auto
    let ?s = "s\<lparr>fs_world := w, fs_calls := fs_calls s @ [(r, x)], fs_cooldownUntil := cool_down (clock w) r (fs_cooldownUntil s),
      fs_failovers := fs_failovers s @ [(fr_name r, fr_name nxt, error_of x)]\<rparr>"
    have step: "try_routes call clock (r # rest) s = try_routes call clock rest ?s"
      using x False by (subst try_routes.simps) (simp add: rest Let_def del: isFailoverWorthy.simps try_routes.simps)
    obtain res s' ns where "try_routes call clock rest ?s = Inr (res, s')" "call_effect rest ?s res s' ns"
      using Cons.IH [of ?s] rest by blast
    then have "call_effect (r # rest) s res s' ((r, x) # ns)" "try_routes call clock (r # rest) s = Inr (res, s')"
      using call_effect_next [where w = w and t = "clock w"] False step rest by auto
    then show ?thesis
      by blast
  qed
qed simp

lemma chain_of_nonempty: "routes \<noteq> [] \<Longrightarrow> chain_of t cool routes \<noteq> []"
  by (simp add: chain_of_def Let_def)

lemma chain_of_subset: "set (chain_of t cool routes) \<subseteq> set routes"
  by (auto simp: chain_of_def Let_def)

lemma structuredCall_effect:
  "routes \<noteq> [] \<Longrightarrow> \<exists>res s' ns. structuredCall call clock routes s = Inr (res, s') \<and>
     call_effect (chain_of (clock (fs_world s)) (fs_cooldownUntil s) routes) s res s' ns"
  unfolding structuredCall_def using try_routes_effect [OF chain_of_nonempty] by simp

text \<open>C33. A structured call over a chain always ends with the result of a route, and it keeps the failover discipline: the
  routes not cooling down (all of them, when every one is) are tried in order and at most once, each only after the one
  before it failed in a way that another route may repair, and the call stops at the first success, at the first failure
  that is not of that kind, or at the end of the chain. Exactly the routes that were given up are cooled, and every
  failover is reported.\<close>

theorem failover_discipline:
  assumes "routes \<noteq> []"
  shows "\<exists>chain res s' ns. chain = chain_of (clock (fs_world s)) (fs_cooldownUntil s) routes \<and> structuredCall call clock routes s = Inr (res, s') \<and>
    fs_calls s' = fs_calls s @ ns \<and> ns \<noteq> [] \<and> map fst ns = take (length ns) chain \<and> snd (last ns) = res \<and>
    (\<forall>(r, x)\<in>set (butlast ns). \<not> scr_ok x \<and> isFailoverWorthy (error_of x)) \<and>
    (scr_ok res \<or> \<not> isFailoverWorthy (error_of res) \<or> length ns = length chain) \<and>
    (\<forall>k. fs_cooldownUntil s' k \<noteq> fs_cooldownUntil s k \<longrightarrow> k \<in> cooled ns) \<and>
    (\<forall>k\<in>cooled ns. \<exists>t. fs_cooldownUntil s' k = Some (t + 60000)) \<and> fs_failovers s' = fs_failovers s @ reported ns"
  using structuredCall_effect [OF assms(1), of call clock s]
  unfolding call_effect_def attempts_ok_def COOLDOWN_MS_def by blast

definition sample_route :: "string \<Rightarrow> failover_route" where
  "sample_route k = \<lparr>fr_name = k, fr_configId = k\<rparr>"

definition sample_call :: "failover_route \<Rightarrow> nat \<Rightarrow> nat call_result \<times> nat" where
  "sample_call r now =
     (if fr_name r = ''b'' then (\<lparr>scr_ok = True, scr_data = Some 1, scr_error = None, scr_provider = ''b''\<rparr>, now + 5)
      else (\<lparr>scr_ok = False, scr_data = None, scr_error = Some \<lparr>ce_kind = Timeout, ce_message = [], ce_retryable = True, ce_httpStatus = None\<rparr>,
             scr_provider = fr_name r\<rparr>, now + 7))"

definition sample_state :: "(nat, nat) failover_state" where
  "sample_state = \<lparr>fs_cooldownUntil = [''c'' \<mapsto> 50], fs_failovers = [], fs_calls = [], fs_world = 10\<rparr>"

theorem failover_discipline_witness:
  "\<exists>res s'. structuredCall sample_call id [sample_route ''c'', sample_route ''a'', sample_route ''b''] sample_state = Inr (res, s') \<and>
     scr_provider res = ''b'' \<and> map fst (fs_calls s') = [sample_route ''a'', sample_route ''b''] \<and> fs_cooldownUntil s' ''a'' = Some 60017 \<and>
     (\<exists>ns. fs_calls s' = ns \<and> snd (last ns) = res)"
proof -
  have run: "\<exists>res s'. structuredCall sample_call id [sample_route ''c'', sample_route ''a'', sample_route ''b''] sample_state = Inr (res, s') \<and>
     scr_provider res = ''b'' \<and> map fst (fs_calls s') = [sample_route ''a'', sample_route ''b''] \<and> fs_cooldownUntil s' ''a'' = Some 60017"
    by (simp add: structuredCall_def chain_of_def usable_def sample_state_def sample_route_def sample_call_def cool_down_def COOLDOWN_MS_def Let_def error_of_def)
  have "\<exists>res s' ns. structuredCall sample_call id [sample_route ''c'', sample_route ''a'', sample_route ''b''] sample_state = Inr (res, s') \<and>
     fs_calls s' = fs_calls sample_state @ ns \<and> snd (last ns) = res"
    using failover_discipline [where routes = "[sample_route ''c'', sample_route ''a'', sample_route ''b'']" and call = sample_call and clock = id and s = sample_state] by blast
  then show ?thesis
    using run by (auto simp: sample_state_def)
qed

section \<open>Competition mode\<close>

definition compliant :: "(string \<Rightarrow> string option) \<Rightarrow> model_config \<Rightarrow> bool" where
  "compliant hostname c \<longleftrightarrow> isQwenFamily (mc_modelId c) \<and> isBailianEndpoint hostname (mc_baseUrl c)"

lemma violation_iff: "competitionViolationOf hostname c = None \<longleftrightarrow> compliant hostname c"
  by (simp add: competitionViolationOf_def compliant_def)

lemma first_violation_None:
  "first_violation hostname configs cs = None \<longleftrightarrow> (\<forall>c\<in>set cs. \<forall>cfg. configs (mc_id c) = Some cfg \<longrightarrow> compliant hostname cfg)"
proof -
  have "List.map_filter f cs = [] \<longleftrightarrow> (\<forall>c\<in>set cs. f c = None)" for f :: "model_config \<Rightarrow> violation option"
    by (auto simp: List.map_filter_def filter_empty_conv)
  moreover have "first_violation hostname configs cs = None \<longleftrightarrow> List.map_filter (\<lambda>c. Option.bind (configs (mc_id c)) (competitionViolationOf hostname)) cs = []"
    by (simp add: first_violation_def split: list.split)
  moreover have "Option.bind o' (competitionViolationOf hostname) = None \<longleftrightarrow> (\<forall>cfg. o' = Some cfg \<longrightarrow> compliant hostname cfg)" for o'
    by (cases o') (simp_all add: violation_iff)
  ultimately show ?thesis
    by simp
qed

text \<open>The configurations a provider may call.\<close>

fun served_by :: "provider \<Rightarrow> model_config list" where
  "served_by (Custom c) = [c]"
| "served_by (Fallback_chain cs) = cs"
| "served_by _ = []"

lemma chain_configs: "buildChain configs k = Route_chain routes \<Longrightarrow> keyed configs \<Longrightarrow> c \<in> set routes \<Longrightarrow> configs (mc_id c) = Some c"
  using chain_loop_inv [of configs "[]" "[]" "[k]"] by (auto simp: buildChain_def chain_inv_def split: if_splits)

text \<open>C34. Competition mode has no side door: while it is on, a run resolves to the one built-in route that complies, to a
  refusal, or to configurations that all are Qwen models on a Bailian endpoint, and every call that a failover chain of
  them makes goes to one of those, whatever fails.\<close>

theorem competition_mode_enforced:
  assumes "resolveRunProvider hostname testDouble st run = Some p" "readCompetitionRouteMode st" "keyed (rs_configs st)"
  shows "(case p of Builtin r \<Rightarrow> r = Route_dashscope | _ \<Rightarrow> True) \<and> (\<forall>c\<in>set (served_by p). compliant hostname c) \<and>
    (\<forall>call clock (s :: ('w, 'a) failover_state) res s'. structuredCall call clock (map route_of (served_by p)) s = Inr (res, s') \<longrightarrow>
       (\<forall>r\<in>set (map fst (drop (length (fs_calls s)) (fs_calls s'))). \<exists>c\<in>set (served_by p). r = route_of c \<and> compliant hostname c))"
proof -
  have all: "\<forall>c\<in>set (served_by p). compliant hostname c"
  proof (cases "run_routeOverride run")
    case None
    show ?thesis
    proof (cases "selected_config st run")
      case (Some k)
      show ?thesis
      proof (cases "buildChain (rs_configs st) k")
        case (Route_chain routes)
        then show ?thesis
          using assms None Some chain_configs [OF Route_chain assms(3)] first_violation_None [of hostname "rs_configs st" routes]
          by (auto simp: resolveRunProvider_def Let_def split: if_splits option.splits list.splits)
      qed (use assms None Some in \<open>auto simp: resolveRunProvider_def Let_def\<close>)
    qed (use assms None in \<open>auto simp: resolveRunProvider_def Let_def\<close>)
  qed (use assms in \<open>auto simp: resolveRunProvider_def Let_def split: if_splits\<close>)
  have pinned: "case p of Builtin r \<Rightarrow> r = Route_dashscope | _ \<Rightarrow> True"
    using assms by (auto simp: resolveRunProvider_def Let_def split: if_splits option.splits config_chain.splits list.splits provider.splits)
  have calls: "\<exists>c\<in>set (served_by p). r = route_of c \<and> compliant hostname c"
    if run: "structuredCall call clock (map route_of (served_by p)) s = Inr (res, s')" and r: "r \<in> set (map fst (drop (length (fs_calls s)) (fs_calls s')))"
    for call clock and s s' :: "('w, 'a) failover_state" and res r
  proof -
    have "map route_of (served_by p) \<noteq> []"
      using run by (auto simp: structuredCall_def)
    from structuredCall_effect [OF this, of call clock s] run obtain ns where
      "call_effect (chain_of (clock (fs_world s)) (fs_cooldownUntil s) (map route_of (served_by p))) s res s' ns"
      by auto
    then have "fs_calls s' = fs_calls s @ ns" "map fst ns = take (length ns) (chain_of (clock (fs_world s)) (fs_cooldownUntil s) (map route_of (served_by p)))"
      by (simp_all add: call_effect_def attempts_ok_def)
    then have "r \<in> set (map route_of (served_by p))"
      using r chain_of_subset set_take_subset by (metis append_eq_conv_conj subsetD)
    then show ?thesis
      using all by auto
  qed
  show ?thesis
    using all pinned calls by blast
qed

definition sample_store :: route_store where
  "sample_store = \<lparr>rs_configs = sample_configs, rs_meta = [''competition_route_mode'' \<mapsto> ''on'']\<rparr>"

definition sample_run :: research_run where
  "sample_run = (new_run ''r'' ''q'' 0)\<lparr>run_providerConfigId := Some ''a'', run_routeOverride := None\<rparr>"

text \<open>The test double is refused only as the first configuration: as a declared fallback it is part of the chain.\<close>

lemma offline_fallback_is_served:
  assumes "isBailianEndpoint hostname ''https://x.aliyuncs.com''"
  shows "resolveRunProvider hostname False sample_store sample_run =
    Some (Fallback_chain [sample_config ''a'' Wire_openai [''b'', ''gone'', ''a''], sample_config ''b'' Wire_offline [''a'']])"
proof -
  have "isQwenFamily ''qwen3-max''"
    by code_simp
  then have "first_violation hostname sample_configs [sample_config ''a'' Wire_openai [''b'', ''gone'', ''a''], sample_config ''b'' Wire_offline [''a'']] = None"
    using assms by (simp add: first_violation_None compliant_def sample_config_def sample_configs_def)
  then show ?thesis
    by (simp add: resolveRunProvider_def sample_store_def sample_run_def selected_config_def sample_chain readCompetitionRouteMode_def)
      (simp add: sample_configs_def sample_config_def)
qed

theorem competition_mode_enforced_witness:
  "\<exists>p. resolveRunProvider (\<lambda>_. Some ''x.aliyuncs.com'') False sample_store sample_run = Some p \<and> length (served_by p) = 2 \<and>
     (\<forall>c\<in>set (served_by p). compliant (\<lambda>_. Some ''x.aliyuncs.com'') c)"
proof -
  have "isBailianEndpoint (\<lambda>_. Some ''x.aliyuncs.com'') ''https://x.aliyuncs.com''"
    by code_simp
  from offline_fallback_is_served [OF this] obtain p where
    p: "resolveRunProvider (\<lambda>_. Some ''x.aliyuncs.com'') False sample_store sample_run = Some p" "length (served_by p) = 2"
    by simp
  have "readCompetitionRouteMode sample_store" "keyed (rs_configs sample_store)"
    by (simp_all add: readCompetitionRouteMode_def sample_store_def sample_keyed)
  then show ?thesis
    using p competition_mode_enforced [OF p(1)] by blast
qed

end
