(* ===== verification/Supervisor.thy ===== *)
theory Supervisor
  imports Agent_Loop Iteration
begin

text \<open>
  The trajectory analysis of a run, \<^verbatim>\<open>src/src/app/supervisor.ts\<close>: signals of a stalled, a failing or a circling run, computed from
  the event spine and the iteration records. A rationale is its kind and its numbers; its wording is not kept.
\<close>

section \<open>Analysis\<close>

datatype supervisor_signal =
    Stalled_horizon "instant option" instant "event_type option"
  | Repeated_failure string nat nat
  | Unproductive_cycle nat nat

record trajectory_observation =
  to_windowEvents :: nat
  to_eventCount :: nat
  to_msSinceLastEvent :: int
  to_distinctFailureSignatures :: nat
  to_dominant :: "(string \<times> nat) option"
  to_signals :: "supervisor_signal list"

definition MAX_SAFE_INTEGER :: int where
  "MAX_SAFE_INTEGER = 9007199254740991"

definition DEFAULT_QUIET_WINDOW_MS :: int where
  "DEFAULT_QUIET_WINDOW_MS = 30 * 60000"

definition REPEATED_FAILURE_THRESHOLD :: nat where
  "REPEATED_FAILURE_THRESHOLD = 3"

definition CYCLE_ACTIVITY_FLOOR :: nat where
  "CYCLE_ACTIVITY_FLOOR = 3"

definition failureSignature :: "json \<Rightarrow> string option \<Rightarrow> string" where
  "failureSignature detail stage =
     (let raw = (case jstr ''error'' detail of Some e \<Rightarrow> e | None \<Rightarrow> []);
          normalized = map to_lower (take 120 (trim (squeeze_spaces raw)))
      in (case stage of Some s \<Rightarrow> s | None \<Rightarrow> ''?'') @ ''::'' @ normalized)"

definition signature_of :: "event_row \<Rightarrow> string" where
  "signature_of e = failureSignature (case jget ''detail'' (er_payload e) of Some d \<Rightarrow> d | None \<Rightarrow> JObj []) (jstr ''stage'' (er_payload e))"

text \<open>The insertion-ordered map of counts, and the first entry with the greatest count.\<close>

fun count_signature :: "string \<Rightarrow> (string \<times> nat) list \<Rightarrow> (string \<times> nat) list" where
  "count_signature s [] = [(s, 1)]"
| "count_signature s ((t, n) # cs) = (if t = s then (t, Suc n) # cs else (t, n) # count_signature s cs)"

definition failure_counts :: "event_row list \<Rightarrow> (string \<times> nat) list" where
  "failure_counts es = foldl (\<lambda>cs e. if er_type e = E_stage_failed then count_signature (signature_of e) cs else cs) [] es"

definition dominant_of :: "(string \<times> nat) list \<Rightarrow> (string \<times> nat) option" where
  "dominant_of cs = foldl (\<lambda>d (s, n). case d of None \<Rightarrow> Some (s, n) | Some (_, m) \<Rightarrow> if m < n then Some (s, n) else d) None cs"

definition fingerprint_of :: "json \<Rightarrow> string option" where
  "fingerprint_of it = Option.bind (jget ''snapshot'' it) (jstr ''fingerprint'')"

definition stalled_signals :: "instant \<Rightarrow> instant \<Rightarrow> event_row list \<Rightarrow> supervisor_signal list" where
  "stalled_signals nowMs quietWindowMs es =
     (case at_last es of
        None \<Rightarrow> [Stalled_horizon None quietWindowMs None]
      | Some e \<Rightarrow>
          let ms = max 0 (nowMs - er_at e) in
          if quietWindowMs < ms then [Stalled_horizon (Some ms) quietWindowMs (Some (er_type e))] else [])"

definition failure_signals :: "event_row list \<Rightarrow> supervisor_signal list" where
  "failure_signals es =
     (case dominant_of (failure_counts es) of
        Some (s, n) \<Rightarrow> if REPEATED_FAILURE_THRESHOLD \<le> n then [Repeated_failure s n (length (failure_counts es))] else []
      | None \<Rightarrow> [])"

definition cycle_signals :: "json list \<Rightarrow> bool \<Rightarrow> supervisor_signal list" where
  "cycle_signals iterations stalled =
     (let fps = card (fingerprint_of ` set iterations) in
      if CYCLE_ACTIVITY_FLOOR \<le> length iterations \<and> \<not> stalled \<and> fps \<le> 1 then [Unproductive_cycle (length iterations) fps] else [])"

definition analyzeTrajectory :: "store \<Rightarrow> id \<Rightarrow> instant \<Rightarrow> instant option \<Rightarrow> trajectory_observation" where
  "analyzeTrajectory db runId nowMs window =
     (let quietWindowMs = (case window of Some w \<Rightarrow> w | None \<Rightarrow> DEFAULT_QUIET_WINDOW_MS);
          es = run_events runId db;
          stalled = stalled_signals nowMs quietWindowMs es
      in \<lparr>to_windowEvents = length es, to_eventCount = length es,
          to_msSinceLastEvent = (case at_last es of Some e \<Rightarrow> max 0 (nowMs - er_at e) | None \<Rightarrow> MAX_SAFE_INTEGER),
          to_distinctFailureSignatures = length (failure_counts es),
          to_dominant = dominant_of (failure_counts es),
          to_signals = stalled @ failure_signals es @ cycle_signals (listObjects ''iteration'' runId db) (stalled \<noteq> [])\<rparr>)"

section \<open>The signals say what the spine says\<close>

definition failures :: "event_row list \<Rightarrow> string list" where
  "failures es = map signature_of (filter (\<lambda>e. er_type e = E_stage_failed) es)"

lemma count_signature_map_of:
  "map_of (count_signature s cs) = (map_of cs)(s \<mapsto> (case map_of cs s of None \<Rightarrow> 1 | Some n \<Rightarrow> Suc n))"
  by (induction s cs rule: count_signature.induct) (auto simp: fun_eq_iff)

lemma count_signature_keys: "set (map fst (count_signature s cs)) = insert s (set (map fst cs))"
  by (induction s cs rule: count_signature.induct) auto

lemma count_signature_distinct: "distinct (map fst cs) \<Longrightarrow> distinct (map fst (count_signature s cs))"
  using count_signature_keys by (induction s cs rule: count_signature.induct) auto

lemma failure_counts_snoc:
  "failure_counts (es @ [e]) = (if er_type e = E_stage_failed then count_signature (signature_of e) (failure_counts es) else failure_counts es)"
  by (simp add: failure_counts_def)

lemma failure_counts_distinct: "distinct (map fst (failure_counts es))"
  by (induction es rule: rev_induct) (simp_all add: failure_counts_snoc count_signature_distinct, simp add: failure_counts_def)

lemma failure_counts_map_of:
  "map_of (failure_counts es) s = (let n = count_list (failures es) s in if n = 0 then None else Some n)"
proof (induction es rule: rev_induct)
  case (snoc e es)
  then show ?case
    by (auto simp: failure_counts_snoc count_signature_map_of failures_def Let_def split: if_splits)
qed (simp add: failure_counts_def failures_def)

lemma failure_counts_member: "(s, n) \<in> set (failure_counts es) \<longleftrightarrow> 0 < n \<and> count_list (failures es) s = n"
  using failure_counts_map_of [of es s] map_of_eq_Some_iff [OF failure_counts_distinct, of es s n] by (auto simp: Let_def split: if_splits)

lemma dominant_fold:
  fixes cs :: "(string \<times> nat) list"
  shows "foldl (\<lambda>d (s, n). case d of None \<Rightarrow> Some (s, n) | Some (_, m) \<Rightarrow> if m < n then Some (s, n) else d) (Some (s, m)) cs = Some (t, k) \<Longrightarrow>
   ((t, k) = (s, m) \<or> (t, k) \<in> set cs) \<and> m \<le> k \<and> (\<forall>(u, n)\<in>set cs. n \<le> k)"
proof (induction cs arbitrary: s m)
  case (Cons c cs)
  obtain u n where c: "c = (u, n)"
    by (cases c)
  show ?case
    using Cons.IH [of u n] Cons.IH [of s m] Cons.prems by (auto simp: c split: if_splits)
qed simp

lemma dominant_greatest: "dominant_of cs = Some (t, k) \<Longrightarrow> (t, k) \<in> set cs \<and> (\<forall>(u, n)\<in>set cs. n \<le> k)"
proof (cases cs)
  case (Cons c cs')
  assume "dominant_of cs = Some (t, k)"
  then show ?thesis
    using dominant_fold [of "fst c" "snd c" cs' t k] Cons by (auto simp: dominant_of_def split_beta)
qed (simp add: dominant_of_def)

lemma dominant_exists: "cs \<noteq> [] \<Longrightarrow> \<exists>t k. dominant_of cs = Some (t, k)"
proof -
  have "foldl (\<lambda>d (s, n). case d of None \<Rightarrow> Some (s, n) | Some (_, m) \<Rightarrow> if m < n then Some (s, n) else d) (Some x) cs \<noteq> None" for x and cs :: "(string \<times> nat) list"
    by (induction cs arbitrary: x) (auto split: prod.splits)
  then show "cs \<noteq> [] \<Longrightarrow> \<exists>t k. dominant_of cs = Some (t, k)"
    by (cases cs) (auto simp: dominant_of_def)
qed

text \<open>When a run counts as stalled, as failing repeatedly and as circling.\<close>

definition quiet :: "instant \<Rightarrow> instant \<Rightarrow> event_row list \<Rightarrow> bool" where
  "quiet nowMs w es \<longleftrightarrow> es = [] \<or> w < max 0 (nowMs - er_at (last es))"

definition circling :: "json list \<Rightarrow> bool" where
  "circling its \<longleftrightarrow> 3 \<le> length its \<and> (\<forall>a\<in>set its. \<forall>b\<in>set its. fingerprint_of a = fingerprint_of b)"

lemma stalled_iff: "stalled_signals nowMs w es \<noteq> [] \<longleftrightarrow> quiet nowMs w es"
  by (auto simp: stalled_signals_def quiet_def at_last_def Let_def)

lemma stalled_kind: "x \<in> set (stalled_signals nowMs w es) \<Longrightarrow> \<exists>a b c. x = Stalled_horizon a b c"
  by (auto simp: stalled_signals_def Let_def split: option.splits if_splits)

lemma failure_iff:
  "Repeated_failure s n d \<in> set (failure_signals es) \<longleftrightarrow> dominant_of (failure_counts es) = Some (s, n) \<and> 3 \<le> n \<and> d = length (failure_counts es)"
  by (auto simp: failure_signals_def REPEATED_FAILURE_THRESHOLD_def split: option.splits)

lemma failure_kind: "x \<in> set (failure_signals es) \<Longrightarrow> \<exists>s n d. x = Repeated_failure s n d"
  by (auto simp: failure_signals_def split: option.splits if_splits)

lemma one_fingerprint: "card (fingerprint_of ` set its) \<le> 1 \<longleftrightarrow> (\<forall>a\<in>set its. \<forall>b\<in>set its. fingerprint_of a = fingerprint_of b)"
  by (auto simp: card_le_Suc0_iff_eq)

lemma cycle_iff: "cycle_signals its st \<noteq> [] \<longleftrightarrow> circling its \<and> \<not> st"
proof -
  have "cycle_signals its st \<noteq> [] \<longleftrightarrow> 3 \<le> length its \<and> \<not> st \<and> card (fingerprint_of ` set its) \<le> 1"
    by (simp add: cycle_signals_def Let_def CYCLE_ACTIVITY_FLOOR_def)
  then show ?thesis
    unfolding one_fingerprint circling_def by blast
qed

lemma cycle_kind: "x \<in> set (cycle_signals its st) \<Longrightarrow> \<exists>a b. x = Unproductive_cycle a b"
  by (auto simp: cycle_signals_def Let_def split: if_splits)

lemma failure_reported:
  "(\<exists>n d. Repeated_failure s n d \<in> set (failure_signals es)) \<Longrightarrow>
   3 \<le> count_list (failures es) s \<and> (\<forall>t. count_list (failures es) t \<le> count_list (failures es) s)"
proof -
  assume "\<exists>n d. Repeated_failure s n d \<in> set (failure_signals es)"
  then obtain n where n: "dominant_of (failure_counts es) = Some (s, n)" "3 \<le> n"
    by (auto simp: failure_iff)
  note top = dominant_greatest [OF n(1)]
  have s: "count_list (failures es) s = n"
    using top failure_counts_member by blast
  have "count_list (failures es) t \<le> n" for t
  proof (cases "count_list (failures es) t = 0")
    case False
    then have "(t, count_list (failures es) t) \<in> set (failure_counts es)"
      by (simp add: failure_counts_member)
    then show ?thesis
      using top by blast
  qed simp
  then show ?thesis
    using s n(2) by simp
qed

lemma failure_complete: "3 \<le> count_list (failures es) t \<Longrightarrow> failure_signals es \<noteq> []"
proof -
  assume t: "3 \<le> count_list (failures es) t"
  then have mem: "(t, count_list (failures es) t) \<in> set (failure_counts es)"
    by (simp add: failure_counts_member)
  then obtain s k where d: "dominant_of (failure_counts es) = Some (s, k)"
    using dominant_exists [of "failure_counts es"] by (metis empty_iff empty_set)
  then have "count_list (failures es) t \<le> k"
    using dominant_greatest [OF d] mem by blast
  then show ?thesis
    using t d by (simp add: failure_signals_def REPEATED_FAILURE_THRESHOLD_def)
qed

text \<open>C40. The supervisor's signals are exact: a run is reported stalled exactly when it has no events or the last one is older
  than the quiet window, failing exactly when some stage failed three times with the same normalized error, naming one
  that no other error exceeds, and circling exactly when three or more iterations all have one fingerprint and the run
  is not stalled. There is at most one signal of each kind.\<close>

theorem signals_exact:
  "let es = run_events runId db; its = listObjects ''iteration'' runId db; sigs = to_signals (analyzeTrajectory db runId nowMs (Some w)) in
    ((\<exists>a b c. Stalled_horizon a b c \<in> set sigs) \<longleftrightarrow> quiet nowMs w es) \<and>
    ((\<exists>s n d. Repeated_failure s n d \<in> set sigs) \<longleftrightarrow> (\<exists>t. 3 \<le> count_list (failures es) t)) \<and>
    ((\<exists>a b. Unproductive_cycle a b \<in> set sigs) \<longleftrightarrow> circling its \<and> \<not> quiet nowMs w es) \<and> length sigs \<le> 3 \<and>
    {s. \<exists>n d. Repeated_failure s n d \<in> set sigs} \<subseteq> {s. \<forall>t. count_list (failures es) t \<le> count_list (failures es) s}"
proof -
  let ?es = "run_events runId db" and ?its = "listObjects ''iteration'' runId db"
  let ?st = "stalled_signals nowMs w ?es"
  let ?sigs = "?st @ failure_signals ?es @ cycle_signals ?its (?st \<noteq> [])"
  have sigs: "to_signals (analyzeTrajectory db runId nowMs (Some w)) = ?sigs"
    by (simp add: analyzeTrajectory_def Let_def)
  have stalled: "(\<exists>a b c. Stalled_horizon a b c \<in> set ?sigs) \<longleftrightarrow> ?st \<noteq> []"
    using stalled_kind [of _ nowMs w ?es] failure_kind [of _ ?es] cycle_kind [of _ ?its "?st \<noteq> []"] by (cases ?st) fastforce+
  have failing: "Repeated_failure s n d \<in> set ?sigs \<longleftrightarrow> Repeated_failure s n d \<in> set (failure_signals ?es)" for s n d
    using stalled_kind [of "Repeated_failure s n d" nowMs w ?es] cycle_kind [of "Repeated_failure s n d" ?its "?st \<noteq> []"] by auto
  have some_failing: "(\<exists>s n d. Repeated_failure s n d \<in> set ?sigs) \<longleftrightarrow> (\<exists>t. 3 \<le> count_list (failures ?es) t)"
    unfolding failing using failure_reported [of _ ?es] failure_complete [of ?es] failure_kind [of _ ?es]
    by (metis list.set_intros(1) neq_Nil_conv)
  have cycling: "(\<exists>a b. Unproductive_cycle a b \<in> set ?sigs) \<longleftrightarrow> cycle_signals ?its (?st \<noteq> []) \<noteq> []"
    using stalled_kind [of _ nowMs w ?es] failure_kind [of _ ?es] cycle_kind [of _ ?its "?st \<noteq> []"]
    by (cases "cycle_signals ?its (?st \<noteq> [])") fastforce+
  have "length ?st \<le> 1" "length (failure_signals ?es) \<le> 1" "length (cycle_signals ?its (?st \<noteq> [])) \<le> 1"
    by (simp_all add: stalled_signals_def failure_signals_def cycle_signals_def Let_def split: option.split)
  then have few: "length ?sigs \<le> 3"
    unfolding length_append by linarith
  have top: "{s. \<exists>n d. Repeated_failure s n d \<in> set ?sigs} \<subseteq> {s. \<forall>t. count_list (failures ?es) t \<le> count_list (failures ?es) s}"
    unfolding failing using failure_reported [of _ ?es] by blast
  show ?thesis
    unfolding Let_def sigs using stalled some_failing cycling few top by (simp only: stalled_iff cycle_iff simp_thms)
qed

end
