(* ===== verification/Zip.thy ===== *)
theory Zip
  imports Main "HOL-Library.Word"
begin

unbundle bit_operations_syntax

text \<open>
  The archive writer of package downloads, \<^verbatim>\<open>src/src/server/zip.ts\<close>: the table-driven CRC-32 over 32-bit words, the
  headers in little-endian bytes, and the reader. A buffer is a list of bytes, a name its UTF-8 bytes. The compressor of
  the platform is an argument. Writing a number that does not fit its field throws, which is \<^const>\<open>None\<close>.
\<close>

section \<open>Checksum\<close>

type_synonym buffer = "8 word list"

definition crc_step :: "32 word \<Rightarrow> 32 word" where
  "crc_step c = (if c AND 1 \<noteq> 0 then 0xedb88320 XOR drop_bit 1 c else drop_bit 1 c)"

definition CRC_TABLE :: "32 word list" where
  "CRC_TABLE = map (\<lambda>n. (crc_step ^^ 8) (of_nat n)) [0..<256]"

definition crc_byte :: "8 word \<Rightarrow> 32 word \<Rightarrow> 32 word" where
  "crc_byte b c = CRC_TABLE ! unat ((c XOR ucast b) AND 0xff) XOR drop_bit 8 c"

definition crc32 :: "buffer \<Rightarrow> 32 word" where
  "crc32 buf = fold crc_byte buf 0xffffffff XOR 0xffffffff"

text \<open>The reference: the polynomial applied bit by bit to the register, a byte at a time.\<close>

definition crc_bitwise :: "buffer \<Rightarrow> 32 word" where
  "crc_bitwise buf = fold (\<lambda>b c. (crc_step ^^ 8) (c XOR ucast b)) buf 0xffffffff XOR 0xffffffff"

section \<open>Archive\<close>

record zip_entry =
  ze_name :: buffer
  ze_content :: buffer

definition u16 :: "nat \<Rightarrow> buffer" where
  "u16 n = [of_nat n, of_nat (n div 256)]"

definition u32 :: "nat \<Rightarrow> buffer" where
  "u32 n = [of_nat n, of_nat (n div 256), of_nat (n div 65536), of_nat (n div 16777216)]"

definition DOS_TIME :: "nat \<times> nat" where
  "DOS_TIME = (0, unat (push_bit 9 (2026 - 1980) OR push_bit 5 1 OR 1 :: 32 word))"

definition useDeflate :: "(buffer \<Rightarrow> buffer) \<Rightarrow> zip_entry \<Rightarrow> bool" where
  "useDeflate deflate e \<longleftrightarrow> length (deflate (ze_content e)) < length (ze_content e)"

definition zip_method :: "(buffer \<Rightarrow> buffer) \<Rightarrow> zip_entry \<Rightarrow> nat" where
  "zip_method deflate e = (if useDeflate deflate e then 8 else 0)"

definition zip_payload :: "(buffer \<Rightarrow> buffer) \<Rightarrow> zip_entry \<Rightarrow> buffer" where
  "zip_payload deflate e = (if useDeflate deflate e then deflate (ze_content e) else ze_content e)"

definition local_header :: "(buffer \<Rightarrow> buffer) \<Rightarrow> zip_entry \<Rightarrow> buffer" where
  "local_header deflate e =
     u32 0x04034b50 @ u16 20 @ u16 0x0800 @ u16 (zip_method deflate e) @ u16 (fst DOS_TIME) @ u16 (snd DOS_TIME) @
     u32 (unat (crc32 (ze_content e))) @ u32 (length (zip_payload deflate e)) @ u32 (length (ze_content e)) @ u16 (length (ze_name e)) @ u16 0"

definition central_header :: "(buffer \<Rightarrow> buffer) \<Rightarrow> zip_entry \<Rightarrow> nat \<Rightarrow> buffer" where
  "central_header deflate e offset =
     u32 0x02014b50 @ u16 20 @ u16 20 @ u16 0x0800 @ u16 (zip_method deflate e) @ u16 (fst DOS_TIME) @ u16 (snd DOS_TIME) @
     u32 (unat (crc32 (ze_content e))) @ u32 (length (zip_payload deflate e)) @ u32 (length (ze_content e)) @ u16 (length (ze_name e)) @
     replicate 12 0 @ u32 offset"

text \<open>One pass over the entries: the chunks, the central directory and the offset of the next entry.\<close>

definition entry_fits :: "(buffer \<Rightarrow> buffer) \<Rightarrow> zip_entry \<Rightarrow> nat \<Rightarrow> bool" where
  "entry_fits deflate e offset \<longleftrightarrow> length (zip_payload deflate e) < 2 ^ 32 \<and> length (ze_content e) < 2 ^ 32 \<and> length (ze_name e) < 2 ^ 16 \<and> offset < 2 ^ 32"

fun write_entries :: "(buffer \<Rightarrow> buffer) \<Rightarrow> zip_entry list \<Rightarrow> buffer \<times> buffer \<times> nat \<Rightarrow> (buffer \<times> buffer \<times> nat) option" where
  "write_entries deflate [] acc = Some acc"
| "write_entries deflate (e # es) (chunks, central, offset) =
     (if entry_fits deflate e offset
      then write_entries deflate es (chunks @ local_header deflate e @ ze_name e @ zip_payload deflate e, central @ central_header deflate e offset @ ze_name e,
        offset + length (local_header deflate e) + length (ze_name e) + length (zip_payload deflate e))
      else None)"

definition end_record :: "nat \<Rightarrow> nat \<Rightarrow> nat \<Rightarrow> buffer" where
  "end_record n bytes offset = u32 0x06054b50 @ replicate 4 0 @ u16 n @ u16 n @ u32 bytes @ u32 offset @ replicate 2 0"

definition buildZip :: "(buffer \<Rightarrow> buffer) \<Rightarrow> zip_entry list \<Rightarrow> buffer option" where
  "buildZip deflate es =
     (case write_entries deflate es ([], [], 0) of
        None \<Rightarrow> None
      | Some (chunks, central, offset) \<Rightarrow>
          if length es < 2 ^ 16 \<and> length central < 2 ^ 32 \<and> offset < 2 ^ 32 then Some (chunks @ central @ end_record (length es) (length central) offset) else None)"

record zip_item =
  zi_name :: buffer
  zi_method :: nat
  zi_raw :: buffer
  zi_crc :: nat
  zi_size :: nat

definition read16 :: "buffer \<Rightarrow> nat \<Rightarrow> nat" where
  "read16 z i = unat (z ! i) + 256 * unat (z ! Suc i)"

definition read32 :: "buffer \<Rightarrow> nat \<Rightarrow> nat" where
  "read32 z i = unat (z ! i) + 256 * unat (z ! (i + 1)) + 65536 * unat (z ! (i + 2)) + 16777216 * unat (z ! (i + 3))"

text \<open>The reader, from the bytes that are left; reading a number past the end throws.\<close>

function readZipEntries :: "buffer \<Rightarrow> zip_item list option" where
  "readZipEntries z =
     (if 4 \<le> length z \<and> read32 z 0 = 0x04034b50
      then if length z < 30 then None
      else let rawStart = 30 + read16 z 26 + read16 z 28;
               item = \<lparr>zi_name = take (read16 z 26) (drop 30 z), zi_method = read16 z 8, zi_raw = take (read32 z 18) (drop rawStart z),
                       zi_crc = read32 z 14, zi_size = read32 z 22\<rparr> in
        map_option (Cons item) (readZipEntries (drop (rawStart + read32 z 18) z))
      else Some [])"
  by pat_completeness auto

termination
  by (relation "measure length") auto

declare readZipEntries.simps [simp del]

section \<open>The table is the polynomial\<close>

lemma crc_step_bit: "crc_step c = (if bit c 0 then 0xedb88320 XOR drop_bit 1 c else drop_bit 1 c)"
  by (simp add: crc_step_def and_one_eq odd_iff_mod_2_eq_one [symmetric] bit_0)

lemma crc_step_xor: "crc_step (a XOR b) = crc_step a XOR crc_step b"
  by (cases "bit a 0"; cases "bit b 0")
    (simp_all add: crc_step_bit bit_xor_iff drop_bit_xor xor.left_commute xor.commute xor.assoc)

lemma crc_steps_xor: "(crc_step ^^ k) (a XOR b) = (crc_step ^^ k) a XOR (crc_step ^^ k) b"
  by (induction k arbitrary: a b) (simp_all add: crc_step_xor)

text \<open>As long as the low bits are zero the register only shifts.\<close>

lemma crc_steps_shift: "(\<And>i. i < k \<Longrightarrow> \<not> bit x i) \<Longrightarrow> (crc_step ^^ k) x = drop_bit k x"
proof (induction k)
  case (Suc k)
  have "(crc_step ^^ k) x = drop_bit k x"
    using Suc by simp
  moreover have "\<not> bit (drop_bit k x) 0"
    using Suc.prems [of k] by (simp add: bit_drop_bit_eq)
  ultimately show ?case
    by (simp add: crc_step_bit [of "drop_bit k x"])
qed simp

lemma low_byte: "(0xff :: 32 word) = mask 8"
  by (simp add: mask_eq_exp_minus_1)

lemma crc_table_entry: "CRC_TABLE ! unat (x AND 0xff) = (crc_step ^^ 8) (x AND 0xff)"
proof -
  have "unat (x AND 0xff) < 256"
    using take_bit_nat_less_exp [of 8 "unat x"]
    by (simp add: low_byte take_bit_eq_mask [symmetric] unsigned_take_bit_eq del: take_bit_nat_less_exp)
  then show ?thesis
    by (simp add: CRC_TABLE_def)
qed

lemma crc_byte_steps: "crc_byte b c = (crc_step ^^ 8) (c XOR ucast b)"
proof -
  let ?x = "c XOR ucast b" and ?m = "mask 8 :: 32 word"
  have split: "?x = (?x AND ?m) XOR (?x AND NOT ?m)"
    by (rule bit_word_eqI) (auto simp: bit_simps)
  have high: "drop_bit 8 (?x AND NOT ?m) = drop_bit 8 c"
    by (rule bit_word_eqI) (auto simp: bit_simps dest: bit_imp_le_length)
  have "(crc_step ^^ 8) ?x = (crc_step ^^ 8) (?x AND ?m) XOR drop_bit 8 (?x AND NOT ?m)"
    by (subst split) (simp add: crc_steps_xor crc_steps_shift bit_simps)
  then show ?thesis
    unfolding high crc_byte_def low_byte crc_table_entry [unfolded low_byte] by (rule sym)
qed

text \<open>The table-driven checksum is the CRC-32 of the polynomial, computed bit by bit, of every buffer.\<close>

theorem crc32_is_bitwise: "crc32 buf = crc_bitwise buf"
proof -
  have "crc_byte = (\<lambda>b c. (crc_step ^^ 8) (c XOR ucast b))"
    by (intro ext) (rule crc_byte_steps)
  then show ?thesis
    by (simp add: crc32_def crc_bitwise_def)
qed

section \<open>Corruption\<close>

lemma xor_cancel: "a XOR c = b XOR c \<Longrightarrow> a = b" for a b c :: "'a::len word"
  by (drule arg_cong [of _ _ "\<lambda>w. w XOR c"]) (simp add: xor.assoc)

lemma crc_step_inj: "crc_step a = crc_step b \<Longrightarrow> a = b"
proof -
  assume eq: "crc_step a = crc_step b"
  have top: "bit (crc_step x) 31 = bit x 0" for x
    by (auto simp: crc_step_bit bit_simps dest: bit_imp_le_length)
  have b0: "bit a 0 = bit b 0"
    using top [of a] top [of b] eq by simp
  then have d: "drop_bit 1 a = drop_bit 1 b"
    using eq by (cases "bit a 0") (auto simp: crc_step_bit xor.commute [of "0xedb88320"] dest: xor_cancel)
  show "a = b"
  proof (rule bit_word_eqI)
    fix n
    show "bit a n = bit b n"
      using b0 arg_cong [OF d, of "\<lambda>w. bit w (n - 1)"] by (cases n) (simp_all add: bit_simps)
  qed
qed

lemma crc_steps_inj: "(crc_step ^^ k) a = (crc_step ^^ k) b \<Longrightarrow> a = b"
  by (induction k) (auto dest: crc_step_inj)

lemma crc_fold_inj: "fold crc_byte buf a = fold crc_byte buf b \<Longrightarrow> a = b"
proof (induction buf arbitrary: a b)
  case (Cons x buf)
  then have "crc_byte x a = crc_byte x b"
    by simp
  then show ?case
    unfolding crc_byte_steps by (rule xor_cancel [OF crc_steps_inj])
qed simp

text \<open>The checksum detects corruption of a byte: two contents that differ in exactly one byte have different
  checksums.\<close>

theorem crc32_detects_byte_corruption:
  assumes "i < length buf" "b \<noteq> buf ! i"
  shows "crc32 (buf[i := b]) \<noteq> crc32 buf"
proof
  assume eq: "crc32 (buf[i := b]) = crc32 buf"
  let ?pre = "take i buf" and ?post = "drop (Suc i) buf" and ?c = "fold crc_byte (take i buf) 0xffffffff"
  have "fold crc_byte (buf[i := b]) 0xffffffff = fold crc_byte buf 0xffffffff"
    using eq unfolding crc32_def by (rule xor_cancel)
  moreover have "fold crc_byte (buf[i := b]) 0xffffffff = fold crc_byte ?post (crc_byte b ?c)"
    using assms(1) by (simp add: upd_conv_take_nth_drop)
  moreover have "fold crc_byte buf 0xffffffff = fold crc_byte ?post (crc_byte (buf ! i) ?c)"
    by (subst id_take_nth_drop [OF assms(1)]) simp
  ultimately have "crc_byte b ?c = crc_byte (buf ! i) ?c"
    using crc_fold_inj by metis
  then have "?c XOR ucast b = ?c XOR ucast (buf ! i)"
    unfolding crc_byte_steps by (rule crc_steps_inj)
  then have same: "ucast b = (ucast (buf ! i) :: 32 word)"
    unfolding xor.commute [of ?c] by (rule xor_cancel)
  have "bit b n = bit (buf ! i) n" if "n < 8" for n
    using that arg_cong [OF same, of "\<lambda>w. bit w n"] by (simp add: bit_simps)
  then show False
    using assms(2) bit_word_eqI [of b "buf ! i"] by simp
qed

theorem crc32_detects_byte_corruption_witness: "crc32 ([1, 2, 3][1 := 7]) \<noteq> crc32 [1, 2, 3]"
  by (rule crc32_detects_byte_corruption) simp_all

section \<open>Reading back what was written\<close>

lemma u_lengths [simp]: "length (u16 n) = 2" "length (u32 n) = 4"
  by (simp_all add: u16_def u32_def)

lemma local_header_length [simp]: "length (local_header deflate e) = 30"
  by (simp add: local_header_def)

lemma byte_val: "unat (of_nat n :: 8 word) = n mod 256"
  by (simp add: unat_of_nat)

lemma read16_u16: "n < 2 ^ 16 \<Longrightarrow> length pre = i \<Longrightarrow> read16 (pre @ u16 n @ post) i = n"
  by (auto simp: read16_def u16_def nth_append byte_val)

lemma read32_u32: "n < 2 ^ 32 \<Longrightarrow> length pre = i \<Longrightarrow> read32 (pre @ u32 n @ post) i = n"
proof -
  assume n: "n < 2 ^ 32" "length pre = i"
  have "read32 (pre @ u32 n @ post) i = n mod 256 + 256 * (n div 256 mod 256) + 65536 * (n div 65536 mod 256) + 16777216 * (n div 16777216 mod 256)"
    using n(2) by (simp add: read32_def u32_def nth_append byte_val)
  also have "\<dots> = n"
  proof -
    have "n div 65536 = n div 256 div 256" "n div 16777216 = n div 256 div 256 div 256" "n div 256 div 256 div 256 < 256"
      using n(1) by (simp_all add: div_mult2_eq [symmetric] less_mult_imp_div_less)
    then show ?thesis
      using mod_mult_div_eq [of n 256] mod_mult_div_eq [of "n div 256" 256] mod_mult_div_eq [of "n div 256 div 256" 256]
      by (simp only: mod_less)
  qed
  finally show ?thesis .
qed

text \<open>The item that an entry becomes.\<close>

definition item_of :: "(buffer \<Rightarrow> buffer) \<Rightarrow> zip_entry \<Rightarrow> zip_item" where
  "item_of deflate e = \<lparr>zi_name = ze_name e, zi_method = zip_method deflate e, zi_raw = zip_payload deflate e,
     zi_crc = unat (crc32 (ze_content e)), zi_size = length (ze_content e)\<rparr>"

lemma crc_fits: "unat (c :: 32 word) < 2 ^ 32"
  using unsigned_less [of c] by simp

lemma local_header_fields:
  assumes "entry_fits deflate e offset"
  shows "read32 (local_header deflate e @ rest) 0 = 0x04034b50" "read16 (local_header deflate e @ rest) 8 = zip_method deflate e"
    "read32 (local_header deflate e @ rest) 14 = unat (crc32 (ze_content e))" "read32 (local_header deflate e @ rest) 18 = length (zip_payload deflate e)"
    "read32 (local_header deflate e @ rest) 22 = length (ze_content e)" "read16 (local_header deflate e @ rest) 26 = length (ze_name e)"
    "read16 (local_header deflate e @ rest) 28 = 0"
proof -
  let ?h = "u32 0x04034b50 @ u16 20 @ u16 0x0800 @ u16 (zip_method deflate e) @ u16 (fst DOS_TIME) @ u16 (snd DOS_TIME)"
  let ?crc = "u32 (unat (crc32 (ze_content e)))" and ?p = "u32 (length (zip_payload deflate e))" and ?c = "u32 (length (ze_content e))" and ?n = "u16 (length (ze_name e))"
  note f = assms [unfolded entry_fits_def]
  show "read32 (local_header deflate e @ rest) 0 = 0x04034b50"
    using read32_u32 [of "0x04034b50" "[]" 0] by (simp add: local_header_def)
  show "read16 (local_header deflate e @ rest) 8 = zip_method deflate e"
    using read16_u16 [of "zip_method deflate e" "u32 0x04034b50 @ u16 20 @ u16 0x0800" 8] by (simp add: local_header_def zip_method_def)
  show "read32 (local_header deflate e @ rest) 14 = unat (crc32 (ze_content e))"
    using read32_u32 [of "unat (crc32 (ze_content e))" ?h 14] crc_fits by (simp add: local_header_def)
  show "read32 (local_header deflate e @ rest) 18 = length (zip_payload deflate e)"
    using read32_u32 [of "length (zip_payload deflate e)" "?h @ ?crc" 18] f by (simp add: local_header_def)
  show "read32 (local_header deflate e @ rest) 22 = length (ze_content e)"
    using read32_u32 [of "length (ze_content e)" "?h @ ?crc @ ?p" 22] f by (simp add: local_header_def)
  show "read16 (local_header deflate e @ rest) 26 = length (ze_name e)"
    using read16_u16 [of "length (ze_name e)" "?h @ ?crc @ ?p @ ?c" 26] f by (simp add: local_header_def)
  show "read16 (local_header deflate e @ rest) 28 = 0"
    using read16_u16 [of 0 "?h @ ?crc @ ?p @ ?c @ ?n" 28] by (simp add: local_header_def)
qed

lemma read_entry:
  assumes "entry_fits deflate e offset"
  shows "readZipEntries (local_header deflate e @ ze_name e @ zip_payload deflate e @ rest) = map_option (Cons (item_of deflate e)) (readZipEntries rest)"
  by (subst readZipEntries.simps) (simp add: local_header_fields [OF assms] item_of_def Let_def)

lemma write_entries_chunks:
  "write_entries deflate es (chunks, central, offset) = Some (chunks', central', offset') \<Longrightarrow>
   \<exists>body. chunks' = chunks @ body \<and> (\<forall>rest. readZipEntries (body @ rest) = map_option ((@) (map (item_of deflate) es)) (readZipEntries rest))"
proof (induction es arbitrary: chunks central offset)
  case (Cons e es)
  let ?b = "local_header deflate e @ ze_name e @ zip_payload deflate e"
  have fits: "entry_fits deflate e offset"
    using Cons.prems by (simp split: if_splits)
  have "write_entries deflate es (chunks @ ?b, central @ central_header deflate e offset @ ze_name e,
      offset + 30 + length (ze_name e) + length (zip_payload deflate e)) = Some (chunks', central', offset')"
    using Cons.prems fits by simp
  from Cons.IH [OF this] obtain body where body: "chunks' = (chunks @ ?b) @ body"
      "\<And>rest. readZipEntries (body @ rest) = map_option ((@) (map (item_of deflate) es)) (readZipEntries rest)"
    by blast
  have "readZipEntries ((?b @ body) @ rest) = map_option ((@) (map (item_of deflate) (e # es))) (readZipEntries rest)" for rest
    using read_entry [OF fits, of "body @ rest"] by (cases "readZipEntries rest") (simp_all add: body(2))
  then show ?case
    using body(1) by (intro exI [of _ "?b @ body"] conjI allI) (simp, blast)
next
  case Nil
  have "((@) []) = (\<lambda>xs :: zip_item list. xs)"
    by (rule ext) simp
  then show ?case
    using Nil by (simp add: option.map_ident)
qed

lemma write_entries_central:
  "write_entries deflate es (chunks, central, offset) = Some (chunks', central', offset') \<Longrightarrow>
   \<exists>rest. central' = central @ rest \<and> (es = [] \<and> rest = [] \<or> (\<exists>rest'. rest = u32 0x02014b50 @ rest'))"
proof (induction es arbitrary: chunks central offset)
  case (Cons e es)
  have "write_entries deflate es (chunks @ local_header deflate e @ ze_name e @ zip_payload deflate e, central @ central_header deflate e offset @ ze_name e,
      offset + 30 + length (ze_name e) + length (zip_payload deflate e)) = Some (chunks', central', offset')"
    using Cons.prems by (simp split: if_splits)
  from Cons.IH [OF this] obtain rest where "central' = (central @ central_header deflate e offset @ ze_name e) @ rest"
    by blast
  then show ?case
    by (simp add: central_header_def)
qed simp

lemma no_local_header: "n < 2 ^ 32 \<Longrightarrow> n \<noteq> 0x04034b50 \<Longrightarrow> readZipEntries (u32 n @ rest) = Some []"
  using read32_u32 [of n "[]" 0 rest] by (subst readZipEntries.simps) simp

text \<open>An archive that was built reads back as its entries: with the names in order, the checksum and the size of the
  content, and as raw bytes and method either the content itself or, exactly when it is shorter, its compressed form.
  For a decompressor that undoes the compressor every entry's content is recovered.\<close>

theorem zip_roundtrip:
  assumes "buildZip deflate es = Some z" "\<And>x. inflate (deflate x) = x"
  shows "readZipEntries z = Some (map (item_of deflate) es) \<and>
    map (\<lambda>i. (zi_name i, if zi_method i = 8 then inflate (zi_raw i) else zi_raw i)) (map (item_of deflate) es) = map (\<lambda>e. (ze_name e, ze_content e)) es"
proof -
  obtain chunks central offset where w: "write_entries deflate es ([], [], 0) = Some (chunks, central, offset)"
      and z: "z = chunks @ central @ end_record (length es) (length central) offset"
    using assms(1) by (auto simp: buildZip_def split: option.splits if_splits)
  have last: "readZipEntries (central @ end_record n k m) = Some []" for n k m
    using write_entries_central [OF w] no_local_header by (auto simp: end_record_def)
  have "readZipEntries z = Some (map (item_of deflate) es)"
    using write_entries_chunks [OF w] by (auto simp: z last)
  then show ?thesis
    using assms(2) by (simp add: item_of_def zip_method_def zip_payload_def)
qed

theorem zip_roundtrip_witness:
  "let deflate = (\<lambda>x. if x = [7, 7, 7] then [1] else 0 # x); es = [\<lparr>ze_name = [97], ze_content = [7, 7, 7]\<rparr>, \<lparr>ze_name = [98], ze_content = [5]\<rparr>] in
   \<exists>z. buildZip deflate es = Some z \<and> readZipEntries z = Some (map (item_of deflate) es) \<and> map zi_method (map (item_of deflate) es) = [8, 0]"
proof -
  let ?deflate = "\<lambda>x :: buffer. if x = [7, 7, 7] then [1] else 0 # x"
  let ?es = "[\<lparr>ze_name = [97], ze_content = [7, 7, 7]\<rparr>, \<lparr>ze_name = [98], ze_content = [5]\<rparr>] :: zip_entry list"
  have "\<exists>z. buildZip ?deflate ?es = Some z"
    by (simp add: buildZip_def entry_fits_def zip_payload_def useDeflate_def central_header_def)
  then obtain z where z: "buildZip ?deflate ?es = Some z" ..
  have "(if ?deflate x = [1] then [7, 7, 7] else tl (?deflate x)) = x" for x
    by simp
  from zip_roundtrip [OF z, of "\<lambda>y. if y = [1] then [7, 7, 7] else tl y", OF this] z show ?thesis
    by (simp add: item_of_def zip_method_def useDeflate_def)
qed

section \<open>The headers of an entry in an archive\<close>

lemma read_shift: "read16 (pre @ x) (length pre + i) = read16 x i" "read32 (pre @ x) (length pre + i) = read32 x i"
proof -
  have "(pre @ x) ! (length pre + i + k) = x ! (i + k)" for k
    by (simp add: nth_append)
  note shift = this [of 0] this [of 1] this [of 2] this [of 3]
  show "read16 (pre @ x) (length pre + i) = read16 x i" "read32 (pre @ x) (length pre + i) = read32 x i"
    using shift by (simp_all add: read16_def read32_def)
qed

lemma central_header_length [simp]: "length (central_header deflate e offset) = 46"
  by (simp add: central_header_def)

lemma zeros: "replicate 12 (0 :: 8 word) = u16 0 @ u16 0 @ replicate 8 0"
proof -
  have "u16 0 = replicate 2 0"
    by (simp add: u16_def numeral_2_eq_2)
  then show ?thesis
    by (simp flip: replicate_add)
qed

lemma central_header_fields:
  assumes "entry_fits deflate e offset"
  shows "read32 (central_header deflate e offset @ rest) 0 = 0x02014b50" "read16 (central_header deflate e offset @ rest) 10 = zip_method deflate e"
    "read32 (central_header deflate e offset @ rest) 16 = unat (crc32 (ze_content e))" "read32 (central_header deflate e offset @ rest) 20 = length (zip_payload deflate e)"
    "read32 (central_header deflate e offset @ rest) 24 = length (ze_content e)" "read16 (central_header deflate e offset @ rest) 28 = length (ze_name e)"
    "read16 (central_header deflate e offset @ rest) 30 = 0" "read16 (central_header deflate e offset @ rest) 32 = 0"
    "read32 (central_header deflate e offset @ rest) 42 = offset"
proof -
  let ?h = "u32 0x02014b50 @ u16 20 @ u16 20 @ u16 0x0800 @ u16 (zip_method deflate e) @ u16 (fst DOS_TIME) @ u16 (snd DOS_TIME)"
  let ?crc = "u32 (unat (crc32 (ze_content e)))" and ?p = "u32 (length (zip_payload deflate e))" and ?c = "u32 (length (ze_content e))" and ?n = "u16 (length (ze_name e))"
  note f = assms [unfolded entry_fits_def]
  show "read32 (central_header deflate e offset @ rest) 0 = 0x02014b50"
    using read32_u32 [of "0x02014b50" "[]" 0] by (simp add: central_header_def)
  show "read16 (central_header deflate e offset @ rest) 10 = zip_method deflate e"
    using read16_u16 [of "zip_method deflate e" "u32 0x02014b50 @ u16 20 @ u16 20 @ u16 0x0800" 10] by (simp add: central_header_def zip_method_def)
  show "read32 (central_header deflate e offset @ rest) 16 = unat (crc32 (ze_content e))"
    using read32_u32 [of "unat (crc32 (ze_content e))" ?h 16] crc_fits by (simp add: central_header_def)
  show "read32 (central_header deflate e offset @ rest) 20 = length (zip_payload deflate e)"
    using read32_u32 [of "length (zip_payload deflate e)" "?h @ ?crc" 20] f by (simp add: central_header_def)
  show "read32 (central_header deflate e offset @ rest) 24 = length (ze_content e)"
    using read32_u32 [of "length (ze_content e)" "?h @ ?crc @ ?p" 24] f by (simp add: central_header_def)
  show "read16 (central_header deflate e offset @ rest) 28 = length (ze_name e)"
    using read16_u16 [of "length (ze_name e)" "?h @ ?crc @ ?p @ ?c" 28] f by (simp add: central_header_def)
  show "read16 (central_header deflate e offset @ rest) 30 = 0" "read16 (central_header deflate e offset @ rest) 32 = 0"
    using read16_u16 [of 0 "?h @ ?crc @ ?p @ ?c @ ?n" 30] read16_u16 [of 0 "?h @ ?crc @ ?p @ ?c @ ?n @ u16 0" 32]
    by (simp_all add: central_header_def zeros)
  show "read32 (central_header deflate e offset @ rest) 42 = offset"
    using read32_u32 [of offset "?h @ ?crc @ ?p @ ?c @ ?n @ replicate 12 0" 42] f by (simp add: central_header_def)
qed

lemma write_entries_extends:
  "write_entries deflate es (chunks, central, offset) = Some (chunks', central', offset') \<Longrightarrow>
   (\<exists>c d. chunks' = chunks @ c \<and> central' = central @ d) \<and> (offset = length chunks \<longrightarrow> offset' = length chunks')"
proof (induction es arbitrary: chunks central offset)
  case (Cons e es)
  have "write_entries deflate es (chunks @ local_header deflate e @ ze_name e @ zip_payload deflate e, central @ central_header deflate e offset @ ze_name e,
      offset + 30 + length (ze_name e) + length (zip_payload deflate e)) = Some (chunks', central', offset')"
    using Cons.prems by (simp split: if_splits)
  from Cons.IH [OF this] show ?case
    by auto
qed simp

lemma entry_reads:
  assumes fits: "entry_fits deflate e (length c0)"
    and z: "z = c0 @ local_header deflate e @ ze_name e @ zip_payload deflate e @ rest" "z = pre @ central_header deflate e (length c0) @ ze_name e @ post"
  shows "length pre + 46 \<le> length z" "length c0 + 30 \<le> length z"
    and "read32 z (length pre) = 0x02014b50" "read16 z (length pre + 10) = zip_method deflate e" "read32 z (length pre + 16) = unat (crc32 (ze_content e))"
    and "read32 z (length pre + 20) = length (zip_payload deflate e)" "read32 z (length pre + 24) = length (ze_content e)"
    and "read16 z (length pre + 28) = length (ze_name e)" "read16 z (length pre + 30) = 0" "read16 z (length pre + 32) = 0"
    and "read32 z (length pre + 42) = length c0"
    and "read32 z (length c0) = 0x04034b50" "read16 z (length c0 + 26) = length (ze_name e)" "read16 z (length c0 + 28) = 0"
    and "take (length (ze_name e)) (drop (length pre + 46) z) = ze_name e"
    and "take (length (zip_payload deflate e)) (drop (length c0 + 30 + length (ze_name e)) z) = zip_payload deflate e"
proof -
  let ?c = "central_header deflate e (length c0) @ ze_name e @ post" and ?l = "local_header deflate e @ ze_name e @ zip_payload deflate e @ rest"
  note c = central_header_fields [OF fits, of "ze_name e @ post"] and l = local_header_fields [OF fits, of "ze_name e @ zip_payload deflate e @ rest"]
  show "read32 z (length pre) = 0x02014b50" "read16 z (length pre + 10) = zip_method deflate e" "read32 z (length pre + 16) = unat (crc32 (ze_content e))"
    "read32 z (length pre + 20) = length (zip_payload deflate e)" "read32 z (length pre + 24) = length (ze_content e)"
    "read16 z (length pre + 28) = length (ze_name e)" "read16 z (length pre + 30) = 0" "read16 z (length pre + 32) = 0"
    "read32 z (length pre + 42) = length c0"
    using c read_shift [of pre ?c] read_shift(2) [of pre ?c 0] by (simp_all add: z(2))
  show "read32 z (length c0) = 0x04034b50" "read16 z (length c0 + 26) = length (ze_name e)" "read16 z (length c0 + 28) = 0"
    using l read_shift [of c0 ?l] read_shift(2) [of c0 ?l 0] by (simp_all add: z(1))
  show "length pre + 46 \<le> length z" "take (length (ze_name e)) (drop (length pre + 46) z) = ze_name e"
    by (simp_all add: z(2))
  show "length c0 + 30 \<le> length z" "take (length (zip_payload deflate e)) (drop (length c0 + 30 + length (ze_name e)) z) = zip_payload deflate e"
    by (simp_all add: z(1))
qed

lemma end_record_reads:
  assumes "n < 2 ^ 16" "offset < 2 ^ 32"
  shows "read32 (end_record n k offset) 0 = 0x06054b50" "read16 (end_record n k offset) 10 = n" "read32 (end_record n k offset) 16 = offset"
  using assms read32_u32 [of "0x06054b50" "[]" 0 "drop 4 (end_record n k offset)"] read16_u16 [of n "take 10 (end_record n k offset)" 10 "drop 12 (end_record n k offset)"]
    read32_u32 [of offset "take 16 (end_record n k offset)" 16 "drop 20 (end_record n k offset)"]
  by (simp_all add: end_record_def)

end
