(* ===== verification/Zip_Reader.thy ===== *)
theory Zip_Reader
  imports Zip "HOL-Library.AList"
begin

text \<open>
  The reader of zip containers for ingestion, \<^verbatim>\<open>src/src/ingest/zip.ts\<close>: the scan for the end record, the walk over the central
  directory with its caps, and the extraction of every entry. The decompressor (with its output limit) and the decoding of
  names are arguments. Every refusal is a value.
\<close>

section \<open>Reader\<close>

definition MAX_ENTRIES :: nat where
  "MAX_ENTRIES = 512"

definition MAX_UNCOMPRESSED_PER_ENTRY :: nat where
  "MAX_UNCOMPRESSED_PER_ENTRY = 64 * 1024 * 1024"

definition MAX_TOTAL_UNCOMPRESSED :: nat where
  "MAX_TOTAL_UNCOMPRESSED = 256 * 1024 * 1024"

datatype zip_error =
    Too_short | No_end_record | Too_many_entries nat | Directory_corrupt nat nat | Zip64
  | Entry_too_large string nat | Total_too_large | Local_header_corrupt string nat
  | Inflate_failed string string | Size_mismatch string nat nat | Unsupported_method string nat

type_synonym zip_entries = "(string \<times> buffer) list"

text \<open>The last end record that starts at most 65535 bytes before the last possible place.\<close>

definition find_end_record :: "buffer \<Rightarrow> nat option" where
  "find_end_record z =
     find (\<lambda>i. read32 z i = 0x06054b50) (rev [length z - 22 - 65535..<Suc (length z - 22)])"

definition zip_data :: "buffer \<Rightarrow> nat \<Rightarrow> nat \<Rightarrow> buffer" where
  "zip_data z lho csize = take csize (drop (lho + 30 + read16 z (lho + 26) + read16 z (lho + 28)) z)"

definition extract_entry :: "(nat \<Rightarrow> buffer \<Rightarrow> string + buffer) \<Rightarrow> nat \<Rightarrow> string \<Rightarrow> nat \<Rightarrow> buffer \<Rightarrow> zip_error + buffer" where
  "extract_entry inflate meth name usize data =
     (if meth = 0 then Inr data
      else if meth = 8 then
        (case inflate (MAX_UNCOMPRESSED_PER_ENTRY + 1) data of
           Inl m \<Rightarrow> Inl (Inflate_failed name m)
         | Inr out \<Rightarrow> if 0 < usize \<and> length out \<noteq> usize then Inl (Size_mismatch name (length out) usize) else Inr out)
      else Inl (Unsupported_method name meth))"

text \<open>One step of the walk: the name and content of the entry at a place of the directory, its declared size and the next place.\<close>

definition directory_entry ::
  "(nat \<Rightarrow> buffer \<Rightarrow> string + buffer) \<Rightarrow> (buffer \<Rightarrow> string) \<Rightarrow> buffer \<Rightarrow> nat \<Rightarrow> nat \<Rightarrow> nat \<Rightarrow> zip_error + (string \<times> buffer) \<times> nat \<times> nat" where
  "directory_entry inflate decode z n sofar p =
     (if length z < p + 46 \<or> read32 z p \<noteq> 0x02014b50 then Inl (Directory_corrupt n p)
      else let meth = read16 z (p + 10); csize = read32 z (p + 20); usize = read32 z (p + 24); nlen = read16 z (p + 28);
               elen = read16 z (p + 30); clen = read16 z (p + 32); lho = read32 z (p + 42) in
        if csize = 0xFFFFFFFF \<or> usize = 0xFFFFFFFF \<or> lho = 0xFFFFFFFF then Inl Zip64
        else let name = decode (take nlen (drop (p + 46) z)) in
          if MAX_UNCOMPRESSED_PER_ENTRY < usize then Inl (Entry_too_large name usize)
          else if MAX_TOTAL_UNCOMPRESSED < sofar + usize then Inl Total_too_large
          else if length z < lho + 30 \<or> read32 z lho \<noteq> 0x04034b50 then Inl (Local_header_corrupt name lho)
          else case extract_entry inflate meth name usize (zip_data z lho csize) of
            Inl err \<Rightarrow> Inl err
          | Inr out \<Rightarrow> Inr ((name, out), usize, p + 46 + nlen + elen + clen))"

primrec read_directory ::
  "(nat \<Rightarrow> buffer \<Rightarrow> string + buffer) \<Rightarrow> (buffer \<Rightarrow> string) \<Rightarrow> buffer \<Rightarrow> nat \<Rightarrow> nat \<Rightarrow> nat \<Rightarrow> nat \<Rightarrow> zip_entries \<Rightarrow> zip_error + zip_entries" where
  "read_directory inflate decode z 0 n sofar p entries = Inr entries"
| "read_directory inflate decode z (Suc k) n sofar p entries =
     (case directory_entry inflate decode z n sofar p of
        Inl err \<Rightarrow> Inl err
      | Inr ((name, out), usize, p') \<Rightarrow> read_directory inflate decode z k (Suc n) (sofar + usize) p' (AList.update name out entries))"

definition readZip :: "(nat \<Rightarrow> buffer \<Rightarrow> string + buffer) \<Rightarrow> (buffer \<Rightarrow> string) \<Rightarrow> buffer \<Rightarrow> zip_error + zip_entries" where
  "readZip inflate decode z =
     (if length z < 22 then Inl Too_short
      else case find_end_record z of
        None \<Rightarrow> Inl No_end_record
      | Some e \<Rightarrow>
          if MAX_ENTRIES < read16 z (e + 10) then Inl (Too_many_entries (read16 z (e + 10)))
          else read_directory inflate decode z (read16 z (e + 10)) 0 0 (read32 z (e + 16)) [])"

section \<open>Packages are readable\<close>

text \<open>What a platform promises of its compressor and decompressor: inflating what was deflated gives the content, as long as
  the content is within the limit, and no inflation exceeds its limit.\<close>

definition codec :: "(buffer \<Rightarrow> buffer) \<Rightarrow> (nat \<Rightarrow> buffer \<Rightarrow> string + buffer) \<Rightarrow> bool" where
  "codec deflate inflate \<longleftrightarrow> (\<forall>limit x. length x \<le> limit \<longrightarrow> inflate limit (deflate x) = Inr x) \<and>
     (\<forall>limit x y. inflate limit x = Inr y \<longrightarrow> length y \<le> limit)"

definition content_size :: "zip_entry list \<Rightarrow> nat" where
  "content_size es = sum_list (map (\<lambda>e. length (ze_content e)) es)"

lemma extract_payload:
  assumes "codec deflate inflate" "length (ze_content e) \<le> MAX_UNCOMPRESSED_PER_ENTRY"
  shows "extract_entry inflate (zip_method deflate e) name (length (ze_content e)) (zip_payload deflate e) = Inr (ze_content e)"
  using assms by (simp add: extract_entry_def zip_method_def zip_payload_def codec_def)

lemma AList_update_new: "k \<notin> fst ` set xs \<Longrightarrow> AList.update k v xs = xs @ [(k, v)]"
  by (induction xs) auto

lemma payload_le: "length (zip_payload deflate e) \<le> length (ze_content e)"
  by (simp add: zip_payload_def useDeflate_def)

lemma read_directory_written:
  assumes "codec deflate inflate" "chunks @ central @ tail = z" "length z < 0xFFFFFFFF"
  shows "write_entries deflate es (c0, d0, length c0) = Some (chunks, central, offset) \<Longrightarrow>
    \<forall>e\<in>set es. length (ze_content e) \<le> MAX_UNCOMPRESSED_PER_ENTRY \<Longrightarrow> sofar + content_size es \<le> MAX_TOTAL_UNCOMPRESSED \<Longrightarrow>
    distinct (map (decode \<circ> ze_name) es) \<Longrightarrow> (decode \<circ> ze_name) ` set es \<inter> fst ` set entries = {} \<Longrightarrow>
    read_directory inflate decode z (length es) n sofar (length chunks + length d0) entries =
      Inr (entries @ map (\<lambda>e. (decode (ze_name e), ze_content e)) es)"
proof (induction es arbitrary: c0 d0 n sofar entries)
  case (Cons e es)
  let ?b = "local_header deflate e @ ze_name e @ zip_payload deflate e" and ?d = "central_header deflate e (length c0) @ ze_name e"
  have fits: "entry_fits deflate e (length c0)"
    using Cons.prems(1) by (simp split: if_splits)
  have more_es: "write_entries deflate es (c0 @ ?b, d0 @ ?d, length (c0 @ ?b)) = Some (chunks, central, offset)"
    using Cons.prems(1) fits by (simp add: add.assoc)
  obtain c d where cd: "chunks = (c0 @ ?b) @ c" "central = (d0 @ ?d) @ d"
    using write_entries_extends [OF more_es] by blast
  have z: "z = c0 @ local_header deflate e @ ze_name e @ zip_payload deflate e @ c @ central @ tail"
      "z = (chunks @ d0) @ central_header deflate e (length c0) @ ze_name e @ d @ tail"
    using assms(2) cd by simp_all
  note reads = entry_reads [OF fits z, unfolded length_append]
  have cap: "length (ze_content e) \<le> MAX_UNCOMPRESSED_PER_ENTRY" "sofar + length (ze_content e) \<le> MAX_TOTAL_UNCOMPRESSED"
    using Cons.prems by (simp_all add: content_size_def)
  have no64: "length (zip_payload deflate e) \<noteq> 0xFFFFFFFF" "length (ze_content e) \<noteq> 0xFFFFFFFF" "length c0 \<noteq> 0xFFFFFFFF"
    using cap(1) payload_le [of deflate e] assms(3) z(1) by (auto simp: MAX_UNCOMPRESSED_PER_ENTRY_def)
  have new: "AList.update (decode (ze_name e)) (ze_content e) entries = entries @ [(decode (ze_name e), ze_content e)]"
    using Cons.prems(5) by (intro AList_update_new) auto
  have "directory_entry inflate decode z n sofar (length chunks + length d0) =
      Inr ((decode (ze_name e), ze_content e), length (ze_content e), length chunks + length (d0 @ ?d))"
    using cap no64 extract_payload [OF assms(1) cap(1), of "decode (ze_name e)"]
    unfolding directory_entry_def Let_def zip_data_def by (simp add: reads not_less)
  then have "read_directory inflate decode z (length (e # es)) n sofar (length chunks + length d0) entries =
      read_directory inflate decode z (length es) (Suc n) (sofar + length (ze_content e)) (length chunks + length (d0 @ ?d)) (entries @ [(decode (ze_name e), ze_content e)])"
    by (simp add: new)
  also have "\<dots> = Inr ((entries @ [(decode (ze_name e), ze_content e)]) @ map (\<lambda>e. (decode (ze_name e), ze_content e)) es)"
    using Cons.prems by (intro Cons.IH [OF more_es]) (auto simp: content_size_def)
  finally show ?case
    by simp
qed simp

text \<open>C39. A package that the server writes can be ingested again: the container reader finds the end record, walks the
  central directory and gives back exactly the entries that were written, names and contents in order, for every package
  within the reader's caps whose names are distinct.\<close>

theorem package_reads_back:
  assumes "buildZip deflate es = Some z" "codec deflate inflate" "length es \<le> MAX_ENTRIES" "length z < 0xFFFFFFFF"
    and "\<forall>e\<in>set es. length (ze_content e) \<le> MAX_UNCOMPRESSED_PER_ENTRY" "content_size es \<le> MAX_TOTAL_UNCOMPRESSED"
    and "distinct (map (decode \<circ> ze_name) es)"
  shows "readZip inflate decode z = Inr (map (\<lambda>e. (decode (ze_name e), ze_content e)) es)"
proof -
  obtain chunks central offset where w: "write_entries deflate es ([], [], 0) = Some (chunks, central, offset)"
      and small: "length es < 2 ^ 16" "offset < 2 ^ 32"
      and z: "z = chunks @ central @ end_record (length es) (length central) offset"
    using assms(1) by (auto simp: buildZip_def split: option.splits if_splits)
  let ?e = "end_record (length es) (length central) offset" and ?k = "length (chunks @ central)"
  have len: "length z - 22 = ?k" "22 \<le> length z"
    by (simp_all add: z end_record_def)
  have here: "read32 z (?k + i) = read32 ?e i" "read16 z (?k + i) = read16 ?e i" for i
    using read_shift [of "chunks @ central" ?e i] by (simp_all add: z)
  have offset: "offset = length chunks"
    using write_entries_extends [OF w] by simp
  have fields: "read32 z ?k = 0x06054b50" "read16 z (?k + 10) = length es" "read32 z (?k + 16) = length chunks"
    using here [of 0] here(1) [of 16] here(2) [of 10] end_record_reads [OF small, of "length central"] offset by simp_all
  have "find_end_record z = Some ?k"
    unfolding find_end_record_def len(1) using fields(1) by (simp add: upt_Suc_append)
  moreover have "read_directory inflate decode z (length es) 0 0 (length chunks) [] = Inr (map (\<lambda>e. (decode (ze_name e), ze_content e)) es)"
    using read_directory_written [OF assms(2) z [symmetric] assms(4), where ?c0.0 = "[]" and ?d0.0 = "[]" and es = es and sofar = 0 and entries = "[]" and decode = decode] w assms(5-7)
    by simp
  ultimately show ?thesis
    using fields len(2) assms(3) by (simp add: readZip_def)
qed

text \<open>An instance of the platform's promise: a table of one compressed buffer.\<close>

definition sample_deflate :: "buffer \<Rightarrow> buffer" where
  "sample_deflate x = (if x = [7, 7, 7] then [1] else 0 # x)"

definition sample_inflate :: "nat \<Rightarrow> buffer \<Rightarrow> string + buffer" where
  "sample_inflate limit y =
     (let x = (if y = [1] then [7, 7, 7] else tl y) in if length x \<le> limit then Inr x else Inl ''limit'')"

lemma sample_codec: "codec sample_deflate sample_inflate"
  by (auto simp: codec_def sample_deflate_def sample_inflate_def Let_def split: if_splits)

theorem package_reads_back_witness:
  "\<exists>z. buildZip sample_deflate [\<lparr>ze_name = [97], ze_content = [7, 7, 7]\<rparr>, \<lparr>ze_name = [98], ze_content = [5]\<rparr>] = Some z \<and>
     readZip sample_inflate (map (char_of \<circ> unat)) z = Inr [(''a'', [7, 7, 7]), (''b'', [5])]"
proof -
  let ?es = "[\<lparr>ze_name = [97], ze_content = [7, 7, 7]\<rparr>, \<lparr>ze_name = [98], ze_content = [5]\<rparr>] :: zip_entry list"
  obtain z where z: "buildZip sample_deflate ?es = Some z" "length z < 0xFFFFFFFF"
    by (simp add: buildZip_def entry_fits_def zip_payload_def useDeflate_def central_header_def end_record_def sample_deflate_def)
  have "(char_of (unat (97 :: 8 word)) :: char) = CHR ''a''" "(char_of (unat (98 :: 8 word)) :: char) = CHR ''b''"
    by code_simp+
  then show ?thesis
    using package_reads_back [OF z(1) sample_codec _ z(2), of "map (char_of \<circ> unat)"] z(1)
    by (simp add: MAX_ENTRIES_def MAX_UNCOMPRESSED_PER_ENTRY_def MAX_TOTAL_UNCOMPRESSED_def content_size_def)
qed

section \<open>Caps\<close>

lemma zip_data_length: "length (zip_data z lho csize) \<le> length z"
  by (simp add: zip_data_def)

lemma directory_entry_size:
  assumes "directory_entry inflate decode z n sofar p = Inr ((name, out), usize, p')" "codec deflate inflate"
  shows "length out \<le> max (length z) (MAX_UNCOMPRESSED_PER_ENTRY + 1) \<and> sofar + usize \<le> MAX_TOTAL_UNCOMPRESSED"
proof -
  obtain meth data where "extract_entry inflate meth name usize data = Inr out" "length data \<le> length z" "sofar + usize \<le> MAX_TOTAL_UNCOMPRESSED"
    using assms(1) zip_data_length [of z] unfolding directory_entry_def Let_def
    by (auto simp: not_less split: if_splits sum.splits)
  moreover have "\<And>limit x y. inflate limit x = Inr y \<Longrightarrow> length y \<le> limit"
    using assms(2) unfolding codec_def by blast
  ultimately show ?thesis
    by (fastforce simp: extract_entry_def max_def split: if_splits sum.splits)
qed

lemma read_directory_bounded:
  "read_directory inflate decode z k n sofar p entries = Inr result \<Longrightarrow> codec deflate inflate \<Longrightarrow>
   \<forall>x\<in>snd ` set entries. length x \<le> max (length z) (MAX_UNCOMPRESSED_PER_ENTRY + 1) \<Longrightarrow>
   (\<forall>x\<in>snd ` set result. length x \<le> max (length z) (MAX_UNCOMPRESSED_PER_ENTRY + 1)) \<and> length result \<le> length entries + k"
proof (induction k arbitrary: n sofar p entries)
  case (Suc k)
  then obtain name out usize p' where step: "directory_entry inflate decode z n sofar p = Inr ((name, out), usize, p')"
      and rest: "read_directory inflate decode z k (Suc n) (sofar + usize) p' (AList.update name out entries) = Inr result"
    by (auto split: sum.splits)
  have "set (AList.update name out entries) \<subseteq> insert (name, out) (set entries)" "length (AList.update name out entries) \<le> Suc (length entries)"
    by (induction entries) auto
  then show ?case
    using Suc.IH [OF rest Suc.prems(2)] Suc.prems(3) directory_entry_size [OF step Suc.prems(2)] by fastforce
qed simp

text \<open>An accepted container has at most the capped number of entries, and each is no larger than the container or the cap.\<close>

lemma container_bounded:
  assumes "readZip inflate decode z = Inr entries" "codec deflate inflate"
  shows "length entries \<le> MAX_ENTRIES \<and> (\<forall>x\<in>snd ` set entries. length x \<le> max (length z) (MAX_UNCOMPRESSED_PER_ENTRY + 1))"
  using assms by (auto simp: readZip_def not_less split: if_splits option.splits dest!: read_directory_bounded [OF _ assms(2)]) force

text \<open>An entry that declares no size is extracted whatever it inflates to, and counts nothing towards the total.\<close>

lemma undeclared_size_is_unchecked: "inflate (MAX_UNCOMPRESSED_PER_ENTRY + 1) data = Inr out \<Longrightarrow> extract_entry inflate 8 name 0 data = Inr out"
  by (simp add: extract_entry_def)

end
