(* ===== verification/Dataset_Csv.thy ===== *)
theory Dataset_Csv
  imports Prelude
begin

text \<open>
  The tables of the dataset layer, \<^verbatim>\<open>src/src/experiment/csv.ts\<close>: the tokenizer of a line, the printer of a row, the parser of
  a whole text and the streaming analysis of a file, which sees the same lines one at a time. Every throw is a message. A
  character is one of the 256 that \<^typ>\<open>char\<close> has; the line reader of the platform also breaks a line at U+2028 and U+2029,
  which are not among them.
\<close>

section \<open>Lines and fields\<close>

record parsed_csv =
  pc_header :: "string list"
  pc_rows :: "string list list"

definition FIELD_MAX :: nat where
  "FIELD_MAX = 10000"

definition dquote :: char where
  "dquote = CHR 34"

definition CR :: char where
  "CR = CHR 13"

definition LF :: char where
  "LF = CHR 10"

text \<open>The scanner with its three variables: the field so far, whether it is inside quotes, whether it has started.\<close>

fun scan_line :: "string \<Rightarrow> bool \<Rightarrow> bool \<Rightarrow> string \<Rightarrow> string list" where
  "scan_line field inQuotes started [] = [field]"
| "scan_line field True started (c # cs) =
     (if c = dquote
      then (case cs of d # ds \<Rightarrow> if d = dquote then scan_line (field @ [dquote]) True started ds else scan_line field False started cs
            | [] \<Rightarrow> scan_line field False started cs)
      else scan_line (field @ [c]) True started cs)"
| "scan_line field False started (c # cs) =
     (if c = dquote \<and> field = [] \<and> \<not> started then scan_line field True True cs
      else if c = CHR '','' then field # scan_line [] False False cs
      else scan_line (field @ [c]) False True cs)"

definition tokenizeCsvLine :: "string \<Rightarrow> string + string list" where
  "tokenizeCsvLine line =
     (let fs = scan_line [] False False line in
      if FIELD_MAX < length fs then Inl (''csv row exceeds '' @ str_of_nat FIELD_MAX @ '' fields'') else Inr fs)"

definition must_quote :: "char \<Rightarrow> bool" where
  "must_quote c \<longleftrightarrow> c = dquote \<or> c = CHR '','' \<or> c = CR \<or> c = LF"

definition double_quotes :: "string \<Rightarrow> string" where
  "double_quotes f = concat (map (\<lambda>c. if c = dquote then [dquote, dquote] else [c]) f)"

definition print_field :: "string \<Rightarrow> string" where
  "print_field f = (if list_ex must_quote f then [dquote] @ double_quotes f @ [dquote] else f)"

fun join_with :: "string \<Rightarrow> string list \<Rightarrow> string" where
  "join_with sep [] = []"
| "join_with sep [f] = f"
| "join_with sep (f # fs) = f @ sep @ join_with sep fs"

definition csvStringifyRow :: "string list \<Rightarrow> string" where
  "csvStringifyRow fs = join_with '','' (map print_field fs)"

text \<open>The lines of a text: a carriage return, a line feed, or both together end one.\<close>

fun split_lines :: "string \<Rightarrow> string \<Rightarrow> string list" where
  "split_lines line [] = [line]"
| "split_lines line (c # cs) =
     (if c = CR then line # (case cs of d # ds \<Rightarrow> if d = LF then split_lines [] ds else split_lines [] cs | [] \<Rightarrow> split_lines [] cs)
      else if c = LF then line # split_lines [] cs
      else split_lines (line @ [c]) cs)"

section \<open>Parsing\<close>

fun read_rows :: "nat \<Rightarrow> string list list \<Rightarrow> string list \<Rightarrow> string + string list list" where
  "read_rows maxRows rows [] = Inr rows"
| "read_rows maxRows rows (l # ls) =
     (if l = [] then read_rows maxRows rows ls
      else case tokenizeCsvLine l of
        Inl m \<Rightarrow> Inl m
      | Inr fs \<Rightarrow>
          if maxRows < length rows then Inl (''csv exceeds maxRows='' @ str_of_nat maxRows) else read_rows maxRows (rows @ [fs]) ls)"

definition uneven :: "nat \<Rightarrow> nat \<Rightarrow> nat \<Rightarrow> string" where
  "uneven r k n = ''csv row '' @ str_of_nat r @ '' has '' @ str_of_nat k @ '' fields, header has '' @ str_of_nat n"

fun check_widths :: "nat \<Rightarrow> nat \<Rightarrow> string list list \<Rightarrow> string option" where
  "check_widths n r [] = None"
| "check_widths n r (row # rows) = (if length row \<noteq> n then Some (uneven (r + 2) (length row) n) else check_widths n (Suc r) rows)"

definition parseCsv :: "nat \<Rightarrow> string \<Rightarrow> string + parsed_csv" where
  "parseCsv maxRows text =
     (case read_rows maxRows [] (split_lines [] text) of
        Inl m \<Rightarrow> Inl m
      | Inr [] \<Rightarrow> Inl ''csv has no rows''
      | Inr (header # body) \<Rightarrow>
          if [] \<in> set header then Inl ''csv header contains empty column names''
          else if body = [] then Inl ''csv has a header but no data rows''
          else case check_widths (length header) 0 body of Some m \<Rightarrow> Inl m | None \<Rightarrow> Inr \<lparr>pc_header = header, pc_rows = body\<rparr>)"

section \<open>Streaming\<close>

record csv_file_stats =
  cf_header :: "string list"
  cf_nRows :: nat
  cf_targetValues :: "string list"
  cf_groupValues :: "string list option"

definition indexOf :: "string list \<Rightarrow> string \<Rightarrow> nat option" where
  "indexOf header name = find_index (\<lambda>h. h = name) header"

definition field_at :: "nat option \<Rightarrow> string list \<Rightarrow> string" where
  "field_at i fs = (case i of Some k \<Rightarrow> if k < length fs then fs ! k else [] | None \<Rightarrow> [])"

definition missing_column :: "string \<Rightarrow> string \<Rightarrow> string list \<Rightarrow> string" where
  "missing_column what name header = what @ '' column '' @ [CHR 39] @ name @ [CHR 39] @ '' not in dataset header ['' @ join_with '', '' header @ '']''"

fun stream_rows :: "nat \<Rightarrow> nat \<Rightarrow> nat option \<Rightarrow> nat option \<Rightarrow> nat \<times> string list \<times> string list \<Rightarrow> string list \<Rightarrow> string + nat \<times> string list \<times> string list" where
  "stream_rows maxRows width target grp acc [] = Inr acc"
| "stream_rows maxRows width target grp (n, ts, gs) (l # ls) =
     (if l = [] then stream_rows maxRows width target grp (n, ts, gs) ls
      else case tokenizeCsvLine l of
        Inl m \<Rightarrow> Inl m
      | Inr fs \<Rightarrow>
          if length fs \<noteq> width then Inl (uneven (n + 2) (length fs) width)
          else if maxRows < Suc n then Inl (''csv exceeds maxRows='' @ str_of_nat maxRows)
          else stream_rows maxRows width target grp
            (Suc n, ts @ [field_at target fs], case grp of Some _ \<Rightarrow> gs @ [field_at grp fs] | None \<Rightarrow> gs) ls)"

fun stream_header :: "nat \<Rightarrow> string \<Rightarrow> string option \<Rightarrow> string list \<Rightarrow> string + csv_file_stats" where
  "stream_header maxRows target grp [] = Inl ''csv has no rows''"
| "stream_header maxRows target grp (l # ls) =
     (if l = [] then stream_header maxRows target grp ls
      else case tokenizeCsvLine l of
        Inl m \<Rightarrow> Inl m
      | Inr header \<Rightarrow>
          if [] \<in> set header then Inl ''csv header contains empty column names''
          else if indexOf header target = None then Inl (missing_column ''target'' target header)
          else case (case grp of Some g \<Rightarrow> if indexOf header g = None then Some g else None | None \<Rightarrow> None) of
            Some g \<Rightarrow> Inl (missing_column ''group'' g header)
          | None \<Rightarrow>
              (case stream_rows maxRows (length header) (indexOf header target) (Option.bind grp (indexOf header)) (0, [], []) ls of
                 Inl m \<Rightarrow> Inl m
               | Inr (n, ts, gs) \<Rightarrow>
                   if n = 0 then Inl ''csv has a header but no data rows''
                   else Inr \<lparr>cf_header = header, cf_nRows = n, cf_targetValues = ts, cf_groupValues = map_option (\<lambda>_. gs) grp\<rparr>))"

definition analyzeCsvFile :: "nat \<Rightarrow> string \<Rightarrow> string option \<Rightarrow> string \<Rightarrow> string + csv_file_stats" where
  "analyzeCsvFile maxRows targetColumn groupColumn text = stream_header maxRows targetColumn groupColumn (split_lines [] text)"

section \<open>Reading back a printed row\<close>

lemma scan_plain:
  "list_all (\<lambda>c. \<not> must_quote c) f \<Longrightarrow> f \<noteq> [] \<Longrightarrow> scan_line p False st (f @ rest) = scan_line (p @ f) False True rest"
proof (induction f arbitrary: p st)
  case (Cons c f)
  then show ?case
    by (cases "f = []") (auto simp: must_quote_def)
qed simp

lemma scan_quoted:
  "\<not> (\<exists>ds. rest = dquote # ds) \<Longrightarrow> scan_line p True st (double_quotes f @ dquote # rest) = scan_line (p @ f) False st rest"
proof (induction f arbitrary: p)
  case Nil
  then show ?case
    by (cases rest) (auto simp: double_quotes_def)
next
  case (Cons c f)
  then show ?case
    by (simp add: double_quotes_def)
qed

lemma scan_field:
  assumes "rest = [] \<or> (\<exists>ds. rest = CHR '','' # ds)"
  shows "scan_line [] False False (print_field f @ rest) = (case rest of [] \<Rightarrow> [f] | _ # ds \<Rightarrow> f # scan_line [] False False ds)"
proof (cases "list_ex must_quote f")
  case True
  have "scan_line [] False False (print_field f @ rest) = scan_line [] True True (double_quotes f @ dquote # rest)"
    using True by (simp add: print_field_def)
  also have "\<dots> = scan_line f False True rest"
    using assms scan_quoted [of rest "[]" True f] by (auto simp: dquote_def)
  finally show ?thesis
    using assms by (auto simp: dquote_def)
next
  case False
  then have "list_all (\<lambda>c. \<not> must_quote c) f"
    by (simp add: list_all_iff list_ex_iff)
  then show ?thesis
    using assms scan_plain [of f "[]" False rest] False by (cases "f = []") (auto simp: print_field_def dquote_def)
qed

lemma scan_row: "fs \<noteq> [] \<Longrightarrow> scan_line [] False False (csvStringifyRow fs) = fs"
proof (induction fs rule: join_with.induct [of _ "'',''"])
  case (2 sep f)
  show ?case
    using scan_field [of "[]" f] by (simp add: csvStringifyRow_def)
next
  case (3 sep f g gs)
  then show ?case
    using scan_field [of "CHR '','' # csvStringifyRow (g # gs)" f] by (simp add: csvStringifyRow_def)
qed simp

lemma tokenize_row: "fs \<noteq> [] \<Longrightarrow> length fs \<le> FIELD_MAX \<Longrightarrow> tokenizeCsvLine (csvStringifyRow fs) = Inr fs"
  by (simp add: tokenizeCsvLine_def scan_row)

section \<open>Reading back a printed table\<close>

definition print_table :: "string list \<Rightarrow> string list list \<Rightarrow> string" where
  "print_table header rows = join_with [LF] (map csvStringifyRow (header # rows)) @ [LF]"

lemma table_lines: "ls \<noteq> [] \<Longrightarrow> join_with [LF] ls @ [LF] = concat (map (\<lambda>l. l @ [LF]) ls)"
  by (induction ls rule: join_with.induct [of _ "[LF]"]) simp_all

lemma split_line: "CR \<notin> set l \<Longrightarrow> LF \<notin> set l \<Longrightarrow> split_lines p (l @ LF # rest) = (p @ l) # split_lines [] rest"
  by (induction l arbitrary: p) (auto simp: CR_def LF_def)

lemma split_table: "\<forall>l\<in>set ls. CR \<notin> set l \<and> LF \<notin> set l \<Longrightarrow> split_lines [] (concat (map (\<lambda>l. l @ [LF]) ls)) = ls @ [[]]"
  by (induction ls) (simp_all add: split_line)

lemma join_characters: "c \<in> set (join_with sep ls) \<Longrightarrow> c \<in> set sep \<or> (\<exists>l\<in>set ls. c \<in> set l)"
  by (induction sep ls rule: join_with.induct) auto

lemma field_characters: "c \<in> set (print_field f) \<Longrightarrow> c = dquote \<or> c \<in> set f"
  by (auto simp: print_field_def double_quotes_def split: if_splits)

lemma row_characters: "c \<in> set (csvStringifyRow fs) \<Longrightarrow> c \<noteq> dquote \<Longrightarrow> c \<noteq> CHR '','' \<Longrightarrow> \<exists>f\<in>set fs. c \<in> set f"
  unfolding csvStringifyRow_def using field_characters by (fastforce dest: join_characters)

lemma row_without_breaks:
  assumes "\<forall>f\<in>set fs. CR \<notin> set f \<and> LF \<notin> set f"
  shows "CR \<notin> set (csvStringifyRow fs)" "LF \<notin> set (csvStringifyRow fs)"
  using assms row_characters [of CR fs] row_characters [of LF fs] by (auto simp: CR_def LF_def dquote_def)

lemma row_empty: "fs \<noteq> [] \<Longrightarrow> csvStringifyRow fs = [] \<Longrightarrow> fs = [[]]"
  using scan_row [of fs] by simp

lemma read_printed:
  "\<forall>r\<in>set rs. r \<noteq> [] \<and> r \<noteq> [[]] \<and> length r \<le> FIELD_MAX \<Longrightarrow> length acc + length rs \<le> Suc maxRows \<Longrightarrow>
   read_rows maxRows acc (map csvStringifyRow rs @ [[]]) = Inr (acc @ rs)"
proof (induction rs arbitrary: acc)
  case (Cons r rs)
  then have "csvStringifyRow r \<noteq> []" "tokenizeCsvLine (csvStringifyRow r) = Inr r"
    using row_empty [of r] tokenize_row [of r] by auto
  then show ?case
    using Cons.IH [of "acc @ [r]"] Cons.prems by simp
qed simp

lemma widths_ok: "check_widths n r rows = None \<longleftrightarrow> (\<forall>row\<in>set rows. length row = n)"
  by (induction rows arbitrary: r) auto

text \<open>A printed table parses back to itself: whatever commas and quotes its fields contain, as long as no field
  contains a line break, all rows have the width of the header, no column name is empty, and no row of a one-column
  table is an empty field (which prints as an empty line).\<close>

lemma table_read_back:
  assumes "header \<noteq> []" "[] \<notin> set header" "length header \<le> FIELD_MAX" "rows \<noteq> []" "length rows \<le> maxRows"
    and "\<forall>r\<in>set rows. length r = length header \<and> r \<noteq> [[]]"
    and "\<forall>r\<in>set (header # rows). \<forall>f\<in>set r. CR \<notin> set f \<and> LF \<notin> set f"
  shows "parseCsv maxRows (print_table header rows) = Inr \<lparr>pc_header = header, pc_rows = rows\<rparr>"
proof -
  let ?rs = "header # rows"
  have "\<forall>l\<in>set (map csvStringifyRow ?rs). CR \<notin> set l \<and> LF \<notin> set l"
    using assms(7) row_without_breaks by auto
  then have "split_lines [] (print_table header rows) = map csvStringifyRow ?rs @ [[]]"
    using split_table [of "map csvStringifyRow ?rs"] table_lines [of "map csvStringifyRow ?rs"] by (simp add: print_table_def)
  moreover have "\<forall>r\<in>set ?rs. r \<noteq> [] \<and> r \<noteq> [[]] \<and> length r \<le> FIELD_MAX"
    using assms by auto
  then have "read_rows maxRows [] (map csvStringifyRow ?rs @ [[]]) = Inr ?rs"
    using read_printed [of ?rs "[]" maxRows] assms(5) by (simp only: append_Nil list.size add_0 Suc_le_mono add_Suc_right add_0_right)
  ultimately show ?thesis
    using assms(2,4,6) widths_ok [of "length header" 0 rows] by (simp add: parseCsv_def)
qed

text \<open>A quoted line break is not read back: the two halves are taken for rows, and the open quote of the first is accepted.\<close>

lemma quoted_break_is_misread:
  "parseCsv 5 (print_table [''a''] [[''x'' @ [LF] @ ''y'']]) = Inr \<lparr>pc_header = [''a''], pc_rows = [[''x''], [''y'' @ [dquote]]]\<rparr>"
  by (simp add: parseCsv_def print_table_def csvStringifyRow_def print_field_def double_quotes_def must_quote_def CR_def LF_def dquote_def
      tokenizeCsvLine_def FIELD_MAX_def)

section \<open>Streaming is parsing\<close>

definition tokens :: "string list \<Rightarrow> string list list \<Rightarrow> bool" where
  "tokens ls rs \<longleftrightarrow> map tokenizeCsvLine (filter (\<lambda>l. l \<noteq> []) ls) = map Inr rs"

lemma tokens_simps:
  "tokens [] rs \<longleftrightarrow> rs = []"
  "tokens ([] # ls) rs \<longleftrightarrow> tokens ls rs"
  "l \<noteq> [] \<Longrightarrow> tokenizeCsvLine l = Inl m \<Longrightarrow> \<not> tokens (l # ls) rs"
  by (auto simp: tokens_def Cons_eq_map_conv)

lemma tokens_step: "l \<noteq> [] \<Longrightarrow> tokenizeCsvLine l = Inr fs \<Longrightarrow> (\<exists>rs. tokens (l # ls) rs \<and> Q rs) \<longleftrightarrow> (\<exists>rs. tokens ls rs \<and> Q (fs # rs))"
  by (fastforce simp: tokens_def Cons_eq_map_conv)

lemma read_rows_Inr:
  "read_rows maxRows acc ls = Inr rows \<longleftrightarrow> (\<exists>rs. tokens ls rs \<and> rows = acc @ rs \<and> (rs = [] \<or> length acc + length rs \<le> Suc maxRows))"
proof (induction ls arbitrary: acc)
  case (Cons l ls)
  consider "l = []" | m where "l \<noteq> []" "tokenizeCsvLine l = Inl m" | fs where "l \<noteq> []" "tokenizeCsvLine l = Inr fs"
    by (cases "tokenizeCsvLine l") auto
  then show ?case
  proof cases
    case 1
    then show ?thesis
      using Cons.IH by (simp add: tokens_simps)
  next
    case 2
    then show ?thesis
      by (simp add: tokens_simps)
  next
    case 3
    show ?thesis
      unfolding tokens_step [OF 3] using Cons.IH [of "acc @ [fs]"] 3 by (auto simp: not_less)
  qed
qed (auto simp: tokens_simps)

definition streamed :: "nat option \<Rightarrow> nat option \<Rightarrow> string list list \<Rightarrow> nat \<times> string list \<times> string list \<Rightarrow> nat \<times> string list \<times> string list" where
  "streamed target grp rs acc = (case acc of (n, ts, gs) \<Rightarrow>
     (n + length rs, ts @ map (field_at target) rs, gs @ (if grp = None then [] else map (field_at grp) rs)))"

lemma stream_rows_Inr:
  "stream_rows maxRows width target grp (n, ts, gs) ls = Inr acc' \<longleftrightarrow>
   (\<exists>rs. tokens ls rs \<and> (\<forall>r\<in>set rs. length r = width) \<and> (rs = [] \<or> n + length rs \<le> maxRows) \<and> acc' = streamed target grp rs (n, ts, gs))"
proof (induction ls arbitrary: n ts gs)
  case (Cons l ls)
  consider "l = []" | m where "l \<noteq> []" "tokenizeCsvLine l = Inl m" | fs where "l \<noteq> []" "tokenizeCsvLine l = Inr fs"
    by (cases "tokenizeCsvLine l") auto
  then show ?case
  proof cases
    case 1
    then show ?thesis
      using Cons.IH by (simp add: tokens_simps)
  next
    case 2
    then show ?thesis
      by (simp add: tokens_simps)
  next
    case 3
    let ?acc = "(Suc n, ts @ [field_at target fs], case grp of Some _ \<Rightarrow> gs @ [field_at grp fs] | None \<Rightarrow> gs)"
    have next1: "streamed target grp (fs # rs) (n, ts, gs) = streamed target grp rs ?acc" for rs
      by (cases grp) (simp_all add: streamed_def)
    show ?thesis
      unfolding tokens_step [OF 3] next1 using Cons.IH 3 by (auto simp: not_less)
  qed
qed (auto simp: tokens_simps streamed_def)

text \<open>The statistics of a parsed table.\<close>

definition stats_of :: "string \<Rightarrow> string option \<Rightarrow> parsed_csv \<Rightarrow> csv_file_stats" where
  "stats_of target grp p = \<lparr>cf_header = pc_header p, cf_nRows = length (pc_rows p),
     cf_targetValues = map (field_at (indexOf (pc_header p) target)) (pc_rows p),
     cf_groupValues = map_option (\<lambda>g. map (field_at (indexOf (pc_header p) g)) (pc_rows p)) grp\<rparr>"

definition has_columns :: "string \<Rightarrow> string option \<Rightarrow> string list \<Rightarrow> bool" where
  "has_columns target grp header \<longleftrightarrow> target \<in> set header \<and> (case grp of None \<Rightarrow> True | Some g \<Rightarrow> g \<in> set header)"

lemma indexOf_None: "indexOf header c = None \<longleftrightarrow> c \<notin> set header"
  by (auto simp: indexOf_def find_index_None)

lemma parse_Inr:
  "parseCsv maxRows text = Inr \<lparr>pc_header = h, pc_rows = rows\<rparr> \<longleftrightarrow>
   tokens (split_lines [] text) (h # rows) \<and> length rows \<le> maxRows \<and> [] \<notin> set h \<and> rows \<noteq> [] \<and> (\<forall>r\<in>set rows. length r = length h)" (is "?l \<longleftrightarrow> ?r")
proof
  assume ?l
  then have "read_rows maxRows [] (split_lines [] text) = Inr (h # rows)" "[] \<notin> set h" "rows \<noteq> []" "check_widths (length h) 0 rows = None"
    by (auto simp: parseCsv_def split: sum.splits list.splits if_splits option.splits)
  then show ?r
    by (auto simp: read_rows_Inr widths_ok)
next
  assume r: ?r
  then have "read_rows maxRows [] (split_lines [] text) = Inr (h # rows)"
    by (auto simp: read_rows_Inr)
  then show ?l
    using r widths_ok [of "length h" 0 rows] by (simp add: parseCsv_def)
qed

lemma stream_header_Inr:
  "stream_header maxRows target grp ls = Inr st \<longleftrightarrow>
   (\<exists>h rows. tokens ls (h # rows) \<and> length rows \<le> maxRows \<and> [] \<notin> set h \<and> rows \<noteq> [] \<and> (\<forall>r\<in>set rows. length r = length h) \<and>
     has_columns target grp h \<and> st = stats_of target grp \<lparr>pc_header = h, pc_rows = rows\<rparr>)"
proof (induction ls)
  case (Cons l ls)
  consider "l = []" | m where "l \<noteq> []" "tokenizeCsvLine l = Inl m" | fs where "l \<noteq> []" "tokenizeCsvLine l = Inr fs"
    by (cases "tokenizeCsvLine l") auto
  then show ?case
  proof cases
    case 1
    then show ?thesis
      using Cons.IH by (simp add: tokens_simps)
  next
    case 2
    then show ?thesis
      by (simp add: tokens_simps)
  next
    case 3
    have head: "tokens (l # ls) (h # rows) \<longleftrightarrow> h = fs \<and> tokens ls rows" for h rows
      using 3 by (auto simp: tokens_def)
    have stats: "stats_of target grp \<lparr>pc_header = fs, pc_rows = rows\<rparr> =
        (case streamed (indexOf fs target) (Option.bind grp (indexOf fs)) rows (0, [], []) of
           (n, ts, gs) \<Rightarrow> \<lparr>cf_header = fs, cf_nRows = n, cf_targetValues = ts, cf_groupValues = map_option (\<lambda>_. gs) grp\<rparr>)"
      if "has_columns target grp fs" for rows
      using that indexOf_None [of fs] by (cases grp) (auto simp: streamed_def stats_of_def has_columns_def)
    have count: "fst (streamed target' grp' rows (0, [], [])) = length rows" for target' grp' rows
      by (simp add: streamed_def)
    have cols: "has_columns target grp fs \<longleftrightarrow> indexOf fs target \<noteq> None \<and> (case grp of Some g \<Rightarrow> if indexOf fs g = None then Some g else None | None \<Rightarrow> None) = None"
      by (simp add: has_columns_def indexOf_None split: option.splits)
    let ?body = "stream_rows maxRows (length fs) (indexOf fs target) (Option.bind grp (indexOf fs)) (0, [], []) ls"
    have unfold: "stream_header maxRows target grp (l # ls) = Inr st \<longleftrightarrow> [] \<notin> set fs \<and> has_columns target grp fs \<and>
        (\<exists>acc. ?body = Inr acc \<and> fst acc \<noteq> 0 \<and> st = (case acc of (n, ts, gs) \<Rightarrow>
           \<lparr>cf_header = fs, cf_nRows = n, cf_targetValues = ts, cf_groupValues = map_option (\<lambda>_. gs) grp\<rparr>))"
      using 3 cols by (auto split: sum.splits option.splits if_splits)
    have body: "(\<exists>acc. ?body = Inr acc \<and> Q acc) \<longleftrightarrow> (\<exists>rows. tokens ls rows \<and> (\<forall>r\<in>set rows. length r = length fs) \<and>
        (rows = [] \<or> length rows \<le> maxRows) \<and> Q (streamed (indexOf fs target) (Option.bind grp (indexOf fs)) rows (0, [], [])))" for Q
      unfolding stream_rows_Inr add_0 by blast
    show ?thesis
      unfolding unfold head body count using stats by auto
  qed
qed (simp add: tokens_simps)

text \<open>Streaming a file is parsing it: the streaming analysis succeeds exactly when the parser accepts the text and the
  named columns are in the header, and it then gives the header, the number of rows and the columns of the parsed table.\<close>

lemma stream_iff_parse:
  "analyzeCsvFile maxRows target grp text = Inr st \<longleftrightarrow>
   (\<exists>p. parseCsv maxRows text = Inr p \<and> has_columns target grp (pc_header p) \<and> st = stats_of target grp p)"
proof -
  have "(\<exists>p. parseCsv maxRows text = Inr p \<and> Q p) \<longleftrightarrow> (\<exists>h rows. parseCsv maxRows text = Inr \<lparr>pc_header = h, pc_rows = rows\<rparr> \<and> Q \<lparr>pc_header = h, pc_rows = rows\<rparr>)" for Q
    by (metis parsed_csv.surjective old.unit.exhaust)
  then show ?thesis
    by (auto simp: analyzeCsvFile_def stream_header_Inr parse_Inr)
qed

end
