(* ===== verification/Dataset_Arff.thy ===== *)
theory Dataset_Arff
  imports Dataset_Csv Tool_Integrations
begin

text \<open>
  The reader of ARFF downloads, \<^verbatim>\<open>src/src/experiment/arff.ts\<close>: attribute directives give the header, the lines after
  the data directive the rows. A download is kept as the CSV text of what was read. White space is that of ASCII.
\<close>

section \<open>Reading\<close>

definition is_quote :: "char \<Rightarrow> bool" where
  "is_quote c \<longleftrightarrow> c = CHR 39 \<or> c = dquote"

text \<open>The name of an attribute directive: the text between quotes, or the first word.\<close>

definition attribute_name :: "string \<Rightarrow> string + string" where
  "attribute_name rest =
     (case rest of
        [] \<Rightarrow> Inl ''arff: attribute without a name''
      | c # cs \<Rightarrow>
          if is_quote c then (if c \<in> set cs then Inr (takeWhile (\<lambda>d. d \<noteq> c) cs) else Inl ''arff: unterminated attribute name'')
          else let w = takeWhile (\<lambda>d. \<not> is_space d) rest in if w = [] then Inl ''arff: attribute without a name'' else Inr w)"

definition unquote_value :: "string \<Rightarrow> string" where
  "unquote_value v = (if 2 \<le> length v \<and> v ! 0 = CHR 39 \<and> last v = CHR 39 then butlast (tl v) else v)"

definition arff_attribute :: "string list \<Rightarrow> string \<Rightarrow> string + string list" where
  "arff_attribute header line =
     (case attribute_name (trim (drop (length ''@attribute'') line)) of
        Inl m \<Rightarrow> Inl m
      | Inr name \<Rightarrow>
          if name \<in> set header then Inl (''arff: duplicate attribute name '' @ [CHR 39] @ name @ [CHR 39]) else Inr (header @ [name]))"

definition arff_row :: "nat \<Rightarrow> string list \<Rightarrow> string list list \<Rightarrow> string \<Rightarrow> string + string list list" where
  "arff_row maxRows header rows line =
     (if starts_with line ''{'' then Inl ''arff: sparse format not supported''
      else case tokenizeCsvLine line of
        Inl m \<Rightarrow> Inl m
      | Inr fs \<Rightarrow>
          if header = [] then Inl (''arff: @data before any @attribute'')
          else if length fs \<noteq> length header
          then Inl (''arff data row has '' @ str_of_nat (length fs) @ '' fields, header has '' @ str_of_nat (length header))
          else if maxRows < Suc (length rows) then Inl (''arff exceeds maxRows='' @ str_of_nat maxRows)
          else Inr (rows @ [map unquote_value fs]))"

fun arff_lines :: "nat \<Rightarrow> string list \<times> string list list \<times> bool \<Rightarrow> string list \<Rightarrow> string + string list \<times> string list list \<times> bool" where
  "arff_lines maxRows acc [] = Inr acc"
| "arff_lines maxRows (header, rows, inData) (rawLine # ls) =
     (let line = trim rawLine in
      if line = [] \<or> starts_with line ''%'' then arff_lines maxRows (header, rows, inData) ls
      else if \<not> inData then
        (if starts_with_ci line ''@attribute''
         then (case arff_attribute header line of Inl m \<Rightarrow> Inl m | Inr header' \<Rightarrow> arff_lines maxRows (header', rows, inData) ls)
         else if starts_with_ci line ''@data'' then arff_lines maxRows (header, rows, True) ls
         else if starts_with_ci line ''@relation'' then arff_lines maxRows (header, rows, inData) ls
         else Inl (''arff: unsupported directive '' @ [CHR 39] @ take 40 line @ [CHR 39]))
      else (case arff_row maxRows header rows line of Inl m \<Rightarrow> Inl m | Inr rows' \<Rightarrow> arff_lines maxRows (header, rows', inData) ls))"

definition parseArff :: "nat \<Rightarrow> string \<Rightarrow> string + parsed_csv" where
  "parseArff maxRows text =
     (case arff_lines maxRows ([], [], False) (split_lines [] text) of
        Inl m \<Rightarrow> Inl m
      | Inr (header, rows, inData) \<Rightarrow>
          if \<not> inData then Inl ''arff: no @data section''
          else if rows = [] then Inl ''arff: @data section has no rows''
          else Inr \<lparr>pc_header = header, pc_rows = rows\<rparr>)"

text \<open>What is kept of a download.\<close>

definition arff_to_csv :: "nat \<Rightarrow> string \<Rightarrow> string + string" where
  "arff_to_csv maxRows text = (case parseArff maxRows text of Inl m \<Rightarrow> Inl m | Inr p \<Rightarrow> Inr (print_table (pc_header p) (pc_rows p)))"

section \<open>What is read\<close>

definition unbroken :: "string \<Rightarrow> bool" where
  "unbroken f \<longleftrightarrow> CR \<notin> set f \<and> LF \<notin> set f"

lemma split_lines_unbroken: "unbroken p \<Longrightarrow> \<forall>l\<in>set (split_lines p s). unbroken l"
proof (induction p s rule: split_lines.induct)
  case (2 line c cs)
  show ?case
  proof (cases cs)
    case Nil
    then show ?thesis
      using 2 by (simp add: unbroken_def)
  next
    case (Cons d ds)
    have "unbroken []"
      by (simp add: unbroken_def)
    then show ?thesis
      using 2 Cons by (simp add: unbroken_def)
  qed
qed simp

lemma set_trim: "set (trim s) \<subseteq> set s"
  unfolding trim_def using set_dropWhileD [of _ is_space] by (metis set_rev subsetI)

lemma scan_line_chars: "set (concat (scan_line p q st l)) \<subseteq> set p \<union> set l"
proof (induction p q st l rule: scan_line.induct)
  case (2 p st c cs)
  note IH = "2.IH"
  consider "c \<noteq> dquote" | ds where "c = dquote" "cs = dquote # ds" | "c = dquote" "\<nexists>ds. cs = dquote # ds"
    by auto
  then show ?case
  proof cases
    case 1
    then have "scan_line p True st (c # cs) = scan_line (p @ [c]) True st cs"
      by (subst scan_line.simps) simp
    then show ?thesis
      using IH(4) [OF 1] by auto
  next
    case (2 ds)
    then have "scan_line p True st (c # cs) = scan_line (p @ [dquote]) True st ds"
      by (subst scan_line.simps) simp
    then show ?thesis
      using IH(2) [OF 2(1) 2(2) refl] 2 by auto
  next
    case 3
    then have "scan_line p True st (c # cs) = scan_line p False st cs"
      by (subst scan_line.simps) (auto split: list.split)
    then show ?thesis
      using IH(1,3) 3 by (cases cs) (auto simp del: scan_line.simps)
  qed
next
  case (3 p st c cs)
  consider "c = dquote \<and> p = [] \<and> \<not> st" | "\<not> (c = dquote \<and> p = [] \<and> \<not> st)" "c = CHR '',''" |
      "\<not> (c = dquote \<and> p = [] \<and> \<not> st)" "c \<noteq> CHR '',''"
    by blast
  then show ?case
  proof cases
    case 1
    then show ?thesis
      using "3.IH"(1) by auto
  next
    case 2
    then show ?thesis
      using "3.IH"(2) by auto
  next
    case new: 3
    then have "scan_line p False st (c # cs) = scan_line (p @ [c]) False True cs"
      by (simp only: scan_line.simps if_False if_not_P simp_thms)
    then show ?thesis
      using "3.IH"(3) [OF new] by auto
  qed
qed simp

lemma tokenize_unbroken:
  assumes "tokenizeCsvLine l = Inr fs" "unbroken l" "f \<in> set fs"
  shows "unbroken f"
proof -
  have "fs = scan_line [] False False l"
    using assms(1) by (simp add: tokenizeCsvLine_def Let_def split: if_splits)
  then have "set f \<subseteq> set l"
    using assms(3) scan_line_chars [of "[]" False False l] by auto
  then show ?thesis
    using assms(2) by (auto simp: unbroken_def)
qed

lemma tokenize_length: "tokenizeCsvLine l = Inr fs \<Longrightarrow> length fs \<le> FIELD_MAX"
  by (auto simp: tokenizeCsvLine_def Let_def split: if_splits)

lemma unquote_chars: "set (unquote_value v) \<subseteq> set v"
  by (cases v) (auto simp: unquote_value_def dest: in_set_butlastD)

text \<open>What holds of the header and the rows while the lines are read: no field has a line break, the names are distinct,
  and every row has the width of the header, which fits in a line.\<close>

definition arff_inv :: "nat \<Rightarrow> string list \<times> string list list \<times> bool \<Rightarrow> bool" where
  "arff_inv maxRows acc \<longleftrightarrow> (case acc of (header, rows, inData) \<Rightarrow>
     distinct header \<and> list_all unbroken header \<and> (\<not> inData \<longrightarrow> rows = []) \<and> length rows \<le> maxRows \<and>
     (\<forall>r\<in>set rows. r \<noteq> [] \<and> length r = length header \<and> length r \<le> FIELD_MAX \<and> list_all unbroken r))"

lemma unbroken_subset: "set a \<subseteq> set b \<Longrightarrow> unbroken b \<Longrightarrow> unbroken a"
  by (auto simp: unbroken_def)

lemma attribute_name_chars: "attribute_name rest = Inr name \<Longrightarrow> set name \<subseteq> set rest"
  by (auto simp: attribute_name_def Let_def split: list.splits if_splits dest: set_takeWhileD)

lemma arff_attribute_inv:
  assumes "arff_attribute header line = Inr header'" "arff_inv maxRows (header, [], False)" "unbroken line"
  shows "arff_inv maxRows (header', [], False)"
proof -
  obtain name where name: "attribute_name (trim (drop (length ''@attribute'') line)) = Inr name" "name \<notin> set header" "header' = header @ [name]"
    using assms(1) by (auto simp: arff_attribute_def split: sum.splits if_splits)
  have "set name \<subseteq> set line"
    using attribute_name_chars [OF name(1)] set_trim set_drop_subset by (meson order_trans)
  then show ?thesis
    using assms(2,3) name(2,3) unbroken_subset by (auto simp: arff_inv_def)
qed

lemma arff_row_inv:
  assumes "arff_row maxRows header rows line = Inr rows'" "arff_inv maxRows (header, rows, True)" "unbroken line"
  shows "arff_inv maxRows (header, rows', True)"
proof -
  obtain fs where fs: "tokenizeCsvLine line = Inr fs" "header \<noteq> []" "length fs = length header" "Suc (length rows) \<le> maxRows"
      "rows' = rows @ [map unquote_value fs]"
    using assms(1) by (auto simp: arff_row_def split: sum.splits if_splits)
  have "list_all unbroken (map unquote_value fs)"
    using tokenize_unbroken [OF fs(1) assms(3)] unbroken_subset [OF unquote_chars] by (simp add: list_all_iff)
  then show ?thesis
    using assms(2) fs tokenize_length [OF fs(1)] by (auto simp: arff_inv_def)
qed

lemma arff_lines_inv:
  "arff_lines maxRows acc ls = Inr acc' \<Longrightarrow> arff_inv maxRows acc \<Longrightarrow> \<forall>l\<in>set ls. unbroken l \<Longrightarrow> arff_inv maxRows acc'"
proof (induction maxRows acc ls rule: arff_lines.induct)
  case (2 maxRows header rows inData rawLine ls)
  let ?line = "trim rawLine"
  have line: "unbroken ?line"
    using "2.prems"(3) unbroken_subset [OF set_trim] by simp
  have ls: "\<forall>l\<in>set ls. unbroken l"
    using "2.prems"(3) by simp
  show ?case
  proof (cases "?line = [] \<or> starts_with ?line ''%''")
    case True
    then show ?thesis
      using 2 ls by (simp add: Let_def)
  next
    case go: False
    show ?thesis
    proof (cases inData)
      case True
      then obtain rows' where "arff_row maxRows header rows ?line = Inr rows'" "arff_lines maxRows (header, rows', True) ls = Inr acc'"
        using "2.prems"(1) go by (auto simp: Let_def split: sum.splits)
      then show ?thesis
        using "2.IH"(5) [OF refl go] True arff_row_inv [OF _ _ line] "2.prems"(2) ls by simp
    next
      case False
      then have empty: "rows = []"
        using "2.prems"(2) by (simp add: arff_inv_def)
      have moved: "arff_inv maxRows (header, rows, True)"
        using "2.prems"(2) empty by (simp add: arff_inv_def)
      show ?thesis
        using "2.IH"(2-4) [OF refl go False] "2.prems" go False empty moved ls arff_attribute_inv [OF _ _ line, of header _ maxRows]
        by (auto simp: Let_def split: sum.splits if_splits)
    qed
  qed
qed simp

lemma parseArff_inv:
  assumes "parseArff maxRows s = Inr p"
  shows "arff_inv maxRows (pc_header p, pc_rows p, True) \<and> pc_rows p \<noteq> []"
proof -
  have "arff_inv maxRows ([], [], False)" "\<forall>l\<in>set (split_lines [] s). unbroken l"
    using split_lines_unbroken [of "[]" s] by (simp_all add: arff_inv_def) (simp add: unbroken_def)
  then show ?thesis
    using assms arff_lines_inv by (auto simp: parseArff_def split: sum.splits if_splits)
qed

section \<open>What is kept\<close>

text \<open>C38. Converting a download loses nothing: a table that was read from ARFF has distinct column names and rows of one
  width, and the CSV text that is kept of it parses back to the same header and rows, with one kind of exception each: a
  column with an empty name, and an empty value in the only column, are not read back.\<close>

theorem arff_conversion_lossless:
  assumes "parseArff maxRows s = Inr p" "[] \<notin> set (pc_header p)" "[[]] \<notin> set (pc_rows p)"
  shows "distinct (pc_header p) \<and> (\<forall>r\<in>set (pc_rows p). length r = length (pc_header p)) \<and>
    (\<exists>csv. arff_to_csv maxRows s = Inr csv \<and> parseCsv maxRows csv = Inr p)"
proof -
  note inv = parseArff_inv [OF assms(1), unfolded arff_inv_def prod.case]
  then obtain r where r: "r \<in> set (pc_rows p)" "r \<noteq> []" "length r = length (pc_header p)" "length r \<le> FIELD_MAX"
    by (metis list.set_intros(1) neq_Nil_conv)
  have "parseCsv maxRows (print_table (pc_header p) (pc_rows p)) = Inr \<lparr>pc_header = pc_header p, pc_rows = pc_rows p\<rparr>"
    using inv r assms(2,3) by (intro table_read_back) (auto simp: list_all_iff unbroken_def)
  then show ?thesis
    using inv assms(1) by (simp add: arff_to_csv_def)
qed

definition sample_arff :: string where
  "sample_arff = ''% sample'' @ [LF] @ ''@ATTRIBUTE a numeric'' @ [LF] @ ''@attribute '' @ [CHR 39] @ ''b c'' @ [CHR 39] @ '' string'' @ [LF] @ ''@data'' @ [LF] @
     ''1,'' @ [CHR 39] @ ''y z'' @ [CHR 39] @ [LF] @ ''2,?''"

theorem arff_conversion_lossless_witness:
  "parseArff 5 sample_arff = Inr \<lparr>pc_header = [''a'', ''b c''], pc_rows = [[''1'', ''y z''], [''2'', ''?'']]\<rparr> \<and>
   (\<exists>csv. arff_to_csv 5 sample_arff = Inr csv \<and> parseCsv 5 csv = Inr \<lparr>pc_header = [''a'', ''b c''], pc_rows = [[''1'', ''y z''], [''2'', ''?'']]\<rparr>)"
proof -
  have read: "parseArff 5 sample_arff = Inr \<lparr>pc_header = [''a'', ''b c''], pc_rows = [[''1'', ''y z''], [''2'', ''?'']]\<rparr>"
    by code_simp
  show ?thesis
    using read arff_conversion_lossless [OF read] by simp
qed

text \<open>A quoted nominal value with a comma is cut at the comma.\<close>

lemma quoted_comma_is_cut:
  "arff_row 5 [''a'', ''b''] [] ([CHR 39] @ ''x,y'' @ [CHR 39]) = Inr [[[CHR 39] @ ''x'', ''y'' @ [CHR 39]]]"
  by (simp add: arff_row_def starts_with_def tokenizeCsvLine_def FIELD_MAX_def dquote_def unquote_value_def)

end
