(* ===== verification/Dataset_Split.thy ===== *)
theory Dataset_Split
  imports Complex_Main "HOL-Library.Word" Json Dataset_Csv
begin

text \<open>
  The deterministic split of a dataset, \<^verbatim>\<open>src/src/experiment/split.ts\<close>: the 32-bit hashes that order rows and groups, the
  allocation to the train, validation and test parts, and the two entry points, on parsed rows and on streamed columns.
  Ratios are the rational values of the doubles, and a product of two doubles is rounded to 53 bits. The SHA-256 digest and
  the printer of a double are arguments.
\<close>

unbundle bit_operations_syntax

section \<open>Numbers\<close>

text \<open>A double is a rational number with 53 significant bits; the product of two of them is rounded to the nearest, ties to
  even. The exponent range plays no role: a ratio lies between 0 and 1 and a count below \<open>2 ^ 53\<close>.\<close>

function bit_length :: "int \<Rightarrow> nat" where
  "bit_length n = (if n \<le> 0 then 0 else Suc (bit_length (n div 2)))"
  by auto
termination
  by (relation "measure nat") auto

declare bit_length.simps [simp del]

definition pow2 :: "int \<Rightarrow> rat" where
  "pow2 e = (if 0 \<le> e then 2 ^ nat e else 1 / 2 ^ nat (- e))"

definition binade :: "rat \<Rightarrow> int" where
  "binade x = (case quotient_of x of (p, q) \<Rightarrow>
     let e = int (bit_length p) - int (bit_length q) in if pow2 e \<le> x then e else e - 1)"

definition round_even :: "rat \<Rightarrow> int" where
  "round_even x =
     (let f = \<lfloor>x\<rfloor>; d = x - of_int f in
      if d < 1 / 2 then f else if 1 / 2 < d then f + 1 else if even f then f else f + 1)"

definition double :: "rat \<Rightarrow> rat" where
  "double x = (if x = 0 then 0 else let s = pow2 (52 - binade x) in of_int (round_even (x * s)) / s)"

definition Math_round :: "rat \<Rightarrow> int" where
  "Math_round x = \<lfloor>x + 1 / 2\<rfloor>"

section \<open>Specifications\<close>

datatype split_method = Random | Random_stratified

record split_spec =
  sp_method :: split_method
  sp_train :: rat
  sp_val :: rat
  sp_test :: rat
  sp_seed :: int

definition split_spec_ok :: "split_spec \<Rightarrow> bool" where
  "split_spec_ok s \<longleftrightarrow> 0 < sp_train s \<and> 0 \<le> sp_val s \<and> 0 < sp_test s \<and>
     \<bar>double (double (sp_train s + sp_val s) + sp_test s) - 1\<bar> \<le> double (1 / 1000000000)"

text \<open>A count of the class balance. The table is a plain object: the first count of a class named like a member that every
  object inherits is appended to the text of that member.\<close>

datatype balance = Count nat | Text string

record split_outcome =
  so_datasetRecordId :: string
  so_specHash :: string
  so_trainIdx :: "nat list"
  so_valIdx :: "nat list"
  so_testIdx :: "nat list"
  so_classBalance :: "string \<rightharpoonup> balance"

record split_opts =
  op_datasetRecordId :: string
  op_datasetContentRef :: string
  op_targetColumn :: string
  op_split :: split_spec
  op_groupColumn :: "string option"

section \<open>Hashes\<close>

definition unit_bits :: "int \<Rightarrow> int \<Rightarrow> 32 word" where
  "unit_bits seed i =
     (let h0 = of_int seed XOR 0x9e3779b9;
          h1 = (h0 XOR (of_int i + 0x85ebca6b)) * 0xc2b2ae35;
          h2 = h1 XOR drop_bit 13 h1;
          h3 = h2 * 0x27d4eb2f
      in h3 XOR drop_bit 16 h3)"

definition unit_draw :: "int \<Rightarrow> int \<Rightarrow> rat" where
  "unit_draw seed i = of_int (uint (unit_bits seed i)) / 0x100000000"

definition fnv1a :: "string \<Rightarrow> int" where
  "fnv1a s = uint (foldl (\<lambda>h c. (h XOR of_nat (of_char c)) * 0x01000193) (0x811c9dc5 :: 32 word) s)"

definition print_method :: "split_method \<Rightarrow> string" where
  "print_method m = (case m of Random \<Rightarrow> ''random'' | Random_stratified \<Rightarrow> ''random_stratified'')"

definition splitSpecHash :: "(string \<Rightarrow> string) \<Rightarrow> (rat \<Rightarrow> string) \<Rightarrow> split_opts \<Rightarrow> string" where
  "splitSpecHash digest num opts = digest (
     ''{'' @ quote ''datasetContentRef'' @ '':'' @ quote (op_datasetContentRef opts) @ '','' @ quote ''targetColumn'' @ '':'' @ quote (op_targetColumn opts) @
     '','' @ quote ''split'' @ '':{'' @ quote ''method'' @ '':'' @ quote (print_method (sp_method (op_split opts))) @
     '','' @ quote ''ratios'' @ '':{'' @ quote ''train'' @ '':'' @ num (sp_train (op_split opts)) @ '','' @ quote ''val'' @ '':'' @ num (sp_val (op_split opts)) @
     '','' @ quote ''test'' @ '':'' @ num (sp_test (op_split opts)) @ ''},'' @ quote ''seed'' @ '':'' @ num (of_int (sp_seed (op_split opts))) @ ''}'' @
     (case op_groupColumn opts of None \<Rightarrow> [] | Some g \<Rightarrow> '','' @ quote ''groupColumn'' @ '':'' @ quote g) @ ''}'')"

section \<open>Allocation\<close>

type_synonym parts = "nat list \<times> nat list \<times> nat list"

text \<open>The insertion-ordered map from keys to the indices that have them.\<close>

fun push_index :: "string \<Rightarrow> nat \<Rightarrow> (string \<times> nat list) list \<Rightarrow> (string \<times> nat list) list" where
  "push_index k i [] = [(k, [i])]"
| "push_index k i ((k', is) # gs) = (if k' = k then (k', is @ [i]) # gs else (k', is) # push_index k i gs)"

definition group_indices :: "(nat \<Rightarrow> string) \<Rightarrow> nat \<Rightarrow> (string \<times> nat list) list" where
  "group_indices key n = foldl (\<lambda>gs i. push_index (key i) i gs) [] [0..<n]"

definition to_part :: "int \<Rightarrow> int \<Rightarrow> nat \<Rightarrow> nat list \<Rightarrow> parts \<Rightarrow> parts" where
  "to_part nTrain nVal k idxs p = (case p of (tr, va, te) \<Rightarrow>
     if int k < nTrain then (idxs @ tr, va, te)
     else if int k < nTrain + nVal then (tr, idxs @ va, te)
     else (tr, va, idxs @ te))"

fun assign_groups :: "int \<Rightarrow> int \<Rightarrow> nat \<Rightarrow> nat list list \<Rightarrow> parts" where
  "assign_groups nTrain nVal assigned [] = ([], [], [])"
| "assign_groups nTrain nVal assigned (idxs # rest) =
     to_part nTrain nVal assigned idxs (assign_groups nTrain nVal (assigned + length idxs) rest)"

fun allocate :: "int \<Rightarrow> int \<Rightarrow> nat \<Rightarrow> nat list \<Rightarrow> parts" where
  "allocate nTrain nVal k [] = ([], [], [])"
| "allocate nTrain nVal k (i # is) = to_part nTrain nVal k [i] (allocate nTrain nVal (Suc k) is)"

definition train_count :: "split_spec \<Rightarrow> nat \<Rightarrow> int" where
  "train_count s n = max 1 (Math_round (double (sp_train s * of_nat n)))"

definition val_count :: "split_spec \<Rightarrow> nat \<Rightarrow> int" where
  "val_count s n = Math_round (double (sp_val s * of_nat n))"

definition split_groups :: "split_spec \<Rightarrow> (nat \<Rightarrow> string) \<Rightarrow> nat \<Rightarrow> parts" where
  "split_groups s groupAt n =
     assign_groups (train_count s n) (val_count s n) 0
       (sort_key (\<lambda>ms. unit_draw (sp_seed s) (fnv1a (str_of_nat (ms ! 0)))) (map snd (group_indices groupAt n)))"

definition split_stratum :: "split_spec \<Rightarrow> nat list \<Rightarrow> parts" where
  "split_stratum s idxs =
     allocate (train_count s (length idxs)) (val_count s (length idxs)) 0 (sort_key (\<lambda>i. unit_draw (sp_seed s) (int i)) idxs)"

definition strata_of :: "split_spec \<Rightarrow> (nat \<Rightarrow> string) \<Rightarrow> nat \<Rightarrow> nat list list" where
  "strata_of s targetAt n =
     (case sp_method s of Random_stratified \<Rightarrow> map snd (group_indices targetAt n) | Random \<Rightarrow> [[0..<n]])"

definition join_parts :: "parts \<Rightarrow> parts \<Rightarrow> parts" where
  "join_parts p q = (case (p, q) of ((a, b, c), (d, e, f)) \<Rightarrow> (a @ d, b @ e, c @ f))"

definition split_strata :: "split_spec \<Rightarrow> (nat \<Rightarrow> string) \<Rightarrow> nat \<Rightarrow> parts" where
  "split_strata s targetAt n = foldr (\<lambda>ms p. join_parts (split_stratum s ms) p) (strata_of s targetAt n) ([], [], [])"

text \<open>The members every object inherits, with the text of each.\<close>

definition inherited_text :: "string \<Rightarrow> string option" where
  "inherited_text k =
     (if k = ''__proto__'' then Some ''[object Object]''
      else if k = ''constructor'' then Some ''function Object() { [native code] }''
      else if k \<in> {''toString'', ''toLocaleString'', ''valueOf'', ''hasOwnProperty'', ''isPrototypeOf'', ''propertyIsEnumerable'',
                   ''__defineGetter__'', ''__defineSetter__'', ''__lookupGetter__'', ''__lookupSetter__''}
      then Some (''function '' @ k @ ''() { [native code] }'')
      else None)"

definition read_balance :: "(string \<rightharpoonup> balance) \<Rightarrow> string \<Rightarrow> balance" where
  "read_balance b c = (case b c of Some v \<Rightarrow> v | None \<Rightarrow> (case inherited_text c of Some t \<Rightarrow> Text t | None \<Rightarrow> Count 0))"

fun add_one :: "balance \<Rightarrow> balance" where
  "add_one (Count n) = Count (Suc n)"
| "add_one (Text t) = Text (t @ ''1'')"

text \<open>Assigning a text to \<open>__proto__\<close> has no effect.\<close>

definition count_class :: "(string \<rightharpoonup> balance) \<Rightarrow> string \<Rightarrow> (string \<rightharpoonup> balance)" where
  "count_class b c = (if c = ''__proto__'' then b else b(c \<mapsto> add_one (read_balance b c)))"

definition class_balance :: "(nat \<Rightarrow> string) \<Rightarrow> nat list \<Rightarrow> string \<rightharpoonup> balance" where
  "class_balance targetAt testIdx = foldl (\<lambda>b i. count_class b (targetAt i)) Map.empty testIdx"

definition value_at :: "string list \<Rightarrow> nat \<Rightarrow> string" where
  "value_at vs i = (if i < length vs then vs ! i else [])"

definition group_at :: "string list option \<Rightarrow> nat \<Rightarrow> string" where
  "group_at vs i = (case vs of Some gs \<Rightarrow> value_at gs i | None \<Rightarrow> [])"

definition not_in_header :: "string \<Rightarrow> string \<Rightarrow> string" where
  "not_in_header what name = what @ '' column '' @ [CHR 39] @ name @ [CHR 39] @ '' not in dataset header''"

definition inconsistent :: "nat \<Rightarrow> string \<Rightarrow> nat \<Rightarrow> string" where
  "inconsistent k what n = ''split column view inconsistent: '' @ str_of_nat k @ '' '' @ what @ '' values for '' @ str_of_nat n @ '' rows''"

definition applySplitColumns ::
  "(string \<Rightarrow> string) \<Rightarrow> (rat \<Rightarrow> string) \<Rightarrow> string list \<Rightarrow> nat \<Rightarrow> string list \<Rightarrow> string list option \<Rightarrow> split_opts \<Rightarrow> string + split_outcome" where
  "applySplitColumns digest num header n targetValues groupValues opts =
     (if indexOf header (op_targetColumn opts) = None then Inl (not_in_header ''target'' (op_targetColumn opts))
      else case (case op_groupColumn opts of Some g \<Rightarrow> if indexOf header g = None then Some g else None | None \<Rightarrow> None) of
        Some g \<Rightarrow> Inl (not_in_header ''group'' g)
      | None \<Rightarrow>
          if length targetValues \<noteq> n then Inl (inconsistent (length targetValues) ''target'' n)
          else case (case groupValues of Some gs \<Rightarrow> if length gs \<noteq> n then Some gs else None | None \<Rightarrow> None) of
            Some gs \<Rightarrow> Inl (inconsistent (length gs) ''group'' n)
          | None \<Rightarrow>
              (case (if op_groupColumn opts \<noteq> None then split_groups (op_split opts) (group_at groupValues) n
                     else split_strata (op_split opts) (value_at targetValues) n) of
                 (tr, va, te) \<Rightarrow>
                   Inr \<lparr>so_datasetRecordId = op_datasetRecordId opts, so_specHash = splitSpecHash digest num opts,
                        so_trainIdx = sort tr, so_valIdx = sort va, so_testIdx = sort te,
                        so_classBalance = class_balance (value_at targetValues) (sort te)\<rparr>))"

definition applySplit ::
  "(string \<Rightarrow> string) \<Rightarrow> (rat \<Rightarrow> string) \<Rightarrow> string list \<Rightarrow> string list list \<Rightarrow> split_opts \<Rightarrow> string + split_outcome" where
  "applySplit digest num header rows opts =
     applySplitColumns digest num header (length rows)
       (map (field_at (indexOf header (op_targetColumn opts))) rows)
       (case Option.bind (op_groupColumn opts) (indexOf header) of Some k \<Rightarrow> Some (map (field_at (Some k)) rows) | None \<Rightarrow> None) opts"

text \<open>The split of an executor: the columns come from the streaming analysis of the file.\<close>

definition split_file ::
  "(string \<Rightarrow> string) \<Rightarrow> (rat \<Rightarrow> string) \<Rightarrow> nat \<Rightarrow> split_opts \<Rightarrow> string \<Rightarrow> string + split_outcome" where
  "split_file digest num maxRows opts text =
     (case analyzeCsvFile maxRows (op_targetColumn opts) (op_groupColumn opts) text of
        Inl m \<Rightarrow> Inl m
      | Inr csv \<Rightarrow> applySplitColumns digest num (cf_header csv) (cf_nRows csv) (cf_targetValues csv) (cf_groupValues csv) opts)"

section \<open>Rounding\<close>

lemma bit_length_bounds: "0 < n \<Longrightarrow> 2 ^ (bit_length n - 1) \<le> n \<and> n < 2 ^ bit_length n \<and> 0 < bit_length n"
proof (induction n rule: bit_length.induct)
  case (1 n)
  show ?case
  proof (cases "n = 1")
    case False
    then have IH: "2 ^ (bit_length (n div 2) - 1) \<le> n div 2" "n div 2 < 2 ^ bit_length (n div 2)" "0 < bit_length (n div 2)"
      using 1 by auto
    then obtain b where "bit_length (n div 2) = Suc b"
      by (cases "bit_length (n div 2)") auto
    then show ?thesis
      using IH 1 by (simp add: bit_length.simps [of n]) linarith
  qed (simp add: bit_length.simps)
qed

lemma pow2_pos: "0 < pow2 e"
  by (simp add: pow2_def)

lemma pow2_diff: "pow2 (int a - int b) = 2 ^ a / 2 ^ b"
  by (auto simp: pow2_def nat_diff_distrib' power_diff field_simps simp flip: of_nat_diff)

lemma pow2_add: "pow2 (d + e) = pow2 d * pow2 e"
proof -
  obtain a b where d: "d = int a - int b"
    using int_diff_cases by blast
  obtain a' b' where e: "e = int a' - int b'"
    using int_diff_cases by blast
  have "d + e = int (a + a') - int (b + b')"
    using d e by simp
  then show ?thesis
    using pow2_diff [of "a + a'" "b + b'"] by (simp add: d e pow2_diff power_add diff_add_eq add_diff_eq diff_diff_eq add.commute add.left_commute mult.commute)
qed

lemma binade_le:
  assumes "0 < x"
  shows "pow2 (binade x) \<le> x"
proof -
  obtain p q where pq: "quotient_of x = (p, q)"
    by (cases "quotient_of x")
  have x: "x = of_int p / of_int q" and q: "0 < q"
    using quotient_of_div [OF pq] quotient_of_denom_pos [OF pq] by auto
  then have p: "0 < p"
    using assms by (simp add: zero_less_divide_iff)
  let ?a = "bit_length p" and ?b = "bit_length q"
  have a: "2 ^ (?a - 1) \<le> p" "0 < ?a" and "q \<le> 2 ^ ?b"
    using bit_length_bounds [OF p] bit_length_bounds [OF q] by simp_all
  then have "(2::rat) ^ (?a - 1) \<le> of_int p" "of_int q \<le> (2::rat) ^ ?b"
    using of_int_le_iff [where ?'a = rat, of "2 ^ (?a - 1)" p] of_int_le_iff [where ?'a = rat, of q "2 ^ ?b"] by simp_all
  then have "(2::rat) ^ (?a - 1) / 2 ^ ?b \<le> x"
    unfolding x using q p by (intro frac_le) simp_all
  then have "pow2 (int ?a - int ?b - 1) \<le> x"
    using a(2) pow2_diff [of "?a - 1" ?b] by (simp add: of_nat_diff algebra_simps)
  then show ?thesis
    by (simp add: binade_def pq Let_def)
qed

lemma round_even_close: "\<bar>of_int (round_even x) - x\<bar> \<le> 1 / 2"
proof -
  let ?d = "x - of_int \<lfloor>x\<rfloor>"
  have "0 \<le> ?d" "?d < 1"
    by linarith+
  then show ?thesis
    by (cases "?d < 1 / 2"; cases "1 / 2 < ?d"; simp add: round_even_def Let_def abs_le_iff; linarith?)
qed

lemma double_close:
  assumes "0 \<le> x"
  shows "\<bar>double x - x\<bar> \<le> x / 2 ^ 53"
proof (cases "x = 0")
  case False
  let ?s = "pow2 (52 - binade x)"
  have s: "0 < ?s"
    by (rule pow2_pos)
  have "pow2 (52 - binade x) * pow2 (binade x) = 2 ^ 52"
    using pow2_add [of "52 - binade x" "binade x"] by (simp add: pow2_def)
  then have big: "2 ^ 52 \<le> x * ?s"
    using binade_le [of x] assms False s by (metis mult.commute mult_right_mono less_le)
  have "\<bar>double x - x\<bar> = \<bar>of_int (round_even (x * ?s)) - x * ?s\<bar> / ?s"
  proof -
    have "double x - x = (of_int (round_even (x * ?s)) - x * ?s) / ?s"
      using s False by (simp add: double_def Let_def diff_divide_distrib)
    then show ?thesis
      using s by (simp add: abs_divide)
  qed
  also have "\<dots> \<le> 1 / 2 / ?s"
    using s round_even_close by (intro divide_right_mono) simp_all
  also have "\<dots> \<le> x / 2 ^ 53"
    using s big by (simp add: field_simps)
  finally show ?thesis .
qed (simp add: double_def)

lemma rounded_count:
  assumes "0 \<le> y"
  shows "\<bar>of_int (Math_round (double y)) - y\<bar> \<le> 1 / 2 + y / 2 ^ 53"
proof -
  have "\<bar>of_int (Math_round (double y)) - double y\<bar> \<le> 1 / 2"
    unfolding Math_round_def by linarith
  then show ?thesis
    using double_close [OF assms] by linarith
qed

section \<open>Groups and parts\<close>

lemma push_index_map_of:
  "map_of (push_index k i gs) = (map_of gs)(k \<mapsto> (case map_of gs k of None \<Rightarrow> [i] | Some is \<Rightarrow> is @ [i]))"
  by (induction k i gs rule: push_index.induct) (auto simp: fun_eq_iff)

lemma push_index_keys: "set (map fst (push_index k i gs)) = insert k (set (map fst gs))"
  by (induction k i gs rule: push_index.induct) auto

lemma push_index_distinct: "distinct (map fst gs) \<Longrightarrow> distinct (map fst (push_index k i gs))"
  using push_index_keys by (induction k i gs rule: push_index.induct) auto

lemma push_index_mset: "mset (concat (map snd (push_index k i gs))) = add_mset i (mset (concat (map snd gs)))"
  by (induction k i gs rule: push_index.induct) auto

lemma group_indices_Suc: "group_indices key (Suc n) = push_index (key n) n (group_indices key n)"
  by (simp add: group_indices_def)

lemma group_indices_0: "group_indices key 0 = []"
  by (simp add: group_indices_def)

lemma group_indices_distinct: "distinct (map fst (group_indices key n))"
  by (induction n) (simp_all add: group_indices_0 group_indices_Suc push_index_distinct)

lemma group_indices_mset: "mset (concat (map snd (group_indices key n))) = mset [0..<n]"
  by (induction n) (simp_all add: group_indices_0 group_indices_Suc push_index_mset)

lemma group_indices_map_of:
  "map_of (group_indices key n) k = (if k \<in> key ` {..<n} then Some (filter (\<lambda>i. key i = k) [0..<n]) else None)"
proof (induction n)
  case (Suc n)
  then show ?case
    by (auto simp: group_indices_Suc push_index_map_of lessThan_Suc filter_empty_conv image_iff Bex_def) metis
qed (simp add: group_indices_0)

lemma group_indices_members: "(k, is) \<in> set (group_indices key n) \<Longrightarrow> is = filter (\<lambda>i. key i = k) [0..<n]"
  using group_indices_map_of [of key n k] by (simp add: map_of_is_SomeI [OF group_indices_distinct] split: if_splits)

definition listed :: "parts \<Rightarrow> nat list" where
  "listed p = (case p of (tr, va, te) \<Rightarrow> tr @ va @ te)"

text \<open>A set of rows lies in one part.\<close>

definition in_one_part :: "nat set \<Rightarrow> parts \<Rightarrow> bool" where
  "in_one_part S p \<longleftrightarrow> (case p of (tr, va, te) \<Rightarrow> S \<subseteq> set tr \<or> S \<subseteq> set va \<or> S \<subseteq> set te)"

lemma to_part_listed: "mset (listed (to_part a b k is p)) = mset is + mset (listed p)"
  by (cases p) (simp add: to_part_def listed_def)

lemma to_part_one: "in_one_part (set is) (to_part a b k is p)"
  by (cases p) (simp add: to_part_def in_one_part_def)

lemma to_part_keeps: "in_one_part S p \<Longrightarrow> in_one_part S (to_part a b k is p)"
  by (cases p) (auto simp: to_part_def in_one_part_def)

lemma assign_groups_listed: "mset (listed (assign_groups a b k gs)) = mset (concat gs)"
  by (induction a b k gs rule: assign_groups.induct) (simp_all add: to_part_listed, simp add: listed_def)

lemma assign_groups_one: "is \<in> set gs \<Longrightarrow> in_one_part (set is) (assign_groups a b k gs)"
  by (induction a b k gs rule: assign_groups.induct) (auto simp: to_part_one to_part_keeps)

lemma allocate_eq:
  "allocate a b k is =
     (let t = nat (a - int k); v = nat (b - max 0 (int k - a)) in (take t is, take v (drop t is), drop v (drop t is)))"
proof (induction a b k "is" rule: allocate.induct)
  case (2 a b k i "is")
  consider "int k < a" | "a \<le> int k" "int k < a + b" | "a \<le> int k" "a + b \<le> int k"
    by linarith
  then show ?case
  proof cases
    case 1
    then have "nat (a - int k) = Suc (nat (a - int (Suc k)))" "max 0 (int k - a) = 0" "max 0 (int (Suc k) - a) = 0"
      by simp_all
    then show ?thesis
      using 1 2 by (simp add: to_part_def Let_def)
  next
    case 2
    then have "nat (a - int k) = 0" "nat (a - int (Suc k)) = 0" "nat (b - max 0 (int k - a)) = Suc (nat (b - max 0 (int (Suc k) - a)))"
      by simp_all
    then show ?thesis
      using 2 \<open>allocate a b (Suc k) is = _\<close> by (simp add: to_part_def Let_def)
  next
    case 3
    then show ?thesis
      using 2 by (simp add: to_part_def Let_def)
  qed
qed simp

lemma split_stratum_eq:
  "split_stratum s is =
     (let t = nat (train_count s (length is)); v = nat (val_count s (length is)); os = sort_key (\<lambda>i. unit_draw (sp_seed s) (int i)) is
      in (take t os, take v (drop t os), drop v (drop t os)))"
proof -
  have "max 0 (- train_count s (length is)) = 0"
    by (simp add: train_count_def)
  then show ?thesis
    by (simp add: split_stratum_def allocate_eq Let_def)
qed

lemma split_stratum_listed: "mset (listed (split_stratum s is)) = mset is"
proof -
  have "take t os @ take v (drop t os) @ drop v (drop t os) = os" for t v and os :: "nat list"
    by (simp only: append_take_drop_id)
  then show ?thesis
    unfolding split_stratum_eq Let_def listed_def prod.case by (simp only: mset_sort)
qed

lemma join_parts_listed: "mset (listed (join_parts p q)) = mset (listed p) + mset (listed q)"
  by (cases p; cases q) (simp add: join_parts_def listed_def)

lemma join_strata_listed:
  "mset (listed (foldr (\<lambda>ms p. join_parts (split_stratum s ms) p) st ([], [], []))) = mset (concat st)"
  by (induction st) (simp_all add: join_parts_listed split_stratum_listed, simp add: listed_def)

lemma split_strata_listed: "mset (listed (split_strata s targetAt n)) = mset [0..<n]"
  unfolding split_strata_def join_strata_listed strata_of_def
  by (cases "sp_method s") (simp_all only: split_method.case group_indices_mset, simp)

lemma split_groups_listed: "mset (listed (split_groups s groupAt n)) = mset [0..<n]"
proof -
  have "mset (concat (sort_key f gs)) = mset (concat gs)" for f :: "nat list \<Rightarrow> rat" and gs
    by (simp add: mset_concat flip: sum_mset_sum_list)
  then show ?thesis
    unfolding split_groups_def assign_groups_listed by (simp only: group_indices_mset)
qed

lemma split_groups_one:
  assumes "i < n"
  shows "in_one_part {j. j < n \<and> groupAt j = groupAt i} (split_groups s groupAt n)"
proof -
  have "(groupAt i, filter (\<lambda>j. groupAt j = groupAt i) [0..<n]) \<in> set (group_indices groupAt n)"
    using assms group_indices_map_of [of groupAt n "groupAt i"] by (intro map_of_SomeD) auto
  then have "filter (\<lambda>j. groupAt j = groupAt i) [0..<n] \<in> set (sort_key f (map snd (group_indices groupAt n)))" for f :: "nat list \<Rightarrow> rat"
    by force
  moreover have "set (filter (\<lambda>j. groupAt j = groupAt i) [0..<n]) = {j. j < n \<and> groupAt j = groupAt i}"
    by auto
  ultimately show ?thesis
    unfolding split_groups_def by (metis assign_groups_one)
qed

section \<open>The split is a partition\<close>

definition split_parts :: "split_opts \<Rightarrow> string list \<Rightarrow> string list option \<Rightarrow> nat \<Rightarrow> parts" where
  "split_parts opts targetValues groupValues n =
     (if op_groupColumn opts \<noteq> None then split_groups (op_split opts) (group_at groupValues) n
      else split_strata (op_split opts) (value_at targetValues) n)"

lemma apply_parts:
  assumes "applySplitColumns digest num header n targetValues groupValues opts = Inr out"
  obtains tr va te where "split_parts opts targetValues groupValues n = (tr, va, te)"
    "so_trainIdx out = sort tr" "so_valIdx out = sort va" "so_testIdx out = sort te" "length targetValues = n"
  using assms unfolding applySplitColumns_def split_parts_def [symmetric]
  by (cases "split_parts opts targetValues groupValues n") (force split: if_splits option.splits)

lemma apply_succeeds:
  "(\<exists>out. applySplitColumns digest num header n targetValues groupValues opts = Inr out) \<longleftrightarrow>
   has_columns (op_targetColumn opts) (op_groupColumn opts) header \<and> length targetValues = n \<and>
   (case groupValues of Some gs \<Rightarrow> length gs = n | None \<Rightarrow> True)"
  unfolding applySplitColumns_def split_parts_def [symmetric]
  by (cases "split_parts opts targetValues groupValues n"; cases groupValues; cases "op_groupColumn opts") (simp_all add: has_columns_def indexOf_None)

lemma split_parts_listed: "mset (listed (split_parts opts targetValues groupValues n)) = mset [0..<n]"
  by (simp add: split_parts_def split_groups_listed split_strata_listed del: mset_upt)

lemma split_parts_distinct:
  assumes "split_parts opts targetValues groupValues n = (tr, va, te)"
  shows "distinct (tr @ va @ te)" "set tr \<union> set va \<union> set te = {..<n}"
proof -
  have "mset (tr @ va @ te) = mset [0..<n]"
    using split_parts_listed [of opts targetValues groupValues n] assms by (simp add: listed_def)
  then show "distinct (tr @ va @ te)"
    using mset_eq_imp_distinct_iff distinct_upt by blast
  have "set (tr @ va @ te) = set [0..<n]"
    using \<open>mset (tr @ va @ te) = mset [0..<n]\<close> by (rule mset_eq_setD)
  then show "set tr \<union> set va \<union> set te = {..<n}"
    by (simp add: Un_assoc lessThan_atLeast0)
qed

text \<open>C35. A split is a partition of the rows: when it succeeds, the three index lists ascend strictly, no row is in two of
  them and every row is in one; with a group column, all rows of a group are in the same list.\<close>

theorem split_is_partition:
  assumes "applySplitColumns digest num header n targetValues groupValues opts = Inr out"
  shows "sorted_wrt (<) (so_trainIdx out) \<and> sorted_wrt (<) (so_valIdx out) \<and> sorted_wrt (<) (so_testIdx out) \<and>
    distinct (so_trainIdx out @ so_valIdx out @ so_testIdx out) \<and>
    set (so_trainIdx out @ so_valIdx out @ so_testIdx out) = {..<n} \<and>
    (op_groupColumn opts \<noteq> None \<longrightarrow>
       (\<forall>i<n. \<forall>j<n. group_at groupValues i = group_at groupValues j \<longrightarrow>
          (i \<in> set (so_trainIdx out) \<longleftrightarrow> j \<in> set (so_trainIdx out)) \<and> (i \<in> set (so_valIdx out) \<longleftrightarrow> j \<in> set (so_valIdx out)) \<and>
          (i \<in> set (so_testIdx out) \<longleftrightarrow> j \<in> set (so_testIdx out))))"
proof -
  obtain tr va te where parts: "split_parts opts targetValues groupValues n = (tr, va, te)"
    and out: "so_trainIdx out = sort tr" "so_valIdx out = sort va" "so_testIdx out = sort te"
    using assms by (rule apply_parts)
  note part = split_parts_distinct [OF parts]
  have ascending: "sorted_wrt (<) (sort tr)" "sorted_wrt (<) (sort va)" "sorted_wrt (<) (sort te)"
    and disjoint: "distinct (sort tr @ sort va @ sort te)"
    using part(1) by (simp_all add: strict_sorted_iff)
  have together: "(i \<in> set tr \<longleftrightarrow> j \<in> set tr) \<and> (i \<in> set va \<longleftrightarrow> j \<in> set va) \<and> (i \<in> set te \<longleftrightarrow> j \<in> set te)"
    if "op_groupColumn opts \<noteq> None" "i < n" "j < n" "group_at groupValues i = group_at groupValues j" for i j
  proof -
    have "in_one_part {k. k < n \<and> group_at groupValues k = group_at groupValues i} (tr, va, te)"
      using split_groups_one [of i n "group_at groupValues" "op_split opts"] that parts by (simp add: split_parts_def)
    then show ?thesis
      using that part(1) by (auto simp: in_one_part_def)
  qed
  show ?thesis
    unfolding out set_append set_sort using ascending disjoint part(2) together by (simp only: Un_assoc simp_thms) blast
qed

definition sample_opts :: "string option \<Rightarrow> split_opts" where
  "sample_opts g = \<lparr>op_datasetRecordId = ''d'', op_datasetContentRef = ''c'', op_targetColumn = ''y'',
     op_split = \<lparr>sp_method = Random_stratified, sp_train = 1 / 2, sp_val = 1 / 4, sp_test = 1 / 4, sp_seed = 42\<rparr>, op_groupColumn = g\<rparr>"

theorem split_is_partition_witness:
  "\<exists>out. applySplitColumns id (\<lambda>_. []) [''g'', ''y''] 4 [''a'', ''b'', ''a'', ''b''] (Some [''u'', ''v'', ''u'', ''w'']) (sample_opts (Some ''g'')) = Inr out \<and>
    set (so_trainIdx out @ so_valIdx out @ so_testIdx out) = {..<4} \<and> (0 \<in> set (so_testIdx out) \<longleftrightarrow> 2 \<in> set (so_testIdx out))"
proof -
  let ?gs = "Some [''u'', ''v'', ''u'', ''w'']"
  obtain out where out: "applySplitColumns id (\<lambda>_. []) [''g'', ''y''] 4 [''a'', ''b'', ''a'', ''b''] ?gs (sample_opts (Some ''g'')) = Inr out"
    using apply_succeeds [of id "\<lambda>_. []" "[''g'', ''y'']" 4 "[''a'', ''b'', ''a'', ''b'']" ?gs "sample_opts (Some ''g'')"]
    by (auto simp: has_columns_def sample_opts_def)
  have "group_at ?gs 0 = group_at ?gs 2" "op_groupColumn (sample_opts (Some ''g'')) \<noteq> None"
    by (simp_all add: group_at_def value_at_def sample_opts_def)
  then have "set (so_trainIdx out @ so_valIdx out @ so_testIdx out) = {..<4} \<and> (0 \<in> set (so_testIdx out) \<longleftrightarrow> 2 \<in> set (so_testIdx out))"
    using split_is_partition [OF out] by simp
  then show ?thesis
    using out by blast
qed

section \<open>Class counts\<close>

lemma strata_filter:
  assumes "distinct (map fst gs)" "\<And>k is i. (k, is) \<in> set gs \<Longrightarrow> i \<in> set (f is) \<Longrightarrow> key i = k"
  shows "filter (\<lambda>i. key i = c) (concat (map (\<lambda>g. f (snd g)) gs)) = (case map_of gs c of None \<Rightarrow> [] | Some is \<Rightarrow> f is)"
  using assms
proof (induction gs)
  case (Cons g gs)
  obtain k "is" where g: "g = (k, is)"
    by (cases g)
  have one: "filter (\<lambda>i. key i = c) (f is) = (if k = c then f is else [])"
    using Cons.prems(2) g by (auto simp: filter_id_conv filter_empty_conv)
  have rest: "filter (\<lambda>i. key i = c) (concat (map (\<lambda>g. f (snd g)) gs)) = (case map_of gs c of None \<Rightarrow> [] | Some is \<Rightarrow> f is)"
    using Cons.prems by (intro Cons.IH) (simp, metis list.set_intros(2))
  have "k = c \<Longrightarrow> map_of gs c = None"
    using Cons.prems(1) g by (simp add: map_of_eq_None_iff)
  then show ?case
    unfolding g by (auto simp: one rest)
qed simp

lemma join_strata:
  "foldr (\<lambda>ms p. join_parts (h ms) p) st ([], [], []) =
     (concat (map (\<lambda>ms. fst (h ms)) st), concat (map (\<lambda>ms. fst (snd (h ms))) st), concat (map (\<lambda>ms. snd (snd (h ms))) st))"
  by (induction st) (auto simp: join_parts_def split: prod.splits)

lemma filter_length_sort: "length (filter P (sort xs)) = length (filter P xs)" for xs :: "nat list"
  by (metis mset_filter mset_sort size_mset)

lemma split_stratum_subset:
  "set (fst (split_stratum s is)) \<subseteq> set is" "set (fst (snd (split_stratum s is))) \<subseteq> set is" "set (snd (snd (split_stratum s is))) \<subseteq> set is"
proof -
  have "set (listed (split_stratum s is)) = set is"
    using split_stratum_listed by (rule mset_eq_setD)
  then show "set (fst (split_stratum s is)) \<subseteq> set is" "set (fst (snd (split_stratum s is))) \<subseteq> set is" "set (snd (snd (split_stratum s is))) \<subseteq> set is"
    by (cases "split_stratum s is"; auto simp: listed_def)+
qed

lemma stratum_of_class:
  assumes "\<And>is. set (f is) \<subseteq> set is"
  shows "filter (\<lambda>i. key i = c) (concat (map f (map snd (group_indices key n)))) = f (filter (\<lambda>i. key i = c) [0..<n])"
proof -
  have "filter (\<lambda>i. key i = c) (concat (map (\<lambda>g. f (snd g)) (group_indices key n))) =
      (case map_of (group_indices key n) c of None \<Rightarrow> [] | Some is \<Rightarrow> f is)"
    using assms by (intro strata_filter group_indices_distinct) (fastforce dest!: group_indices_members)
  moreover have "f [] = []" "c \<notin> key ` {..<n} \<Longrightarrow> filter (\<lambda>i. key i = c) [0..<n] = []"
    using assms [of "[]"] by (auto simp: filter_empty_conv)
  ultimately show ?thesis
    by (simp add: group_indices_map_of comp_def)
qed

lemma count_positions: "length (filter (\<lambda>i. value_at vs i = c) [0..<length vs]) = count_list vs c"
proof -
  have "map (value_at vs) [0..<length vs] = vs"
    by (rule nth_equalityI) (simp_all add: value_at_def)
  then have "count_list vs c = length (filter (\<lambda>v. v = c) (map (value_at vs) [0..<length vs]))"
    by (simp add: count_list_eq_length_filter) (rule arg_cong [where f = length], rule filter_cong, auto)
  then show ?thesis
    by (simp add: filter_map comp_def)
qed

definition class_rows :: "string list \<Rightarrow> string \<Rightarrow> nat list \<Rightarrow> nat" where
  "class_rows targetValues c is = length (filter (\<lambda>i. value_at targetValues i = c) is)"

lemma rounded_nat:
  assumes "0 \<le> y"
  shows "0 \<le> Math_round (double y)" "\<bar>of_nat (nat (Math_round (double y))) - y\<bar> \<le> 1 / 2 + y / 2 ^ 53"
proof -
  have "y / 2 ^ 53 \<le> y"
    using assms by (simp add: field_simps)
  then show pos: "0 \<le> Math_round (double y)"
    using rounded_count [OF assms] by linarith
  show "\<bar>of_nat (nat (Math_round (double y))) - y\<bar> \<le> 1 / 2 + y / 2 ^ 53"
    using rounded_count [OF assms] pos by simp
qed

lemma stratified_class_parts:
  fixes c :: string
  assumes "split_parts opts targetValues groupValues (length targetValues) = (tr, va, te)"
    and "op_groupColumn opts = None" "sp_method (op_split opts) = Random_stratified"
  defines "k \<equiv> count_list targetValues c" and "s \<equiv> op_split opts"
  shows "class_rows targetValues c tr = min k (nat (train_count s k))"
    and "class_rows targetValues c va = min (k - class_rows targetValues c tr) (nat (val_count s k))"
    and "class_rows targetValues c tr + class_rows targetValues c va + class_rows targetValues c te = k"
proof -
  let ?key = "value_at targetValues" and ?n = "length targetValues"
  let ?rows_c = "filter (\<lambda>i. ?key i = c) [0..<?n]"
  have "(tr, va, te) = split_strata s ?key ?n"
    using assms(1,2) by (simp add: split_parts_def s_def)
  then have parts: "tr = concat (map (\<lambda>ms. fst (split_stratum s ms)) (map snd (group_indices ?key ?n)))"
    "va = concat (map (\<lambda>ms. fst (snd (split_stratum s ms))) (map snd (group_indices ?key ?n)))"
    "te = concat (map (\<lambda>ms. snd (snd (split_stratum s ms))) (map snd (group_indices ?key ?n)))"
    using assms(3) unfolding split_strata_def join_strata by (simp_all add: strata_of_def s_def)
  have rows: "class_rows targetValues c tr = length (fst (split_stratum s ?rows_c))"
    "class_rows targetValues c va = length (fst (snd (split_stratum s ?rows_c)))"
    "class_rows targetValues c te = length (snd (snd (split_stratum s ?rows_c)))"
    unfolding class_rows_def parts by (simp_all only: stratum_of_class split_stratum_subset)
  have "length ?rows_c = k"
    unfolding k_def by (rule count_positions)
  then show "class_rows targetValues c tr = min k (nat (train_count s k))"
    "class_rows targetValues c va = min (k - class_rows targetValues c tr) (nat (val_count s k))"
    "class_rows targetValues c tr + class_rows targetValues c va + class_rows targetValues c te = k"
    unfolding rows split_stratum_eq Let_def by (simp_all add: min_def)
qed

text \<open>C36. A stratified split takes from every class of \<open>k\<close> rows the number of rows that its ratio asks for: the training and
  the validation part get the ratio times \<open>k\<close>, rounded (to within a half and the rounding of the double product) and cut to
  what is left of the class, the training part at least one row of a class that occurs, and the test part the rest.\<close>

theorem stratified_counts:
  assumes "applySplitColumns digest num header n targetValues groupValues opts = Inr out"
    and "op_groupColumn opts = None" "sp_method (op_split opts) = Random_stratified" "split_spec_ok (op_split opts)"
  shows "\<forall>c. \<exists>t v. let k = count_list targetValues c; y = sp_train (op_split opts) * of_nat k; z = sp_val (op_split opts) * of_nat k in
    class_rows targetValues c (so_trainIdx out) = min k (max 1 t) \<and>
    class_rows targetValues c (so_valIdx out) = min (k - class_rows targetValues c (so_trainIdx out)) v \<and>
    class_rows targetValues c (so_trainIdx out) + class_rows targetValues c (so_valIdx out) + class_rows targetValues c (so_testIdx out) = k \<and>
    \<bar>of_nat t - y\<bar> \<le> 1 / 2 + y / 2 ^ 53 \<and> \<bar>of_nat v - z\<bar> \<le> 1 / 2 + z / 2 ^ 53"
proof
  fix c
  let ?s = "op_split opts" and ?k = "count_list targetValues c"
  obtain tr va te where parts: "split_parts opts targetValues groupValues n = (tr, va, te)"
    and out: "so_trainIdx out = sort tr" "so_valIdx out = sort va" "so_testIdx out = sort te" and n: "length targetValues = n"
    using assms(1) by (rule apply_parts)
  have sorted: "class_rows targetValues c (sort xs) = class_rows targetValues c xs" for xs
    by (simp add: class_rows_def filter_length_sort)
  have pos: "0 \<le> sp_train ?s * of_nat ?k" "0 \<le> sp_val ?s * of_nat ?k"
    using assms(4) by (simp_all add: split_spec_ok_def)
  have train: "nat (train_count ?s ?k) = max 1 (nat (Math_round (double (sp_train ?s * of_nat ?k))))"
    unfolding train_count_def by linarith
  note cls = stratified_class_parts [OF parts [folded n] assms(2,3), of c, unfolded train val_count_def]
  show "\<exists>t v. let k = ?k; y = sp_train ?s * of_nat k; z = sp_val ?s * of_nat k in
    class_rows targetValues c (so_trainIdx out) = min k (max 1 t) \<and>
    class_rows targetValues c (so_valIdx out) = min (k - class_rows targetValues c (so_trainIdx out)) v \<and>
    class_rows targetValues c (so_trainIdx out) + class_rows targetValues c (so_valIdx out) + class_rows targetValues c (so_testIdx out) = k \<and>
    \<bar>of_nat t - y\<bar> \<le> 1 / 2 + y / 2 ^ 53 \<and> \<bar>of_nat v - z\<bar> \<le> 1 / 2 + z / 2 ^ 53"
    unfolding Let_def out sorted using cls rounded_nat(2) [OF pos(1)] rounded_nat(2) [OF pos(2)] by blast
qed

theorem stratified_counts_witness:
  "\<exists>out. applySplitColumns id (\<lambda>_. []) [''g'', ''y''] 6 [''a'', ''a'', ''a'', ''a'', ''b'', ''b''] None (sample_opts None) = Inr out \<and>
    class_rows [''a'', ''a'', ''a'', ''a'', ''b'', ''b''] ''a'' (so_trainIdx out) + class_rows [''a'', ''a'', ''a'', ''a'', ''b'', ''b''] ''a'' (so_valIdx out) +
    class_rows [''a'', ''a'', ''a'', ''a'', ''b'', ''b''] ''a'' (so_testIdx out) = 4"
proof -
  let ?ts = "[''a'', ''a'', ''a'', ''a'', ''b'', ''b'']"
  obtain out where out: "applySplitColumns id (\<lambda>_. []) [''g'', ''y''] 6 ?ts None (sample_opts None) = Inr out"
    using apply_succeeds [of id "\<lambda>_. []" "[''g'', ''y'']" 6 ?ts None "sample_opts None"]
    by (auto simp: has_columns_def sample_opts_def)
  have ok: "op_groupColumn (sample_opts None) = None" "sp_method (op_split (sample_opts None)) = Random_stratified"
    "split_spec_ok (op_split (sample_opts None))"
    by code_simp+
  have "class_rows ?ts ''a'' (so_trainIdx out) + class_rows ?ts ''a'' (so_valIdx out) + class_rows ?ts ''a'' (so_testIdx out) = count_list ?ts ''a''"
    using stratified_counts [OF out ok, THEN spec [where x = "''a''"]] unfolding Let_def by blast
  moreover have "count_list ?ts ''a'' = 4"
    by simp
  ultimately show ?thesis
    using out by (simp only:) blast
qed

section \<open>Streamed and parsed splits\<close>

lemma stats_groups:
  assumes "has_columns t g (pc_header p)"
  shows "(case Option.bind g (indexOf (pc_header p)) of Some k \<Rightarrow> Some (map (field_at (Some k)) (pc_rows p)) | None \<Rightarrow> None) =
    cf_groupValues (stats_of t g p)"
proof (cases g)
  case (Some a)
  then have "indexOf (pc_header p) a \<noteq> None"
    using assms by (simp add: has_columns_def indexOf_None)
  then show ?thesis
    using Some by (auto simp: stats_of_def)
qed (simp add: stats_of_def)


section \<open>The class balance\<close>

lemma class_balance_snoc: "class_balance key (is @ [i]) = count_class (class_balance key is) (key i)"
  by (simp add: class_balance_def)

text \<open>An ordinary class is counted; a class with the name of an inherited member is not.\<close>

lemma class_balance_counts:
  assumes "inherited_text c = None"
  shows "class_balance key is c = (let k = length (filter (\<lambda>i. key i = c) is) in if k = 0 then None else Some (Count k))"
proof (induction "is" rule: rev_induct)
  case (snoc i "is")
  have "c \<noteq> ''__proto__''"
    using assms by (auto simp: inherited_text_def)
  then show ?case
    using snoc assms by (auto simp: class_balance_snoc count_class_def read_balance_def Let_def split: if_splits)
qed (simp add: class_balance_def)

lemma class_balance_inherited_name:
  "class_balance (\<lambda>_. ''toString'') [0, 1] ''toString'' = Some (Text ''function toString() { [native code] }11'')"
  by (simp add: class_balance_def count_class_def read_balance_def inherited_text_def)

end
